(* ===== verification/Prelude.thy ===== *)
theory Prelude
  imports Complex_Main "HOL-Library.AList" "HOL-Library.Multiset"
begin

section \<open>Shared vocabulary of the development\<close>

text \<open>
  What every component theory uses: Python's exceptions as values, the result type of a
  function that may raise, Python's list slices and integer division, and dictionaries as
  association lists in insertion order. The generic lemmas are declared \<open>[simp]\<close> where
  that is safe, and otherwise collected in \<open>res_simps\<close> (results that did not raise)
  and \<open>dict_simps\<close> (dictionary operations).
\<close>

named_theorems res_simps \<open>inversion of computations that return\<close>
named_theorems dict_simps \<open>dictionary operations\<close>

subsection \<open>Exceptions as values\<close>

datatype py_error =
    AssertionError
  | ValueError
  | IndexError
  | KeyError
  | TypeError
  | AttributeError
  | ZeroDivisionError
  | NotImplementedError
  | RuntimeError
  | NonFinite \<comment> \<open>no exception: a float tensor whose value is infinite or NaN\<close>

type_synonym 'a result = "py_error + 'a"

fun rbind :: "'a result \<Rightarrow> ('a \<Rightarrow> 'b result) \<Rightarrow> 'b result" where
  "rbind (Inl e) f = Inl e"
| "rbind (Inr x) f = f x"

definition ensure :: "py_error \<Rightarrow> bool \<Rightarrow> unit result" where
  "ensure e b = (if b then Inr () else Inl e)"

abbreviation py_assert :: "bool \<Rightarrow> unit result" where
  "py_assert b \<equiv> ensure AssertionError b"

fun rmap :: "('a \<Rightarrow> 'b result) \<Rightarrow> 'a list \<Rightarrow> 'b list result" where
  "rmap f [] = Inr []"
| "rmap f (x # xs) = rbind (f x) (\<lambda>y. rbind (rmap f xs) (\<lambda>ys. Inr (y # ys)))"

fun rfold :: "('a \<Rightarrow> 'b \<Rightarrow> 'b result) \<Rightarrow> 'a list \<Rightarrow> 'b \<Rightarrow> 'b result" where
  "rfold f [] s = Inr s"
| "rfold f (x # xs) s = rbind (f x s) (rfold f xs)"

lemma rbind_Inr_iff [res_simps]: "rbind m f = Inr y \<longleftrightarrow> (\<exists>x. m = Inr x \<and> f x = Inr y)"
  by (cases m) auto

lemma rbind_Inl_iff: "rbind m f = Inl e \<longleftrightarrow> m = Inl e \<or> (\<exists>x. m = Inr x \<and> f x = Inl e)"
  by (cases m) auto

lemma ensure_Inr_iff [simp, res_simps]: "ensure e b = Inr u \<longleftrightarrow> b"
  by (simp add: ensure_def)

lemma ensure_True [simp]: "ensure e True = Inr ()"
  by (simp add: ensure_def)

lemma ensure_False [simp]: "ensure e False = Inl e"
  by (simp add: ensure_def)

lemma ensure_Inl_iff [simp]: "ensure e b = Inl e' \<longleftrightarrow> \<not> b \<and> e' = e"
  by (auto simp: ensure_def)

lemma rmap_length: "rmap f xs = Inr ys \<Longrightarrow> length ys = length xs"
  by (induction xs arbitrary: ys) (auto simp: res_simps)

lemma rmap_nth: "rmap f xs = Inr ys \<Longrightarrow> i < length xs \<Longrightarrow> f (xs ! i) = Inr (ys ! i)"
  by (induction xs arbitrary: ys i) (auto simp: res_simps nth_Cons split: nat.splits)

lemma rmap_total: "(\<And>x. x \<in> set xs \<Longrightarrow> f x = Inr (g x)) \<Longrightarrow> rmap f xs = Inr (map g xs)"
  by (induction xs) auto

lemma rmap_list_all2:
  "(\<And>x. x \<in> set xs \<Longrightarrow> \<exists>y. f x = Inr y \<and> Q x y) \<Longrightarrow> \<exists>ys. rmap f xs = Inr ys \<and> list_all2 Q xs ys"
  by (induction xs) (force simp: res_simps)+

lemma rmap_cong [fundef_cong]:
  "xs = ys \<Longrightarrow> (\<And>x. x \<in> set ys \<Longrightarrow> f x = g x) \<Longrightarrow> rmap f xs = rmap g ys"
  by (induction ys arbitrary: xs) auto

lemma rfold_invariant:
  assumes "rfold f xs s = Inr t" and "I s"
    and "\<And>x s s'. x \<in> set xs \<Longrightarrow> I s \<Longrightarrow> f x s = Inr s' \<Longrightarrow> I s'"
  shows "I t"
  using assms by (induction xs arbitrary: s) (auto simp: res_simps)

subsection \<open>Python integers\<close>

text \<open>\<open>//\<close> and \<open>%\<close> round towards minus infinity, as \<open>div\<close> and \<open>mod\<close> do; a zero divisor
  raises.\<close>

definition py_floordiv :: "int \<Rightarrow> int \<Rightarrow> int result" where
  "py_floordiv a b = (if b = 0 then Inl ZeroDivisionError else Inr (a div b))"

definition py_mod :: "int \<Rightarrow> int \<Rightarrow> int result" where
  "py_mod a b = (if b = 0 then Inl ZeroDivisionError else Inr (a mod b))"

lemma py_floordiv_Inr [simp]: "py_floordiv a b = Inr q \<longleftrightarrow> b \<noteq> 0 \<and> q = a div b"
  by (auto simp: py_floordiv_def)

lemma py_mod_Inr [simp]: "py_mod a b = Inr q \<longleftrightarrow> b \<noteq> 0 \<and> q = a mod b"
  by (auto simp: py_mod_def)

subsection \<open>Python lists\<close>

text \<open>Indexing that raises, the slice \<open>xs[i:j]\<close> with natural bounds, and picking rows.\<close>

definition py_nth :: "'a list \<Rightarrow> nat \<Rightarrow> 'a result" where
  "py_nth xs i = (if i < length xs then Inr (xs ! i) else Inl IndexError)"

definition slice :: "nat \<Rightarrow> nat \<Rightarrow> 'a list \<Rightarrow> 'a list" where
  "slice i j xs = drop i (take j xs)"

definition picks :: "'a list \<Rightarrow> nat list \<Rightarrow> 'a list" where
  "picks xs is = map ((!) xs) is"

definition py_max :: "int list \<Rightarrow> int result" where
  "py_max xs = (case xs of [] \<Rightarrow> Inl ValueError | y # ys \<Rightarrow> Inr (fold max ys y))"

definition py_min :: "int list \<Rightarrow> int result" where
  "py_min xs = (case xs of [] \<Rightarrow> Inl ValueError | y # ys \<Rightarrow> Inr (fold min ys y))"

text \<open>\<open>xs[i:j]\<close> and \<open>xs[i:]\<close> with bounds of either sign.\<close>

definition clip_bound :: "nat \<Rightarrow> int \<Rightarrow> nat" where
  "clip_bound n i = (if 0 \<le> i then min (nat i) n else n - nat (- i))"

definition py_slice :: "'a list \<Rightarrow> int \<Rightarrow> int \<Rightarrow> 'a list" where
  "py_slice xs i j = slice (clip_bound (length xs) i) (clip_bound (length xs) j) xs"

definition py_slice_from :: "'a list \<Rightarrow> int \<Rightarrow> 'a list" where
  "py_slice_from xs i = drop (clip_bound (length xs) i) xs"

text \<open>The offsets of \<open>range(0, n, step)\<close> for a positive step.\<close>

definition range_step :: "nat \<Rightarrow> nat \<Rightarrow> nat list" where
  "range_step n step = map (\<lambda>c. c * step) [0..<(n + step - 1) div step]"

lemma py_max_Inr: "py_max xs = Inr m \<longleftrightarrow> xs \<noteq> [] \<and> m = Max (set xs)"
  by (cases xs) (auto simp: py_max_def Max.set_eq_fold [symmetric])

lemma py_min_Inr: "py_min xs = Inr m \<longleftrightarrow> xs \<noteq> [] \<and> m = Min (set xs)"
  by (cases xs) (auto simp: py_min_def Min.set_eq_fold [symmetric])

lemma py_nth_Inr [simp, res_simps]: "py_nth xs i = Inr x \<longleftrightarrow> i < length xs \<and> x = xs ! i"
  by (auto simp: py_nth_def)

lemma length_slice [simp]: "length (slice i j xs) = min j (length xs) - i"
  by (simp add: slice_def)

lemma length_picks [simp]: "length (picks xs is) = length is"
  by (simp add: picks_def)

lemma rmap_py_nth: "\<forall>i \<in> set is. i < length xs \<Longrightarrow> rmap (py_nth xs) is = Inr (picks xs is)"
  by (induction "is") (auto simp: py_nth_def picks_def)

lemma rmap_py_nth_Inr: "rmap (py_nth xs) is = Inr ys \<Longrightarrow> ys = picks xs is \<and> (\<forall>i \<in> set is. i < length xs)"
  by (induction "is" arbitrary: ys) (auto simp: res_simps picks_def)

lemma picks_all [simp]: "picks xs [0..<length xs] = xs"
  by (simp add: picks_def map_nth)

lemma picks_map: "\<forall>i \<in> set is. i < length xs \<Longrightarrow> picks (map f xs) is = map f (picks xs is)"
  by (simp add: picks_def)

lemma picks_picks: "\<forall>j \<in> set js. j < length is \<Longrightarrow> picks (picks xs is) js = picks xs (picks is js)"
  by (simp add: picks_def)

lemma picks_append: "picks xs (is @ js) = picks xs is @ picks xs js"
  by (simp add: picks_def)

lemma concat_picks: "concat (map (picks xs) iss) = picks xs (concat iss)"
  by (simp add: picks_def [abs_def] map_concat)

lemma slice_append_slice: "i \<le> j \<Longrightarrow> j \<le> k \<Longrightarrow> slice i j xs @ slice j k xs = slice i k xs"
proof -
  assume a: "i \<le> j" "j \<le> k"
  have "take k xs = take j xs @ drop j (take k xs)"
    using a by (metis append_take_drop_id min.absorb1 take_take)
  then have "drop i (take k xs) = drop i (take j xs @ drop j (take k xs))" by (rule arg_cong)
  also have "\<dots> = drop i (take j xs) @ drop (i - length (take j xs)) (drop j (take k xs))"
    by (rule drop_append)
  also have "drop (i - length (take j xs)) (drop j (take k xs)) = drop j (take k xs)"
    using a by (cases "j \<le> length xs") auto
  finally show ?thesis by (simp add: slice_def)
qed

lemma concat_blocks: "concat (map (\<lambda>c. map (\<lambda>i. f (c * k + i)) [0..<k]) [0..<m]) = map f [0..<m * k]"
proof (induction m)
  case (Suc m)
  have "[0..<Suc m * k] = [0..<m * k] @ map (\<lambda>i. m * k + i) [0..<k]"
    using upt_add_eq_append [of 0 "m * k" k] map_add_upt [of "m * k" k] by (simp add: add.commute)
  then show ?case using Suc.IH by (simp add: comp_def del: upt_Suc mult_Suc) (simp add: add.commute)
qed simp

lemma mset_concat_cong: "mset xs = mset ys \<Longrightarrow> mset (concat (map f xs)) = mset (concat (map f ys))"
  by (metis mset_concat mset_map sum_mset_sum_list)

lemma mset_concat_list_all2:
  "list_all2 (\<lambda>x y. mset (h y) = mset (g x)) xs ys \<Longrightarrow>
   mset (concat (map h ys)) = mset (concat (map g xs))"
  by (induction rule: list_all2_induct) auto

lemma sort_Nil_iff [simp]: "sort xs = [] \<longleftrightarrow> xs = []"
  by (metis length_0_conv length_sort)

lemma distinct_concat_nth:
  assumes "distinct (concat ps)" "a < b" "b < length ps"
  shows "set (ps ! a) \<inter> set (ps ! b) = {}"
proof -
  have split: "concat ps = concat (take b ps) @ concat (drop b ps)"
    by (metis append_take_drop_id concat_append)
  have "take b ps ! a \<in> set (take b ps)" using assms by (intro nth_mem) simp
  then have "ps ! a \<in> set (take b ps)" using assms(2) by simp
  then have a: "set (ps ! a) \<subseteq> set (concat (take b ps))" by auto
  have "drop b ps ! 0 \<in> set (drop b ps)" using assms by (intro nth_mem) simp
  then have "ps ! b \<in> set (drop b ps)" using assms(3) by simp
  then have b: "set (ps ! b) \<subseteq> set (concat (drop b ps))" by auto
  have "set (concat (take b ps)) \<inter> set (concat (drop b ps)) = {}"
    using assms(1) unfolding split distinct_append by blast
  then show ?thesis using a b by blast
qed

lemma mset_picks_perm:
  "mset is = mset [0..<length xs] \<Longrightarrow> mset (picks xs is) = mset xs"
  by (metis mset_map picks_all picks_def)

lemma perm_upt_iff: "mset is = mset [0..<n] \<longleftrightarrow> distinct is \<and> set is = {0..<n}"
  by (metis atLeastLessThan_upt distinct_upt mset_eq_imp_distinct_iff set_eq_iff_mset_eq_distinct
      set_mset_mset)

subsection \<open>Dictionaries\<close>

text \<open>
  A \<open>dict\<close> is the association list of its items in insertion order: assignment keeps the
  position of a present key and appends a new one, as \<open>AList.update\<close> does.
\<close>

type_synonym ('k, 'v) dict = "('k \<times> 'v) list"

definition keys :: "('k, 'v) dict \<Rightarrow> 'k list" where
  "keys d = map fst d"

definition wf_dict :: "('k, 'v) dict \<Rightarrow> bool" where
  "wf_dict d \<longleftrightarrow> distinct (keys d)"

definition dget :: "('k, 'v) dict \<Rightarrow> 'k \<Rightarrow> 'v result" where
  "dget d k = (case map_of d k of None \<Rightarrow> Inl KeyError | Some v \<Rightarrow> Inr v)"

definition dict_map :: "('v \<Rightarrow> 'w) \<Rightarrow> ('k, 'v) dict \<Rightarrow> ('k, 'w) dict" where
  "dict_map f d = map (\<lambda>(k, v). (k, f v)) d"

text \<open>\<open>d.update(e)\<close>.\<close>

definition dict_update :: "('k, 'v) dict \<Rightarrow> ('k, 'v) dict \<Rightarrow> ('k, 'v) dict" where
  "dict_update d e = fold (\<lambda>(k, v). AList.update k v) e d"

text \<open>\<open>d[k] = f(d[k])\<close> on a \<open>defaultdict\<close>.\<close>

definition modify :: "'v \<Rightarrow> 'k \<Rightarrow> ('v \<Rightarrow> 'v) \<Rightarrow> ('k, 'v) dict \<Rightarrow> ('k, 'v) dict" where
  "modify v0 k f d = AList.update k (f (case map_of d k of None \<Rightarrow> v0 | Some v \<Rightarrow> v)) d"

lemma keys_simps [simp]: "keys [] = []" "keys (p # d) = fst p # keys d" "keys (d @ e) = keys d @ keys e"
  by (simp_all add: keys_def)

lemma set_keys: "set (keys d) = dom (map_of d)"
  by (simp add: keys_def dom_map_of_conv_image_fst)

lemma keys_dict_map [simp]: "keys (dict_map f d) = keys d"
  by (induction d) (auto simp: dict_map_def)

lemma length_dict_map [simp]: "length (dict_map f d) = length d"
  by (simp add: dict_map_def)

lemma dict_map_comp [simp]: "dict_map f (dict_map g d) = dict_map (f \<circ> g) d"
  by (simp add: dict_map_def split_def)

lemma dict_map_id [simp]: "dict_map (\<lambda>x. x) d = d"
  by (simp add: dict_map_def split_def)

lemma dict_map_cong:
  "(\<And>k v. (k, v) \<in> set d \<Longrightarrow> f v = g v) \<Longrightarrow> dict_map f d = dict_map g d"
  by (auto simp: dict_map_def)

lemma map_of_dict_map [simp]: "map_of (dict_map f d) k = map_option f (map_of d k)"
  by (induction d) (auto simp: dict_map_def)

lemma dget_Inr [simp, dict_simps]: "dget d k = Inr v \<longleftrightarrow> map_of d k = Some v"
  by (auto simp: dget_def split: option.splits)

lemma wf_dict_map [simp]: "wf_dict (dict_map f d) = wf_dict d"
  by (simp add: wf_dict_def)

lemma wf_dict_update [simp]: "wf_dict d \<Longrightarrow> wf_dict (AList.update k v d)"
  by (simp add: wf_dict_def keys_def distinct_update)

lemma map_of_update [simp, dict_simps]: "map_of (AList.update k v d) = (map_of d)(k \<mapsto> v)"
  by (rule update_conv')

lemma list_all_update: "list_all (\<lambda>(k, v). Q v) d \<Longrightarrow> Q x \<Longrightarrow> list_all (\<lambda>(k, v). Q v) (AList.update k x d)"
  by (induction d) auto

end
