(* ===== verification/SeqBalance.thy ===== *)
theory SeqBalance
  imports Prelude "HOL-Library.Product_Lexorder" "HOL-Library.List_Lexorder"
begin

section \<open>Balanced partitioning of sequences (\<open>verl/utils/seqlen_balancing.py\<close>)\<close>

text \<open>
  The largest differencing method that spreads samples over data-parallel ranks, the greedy
  alternative, the check that wraps them, the micro-batch planner built on top and the
  reordering that undoes it. Indices are \<open>nat\<close>, sequence lengths and workloads \<open>int\<close>.
  A \<open>heapq\<close> is the list of its elements; \<open>heappop\<close> takes out the first element that no
  other one is below. Elements of one queue are strictly ordered by \<open>__lt__\<close> (their item
  lists differ), so the heap's inner layout does not show.
\<close>

definition calculate_workload :: "int \<Rightarrow> int" where
  "calculate_workload seqlen = 24576 * seqlen + seqlen\<^sup>2"

subsection \<open>The class \<open>Set\<close>\<close>

datatype lset = LSet (set_sum: int) (set_items: "(nat \<times> int) list")

definition set_empty :: lset where
  "set_empty = LSet 0 []"

fun set_add :: "nat \<Rightarrow> int \<Rightarrow> lset \<Rightarrow> lset" where
  "set_add idx val (LSet s is) = LSet (s + val) (is @ [(idx, val)])"

definition set_merge :: "lset \<Rightarrow> lset \<Rightarrow> lset" where
  "set_merge a b = fold (\<lambda>(idx, val). set_add idx val) (set_items b) a"

definition set_lt :: "lset \<Rightarrow> lset \<Rightarrow> bool" where
  "set_lt a b =
     (if set_sum a \<noteq> set_sum b then set_sum a < set_sum b
      else if length (set_items a) \<noteq> length (set_items b)
        then length (set_items a) < length (set_items b)
      else set_items a < set_items b)"

text \<open>\<open>__lt__\<close> is a linear order, so \<open>sorted\<close> is the library's sort.\<close>

instantiation lset :: linorder
begin

definition less_lset :: "lset \<Rightarrow> lset \<Rightarrow> bool" where
  "less_lset a b = set_lt a b"

definition less_eq_lset :: "lset \<Rightarrow> lset \<Rightarrow> bool" where
  "less_eq_lset a b = (a = b \<or> set_lt a b)"

instance
proof
  fix a b c :: lset
  show "a < b \<longleftrightarrow> a \<le> b \<and> \<not> b \<le> a"
    by (auto simp: less_lset_def less_eq_lset_def set_lt_def split: if_splits)
  show "a \<le> a" by (simp add: less_eq_lset_def)
  show "a \<le> b \<Longrightarrow> b \<le> c \<Longrightarrow> a \<le> c"
    by (auto simp: less_eq_lset_def set_lt_def split: if_splits)
  show "a \<le> b \<Longrightarrow> b \<le> a \<Longrightarrow> a = b"
    by (auto simp: less_eq_lset_def set_lt_def split: if_splits)
  show "a \<le> b \<or> b \<le> a"
    by (cases a; cases b) (auto simp: less_eq_lset_def set_lt_def split: if_splits)
qed

end

definition sets_desc :: "lset list \<Rightarrow> lset list" where
  "sets_desc xs = rev (sort (rev xs))"

subsection \<open>The class \<open>State\<close>\<close>

record kk_state =
  kk_k :: nat
  kk_sets :: "lset list"

definition state_sets :: "(nat \<times> int) list \<Rightarrow> nat \<Rightarrow> lset list" where
  "state_sets items k = map (\<lambda>i. if i < length items
     then set_add (fst (items ! i)) (snd (items ! i)) set_empty else set_empty) [0..<k]"

definition state_init :: "(nat \<times> int) list \<Rightarrow> nat \<Rightarrow> kk_state result" where
  "state_init items k =
     rbind (py_assert (length items \<in> {1, k})) (\<lambda>_.
     if k < length items then Inl IndexError
     else Inr \<lparr>kk_k = k, kk_sets = sets_desc (state_sets items k)\<rparr>)"

definition get_partitions :: "kk_state \<Rightarrow> nat list list" where
  "get_partitions st = map (\<lambda>s. map fst (set_items s)) (kk_sets st)"

definition state_merge :: "kk_state \<Rightarrow> kk_state \<Rightarrow> kk_state" where
  "state_merge a b = a\<lparr>kk_sets := sets_desc
     (map (\<lambda>i. set_merge (kk_sets a ! i) (kk_sets b ! (kk_k a - 1 - i))) [0..<kk_k a])\<rparr>"

definition spread :: "kk_state \<Rightarrow> int" where
  "spread st = set_sum (hd (kk_sets st)) - set_sum (last (kk_sets st))"

definition state_lt :: "kk_state \<Rightarrow> kk_state \<Rightarrow> bool" where
  "state_lt a b =
     (if spread a \<noteq> spread b then spread a > spread b
      else hd (kk_sets a) > hd (kk_sets b))"

subsection \<open>The priority queue and the main loop\<close>

fun pop_min :: "kk_state \<Rightarrow> kk_state list \<Rightarrow> kk_state \<times> kk_state list" where
  "pop_min x [] = (x, [])"
| "pop_min x (y # ys) =
     (if state_lt y x then let (m, r) = pop_min y ys in (m, x # r)
      else let (m, r) = pop_min x ys in (m, y # r))"

lemma length_pop_min [simp]: "length (snd (pop_min x ys)) = length ys"
  by (induction x ys rule: pop_min.induct) (auto simp: split_def Let_def)

function kk_loop :: "kk_state list \<Rightarrow> kk_state list" where
  "kk_loop [] = []"
| "kk_loop [s] = [s]"
| "kk_loop (s # s' # rest) =
     (let (state0, r0) = pop_min s (s' # rest);
          (state1, r1) = pop_min (hd r0) (tl r0)
      in kk_loop (r1 @ [state_merge state0 state1]))"
  by pat_completeness auto
termination
proof (relation "measure length", goal_cases)
  case 1
  show ?case by simp
next
  case (2 s s' rest x state0 r0 xa state1 r1)
  have "length r0 = Suc (length rest)"
    using length_pop_min [of s "s' # rest"] 2 by (metis length_Cons snd_conv)
  moreover have "length r1 = length (tl r0)"
    using length_pop_min [of "hd r0" "tl r0"] 2 by (metis snd_conv)
  ultimately show ?case by simp
qed

definition sorted_seqlens :: "int list \<Rightarrow> (int \<times> nat) list" where
  "sorted_seqlens seqlens = sort (zip seqlens [0..<length seqlens])"

definition kk_initial :: "(int \<times> nat) list \<Rightarrow> nat \<Rightarrow> bool \<Rightarrow> kk_state list result" where
  "kk_initial ss k equal_size =
     (if equal_size then
        (if k = 0 then Inl ZeroDivisionError
         else rbind (py_assert (length ss mod k = 0)) (\<lambda>_.
           rmap (\<lambda>c. state_init (map (\<lambda>i. let (seqlen, idx) = ss ! (c * k + i) in (idx, seqlen)) [0..<k]) k)
             [0..<length ss div k]))
      else rmap (\<lambda>(seqlen, idx). state_init [(idx, seqlen)] k) ss)"

definition check_equal_sizes :: "nat \<Rightarrow> nat \<Rightarrow> nat list list \<Rightarrow> unit result" where
  "check_equal_sizes n k partitions = py_assert (\<forall>p \<in> set partitions. length p * k = n)"

definition karmarkar_karp :: "int list \<Rightarrow> nat \<Rightarrow> bool \<Rightarrow> nat list list result" where
  "karmarkar_karp seqlens k equal_size =
     rbind (kk_initial (sorted_seqlens seqlens) k equal_size) (\<lambda>states.
     rbind (py_nth (kk_loop states) 0) (\<lambda>final_state.
     let partitions = get_partitions final_state
     in rbind (if equal_size then check_equal_sizes (length seqlens) k partitions else Inr ())
          (\<lambda>_. Inr partitions)))"

subsection \<open>The greedy strategy\<close>

fun greedy_min_idx :: "int list \<Rightarrow> nat list \<Rightarrow> nat option \<Rightarrow> nat option" where
  "greedy_min_idx totals [] m = m"
| "greedy_min_idx totals (j # js) m =
     greedy_min_idx totals js (case m of None \<Rightarrow> Some j
       | Some i \<Rightarrow> (if totals ! j < totals ! i then Some j else Some i))"

definition greedy_step :: "nat \<Rightarrow> int \<times> nat \<Rightarrow> nat list list \<times> int list \<Rightarrow> (nat list list \<times> int list) result" where
  "greedy_step k it st =
     (case (it, st) of ((seqlen, i), (parts, totals)) \<Rightarrow>
       (case greedy_min_idx totals [0..<k] None of
          None \<Rightarrow> Inl TypeError
        | Some m \<Rightarrow> Inr (parts[m := parts ! m @ [i]], totals[m := totals ! m + seqlen])))"

definition greedy_partition :: "int list \<Rightarrow> nat \<Rightarrow> bool \<Rightarrow> nat list list result" where
  "greedy_partition seqlens k equal_size =
     (let bias = (if equal_size then sum_list seqlens + 1 else 0);
          sorted_seqlen = zip (map (\<lambda>s. s + bias) seqlens) [0..<length seqlens]
      in rbind (rfold (greedy_step k) sorted_seqlen (replicate k [], replicate k 0))
           (\<lambda>(parts, _).
         rbind (if equal_size then check_equal_sizes (length seqlens) k parts else Inr ())
           (\<lambda>_. Inr parts)))"

subsection \<open>The checked entry point\<close>

definition check_and_sort_partitions :: "nat \<Rightarrow> nat \<Rightarrow> nat list list \<Rightarrow> nat list list result" where
  "check_and_sort_partitions n k partitions =
     rbind (py_assert (length partitions = k)) (\<lambda>_.
     rbind (rmap (\<lambda>p. rbind (py_assert (length p > 0)) (\<lambda>_. Inr (sort p))) partitions) (\<lambda>sorted_ps.
     rbind (py_assert (set (concat partitions) = {0..<n})) (\<lambda>_.
     Inr sorted_ps)))"

definition get_seqlen_balanced_partitions :: "int list \<Rightarrow> nat \<Rightarrow> bool \<Rightarrow> nat list list result" where
  "get_seqlen_balanced_partitions seqlens k equal_size =
     rbind (py_assert (length seqlens \<ge> k)) (\<lambda>_.
     rbind (karmarkar_karp seqlens k equal_size) (\<lambda>partitions.
     check_and_sort_partitions (length seqlens) k partitions))"

subsection \<open>Invariants of the differencing method\<close>

definition wf_set :: "lset \<Rightarrow> bool" where
  "wf_set s \<longleftrightarrow> set_sum s = sum_list (map snd (set_items s)) \<and> (\<forall>(i, v) \<in> set (set_items s). 0 \<le> v)"

definition state_items :: "kk_state \<Rightarrow> (nat \<times> int) list" where
  "state_items st = concat (map set_items (kk_sets st))"

definition n_filled :: "lset list \<Rightarrow> nat" where
  "n_filled xs = length (filter (\<lambda>s. set_items s \<noteq> []) xs)"

definition kk_shape :: "nat \<Rightarrow> kk_state \<Rightarrow> bool" where
  "kk_shape k st \<longleftrightarrow> kk_k st = k \<and> length (kk_sets st) = k"

definition kk_filled :: "nat \<Rightarrow> kk_state \<Rightarrow> bool" where
  "kk_filled k st \<longleftrightarrow> kk_shape k st \<and> (\<forall>s \<in> set (kk_sets st). wf_set s)
     \<and> sorted (rev (kk_sets st))
     \<and> n_filled (kk_sets st) = min k (length (state_items st))"

definition kk_even :: "nat \<Rightarrow> kk_state \<Rightarrow> bool" where
  "kk_even k st \<longleftrightarrow> kk_shape k st
     \<and> (\<exists>m. \<forall>s \<in> set (kk_sets st). length (set_items s) = m)"

lemma set_add_simps [simp]:
  "set_items (set_add i v s) = set_items s @ [(i, v)]"
  "set_sum (set_add i v s) = set_sum s + v"
  by (cases s; simp)+

lemma set_empty_simps [simp]: "set_items set_empty = []" "set_sum set_empty = 0"
  by (simp_all add: set_empty_def)

lemma fold_set_add:
  "set_items (fold (\<lambda>(i, v). set_add i v) xs s) = set_items s @ xs"
  "set_sum (fold (\<lambda>(i, v). set_add i v) xs s) = set_sum s + sum_list (map snd xs)"
  by (induction xs arbitrary: s) auto

lemma set_merge_simps [simp]:
  "set_items (set_merge a b) = set_items a @ set_items b"
  "set_sum (set_merge a b) = set_sum a + sum_list (map snd (set_items b))"
  by (simp_all add: set_merge_def fold_set_add)

lemma wf_set_intros [simp, intro]:
  "wf_set set_empty" "0 \<le> v \<Longrightarrow> wf_set (set_add i v set_empty)"
  "wf_set a \<Longrightarrow> wf_set b \<Longrightarrow> wf_set (set_merge a b)"
  by (auto simp: wf_set_def)

lemma sets_desc_simps [simp]:
  "mset (sets_desc xs) = mset xs" "set (sets_desc xs) = set xs"
  "length (sets_desc xs) = length xs" "sorted (rev (sets_desc xs))"
  by (simp_all add: sets_desc_def)

lemma n_filled_desc [simp]: "n_filled (sets_desc xs) = n_filled xs"
  unfolding n_filled_def by (metis mset_filter sets_desc_simps(1) size_mset)

lemma mset_concat_desc:
  "mset (concat (map set_items (sets_desc xs))) = mset (concat (map set_items xs))"
  by (simp add: mset_concat flip: mset_map)
     (metis mset_map sets_desc_simps(1) sum_mset_sum_list)

lemma map_rev_index:
  assumes "length xs = k" "length ys = k"
  shows "map (\<lambda>i. f (xs ! i) (ys ! (k - Suc i))) [0..<k] = map2 f xs (rev ys)"
  using assms by (intro nth_equalityI) (auto simp: rev_nth)

lemma state_merge_sets:
  assumes "kk_shape k a" "kk_shape k b"
  shows "kk_sets (state_merge a b) = sets_desc (map2 set_merge (kk_sets a) (rev (kk_sets b)))"
    and "kk_shape k (state_merge a b)"
  using assms by (simp_all add: state_merge_def kk_shape_def map_rev_index [of _ k])

lemma concat_map2_merge:
  "length xs = length ys \<Longrightarrow>
   mset (concat (map set_items (map2 set_merge xs ys)))
     = mset (concat (map set_items xs)) + mset (concat (map set_items ys))"
  by (induction xs ys rule: list_induct2) auto

lemma mset_concat_rev: "mset (concat (map f (rev xs))) = mset (concat (map f xs))"
  by (induction xs) auto

lemma state_merge_items:
  assumes "kk_shape k a" "kk_shape k b"
  shows "mset (state_items (state_merge a b)) = mset (state_items a) + mset (state_items b)"
  using assms unfolding state_items_def
  by (subst state_merge_sets [OF assms])
     (simp add: mset_concat_desc concat_map2_merge mset_concat_rev kk_shape_def del: map_map)

lemma zip_revD [dest]: "(a, b) \<in> set (zip xs (rev ys)) \<Longrightarrow> a \<in> set xs \<and> b \<in> set ys"
  by (metis set_rev set_zip_leftD set_zip_rightD)

lemma empty_below:
  assumes "wf_set a" "wf_set b" "set_items a = []" "set_items b \<noteq> []"
  shows "a < b"
proof -
  have "0 \<le> set_sum b"
    using assms(2) unfolding wf_set_def by (force intro!: sum_list_nonneg)
  then show ?thesis
    using assms by (auto simp: wf_set_def less_lset_def set_lt_def)
qed

lemma desc_prefix_filled:
  assumes "sorted (rev xs)" and "\<forall>s \<in> set xs. wf_set s"
  shows "i < length xs \<Longrightarrow> set_items (xs ! i) \<noteq> [] \<longleftrightarrow> i < n_filled xs"
  using assms
proof (induction xs arbitrary: i)
  case (Cons x xs)
  have below: "\<forall>y \<in> set xs. y \<le> x" and sx: "sorted (rev xs)"
    using Cons.prems(2) by (auto simp: sorted_append)
  show ?case
  proof (cases "set_items x = []")
    case True
    have "\<forall>y \<in> set xs. set_items y = []"
      using True below Cons.prems(3) empty_below by (metis leD list.set_intros(1,2))
    with True have "n_filled (x # xs) = 0" by (auto simp: n_filled_def filter_empty_conv)
    then show ?thesis
      using True \<open>\<forall>y \<in> set xs. set_items y = []\<close> Cons.prems(1) by (auto simp: nth_Cons')
  next
    case False
    then have "n_filled (x # xs) = Suc (n_filled xs)" by (simp add: n_filled_def)
    then show ?thesis
      using False Cons.IH [OF _ sx] Cons.prems(1,3) by (cases i) auto
  qed
qed simp

lemma n_filled_le: "n_filled xs \<le> length xs"
  by (simp add: n_filled_def)

lemma n_filled_card: "n_filled xs = card {i. i < length xs \<and> set_items (xs ! i) \<noteq> []}"
  by (simp add: n_filled_def length_filter_conv_card)

lemma n_filled_merge:
  assumes len: "length xs = k" "length ys = k"
    and xs: "sorted (rev xs)" "\<forall>s \<in> set xs. wf_set s"
    and ys: "sorted (rev ys)" "\<forall>s \<in> set ys. wf_set s"
  shows "n_filled (map2 set_merge xs (rev ys)) = min k (n_filled xs + n_filled ys)"
proof -
  let ?a = "n_filled xs" and ?b = "n_filled ys"
  have le: "?a \<le> k" "?b \<le> k" using n_filled_le len by metis+
  have "{i. i < length (map2 set_merge xs (rev ys)) \<and> set_items (map2 set_merge xs (rev ys) ! i) \<noteq> []}
        = {i. i < k \<and> (i < ?a \<or> k - 1 - i < ?b)}"
    using len by (auto simp: rev_nth simp flip: desc_prefix_filled [OF xs] desc_prefix_filled [OF ys])
  also have "\<dots> = {0..<?a} \<union> {k - ?b..<k}"
    using le by auto
  finally have "n_filled (map2 set_merge xs (rev ys)) = card ({0..<?a} \<union> {k - ?b..<k})"
    by (simp add: n_filled_card)
  also have "\<dots> = min k (?a + ?b)"
  proof (cases "?a + ?b \<le> k")
    case True
    then have "{0..<?a} \<inter> {k - ?b..<k} = {}" by auto
    then show ?thesis using True le by (simp add: card_Un_disjoint)
  next
    case False
    then have "{0..<?a} \<union> {k - ?b..<k} = {0..<k}" using le by auto
    then show ?thesis using False by simp
  qed
  finally show ?thesis .
qed

lemma kk_filled_merge:
  assumes "kk_filled k a" "kk_filled k b"
  shows "kk_filled k (state_merge a b)"
proof -
  have sh: "kk_shape k a" "kk_shape k b" using assms by (auto simp: kk_filled_def)
  have len: "length (state_items (state_merge a b)) = length (state_items a) + length (state_items b)"
    using state_merge_items [OF sh] by (metis size_mset size_union)
  have "n_filled (map2 set_merge (kk_sets a) (rev (kk_sets b)))
      = min k (n_filled (kk_sets a) + n_filled (kk_sets b))"
    using assms by (intro n_filled_merge) (auto simp: kk_filled_def kk_shape_def)
  moreover have "\<forall>s \<in> set (map2 set_merge (kk_sets a) (rev (kk_sets b))). wf_set s"
    using assms by (auto simp: kk_filled_def)
  ultimately show ?thesis
    using assms len state_merge_sets [OF sh] by (simp add: kk_filled_def)
qed

lemma kk_even_merge:
  assumes "kk_even k a" "kk_even k b"
  shows "kk_even k (state_merge a b)"
proof -
  have sh: "kk_shape k a" "kk_shape k b" using assms by (auto simp: kk_even_def)
  obtain m n where "\<forall>s \<in> set (kk_sets a). length (set_items s) = m"
    and "\<forall>s \<in> set (kk_sets b). length (set_items s) = n"
    using assms by (auto simp: kk_even_def)
  then have "\<forall>s \<in> set (map2 set_merge (kk_sets a) (rev (kk_sets b))). length (set_items s) = m + n"
    by auto
  then show ?thesis using state_merge_sets [OF sh] by (auto simp: kk_even_def)
qed

subsection \<open>The queue and the loop\<close>

lemma pop_min_mset: "pop_min x ys = (m, r) \<Longrightarrow> mset (m # r) = mset (x # ys)"
  by (induction x ys arbitrary: m r rule: pop_min.induct)
     (auto simp: Let_def split: if_splits prod.splits)

lemma kk_loop_step:
  obtains a b r where "kk_loop (s # s' # rest) = kk_loop (r @ [state_merge a b])"
    and "mset (s # s' # rest) = mset (a # b # r)"
proof -
  obtain a r0 where a: "pop_min s (s' # rest) = (a, r0)" by fastforce
  then have "length r0 = Suc (length rest)"
    using length_pop_min [of s "s' # rest"] by simp
  then obtain h t where r0: "r0 = h # t" by (cases r0) auto
  obtain b r where b: "pop_min h t = (b, r)" by fastforce
  show ?thesis
    using that [of r a b] a b r0 pop_min_mset [OF a] pop_min_mset [OF b] by simp
qed

lemma kk_loop_induct [case_names few step]:
  assumes "\<And>ss. length ss \<le> 1 \<Longrightarrow> P ss ss"
    and "\<And>ss a b r. mset ss = mset (a # b # r) \<Longrightarrow>
           P (r @ [state_merge a b]) (kk_loop (r @ [state_merge a b])) \<Longrightarrow>
           P ss (kk_loop (r @ [state_merge a b]))"
  shows "P ss (kk_loop ss)"
proof (induction ss rule: measure_induct_rule [where f = length])
  case (less ss)
  consider "length ss \<le> 1" | s s' rest where "ss = s # s' # rest"
    by (cases ss rule: kk_loop.cases) auto
  then show ?case
  proof cases
    case 1
    then have "kk_loop ss = ss" by (cases ss rule: kk_loop.cases) auto
    then show ?thesis using assms(1) [OF 1] by simp
  next
    case 2
    obtain a b r where r: "kk_loop ss = kk_loop (r @ [state_merge a b])"
      and m: "mset ss = mset (a # b # r)" unfolding 2 by (rule kk_loop_step)
    have "length (r @ [state_merge a b]) < length ss"
      using m by (metis add_Suc_right length_Cons length_append list.size(3) lessI size_mset add_0_right)
    then show ?thesis using assms(2) [OF m] less.IH r by simp
  qed
qed

lemma kk_loop_length:
  assumes "ss \<noteq> []"
  shows "length (kk_loop ss) = 1"
proof -
  have "ss \<noteq> [] \<longrightarrow> length (kk_loop ss) = 1"
  proof (rule kk_loop_induct [where P = "\<lambda>ss r. ss \<noteq> [] \<longrightarrow> length r = 1"], goal_cases)
    case (1 ss)
    then show ?case by (cases ss) auto
  qed auto
  then show ?thesis using assms by simp
qed

lemma mset_two_set: "mset ss = mset (a # b # r) \<Longrightarrow> set ss = insert a (insert b (set r))"
  by (metis list.set(2) set_mset_mset)

lemma kk_loop_invariant:
  assumes "\<And>a b. I a \<Longrightarrow> I b \<Longrightarrow> I (state_merge a b)" and "\<forall>s \<in> set ss. I s"
  shows "\<forall>s \<in> set (kk_loop ss). I s"
proof -
  have "(\<forall>s \<in> set ss. I s) \<longrightarrow> (\<forall>s \<in> set (kk_loop ss). I s)"
  proof (rule kk_loop_induct [where P = "\<lambda>ss r. (\<forall>s \<in> set ss. I s) \<longrightarrow> (\<forall>s \<in> set r. I s)"], goal_cases)
    case (2 ss a b r)
    show ?case
    proof
      assume "\<forall>s \<in> set ss. I s"
      then have "I a" "I b" "\<forall>s \<in> set r. I s"
        unfolding mset_two_set [OF 2(1)] by blast+
      then have "\<forall>s \<in> set (r @ [state_merge a b]). I s" using assms(1) by simp
      then show "\<forall>s \<in> set (kk_loop (r @ [state_merge a b])). I s" using 2(2) by blast
    qed
  qed simp
  then show ?thesis using assms(2) by simp
qed

lemma kk_loop_items:
  assumes "\<forall>s \<in> set ss. kk_shape k s"
  shows "mset (concat (map state_items (kk_loop ss))) = mset (concat (map state_items ss))"
proof -
  let ?P = "\<lambda>ss r. (\<forall>s \<in> set ss. kk_shape k s) \<longrightarrow>
    mset (concat (map state_items r)) = mset (concat (map state_items ss))"
  have "?P ss (kk_loop ss)"
  proof (rule kk_loop_induct [where P = ?P], goal_cases)
    case (2 ss a b r)
    show ?case
    proof
      assume sh: "\<forall>s \<in> set ss. kk_shape k s"
      then have m: "kk_shape k a" "kk_shape k b" and r: "\<forall>s \<in> set r. kk_shape k s"
        unfolding mset_two_set [OF 2(1)] by blast+
      have "\<forall>s \<in> set (r @ [state_merge a b]). kk_shape k s"
        using r state_merge_sets(2) [OF m] by simp
      then have "mset (concat (map state_items (kk_loop (r @ [state_merge a b]))))
          = mset (concat (map state_items (r @ [state_merge a b])))"
        using 2(2) by blast
      also have "\<dots> = mset (concat (map state_items (a # b # r)))"
        by (simp add: state_merge_items [OF m])
      also have "\<dots> = mset (concat (map state_items ss))"
        by (rule mset_concat_cong) (rule 2(1) [symmetric])
      finally show "mset (concat (map state_items (kk_loop (r @ [state_merge a b]))))
          = mset (concat (map state_items ss))" .
    qed
  qed auto
  then show ?thesis using assms by simp
qed

subsection \<open>The states the loop starts from\<close>

lemma state_sets_simps:
  assumes "length items \<le> k"
  shows "concat (map set_items (state_sets items k)) = items"
    and "length (state_sets items k) = k" and "n_filled (state_sets items k) = length items"
    and "length items = k \<Longrightarrow> s \<in> set (state_sets items k) \<Longrightarrow> length (set_items s) = 1"
    and "\<forall>(i, v) \<in> set items. 0 \<le> v \<Longrightarrow> s \<in> set (state_sets items k) \<Longrightarrow> wf_set s"
proof -
  let ?f = "\<lambda>i. if i < length items then [items ! i] else []"
  have split: "[0..<k] = [0..<length items] @ [length items..<k]"
    using assms upt_add_eq_append [of 0 "length items" "k - length items"] by simp
  have "map set_items (state_sets items k) = map ?f [0..<k]"
    by (simp add: state_sets_def)
  also have "concat \<dots> = concat (map (\<lambda>i. [items ! i]) [0..<length items])
      @ concat (map (\<lambda>i. []) [length items..<k])"
    unfolding split map_append concat_append
    by (intro arg_cong2 [where f = append] arg_cong [where f = concat]) auto
  also have "\<dots> = items" by (simp add: map_nth)
  finally show "concat (map set_items (state_sets items k)) = items" .
  have "{i. i < k \<and> set_items (state_sets items k ! i) \<noteq> []} = {0..<length items}"
    using assms by (auto simp: state_sets_def split: if_splits)
  then show "n_filled (state_sets items k) = length items"
    by (simp add: n_filled_card state_sets_def)
  show "length items = k \<Longrightarrow> s \<in> set (state_sets items k) \<Longrightarrow> length (set_items s) = 1"
    by (auto simp: state_sets_def)
  assume "\<forall>(i, v) \<in> set items. 0 \<le> v"
  then have "\<forall>i < length items. 0 \<le> snd (items ! i)" by (simp add: split_def)
  then show "s \<in> set (state_sets items k) \<Longrightarrow> wf_set s"
    by (auto simp: state_sets_def split: if_splits)
qed (simp add: state_sets_def)

lemma state_init_props:
  assumes "length items \<le> k" and "length items \<in> {1, k}"
  obtains st where "state_init items k = Inr st" "kk_shape k st"
    "mset (state_items st) = mset items" "length items = k \<Longrightarrow> kk_even k st"
    "\<forall>(i, v) \<in> set items. 0 \<le> v \<Longrightarrow> kk_filled k st"
proof
  let ?st = "\<lparr>kk_k = k, kk_sets = sets_desc (state_sets items k)\<rparr>"
  show "state_init items k = Inr ?st" using assms by (simp add: state_init_def)
  note ss = state_sets_simps [OF assms(1)]
  show sh: "kk_shape k ?st" by (simp add: kk_shape_def ss)
  show it: "mset (state_items ?st) = mset items"
    by (simp add: state_items_def mset_concat_desc ss)
  then have len: "length (state_items ?st) = length items" by (metis size_mset)
  show "length items = k \<Longrightarrow> kk_even k ?st"
    using sh ss(4) by (auto simp: kk_even_def)
  show "\<forall>(i, v) \<in> set items. 0 \<le> v \<Longrightarrow> kk_filled k ?st"
    using sh ss(5) len assms by (simp add: kk_filled_def ss(3))
qed

definition good_start :: "(int \<times> nat) list \<Rightarrow> nat \<Rightarrow> bool \<Rightarrow> bool" where
  "good_start ss k equal_size \<longleftrightarrow> 0 < k \<and> (equal_size \<longrightarrow> k dvd length ss)"

definition kk_starts :: "(int \<times> nat) list \<Rightarrow> nat \<Rightarrow> bool \<Rightarrow> kk_state list \<Rightarrow> bool" where
  "kk_starts ss k equal_size states \<longleftrightarrow>
     mset (concat (map state_items states)) = mset (map prod.swap ss)
     \<and> (\<forall>s \<in> set states. kk_shape k s)
     \<and> (equal_size \<longrightarrow> (\<forall>s \<in> set states. kk_even k s))
     \<and> ((\<forall>p \<in> set ss. 0 \<le> fst p) \<longrightarrow> (\<forall>s \<in> set states. kk_filled k s))"

lemma kk_startsI:
  assumes "list_all2 (\<lambda>items st. mset (state_items st) = mset items \<and> kk_shape k st
      \<and> (equal_size \<longrightarrow> kk_even k st)
      \<and> ((\<forall>p \<in> set items. 0 \<le> snd p) \<longrightarrow> kk_filled k st)) itemss states"
    and "mset (concat itemss) = mset (map prod.swap ss)"
  shows "kk_starts ss k equal_size states"
proof -
  have "mset (concat (map state_items states)) = mset (concat itemss)"
    using mset_concat_list_all2 [of state_items id itemss states] assms(1)
    by (simp add: list_all2_conv_all_nth)
  moreover have "set (concat itemss) = prod.swap ` set ss"
    using assms(2) by (metis set_map set_mset_mset)
  then have "(\<forall>p \<in> set ss. 0 \<le> fst p) \<longrightarrow> (\<forall>items \<in> set itemss. \<forall>p \<in> set items. 0 \<le> snd p)"
    by fastforce
  ultimately show ?thesis
    using assms unfolding kk_starts_def by (force simp: list_all2_conv_all_nth all_set_conv_all_nth)
qed

lemma state_init_ex:
  assumes "length items \<le> k" and "length items \<in> {1, k}" and "equal_size \<Longrightarrow> length items = k"
  shows "\<exists>st. state_init items k = Inr st \<and> mset (state_items st) = mset items \<and> kk_shape k st
      \<and> (equal_size \<longrightarrow> kk_even k st) \<and> ((\<forall>p \<in> set items. 0 \<le> snd p) \<longrightarrow> kk_filled k st)"
  using assms by (elim state_init_props) (auto simp: split_def)

lemma kk_initial_starts:
  assumes "good_start ss k equal_size"
  shows "\<exists>states. kk_initial ss k equal_size = Inr states \<and> kk_starts ss k equal_size states
    \<and> (ss \<noteq> [] \<longrightarrow> states \<noteq> [])"
proof (cases equal_size)
  case False
  have k: "0 < k" using assms by (simp add: good_start_def)
  let ?f = "\<lambda>(seqlen, idx). state_init [(idx, seqlen)] k"
  let ?Q = "\<lambda>items st. mset (state_items st) = mset items \<and> kk_shape k st
      \<and> (equal_size \<longrightarrow> kk_even k st) \<and> ((\<forall>p \<in> set items. 0 \<le> snd p) \<longrightarrow> kk_filled k st)"
  have "\<exists>st. ?f x = Inr st \<and> ?Q [prod.swap x] st" for x
    using state_init_ex [of "[prod.swap x]" k equal_size] k False by (simp add: split_def prod.swap_def)
  then obtain states where s: "rmap ?f ss = Inr states" "list_all2 (\<lambda>x. ?Q [prod.swap x]) ss states"
    using rmap_list_all2 [of ss ?f "\<lambda>x. ?Q [prod.swap x]"] by blast
  have "kk_starts ss k equal_size states"
    by (rule kk_startsI [where itemss = "map (\<lambda>x. [prod.swap x]) ss"])
       (use s(2) in \<open>simp_all add: list_all2_map1\<close>)
  then show ?thesis using s False by (auto simp: kk_initial_def)
next
  case True
  have k: "0 < k" and dvd: "k dvd length ss" using assms True by (simp_all add: good_start_def)
  let ?it = "\<lambda>c. map (\<lambda>i. let (seqlen, idx) = ss ! (c * k + i) in (idx, seqlen)) [0..<k]"
  let ?Q = "\<lambda>items st. mset (state_items st) = mset items \<and> kk_shape k st
      \<and> (equal_size \<longrightarrow> kk_even k st) \<and> ((\<forall>p \<in> set items. 0 \<le> snd p) \<longrightarrow> kk_filled k st)"
  have "\<exists>st. state_init (?it c) k = Inr st \<and> ?Q (?it c) st" for c
    using state_init_ex [of "?it c" k equal_size] by simp
  then obtain states where s: "rmap (\<lambda>c. state_init (?it c) k) [0..<length ss div k] = Inr states"
    "list_all2 (\<lambda>c. ?Q (?it c)) [0..<length ss div k] states"
    using rmap_list_all2 [of "[0..<length ss div k]" "\<lambda>c. state_init (?it c) k" "\<lambda>c. ?Q (?it c)"]
    by blast
  have "concat (map ?it [0..<length ss div k]) = map (\<lambda>i. prod.swap (ss ! i)) [0..<length ss div k * k]"
    using concat_blocks [of "\<lambda>i. prod.swap (ss ! i)" k "length ss div k"]
    by (simp add: prod.swap_def split_def Let_def)
  also have "\<dots> = map prod.swap ss"
    using dvd by (simp add: map_nth flip: map_map [unfolded comp_def])
  finally have "kk_starts ss k equal_size states"
    by (intro kk_startsI [where itemss = "map ?it [0..<length ss div k]"])
       (use s(2) in \<open>simp_all add: list_all2_map1\<close>)
  moreover have "ss \<noteq> [] \<Longrightarrow> states \<noteq> []"
    using s(2) k dvd by (auto dest!: list_all2_lengthD dest: dvd_imp_le)
  ultimately show ?thesis using s(1) True k dvd by (simp add: kk_initial_def)
qed

subsection \<open>What the method returns\<close>

definition is_partition :: "nat \<Rightarrow> nat \<Rightarrow> nat list list \<Rightarrow> bool" where
  "is_partition n k ps \<longleftrightarrow> length ps = k \<and> mset (concat ps) = mset [0..<n]"

lemma length_sorted_seqlens [simp]: "length (sorted_seqlens xs) = length xs"
  by (simp add: sorted_seqlens_def)

lemma mset_sorted_seqlens: "mset (sorted_seqlens xs) = mset (zip xs [0..<length xs])"
  by (simp add: sorted_seqlens_def)

lemma fst_sorted_seqlens: "fst ` set (sorted_seqlens xs) = set xs"
  using arg_cong [OF mset_sorted_seqlens [of xs], of set_mset]
  by (metis length_upt list.set_map map_fst_zip minus_nat.diff_0 order_refl set_mset_mset)

lemma snd_sorted_seqlens: "mset (map snd (sorted_seqlens xs)) = mset [0..<length xs]"
  by (metis length_upt map_snd_zip minus_nat.diff_0 mset_map mset_sorted_seqlens)

lemma get_partitions_concat: "concat (get_partitions st) = map fst (state_items st)"
  by (simp add: get_partitions_def state_items_def map_concat comp_def)

lemma even_lengths:
  assumes "\<forall>p \<in> set ps. length p = m"
  shows "length (concat ps) = length ps * m"
  using assms by (induction ps) auto

lemma kk_even_sizes:
  assumes "kk_even k st" "length (state_items st) = n" "p \<in> set (get_partitions st)"
  shows "length p * k = n"
proof -
  obtain m where m: "\<forall>p \<in> set (get_partitions st). length p = m"
    using assms(1) by (auto simp: kk_even_def get_partitions_def)
  moreover have "length (get_partitions st) = k"
    using assms(1) by (simp add: kk_even_def kk_shape_def get_partitions_def)
  moreover have "length (concat (get_partitions st)) = n"
    by (simp add: get_partitions_concat assms(2))
  ultimately show ?thesis using even_lengths [OF m] assms(3) by (simp add: mult.commute)
qed

lemma kk_filled_nonempty:
  assumes "kk_filled k st" "k \<le> length (state_items st)" "p \<in> set (get_partitions st)"
  shows "p \<noteq> []"
proof -
  have "n_filled (kk_sets st) = length (kk_sets st)"
    using assms by (simp add: kk_filled_def kk_shape_def)
  then have "filter (\<lambda>s. set_items s \<noteq> []) (kk_sets st) = kk_sets st"
    unfolding n_filled_def by (metis length_filter_less less_irrefl filter_True)
  then show ?thesis using assms(3) by (auto simp: get_partitions_def filter_id_conv)
qed

lemma karmarkar_karp_total:
  assumes start: "good_start (sorted_seqlens seqlens) k equal_size" and ne: "seqlens \<noteq> []"
  shows "\<exists>ps. karmarkar_karp seqlens k equal_size = Inr ps \<and> is_partition (length seqlens) k ps
    \<and> (equal_size \<longrightarrow> (\<forall>p \<in> set ps. length p * k = length seqlens))
    \<and> ((\<forall>s \<in> set seqlens. 0 \<le> s) \<longrightarrow> k \<le> length seqlens \<longrightarrow> (\<forall>p \<in> set ps. p \<noteq> []))"
proof -
  let ?ss = "sorted_seqlens seqlens" and ?n = "length seqlens"
  obtain states where st: "kk_initial ?ss k equal_size = Inr states" "kk_starts ?ss k equal_size states"
    and "states \<noteq> []"
    using kk_initial_starts [OF start] ne by (metis length_0_conv length_sorted_seqlens)
  then have "length (kk_loop states) = 1" by (simp add: kk_loop_length)
  then obtain f where f: "kk_loop states = [f]" by (metis One_nat_def length_0_conv length_Suc_conv)
  let ?ps = "get_partitions f"
  have items: "mset (state_items f) = mset (map prod.swap ?ss)"
    using kk_loop_items [of states k] st(2) f by (simp add: kk_starts_def)
  then have len: "length (state_items f) = ?n" by (metis length_map length_sorted_seqlens size_mset)
  have "mset (map fst (state_items f)) = mset (map snd ?ss)"
    using arg_cong [OF items, of "image_mset fst"] by (simp add: comp_def flip: mset_map)
  then have perm: "mset (concat ?ps) = mset [0..<?n]"
    by (simp only: get_partitions_concat snd_sorted_seqlens)
  have sh: "kk_shape k f"
    using kk_loop_invariant [of "kk_shape k" states] state_merge_sets(2) st(2) f
    by (simp add: kk_starts_def)
  have ev: "equal_size \<longrightarrow> kk_even k f"
    using kk_loop_invariant [of "kk_even k" states] kk_even_merge st(2) f by (simp add: kk_starts_def)
  have fi: "(\<forall>s \<in> set seqlens. 0 \<le> s) \<longrightarrow> kk_filled k f"
    using kk_loop_invariant [of "kk_filled k" states] kk_filled_merge st(2) f
    by (simp add: kk_starts_def flip: fst_sorted_seqlens)
  have sizes: "equal_size \<longrightarrow> (\<forall>p \<in> set ?ps. length p * k = ?n)"
    using ev kk_even_sizes [OF _ len] by blast
  have "karmarkar_karp seqlens k equal_size = Inr ?ps"
    using st(1) f sizes by (cases equal_size) (simp_all add: karmarkar_karp_def check_equal_sizes_def py_nth_def Let_def)
  then show ?thesis
    using perm sh sizes fi kk_filled_nonempty [of k f] len
    by (auto simp: is_partition_def kk_shape_def get_partitions_def)
qed

lemma karmarkar_karp_Inr:
  assumes "karmarkar_karp seqlens k equal_size = Inr ps"
  shows "good_start (sorted_seqlens seqlens) k equal_size \<and> seqlens \<noteq> []"
proof -
  let ?ss = "sorted_seqlens seqlens"
  obtain states where st: "kk_initial ?ss k equal_size = Inr states" and "kk_loop states \<noteq> []"
    using assms by (auto simp: karmarkar_karp_def res_simps)
  then have "states \<noteq> []" by auto
  then have ne: "?ss \<noteq> []"
    using st by (auto simp: kk_initial_def simp del: length_sorted_seqlens split: if_splits)
  have "0 < k"
  proof (rule ccontr)
    assume "\<not> 0 < k"
    then show False using st ne
      by (cases ?ss) (auto simp: kk_initial_def state_init_def res_simps split: if_splits)
  qed
  moreover have "equal_size \<longrightarrow> k dvd length ?ss"
    using st by (auto simp: kk_initial_def res_simps split: if_splits)
  ultimately show ?thesis using ne by (metis good_start_def length_0_conv length_sorted_seqlens)
qed

subsection \<open>The greedy strategy keeps sizes equal\<close>

lemma greedy_min_idx_Some:
  "\<exists>m. greedy_min_idx totals js (Some i) = Some m \<and> m \<in> insert i (set js)
     \<and> (\<forall>j \<in> insert i (set js). totals ! m \<le> totals ! j)"
proof (induction js arbitrary: i)
  case (Cons a js)
  define i' where "i' = (if totals ! a < totals ! i then a else i)"
  have i': "i' \<in> {i, a}" "totals ! i' \<le> totals ! i" "totals ! i' \<le> totals ! a"
    by (auto simp: i'_def)
  obtain m where m: "greedy_min_idx totals js (Some i') = Some m" "m \<in> insert i' (set js)"
    "\<forall>j \<in> insert i' (set js). totals ! m \<le> totals ! j"
    using Cons.IH [of i'] by blast
  have "greedy_min_idx totals (a # js) (Some i) = Some m"
    using m(1) by (auto simp: i'_def)
  moreover have "m \<in> insert i (set (a # js))" using m(2) i'(1) by auto
  moreover have "\<forall>j \<in> insert i (set (a # js)). totals ! m \<le> totals ! j"
    using m(3) i'(2,3) by (auto intro: order_trans)
  ultimately show ?case by blast
qed simp

lemma greedy_min_idx_least:
  assumes "0 < k"
  obtains m where "greedy_min_idx totals [0..<k] None = Some m" "m < k"
    "\<forall>j < k. totals ! m \<le> totals ! j"
proof -
  have "[0..<k] = 0 # [1..<k]" using assms by (simp add: upt_conv_Cons)
  moreover obtain m where m: "greedy_min_idx totals [1..<k] (Some 0) = Some m"
    "m \<in> insert 0 (set [1..<k])" "\<forall>j \<in> insert 0 (set [1..<k]). totals ! m \<le> totals ! j"
    using greedy_min_idx_Some by blast
  moreover have eq: "insert 0 (set [1..<k]) = {j. j < k}" using assms by auto
  moreover have "m < k" "\<forall>j < k. totals ! m \<le> totals ! j"
    using m(2,3) unfolding eq by simp_all
  ultimately show ?thesis using that [of m] by simp
qed

lemma greedy_step_Some:
  assumes "0 < k"
  obtains m where "m < k" "\<forall>j < k. totals ! m \<le> totals ! j"
    "greedy_step k (v, i) (parts, totals) = Inr (parts[m := parts ! m @ [i]], totals[m := totals ! m + v])"
  by (rule greedy_min_idx_least [OF assms, of totals]) (simp add: greedy_step_def that)

lemma concat_update_perm:
  "m < length parts \<Longrightarrow> mset (concat (parts[m := parts ! m @ [i]])) = add_mset i (mset (concat parts))"
  by (induction parts arbitrary: m) (auto split: nat.splits)

definition greedy_inv :: "nat \<Rightarrow> int \<Rightarrow> int \<Rightarrow> nat list list \<times> int list \<Rightarrow> bool" where
  "greedy_inv k bias done st \<longleftrightarrow> (case st of (parts, totals) \<Rightarrow>
     length parts = k \<and> length totals = k
     \<and> (\<forall>j < k. int (length (parts ! j)) * bias \<le> totals ! j
          \<and> totals ! j \<le> int (length (parts ! j)) * bias + done)
     \<and> (\<forall>i < k. \<forall>j < k. length (parts ! i) \<le> Suc (length (parts ! j))))"

lemma greedy_inv_step:
  assumes inv: "greedy_inv k bias done (parts, totals)" and v: "0 \<le> v" and b: "0 \<le> done" "done < bias"
    and m: "m < k" "\<forall>j < k. totals ! m \<le> totals ! j"
  shows "greedy_inv k bias (done + v)
    (parts[m := parts ! m @ [i]], totals[m := totals ! m + (v + bias)])"
proof -
  have least: "length (parts ! m) \<le> length (parts ! j)" if "j < k" for j
  proof (rule ccontr)
    assume "\<not> ?thesis"
    then have "int (length (parts ! j)) + 1 \<le> int (length (parts ! m))" by simp
    then have "(int (length (parts ! j)) + 1) * bias \<le> int (length (parts ! m)) * bias"
      using b by (intro mult_right_mono) auto
    then have "int (length (parts ! j)) * bias + done < int (length (parts ! m)) * bias"
      using b unfolding distrib_right by linarith
    moreover have "totals ! j \<le> int (length (parts ! j)) * bias + done"
      "int (length (parts ! m)) * bias \<le> totals ! m"
      using inv m(1) that unfolding greedy_inv_def by blast+
    ultimately show False using m(2) that by fastforce
  qed
  let ?parts = "parts[m := parts ! m @ [i]]" and ?totals = "totals[m := totals ! m + (v + bias)]"
  have len: "length parts = k" "length totals = k" using inv by (simp_all add: greedy_inv_def)
  have bounds: "int (length (?parts ! j)) * bias \<le> ?totals ! j
      \<and> ?totals ! j \<le> int (length (?parts ! j)) * bias + (done + v)" if "j < k" for j
    using inv that v m len by (auto simp: greedy_inv_def nth_list_update distrib_right)
  have diff: "length (parts ! a) \<le> Suc (length (parts ! b))" if "a < k" "b < k" for a b
    using inv that by (simp add: greedy_inv_def)
  have "length (?parts ! a) \<le> Suc (length (?parts ! b))" if "a < k" "b < k" for a b
    using that diff [of a b] least [of b] diff [of a m] m(1) len
    by (cases "a = m"; cases "b = m") simp_all
  then show ?thesis using bounds len by (simp add: greedy_inv_def)
qed

lemma greedy_run:
  assumes "0 < k" and "\<forall>s \<in> set xs. 0 \<le> s" and "greedy_inv k bias done st"
    and "0 \<le> done" "done + sum_list xs < bias" "length xs = length is"
  shows "\<exists>parts totals. rfold (greedy_step k) (zip (map (\<lambda>s. s + bias) xs) is) st = Inr (parts, totals)
    \<and> greedy_inv k bias (done + sum_list xs) (parts, totals)
    \<and> mset (concat parts) = mset (concat (fst st)) + mset is"
  using assms(6,2-5)
proof (induction xs "is" arbitrary: st "done" rule: list_induct2)
  case Nil
  then show ?case by (cases st) auto
next
  case (Cons x xs i "is")
  obtain parts totals where st: "st = (parts, totals)" by fastforce
  obtain m where m: "m < k" "\<forall>j < k. totals ! m \<le> totals ! j"
    and eq: "greedy_step k (x + bias, i) st
      = Inr (parts[m := parts ! m @ [i]], totals[m := totals ! m + (x + bias)])"
    unfolding st by (rule greedy_step_Some [OF assms(1)])
  have nn: "0 \<le> sum_list xs" using Cons.prems by (intro sum_list_nonneg) auto
  have inv: "greedy_inv k bias (done + x)
      (parts[m := parts ! m @ [i]], totals[m := totals ! m + (x + bias)])"
    using Cons.prems nn st by (intro greedy_inv_step m) auto
  have "m < length parts" using Cons.prems(2) st m by (simp add: greedy_inv_def)
  then show ?case
    using Cons.IH [OF _ inv] Cons.prems nn eq st
    by (auto simp: concat_update_perm add.assoc)
qed

lemma balanced_sizes_equal:
  fixes ls :: "nat list"
  assumes "\<forall>x \<in> set ls. \<forall>y \<in> set ls. x \<le> Suc y" and "sum_list ls = length ls * q"
  shows "\<forall>x \<in> set ls. x = q"
proof -
  have lower: "length xs * q \<le> sum_list xs" if "\<forall>y \<in> set xs. q \<le> y" for xs :: "nat list"
    using that by (induction xs) auto
  have upper: "sum_list xs \<le> length xs * q" if "\<forall>y \<in> set xs. y \<le> q" for xs :: "nat list"
    using that by (induction xs) auto
  have split: "sum_list ls = x + sum_list (remove1 x ls) \<and> length ls = Suc (length (remove1 x ls))"
    if "x \<in> set ls" for x
    using that by (simp add: sum_list_map_remove1 [of x ls "\<lambda>x. x", simplified] length_remove1)
      (metis Suc_pred length_pos_if_in_set)
  show ?thesis
  proof
    fix x assume x: "x \<in> set ls"
    have sub: "set (remove1 x ls) \<subseteq> set ls" by (rule set_remove1_subset)
    show "x = q"
    proof (rule ccontr)
      assume "x \<noteq> q"
      then consider "x < q" | "q < x" by linarith
      then show False
      proof cases
        case 1
        then have "\<forall>y \<in> set (remove1 x ls). y \<le> q" using assms(1) x sub by fastforce
        from upper [OF this] show False using 1 assms(2) split [OF x] by simp
      next
        case 2
        then have "\<forall>y \<in> set (remove1 x ls). q \<le> y" using assms(1) x sub by fastforce
        from lower [OF this] show False using 2 assms(2) split [OF x] by simp
      qed
    qed
  qed
qed

lemma greedy_inv_start: "greedy_inv k bias 0 (replicate k [], replicate k 0)"
  by (simp add: greedy_inv_def)

lemma sum_list_lengths: "sum_list (map length ps) = length (concat ps)"
  by (induction ps) auto

lemma greedy_inv_sizes:
  assumes "greedy_inv k bias done (parts, totals)" "length (concat parts) = n" "k dvd n"
  shows "\<forall>p \<in> set parts. length p * k = n"
proof -
  have "\<forall>x \<in> set (map length parts). \<forall>y \<in> set (map length parts). x \<le> Suc y"
    and len: "length parts = k"
    using assms(1) by (auto simp: greedy_inv_def in_set_conv_nth)
  moreover have "sum_list (map length parts) = length (map length parts) * (n div k)"
    using assms(2,3) len by (simp add: sum_list_lengths)
  ultimately have "\<forall>x \<in> set (map length parts). x = n div k"
    by (intro balanced_sizes_equal) auto
  then show ?thesis using assms(3) by simp
qed

lemma greedy_parts:
  "rfold (greedy_step k) (zip xs is) st = Inr st' \<Longrightarrow> length xs = length is \<Longrightarrow> length (fst st) = k
   \<Longrightarrow> length (fst st') = k \<and> mset (concat (fst st')) = mset (concat (fst st)) + mset is"
proof (induction xs "is" arbitrary: st rule: list_induct2')
  case (4 x xs i "is")
  obtain parts totals where st: "st = (parts, totals)" by fastforce
  have "0 < k"
    using 4 by (cases k) (auto simp: res_simps greedy_step_def st)
  then obtain m where "m < k" and eq: "greedy_step k (x, i) st
      = Inr (parts[m := parts ! m @ [i]], totals[m := totals ! m + x])"
    unfolding st by (rule greedy_step_Some)
  then show ?case
    using "4.prems" "4.IH" [of "(parts[m := parts ! m @ [i]], totals[m := totals ! m + x])"] st
    by (simp add: concat_update_perm)
qed auto

subsection \<open>The contract both strategies meet\<close>

text \<open>
  \<open>_check_and_sort_partitions\<close> relies on three laws of the strategy it checks: one list per
  partition, every index exactly once, and equal sizes where they were asked for.
\<close>

locale partition_strategy =
  fixes part :: "int list \<Rightarrow> nat \<Rightarrow> bool \<Rightarrow> nat list list result"
  assumes part_partition: "part xs k eq = Inr ps \<Longrightarrow> is_partition (length xs) k ps"
    and part_equal: "part xs k True = Inr ps \<Longrightarrow> p \<in> set ps \<Longrightarrow> length p * k = length xs"
begin

lemma part_index:
  assumes "part xs k eq = Inr ps" "i < length xs"
  shows "\<exists>p \<in> set ps. i \<in> set p"
proof -
  from assms have "i \<in> set (concat ps)"
    using part_partition [of xs k eq ps] perm_upt_iff by (fastforce simp: is_partition_def)
  then show ?thesis by auto
qed

lemma part_disjoint:
  assumes "part xs k eq = Inr ps" "a < k" "b < k" "a \<noteq> b"
  shows "set (ps ! a) \<inter> set (ps ! b) = {}"
proof -
  have "distinct (concat ps)" "length ps = k"
    using part_partition [OF assms(1)] perm_upt_iff by (auto simp: is_partition_def)
  then show ?thesis
    using assms(2-4) distinct_concat_nth [of ps a b] distinct_concat_nth [of ps b a]
    by (cases "a < b") (auto simp: Int_commute)
qed

lemma part_load:
  assumes "part xs k eq = Inr ps"
  shows "sum_list (map (\<lambda>p. sum_list (picks xs p)) ps) = sum_list xs"
proof -
  have "mset (concat ps) = mset [0..<length xs]"
    using part_partition [OF assms] by (simp only: is_partition_def)
  then have "mset (picks xs (concat ps)) = mset xs" by (rule mset_picks_perm)
  then have "sum_list (picks xs (concat ps)) = sum_list xs" by (metis sum_mset_sum_list)
  moreover have "sum_list (picks xs (concat ps)) = sum_list (map (\<lambda>p. sum_list (picks xs p)) ps)"
    by (induction ps) (simp_all add: picks_def)
  ultimately show ?thesis by simp
qed

end

interpretation kk: partition_strategy karmarkar_karp
proof
  fix xs :: "int list" and k eq ps p
  show "karmarkar_karp xs k eq = Inr ps \<Longrightarrow> is_partition (length xs) k ps"
    using karmarkar_karp_total [of xs k eq] karmarkar_karp_Inr [of xs k eq ps] by auto
  show "karmarkar_karp xs k True = Inr ps \<Longrightarrow> p \<in> set ps \<Longrightarrow> length p * k = length xs"
    using karmarkar_karp_total [of xs k True] karmarkar_karp_Inr [of xs k True ps] by auto
qed

interpretation greedy: partition_strategy greedy_partition
proof
  fix xs :: "int list" and k eq ps p
  let ?bias = "if eq then sum_list xs + 1 else 0"
  have len: "length (map (\<lambda>s. s + ?bias) xs) = length [0..<length xs]" by simp
  show "greedy_partition xs k eq = Inr ps \<Longrightarrow> is_partition (length xs) k ps"
    using greedy_parts [OF _ len, of k "(replicate k [], replicate k 0)"]
    by (force simp: greedy_partition_def is_partition_def res_simps Let_def)
  show "greedy_partition xs k True = Inr ps \<Longrightarrow> p \<in> set ps \<Longrightarrow> length p * k = length xs"
    by (auto simp: greedy_partition_def check_equal_sizes_def res_simps Let_def)
qed

subsection \<open>The checked entry point\<close>

lemma rmap_sort_nonempty:
  "rmap (\<lambda>p. rbind (py_assert (length p > 0)) (\<lambda>_. Inr (sort p))) ps
   = (if \<forall>p \<in> set ps. p \<noteq> [] then Inr (map sort ps) else Inl AssertionError)"
proof (induction ps)
  case (Cons p ps)
  then show ?case by (cases "p = []") auto
qed simp

lemma check_and_sort_eq:
  assumes "is_partition n k ps"
  shows "check_and_sort_partitions n k ps
    = (if \<forall>p \<in> set ps. p \<noteq> [] then Inr (map sort ps) else Inl AssertionError)"
proof -
  have "set (concat ps) = {0..<n}" "length ps = k"
    using assms perm_upt_iff by (auto simp: is_partition_def)
  then show ?thesis
    unfolding check_and_sort_partitions_def rmap_sort_nonempty by simp
qed

lemma is_partition_sort: "is_partition n k ps \<Longrightarrow> is_partition n k (map sort ps)"
proof -
  have "mset (concat (map sort ps)) = mset (concat ps)" by (induction ps) auto
  then show "is_partition n k ps \<Longrightarrow> is_partition n k (map sort ps)"
    by (simp add: is_partition_def)
qed

lemma balanced_partitions_Inr:
  assumes "get_seqlen_balanced_partitions xs k eq = Inr ps"
  shows "is_partition (length xs) k ps" and "\<forall>p \<in> set ps. p \<noteq> [] \<and> sorted p"
    and "eq \<Longrightarrow> \<forall>p \<in> set ps. length p * k = length xs"
proof -
  obtain qs where qs: "karmarkar_karp xs k eq = Inr qs"
    and ck: "check_and_sort_partitions (length xs) k qs = Inr ps"
    using assms by (auto simp: get_seqlen_balanced_partitions_def res_simps)
  have q: "is_partition (length xs) k qs" using kk.part_partition [OF qs] .
  have ps: "ps = map sort qs" "\<forall>p \<in> set qs. p \<noteq> []"
    using ck unfolding check_and_sort_eq [OF q] by (simp_all split: if_splits)
  show "is_partition (length xs) k ps" using q ps(1) is_partition_sort by simp
  show "\<forall>p \<in> set ps. p \<noteq> [] \<and> sorted p"
    using ps by simp
  show "eq \<Longrightarrow> \<forall>p \<in> set ps. length p * k = length xs"
    using kk.part_equal qs ps(1) by auto
qed

lemma balanced_partitions_total:
  assumes "0 < k" "k \<le> length xs" "\<forall>s \<in> set xs. 0 \<le> s" "eq \<Longrightarrow> k dvd length xs"
  shows "\<exists>ps. get_seqlen_balanced_partitions xs k eq = Inr ps"
proof -
  have "good_start (sorted_seqlens xs) k eq" "xs \<noteq> []"
    using assms by (auto simp: good_start_def)
  then obtain qs where "karmarkar_karp xs k eq = Inr qs" "is_partition (length xs) k qs"
    "\<forall>p \<in> set qs. p \<noteq> []"
    using karmarkar_karp_total assms(2,3) by blast
  then show ?thesis
    using assms(2) by (simp add: get_seqlen_balanced_partitions_def check_and_sort_eq)
qed

subsection \<open>Properties\<close>

text \<open>C4: the balanced partitioning never fails on sequence lengths it is meant for, and what it
  returns is a partition of the sample indices into \<open>k\<close> nonempty sorted lists, of equal size
  where that was asked for.\<close>

theorem balanced_partitions_correct:
  assumes "0 < k" "k \<le> length xs" "\<forall>s \<in> set xs. 0 \<le> s" "eq \<longrightarrow> k dvd length xs"
  shows "\<exists>ps. get_seqlen_balanced_partitions xs k eq = Inr ps
    \<and> length ps = k \<and> distinct (concat ps) \<and> set (concat ps) = {0..<length xs}
    \<and> (\<forall>p \<in> set ps. p \<noteq> [] \<and> sorted p)
    \<and> (eq \<longrightarrow> (\<forall>p \<in> set ps. length p * k = length xs))"
proof -
  obtain ps where "get_seqlen_balanced_partitions xs k eq = Inr ps"
    using balanced_partitions_total assms by blast
  then show ?thesis
    using balanced_partitions_Inr [of xs k eq ps] perm_upt_iff by (auto simp: is_partition_def)
qed

theorem balanced_partitions_correct_witness:
  "\<exists>ps. get_seqlen_balanced_partitions [3, 0, 2, 7, 2, 0] 3 True = Inr ps
    \<and> length ps = 3 \<and> distinct (concat ps) \<and> set (concat ps) = {0..<length [3 :: int, 0, 2, 7, 2, 0]}
    \<and> (\<forall>p \<in> set ps. p \<noteq> [] \<and> sorted p)
    \<and> (True \<longrightarrow> (\<forall>p \<in> set ps. length p * 3 = length [3 :: int, 0, 2, 7, 2, 0]))"
proof (rule balanced_partitions_correct)
  show "True \<longrightarrow> 3 dvd length [3 :: int, 0, 2, 7, 2, 0]" by code_simp
qed simp_all

text \<open>The bias of the greedy strategy does what its comment says: on non-negative lengths
  whose number the partition count divides, every partition ends with the same number of items,
  so the final assertion cannot fail.\<close>

theorem greedy_partition_equal_sizes:
  assumes "0 < k" "k dvd length xs" "\<forall>s \<in> set xs. 0 \<le> s"
  shows "\<exists>ps. greedy_partition xs k True = Inr ps \<and> length ps = k
    \<and> (\<forall>p \<in> set ps. length p * k = length xs) \<and> distinct (concat ps)
    \<and> set (concat ps) = {0..<length xs}"
proof -
  let ?bias = "sum_list xs + 1"
  have "0 \<le> sum_list xs" using assms(3) by (intro sum_list_nonneg) auto
  then obtain parts totals where run:
    "rfold (greedy_step k) (zip (map (\<lambda>s. s + ?bias) xs) [0..<length xs]) (replicate k [], replicate k 0)
      = Inr (parts, totals)"
    and inv: "greedy_inv k ?bias (0 + sum_list xs) (parts, totals)"
    and perm: "mset (concat parts) = mset [0..<length xs]"
    using greedy_run [OF assms(1,3) greedy_inv_start, of ?bias "[0..<length xs]"] by auto
  have "length (concat parts) = length xs" using perm by (metis length_upt minus_nat.diff_0 size_mset)
  from greedy_inv_sizes [OF inv this assms(2)]
  have sizes: "\<forall>p \<in> set parts. length p * k = length xs" .
  then have ret: "greedy_partition xs k True = Inr parts"
    using run by (simp add: greedy_partition_def check_equal_sizes_def Let_def)
  show ?thesis
    using ret sizes greedy.part_partition [OF ret] perm_upt_iff by (auto simp: is_partition_def)
qed

theorem greedy_partition_equal_sizes_witness:
  "\<exists>ps. greedy_partition [9, 0, 1, 1] 2 True = Inr ps \<and> length ps = 2
    \<and> (\<forall>p \<in> set ps. length p * 2 = length [9 :: int, 0, 1, 1]) \<and> distinct (concat ps)
    \<and> set (concat ps) = {0..<length [9 :: int, 0, 1, 1]}"
proof (rule greedy_partition_equal_sizes)
  show "2 dvd length [9 :: int, 0, 1, 1]" by code_simp
qed simp_all

end
