(* ===== verification/MicroBatch.thy ===== *)
theory MicroBatch
  imports SeqBalance
begin

section \<open>Micro-batches and group partitions (\<open>verl/utils/seqlen_balancing.py\<close>)\<close>

text \<open>
  The planner that cuts a batch into micro-batches by token count, the index inversion that
  puts results back in order, the partition that keeps samples of one prompt together, and
  the imbalance metrics. A batch is the list of its rows; \<open>index_select_tensor_dict\<close> picks
  rows by index. The all-reduce of \<open>torch.distributed\<close> is the parameter \<open>dp_sync\<close>: None when
  it is not initialised or not wanted, otherwise the function from this rank's count to the
  maximum over the ranks.
\<close>

definition ceildiv :: "int \<Rightarrow> int \<Rightarrow> int result" where
  "ceildiv a b = rbind (py_floordiv a (- b)) (\<lambda>q. Inr (- q))"

definition roundup_divisible :: "int \<Rightarrow> int \<Rightarrow> int result" where
  "roundup_divisible a b = rbind (py_floordiv (a + b - 1) b) (\<lambda>q. Inr (q * b))"

lemma ceildiv_bounds:
  assumes "ceildiv a b = Inr q" "0 < b"
  shows "a \<le> q * b" and "q * b < a + b"
proof -
  have q: "q = - (a div - b)" using assms(1) by (auto simp: ceildiv_def res_simps)
  have "a = - b * (a div - b) + a mod - b" by (rule mult_div_mod_eq [symmetric])
  then have "q * b = a - a mod - b" unfolding q by (simp add: mult.commute)
  moreover have "- b < a mod - b" "a mod - b \<le> 0" using assms(2) by simp_all
  ultimately show "a \<le> q * b" "q * b < a + b" by linarith+
qed

lemma roundup_divisible_bounds:
  assumes "roundup_divisible a b = Inr r" "0 < b"
  shows "b dvd r" and "a \<le> r" and "r < a + b"
proof -
  have r: "r = (a + b - 1) div b * b" using assms(1) by (auto simp: roundup_divisible_def res_simps)
  then show "b dvd r" by simp
  have "r = (a + b - 1) - (a + b - 1) mod b" unfolding r by (simp add: minus_mod_eq_div_mult)
  moreover have "0 \<le> (a + b - 1) mod b" "(a + b - 1) mod b < b" using assms(2) by simp_all
  ultimately show "a \<le> r" "r < a + b" by linarith+
qed

subsection \<open>Imbalance metrics\<close>

definition log_seqlen_unbalance ::
  "int list \<Rightarrow> nat list list \<Rightarrow> string \<Rightarrow> (string, real) dict result" where
  "log_seqlen_unbalance seqlens partitions pre =
    (if length partitions = 0 then Inl ZeroDivisionError
     else let batch_size = length seqlens div length partitions
     in if batch_size = 0 then Inl ValueError
     else let batch_sums = map (\<lambda>offset. sum_list (slice offset (offset + batch_size) seqlens))
                (range_step (length seqlens) batch_size)
     in rbind (py_min batch_sums) (\<lambda>min_sum_seqlen.
        rbind (py_max batch_sums) (\<lambda>max_sum_seqlen.
        rbind (rmap (\<lambda>p. rbind (rmap (py_nth seqlens) p) (\<lambda>vs. Inr (sum_list vs))) partitions)
          (\<lambda>balanced.
        rbind (py_min balanced) (\<lambda>min_balanced.
        rbind (py_max balanced) (\<lambda>max_balanced.
        Inr [(pre @ ''/min'', of_int min_sum_seqlen),
             (pre @ ''/max'', of_int max_sum_seqlen),
             (pre @ ''/minmax_diff'', of_int (max_sum_seqlen - min_sum_seqlen)),
             (pre @ ''/balanced_min'', of_int min_balanced),
             (pre @ ''/balanced_max'', of_int max_balanced),
             (pre @ ''/mean'', of_int (sum_list batch_sums) / of_nat (length partitions))]))))))"

subsection \<open>Planning micro-batches\<close>

datatype seq_layout =
    Jagged "int list"          \<comment> \<open>a nested tensor: the offsets of its rows\<close>
  | Padded nat "int list list" \<comment> \<open>the width and the rows of the attention mask\<close>

record mb_options =
  max_token_len :: int
  dp_sync :: "(int \<Rightarrow> int) option"
  num_batches_divided_by :: "int option"
  min_num_micro_batch :: "int option"
  use_dynamic_bsz_balance :: bool

fun effective_seqlens :: "seq_layout \<Rightarrow> (int list \<times> int) result" where
  "effective_seqlens (Jagged offs) =
     (let lens = map2 (-) (tl offs) offs in rbind (py_max lens) (\<lambda>m. Inr (lens, m)))"
| "effective_seqlens (Padded width rows) = Inr (map sum_list rows, int width)"

definition plan_num_micro_batches :: "mb_options \<Rightarrow> int list \<Rightarrow> int result" where
  "plan_num_micro_batches opts lens =
     rbind (ceildiv (sum_list lens) (max_token_len opts)) (\<lambda>c.
     let n0 = min (int (length lens)) c;
         n1 = (case min_num_micro_batch opts of None \<Rightarrow> n0 | Some m \<Rightarrow> max m n0);
         n2 = (case dp_sync opts of None \<Rightarrow> n1 | Some all_reduce_max \<Rightarrow> all_reduce_max n1)
     in case num_batches_divided_by opts of None \<Rightarrow> Inr n2 | Some d \<Rightarrow> roundup_divisible n2 d)"

fun every_other :: "'a list \<Rightarrow> 'a list" where
  "every_other [] = []"
| "every_other [x] = [x]"
| "every_other (x # y # xs) = x # every_other xs"

definition partition_key :: "int list \<Rightarrow> nat list \<Rightarrow> int \<times> nat" where
  "partition_key workloads p = (sum_list (picks workloads p), case p of [] \<Rightarrow> 0 | i # _ \<Rightarrow> i)"

definition order_micro_batches :: "int list \<Rightarrow> nat list list \<Rightarrow> nat list list" where
  "order_micro_batches workloads ps =
     (let desc = rev (sort_key (partition_key workloads) (rev ps))
      in rev (every_other desc) @ every_other (tl desc))"

definition rearrange_micro_batches ::
  "mb_options \<Rightarrow> seq_layout \<Rightarrow> 'row list \<Rightarrow> ('row list list \<times> nat list list) result" where
  "rearrange_micro_batches opts layout batch =
     rbind (effective_seqlens layout) (\<lambda>(lens, max_seq_len).
     rbind (py_assert (max_token_len opts \<ge> max_seq_len)) (\<lambda>_.
     rbind (plan_num_micro_batches opts lens) (\<lambda>num_micro_batches.
     rbind (py_assert (num_micro_batches \<le> int (length lens))) (\<lambda>_.
     let workloads = map calculate_workload lens
     in rbind (get_seqlen_balanced_partitions workloads (nat num_micro_batches) False) (\<lambda>ps.
     let micro_bsz_idx = (if use_dynamic_bsz_balance opts then order_micro_batches workloads ps else ps)
     in rbind (rmap (rmap (py_nth batch)) micro_bsz_idx) (\<lambda>micro_batches.
     Inr (micro_batches, micro_bsz_idx)))))))"

subsection \<open>Undoing the rearrangement\<close>

definition get_reverse_idx :: "nat list \<Rightarrow> nat list result" where
  "get_reverse_idx idx_map =
     rfold (\<lambda>(i, idx) r. if idx < length r then Inr (r[idx := i]) else Inl IndexError)
       (zip [0..<length idx_map] idx_map) idx_map"

definition restore_dynamic_batch :: "'row list \<Rightarrow> nat list list \<Rightarrow> 'row list result" where
  "restore_dynamic_batch data batch_idx_list =
     (let indices = concat batch_idx_list
      in rbind (py_assert (length indices = length data)) (\<lambda>_.
         rbind (get_reverse_idx indices) (\<lambda>revert_indices.
         rmap (py_nth data) revert_indices)))"

subsection \<open>Partitions that keep a prompt's samples together\<close>

fun group_runs :: "nat \<Rightarrow> (int \<times> 'u option) list \<Rightarrow> (nat list \<times> int) list \<Rightarrow> 'u option
    \<Rightarrow> nat list \<Rightarrow> int \<Rightarrow> (nat list \<times> int) list" where
  "group_runs i [] groups cur_uid cur_indices cur_seqlen =
     (if cur_indices \<noteq> [] then groups @ [(cur_indices, cur_seqlen)] else groups)"
| "group_runs i ((seqlen, uid) # rest) groups cur_uid cur_indices cur_seqlen =
     (if uid \<noteq> cur_uid
      then group_runs (Suc i) rest
             (if cur_indices \<noteq> [] then groups @ [(cur_indices, cur_seqlen)] else groups) uid [i] seqlen
      else group_runs (Suc i) rest groups cur_uid (cur_indices @ [i]) (cur_seqlen + seqlen))"

definition get_group_balanced_partitions :: "int list \<Rightarrow> 'u option list \<Rightarrow> nat \<Rightarrow> nat list list result" where
  "get_group_balanced_partitions seqlens uids k =
     rbind (py_assert (length seqlens = length uids)) (\<lambda>_.
     let groups = group_runs 0 (zip seqlens uids) [] None [] 0
     in rbind (py_assert (length groups \<ge> k)) (\<lambda>_.
     let group_workloads = map (\<lambda>(indices, _). sum_list (map (\<lambda>i. calculate_workload (seqlens ! i)) indices)) groups
     in rbind (get_seqlen_balanced_partitions group_workloads k True) (\<lambda>group_partitions.
     Inr (map (\<lambda>gp. sort (concat (map (\<lambda>g. fst (groups ! g)) gp))) group_partitions))))"

subsection \<open>The order of the micro-batches is a rearrangement\<close>

lemma every_other_Cons: "every_other (x # xs) = x # every_other (tl xs)"
  by (cases xs) auto

lemma every_other_split: "mset (every_other xs) + mset (every_other (tl xs)) = mset xs"
  by (induction xs) (auto simp: every_other_Cons add.commute)

lemma mset_order_micro_batches: "mset (order_micro_batches workloads ps) = mset ps"
  by (simp add: order_micro_batches_def Let_def every_other_split)

lemma rearrange_Inr:
  assumes "rearrange_micro_batches opts layout batch = Inr (mbs, idx)"
  obtains lens m where "effective_seqlens layout = Inr (lens, m)"
    "is_partition (length lens) (length idx) idx" "\<forall>p \<in> set idx. p \<noteq> []"
    "mbs = map (picks batch) idx" "\<forall>i \<in> set (concat idx). i < length batch"
proof -
  obtain lens m num ps where ef: "effective_seqlens layout = Inr (lens, m)"
    and ps: "get_seqlen_balanced_partitions (map calculate_workload lens) num False = Inr ps"
    and idx: "idx = (if use_dynamic_bsz_balance opts
      then order_micro_batches (map calculate_workload lens) ps else ps)"
    and mbs: "rmap (rmap (py_nth batch)) idx = Inr mbs"
    using assms by (auto simp: rearrange_micro_batches_def res_simps Let_def split: prod.splits)
  have perm: "mset idx = mset ps" using idx by (simp add: mset_order_micro_batches)
  then have "mset (concat idx) = mset (concat ps)"
    using mset_concat_cong [of idx ps id] by simp
  then have part: "is_partition (length lens) (length idx) idx"
    using balanced_partitions_Inr(1) [OF ps] by (simp add: is_partition_def)
  have "set idx = set ps" using perm by (metis set_mset_mset)
  then have ne: "\<forall>p \<in> set idx. p \<noteq> []" using balanced_partitions_Inr(2) [OF ps] by simp
  have row: "ys = picks batch p \<and> (\<forall>i \<in> set p. i < length batch)"
    if "rmap (py_nth batch) p = Inr ys" for p ys
    using rmap_py_nth_Inr that by blast
  have len: "length mbs = length idx" using rmap_length [OF mbs] .
  have "mbs = map (picks batch) idx"
    by (rule nth_equalityI) (use len rmap_nth [OF mbs] row in auto)
  moreover have "\<forall>p \<in> set idx. \<forall>i \<in> set p. i < length batch"
    using rmap_nth [OF mbs] row by (metis in_set_conv_nth)
  ultimately show ?thesis using that ef part ne by auto
qed

subsection \<open>Inverting an index map\<close>

lemma reverse_fold:
  assumes "distinct idx" "\<forall>j \<in> set idx. j < length r"
  shows "\<exists>r'. rfold (\<lambda>(i, idx) r. if idx < length r then Inr (r[idx := i]) else Inl IndexError)
      (zip [b..<b + length idx] idx) r = Inr r' \<and> length r' = length r
    \<and> (\<forall>t < length idx. r' ! (idx ! t) = b + t) \<and> (\<forall>j. j \<notin> set idx \<longrightarrow> r' ! j = r ! j)"
  using assms
proof (induction idx arbitrary: r b)
  case (Cons a idx)
  have upt: "[b..<b + length (a # idx)] = b # [Suc b..<Suc b + length idx]"
    by (simp add: upt_rec)
  obtain r' where r': "rfold (\<lambda>(i, idx) r. if idx < length r then Inr (r[idx := i]) else Inl IndexError)
      (zip [Suc b..<Suc b + length idx] idx) (r[a := b]) = Inr r'" "length r' = length r"
    "\<forall>t < length idx. r' ! (idx ! t) = Suc b + t" "\<forall>j. j \<notin> set idx \<longrightarrow> r' ! j = r[a := b] ! j"
    using Cons.IH [of "r[a := b]" "Suc b"] Cons.prems by auto
  have "\<forall>t < length (a # idx). r' ! ((a # idx) ! t) = b + t"
  proof (intro allI impI)
    fix t assume "t < length (a # idx)"
    then show "r' ! ((a # idx) ! t) = b + t"
      using r'(3,4) Cons.prems by (cases t) auto
  qed
  moreover have "\<forall>j. j \<notin> set (a # idx) \<longrightarrow> r' ! j = r ! j" using r'(4) by auto
  ultimately show ?case using r'(1,2) Cons.prems unfolding upt by auto
qed simp

lemma get_reverse_idx_inverse:
  assumes "mset idx = mset [0..<length idx]"
  obtains r where "get_reverse_idx idx = Inr r" "length r = length idx"
    "\<forall>t < length idx. r ! (idx ! t) = t" "\<forall>j < length idx. r ! j < length idx \<and> idx ! (r ! j) = j"
proof -
  have d: "distinct idx" and set: "set idx = {0..<length idx}" using assms perm_upt_iff by blast+
  obtain r where r: "get_reverse_idx idx = Inr r" "length r = length idx"
    "\<forall>t < length idx. r ! (idx ! t) = t"
    using reverse_fold [of idx idx 0] d set by (auto simp: get_reverse_idx_def)
  moreover have "r ! j < length idx \<and> idx ! (r ! j) = j" if "j < length idx" for j
  proof -
    have "j \<in> set idx" using that set by simp
    then obtain t where "t < length idx" "idx ! t = j" by (metis in_set_conv_nth)
    then show ?thesis using r(3) by auto
  qed
  ultimately show ?thesis using that by blast
qed

lemma restore_picks:
  assumes "is_partition (length rows) k idx"
  shows "restore_dynamic_batch (picks rows (concat idx)) idx = Inr rows"
proof -
  let ?ix = "concat idx"
  have len: "length ?ix = length rows"
    using assms by (metis diff_zero is_partition_def length_upt size_mset)
  then have "mset ?ix = mset [0..<length ?ix]" using assms by (simp add: is_partition_def)
  then obtain r where r: "get_reverse_idx ?ix = Inr r" "length r = length ?ix"
    "\<forall>j < length ?ix. r ! j < length ?ix \<and> ?ix ! (r ! j) = j"
    using get_reverse_idx_inverse by blast
  have "\<forall>i \<in> set r. i < length (picks rows ?ix)"
    using r(2,3) by (auto simp: in_set_conv_nth)
  then have "rmap (py_nth (picks rows ?ix)) r = Inr (picks (picks rows ?ix) r)"
    by (rule rmap_py_nth)
  moreover have "picks (picks rows ?ix) r = rows"
    by (rule nth_equalityI) (use r(2,3) len in \<open>simp_all add: picks_def\<close>)
  ultimately show ?thesis using r(1) by (simp add: restore_dynamic_batch_def Let_def)
qed

subsection \<open>Runs of one prompt\<close>

lemma group_runs_concat:
  "concat (map fst (group_runs i xs groups cu ci cs)) = concat (map fst groups) @ ci @ [i..<i + length xs]"
  by (induction i xs groups cu ci cs rule: group_runs.induct) (auto simp: upt_rec)

lemma group_runs_mono: "set groups \<subseteq> set (group_runs i xs groups cu ci cs)"
  by (induction i xs groups cu ci cs rule: group_runs.induct) auto

lemma group_runs_current:
  "ci \<noteq> [] \<Longrightarrow> \<exists>g \<in> set (group_runs i xs groups cu ci cs). set ci \<subseteq> set (fst g)"
proof (induction i xs groups cu ci cs rule: group_runs.induct)
  case (2 i seqlen uid rest groups cu ci cs)
  show ?case
  proof (cases "uid \<noteq> cu")
    case True
    have "(ci, cs) \<in> set (group_runs (Suc i) rest (groups @ [(ci, cs)]) uid [i] seqlen)"
      using group_runs_mono [of "groups @ [(ci, cs)]" "Suc i" rest uid "[i]" seqlen] by auto
    then show ?thesis using True 2(3) by (intro bexI [of _ "(ci, cs)"]) auto
  next
    case False
    then show ?thesis using 2(2) by fastforce
  qed
qed auto

lemma group_runs_adjacent:
  "Suc t < length xs \<Longrightarrow> snd (xs ! t) = snd (xs ! Suc t) \<Longrightarrow>
   \<exists>g \<in> set (group_runs i xs groups cu ci cs). i + t \<in> set (fst g) \<and> Suc (i + t) \<in> set (fst g)"
proof (induction t arbitrary: i xs groups cu ci cs)
  case 0
  obtain s u s' rest where xs: "xs = (s, u) # (s', u) # rest"
    using 0 by (cases xs; cases "tl xs") auto
  have step: "\<exists>g \<in> set (group_runs (Suc i) ((s', u) # rest) groups' u (ci' @ [i]) cs').
      i \<in> set (fst g) \<and> Suc i \<in> set (fst g)" for groups' ci' cs'
    using group_runs_current [of "ci' @ [i, Suc i]" "Suc (Suc i)" rest groups' u "cs' + s'"] by auto
  show ?case
    using step [of _ "[]"] step [of _ ci] unfolding xs by (cases "u = cu") auto
next
  case (Suc t)
  obtain s u rest where xs: "xs = (s, u) # rest" using Suc.prems by (cases xs) auto
  show ?case using Suc.IH [of rest "Suc i"] Suc.prems unfolding xs by auto
qed

lemma group_runs_sorted_cover:
  "concat (map fst (group_runs 0 xs [] None [] 0)) = [0..<length xs]"
  by (simp add: group_runs_concat)

lemma concat_of_partition:
  assumes "is_partition (length gs) k gps"
  shows "mset (concat (map (\<lambda>gp. sort (concat (map (\<lambda>g. fst (gs ! g)) gp))) gps))
    = mset (concat (map fst gs))"
proof -
  have "mset (concat (map (\<lambda>gp. sort (concat (map (\<lambda>g. fst (gs ! g)) gp))) gps))
      = mset (concat (map (\<lambda>g. fst (gs ! g)) (concat gps)))"
    by (induction gps) auto
  also have "\<dots> = mset (concat (map (\<lambda>g. fst (gs ! g)) [0..<length gs]))"
    using assms by (intro mset_concat_cong) (simp add: is_partition_def)
  also have "map (\<lambda>g. fst (gs ! g)) [0..<length gs] = map fst gs"
    by (rule nth_equalityI) simp_all
  finally show ?thesis .
qed

subsection \<open>Properties\<close>

text \<open>C14: restoring undoes rearranging. Whatever the options, when the planner returns, its index
  lists hold every row exactly once, none of them is empty, every micro-batch is the rows its
  index list names, and \<open>restore_dynamic_batch\<close> applied to the micro-batches' concatenation gives
  the batch back.\<close>

theorem rearrange_restore_roundtrip:
  assumes "rearrange_micro_batches opts layout batch = Inr (mbs, idx)"
    and "effective_seqlens layout = Inr (lens, m)" and "length batch = length lens"
  shows "distinct (concat idx) \<and> set (concat idx) = {0..<length batch}
    \<and> (\<forall>p \<in> set idx. p \<noteq> []) \<and> mbs = map (picks batch) idx
    \<and> restore_dynamic_batch (concat mbs) idx = Inr batch"
proof -
  obtain lens' m' where l: "effective_seqlens layout = Inr (lens', m')"
    and part: "is_partition (length lens') (length idx) idx"
    and rest: "\<forall>p \<in> set idx. p \<noteq> []" "mbs = map (picks batch) idx"
    using rearrange_Inr [OF assms(1)] by metis
  have part: "is_partition (length batch) (length idx) idx"
    using part l assms(2,3) by simp
  then show ?thesis
    using rest restore_picks [OF part] perm_upt_iff by (auto simp: concat_picks is_partition_def)
qed

definition demo_options :: mb_options where
  "demo_options = \<lparr>max_token_len = 6, dp_sync = None, num_batches_divided_by = None,
     min_num_micro_batch = None, use_dynamic_bsz_balance = True\<rparr>"

lemma demo_run:
  "rearrange_micro_batches demo_options (Jagged [0, 3, 6, 8, 10, 12]) [30, 31, 20, 21, 22 :: nat]
     = Inr ([[30, 20, 21], [31, 22]], [[0, 2, 3], [1, 4]])"
  by code_simp

theorem rearrange_restore_roundtrip_witness:
  "restore_dynamic_batch (concat [[30, 20, 21], [31, 22]]) [[0, 2, 3], [1, 4]]
     = Inr [30, 31, 20, 21, 22 :: nat]"
proof -
  have "effective_seqlens (Jagged [0, 3, 6, 8, 10, 12]) = Inr ([3, 3, 2, 2, 2], 3)"
    by code_simp
  moreover have "length [30, 31, 20, 21, 22 :: nat] = length [3 :: int, 3, 2, 2, 2]" by simp
  ultimately show ?thesis using rearrange_restore_roundtrip [OF demo_run] by blast
qed

text \<open>\<open>max_token_len\<close> is not a cap. The documentation calls it the maximal sum of tokens per
  micro-batch, but the planner only derives the number of micro-batches from it: here five rows of
  lengths 3, 3, 2, 2, 2 under \<open>max_token_len = 6\<close> give a micro-batch of 7 tokens, although the
  split 3+3 and 2+2+2 keeps to the limit.\<close>

theorem max_token_len_is_not_a_cap:
  "\<exists>opts layout lens m mbs idx p.
     effective_seqlens layout = Inr (lens, m)
     \<and> rearrange_micro_batches opts layout lens = Inr (mbs, idx)
     \<and> p \<in> set mbs \<and> sum_list p > max_token_len opts
     \<and> is_partition (length lens) (length idx) [[0, 1], [2, 3, 4]]
     \<and> sum_list (picks lens [0, 1]) \<le> max_token_len opts
     \<and> sum_list (picks lens [2, 3, 4]) \<le> max_token_len opts"
proof (intro exI conjI)
  show "effective_seqlens (Jagged [0, 3, 6, 8, 10, 12]) = Inr ([3, 3, 2, 2, 2], 3)"
    by code_simp
  show "rearrange_micro_batches demo_options (Jagged [0, 3, 6, 8, 10, 12]) [3, 3, 2, 2, 2 :: int]
      = Inr ([[3, 2, 2], [3, 2]], [[0, 2, 3], [1, 4]])"
    by code_simp
  show "[3, 2, 2] \<in> set [[3, 2, 2], [3, 2 :: int]]" by simp
  show "sum_list [3, 2, 2] > max_token_len demo_options" by code_simp
  show "is_partition (length [3 :: int, 3, 2, 2, 2]) (length [[0, 2, 3], [1, 4 :: nat]]) [[0, 1], [2, 3, 4]]"
    by code_simp
  show "sum_list (picks [3, 3, 2, 2, 2] [0, 1]) \<le> max_token_len demo_options" by code_simp
  show "sum_list (picks [3, 3, 2, 2, 2] [2, 3, 4]) \<le> max_token_len demo_options" by code_simp
qed

text \<open>The group partitioner returns every sample exactly once, and two neighbouring samples
  with the same uid always land in the same partition.\<close>

theorem group_partitions_keep_runs:
  assumes ret: "get_group_balanced_partitions seqlens uids k = Inr ps"
    and i: "Suc i < length uids" "uids ! i = uids ! Suc i"
  shows "length ps = k \<and> distinct (concat ps) \<and> set (concat ps) = {0..<length seqlens}
    \<and> (\<exists>p \<in> set ps. i \<in> set p \<and> Suc i \<in> set p)"
proof -
  let ?gs = "group_runs 0 (zip seqlens uids) [] None [] 0"
  obtain gps where len: "length seqlens = length uids"
    and g: "is_partition (length ?gs) k gps"
    and ps: "ps = map (\<lambda>gp. sort (concat (map (\<lambda>g. fst (?gs ! g)) gp))) gps"
    using ret balanced_partitions_Inr(1)
    by (fastforce simp: get_group_balanced_partitions_def res_simps Let_def)
  have perm: "mset (concat ps) = mset [0..<length seqlens]"
    unfolding ps concat_of_partition [OF g] group_runs_sorted_cover by (simp add: len)
  obtain grp where "grp \<in> set ?gs" and both: "i \<in> set (fst grp)" "Suc i \<in> set (fst grp)"
    using group_runs_adjacent [of i "zip seqlens uids" 0 "[]" None "[]" 0] i len by auto
  then obtain gi where "gi < length ?gs" "?gs ! gi = grp" by (metis in_set_conv_nth)
  moreover have "set (concat gps) = {0..<length ?gs}"
    using g perm_upt_iff by (auto simp: is_partition_def)
  ultimately have "gi \<in> set (concat gps)" and gi: "?gs ! gi = grp" by simp_all
  then obtain gp where "gp \<in> set gps" "gi \<in> set gp" by auto
  then have "\<exists>p \<in> set ps. i \<in> set p \<and> Suc i \<in> set p"
    unfolding ps using both gi by (intro bexI [of _ "sort (concat (map (\<lambda>g. fst (?gs ! g)) gp))"]) auto
  moreover have "length ps = k" using g ps by (simp add: is_partition_def)
  ultimately show ?thesis using perm perm_upt_iff by auto
qed

theorem group_partitions_keep_runs_witness:
  "get_group_balanced_partitions [3, 3, 4, 4] [Some 0, Some 0, Some 1, Some (1 :: nat)] 2
     = Inr [[2, 3], [0, 1]]
   \<and> (\<exists>p \<in> set [[2, 3], [0, 1 :: nat]]. 2 \<in> set p \<and> Suc 2 \<in> set p)"
proof -
  have run: "get_group_balanced_partitions [3, 3, 4, 4] [Some 0, Some 0, Some 1, Some (1 :: nat)] 2
      = Inr [[2, 3], [0, 1]]"
    by code_simp
  show ?thesis using run group_partitions_keep_runs [OF run, of 2] by simp
qed

end
