(* ===== verification/Tensor.thy ===== *)
theory Tensor
  imports Prelude
begin

section \<open>Matrices of reals and masked statistics (\<open>verl/utils/torch_functional.py\<close>)\<close>

text \<open>
  A float tensor of shape (batch, length) is the list of its rows over the reals: rounding is
  outside the model, and a division that would give an infinity or a NaN is the value
  \<open>Inl NonFinite\<close>. Elementwise operations of tensors are the maps below; they are used on
  operands of one shape only, as torch requires. A mask holds 0 and 1.
\<close>

type_synonym vec = "real list"
type_synonym mat = "real list list"

definition mmap :: "(real \<Rightarrow> real) \<Rightarrow> mat \<Rightarrow> mat" where
  "mmap f A = map (map f) A"

definition mmap2 :: "(real \<Rightarrow> real \<Rightarrow> real) \<Rightarrow> mat \<Rightarrow> mat \<Rightarrow> mat" where
  "mmap2 f A B = map2 (map2 f) A B"

definition mmap3 :: "(real \<Rightarrow> real \<Rightarrow> real \<Rightarrow> real) \<Rightarrow> mat \<Rightarrow> mat \<Rightarrow> mat \<Rightarrow> mat" where
  "mmap3 f A B C = map (\<lambda>(a, b, c). map (\<lambda>(x, y, z). f x y z) (zip a (zip b c))) (zip A (zip B C))"

definition msum :: "mat \<Rightarrow> real" where
  "msum A = sum_list (map sum_list A)"

definition row_sums :: "mat \<Rightarrow> vec" where
  "row_sums A = map sum_list A"

text \<open>\<open>v.unsqueeze(-1) * M\<close> and \<open>v.unsqueeze(-1)\<close> broadcast to the shape of \<open>M\<close>.\<close>

definition scale_rows :: "vec \<Rightarrow> mat \<Rightarrow> mat" where
  "scale_rows v M = map2 (\<lambda>x row. map ((*) x) row) v M"

definition bcast :: "vec \<Rightarrow> mat \<Rightarrow> mat" where
  "bcast v M = map2 (\<lambda>x row. map (\<lambda>_. x) row) v M"

definition same_shape :: "mat \<Rightarrow> mat \<Rightarrow> bool" where
  "same_shape A B \<longleftrightarrow> map length A = map length B"

definition is_mask :: "mat \<Rightarrow> bool" where
  "is_mask M \<longleftrightarrow> (\<forall>row \<in> set M. \<forall>x \<in> set row. x = 0 \<or> x = 1)"

definition clamp :: "real \<Rightarrow> real \<Rightarrow> real \<Rightarrow> real" where
  "clamp lo hi x = min (max x lo) hi"

definition indicator01 :: "bool \<Rightarrow> real" where
  "indicator01 b = (if b then 1 else 0)"

definition tdiv :: "real \<Rightarrow> real \<Rightarrow> real result" where
  "tdiv a b = (if b = 0 then Inl NonFinite else Inr (a / b))"

lemma tdiv_Inr [simp, res_simps]: "tdiv a b = Inr q \<longleftrightarrow> b \<noteq> 0 \<and> q = a / b"
  by (auto simp: tdiv_def)

lemma clamp_bounds: "lo \<le> hi \<Longrightarrow> lo \<le> clamp lo hi x \<and> clamp lo hi x \<le> hi"
  by (auto simp: clamp_def)

lemma clamp_id: "lo \<le> x \<Longrightarrow> x \<le> hi \<Longrightarrow> clamp lo hi x = x"
  by (auto simp: clamp_def)

lemma clamp_mono: "x \<le> y \<Longrightarrow> clamp lo hi x \<le> clamp lo hi y"
  by (auto simp: clamp_def)

subsection \<open>Masked statistics\<close>

definition masked_sum :: "mat \<Rightarrow> mat \<Rightarrow> real" where
  "masked_sum vals msk = msum (mmap2 (\<lambda>v m. (if m \<noteq> 0 then v else 0) * m) vals msk)"

definition masked_sum_vec :: "vec \<Rightarrow> vec \<Rightarrow> real" where
  "masked_sum_vec vals msk = sum_list (map2 (\<lambda>v m. (if m \<noteq> 0 then v else 0) * m) vals msk)"

definition masked_mean :: "mat \<Rightarrow> mat \<Rightarrow> real" where
  "masked_mean vals msk = masked_sum vals msk / (msum msk + 1 / 10 ^ 8)"

definition masked_var :: "mat \<Rightarrow> mat \<Rightarrow> real result" where
  "masked_var vals msk =
     (let mean = masked_mean vals msk;
          centered_values = mmap (\<lambda>v. v - mean) vals;
          variance = masked_mean (mmap (\<lambda>v. v\<^sup>2) centered_values) msk;
          mask_sum = msum msk
      in if mask_sum = 0 then Inl ValueError
         else if mask_sum = 1 then Inl ValueError
         else Inr (variance * (mask_sum / (mask_sum - 1))))"

definition masked_whiten :: "mat \<Rightarrow> mat \<Rightarrow> bool \<Rightarrow> mat result" where
  "masked_whiten vals msk shift_mean =
     rbind (masked_var vals msk) (\<lambda>var.
     let mean = masked_mean vals msk;
         whitened = mmap (\<lambda>v. (v - mean) * (1 / sqrt (var + 1 / 10 ^ 8))) vals
     in Inr (if \<not> shift_mean then mmap (\<lambda>v. v + mean) whitened else whitened))"

definition clip_by_value :: "real \<Rightarrow> real \<Rightarrow> real \<Rightarrow> real" where
  "clip_by_value x tensor_min tensor_max = max (min x tensor_max) tensor_min"

text \<open>Statistics of one-dimensional tensors; \<open>std\<close> is the unbiased one.\<close>

definition masked_select :: "'a list \<Rightarrow> vec \<Rightarrow> 'a list" where
  "masked_select vals msk = map fst (filter (\<lambda>(v, m). m \<noteq> 0) (zip vals msk))"

definition vmax :: "vec \<Rightarrow> real" where
  "vmax xs = fold max xs (hd xs)"

definition vmin :: "vec \<Rightarrow> real" where
  "vmin xs = fold min xs (hd xs)"

definition vmean :: "vec \<Rightarrow> real" where
  "vmean xs = sum_list xs / real (length xs)"

definition vstd :: "vec \<Rightarrow> real" where
  "vstd xs = sqrt (sum_list (map (\<lambda>x. (x - vmean xs)\<^sup>2) xs) / (real (length xs) - 1))"

subsection \<open>Response masks and padding\<close>

definition cumsum :: "'a::monoid_add list \<Rightarrow> 'a list" where
  "cumsum xs = map (\<lambda>i. sum_list (take (Suc i) xs)) [0..<length xs]"

definition response_mask_row :: "int list \<Rightarrow> int list \<Rightarrow> nat list" where
  "response_mask_row eos_token row =
     (let eos_mask = map (\<lambda>t. if t \<in> set eos_token then 1 else 0) row :: int list
      in map2 (\<lambda>c e. if c - e = 0 then 1 else 0) (cumsum eos_mask) eos_mask)"

definition get_response_mask :: "int list list \<Rightarrow> int list \<Rightarrow> nat list list" where
  "get_response_mask response_id eos_token = map (response_mask_row eos_token) response_id"

definition pad_2d_list_to_length :: "'a list list \<Rightarrow> 'a \<Rightarrow> nat option \<Rightarrow> 'a list list result" where
  "pad_2d_list_to_length response pad_token_id max_length =
     (if response = [] then Inl ValueError
      else let response_length = fold max (map length response) 0;
               target_length = (case max_length of
                   Some m \<Rightarrow> if m > response_length then m else response_length
                 | None \<Rightarrow> response_length)
           in Inr (map (\<lambda>sub. sub @ replicate (target_length - length sub) pad_token_id) response))"

text \<open>The last dimension of a batch (with at least one row), and Python's \<open>xs[-n:]\<close>, which is the
  whole list for \<open>n = 0\<close>.\<close>

definition mwidth :: "'a list list \<Rightarrow> nat" where
  "mwidth rows = (case rows of [] \<Rightarrow> 0 | r # _ \<Rightarrow> length r)"

definition last_n :: "nat \<Rightarrow> 'a list \<Rightarrow> 'a list" where
  "last_n n xs = (if n = 0 then xs else drop (length xs - n) xs)"

definition pad_sequence_to_length :: "'a list list \<Rightarrow> nat \<Rightarrow> 'a \<Rightarrow> bool \<Rightarrow> 'a list list" where
  "pad_sequence_to_length rows max_seq_len pad_token_id left_pad =
     (if mwidth rows \<ge> max_seq_len then rows
      else let pad = replicate (max_seq_len - mwidth rows) pad_token_id
           in map (\<lambda>r. if left_pad then pad @ r else r @ pad) rows)"

definition truncate_row :: "string \<Rightarrow> nat \<Rightarrow> 'a list \<Rightarrow> 'a list" where
  "truncate_row truncation max_length r =
     (if truncation = ''left'' then last_n max_length r
      else if truncation = ''right'' then take max_length r
      else let left_half = max_length div 2; right_half = max_length - left_half
           in take left_half r @ last_n right_half r)"

definition postprocess_data ::
  "int list list \<Rightarrow> int list list \<Rightarrow> nat \<Rightarrow> int \<Rightarrow> bool \<Rightarrow> string \<Rightarrow> (int list list \<times> int list list) result" where
  "postprocess_data input_ids attention_mask max_length pad_token_id left_pad truncation =
     rbind (py_assert (truncation \<in> {''left'', ''right'', ''middle'', ''error''})) (\<lambda>_.
     let sequence_length = mwidth input_ids
     in if sequence_length < max_length then
          Inr (pad_sequence_to_length input_ids max_length pad_token_id left_pad,
               pad_sequence_to_length attention_mask max_length 0 left_pad)
        else if sequence_length > max_length then
          (if truncation = ''error'' then Inl NotImplementedError
           else Inr (map (truncate_row truncation max_length) input_ids,
                     map (truncate_row truncation max_length) attention_mask))
        else Inr (input_ids, attention_mask))"

definition remove_pad_token :: "'a list list \<Rightarrow> nat list list \<Rightarrow> 'a list list result" where
  "remove_pad_token input_ids attention_mask =
     (if length input_ids \<noteq> length attention_mask then Inl ValueError
      else Inr (map2 (\<lambda>ids msk. drop (length ids - sum_list msk) ids) input_ids attention_mask))"

subsection \<open>Lemmas\<close>

lemma vmean_abs: "\<bar>vmean xs\<bar> \<le> vmean (map abs xs)"
  unfolding vmean_def abs_divide using sum_list_abs [of xs] by (simp add: divide_right_mono)

lemma sum_list_divide: "sum_list (map (\<lambda>x. g x / (c :: real)) xs) = sum_list (map g xs) / c"
  by (induction xs) (simp_all add: add_divide_distrib)

lemma sum_list_one_hot: "k < n \<Longrightarrow> sum_list ((replicate n 0)[k := (x :: real)]) = x"
proof (induction n arbitrary: k)
  case (Suc n)
  then show ?case by (cases k) (simp_all add: sum_list_replicate)
qed simp

lemma mmap2_length [simp]: "length (mmap2 f A B) = min (length A) (length B)"
  by (simp add: mmap2_def)

lemma mmap2_append:
  "length A = length B \<Longrightarrow> mmap2 f (A @ A') (B @ B') = mmap2 f A B @ mmap2 f A' B'"
  by (simp add: mmap2_def)

lemma msum_append [simp]: "msum (A @ B) = msum A + msum B"
  by (simp add: msum_def)

lemma msum_Nil [simp]: "msum [] = 0" by (simp add: msum_def)

lemma row_sums_append [simp]: "row_sums (A @ B) = row_sums A @ row_sums B"
  by (simp add: row_sums_def)

lemma row_sums_length [simp]: "length (row_sums A) = length A"
  by (simp add: row_sums_def)

lemma sum_row_sums: "sum_list (row_sums A) = msum A"
  by (simp add: row_sums_def msum_def)

lemma masked_sum_append:
  "length A = length M \<Longrightarrow> masked_sum (A @ A') (M @ M') = masked_sum A M + masked_sum A' M'"
  by (simp add: masked_sum_def mmap2_append)

lemma masked_sum_vec_append:
  "length a = length m \<Longrightarrow> masked_sum_vec (a @ a') (m @ m') = masked_sum_vec a m + masked_sum_vec a' m'"
  by (simp add: masked_sum_vec_def)

lemma last_n_length [simp]: "0 < n \<Longrightarrow> length (last_n n xs) = min n (length xs)"
  by (auto simp: last_n_def)

lemma cumsum_nth: "i < length xs \<Longrightarrow> cumsum xs ! i = sum_list (take (Suc i) xs)"
  by (simp add: cumsum_def)

lemma length_cumsum [simp]: "length (cumsum xs) = length xs"
  by (simp add: cumsum_def)

lemma eos_prefix_count:
  "sum_list (take i (map (\<lambda>t. if t \<in> E then 1 else 0 :: int) row)) = 0 \<longleftrightarrow> (\<forall>t \<in> set (take i row). t \<notin> E)"
proof -
  have "0 \<le> sum_list (map (\<lambda>t. if t \<in> E then 1 else 0 :: int) xs)
      \<and> (sum_list (map (\<lambda>t. if t \<in> E then 1 else 0 :: int) xs) = 0 \<longleftrightarrow> (\<forall>t \<in> set xs. t \<notin> E))" for xs
    by (induction xs) auto
  from this [of "take i row"] show ?thesis by (simp add: take_map)
qed

text \<open>The mask is 1 exactly at the positions before which no EOS token stands.\<close>

lemma response_mask_row_nth:
  assumes "i < length row"
  shows "response_mask_row eos row ! i = (if \<forall>t \<in> set (take i row). t \<notin> set eos then 1 else 0)"
proof -
  let ?e = "map (\<lambda>t. if t \<in> set eos then 1 else 0 :: int) row"
  have "cumsum ?e ! i = sum_list (take i ?e) + ?e ! i"
    using assms by (simp add: cumsum_nth take_Suc_conv_app_nth)
  then have "response_mask_row eos row ! i = (if sum_list (take i ?e) = 0 then 1 else 0)"
    using assms by (simp add: response_mask_row_def Let_def)
  then show ?thesis by (simp only: eos_prefix_count)
qed

lemma length_response_mask_row [simp]: "length (response_mask_row eos row) = length row"
  by (simp add: response_mask_row_def Let_def)

lemma response_mask_row_shape:
  assumes "\<forall>t \<in> set pre. t \<notin> set eos" "e \<in> set eos"
  shows "response_mask_row eos (pre @ e # post) = replicate (Suc (length pre)) 1 @ replicate (length post) 0"
proof (rule nth_equalityI)
  fix i assume "i < length (response_mask_row eos (pre @ e # post))"
  then have i: "i < length (pre @ e # post)" by simp
  show "response_mask_row eos (pre @ e # post) ! i
      = (replicate (Suc (length pre)) 1 @ replicate (length post) 0) ! i"
  proof (cases "i \<le> length pre")
    case True
    then have "set (take i (pre @ e # post)) \<subseteq> set pre" by (simp add: set_take_subset)
    then show ?thesis
      using True i assms(1) unfolding response_mask_row_nth [OF i]
      by (auto simp: nth_append nth_Cons' nth_replicate simp del: replicate.simps)
  next
    case False
    then have "e \<in> set (take i (pre @ e # post))" by (cases "i - length pre") auto
    then show ?thesis
      using False i assms(2) unfolding response_mask_row_nth [OF i]
      by (auto simp: nth_append nth_replicate simp del: replicate.simps)
  qed
qed simp

subsection \<open>Properties\<close>

text \<open>The response mask keeps the tokens up to and including the first EOS token and drops
  everything after it; without an EOS token it keeps all.\<close>

theorem response_mask_first_eos:
  assumes "\<forall>t \<in> set pre. t \<notin> set eos" and "e \<in> set eos"
  shows "get_response_mask [pre @ e # post, pre] eos
    = [replicate (Suc (length pre)) 1 @ replicate (length post) 0, replicate (length pre) 1]"
proof -
  have "response_mask_row eos pre = replicate (length pre) 1"
    by (rule nth_equalityI) (use assms(1) in \<open>auto simp: response_mask_row_nth dest: in_set_takeD\<close>)
  then show ?thesis
    using response_mask_row_shape [OF assms, of post] by (simp add: get_response_mask_def)
qed

theorem response_mask_first_eos_witness:
  "get_response_mask [[78, 0, 76] @ 2 # [1, 0, 0], [78, 0, 76]] [1, 2]
     = [replicate (Suc (length [78, 0, 76 :: int])) 1 @ replicate (length [1, 0, 0 :: int]) 0,
        replicate (length [78, 0, 76 :: int]) 1]"
  by (rule response_mask_first_eos) simp_all

text \<open>For a rectangular batch and a positive target, padding or truncating always ends at the
  target length, whichever side or truncation is chosen; only \<open>truncation="error"\<close> on a longer
  batch raises.\<close>

theorem postprocess_data_length:
  assumes "0 < max_length" and "\<forall>r \<in> set ids. length r = mwidth ids"
    and "\<forall>r \<in> set msk. length r = mwidth ids" and "msk \<noteq> []"
    and "truncation \<in> {''left'', ''right'', ''middle'', ''error''}"
  shows "if mwidth ids > max_length \<and> truncation = ''error''
    then postprocess_data ids msk max_length pad left_pad truncation = Inl NotImplementedError
    else \<exists>ids' msk'. postprocess_data ids msk max_length pad left_pad truncation = Inr (ids', msk')
      \<and> length ids' = length ids \<and> length msk' = length msk
      \<and> (\<forall>r \<in> set ids' \<union> set msk'. length r = max_length)"
proof -
  have w: "mwidth msk = mwidth ids"
    using assms(3,4) by (cases msk) (auto simp: mwidth_def)
  have row: "length (truncate_row truncation max_length r) = max_length"
    if "max_length < length r" for r :: "int list"
    using that assms(1) by (auto simp: truncate_row_def Let_def min_def)
  consider "mwidth ids < max_length" | "mwidth ids = max_length" | "max_length < mwidth ids" by linarith
  then show ?thesis
  proof cases
    case 1
    then show ?thesis using assms w
      by (auto simp: postprocess_data_def pad_sequence_to_length_def Let_def)
  next
    case 2
    then show ?thesis using assms w by (auto simp: postprocess_data_def Let_def)
  next
    case 3
    then show ?thesis using assms row
      by (auto simp: postprocess_data_def Let_def)
  qed
qed

theorem postprocess_data_length_witness:
  "postprocess_data [[1, 2, 3, 4, 5]] [[1, 1, 1, 1, 1]] 4 0 True ''middle''
     = Inr ([[1, 2, 4, 5]], [[1, 1, 1, 1]])
   \<and> (\<exists>ids' msk'. postprocess_data [[1, 2, 3, 4, 5]] [[1, 1, 1, 1, 1]] 4 0 True ''middle''
        = Inr (ids', msk') \<and> (\<forall>r \<in> set ids' \<union> set msk'. length r = 4))"
proof
  show "postprocess_data [[1, 2, 3, 4, 5]] [[1, 1, 1, 1, 1]] 4 0 True ''middle''
     = Inr ([[1, 2, 4, 5]], [[1, 1, 1, 1]])" by code_simp
  show "\<exists>ids' msk'. postprocess_data [[1, 2, 3, 4, 5]] [[1, 1, 1, 1, 1]] 4 0 True ''middle''
        = Inr (ids', msk') \<and> (\<forall>r \<in> set ids' \<union> set msk'. length r = 4)"
    using postprocess_data_length [of 4 "[[1, 2, 3, 4, 5]]" "[[1, 1, 1, 1, 1]]" "''middle''" 0 True]
    by (auto simp: mwidth_def)
qed

end
