(* ===== verification/PolicyLoss.thy ===== *)
theory PolicyLoss
  imports Tensor
begin

section \<open>Loss aggregation and policy losses (\<open>verl/trainer/ppo/core_algos.py\<close>)\<close>

text \<open>
  The aggregation of a token-level loss matrix into a scalar, and the policy losses of the
  registry. Gradients are outside the model, so \<open>detach\<close> is the identity; what is modelled is the
  value of each loss and of its metrics. \<open>config.get(key, default)\<close> is an option with the code's
  default. \<open>torch.randperm\<close> and \<open>torch.topk\<close> are parameters.
\<close>

definition get_or :: "'a \<Rightarrow> 'a option \<Rightarrow> 'a" where
  "get_or d x = (case x of None \<Rightarrow> d | Some v \<Rightarrow> v)"

lemma get_or_simps [simp]: "get_or d None = d" "get_or d (Some v) = v"
  by (simp_all add: get_or_def)

record batch_info =
  dp_size :: nat
  batch_num_tokens :: "real option"
  global_batch_size :: "real option"
  loss_scale_factor :: "real option"

text \<open>The rollout-correction section of the configuration. A threshold is given as a number or as a
  string.\<close>

datatype threshold_spec = SpecNum real | SpecStr string

record rollout_corr_cfg =
  rc_rollout_is :: "string option"
  rc_rollout_is_threshold :: "real option"
  rc_batch_normalize :: bool
  rc_rollout_rs :: "string option"
  rc_rollout_rs_threshold :: "threshold_spec option"
  rc_bypass_mode :: bool
  rc_loss_type :: string

record policy_loss_cfg =
  pl_beta :: "real option"
  pl_alpha :: "real option"
  pl_kl_mode :: "string option"
  pl_beta_warmup_steps :: "int option"
  pl_beta_decay_steps :: "int option"
  pl_positive_only :: "bool option"
  pl_rlsd_lambda :: "real option"
  pl_rlsd_lambda_decay_steps :: "int option"
  pl_rlsd_epsilon_w :: "real option"
  pl_clip_cov_ratio :: "real option"
  pl_clip_cov_lb :: "real option"
  pl_clip_cov_ub :: "real option"
  pl_kl_cov_ratio :: "real option"
  pl_ppo_kl_coef :: "real option"
  pl_rollout_correction :: "rollout_corr_cfg option"

record actor_cfg =
  clip_ratio :: real
  clip_ratio_low :: "real option"
  clip_ratio_high :: "real option"
  clip_ratio_c :: "real option"
  tau_pos :: real
  tau_neg :: real
  policy_loss :: policy_loss_cfg
  global_batch_info :: batch_info

type_synonym metrics = "(string, real) dict"

definition need_config :: "'c option \<Rightarrow> 'c result" where
  "need_config config = (case config of None \<Rightarrow> Inl AssertionError | Some c \<Rightarrow> Inr c)"

definition clip_low :: "actor_cfg \<Rightarrow> real" where
  "clip_low c = get_or (clip_ratio c) (clip_ratio_low c)"

definition clip_high :: "actor_cfg \<Rightarrow> real" where
  "clip_high c = get_or (clip_ratio c) (clip_ratio_high c)"

subsection \<open>Aggregation\<close>

definition seq_mask_of :: "mat \<Rightarrow> vec" where
  "seq_mask_of loss_mask = map (\<lambda>s. indicator01 (s > 0)) (row_sums loss_mask)"

definition token_sums :: "mat \<Rightarrow> mat \<Rightarrow> vec" where
  "token_sums loss_mat loss_mask = row_sums (mmap2 (*) loss_mat loss_mask)"

definition global_or :: "batch_info \<Rightarrow> real option \<Rightarrow> real \<Rightarrow> real result" where
  "global_or info given local =
     (case given of None \<Rightarrow> (if dp_size info > 1 then Inl ValueError else Inr local) | Some n \<Rightarrow> Inr n)"

definition agg_loss :: "mat \<Rightarrow> mat \<Rightarrow> string \<Rightarrow> batch_info \<Rightarrow> real result" where
  "agg_loss loss_mat loss_mask loss_agg_mode info =
    (if loss_agg_mode = ''token-mean'' then
       rbind (global_or info (batch_num_tokens info) (msum loss_mask)) (\<lambda>n.
       rbind (tdiv (masked_sum loss_mat loss_mask) n) (\<lambda>q. Inr (q * real (dp_size info))))
     else if loss_agg_mode = ''seq-mean-token-sum'' then
       rbind (global_or info (global_batch_size info) (sum_list (seq_mask_of loss_mask))) (\<lambda>n.
       rbind (tdiv (masked_sum_vec (token_sums loss_mat loss_mask) (seq_mask_of loss_mask)) n)
         (\<lambda>q. Inr (q * real (dp_size info))))
     else if loss_agg_mode = ''seq-mean-token-mean'' then
       rbind (global_or info (global_batch_size info) (sum_list (seq_mask_of loss_mask))) (\<lambda>n.
       rbind (tdiv (masked_sum_vec
               (map2 (\<lambda>s c. s / (c + 1 / 10 ^ 8)) (token_sums loss_mat loss_mask) (row_sums loss_mask))
               (seq_mask_of loss_mask)) n)
         (\<lambda>q. Inr (q * real (dp_size info))))
     else if loss_agg_mode = ''seq-mean-token-sum-norm'' then
       (case loss_scale_factor info of
          None \<Rightarrow> Inl ValueError
        | Some f \<Rightarrow> rbind (tdiv (sum_list (token_sums loss_mat loss_mask)) f)
                     (\<lambda>q. Inr (q * real (dp_size info))))
     else Inl ValueError)"

definition compute_rewards :: "mat \<Rightarrow> mat \<Rightarrow> mat \<Rightarrow> real \<Rightarrow> mat" where
  "compute_rewards token_level_scores old_log_prob ref_log_prob kl_ratio =
     (let kl = mmap2 (-) old_log_prob ref_log_prob
      in mmap2 (\<lambda>s k. s - k * kl_ratio) token_level_scores kl)"

subsection \<open>The clipped objective of one token\<close>

definition approx_kl :: "mat \<Rightarrow> mat \<Rightarrow> mat" where
  "approx_kl log_prob old_log_prob = mmap2 (\<lambda>l old. clamp (- 20) 20 (l - old)) log_prob old_log_prob"

definition pg_loss1 :: "real \<Rightarrow> real \<Rightarrow> real" where
  "pg_loss1 adv ratio = - adv * ratio"

definition pg_loss2 :: "real \<Rightarrow> real \<Rightarrow> real \<Rightarrow> real \<Rightarrow> real" where
  "pg_loss2 low high adv ratio = - adv * clamp (1 - low) (1 + high) ratio"

definition clip_loss1 :: "real \<Rightarrow> real \<Rightarrow> real \<Rightarrow> real \<Rightarrow> real" where
  "clip_loss1 low high adv ratio = max (pg_loss1 adv ratio) (pg_loss2 low high adv ratio)"

definition pg_loss3 :: "real \<Rightarrow> real \<Rightarrow> real" where
  "pg_loss3 c adv = - adv * c"

definition dual_clip :: "real \<Rightarrow> real \<Rightarrow> real \<Rightarrow> real \<Rightarrow> real \<Rightarrow> real" where
  "dual_clip low high c adv ratio =
     (if adv < 0 then min (pg_loss3 c adv) (clip_loss1 low high adv ratio)
      else clip_loss1 low high adv ratio)"

definition clip_fraction :: "real \<Rightarrow> real \<Rightarrow> mat \<Rightarrow> mat \<Rightarrow> mat \<Rightarrow> real" where
  "clip_fraction low high adv ratio msk =
     masked_mean (mmap2 (\<lambda>a r. indicator01 (pg_loss2 low high a r > pg_loss1 a r)) adv ratio) msk"

definition clip_fraction_lower :: "real \<Rightarrow> real \<Rightarrow> real \<Rightarrow> mat \<Rightarrow> mat \<Rightarrow> mat \<Rightarrow> real" where
  "clip_fraction_lower low high c adv ratio msk =
     masked_mean (mmap2 (\<lambda>a r. indicator01 (clip_loss1 low high a r > pg_loss3 c a) * indicator01 (a < 0))
       adv ratio) msk"

definition apply_is_weights :: "mat option \<Rightarrow> mat \<Rightarrow> mat" where
  "apply_is_weights weights losses = (case weights of None \<Rightarrow> losses | Some w \<Rightarrow> mmap2 (*) losses w)"

subsection \<open>The registered losses\<close>

definition default_info :: batch_info where
  "default_info = \<lparr>dp_size = 1, batch_num_tokens = None, global_batch_size = None, loss_scale_factor = None\<rparr>"

definition compute_policy_loss ::
  "mat \<Rightarrow> mat \<Rightarrow> mat \<Rightarrow> mat \<Rightarrow> real option \<Rightarrow> real option \<Rightarrow> real option \<Rightarrow> real \<Rightarrow> string
     \<Rightarrow> (real \<times> real \<times> real \<times> real) result" where
  "compute_policy_loss old_log_prob log_prob advantages response_mask cliprange cliprange_low
     cliprange_high c loss_agg_mode =
     rbind (py_assert (c > 1)) (\<lambda>_.
     let negative_approx_kl = approx_kl log_prob old_log_prob;
         ratio = mmap exp negative_approx_kl;
         ppo_kl = masked_mean (mmap uminus negative_approx_kl) response_mask
     in case (case cliprange_low of None \<Rightarrow> cliprange | Some x \<Rightarrow> Some x,
              case cliprange_high of None \<Rightarrow> cliprange | Some x \<Rightarrow> Some x) of
        (Some low, Some high) \<Rightarrow>
          let pg_losses = mmap2 (dual_clip low high c) advantages ratio
          in rbind (agg_loss pg_losses response_mask loss_agg_mode default_info) (\<lambda>pg_loss.
             Inr (pg_loss, clip_fraction low high advantages ratio response_mask, ppo_kl,
                  clip_fraction_lower low high c advantages ratio response_mask))
      | _ \<Rightarrow> Inl TypeError)"

definition compute_policy_loss_vanilla ::
  "mat \<Rightarrow> mat \<Rightarrow> mat \<Rightarrow> mat \<Rightarrow> string \<Rightarrow> actor_cfg option \<Rightarrow> mat option \<Rightarrow> (real \<times> metrics) result" where
  "compute_policy_loss_vanilla old_log_prob log_prob advantages response_mask loss_agg_mode config
     rollout_is_weights =
     rbind (need_config config) (\<lambda>cfg.
     let low = clip_low cfg; high = clip_high cfg; c = get_or 3 (clip_ratio_c cfg)
     in rbind (py_assert (c > 1)) (\<lambda>_.
     let negative_approx_kl = approx_kl log_prob old_log_prob;
         ratio = mmap exp negative_approx_kl;
         ppo_kl = masked_mean (mmap uminus negative_approx_kl) response_mask;
         pg_losses = apply_is_weights rollout_is_weights (mmap2 (dual_clip low high c) advantages ratio)
     in rbind (agg_loss pg_losses response_mask loss_agg_mode (global_batch_info cfg)) (\<lambda>pg_loss.
     Inr (pg_loss,
       [(''actor/pg_clipfrac'', clip_fraction low high advantages ratio response_mask),
        (''actor/ppo_kl'', ppo_kl),
        (''actor/pg_clipfrac_lower'', clip_fraction_lower low high c advantages ratio response_mask)]))))"

definition seq_approx_kl :: "mat \<Rightarrow> mat \<Rightarrow> vec" where
  "seq_approx_kl negative_approx_kl response_mask =
     map2 (\<lambda>s n. s / max n 1) (row_sums (mmap2 (*) negative_approx_kl response_mask)) (row_sums response_mask)"

definition compute_policy_loss_gspo ::
  "mat \<Rightarrow> mat \<Rightarrow> mat \<Rightarrow> mat \<Rightarrow> string \<Rightarrow> actor_cfg option \<Rightarrow> mat option \<Rightarrow> (real \<times> metrics) result" where
  "compute_policy_loss_gspo old_log_prob log_prob advantages response_mask loss_agg_mode config
     rollout_is_weights =
     rbind (need_config config) (\<lambda>cfg.
     let low = clip_low cfg; high = clip_high cfg;
         negative_approx_kl = mmap2 (-) log_prob old_log_prob;
         kl_seq = seq_approx_kl negative_approx_kl response_mask;
         log_ratio = mmap (\<lambda>x. min x 10)
           (mmap2 (+) (mmap2 (-) log_prob log_prob) (bcast kl_seq log_prob));
         ratio = mmap exp log_ratio;
         pg_losses = apply_is_weights rollout_is_weights (mmap2 (clip_loss1 low high) advantages ratio)
     in rbind (agg_loss pg_losses response_mask ''seq-mean-token-mean'' (global_batch_info cfg)) (\<lambda>pg_loss.
     Inr (pg_loss,
       [(''actor/pg_clipfrac'', clip_fraction low high advantages ratio response_mask),
        (''actor/ppo_kl'', masked_mean (mmap uminus negative_approx_kl) response_mask),
        (''actor/pg_clipfrac_lower'', 0)])))"

definition sigmoid :: "real \<Rightarrow> real" where
  "sigmoid x = 1 / (1 + exp (- x))"

definition gate_function :: "real \<Rightarrow> real \<Rightarrow> real" where
  "gate_function x tau = sigmoid (tau * (x - 1)) * (4 / tau)"

definition compute_policy_loss_sapo ::
  "mat \<Rightarrow> mat \<Rightarrow> mat \<Rightarrow> mat \<Rightarrow> string \<Rightarrow> actor_cfg option \<Rightarrow> mat option \<Rightarrow> (real \<times> metrics) result" where
  "compute_policy_loss_sapo old_log_prob log_prob advantages response_mask loss_agg_mode config
     rollout_is_weights =
     rbind (need_config config) (\<lambda>cfg.
     let negative_approx_kl = approx_kl log_prob old_log_prob;
         ratio = mmap exp negative_approx_kl;
         taus = mmap (\<lambda>a. if a > 0 then tau_pos cfg else tau_neg cfg) advantages
     in if \<exists>row \<in> set taus. 0 \<in> set row then Inl NonFinite
     else let gates = mmap2 gate_function ratio taus;
         pg_losses = apply_is_weights rollout_is_weights (mmap2 (\<lambda>g a. - g * a) gates advantages)
     in rbind (agg_loss pg_losses response_mask ''seq-mean-token-mean'' (global_batch_info cfg)) (\<lambda>pg_loss.
     Inr (pg_loss,
       [(''actor/pg_clipfrac'', 0),
        (''actor/ppo_kl'', masked_mean (mmap uminus negative_approx_kl) response_mask),
        (''actor/pg_clipfrac_lower'', 0)])))"

definition compute_policy_loss_gpg ::
  "mat \<Rightarrow> mat \<Rightarrow> mat \<Rightarrow> mat \<Rightarrow> string \<Rightarrow> actor_cfg option \<Rightarrow> mat option \<Rightarrow> (real \<times> metrics) result" where
  "compute_policy_loss_gpg old_log_prob log_prob advantages response_mask loss_agg_mode config
     rollout_is_weights =
     rbind (need_config config) (\<lambda>cfg.
     let pg_losses = apply_is_weights rollout_is_weights (mmap2 (\<lambda>l a. - l * a) log_prob advantages)
     in rbind (agg_loss pg_losses response_mask loss_agg_mode (global_batch_info cfg)) (\<lambda>pg_loss.
     Inr (pg_loss, [])))"

definition compute_policy_loss_cispo ::
  "mat \<Rightarrow> mat \<Rightarrow> mat \<Rightarrow> mat \<Rightarrow> string \<Rightarrow> actor_cfg option \<Rightarrow> mat option \<Rightarrow> (real \<times> metrics) result" where
  "compute_policy_loss_cispo old_log_prob log_prob advantages response_mask loss_agg_mode config
     rollout_is_weights =
     rbind (need_config config) (\<lambda>cfg.
     let negative_approx_kl = approx_kl log_prob old_log_prob;
         ratio = mmap exp negative_approx_kl;
         clipped_ratio = mmap (clamp (1 - clip_low cfg) (1 + clip_high cfg)) ratio;
         pg_losses = apply_is_weights rollout_is_weights
           (mmap3 (\<lambda>r a l. - r * a * l) clipped_ratio advantages log_prob)
     in rbind (agg_loss pg_losses response_mask loss_agg_mode (global_batch_info cfg)) (\<lambda>pg_loss.
     Inr (pg_loss,
       [(''actor/pg_clipfrac'',
           masked_mean (mmap2 (\<lambda>r cr. indicator01 (r \<noteq> cr)) ratio clipped_ratio) response_mask),
        (''actor/ppo_kl'', masked_mean (mmap uminus negative_approx_kl) response_mask),
        (''actor/pg_clipfrac_lower'', 0)])))"

subsection \<open>Aggregation is a quotient of a sum over rows\<close>

definition row_num :: "string \<Rightarrow> vec \<Rightarrow> vec \<Rightarrow> real" where
  "row_num mode a m =
     (let total = sum_list (map2 (*) a m); n = sum_list m; s = indicator01 (n > 0)
      in if mode = ''token-mean'' then sum_list (map2 (\<lambda>v m. (if m \<noteq> 0 then v else 0) * m) a m)
         else if mode = ''seq-mean-token-sum'' then (if s \<noteq> 0 then total else 0) * s
         else if mode = ''seq-mean-token-mean'' then (if s \<noteq> 0 then total / (n + 1 / 10 ^ 8) else 0) * s
         else total)"

definition agg_num :: "string \<Rightarrow> mat \<Rightarrow> mat \<Rightarrow> real" where
  "agg_num mode A M = sum_list (map2 (row_num mode) A M)"

definition agg_den :: "string \<Rightarrow> mat \<Rightarrow> batch_info \<Rightarrow> real result" where
  "agg_den mode M info =
     (if mode = ''token-mean'' then global_or info (batch_num_tokens info) (msum M)
      else if mode = ''seq-mean-token-sum'' \<or> mode = ''seq-mean-token-mean''
        then global_or info (global_batch_size info) (sum_list (seq_mask_of M))
      else if mode = ''seq-mean-token-sum-norm'' then
        (case loss_scale_factor info of None \<Rightarrow> Inl ValueError | Some f \<Rightarrow> Inr f)
      else Inl ValueError)"

lemma num_token_mean: "masked_sum A M = agg_num ''token-mean'' A M"
  by (induction A M rule: list_induct2')
     (auto simp: masked_sum_def agg_num_def row_num_def mmap2_def msum_def Let_def)

lemma num_seq_sum:
  "masked_sum_vec (token_sums A M) (seq_mask_of M) = agg_num ''seq-mean-token-sum'' A M"
  by (induction A M rule: list_induct2')
     (auto simp: masked_sum_vec_def agg_num_def row_num_def token_sums_def seq_mask_of_def mmap2_def
        row_sums_def Let_def)

lemma num_seq_mean:
  "masked_sum_vec (map2 (\<lambda>s c. s / (c + 1 / 10 ^ 8)) (token_sums A M) (row_sums M)) (seq_mask_of M)
     = agg_num ''seq-mean-token-mean'' A M"
  by (induction A M rule: list_induct2')
     (auto simp: masked_sum_vec_def agg_num_def row_num_def token_sums_def seq_mask_of_def mmap2_def
        row_sums_def Let_def)

lemma num_sum_norm: "sum_list (token_sums A M) = agg_num ''seq-mean-token-sum-norm'' A M"
  by (induction A M rule: list_induct2')
     (auto simp: agg_num_def row_num_def token_sums_def mmap2_def row_sums_def Let_def)

lemmas agg_nums = num_token_mean num_seq_sum num_seq_mean num_sum_norm

lemma agg_loss_alt:
  "agg_loss A M mode info = rbind (agg_den mode M info) (\<lambda>n.
     rbind (tdiv (agg_num mode A M) n) (\<lambda>q. Inr (q * real (dp_size info))))"
  unfolding agg_loss_def agg_nums agg_den_def by (auto split: option.splits)

lemma agg_loss_Inr:
  "agg_loss A M mode info = Inr L \<longleftrightarrow>
     (\<exists>n. agg_den mode M info = Inr n \<and> n \<noteq> 0 \<and> L = agg_num mode A M / n * real (dp_size info))"
  by (auto simp: agg_loss_alt res_simps)

lemma agg_num_append:
  "length A = length M \<Longrightarrow> agg_num mode (A @ A') (M @ M') = agg_num mode A M + agg_num mode A' M'"
  by (simp add: agg_num_def)

lemma agg_num_concat:
  "\<forall>(A, M) \<in> set ranks. length A = length M \<Longrightarrow>
   agg_num mode (concat (map fst ranks)) (concat (map snd ranks))
     = sum_list (map (\<lambda>(A, M). agg_num mode A M) ranks)"
proof (induction ranks)
  case (Cons r ranks)
  then show ?case by (cases r) (simp add: agg_num_append)
qed (simp add: agg_num_def)

lemma map2_plus_sum:
  fixes a b m :: vec
  assumes "length a = length b" "length b = length m"
  shows "sum_list (map2 (*) (map2 (+) a b) m) = sum_list (map2 (*) a m) + sum_list (map2 (*) b m)"
    and "sum_list (map2 (\<lambda>v m. (if m \<noteq> 0 then v else 0) * m) (map2 (+) a b) m)
      = sum_list (map2 (\<lambda>v m. (if m \<noteq> 0 then v else 0) * m) a m)
        + sum_list (map2 (\<lambda>v m. (if m \<noteq> 0 then v else 0) * m) b m)"
  using assms by (induction a b m rule: list_induct3) (simp_all add: distrib_right)

lemma row_num_plus:
  "length a = length b \<Longrightarrow> length b = length m \<Longrightarrow>
   row_num mode (map2 (+) a b) m = row_num mode a m + row_num mode b m"
  by (simp add: row_num_def Let_def map2_plus_sum add_divide_distrib distrib_right)

lemma map2_scale_sum:
  fixes a m :: vec
  shows "sum_list (map2 (*) (map ((*) c) a) m) = c * sum_list (map2 (*) a m)"
    and "sum_list (map2 (\<lambda>v m. (if m \<noteq> 0 then v else 0) * m) (map ((*) c) a) m)
      = c * sum_list (map2 (\<lambda>v m. (if m \<noteq> 0 then v else 0) * m) a m)"
  by (induction a m rule: list_induct2') (simp_all add: distrib_left)

lemma row_num_scale: "row_num mode (map ((*) c) a) m = c * row_num mode a m"
  by (simp add: row_num_def Let_def map2_scale_sum)

lemma same_shape_Cons [simp]:
  "same_shape (a # A) (b # B) \<longleftrightarrow> length a = length b \<and> same_shape A B"
  "same_shape [] B \<longleftrightarrow> B = []" "same_shape A [] \<longleftrightarrow> A = []"
  by (auto simp: same_shape_def)

lemma same_shape_length: "same_shape A B \<Longrightarrow> length A = length B"
  unfolding same_shape_def by (metis length_map)

lemma same_shape_trans: "same_shape A B \<Longrightarrow> same_shape B C \<Longrightarrow> same_shape A C"
  by (simp add: same_shape_def)

lemma same_shape_sym: "same_shape A B \<Longrightarrow> same_shape B A"
  by (simp add: same_shape_def)

lemma same_shape_mmap [simp]: "same_shape (mmap f A) B = same_shape A B"
  by (simp add: same_shape_def mmap_def comp_def)

lemma same_shape_mmap2: "same_shape A B \<Longrightarrow> same_shape (mmap2 f A B) A"
proof -
  assume s: "same_shape A B"
  from same_shape_length [OF this] s show ?thesis
    by (induction A B rule: list_induct2) (simp_all add: mmap2_def)
qed

lemma mmap2_shape [intro]:
  assumes "same_shape A M" "same_shape B M"
  shows "same_shape (mmap2 f A B) M"
  using assms same_shape_mmap2 [of A B f] by (metis same_shape_sym same_shape_trans)

lemma map2_left: "length a = length b \<Longrightarrow> (\<And>x y. f x y = x) \<Longrightarrow> map2 f a b = a"
  by (induction a b rule: list_induct2) simp_all

lemma mmap2_left:
  assumes "same_shape A B" "\<And>x y. f x y = x"
  shows "mmap2 f A B = A"
  using same_shape_length [OF assms(1)] assms
  by (induction A B rule: list_induct2) (simp_all add: mmap2_def map2_left)

lemma agg_num_plus:
  assumes "same_shape A B" "same_shape B M"
  shows "agg_num mode (mmap2 (+) A B) M = agg_num mode A M + agg_num mode B M"
proof -
  have "length A = length B" "length B = length M" using assms by (auto dest: same_shape_length)
  then show ?thesis using assms
    by (induction A B M rule: list_induct3) (simp_all add: agg_num_def mmap2_def row_num_plus)
qed

lemma agg_num_scale: "agg_num mode (mmap ((*) c) A) M = c * agg_num mode A M"
  by (induction A M rule: list_induct2') (simp_all add: agg_num_def mmap_def row_num_scale distrib_left)

lemma seq_mask_of_concat: "seq_mask_of (concat Ms) = concat (map seq_mask_of Ms)"
  by (induction Ms) (simp_all add: seq_mask_of_def row_sums_def)

subsection \<open>Elementwise facts about the clipped objective\<close>

lemma clip_loss1_pessimistic:
  "pg_loss1 adv ratio \<le> clip_loss1 low high adv ratio"
  "pg_loss2 low high adv ratio \<le> clip_loss1 low high adv ratio"
  by (simp_all add: clip_loss1_def)

lemma dual_clip_in_range:
  assumes "1 - low \<le> ratio" "ratio \<le> 1 + high" "ratio \<le> c"
  shows "dual_clip low high c adv ratio = - adv * ratio"
proof -
  have "clip_loss1 low high adv ratio = - adv * ratio"
    using assms by (simp add: clip_loss1_def pg_loss1_def pg_loss2_def clamp_id)
  moreover have "adv < 0 \<Longrightarrow> - adv * ratio \<le> - adv * c"
    using assms(3) by (intro mult_left_mono) auto
  ultimately show ?thesis by (auto simp: dual_clip_def pg_loss3_def min_def)
qed

lemma clip_loss1_pos:
  assumes "0 \<le> adv" "0 \<le> low" "0 \<le> high"
  shows "clip_loss1 low high adv ratio = - adv * min ratio (1 + high)"
proof -
  consider "ratio < 1 - low" | "1 - low \<le> ratio" "ratio \<le> 1 + high" | "1 + high < ratio" by linarith
  then show ?thesis
  proof cases
    case 1
    then have "adv * ratio \<le> adv * (1 - low)" using assms by (intro mult_left_mono) auto
    then show ?thesis
      using 1 assms by (simp add: clip_loss1_def pg_loss1_def pg_loss2_def clamp_def)
  next
    case 2
    then show ?thesis by (simp add: clip_loss1_def pg_loss1_def pg_loss2_def clamp_def)
  next
    case 3
    then have "adv * (1 + high) \<le> adv * ratio" using assms by (intro mult_left_mono) auto
    then show ?thesis
      using 3 assms by (simp add: clip_loss1_def pg_loss1_def pg_loss2_def clamp_def)
  qed
qed

lemma clip_loss1_neg:
  assumes "adv < 0" "0 \<le> low" "0 \<le> high"
  shows "clip_loss1 low high adv ratio = - adv * max ratio (1 - low)"
proof -
  consider "ratio < 1 - low" | "1 - low \<le> ratio" "ratio \<le> 1 + high" | "1 + high < ratio" by linarith
  then show ?thesis
  proof cases
    case 1
    then have "- adv * ratio \<le> - adv * (1 - low)" using assms by (intro mult_left_mono) auto
    then show ?thesis
      using 1 assms by (simp add: clip_loss1_def pg_loss1_def pg_loss2_def clamp_def)
  next
    case 2
    then show ?thesis by (simp add: clip_loss1_def pg_loss1_def pg_loss2_def clamp_def)
  next
    case 3
    then have "- adv * (1 + high) \<le> - adv * ratio" using assms by (intro mult_left_mono) auto
    then show ?thesis
      using 3 assms by (simp add: clip_loss1_def pg_loss1_def pg_loss2_def clamp_def)
  qed
qed

lemma dual_clip_closed_form:
  assumes "0 \<le> low" "0 \<le> high"
  shows "dual_clip low high c adv ratio =
    (if adv < 0 then - adv * min c (max ratio (1 - low)) else - adv * min ratio (1 + high))"
proof (cases "adv < 0")
  case True
  then show ?thesis
    using assms by (simp add: dual_clip_def clip_loss1_neg pg_loss3_def min_mult_distrib_left min_def
        mult_le_cancel_left_neg)
next
  case False
  then show ?thesis using assms by (simp add: dual_clip_def clip_loss1_pos)
qed

subsection \<open>Properties\<close>

definition rank_info :: "(mat \<times> mat) list \<Rightarrow> real option \<Rightarrow> batch_info" where
  "rank_info ranks f = (let M = concat (map snd ranks) in
     \<lparr>dp_size = length ranks, batch_num_tokens = Some (msum M),
      global_batch_size = Some (sum_list (seq_mask_of M)), loss_scale_factor = f\<rparr>)"

lemma agg_den_rank_info:
  assumes "agg_den mode (concat (map snd ranks)) (default_info\<lparr>loss_scale_factor := f\<rparr>) = Inr n"
  shows "agg_den mode M (rank_info ranks f) = Inr n"
  using assms
  by (auto simp: agg_den_def rank_info_def default_info_def global_or_def Let_def split: if_splits)

text \<open>C15: the aggregated loss does not depend on how the batch is spread over data-parallel ranks.
  If a single process computes \<open>L\<close> on the whole batch, then each rank, given the global token and
  sequence counts and the number of ranks, computes a loss, and the average over the ranks (what
  data-parallel gradient averaging takes) is \<open>L\<close>, in every aggregation mode.\<close>

theorem agg_loss_dp_invariant:
  assumes "\<forall>(A, M) \<in> set ranks. length A = length M" and "ranks \<noteq> []"
    and single: "agg_loss (concat (map fst ranks)) (concat (map snd ranks)) mode
      (default_info\<lparr>loss_scale_factor := f\<rparr>) = Inr L"
  shows "\<exists>ls. rmap (\<lambda>(A, M). agg_loss A M mode (rank_info ranks f)) ranks = Inr ls
    \<and> sum_list ls / real (length ranks) = L"
proof -
  obtain n where den: "agg_den mode (concat (map snd ranks)) (default_info\<lparr>loss_scale_factor := f\<rparr>) = Inr n"
    and n: "n \<noteq> 0" and L: "L = agg_num mode (concat (map fst ranks)) (concat (map snd ranks)) / n"
    using single by (auto simp: agg_loss_Inr default_info_def)
  let ?loss = "\<lambda>r. (case r of (A, M) \<Rightarrow> agg_num mode A M) / n * real (length ranks)"
  have "(case r of (A, M) \<Rightarrow> agg_loss A M mode (rank_info ranks f)) = Inr (?loss r)" for r
    using n by (cases r) (simp add: agg_loss_Inr agg_den_rank_info [OF den], simp add: rank_info_def Let_def)
  then have "rmap (\<lambda>(A, M). agg_loss A M mode (rank_info ranks f)) ranks = Inr (map ?loss ranks)"
    by (intro rmap_total) auto
  moreover have "sum_list (map ?loss ranks) / real (length ranks) = L"
    using assms(2) unfolding L agg_num_concat [OF assms(1)]
    by (simp add: sum_list_divide sum_list_mult_const split_def)
  ultimately show ?thesis by blast
qed

definition demo_ranks :: "(mat \<times> mat) list" where
  "demo_ranks = [([[2, 4]], [[1, 0]]), ([[6, 8]], [[1, 1]])]"

theorem agg_loss_dp_invariant_witness:
  "\<exists>ls. rmap (\<lambda>(A, M). agg_loss A M ''token-mean'' (rank_info demo_ranks None)) demo_ranks = Inr ls
     \<and> sum_list ls / real (length demo_ranks) = 16 / 3"
proof (rule agg_loss_dp_invariant)
  show "agg_loss (concat (map fst demo_ranks)) (concat (map snd demo_ranks)) ''token-mean''
      (default_info\<lparr>loss_scale_factor := None\<rparr>) = Inr (16 / 3)"
    by (simp add: demo_ranks_def agg_loss_def default_info_def global_or_def masked_sum_def msum_def
        mmap2_def tdiv_def)
qed (simp_all add: demo_ranks_def)

text \<open>The mode \<open>seq-mean-token-sum-norm\<close> raises when no scale factor is configured; the
  documentation of \<open>agg_loss\<close> and of \<open>ActorConfig.loss_scale_factor\<close> promises a fallback to the
  response length.\<close>

theorem sum_norm_requires_scale_factor:
  "agg_loss A M ''seq-mean-token-sum-norm''
     \<lparr>dp_size = n, batch_num_tokens = t, global_batch_size = g, loss_scale_factor = None\<rparr>
   = Inl ValueError"
  by (simp add: agg_loss_def)

text \<open>What dual clipping does to one token. For a non-negative advantage the ratio is capped at
  \<open>1 + high\<close>; for a negative one it is raised to \<open>1 - low\<close> and capped at \<open>c\<close>, so the loss of a bad
  token never exceeds \<open>c\<close> times the advantage's size; inside the trust region the loss is the plain
  policy-gradient one.\<close>

theorem dual_clip_caps_the_ratio:
  assumes "0 \<le> low" "0 \<le> high" "1 \<le> c"
  shows "dual_clip low high c adv ratio =
      (if adv < 0 then - adv * min c (max ratio (1 - low)) else - adv * min ratio (1 + high))
    \<and> (1 - low \<le> ratio \<and> ratio \<le> min c (1 + high) \<longrightarrow> dual_clip low high c adv ratio = - adv * ratio)"
proof (intro conjI)
  show closed: "dual_clip low high c adv ratio =
      (if adv < 0 then - adv * min c (max ratio (1 - low)) else - adv * min ratio (1 + high))"
    using dual_clip_closed_form assms by simp
  show "1 - low \<le> ratio \<and> ratio \<le> min c (1 + high) \<longrightarrow> dual_clip low high c adv ratio = - adv * ratio"
    using dual_clip_in_range by auto
qed

theorem dual_clip_caps_the_ratio_witness:
  "dual_clip (2 / 10) (2 / 10) 3 (- 2) 50 = 6 \<and> dual_clip (2 / 10) (2 / 10) 3 2 50 = - 24 / 10"
  using dual_clip_caps_the_ratio [of "2 / 10" "2 / 10" 3 "- 2" 50]
    dual_clip_caps_the_ratio [of "2 / 10" "2 / 10" 3 2 50] by simp

end
