(* ===== verification/CovLoss.thy ===== *)
theory CovLoss
  imports PolicyLoss
begin

section \<open>Covariance-based and geometric-mean losses (\<open>verl/trainer/ppo/core_algos.py\<close>)\<close>

text \<open>
  The losses that single out tokens by the covariance of advantage and log-probability, and the
  sequence-level geometric mean. Minus infinity in \<open>cov_all\<close> is None. \<open>randperm n\<close> is the
  permutation torch draws and \<open>topk xs k\<close> the indices of the \<open>k\<close> largest elements; both are
  parameters. Index tensors are lists of (row, column) pairs in row-major order, as
  \<open>torch.nonzero\<close> lists them.
\<close>

definition positions :: "(nat \<Rightarrow> nat \<Rightarrow> bool) \<Rightarrow> mat \<Rightarrow> (nat \<times> nat) list" where
  "positions P M = concat (map (\<lambda>i. map (Pair i) (filter (P i) [0..<length (M ! i)])) [0..<length M])"

definition zero_at :: "(nat \<times> nat) list \<Rightarrow> mat \<Rightarrow> mat" where
  "zero_at idx M = map (\<lambda>i. map (\<lambda>j. if (i, j) \<in> set idx then 0 else 1) [0..<length (M ! i)]) [0..<length M]"

definition overwrite_at :: "(nat \<times> nat) list \<Rightarrow> mat \<Rightarrow> mat \<Rightarrow> mat" where
  "overwrite_at idx new old =
     map (\<lambda>i. map (\<lambda>j. if (i, j) \<in> set idx then new ! i ! j else old ! i ! j) [0..<length (old ! i)])
       [0..<length old]"

definition cov_all :: "real \<Rightarrow> real \<Rightarrow> mat \<Rightarrow> mat \<Rightarrow> mat \<Rightarrow> mat \<Rightarrow> nat \<Rightarrow> nat \<Rightarrow> real option" where
  "cov_all low high advantages log_prob ratio response_mask i j =
     (let a = advantages ! i ! j; l = log_prob ! i ! j; r = ratio ! i ! j; m = response_mask ! i ! j;
          clip_by_origin = (pg_loss2 low high a r > pg_loss1 a r \<and> m > 0)
      in if m = 0 \<or> clip_by_origin then None
         else Some ((a - masked_mean advantages response_mask) * (l - masked_mean log_prob response_mask)))"

definition clip_cov_candidates ::
  "real \<Rightarrow> real \<Rightarrow> real \<Rightarrow> real \<Rightarrow> mat \<Rightarrow> mat \<Rightarrow> mat \<Rightarrow> mat \<Rightarrow> (nat \<times> nat) list" where
  "clip_cov_candidates lb ub low high advantages log_prob ratio response_mask =
     positions (\<lambda>i j. (case cov_all low high advantages log_prob ratio response_mask i j of
         None \<Rightarrow> False | Some v \<Rightarrow> v < ub \<and> v > lb) \<and> response_mask ! i ! j > 0) advantages"

definition clip_cov_chosen :: "(nat \<Rightarrow> nat list) \<Rightarrow> nat \<Rightarrow> (nat \<times> nat) list \<Rightarrow> (nat \<times> nat) list" where
  "clip_cov_chosen randperm clip_num cands =
     (if length cands > 0
      then picks cands (take (min clip_num (length cands)) (randperm (length cands)))
      else [])"

definition compute_policy_loss_clip_cov ::
  "(nat \<Rightarrow> nat list) \<Rightarrow> mat \<Rightarrow> mat \<Rightarrow> mat \<Rightarrow> mat \<Rightarrow> string \<Rightarrow> actor_cfg option \<Rightarrow> mat option
     \<Rightarrow> (real \<times> metrics) result" where
  "compute_policy_loss_clip_cov randperm old_log_prob log_prob advantages response_mask loss_agg_mode
     config rollout_is_weights =
     rbind (need_config config) (\<lambda>cfg.
     let pl = policy_loss cfg;
         clip_cov_ratio = get_or (2 / 10 ^ 4) (pl_clip_cov_ratio pl);
         low = clip_low cfg; high = clip_high cfg;
         ub = get_or 5 (pl_clip_cov_ub pl); lb = get_or 1 (pl_clip_cov_lb pl)
     in rbind (py_assert (clip_cov_ratio > 0)) (\<lambda>_.
     let negative_approx_kl = mmap2 (-) log_prob old_log_prob;
         ratio = mmap exp negative_approx_kl;
         ppo_kl = masked_mean (mmap uminus negative_approx_kl) response_mask;
         clip_num = max (nat \<lfloor>clip_cov_ratio * msum response_mask\<rfloor>) 1;
         top_k_idx = clip_cov_chosen randperm clip_num
           (clip_cov_candidates lb ub low high advantages log_prob ratio response_mask);
         corr = zero_at top_k_idx advantages;
         pg_losses = apply_is_weights rollout_is_weights
           (mmap2 (*) (mmap2 (clip_loss1 low high) advantages ratio) corr)
     in rbind (agg_loss pg_losses response_mask loss_agg_mode (global_batch_info cfg)) (\<lambda>pg_loss.
     Inr (pg_loss,
       [(''actor/pg_clipfrac'', masked_mean (mmap (\<lambda>x. indicator01 (x = 0)) corr) response_mask),
        (''actor/ppo_kl'', ppo_kl)]))))"

definition kl_cov_indices ::
  "(real list \<Rightarrow> nat \<Rightarrow> nat list) \<Rightarrow> real \<Rightarrow> mat \<Rightarrow> mat \<Rightarrow> mat \<Rightarrow> (nat \<times> nat) list result" where
  "kl_cov_indices topk kl_cov_ratio advantages log_prob response_mask =
     (let all_valid_idx = positions (\<lambda>i j. response_mask ! i ! j > 0) response_mask;
          n = length all_valid_idx;
          advs = map (\<lambda>(i, j). advantages ! i ! j) all_valid_idx;
          logps = map (\<lambda>(i, j). log_prob ! i ! j) all_valid_idx;
          k = min kl_cov_ratio (real n)
      in if k \<noteq> 0 then
           let adv_mean = sum_list advs / real n; logp_mean = sum_list logps / real n;
               cov_lst_all = map2 (\<lambda>a l. (a - adv_mean) * (l - logp_mean)) advs logps;
               k_percent_nums = max 1 (nat \<lfloor>real n * kl_cov_ratio\<rfloor>)
           in if k_percent_nums > n then Inl RuntimeError
              else Inr (picks all_valid_idx (topk cov_lst_all k_percent_nums))
         else Inr [])"

definition compute_policy_loss_kl_cov ::
  "(real list \<Rightarrow> nat \<Rightarrow> nat list) \<Rightarrow> mat \<Rightarrow> mat \<Rightarrow> mat \<Rightarrow> mat \<Rightarrow> string \<Rightarrow> actor_cfg option \<Rightarrow> mat option
     \<Rightarrow> (real \<times> metrics) result" where
  "compute_policy_loss_kl_cov topk old_log_prob log_prob advantages response_mask loss_agg_mode
     config rollout_is_weights =
     rbind (need_config config) (\<lambda>cfg.
     let pl = policy_loss cfg;
         kl_cov_ratio = get_or (2 / 10 ^ 4) (pl_kl_cov_ratio pl);
         ppo_kl_coef = get_or 1 (pl_ppo_kl_coef pl)
     in rbind (py_assert (kl_cov_ratio > 0)) (\<lambda>_.
     let negative_approx_kl = mmap2 (-) log_prob old_log_prob;
         abs_kl = mmap abs negative_approx_kl;
         ratio = mmap exp negative_approx_kl;
         ppo_kl_abs = masked_mean abs_kl response_mask;
         pg_losses1 = mmap2 pg_loss1 advantages ratio;
         pg_losses_kl = mmap2 (\<lambda>l k. l + ppo_kl_coef * k) pg_losses1 abs_kl
     in rbind (kl_cov_indices topk kl_cov_ratio advantages log_prob response_mask) (\<lambda>large_cov_idxs.
     let pg_losses = apply_is_weights rollout_is_weights (overwrite_at large_cov_idxs pg_losses_kl pg_losses1)
     in rbind (agg_loss pg_losses response_mask loss_agg_mode (global_batch_info cfg)) (\<lambda>pg_loss.
     Inr (pg_loss, [(''actor/ppo_kl'', ppo_kl_abs)])))))"

definition geo_mean_kl_token :: "real \<Rightarrow> real \<Rightarrow> real \<Rightarrow> real \<Rightarrow> real" where
  "geo_mean_kl_token low high adv kl =
     (let s = sgn adv; kl_clamp = clamp (- low) high kl in s * min (s * kl) (s * kl_clamp))"

definition masked_row_mean :: "mat \<Rightarrow> mat \<Rightarrow> vec" where
  "masked_row_mean M msk = map2 (\<lambda>s n. s / (n + 1 / 10 ^ 8)) (row_sums (mmap2 (*) M msk)) (row_sums msk)"

definition compute_policy_loss_geo_mean ::
  "mat \<Rightarrow> mat \<Rightarrow> mat \<Rightarrow> mat \<Rightarrow> string \<Rightarrow> actor_cfg option \<Rightarrow> mat option \<Rightarrow> (real \<times> metrics) result" where
  "compute_policy_loss_geo_mean old_log_prob log_prob advantages response_mask loss_agg_mode config
     rollout_is_weights =
     rbind (need_config config) (\<lambda>cfg.
     let low = clip_low cfg; high = clip_high cfg;
         negative_approx_kl = mmap2 (-) log_prob old_log_prob;
         ppo_kl = masked_mean (mmap uminus negative_approx_kl) response_mask;
         kl_clamp = mmap (clamp (- low) high) negative_approx_kl;
         kl_min = mmap2 (geo_mean_kl_token low high) advantages negative_approx_kl;
         ratio = map exp (masked_row_mean kl_min response_mask);
         advantage = masked_row_mean advantages response_mask;
         pg_losses = map2 (\<lambda>a r. - a * r) advantage ratio
     in rbind (case rollout_is_weights of
          None \<Rightarrow> Inr pg_losses
        | Some w \<Rightarrow>
            if \<exists>row \<in> set w. \<exists>x \<in> set row. x + 1 / 10 ^ 10 \<le> 0 then Inl NonFinite
            else Inr (map2 (*) pg_losses
              (map exp (masked_row_mean (mmap (\<lambda>x. ln (x + 1 / 10 ^ 10)) w) response_mask)))) (\<lambda>losses.
     rbind (tdiv (sum_list losses) (real (length losses))) (\<lambda>pg_loss.
     let clipped = mmap2 (\<lambda>k kc. indicator01 (k \<noteq> kc)) negative_approx_kl kl_clamp
     in Inr (pg_loss,
       [(''actor/pg_clipfrac'',
           masked_mean (mmap2 (\<lambda>c a. c * indicator01 (a > 0)) clipped advantages) response_mask),
        (''actor/ppo_kl'', ppo_kl),
        (''actor/pg_clipfrac_lower'',
           masked_mean (mmap2 (\<lambda>c a. c * indicator01 (a < 0)) clipped advantages) response_mask)]))))"

subsection \<open>How many tokens are singled out\<close>

lemma positions_mem: "(i, j) \<in> set (positions P M) \<longleftrightarrow> i < length M \<and> j < length (M ! i) \<and> P i j"
  by (auto simp: positions_def)

lemma clip_cov_chosen_subset:
  assumes "\<forall>n. set (randperm n) = {0..<n}"
  shows "set (clip_cov_chosen randperm k cands) \<subseteq> set cands
    \<and> length (clip_cov_chosen randperm k cands) \<le> k"
proof -
  have "\<forall>x \<in> set (take m (randperm (length cands))). x < length cands" for m
    using assms by (auto dest: in_set_takeD)
  then show ?thesis
    by (auto simp: clip_cov_chosen_def picks_def)
qed

lemma geo_mean_kl_token_bound:
  "0 \<le> low \<Longrightarrow> 0 \<le> high \<Longrightarrow> adv * geo_mean_kl_token low high adv kl \<le> adv * kl"
  by (cases "0 < adv"; cases "adv = 0")
     (auto simp: geo_mean_kl_token_def Let_def mult_left_mono mult_le_cancel_left sgn_if min_def)

subsection \<open>Properties\<close>

text \<open>Clip-Cov drops at most \<open>max 1 (int(clip_cov_ratio * tokens))\<close> tokens, each of them valid,
  not already clipped by PPO and with a covariance strictly between the two bounds, whatever
  permutation torch draws.\<close>

theorem clip_cov_drops_few_valid_tokens:
  assumes perm: "\<forall>n. set (randperm n) = {0..<n}"
    and chosen: "chosen = clip_cov_chosen randperm (max (nat \<lfloor>cr * msum msk\<rfloor>) 1)
      (clip_cov_candidates lb ub low high advs lp ratio msk)"
    and ij: "i < length advs" "j < length (advs ! i)"
  shows "length chosen \<le> max 1 (nat \<lfloor>cr * msum msk\<rfloor>)
    \<and> (zero_at chosen advs ! i ! j = 0 \<longrightarrow>
        msk ! i ! j > 0 \<and> pg_loss2 low high (advs ! i ! j) (ratio ! i ! j) \<le> pg_loss1 (advs ! i ! j) (ratio ! i ! j)
        \<and> lb < (advs ! i ! j - masked_mean advs msk) * (lp ! i ! j - masked_mean lp msk)
        \<and> (advs ! i ! j - masked_mean advs msk) * (lp ! i ! j - masked_mean lp msk) < ub)"
proof -
  let ?cands = "clip_cov_candidates lb ub low high advs lp ratio msk"
  have sub: "set chosen \<subseteq> set ?cands" and len: "length chosen \<le> max (nat \<lfloor>cr * msum msk\<rfloor>) 1"
    using clip_cov_chosen_subset [OF perm] unfolding chosen by blast+
  have "(i, j) \<in> set ?cands" if "zero_at chosen advs ! i ! j = 0"
    using that ij sub by (auto simp: zero_at_def split: if_splits)
  then show ?thesis
    using len by (auto simp: clip_cov_candidates_def positions_mem cov_all_def Let_def
        split: option.splits if_splits)
qed

theorem clip_cov_drops_few_valid_tokens_witness:
  "length (clip_cov_chosen (\<lambda>n. [0..<n]) (max (nat \<lfloor>1 * msum [[1 :: real, 1]]\<rfloor>) 1)
     (clip_cov_candidates (- 1) 5 1 1 [[2, 0]] [[1, 0]] [[1, 1]] [[1, 1]]))
   \<le> max 1 (nat \<lfloor>1 * msum [[1 :: real, 1]]\<rfloor>)"
  using clip_cov_drops_few_valid_tokens [of "\<lambda>n. [0..<n]" _ 1 "[[1, 1]]" "- 1" 5 1 1 "[[2, 0]]" "[[1, 0]]" "[[1, 1]]" 0 0, OF _ refl]
  by simp

end
