(* ===== verification/Sdpg.thy ===== *)
theory Sdpg
  imports PolicyLoss
begin

section \<open>Self-distilled policy gradient losses (\<open>verl/trainer/ppo/core_algos.py\<close>)\<close>

text \<open>
  The three privileged-context losses of the repository: SDPG (clipped objective, full-vocabulary
  distillation with a scheduled coefficient, and the anchor to the reference policy), OPSD and
  RLSD. The per-token KL of SDPG and the teacher log-probabilities are inputs, as in the code.
  Log-probabilities are finite reals, so \<open>nan_to_num\<close> is the identity.
\<close>

subsection \<open>The schedule of the distillation coefficient\<close>

definition compute_effective_beta :: "real \<Rightarrow> int \<Rightarrow> int \<Rightarrow> int \<Rightarrow> int \<Rightarrow> real" where
  "compute_effective_beta beta current_step total_steps warmup_steps decay_steps =
     (let effective = (if warmup_steps > 0 \<and> current_step < warmup_steps
            then beta * (of_int current_step / of_int warmup_steps) else beta)
      in if decay_steps > 0 \<and> total_steps > 0 then
           (let decay_start = total_steps - decay_steps
            in if current_step \<ge> decay_start then
                 (let remaining = max (total_steps - current_step) 0
                  in effective * (of_int remaining / of_int decay_steps))
               else effective)
         else effective)"

subsection \<open>SDPG\<close>

definition sdpg_regularizer :: "string \<Rightarrow> real \<Rightarrow> real \<Rightarrow> real result" where
  "sdpg_regularizer kl_mode alpha logw =
     (if kl_mode = ''fkl'' then Inr (alpha * exp (- logw))
      else if kl_mode = ''rkl'' then Inr ((alpha / 2) * (logw + 1)\<^sup>2)
      else if kl_mode = ''ufkl'' then Inr (alpha * (exp (- logw) + logw))
      else if kl_mode = ''urkl'' then Inr ((alpha / 2) * logw\<^sup>2)
      else Inl ValueError)"

definition sdpg_reg_mat :: "string \<Rightarrow> real \<Rightarrow> mat \<Rightarrow> mat result" where
  "sdpg_reg_mat kl_mode alpha logw =
     (if kl_mode \<in> {''fkl'', ''rkl'', ''ufkl'', ''urkl''}
      then rmap (rmap (sdpg_regularizer kl_mode alpha)) logw else Inl ValueError)"

definition sdpg_beta :: "policy_loss_cfg \<Rightarrow> int \<Rightarrow> int \<Rightarrow> real" where
  "sdpg_beta pl current_step total_steps =
     compute_effective_beta (get_or (1 / 10 ^ 4) (pl_beta pl)) current_step total_steps
       (get_or 0 (pl_beta_warmup_steps pl)) (get_or 0 (pl_beta_decay_steps pl))"

definition sdpg_beta_term :: "policy_loss_cfg \<Rightarrow> real \<Rightarrow> mat \<Rightarrow> mat \<Rightarrow> mat" where
  "sdpg_beta_term pl beta kl_distill_per_token advantages =
     (let beta_term = mmap ((*) beta) kl_distill_per_token
      in if get_or False (pl_positive_only pl)
         then mmap2 (\<lambda>b a. b * indicator01 (a > 0)) beta_term advantages else beta_term)"

definition compute_sdpg_loss ::
  "mat \<Rightarrow> mat \<Rightarrow> mat \<Rightarrow> mat \<Rightarrow> mat \<Rightarrow> string \<Rightarrow> actor_cfg option \<Rightarrow> mat option \<Rightarrow> mat option \<Rightarrow> int \<Rightarrow> int
     \<Rightarrow> (real \<times> metrics) result" where
  "compute_sdpg_loss old_log_prob log_prob kl_distill_per_token advantages response_mask loss_agg_mode
     config rollout_is_weights rollout_log_prob current_step total_steps =
     rbind (need_config config) (\<lambda>cfg.
     let clip_base = get_or old_log_prob rollout_log_prob;
         negative_approx_kl = approx_kl log_prob clip_base;
         ratio = mmap exp negative_approx_kl;
         ppo_kl = masked_mean (mmap uminus negative_approx_kl) response_mask;
         low = clip_low cfg; high = clip_high cfg; c = get_or 10 (clip_ratio_c cfg);
         clip_losses = mmap2 (dual_clip low high c) advantages ratio;
         logw = mmap2 (-) log_prob old_log_prob;
         pl = policy_loss cfg;
         alpha = get_or (1 / 10 ^ 4) (pl_alpha pl);
         kl_mode = get_or ''urkl'' (pl_kl_mode pl);
         beta = sdpg_beta pl current_step total_steps;
         beta_term = sdpg_beta_term pl beta kl_distill_per_token advantages
     in rbind (sdpg_reg_mat kl_mode alpha logw) (\<lambda>alpha_term.
     let pg_losses = apply_is_weights rollout_is_weights
           (mmap2 (+) (mmap2 (+) clip_losses beta_term) alpha_term)
     in rbind (agg_loss pg_losses response_mask loss_agg_mode (global_batch_info cfg)) (\<lambda>pg_loss.
     Inr (pg_loss,
       [(''actor/pg_clipfrac'', clip_fraction low high advantages ratio response_mask),
        (''actor/ppo_kl'', ppo_kl),
        (''actor/pg_clipfrac_lower'', clip_fraction_lower low high c advantages ratio response_mask),
        (''actor/beta_effective'', beta),
        (''actor/kl_distill'', masked_mean kl_distill_per_token response_mask)]))))"

subsection \<open>OPSD\<close>

definition opsd_ratio :: "mat \<Rightarrow> mat \<Rightarrow> mat" where
  "opsd_ratio log_prob old_log_prob = mmap exp (approx_kl log_prob old_log_prob)"

definition opsd_weight :: "mat \<Rightarrow> mat \<Rightarrow> mat" where
  "opsd_weight teacher_log_prob old_log_prob =
     mmap2 (\<lambda>t old. clamp 0 20 (t - old)) teacher_log_prob old_log_prob"

definition opsd_losses :: "real \<Rightarrow> real \<Rightarrow> mat \<Rightarrow> mat \<Rightarrow> mat" where
  "opsd_losses low high per_token_adv ratio =
     mmap2 (\<lambda>w r. - w * min r (clamp (1 - low) (1 + high) r)) per_token_adv ratio"

definition compute_opsd_loss ::
  "mat \<Rightarrow> mat \<Rightarrow> mat \<Rightarrow> mat \<Rightarrow> mat \<Rightarrow> string \<Rightarrow> actor_cfg option \<Rightarrow> (real \<times> metrics) result" where
  "compute_opsd_loss log_prob teacher_log_prob old_log_prob response_mask advantages loss_agg_mode config =
     rbind (need_config config) (\<lambda>cfg.
     rbind (rmap (\<lambda>row. py_nth row 0) advantages) (\<lambda>seq_adv.
     let reward_gate = map (\<lambda>a. indicator01 (a > 0)) seq_adv;
         per_token_adv = opsd_weight teacher_log_prob old_log_prob;
         seq_len = map (\<lambda>s. max s 1) (row_sums response_mask);
         A_n = map2 (/) (row_sums (mmap2 (*) per_token_adv response_mask)) seq_len;
         effective_mask = scale_rows reward_gate response_mask;
         ratio = opsd_ratio log_prob old_log_prob
     in case (clip_ratio_low cfg, clip_ratio_high cfg) of
          (Some low, Some high) \<Rightarrow>
            rbind (agg_loss (opsd_losses low high per_token_adv ratio) effective_mask loss_agg_mode
              (global_batch_info cfg)) (\<lambda>pg_loss.
            rbind (tdiv (sum_list reward_gate) (real (length reward_gate))) (\<lambda>reward_gate_ratio.
            Inr (pg_loss,
              [(''actor/opsd_advantage'', masked_mean (bcast A_n response_mask) effective_mask),
               (''actor/opsd_reward_gate_ratio'', reward_gate_ratio),
               (''actor/opsd_ratio'', masked_mean ratio effective_mask)])))
        | _ \<Rightarrow> Inl TypeError))"

subsection \<open>RLSD\<close>

definition rlsd_delta :: "real \<Rightarrow> real \<Rightarrow> real" where
  "rlsd_delta teacher_log_prob old_log_prob = clamp (- 20) 20 (teacher_log_prob - old_log_prob)"

definition evidence_weight :: "real \<Rightarrow> real \<Rightarrow> real" where
  "evidence_weight adv delta = exp (clamp (- 20) 20 (sgn adv * delta))"

definition rlsd_lambda_effective :: "policy_loss_cfg \<Rightarrow> int \<Rightarrow> real" where
  "rlsd_lambda_effective pl current_step =
     (let lambda_base = get_or (1 / 2) (pl_rlsd_lambda pl);
          lambda_decay_steps = get_or 50 (pl_rlsd_lambda_decay_steps pl);
          lambda_scale = (if lambda_decay_steps > 0
            then max 0 (1 - of_int current_step / of_int lambda_decay_steps) else 1)
      in lambda_base * lambda_scale)"

definition mixed_advantage :: "real \<Rightarrow> real \<Rightarrow> real \<Rightarrow> real \<Rightarrow> real" where
  "mixed_advantage lambda_effective eps_w adv delta =
     (let clipped_weight = clamp (1 - eps_w) (1 + eps_w) (evidence_weight adv delta);
          rlsd_advantage = adv * clipped_weight
      in (1 - lambda_effective) * adv + lambda_effective * rlsd_advantage)"

definition compute_rlsd_loss ::
  "mat \<Rightarrow> mat \<Rightarrow> mat \<Rightarrow> mat \<Rightarrow> mat \<Rightarrow> string \<Rightarrow> actor_cfg option \<Rightarrow> mat option \<Rightarrow> int
     \<Rightarrow> (real \<times> metrics) result" where
  "compute_rlsd_loss old_log_prob log_prob teacher_log_prob advantages response_mask loss_agg_mode
     config rollout_is_weights current_step =
     rbind (need_config config) (\<lambda>cfg.
     let low = clip_low cfg; high = clip_high cfg; c = get_or 3 (clip_ratio_c cfg);
         delta = mmap2 rlsd_delta teacher_log_prob old_log_prob;
         weight = mmap2 evidence_weight advantages delta;
         pl = policy_loss cfg;
         eps_w = get_or (2 / 10) (pl_rlsd_epsilon_w pl);
         clipped_weight = mmap (clamp (1 - eps_w) (1 + eps_w)) weight;
         lambda_effective = rlsd_lambda_effective pl current_step;
         mixed_advantages = mmap2 (mixed_advantage lambda_effective eps_w) advantages delta;
         negative_approx_kl = approx_kl log_prob old_log_prob;
         ratio = mmap exp negative_approx_kl;
         ppo_kl = masked_mean (mmap uminus negative_approx_kl) response_mask;
         pg_losses = apply_is_weights rollout_is_weights
           (mmap2 (dual_clip low high c) mixed_advantages ratio)
     in rbind (agg_loss pg_losses response_mask loss_agg_mode (global_batch_info cfg)) (\<lambda>pg_loss.
     Inr (pg_loss,
       [(''actor/pg_clipfrac'', clip_fraction low high mixed_advantages ratio response_mask),
        (''actor/ppo_kl'', ppo_kl),
        (''actor/pg_clipfrac_lower'', clip_fraction_lower low high c mixed_advantages ratio response_mask),
        (''actor/rlsd_delta'', masked_mean delta response_mask),
        (''actor/rlsd_weight'', masked_mean weight response_mask),
        (''actor/rlsd_weight_clipped'', masked_mean clipped_weight response_mask),
        (''actor/rlsd_weight_clipfrac'',
           masked_mean (mmap (\<lambda>w. indicator01 (w < 1 - eps_w \<or> w > 1 + eps_w)) weight) response_mask),
        (''actor/rlsd_lambda'', lambda_effective)])))"

subsection \<open>The schedule\<close>

lemma scaled_bounds:
  fixes beta x :: real
  assumes "0 \<le> beta" "0 \<le> x" "x \<le> 1"
  shows "0 \<le> beta * x" "beta * x \<le> beta"
  using assms by (simp_all add: mult_left_le)

text \<open>For a non-negative coefficient and step, the scheduled distillation coefficient stays
  between 0 and the configured value, is exactly that value once the warmup is over and the decay
  has not begun, and is 0 from the last training step on when a decay is configured.\<close>

theorem effective_beta_schedule:
  assumes "0 \<le> beta" "0 \<le> step"
  shows "0 \<le> compute_effective_beta beta step total_steps warmup decay
    \<and> compute_effective_beta beta step total_steps warmup decay \<le> beta
    \<and> (warmup \<le> step \<and> (decay \<le> 0 \<or> total_steps \<le> 0 \<or> step < total_steps - decay)
         \<longrightarrow> compute_effective_beta beta step total_steps warmup decay = beta)
    \<and> (0 < decay \<and> 0 < total_steps \<and> total_steps \<le> step \<longrightarrow> compute_effective_beta beta step total_steps warmup decay = 0)"
proof -
  let ?e = "if 0 < warmup \<and> step < warmup then beta * (of_int step / of_int warmup) else beta"
  have e: "0 \<le> ?e" "?e \<le> beta"
    using assms scaled_bounds [OF assms(1), of "of_int step / of_int warmup"] by auto
  have d: "0 \<le> ?e * (of_int (max (total_steps - step) 0) / of_int decay)
      \<and> ?e * (of_int (max (total_steps - step) 0) / of_int decay) \<le> ?e"
    if "0 < decay" "total_steps - decay \<le> step"
  proof -
    have "of_int (max (total_steps - step) 0) / of_int decay \<le> (1 :: real)"
      using that by (simp add: divide_le_eq_1)
    then show ?thesis by (intro conjI scaled_bounds e(1)) (use that in simp_all)
  qed
  show ?thesis
    unfolding compute_effective_beta_def Let_def using e d assms by (auto simp: max_def)
qed

theorem effective_beta_schedule_witness:
  "compute_effective_beta 2 3 20 4 5 \<le> 2 \<and> compute_effective_beta 2 10 20 4 5 = 2
    \<and> compute_effective_beta 2 25 20 4 5 = 0"
  using effective_beta_schedule [of 2 3 20 4 5] effective_beta_schedule [of 2 10 20 4 5]
    effective_beta_schedule [of 2 25 20 4 5] by simp

subsection \<open>SDPG extends the clipped objective\<close>

lemma sdpg_reg_mat_total:
  assumes "kl_mode \<in> {''fkl'', ''rkl'', ''ufkl'', ''urkl''}"
  shows "\<exists>f. sdpg_reg_mat kl_mode alpha logw = Inr (mmap f logw)"
proof -
  obtain f where f: "\<And>x. sdpg_regularizer kl_mode alpha x = Inr (f x)"
  proof
    show "sdpg_regularizer kl_mode alpha x = Inr (projr (sdpg_regularizer kl_mode alpha x))" for x
      using assms by (auto simp: sdpg_regularizer_def)
  qed
  have "rmap (sdpg_regularizer kl_mode alpha) row = Inr (map f row)" for row
    by (rule rmap_total) (rule f)
  then have "rmap (rmap (sdpg_regularizer kl_mode alpha)) logw = Inr (map (map f) logw)"
    by (simp add: rmap_total)
  then show ?thesis using assms unfolding sdpg_reg_mat_def mmap_def by (metis (no_types))
qed

lemma agg_loss_other:
  assumes "agg_loss A M mode info = Inr L"
  obtains L' where "agg_loss B M mode info = Inr L'"
  using assms by (auto simp: agg_loss_Inr)

lemma agg_loss_plus:
  assumes "agg_loss A M mode info = Inr a" "agg_loss B M mode info = Inr b"
    and "same_shape A M" "same_shape B M"
  shows "agg_loss (mmap2 (+) A B) M mode info = Inr (a + b)"
proof -
  have "agg_num mode (mmap2 (+) A B) M = agg_num mode A M + agg_num mode B M"
    using assms by (intro agg_num_plus) (auto intro: same_shape_trans same_shape_sym)
  then show ?thesis using assms(1,2) by (auto simp: agg_loss_Inr add_divide_distrib distrib_right)
qed

lemma agg_loss_scale:
  assumes "agg_loss A M mode info = Inr a"
  shows "agg_loss (mmap ((*) c) A) M mode info = Inr (c * a)"
  using assms by (auto simp: agg_loss_Inr agg_num_scale)

text \<open>C16: the SDPG loss is the vanilla clipped loss, plus the scheduled coefficient times the
  aggregated distillation KL, plus the aggregated anchor to the reference policy. The clipping base
  is the rollout log-probability when there is one, and the clip metrics are those of the vanilla
  loss. (Without importance weights and without the restriction to positive advantages.)\<close>

theorem sdpg_loss_decomposition:
  assumes shapes: "same_shape old_lp M" "same_shape lp M" "same_shape kl M" "same_shape adv M"
      "same_shape (get_or old_lp rollout_lp) M"
    and cfg: "clip_ratio_c cfg = Some c" "get_or False (pl_positive_only (policy_loss cfg)) = False"
    and mode: "get_or ''urkl'' (pl_kl_mode (policy_loss cfg)) \<in> {''fkl'', ''rkl'', ''ufkl'', ''urkl''}"
    and vanilla: "compute_policy_loss_vanilla (get_or old_lp rollout_lp) lp adv M agg (Some cfg) None
      = Inr (V, vms)"
  shows "\<exists>K R A ms. agg_loss kl M agg (global_batch_info cfg) = Inr K
    \<and> sdpg_reg_mat (get_or ''urkl'' (pl_kl_mode (policy_loss cfg)))
        (get_or (1 / 10 ^ 4) (pl_alpha (policy_loss cfg))) (mmap2 (-) lp old_lp) = Inr R
    \<and> agg_loss R M agg (global_batch_info cfg) = Inr A
    \<and> compute_sdpg_loss old_lp lp kl adv M agg (Some cfg) None rollout_lp step total_steps
        = Inr (V + sdpg_beta (policy_loss cfg) step total_steps * K + A, ms)
    \<and> take 3 ms = vms"
proof -
  let ?info = "global_batch_info cfg"
  let ?ratio = "mmap exp (approx_kl lp (get_or old_lp rollout_lp))"
  let ?clip = "mmap2 (dual_clip (clip_low cfg) (clip_high cfg) c) adv ?ratio"
  let ?beta = "sdpg_beta (policy_loss cfg) step total_steps"
  have V: "agg_loss ?clip M agg ?info = Inr V"
    and vms: "vms = [(''actor/pg_clipfrac'', clip_fraction (clip_low cfg) (clip_high cfg) adv ?ratio M),
        (''actor/ppo_kl'', masked_mean (mmap uminus (approx_kl lp (get_or old_lp rollout_lp))) M),
        (''actor/pg_clipfrac_lower'', clip_fraction_lower (clip_low cfg) (clip_high cfg) c adv ?ratio M)]"
    using vanilla cfg
    by (auto simp: compute_policy_loss_vanilla_def need_config_def apply_is_weights_def Let_def res_simps)
  obtain f where R: "sdpg_reg_mat (get_or ''urkl'' (pl_kl_mode (policy_loss cfg)))
      (get_or (1 / 10 ^ 4) (pl_alpha (policy_loss cfg))) (mmap2 (-) lp old_lp)
      = Inr (mmap f (mmap2 (-) lp old_lp))" (is "_ = Inr ?R")
    using sdpg_reg_mat_total [OF mode] by blast
  obtain K where K: "agg_loss kl M agg ?info = Inr K" using agg_loss_other [OF V] .
  obtain A where A: "agg_loss ?R M agg ?info = Inr A" using agg_loss_other [OF V] .
  have lpM: "same_shape ?ratio M"
    using shapes unfolding approx_kl_def same_shape_mmap by blast
  have s1: "same_shape ?clip M" using shapes lpM by blast
  have s2: "same_shape (mmap ((*) ?beta) kl) M" using shapes by simp
  have s3: "same_shape ?R M" using shapes unfolding same_shape_mmap by blast
  have "agg_loss (mmap2 (+) (mmap2 (+) ?clip (mmap ((*) ?beta) kl)) ?R) M agg ?info
      = Inr (V + ?beta * K + A)"
    by (rule agg_loss_plus [OF agg_loss_plus [OF V agg_loss_scale [OF K] s1 s2] A mmap2_shape [OF s1 s2] s3])
  then show ?thesis
    using R K A cfg
    by (simp add: compute_sdpg_loss_def need_config_def apply_is_weights_def sdpg_beta_term_def Let_def vms)
qed

definition demo_pl :: policy_loss_cfg where
  "demo_pl = \<lparr>pl_beta = Some (1 / 2), pl_alpha = Some 1, pl_kl_mode = Some ''ufkl'',
     pl_beta_warmup_steps = None, pl_beta_decay_steps = None, pl_positive_only = None,
     pl_rlsd_lambda = None, pl_rlsd_lambda_decay_steps = Some 10, pl_rlsd_epsilon_w = None,
     pl_clip_cov_ratio = None, pl_clip_cov_lb = None, pl_clip_cov_ub = None, pl_kl_cov_ratio = None,
     pl_ppo_kl_coef = None, pl_rollout_correction = None\<rparr>"

definition demo_actor :: actor_cfg where
  "demo_actor = \<lparr>clip_ratio = 2 / 10, clip_ratio_low = Some (2 / 10), clip_ratio_high = Some (2 / 10),
     clip_ratio_c = Some 3, tau_pos = 1, tau_neg = 1, policy_loss = demo_pl,
     global_batch_info = default_info\<rparr>"

lemma demo_simps [simp]:
  "clip_ratio_c demo_actor = Some 3" "pl_positive_only (policy_loss demo_actor) = None"
  "pl_kl_mode (policy_loss demo_actor) = Some ''ufkl''" "global_batch_info demo_actor = default_info"
  "pl_rlsd_lambda_decay_steps (policy_loss demo_actor) = Some 10"
  "sdpg_beta (policy_loss demo_actor) 3 100 = 1 / 2"
  by (simp_all add: sdpg_beta_def demo_actor_def demo_pl_def compute_effective_beta_def)

lemma demo_vanilla:
  obtains vms where "compute_policy_loss_vanilla [[0]] [[0]] [[1]] [[1]] ''token-mean'' (Some demo_actor) None
     = Inr (- 1, vms)"
  by (simp add: Let_def compute_policy_loss_vanilla_def need_config_def demo_actor_def clip_low_def clip_high_def
      approx_kl_def mmap_def mmap2_def clamp_def dual_clip_def clip_loss1_def pg_loss1_def pg_loss2_def
      agg_loss_def default_info_def global_or_def masked_sum_def msum_def tdiv_def apply_is_weights_def)

theorem sdpg_loss_decomposition_witness:
  "\<exists>K A ms. agg_loss [[2]] [[1]] ''token-mean'' default_info = Inr K
    \<and> compute_sdpg_loss [[0]] [[0]] [[2]] [[1]] [[1]] ''token-mean'' (Some demo_actor) None None 3 100
        = Inr (- 1 + 1 / 2 * K + A, ms)"
proof -
  obtain vms where v: "compute_policy_loss_vanilla (get_or [[0]] None) [[0]] [[1]] [[1]] ''token-mean''
      (Some demo_actor) None = Inr (- 1, vms)"
    using demo_vanilla by auto
  show ?thesis
    using sdpg_loss_decomposition [of "[[0]]" "[[1]]" "[[0]]" "[[2]]" "[[1]]" None demo_actor 3
        "''token-mean''" "- 1" _ 3 100, OF _ _ _ _ _ _ _ _ v]
    by (auto simp: same_shape_def)
qed

subsection \<open>RLSD\<close>

lemma mixed_advantage_factor:
  "mixed_advantage lam eps a d = a * (1 + lam * (clamp (1 - eps) (1 + eps) (evidence_weight a d) - 1))"
  by (simp add: mixed_advantage_def Let_def algebra_simps)

lemma evidence_weight_one: "evidence_weight a d \<ge> 1 \<longleftrightarrow> sgn a * d \<ge> 0"
  by (auto simp: evidence_weight_def clamp_def)

text \<open>C40: the evidence reweighting of RLSD is a bounded reallocation of credit. With a mixing weight
  and an epsilon in the unit interval, the advantage of a token moves by at most
  \<open>lambda * eps\<close> times its size, so it keeps its sign; it moves up where the teacher prefers the
  token and down where the teacher disfavours it.\<close>

theorem rlsd_advantage_bounds:
  assumes "0 \<le> lam" "lam \<le> 1" "0 \<le> eps" "eps < 1"
  shows "\<bar>mixed_advantage lam eps a d - a\<bar> \<le> lam * eps * \<bar>a\<bar>
    \<and> sgn (mixed_advantage lam eps a d) = sgn a
    \<and> (0 \<le> d \<longrightarrow> a \<le> mixed_advantage lam eps a d)
    \<and> (d \<le> 0 \<longrightarrow> mixed_advantage lam eps a d \<le> a)"
proof -
  define w where "w = clamp (1 - eps) (1 + eps) (evidence_weight a d) - 1"
  have m: "mixed_advantage lam eps a d = a + a * (lam * w)" "mixed_advantage lam eps a d = a * (1 + lam * w)"
    by (simp_all add: mixed_advantage_factor w_def algebra_simps)
  have w: "\<bar>w\<bar> \<le> eps"
    using clamp_bounds [of "1 - eps" "1 + eps" "evidence_weight a d"] assms by (simp add: w_def abs_le_iff)
  then have lw: "\<bar>lam * w\<bar> \<le> lam * eps" using assms by (simp add: abs_mult mult_left_mono)
  moreover have "lam * eps < 1" using assms mult_le_one [of lam eps] mult_left_le_one_le [of eps lam] by linarith
  ultimately have pos: "0 < 1 + lam * w" by linarith
  have dist: "\<bar>mixed_advantage lam eps a d - a\<bar> \<le> lam * eps * \<bar>a\<bar>"
    using lw unfolding m(1) by (simp add: abs_mult mult.commute mult_left_mono)
  have up: "0 \<le> w" if "0 \<le> sgn a * d"
    using that evidence_weight_one [of a d] assms by (auto simp: w_def clamp_def)
  have down: "w \<le> 0" if "sgn a * d \<le> 0"
  proof -
    have "evidence_weight a d \<le> 1" using that by (simp add: evidence_weight_def clamp_def)
    then show ?thesis using assms by (simp add: w_def clamp_def)
  qed
  have "0 \<le> a * (lam * w)" if "0 \<le> d"
    using that up down assms
    by (cases a "0 :: real" rule: linorder_cases) (auto simp: zero_le_mult_iff mult_le_0_iff)
  moreover have "a * (lam * w) \<le> 0" if "d \<le> 0"
    using that up down assms
    by (cases a "0 :: real" rule: linorder_cases) (auto simp: zero_le_mult_iff mult_le_0_iff)
  ultimately show ?thesis
    using dist pos by (simp add: m(1)) (simp add: m(1) [symmetric] m(2) sgn_mult)
qed

theorem rlsd_advantage_bounds_witness:
  "\<bar>mixed_advantage (1 / 2) (1 / 5) (- 3) 2 - (- 3)\<bar> \<le> 3 / 10 \<and> - 3 \<le> mixed_advantage (1 / 2) (1 / 5) (- 3) 2"
  using rlsd_advantage_bounds [of "1 / 2" "1 / 5" "- 3" 2] by (simp, linarith)

lemma lambda_decayed:
  assumes "0 < get_or 50 (pl_rlsd_lambda_decay_steps pl)" "get_or 50 (pl_rlsd_lambda_decay_steps pl) \<le> step"
  shows "rlsd_lambda_effective pl step = 0"
proof -
  have "1 - of_int step / of_int (get_or 50 (pl_rlsd_lambda_decay_steps pl)) \<le> (0 :: real)"
    using assms by (simp add: le_divide_eq_1)
  then show ?thesis using assms by (simp add: rlsd_lambda_effective_def Let_def max_def)
qed

text \<open>Once the mixing weight has decayed to zero, RLSD is GRPO: the loss is the vanilla clipped loss
  on the environment advantages, with the same importance weights, and it reports the same clip
  metrics.\<close>

theorem rlsd_reduces_to_vanilla:
  assumes "same_shape adv M" "same_shape teacher M" "same_shape old_lp M"
    and "0 < get_or 50 (pl_rlsd_lambda_decay_steps (policy_loss cfg))"
      "get_or 50 (pl_rlsd_lambda_decay_steps (policy_loss cfg)) \<le> step"
    and vanilla: "compute_policy_loss_vanilla old_lp lp adv M agg (Some cfg) weights = Inr (V, vms)"
  shows "\<exists>ms. compute_rlsd_loss old_lp lp teacher adv M agg (Some cfg) weights step = Inr (V, ms)
    \<and> take 3 ms = vms"
proof -
  have "same_shape adv (mmap2 rlsd_delta teacher old_lp)"
    using assms by (metis mmap2_shape same_shape_sym same_shape_trans)
  then have "mmap2 (mixed_advantage (rlsd_lambda_effective (policy_loss cfg) step) e) adv
      (mmap2 rlsd_delta teacher old_lp) = adv" for e
    by (rule mmap2_left) (simp add: lambda_decayed [OF assms(4,5)] mixed_advantage_def)
  then show ?thesis
    using vanilla
    by (auto simp: compute_policy_loss_vanilla_def compute_rlsd_loss_def need_config_def Let_def res_simps)
qed

theorem rlsd_reduces_to_vanilla_witness:
  "\<exists>ms. compute_rlsd_loss [[0]] [[0]] [[5]] [[1]] [[1]] ''token-mean'' (Some demo_actor) None 10
     = Inr (- 1, ms)"
proof -
  obtain vms where v: "compute_policy_loss_vanilla [[0]] [[0]] [[1]] [[1]] ''token-mean''
      (Some demo_actor) None = Inr (- 1, vms)"
    using demo_vanilla by auto
  show ?thesis
    using rlsd_reduces_to_vanilla [of "[[1]]" "[[1]]" "[[5]]" "[[0]]" demo_actor 10, OF _ _ _ _ _ v]
    by (auto simp: same_shape_def)
qed

subsection \<open>OPSD\<close>

text \<open>Two matrices that differ only in rows whose mask is all zero have the same masked statistics.\<close>

definition agree_on :: "bool list \<Rightarrow> 'a list \<Rightarrow> 'a list \<Rightarrow> bool" where
  "agree_on gate A B \<longleftrightarrow> length A = length gate \<and> length B = length gate
     \<and> (\<forall>i < length gate. gate ! i \<longrightarrow> A ! i = B ! i)"

lemma agree_on_Cons:
  "agree_on (g # gs) (a # A) (b # B) \<longleftrightarrow> (g \<longrightarrow> a = b) \<and> agree_on gs A B"
  unfolding agree_on_def by (auto simp: less_Suc_eq_0_disj)

lemma agree_on_intros [intro]:
  "agree_on gate A A"  if "length A = length gate"
  using that by (simp add: agree_on_def)

lemma agree_on_mmap [intro]: "agree_on gate A A' \<Longrightarrow> agree_on gate (mmap f A) (mmap f A')"
  by (simp add: agree_on_def mmap_def)

lemma agree_on_mmap2 [intro]:
  "agree_on gate A A' \<Longrightarrow> agree_on gate B B' \<Longrightarrow> agree_on gate (mmap2 f A B) (mmap2 f A' B')"
  by (simp add: agree_on_def mmap2_def)

lemma agree_on_map2 [intro]:
  "agree_on gate A A' \<Longrightarrow> agree_on gate B B' \<Longrightarrow> agree_on gate (map2 f A B) (map2 f A' B')"
  by (simp add: agree_on_def)

lemma agree_on_map [intro]: "agree_on gate A A' \<Longrightarrow> agree_on gate (map f A) (map f A')"
  by (simp add: agree_on_def)

lemma row_num_zero: "row_num mode a (map ((*) 0) m) = 0"
proof -
  have "sum_list (map2 (*) a (map ((*) 0) m)) = 0" "sum_list (map ((*) (0 :: real)) m) = 0"
    "sum_list (map2 (\<lambda>v m. (if m \<noteq> 0 then v else 0) * m) a (map ((*) 0) m)) = 0"
    by (induction a m rule: list_induct2') (simp_all add: sum_list_const_mult)
  then show ?thesis by (simp add: row_num_def Let_def)
qed

lemma agg_num_gated:
  assumes "agree_on (map (\<lambda>a. 0 < a) s) A B" "length M = length s"
  shows "agg_num mode A (scale_rows (map (\<lambda>a. indicator01 (0 < a)) s) M)
    = agg_num mode B (scale_rows (map (\<lambda>a. indicator01 (0 < a)) s) M)"
proof -
  have "length A = length s" "length B = length s" using assms by (auto simp: agree_on_def)
  with assms show ?thesis
  proof (induction s arbitrary: A B M)
    case (Cons x s)
    then obtain a A' b B' m M' where "A = a # A'" "B = b # B'" "M = m # M'"
      by (auto simp: length_Suc_conv)
    with Cons show ?case
      by (auto simp: agree_on_Cons agg_num_def scale_rows_def row_num_zero indicator01_def)
  qed simp
qed

text \<open>OPSD distils from successful responses only. Its loss and metrics do not depend on the
  log-probabilities of any sequence whose advantage is not positive: changing the student's, the
  teacher's or the old log-probabilities of such sequences leaves the whole result unchanged.\<close>

theorem opsd_ignores_failed_sequences:
  assumes gate: "gate = map (\<lambda>row. 0 < row ! 0) adv" and "length M = length adv"
    and "agree_on gate lp lp'" "agree_on gate teacher teacher'" "agree_on gate old_lp old_lp'"
  shows "compute_opsd_loss lp teacher old_lp M adv agg config
    = compute_opsd_loss lp' teacher' old_lp' M adv agg config"
proof (cases "rmap (\<lambda>row. py_nth row 0) adv")
  case (Inl e)
  then show ?thesis by (cases config) (simp_all add: compute_opsd_loss_def need_config_def)
next
  case (Inr s)
  have s: "length s = length adv" "gate = map (\<lambda>a. 0 < a) s"
    using rmap_length [OF Inr] rmap_nth [OF Inr] by (auto simp: gate intro!: nth_equalityI)
  have M: "agree_on gate M M" using s assms(2) by (intro agree_on_intros) simp
  have w: "agree_on gate (opsd_weight teacher old_lp) (opsd_weight teacher' old_lp')"
    and r: "agree_on gate (opsd_ratio lp old_lp) (opsd_ratio lp' old_lp')"
    using assms by (auto simp: opsd_weight_def opsd_ratio_def approx_kl_def)
  then have l: "agree_on gate (opsd_losses l h (opsd_weight teacher old_lp) (opsd_ratio lp old_lp))
      (opsd_losses l h (opsd_weight teacher' old_lp') (opsd_ratio lp' old_lp'))" for l h
    by (auto simp: opsd_losses_def)
  have b: "agree_on gate
      (bcast (map2 (/) (row_sums (mmap2 (*) (opsd_weight teacher old_lp) M)) v) M)
      (bcast (map2 (/) (row_sums (mmap2 (*) (opsd_weight teacher' old_lp') M)) v) M)"
    if "length v = length gate" for v
    unfolding bcast_def row_sums_def using w M that by (intro agree_on_map2 agree_on_map agree_on_mmap2) auto
  note gated = agg_num_gated [of s, folded s(2), OF _ assms(2) [folded s(1)]]
  have len: "length (map (\<lambda>s. max s 1) (row_sums M)) = length gate"
    using s assms(2) by (simp add: row_sums_def)
  show ?thesis
    by (cases config) (simp_all add: compute_opsd_loss_def need_config_def Inr Let_def agg_loss_alt
      masked_mean_def num_token_mean gated [OF l] gated [OF r] gated [OF b [OF len]] cong: option.case_cong)
qed

theorem opsd_ignores_failed_sequences_witness:
  "compute_opsd_loss [[1], [2]] [[3], [4]] [[5], [6]] [[1], [1]] [[1], [- 1]] ''token-mean'' (Some demo_actor)
    = compute_opsd_loss [[1], [7]] [[3], [8]] [[5], [9]] [[1], [1]] [[1], [- 1]] ''token-mean'' (Some demo_actor)"
  by (rule opsd_ignores_failed_sequences [of "[True, False]"]) (simp_all add: agree_on_def less_Suc_eq)

end
