(* ===== verification/Registry.thy ===== *)
theory Registry
  imports Prelude
begin

section \<open>The registries of losses and advantage estimators (\<open>verl/trainer/ppo/core_algos.py\<close>)\<close>

text \<open>
  The two module-level dictionaries through which the trainer finds a policy loss and an advantage
  estimator by name. A registry is explicit state: the decorators return the updated dictionary. The
  functions registered are a parameter type with equality. The two registries promise the same
  lookup laws, which the locale \<open>registry\<close> states; only the estimator registry is write-once.
\<close>

datatype advantage_estimator =
    GAE | GRPO | REINFORCE_PLUS_PLUS | REINFORCE_PLUS_PLUS_BASELINE | REMAX | RLOO | OPO | GRPO_PASSK
  | GPG | RLOO_VECTORIZED | GRPO_VECTORIZED | OPTIMAL_TOKEN_BASELINE | TIR_OPTIMAL_TOKEN_BASELINE

fun estimator_value :: "advantage_estimator \<Rightarrow> string" where
  "estimator_value GAE = ''gae''"
| "estimator_value GRPO = ''grpo''"
| "estimator_value REINFORCE_PLUS_PLUS = ''reinforce_plus_plus''"
| "estimator_value REINFORCE_PLUS_PLUS_BASELINE = ''reinforce_plus_plus_baseline''"
| "estimator_value REMAX = ''remax''"
| "estimator_value RLOO = ''rloo''"
| "estimator_value OPO = ''opo''"
| "estimator_value GRPO_PASSK = ''grpo_passk''"
| "estimator_value GPG = ''gpg''"
| "estimator_value RLOO_VECTORIZED = ''rloo_vectorized''"
| "estimator_value GRPO_VECTORIZED = ''grpo_vectorized''"
| "estimator_value OPTIMAL_TOKEN_BASELINE = ''optimal_token_baseline''"
| "estimator_value TIR_OPTIMAL_TOKEN_BASELINE = ''tir_optimal_token_baseline''"

datatype name_or_enum = Name string | Member advantage_estimator

fun registry_name :: "name_or_enum \<Rightarrow> string" where
  "registry_name (Name s) = s"
| "registry_name (Member e) = estimator_value e"

definition register_policy_loss :: "string \<Rightarrow> 'f \<Rightarrow> (string, 'f) dict \<Rightarrow> (string, 'f) dict result" where
  "register_policy_loss name func reg = Inr (AList.update name func reg)"

definition get_policy_loss_fn :: "string \<Rightarrow> (string, 'f) dict \<Rightarrow> 'f result" where
  "get_policy_loss_fn name reg = (case map_of reg name of None \<Rightarrow> Inl ValueError | Some f \<Rightarrow> Inr f)"

definition register_adv_est :: "name_or_enum \<Rightarrow> 'f \<Rightarrow> (string, 'f) dict \<Rightarrow> (string, 'f) dict result" where
  "register_adv_est name_or_enum fn reg =
     (let name = registry_name name_or_enum
      in case map_of reg name of
           Some g \<Rightarrow> if g \<noteq> fn then Inl ValueError else Inr (AList.update name fn reg)
         | None \<Rightarrow> Inr (AList.update name fn reg))"

definition get_adv_estimator_fn :: "name_or_enum \<Rightarrow> (string, 'f) dict \<Rightarrow> 'f result" where
  "get_adv_estimator_fn name_or_enum reg =
     (case map_of reg (registry_name name_or_enum) of None \<Rightarrow> Inl ValueError | Some f \<Rightarrow> Inr f)"

text \<open>The other registries of the program: reward managers of the workers and of the reward loop, which are write-once too,
  tool parsers, and checkpoint engines.\<close>

definition register_reward_manager :: "string \<Rightarrow> 'f \<Rightarrow> (string, 'f) dict \<Rightarrow> (string, 'f) dict result" where
  "register_reward_manager name cls reg =
    (if name \<in> set (keys reg) \<and> map_of reg name \<noteq> Some cls then Inl ValueError else Inr (AList.update name cls reg))"

definition get_reward_manager_cls :: "string \<Rightarrow> (string, 'f) dict \<Rightarrow> 'f result" where
  "get_reward_manager_cls name reg = (if name \<notin> set (keys reg) then Inl ValueError else dget reg name)"

definition register_loop_reward_manager :: "string \<Rightarrow> 'f \<Rightarrow> (string, 'f) dict \<Rightarrow> (string, 'f) dict result" where
  "register_loop_reward_manager name cls reg =
    (if name \<in> set (keys reg) \<and> map_of reg name \<noteq> Some cls then Inl ValueError else Inr (AList.update name cls reg))"

definition get_loop_reward_manager_cls :: "string \<Rightarrow> (string, 'f) dict \<Rightarrow> 'f result" where
  "get_loop_reward_manager_cls name reg = (if name \<notin> set (keys reg) then Inl ValueError else dget reg name)"

definition register_tool_parser :: "string \<Rightarrow> 'f \<Rightarrow> (string, 'f) dict \<Rightarrow> (string, 'f) dict result" where
  "register_tool_parser name subclass reg = Inr (AList.update name subclass reg)"

definition get_tool_parser :: "string \<Rightarrow> (string, 'f) dict \<Rightarrow> 'f result" where
  "get_tool_parser name reg = (if name \<notin> set (keys reg) then Inl ValueError else dget reg name)"

definition register_checkpoint_engine :: "string \<Rightarrow> 'f \<Rightarrow> (string, 'f) dict \<Rightarrow> (string, 'f) dict result" where
  "register_checkpoint_engine backend cls reg = Inr (AList.update backend cls reg)"

definition new_checkpoint_engine :: "string \<Rightarrow> (string, 'f) dict \<Rightarrow> 'f result" where
  "new_checkpoint_engine backend reg = (if backend \<notin> set (keys reg) then Inl ValueError else dget reg backend)"

subsection \<open>What a registry promises\<close>

locale registry =
  fixes key :: "'n \<Rightarrow> string"
    and reg_fn :: "'n \<Rightarrow> 'f \<Rightarrow> (string, 'f) dict \<Rightarrow> (string, 'f) dict result"
    and get_fn :: "'n \<Rightarrow> (string, 'f) dict \<Rightarrow> 'f result"
  assumes get_new: "reg_fn n f reg = Inr reg' \<Longrightarrow> key n = key m \<Longrightarrow> get_fn m reg' = Inr f"
    and get_other: "reg_fn n f reg = Inr reg' \<Longrightarrow> key n \<noteq> key m \<Longrightarrow> get_fn m reg' = get_fn m reg"
    and get_unknown: "map_of reg (key m) = None \<Longrightarrow> get_fn m reg = Inl ValueError"
begin

definition register_all :: "('n \<times> 'f) list \<Rightarrow> (string, 'f) dict \<Rightarrow> (string, 'f) dict result" where
  "register_all nfs reg = rfold (\<lambda>(n, f). reg_fn n f) nfs reg"

lemma register_all_other:
  "register_all nfs reg = Inr reg' \<Longrightarrow> key m \<notin> key ` fst ` set nfs \<Longrightarrow> get_fn m reg' = get_fn m reg"
  unfolding register_all_def
  by (induction nfs arbitrary: reg) (auto simp: res_simps split_beta dest!: get_other [where m = m])

lemma register_all_get:
  assumes "register_all nfs reg = Inr reg'" "distinct (map (key \<circ> fst) nfs)" "(n, f) \<in> set nfs"
  shows "get_fn n reg' = Inr f"
  using assms
proof (induction nfs arbitrary: reg)
  case (Cons p nfs)
  obtain reg1 where one: "reg_fn (fst p) (snd p) reg = Inr reg1" and rest: "register_all nfs reg1 = Inr reg'"
    using Cons.prems(1) by (auto simp: register_all_def res_simps split_beta)
  show ?case
  proof (cases "(n, f) \<in> set nfs")
    case True
    then show ?thesis using Cons.IH [OF rest] Cons.prems by simp
  next
    case False
    then have "p = (n, f)" using Cons.prems by auto
    then have "key n \<notin> key ` fst ` set nfs" using Cons.prems(2) by (force simp: comp_def)
    then show ?thesis
      using register_all_other [OF rest] get_new [OF one] \<open>p = (n, f)\<close> by simp
  qed
qed simp

end

interpretation losses: registry "\<lambda>n. n" register_policy_loss get_policy_loss_fn
  by unfold_locales (auto simp: register_policy_loss_def get_policy_loss_fn_def split: option.splits)

interpretation estimators: registry registry_name register_adv_est get_adv_estimator_fn
  by unfold_locales (auto simp: register_adv_est_def get_adv_estimator_fn_def Let_def
      split: option.splits if_splits)

interpretation managers: registry "\<lambda>n. n" register_reward_manager get_reward_manager_cls
  by unfold_locales (auto simp: register_reward_manager_def get_reward_manager_cls_def set_keys dget_def split: option.splits if_splits)

interpretation loop_managers: registry "\<lambda>n. n" register_loop_reward_manager get_loop_reward_manager_cls
  by unfold_locales (auto simp: register_loop_reward_manager_def get_loop_reward_manager_cls_def set_keys dget_def split: option.splits if_splits)

interpretation tool_parsers: registry "\<lambda>n. n" register_tool_parser get_tool_parser
  by unfold_locales (auto simp: register_tool_parser_def get_tool_parser_def set_keys dget_def split: option.splits)

interpretation checkpoint_engines: registry "\<lambda>n. n" register_checkpoint_engine new_checkpoint_engine
  by unfold_locales (auto simp: register_checkpoint_engine_def new_checkpoint_engine_def set_keys dget_def split: option.splits)

lemma estimator_value_inject [simp]: "estimator_value a = estimator_value b \<longleftrightarrow> a = b"
  by (cases a; cases b) simp_all

text \<open>The estimator registry is write-once. A registration that succeeds makes the name (given as a
  string or as an enum member) resolve to the registered function, leaves every other name as it
  was, and never replaces another function: whatever the name resolved to before is what it
  resolves to afterwards.\<close>

theorem adv_registry_write_once:
  assumes "register_adv_est n f reg = Inr reg'"
  shows "get_adv_estimator_fn n reg' = Inr f
    \<and> (\<forall>m. registry_name m \<noteq> registry_name n \<longrightarrow> get_adv_estimator_fn m reg' = get_adv_estimator_fn m reg)
    \<and> (\<forall>m g. get_adv_estimator_fn m reg = Inr g \<longrightarrow> get_adv_estimator_fn m reg' = Inr g)"
proof (intro conjI allI impI)
  show "get_adv_estimator_fn n reg' = Inr f" using estimators.get_new [OF assms] by simp
next
  fix m
  assume "registry_name m \<noteq> registry_name n"
  then show "get_adv_estimator_fn m reg' = get_adv_estimator_fn m reg"
    using estimators.get_other [OF assms] by metis
next
  fix m g
  assume g: "get_adv_estimator_fn m reg = Inr g"
  show "get_adv_estimator_fn m reg' = Inr g"
  proof (cases "registry_name m = registry_name n")
    case True
    then have "g = f"
      using assms g by (auto simp: register_adv_est_def get_adv_estimator_fn_def Let_def
          split: option.splits if_splits)
    then show ?thesis using estimators.get_new [OF assms] True by simp
  next
    case False
    then show ?thesis using estimators.get_other [OF assms] g by metis
  qed
qed

theorem adv_registry_write_once_witness:
  "get_adv_estimator_fn (Name ''gae'') [(''gae'', 7 :: nat)] = Inr 7"
  using adv_registry_write_once [of "Member GAE" "7 :: nat" "[]" "[(''gae'', 7)]"]
  by (simp add: register_adv_est_def get_adv_estimator_fn_def)

end
