(* ===== verification/KlControl.thy ===== *)
theory KlControl
  imports PolicyLoss
begin

section \<open>KL penalties, KL controllers, value and entropy losses (\<open>verl/trainer/ppo/core_algos.py\<close>)\<close>

text \<open>
  The per-token KL estimators, the two controllers of the KL coefficient with their factory, the
  clipped value loss, the entropy of a token's logits, and the reweighting of PF-PPO. A controller
  is a value of the datatype \<open>kl_controller\<close>; \<open>update\<close> returns the new controller.
\<close>

subsection \<open>KL estimators\<close>

definition k3_token :: "real \<Rightarrow> real \<Rightarrow> real" where
  "k3_token logprob ref_logprob =
     (let kl = clamp (- 20) 20 (ref_logprob - logprob);
          ratio = exp kl;
          kld = ratio - kl - 1
      in clamp (- 10) 10 kld)"

definition kl_penalty_forward :: "mat \<Rightarrow> mat \<Rightarrow> string \<Rightarrow> mat result" where
  "kl_penalty_forward logprob ref_logprob kind =
     (if kind \<in> {''kl'', ''k1''} then Inr (mmap2 (-) logprob ref_logprob)
      else if kind = ''abs'' then Inr (mmap2 (\<lambda>l r. \<bar>l - r\<bar>) logprob ref_logprob)
      else if kind \<in> {''mse'', ''k2''} then Inr (mmap2 (\<lambda>l r. 1 / 2 * (l - r)\<^sup>2) logprob ref_logprob)
      else if kind \<in> {''low_var_kl'', ''k3''} then Inr (mmap2 k3_token logprob ref_logprob)
      else if kind = ''full'' then Inl NotImplementedError
      else Inl NotImplementedError)"

definition ends_with_plus :: "string \<Rightarrow> bool" where
  "ends_with_plus s = (s \<noteq> [] \<and> last s = CHR ''+'')"

definition kl_penalty :: "mat \<Rightarrow> mat \<Rightarrow> string \<Rightarrow> mat result" where
  "kl_penalty logprob ref_logprob kind =
     rbind (kl_penalty_forward logprob ref_logprob kind) (\<lambda>forward_score.
     if \<not> ends_with_plus kind \<or> kind \<in> {''mse'', ''k2''} then Inr forward_score
     else let backward_score = mmap2 (\<lambda>l r. 1 / 2 * (l - r)\<^sup>2) logprob ref_logprob
          in Inr (mmap2 (+) (mmap2 (-) backward_score backward_score) forward_score))"

subsection \<open>Controllers\<close>

record kl_ctrl_cfg =
  kc_type :: string
  kc_coef :: real
  kc_horizon :: int
  kc_target :: real

datatype kl_controller =
    AdaptiveKLController real real int \<comment> \<open>value, target, horizon\<close>
  | FixedKLController real

fun kl_value :: "kl_controller \<Rightarrow> real" where
  "kl_value (AdaptiveKLController v target horizon) = v"
| "kl_value (FixedKLController v) = v"

fun kl_update :: "real \<Rightarrow> int \<Rightarrow> kl_controller \<Rightarrow> kl_controller result" where
  "kl_update current_kl n_steps (AdaptiveKLController v target horizon) =
     (if target = 0 then Inl ZeroDivisionError
      else let proportional_error = clamp (- 2 / 10) (2 / 10) (current_kl / target - 1)
      in if horizon = 0 then Inl ZeroDivisionError
         else let mult = 1 + proportional_error * of_int n_steps / of_int horizon
         in Inr (AdaptiveKLController (v * mult) target horizon))"
| "kl_update current_kl n_steps (FixedKLController v) = Inr (FixedKLController v)"

definition get_kl_controller :: "kl_ctrl_cfg \<Rightarrow> kl_controller result" where
  "get_kl_controller kl_ctrl =
     (if kc_type kl_ctrl = ''fixed'' then Inr (FixedKLController (kc_coef kl_ctrl))
      else if kc_type kl_ctrl = ''adaptive'' then
        rbind (py_assert (kc_horizon kl_ctrl > 0)) (\<lambda>_.
        Inr (AdaptiveKLController (kc_coef kl_ctrl) (kc_target kl_ctrl) (kc_horizon kl_ctrl)))
      else Inl NotImplementedError)"

subsection \<open>Value loss and entropy\<close>

definition vf_clipped :: "real \<Rightarrow> real \<Rightarrow> real \<Rightarrow> real" where
  "vf_clipped cliprange_value vpred v = clip_by_value vpred (v - cliprange_value) (v + cliprange_value)"

definition vf_loss_token :: "real \<Rightarrow> real \<Rightarrow> real \<Rightarrow> real \<Rightarrow> real" where
  "vf_loss_token cliprange_value vpred ret v =
     max ((vpred - ret)\<^sup>2) ((vf_clipped cliprange_value vpred v - ret)\<^sup>2)"

definition compute_value_loss :: "mat \<Rightarrow> mat \<Rightarrow> mat \<Rightarrow> mat \<Rightarrow> real \<Rightarrow> string \<Rightarrow> (real \<times> real) result" where
  "compute_value_loss vpreds returns values response_mask cliprange_value loss_agg_mode =
     rbind (agg_loss (mmap3 (vf_loss_token cliprange_value) vpreds returns values) response_mask
       loss_agg_mode default_info) (\<lambda>l.
     Inr (1 / 2 * l,
       masked_mean (mmap3 (\<lambda>p r v. indicator01 ((vf_clipped cliprange_value p v - r)\<^sup>2 > (p - r)\<^sup>2))
         vpreds returns values) response_mask))"

definition logsumexp :: "vec \<Rightarrow> real" where
  "logsumexp xs = ln (sum_list (map exp xs))"

definition softmax :: "vec \<Rightarrow> vec" where
  "softmax xs = map (\<lambda>x. exp x / sum_list (map exp xs)) xs"

definition entropy_from_logits :: "vec \<Rightarrow> real" where
  "entropy_from_logits logits = logsumexp logits - sum_list (map2 (*) (softmax logits) logits)"

definition compute_entropy_loss :: "vec list list \<Rightarrow> mat \<Rightarrow> string \<Rightarrow> real result" where
  "compute_entropy_loss logits response_mask loss_agg_mode =
     agg_loss (map (map entropy_from_logits) logits) response_mask loss_agg_mode default_info"

subsection \<open>PF-PPO weights\<close>

definition compute_weights :: "vec \<Rightarrow> string \<Rightarrow> real \<Rightarrow> vec result" where
  "compute_weights scores reweight_method weight_pow =
     (if reweight_method = ''pow'' then Inr (map (\<lambda>s. \<bar>s\<bar> powr weight_pow) scores)
      else if reweight_method = ''max_min'' then
        (if scores = [] then Inl RuntimeError
         else let max_score = fold max scores (hd scores); min_score = fold min scores (hd scores)
              in Inr (map (\<lambda>s. if s = max_score \<or> s = min_score then 1 else 0) scores))
      else if reweight_method = ''max_random'' then
        (if scores = [] then Inl RuntimeError
         else let max_score = fold max scores (hd scores)
              in Inr (map (\<lambda>s. if s = max_score then 4 / 10 else 1 / 10) scores))
      else Inl ValueError)"

definition sampling_weights :: "mat \<Rightarrow> string \<Rightarrow> real \<Rightarrow> vec result" where
  "sampling_weights token_level_scores reweight_method weight_pow =
     rbind (compute_weights (row_sums token_level_scores) reweight_method weight_pow) (\<lambda>weights.
     Inr (map (\<lambda>w. max (w + 1 / 10 ^ 8) (1 / 10 ^ 8)) weights))"

subsection \<open>The estimators\<close>

lemma exp_k3_nonneg: "0 \<le> exp x - x - (1 :: real)"
  using exp_ge_add_one_self [of x] by linarith

lemma exp_k3_zero_iff: "exp x - x - (1 :: real) = 0 \<longleftrightarrow> x = 0"
proof
  assume h: "exp x - x - 1 = 0"
  have half: "1 + x / 2 \<le> exp (x / 2)" by (rule exp_ge_add_one_self)
  have sq: "exp x = (exp (x / 2))\<^sup>2" by (simp add: power2_eq_square exp_add [symmetric])
  show "x = 0"
  proof (cases "0 \<le> 1 + x / 2")
    case True
    then have "(1 + x / 2)\<^sup>2 \<le> exp x" unfolding sq using half by (intro power_mono)
    then have "(x / 2)\<^sup>2 \<le> 0" using h by (simp add: power2_eq_square algebra_simps)
    then show ?thesis by simp
  next
    case False
    then have "x < - 1" by simp
    then show ?thesis using h exp_gt_zero [of x] by linarith
  qed
qed simp

lemma k3_token_range: "0 \<le> k3_token l r \<and> k3_token l r \<le> 10"
  using exp_k3_nonneg [of "clamp (- 20) 20 (r - l)"] by (simp add: k3_token_def Let_def clamp_def)

lemma k3_token_zero_iff: "k3_token l r = 0 \<longleftrightarrow> l = r"
proof -
  let ?d = "clamp (- 20) 20 (r - l)"
  have "clamp (- 10) 10 (exp ?d - ?d - 1) = 0 \<longleftrightarrow> exp ?d - ?d - 1 = 0"
    using exp_k3_nonneg [of ?d] by (auto simp: clamp_def min_def max_def)
  also have "\<dots> \<longleftrightarrow> ?d = 0" by (rule exp_k3_zero_iff)
  also have "\<dots> \<longleftrightarrow> l = r" by (auto simp: clamp_def min_def max_def)
  finally show ?thesis by (simp add: k3_token_def Let_def)
qed

text \<open>The low-variance estimator of a token is between 0 and 10 and vanishes exactly where the two
  policies agree, so the penalty of a whole batch is elementwise in that range.\<close>

theorem k3_penalty_range:
  assumes "kind \<in> {''low_var_kl'', ''k3''}" "same_shape logprob ref_logprob"
  shows "\<exists>K. kl_penalty logprob ref_logprob kind = Inr K
    \<and> (\<forall>row \<in> set K. \<forall>x \<in> set row. 0 \<le> x \<and> x \<le> 10)
    \<and> ((\<forall>row \<in> set K. \<forall>x \<in> set row. x = 0) \<longleftrightarrow> logprob = ref_logprob)"
proof -
  have K: "kl_penalty logprob ref_logprob kind = Inr (mmap2 k3_token logprob ref_logprob)"
    using assms(1) by (elim insertE emptyE) (simp_all add: kl_penalty_def kl_penalty_forward_def ends_with_plus_def)
  have range: "\<forall>row \<in> set (mmap2 k3_token logprob ref_logprob). \<forall>x \<in> set row. 0 \<le> x \<and> x \<le> 10"
    using k3_token_range by (auto simp: mmap2_def)
  have row: "list_all (\<lambda>x. x = 0) (map2 k3_token a b) \<longleftrightarrow> a = b" if "length a = length b" for a b
    using that by (induction a b rule: list_induct2) (simp_all add: k3_token_zero_iff)
  have "list_all (list_all (\<lambda>x. x = 0)) (mmap2 k3_token logprob ref_logprob) \<longleftrightarrow> logprob = ref_logprob"
    using same_shape_length [OF assms(2)] assms(2)
    by (induction logprob ref_logprob rule: list_induct2) (simp_all add: mmap2_def row)
  then have "(\<forall>row \<in> set (mmap2 k3_token logprob ref_logprob). \<forall>x \<in> set row. x = 0) \<longleftrightarrow> logprob = ref_logprob"
    unfolding list_all_iff .
  then show ?thesis using K range by blast
qed

theorem k3_penalty_range_witness:
  "\<exists>K. kl_penalty [[1, 2]] [[1, 5]] ''k3'' = Inr K \<and> (\<forall>row \<in> set K. \<forall>x \<in> set row. 0 \<le> x \<and> x \<le> 10)"
  using k3_penalty_range [of "''k3''" "[[1, 2]]" "[[1, 5]]"] by (auto simp: same_shape_def)

text \<open>The documented straight-through variants are unreachable. Whatever the suffix \<open>+\<close> is appended
  to, the estimator raises \<open>NotImplementedError\<close>, because the forward function is given the name
  with its suffix.\<close>

theorem kl_plus_raises:
  "kl_penalty logprob ref_logprob (kind @ ''+'') = Inl NotImplementedError"
proof -
  have "kind @ ''+'' \<noteq> k" if "\<not> ends_with_plus k" for k
    using that by (auto simp: ends_with_plus_def)
  then have "kl_penalty_forward logprob ref_logprob (kind @ ''+'') = Inl NotImplementedError"
    by (simp add: kl_penalty_forward_def ends_with_plus_def)
  then show ?thesis by (simp add: kl_penalty_def)
qed

subsection \<open>What a controller promises\<close>

text \<open>
  The trainer only reads \<open>value\<close> and calls \<open>update\<close>. The contract: an update on an admissible
  observation returns a controller of the same kind, scales the coefficient by a factor between
  \<open>lo\<close> and \<open>hi\<close>, and keeps what makes updates total.
\<close>

locale kl_control =
  fixes upd :: "'o \<Rightarrow> 'c \<Rightarrow> 'c result" and val :: "'c \<Rightarrow> real" and good :: "'o \<Rightarrow> 'c \<Rightarrow> bool"
    and frame :: "'c \<Rightarrow> 'f" and lo hi :: real
  assumes step: "good x c \<Longrightarrow> 0 \<le> val c \<Longrightarrow>
      \<exists>c'. upd x c = Inr c' \<and> lo * val c \<le> val c' \<and> val c' \<le> hi * val c \<and> frame c' = frame c"
    and good_frame: "frame c = frame c' \<Longrightarrow> good x c = good x c'"
    and lo: "0 \<le> lo" and hi: "lo \<le> hi"
begin

lemma run:
  assumes "\<forall>x \<in> set xs. good x c" "0 \<le> val c"
  shows "\<exists>c'. rfold upd xs c = Inr c' \<and> lo ^ length xs * val c \<le> val c' \<and> val c' \<le> hi ^ length xs * val c"
  using assms
proof (induction xs arbitrary: c)
  case (Cons x xs)
  obtain c1 where c1: "upd x c = Inr c1" "lo * val c \<le> val c1" "val c1 \<le> hi * val c" "frame c1 = frame c"
    using step [of x c] Cons.prems by auto
  have pos: "0 \<le> val c1" using c1(2) lo Cons.prems(2) by (meson mult_nonneg_nonneg order_trans)
  obtain c2 where c2: "rfold upd xs c1 = Inr c2" "lo ^ length xs * val c1 \<le> val c2"
      "val c2 \<le> hi ^ length xs * val c1"
    using Cons.IH [of c1] Cons.prems(1) pos good_frame [OF c1(4)] by auto
  have "lo ^ length xs * (lo * val c) \<le> lo ^ length xs * val c1"
    using c1(2) lo by (intro mult_left_mono) auto
  moreover have "hi ^ length xs * val c1 \<le> hi ^ length xs * (hi * val c)"
    using c1(3) lo hi by (intro mult_left_mono) auto
  ultimately show ?case using c1(1) c2 by (simp add: mult.assoc mult.left_commute)
qed simp

end

fun controller_params :: "kl_controller \<Rightarrow> (real \<times> int) option" where
  "controller_params (AdaptiveKLController v target horizon) = Some (target, horizon)"
| "controller_params (FixedKLController v) = None"

definition admissible :: "real \<times> int \<Rightarrow> kl_controller \<Rightarrow> bool" where
  "admissible obs c = (case controller_params c of None \<Rightarrow> True
     | Some (target, horizon) \<Rightarrow> target \<noteq> 0 \<and> 0 < horizon \<and> 0 \<le> snd obs \<and> snd obs \<le> horizon)"

lemma adaptive_factor:
  assumes "0 < (horizon :: int)" "0 \<le> n" "n \<le> horizon"
  shows "8 / 10 \<le> 1 + clamp (- 2 / 10) (2 / 10) x * of_int n / of_int horizon"
    "1 + clamp (- 2 / 10) (2 / 10) x * of_int n / of_int horizon \<le> 12 / 10"
proof -
  define e where "e = clamp (- 2 / 10) (2 / 10) x"
  define q where "q = (of_int n / of_int horizon :: real)"
  have q: "0 \<le> q" "q \<le> 1" using assms by (auto simp: q_def)
  have "\<bar>e\<bar> \<le> 2 / 10" by (auto simp: e_def clamp_def)
  then have "\<bar>e * q\<bar> \<le> 2 / 10"
    unfolding abs_mult using q mult_left_le [of "\<bar>q\<bar>" "\<bar>e\<bar>"] by linarith
  moreover have "clamp (- 2 / 10) (2 / 10) x * of_int n / of_int horizon = e * q"
    by (simp add: e_def q_def)
  ultimately show "8 / 10 \<le> 1 + clamp (- 2 / 10) (2 / 10) x * of_int n / of_int horizon"
    "1 + clamp (- 2 / 10) (2 / 10) x * of_int n / of_int horizon \<le> 12 / 10"
    by linarith+
qed

interpretation kl_ctrl: kl_control "\<lambda>(kl, n). kl_update kl n" kl_value admissible controller_params
    "8 / 10" "12 / 10"
proof unfold_locales
  fix x :: "real \<times> int" and c
  obtain kl n where x: "x = (kl, n)" by (cases x)
  assume good: "admissible x c" and pos: "0 \<le> kl_value c"
  show "\<exists>c'. (case x of (kl, n) \<Rightarrow> kl_update kl n) c = Inr c' \<and> 8 / 10 * kl_value c \<le> kl_value c'
      \<and> kl_value c' \<le> 12 / 10 * kl_value c \<and> controller_params c' = controller_params c"
  proof (cases c)
    case (AdaptiveKLController v target horizon)
    then have h: "0 < horizon" "0 \<le> n" "n \<le> horizon" "target \<noteq> 0"
      using good x by (auto simp: admissible_def)
    have v: "0 \<le> v" using pos AdaptiveKLController by simp
    show ?thesis
      using h(1,4) mult_right_mono [OF adaptive_factor(1) [OF h(1-3), of "kl / target - 1"] v]
        mult_right_mono [OF adaptive_factor(2) [OF h(1-3), of "kl / target - 1"] v]
      by (simp add: x AdaptiveKLController Let_def mult.commute)
  qed (use pos x in simp)
qed (auto simp: admissible_def)

text \<open>The KL coefficient cannot run away. Any controller the factory builds from a non-negative
  coefficient and a non-zero target survives every sequence of \<open>k\<close> updates with at most \<open>horizon\<close>
  steps each, and its coefficient stays between \<open>0.8 ^ k\<close> and \<open>1.2 ^ k\<close> times the configured
  one.\<close>

theorem kl_coefficient_stays_bounded:
  assumes made: "get_kl_controller cfg = Inr c" and "0 \<le> kc_coef cfg" "kc_target cfg \<noteq> 0"
    and "\<forall>(kl, n) \<in> set observations. 0 \<le> n \<and> n \<le> kc_horizon cfg"
  shows "\<exists>c'. rfold (\<lambda>(kl, n). kl_update kl n) observations c = Inr c'
    \<and> (8 / 10) ^ length observations * kc_coef cfg \<le> kl_value c'
    \<and> kl_value c' \<le> (12 / 10) ^ length observations * kc_coef cfg"
proof -
  have "kl_value c = kc_coef cfg"
    using made by (auto simp: get_kl_controller_def res_simps split: if_splits)
  moreover have "\<forall>x \<in> set observations. admissible x c"
    using made assms by (auto simp: get_kl_controller_def admissible_def res_simps split: if_splits)
  ultimately show ?thesis using kl_ctrl.run [of observations c] assms(2) by simp
qed

definition demo_kl_cfg :: kl_ctrl_cfg where
  "demo_kl_cfg = \<lparr>kc_type = ''adaptive'', kc_coef = 2, kc_horizon = 100, kc_target = 6\<rparr>"

theorem kl_coefficient_stays_bounded_witness:
  "\<exists>c'. rfold (\<lambda>(kl, n). kl_update kl n) [(30, 100), (0, 50)] (AdaptiveKLController 2 6 100) = Inr c'
    \<and> (8 / 10) ^ 2 * 2 \<le> kl_value c' \<and> kl_value c' \<le> (12 / 10) ^ 2 * 2"
  using kl_coefficient_stays_bounded [of demo_kl_cfg "AdaptiveKLController 2 6 100" "[(30, 100), (0, 50)]"]
  by (simp add: demo_kl_cfg_def get_kl_controller_def numeral_2_eq_2)

lemma scaled_cmp:
  fixes v y :: real
  assumes "0 < v"
  shows "v < v * (1 + y) \<longleftrightarrow> 0 < y" "v * (1 + y) < v \<longleftrightarrow> y < 0"
  unfolding distrib_left using assms by (simp_all add: zero_less_mult_iff mult_less_0_iff)

text \<open>An adaptive controller steers towards its target: with a positive coefficient, target and
  horizon, and steps taken, a KL above the target raises the coefficient, one below lowers it, and one
  at the target leaves it.\<close>

theorem adaptive_controller_direction:
  assumes "0 < v" "0 < target" "0 < horizon" "0 < n"
    and "kl_update kl n (AdaptiveKLController v target horizon) = Inr c"
  shows "(v < kl_value c \<longleftrightarrow> target < kl) \<and> (kl_value c < v \<longleftrightarrow> kl < target)"
proof -
  define e where "e = clamp (- 2 / 10) (2 / 10) (kl / target - 1)"
  define q where "q = (of_int n / of_int horizon :: real)"
  have c: "kl_value c = v * (1 + e * q)"
    using assms by (auto simp: Let_def e_def q_def)
  have q: "0 < q" using assms by (simp add: q_def)
  have "0 < kl / target - 1 \<longleftrightarrow> target < kl" "kl / target - 1 < 0 \<longleftrightarrow> kl < target"
    using assms(2) by (simp_all add: less_divide_eq divide_less_eq)
  then have up: "0 < e \<longleftrightarrow> target < kl" and down: "e < 0 \<longleftrightarrow> kl < target"
    by (auto simp: e_def clamp_def)
  have "v < kl_value c \<longleftrightarrow> 0 < e * q"
    "kl_value c < v \<longleftrightarrow> e * q < 0"
    unfolding c using scaled_cmp [OF assms(1)] by blast+
  then show ?thesis
    using q up down by (simp add: zero_less_mult_iff mult_less_0_iff)
qed

theorem adaptive_controller_direction_witness:
  "kl_value (projr (kl_update 9 10 (AdaptiveKLController 2 6 100))) > 2"
  using adaptive_controller_direction [of 2 6 100 10 9 "projr (kl_update 9 10 (AdaptiveKLController 2 6 100))"]
  by (simp add: Let_def)

subsection \<open>Value loss\<close>

lemma clip_by_value_id: "lo \<le> x \<Longrightarrow> x \<le> hi \<Longrightarrow> clip_by_value x lo hi = x"
  by (simp add: clip_by_value_def)

lemma row_num_mono:
  assumes "list_all2 (\<le>) a b" "\<forall>x \<in> set m. 0 \<le> x" "length b = length m"
  shows "row_num mode a m \<le> row_num mode b m"
proof -
  have len: "length a = length b" using assms(1) by (rule list_all2_lengthD)
  have "sum_list (map2 (*) a m) \<le> sum_list (map2 (*) b m)
    \<and> sum_list (map2 (\<lambda>v m. (if m \<noteq> 0 then v else 0) * m) a m)
      \<le> sum_list (map2 (\<lambda>v m. (if m \<noteq> 0 then v else 0) * m) b m)"
    using len assms(3) assms(1,2) by (induction a b m rule: list_induct3) (auto intro!: add_mono mult_right_mono)
  moreover have "0 \<le> sum_list m" using assms(2) by (auto intro: sum_list_nonneg)
  ultimately show ?thesis
    by (auto simp: row_num_def Let_def indicator01_def intro!: divide_right_mono)
qed

lemma agg_num_mono:
  assumes "list_all2 (list_all2 (\<le>)) A B" "\<forall>row \<in> set M. \<forall>x \<in> set row. 0 \<le> x" "same_shape B M"
  shows "agg_num mode A M \<le> agg_num mode B M"
proof -
  have "length A = length B" "length B = length M"
    using assms list_all2_lengthD same_shape_length by blast+
  then show ?thesis using assms
    by (induction A B M rule: list_induct3) (auto simp: agg_num_def intro!: add_mono row_num_mono)
qed

lemma mmap3_Cons [simp]:
  "mmap3 f (a # A) (b # B) (c # C) = map (\<lambda>(x, y, z). f x y z) (zip a (zip b c)) # mmap3 f A B C"
  "mmap3 f [] B C = []"
  by (simp_all add: mmap3_def)

lemma mmap3_shape_le:
  assumes "same_shape A B" "same_shape B C" "\<And>x y z. g x y z \<le> (f x y z :: real)"
  shows "list_all2 (list_all2 (\<le>)) (mmap3 g A B C) (mmap3 f A B C)" "same_shape (mmap3 f A B C) C"
proof -
  have l: "length A = length B" "length B = length C" using assms(1,2) same_shape_length by blast+
  have row: "list_all2 (\<le>) (map (\<lambda>(x, y, z). g x y z) (zip a (zip b c)))
      (map (\<lambda>(x, y, z). f x y z) (zip a (zip b c)))" for a b c
    by (auto simp: list_all2_map1 list_all2_map2 assms(3) intro!: list.rel_refl_strong)
  show "list_all2 (list_all2 (\<le>)) (mmap3 g A B C) (mmap3 f A B C)"
    using l by (induction A B C rule: list_induct3) (simp_all add: row)
  show "same_shape (mmap3 f A B C) C"
    using l assms(1,2) by (induction A B C rule: list_induct3) simp_all
qed

text \<open>Clipping makes the value loss pessimistic: in every aggregation mode it is at least half the
  aggregated squared error of the unclipped predictions, and at least half that of the clipped ones.\<close>

theorem value_loss_pessimistic:
  assumes "same_shape vpreds returns" "same_shape returns values" "same_shape values M" "is_mask M"
    and "compute_value_loss vpreds returns values M cliprange mode = Inr (L, clipfrac)"
  shows "\<exists>E E'. agg_loss (mmap3 (\<lambda>p r v. (p - r)\<^sup>2) vpreds returns values) M mode default_info = Inr E
    \<and> agg_loss (mmap3 (\<lambda>p r v. (vf_clipped cliprange p v - r)\<^sup>2) vpreds returns values) M mode default_info
        = Inr E'
    \<and> 1 / 2 * E \<le> L \<and> 1 / 2 * E' \<le> L"
proof -
  let ?C = "mmap3 (vf_loss_token cliprange) vpreds returns values"
  obtain l where l: "agg_loss ?C M mode default_info = Inr l" "L = 1 / 2 * l"
    using assms(5) by (auto simp: compute_value_loss_def res_simps)
  then obtain n where n: "agg_den mode M default_info = Inr n" "n \<noteq> 0" "l = agg_num mode ?C M / n"
    by (auto simp: agg_loss_Inr default_info_def)
  have nonneg: "\<forall>row \<in> set M. \<forall>x \<in> set row. 0 \<le> x" using assms(4) unfolding is_mask_def by force
  have "0 \<le> msum M" unfolding msum_def using nonneg by (intro sum_list_nonneg) (auto intro!: sum_list_nonneg)
  moreover have "0 \<le> sum_list (seq_mask_of M)"
    by (intro sum_list_nonneg) (auto simp: seq_mask_of_def indicator01_def)
  ultimately have "0 \<le> n"
    using n(1) by (auto simp: agg_den_def default_info_def global_or_def split: if_splits)
  then have pos: "0 < n" using n(2) by simp
  have le: "\<exists>E. agg_loss (mmap3 g vpreds returns values) M mode default_info = Inr E \<and> 1 / 2 * E \<le> L"
    if g: "\<And>p r v. g p r v \<le> vf_loss_token cliprange p r v" for g
  proof -
    have "agg_num mode (mmap3 g vpreds returns values) M \<le> agg_num mode ?C M"
    proof (rule agg_num_mono [OF _ nonneg])
      show "list_all2 (list_all2 (\<le>)) (mmap3 g vpreds returns values) ?C"
        by (rule mmap3_shape_le(1) [OF assms(1,2)]) (rule g)
      show "same_shape ?C M"
        using mmap3_shape_le(2) [OF assms(1,2), of g "vf_loss_token cliprange"] assms(3) g
        by (blast intro: same_shape_trans)
    qed
    then have "agg_num mode (mmap3 g vpreds returns values) M / n \<le> l"
      unfolding n(3) using pos by (intro divide_right_mono) auto
    then show ?thesis using n(1,2) l(2) by (auto simp: agg_loss_Inr default_info_def)
  qed
  show ?thesis
    using le [of "\<lambda>p r v. (p - r)\<^sup>2"] le [of "\<lambda>p r v. (vf_clipped cliprange p v - r)\<^sup>2"]
    by (auto simp: vf_loss_token_def)
qed

theorem value_loss_pessimistic_witness:
  "\<exists>E. agg_loss [[9]] [[1]] ''token-mean'' default_info = Inr E \<and> 1 / 2 * E \<le> 9 / 2"
proof -
  have "compute_value_loss [[3]] [[0]] [[2]] [[1]] (1 / 2) ''token-mean'' = Inr (9 / 2,
      masked_mean [[0]] [[1]])"
    by (simp add: compute_value_loss_def vf_loss_token_def vf_clipped_def clip_by_value_def agg_loss_def
        default_info_def global_or_def msum_def masked_sum_def mmap2_def tdiv_def indicator01_def
        power2_eq_square)
  from value_loss_pessimistic [OF _ _ _ _ this] show ?thesis
    by (auto simp: same_shape_def is_mask_def power2_eq_square)
qed

subsection \<open>Entropy\<close>

lemma softmax_sum:
  assumes "xs \<noteq> []"
  shows "sum_list (softmax xs) = 1" "0 < sum_list (map exp xs)"
proof -
  show pos: "0 < sum_list (map exp xs)"
    using assms by (cases xs) (auto intro!: add_pos_nonneg sum_list_nonneg)
  have "sum_list (softmax xs) = sum_list (map exp xs) / sum_list (map exp xs)"
    unfolding softmax_def by (rule sum_list_divide)
  then show "sum_list (softmax xs) = 1" using pos by simp
qed

lemma entropy_alt:
  assumes "xs \<noteq> []"
  shows "entropy_from_logits xs = sum_list (map (\<lambda>p. - p * ln p) (softmax xs))"
proof -
  let ?Z = "sum_list (map exp xs)"
  have Z: "0 < ?Z" using softmax_sum assms by blast
  have p: "- p * ln p = p * ln ?Z - p * x" if "p = exp x / ?Z" for p x
  proof -
    have "ln p = x - ln ?Z" using Z unfolding that by (simp add: ln_div)
    then show ?thesis by (simp only:) (simp add: algebra_simps)
  qed
  have "sum_list (map (\<lambda>p. - p * ln p) (softmax xs))
      = sum_list (map (\<lambda>x. exp x / ?Z * ln ?Z - exp x / ?Z * x) xs)"
    unfolding softmax_def using p by (simp add: comp_def)
  also have "\<dots> = sum_list (softmax xs) * ln ?Z - sum_list (map (\<lambda>x. exp x / ?Z * x) xs)"
    unfolding softmax_def by (simp only: sum_list_subtractf sum_list_mult_const)
  also have "map (\<lambda>x. exp x / ?Z * x) xs = map2 (*) (softmax xs) xs"
    unfolding softmax_def by (simp add: zip_map1 zip_same_conv_map comp_def)
  finally show ?thesis using softmax_sum(1) [OF assms] by (simp add: entropy_from_logits_def logsumexp_def)
qed

lemma neg_p_ln_p:
  assumes "0 < p" "p \<le> 1" "0 < (n :: real)"
  shows "0 \<le> - p * ln p" "- p * ln p \<le> p * ln n + (1 / n - p)"
proof -
  have "ln p \<le> 0" using assms(1,2) by simp
  then show "0 \<le> - p * ln p" using assms(1) by (simp add: mult_nonneg_nonpos)
  have "ln (1 / (n * p)) \<le> 1 / (n * p) - 1" using assms by (intro ln_le_minus_one) simp
  then have "p * ln (1 / (n * p)) \<le> p * (1 / (n * p) - 1)" using assms by (intro mult_left_mono) auto
  moreover have "p * ln (1 / (n * p)) = - p * ln p - p * ln n"
    using assms by (simp add: ln_div ln_mult algebra_simps)
  moreover have "p * (1 / (n * p) - 1) = 1 / n - p" using assms by (simp add: field_simps)
  ultimately show "- p * ln p \<le> p * ln n + (1 / n - p)" by linarith
qed

text \<open>The entropy computed from the logits of a token (log-sum-exp minus the expected logit) is the
  Shannon entropy of their softmax, and lies between 0 and the logarithm of the vocabulary size.\<close>

theorem entropy_is_shannon:
  assumes "logits \<noteq> []"
  shows "entropy_from_logits logits = sum_list (map (\<lambda>p. - p * ln p) (softmax logits))
    \<and> 0 \<le> entropy_from_logits logits \<and> entropy_from_logits logits \<le> ln (real (length logits))"
proof -
  let ?n = "real (length logits)"
  have n: "0 < ?n" using assms by simp
  have p: "0 < p \<and> p \<le> 1" if "p \<in> set (softmax logits)" for p
  proof -
    have pos: "\<forall>q \<in> set (softmax logits). 0 < q"
      using softmax_sum(2) [OF assms] by (auto simp: softmax_def)
    then have "p \<le> sum_list (softmax logits)" using that by (intro member_le_sum_list) auto
    then show ?thesis using that pos softmax_sum(1) [OF assms] by simp
  qed
  have "sum_list (map (\<lambda>p. - p * ln p) (softmax logits))
      \<le> sum_list (map (\<lambda>p. p * ln ?n + (1 / ?n - p)) (softmax logits))"
    using neg_p_ln_p(2) [OF _ _ n] p by (intro sum_list_mono) blast
  also have "\<dots> = sum_list (softmax logits) * ln ?n + (real (length (softmax logits)) * (1 / ?n)
      - sum_list (softmax logits))"
    by (simp add: sum_list_addf sum_list_subtractf sum_list_mult_const sum_list_triv)
  also have "\<dots> = ln ?n" using softmax_sum(1) [OF assms] n by (simp add: softmax_def)
  finally have "sum_list (map (\<lambda>p. - p * ln p) (softmax logits)) \<le> ln ?n" .
  moreover have "0 \<le> sum_list (map (\<lambda>p. - p * ln p) (softmax logits))"
    using neg_p_ln_p(1) [OF _ _ n] p by (intro sum_list_nonneg) auto
  ultimately show ?thesis by (simp only: entropy_alt [OF assms])
qed

theorem entropy_is_shannon_witness: "entropy_from_logits [1, 5, - 2] \<le> ln 3"
  using entropy_is_shannon [of "[1, 5, - 2]"] by simp

end
