(* ===== verification/PyString.thy ===== *)
theory PyString
  imports Prelude
begin

section \<open>Python strings\<close>

text \<open>
  The string methods the configuration parsers use: \<open>startswith\<close>, \<open>endswith\<close>, \<open>strip\<close>, \<open>split\<close> at
  one character, and \<open>float\<close> on a decimal literal. A string is a list of ASCII characters. Python's
  \<open>float\<close> also reads \<open>inf\<close> and \<open>nan\<close>: those are the value \<open>Inl NonFinite\<close>.
\<close>

definition startswith :: "string \<Rightarrow> string \<Rightarrow> bool" where
  "startswith s p = (take (length p) s = p)"

definition endswith :: "string \<Rightarrow> string \<Rightarrow> bool" where
  "endswith s p = (length p \<le> length s \<and> drop (length s - length p) s = p)"

definition isspace :: "char \<Rightarrow> bool" where
  "isspace c = (let n = (of_char c :: nat) in 9 \<le> n \<and> n \<le> 13 \<or> 28 \<le> n \<and> n \<le> 32)"

definition py_strip :: "string \<Rightarrow> string" where
  "py_strip s = rev (dropWhile isspace (rev (dropWhile isspace s)))"

fun py_split :: "char \<Rightarrow> string \<Rightarrow> string list" where
  "py_split sep [] = [[]]"
| "py_split sep (c # cs) =
     (if c = sep then [] # py_split sep cs
      else case py_split sep cs of [] \<Rightarrow> [[c]] | w # ws \<Rightarrow> (c # w) # ws)"

text \<open>\<open>s.split(sep, 1)\<close> of a string that contains the separator.\<close>

definition split_once :: "char \<Rightarrow> string \<Rightarrow> string \<times> string" where
  "split_once sep s = (takeWhile (\<lambda>c. c \<noteq> sep) s, drop 1 (dropWhile (\<lambda>c. c \<noteq> sep) s))"

definition is_digit :: "char \<Rightarrow> bool" where
  "is_digit c = (48 \<le> (of_char c :: nat) \<and> (of_char c :: nat) \<le> 57)"

fun take_digits :: "bool \<Rightarrow> string \<Rightarrow> nat list \<times> string" where
  "take_digits prev [] = ([], [])"
| "take_digits prev (c # cs) =
     (if is_digit c then (case take_digits True cs of (ds, rest) \<Rightarrow> ((of_char c - 48) # ds, rest))
      else if prev \<and> c = CHR ''_'' \<and> cs \<noteq> [] \<and> is_digit (hd cs) then take_digits False cs
      else ([], c # cs))"

definition digits_value :: "nat list \<Rightarrow> nat" where
  "digits_value ds = foldl (\<lambda>a d. 10 * a + d) 0 ds"

definition take_sign :: "string \<Rightarrow> bool \<times> string" where
  "take_sign s = (case s of
      c # cs \<Rightarrow> if c = CHR ''-'' then (True, cs) else if c = CHR ''+'' then (False, cs) else (False, s)
    | [] \<Rightarrow> (False, s))"

definition parse_exponent :: "string \<Rightarrow> int result" where
  "parse_exponent s = (case s of
      [] \<Rightarrow> Inr 0
    | c # cs \<Rightarrow> if c \<noteq> CHR ''e'' \<and> c \<noteq> CHR ''E'' then Inl ValueError
        else (case take_sign cs of (neg, rest) \<Rightarrow> (case take_digits False rest of (ds, rest') \<Rightarrow>
          if ds = [] \<or> rest' \<noteq> [] then Inl ValueError
          else Inr (if neg then - int (digits_value ds) else int (digits_value ds)))))"

definition to_lower :: "string \<Rightarrow> string" where
  "to_lower = map (\<lambda>c. let n = (of_char c :: nat) in if 65 \<le> n \<and> n \<le> 90 then char_of (n + 32) else c)"

definition scale10 :: "real \<Rightarrow> int \<Rightarrow> real" where
  "scale10 x e = (if 0 \<le> e then x * 10 ^ nat e else x / 10 ^ nat (- e))"

definition py_float :: "string \<Rightarrow> real result" where
  "py_float s = (case take_sign (py_strip s) of (neg, t) \<Rightarrow>
     if to_lower t \<in> {''inf'', ''infinity'', ''nan''} then Inl NonFinite
     else case take_digits False t of (ip, r) \<Rightarrow>
       (case (case r of c # cs \<Rightarrow> if c = CHR ''.'' then take_digits False cs else ([], r) | [] \<Rightarrow> ([], r)) of
          (fp, r') \<Rightarrow>
            if ip = [] \<and> fp = [] then Inl ValueError
            else rbind (parse_exponent r') (\<lambda>e.
              let v = scale10 (real (digits_value (ip @ fp)) / 10 ^ length fp) e
              in Inr (if neg then - v else v))))"

text \<open>\<open>int(s)\<close> of a decimal literal.\<close>

definition py_int :: "string \<Rightarrow> int result" where
  "py_int s = (case take_sign (py_strip s) of (neg, t) \<Rightarrow> (case take_digits False t of (ds, rest) \<Rightarrow>
     if ds = [] \<or> rest \<noteq> [] then Inl ValueError
     else Inr (if neg then - int (digits_value ds) else int (digits_value ds))))"

subsection \<open>Lemmas\<close>

lemma py_split_no_sep: "\<forall>w \<in> set (py_split sep s). sep \<notin> set w"
  by (induction s) (auto split: list.splits)

lemma py_split_not_Nil [simp]: "py_split sep s \<noteq> []"
  by (induction s) (auto split: list.splits)

fun py_join :: "char \<Rightarrow> string list \<Rightarrow> string" where
  "py_join sep [] = []"
| "py_join sep [w] = w"
| "py_join sep (w # ws) = w @ sep # py_join sep ws"

lemma py_join_Cons: "ws \<noteq> [] \<Longrightarrow> py_join sep (w # ws) = w @ sep # py_join sep ws"
  by (cases ws) auto

lemma py_join_split: "py_join sep (py_split sep s) = s"
proof (induction s)
  case (Cons c cs)
  obtain w ws where s: "py_split sep cs = w # ws" by (meson list.exhaust py_split_not_Nil)
  then show ?case using Cons by (cases ws) auto
qed simp

lemma py_split_word: "sep \<notin> set w \<Longrightarrow> py_split sep w = [w]"
  by (induction w) auto

lemma py_split_append: "sep \<notin> set w \<Longrightarrow> py_split sep (w @ sep # s) = w # py_split sep s"
  by (induction w) auto

text \<open>\<open>str(n)\<close> of a natural number.\<close>

fun nat_string :: "nat \<Rightarrow> string" where
  "nat_string n = (if n < 10 then [char_of (48 + n)] else nat_string (n div 10) @ [char_of (48 + n mod 10)])"

declare nat_string.simps [simp del]

subsection \<open>Substrings\<close>

text \<open>\<open>p in s\<close>, \<open>s.split(sep)\<close> and \<open>s.replace(old, new)\<close> for non-empty separators, \<open>sep.join(ws)\<close>
  and \<open>s.rfind(p)\<close>, where not found is \<open>None\<close> instead of -1.\<close>

fun contains :: "string \<Rightarrow> string \<Rightarrow> bool" where
  "contains p [] = (p = [])"
| "contains p (c # cs) = (startswith (c # cs) p \<or> contains p cs)"

function split_str :: "string \<Rightarrow> string \<Rightarrow> string list" where
  "split_str sep s =
     (if sep \<noteq> [] \<and> startswith s sep then [] # split_str sep (drop (length sep) s)
      else case s of [] \<Rightarrow> [[]] | c # cs \<Rightarrow> (case split_str sep cs of [] \<Rightarrow> [[c]] | w # ws \<Rightarrow> (c # w) # ws))"
  by pat_completeness auto

termination
  by (relation "measure (\<lambda>(sep, s). length s)") (auto simp: startswith_def intro!: diff_less)

declare split_str.simps [simp del]

fun join_str :: "string \<Rightarrow> string list \<Rightarrow> string" where
  "join_str sep [] = []"
| "join_str sep [w] = w"
| "join_str sep (w # ws) = w @ sep @ join_str sep ws"

definition py_replace :: "string \<Rightarrow> string \<Rightarrow> string \<Rightarrow> string" where
  "py_replace old new s = join_str new (split_str old s)"

definition rfind :: "string \<Rightarrow> string \<Rightarrow> nat option" where
  "rfind p s = find (\<lambda>i. startswith (drop i s) p) (rev [0..<Suc (length s)])"

lemma split_str_not_Nil [simp]: "split_str sep s \<noteq> []"
  by (induction sep s rule: split_str.induct, subst split_str.simps) (auto split: list.splits)

lemma startswith_append [simp]: "startswith (p @ s) p"
  by (simp add: startswith_def)

lemma startswith_iff: "startswith s p \<longleftrightarrow> (\<exists>t. s = p @ t)"
  by (metis append_take_drop_id startswith_append startswith_def)

lemma contains_iff: "contains p s \<longleftrightarrow> (\<exists>a b. s = a @ p @ b)"
proof (induction s)
  case (Cons c cs)
  have "(\<exists>a b. c # cs = a @ p @ b) \<longleftrightarrow> (\<exists>b. c # cs = p @ b) \<or> (\<exists>a b. cs = a @ p @ b)"
    by (metis append_Cons append_Nil list.exhaust list.inject)
  then show ?case using Cons by (simp add: startswith_iff)
qed simp

lemma join_str_Cons: "ws \<noteq> [] \<Longrightarrow> join_str sep (w # ws) = w @ sep @ join_str sep ws"
  by (cases ws) auto

lemma join_split_str: "join_str sep (split_str sep s) = s"
proof (induction sep s rule: split_str.induct)
  case (1 sep s)
  show ?case
  proof (cases "sep \<noteq> [] \<and> startswith s sep")
    case True
    then have "split_str sep s = [] # split_str sep (drop (length sep) s)" by (subst split_str.simps) simp
    then show ?thesis using True 1(1) by (auto simp: join_str_Cons startswith_iff)
  next
    case False
    show ?thesis
    proof (cases s)
      case Nil
      then show ?thesis using False by (subst split_str.simps) auto
    next
      case (Cons c cs)
      obtain w ws where w: "split_str sep cs = w # ws" by (meson list.exhaust split_str_not_Nil)
      then have "split_str sep s = (c # w) # ws" using False Cons by (subst split_str.simps) auto
      moreover have "join_str sep (w # ws) = cs" using 1(2) [OF False Cons] w by simp
      ultimately show ?thesis using Cons by (cases ws) auto
    qed
  qed
qed

lemma split_str_absent: "\<not> contains sep s \<Longrightarrow> split_str sep s = [s]"
proof (induction s)
  case Nil
  then show ?case by (subst split_str.simps) (simp add: startswith_def)
next
  case (Cons c cs)
  then show ?case by (subst split_str.simps) auto
qed

lemma py_replace_absent: "\<not> contains old s \<Longrightarrow> py_replace old new s = s"
  by (simp add: py_replace_def split_str_absent)

lemma py_replace_same [simp]: "py_replace p p s = s"
  by (simp add: py_replace_def join_split_str)

lemma rfind_Some:
  assumes "rfind p s = Some i"
  shows "i \<le> length s" "startswith (drop i s) p" "\<forall>j. i < j \<longrightarrow> j \<le> length s \<longrightarrow> \<not> startswith (drop j s) p"
proof -
  obtain k where k: "k < Suc (length s)" "startswith (drop (rev [0..<Suc (length s)] ! k) s) p"
    "i = rev [0..<Suc (length s)] ! k" "\<forall>j<k. \<not> startswith (drop (rev [0..<Suc (length s)] ! j) s) p"
    using assms by (auto simp: rfind_def find_Some_iff simp del: upt_Suc)
  have r: "rev [0..<Suc (length s)] ! j = length s - j" if "j < Suc (length s)" for j
    using that by (simp add: rev_nth del: upt_Suc)
  show "i \<le> length s" using k r by simp
  show "startswith (drop i s) p" using k(2,3) by simp
  have "\<not> startswith (drop j s) p" if "i < j" "j \<le> length s" for j
  proof -
    have "length s - j < k" using that k(1,3) r [of k] by linarith
    then show ?thesis using k(4) r [of "length s - j"] that k(1) by force
  qed
  then show "\<forall>j. i < j \<longrightarrow> j \<le> length s \<longrightarrow> \<not> startswith (drop j s) p" by blast
qed

lemma rfind_None: "rfind p s = None \<longleftrightarrow> \<not> contains p s"
proof -
  have "rfind p s = None \<longleftrightarrow> (\<forall>i \<le> length s. \<not> startswith (drop i s) p)"
    by (auto simp: rfind_def find_None_iff less_Suc_eq_le simp del: upt_Suc)
  also have "\<dots> \<longleftrightarrow> \<not> contains p s"
    unfolding contains_iff startswith_iff
    by (metis append_eq_conv_conj append_take_drop_id le_add1 length_append)
  finally show ?thesis .
qed

subsection \<open>Decimal numerals\<close>

lemma nat_string_digits: "list_all is_digit (nat_string n)"
proof (induction n rule: nat_string.induct)
  case (1 n)
  have "is_digit (char_of (48 + k))" if "k < 10" for k :: nat
    using that by (simp add: is_digit_def of_char_of)
  then show ?case using 1 by (subst nat_string.simps) (auto simp: list_all_append)
qed

lemma nat_string_value: "digits_value (map (\<lambda>c. of_char c - 48) (nat_string n)) = n"
proof (induction n rule: nat_string.induct)
  case (1 n)
  have "(of_char (char_of (48 + k :: nat) :: char) :: nat) - 48 = k" if "k < 10" for k
    using that by (simp add: of_char_of)
  then show ?case using 1 by (subst nat_string.simps) (auto simp: digits_value_def)
qed

lemma nat_string_inj [simp]: "nat_string m = nat_string n \<longleftrightarrow> m = n"
  by (metis nat_string_value)

lemma nat_string_not_Nil [simp]: "nat_string n \<noteq> []"
  by (subst nat_string.simps) simp

lemma nat_string_set: "c \<in> set (nat_string n) \<Longrightarrow> is_digit c"
  using nat_string_digits [of n] by (simp add: list_all_iff)

lemma take_digits_all: "list_all is_digit s \<Longrightarrow> take_digits b s = (map (\<lambda>c. of_char c - 48) s, [])"
  by (induction s arbitrary: b) auto

lemma digit_not_space: "is_digit c \<Longrightarrow> \<not> isspace c \<and> c \<noteq> CHR ''-'' \<and> c \<noteq> CHR ''+''"
  by (auto simp: is_digit_def isspace_def)

text \<open>\<open>int(str(n)) = n\<close>.\<close>

lemma py_int_nat_string [simp]: "py_int (nat_string n) = Inr (int n)"
proof -
  obtain c cs where s: "nat_string n = c # cs" by (cases "nat_string n") auto
  have d: "is_digit x" if "x \<in> set (nat_string n)" for x using nat_string_set that by blast
  have dw: "xs \<noteq> [] \<Longrightarrow> \<not> isspace (hd xs) \<Longrightarrow> dropWhile isspace xs = xs" for xs by (cases xs) auto
  have "\<not> isspace (hd (nat_string n))" "\<not> isspace (hd (rev (nat_string n)))"
    using d [of "hd (nat_string n)"] d [of "last (nat_string n)"] by (auto simp: digit_not_space hd_rev)
  then have "py_strip (nat_string n) = nat_string n"
    by (simp add: py_strip_def dw)
  moreover have "take_sign (nat_string n) = (False, nat_string n)"
    using d [of c] s by (auto simp: take_sign_def dest: digit_not_space)
  ultimately show ?thesis
    using nat_string_digits [of n] nat_string_value [of n] by (simp add: py_int_def take_digits_all)
qed

end
