(* ===== verification/RolloutCorr.thy ===== *)
theory RolloutCorr
  imports PolicyLoss PyString
begin

section \<open>Rollout correction (\<open>verl/trainer/ppo/rollout_corr_helper.py\<close>)\<close>

text \<open>
  Correction of the mismatch between the policy that generated the data and the one being trained:
  truncated importance weights, hard rejection of tokens or sequences by divergence thresholds, the
  off-policy metrics, and the bypass mode that uses the rollout log-probabilities as the old ones.
  Metrics are dictionaries from names to reals. The reduction over processes that torch.distributed
  performs is a parameter, \<open>None\<close> when no process group exists.
\<close>

definition SAFETY_BOUND :: real where
  "SAFETY_BOUND = 20"

definition SUPPORTED_ROLLOUT_RS_OPTIONS :: "string list" where
  "SUPPORTED_ROLLOUT_RS_OPTIONS =
     [''token_k1'', ''token_k2'', ''token_k3'', ''seq_sum_k1'', ''seq_sum_k2'', ''seq_sum_k3'',
      ''seq_mean_k1'', ''seq_mean_k2'', ''seq_mean_k3'', ''seq_max_k2'', ''seq_max_k3'']"

definition TOKEN_LEVEL_ROLLOUT_RS_OPTIONS :: "string list" where
  "TOKEN_LEVEL_ROLLOUT_RS_OPTIONS = [''token_k1'', ''token_k2'', ''token_k3'']"

definition safe :: "real \<Rightarrow> real" where
  "safe x = clamp (- SAFETY_BOUND) SAFETY_BOUND x"

subsection \<open>Thresholds\<close>

text \<open>A raw specification is a string, or the \<open>str\<close> of a number, which \<open>float\<close> reads back.\<close>

record rs_threshold =
  th_lower :: "real option"
  th_upper :: real

definition raw_specs_of :: "threshold_spec \<Rightarrow> threshold_spec list" where
  "raw_specs_of spec = (case spec of
      SpecNum x \<Rightarrow> [SpecNum x]
    | SpecStr s \<Rightarrow> map SpecStr (filter (\<lambda>p. p \<noteq> []) (map py_strip (py_split (CHR '','') s))))"

definition spec_float :: "threshold_spec \<Rightarrow> real result" where
  "spec_float spec = (case spec of SpecNum x \<Rightarrow> Inr x | SpecStr s \<Rightarrow> py_float s)"

definition spec_has_underscore :: "threshold_spec \<Rightarrow> bool" where
  "spec_has_underscore spec = (case spec of SpecNum _ \<Rightarrow> False | SpecStr s \<Rightarrow> CHR ''_'' \<in> set s)"

definition k1_bounds :: "threshold_spec \<Rightarrow> (real \<times> real) result" where
  "k1_bounds spec =
     (case spec of
        SpecStr s \<Rightarrow>
          if CHR ''_'' \<in> set s then
            (case split_once (CHR ''_'') s of (lower_str, upper_str) \<Rightarrow>
              rbind (py_float lower_str) (\<lambda>lower. rbind (py_float upper_str) (\<lambda>upper. Inr (lower, upper))))
          else rbind (py_float s) (\<lambda>upper. if upper = 0 then Inl ZeroDivisionError else Inr (1 / upper, upper))
      | SpecNum upper \<Rightarrow> if upper = 0 then Inl ZeroDivisionError else Inr (1 / upper, upper))"

definition parse_option_threshold :: "string \<Rightarrow> threshold_spec \<Rightarrow> rs_threshold result" where
  "parse_option_threshold option spec =
     (if endswith option ''k1'' then
        rbind (k1_bounds spec) (\<lambda>(lower, upper).
        if lower \<le> 0 \<or> upper \<le> 0 then Inl ValueError
        else Inr \<lparr>th_lower = Some lower, th_upper = upper\<rparr>)
      else if spec_has_underscore spec then Inl ValueError
      else rbind (spec_float spec) (\<lambda>upper.
        if upper \<le> 0 then Inl ValueError else Inr \<lparr>th_lower = None, th_upper = upper\<rparr>))"

definition parse_rollout_rs_thresholds ::
  "string list \<Rightarrow> threshold_spec option \<Rightarrow> (string, rs_threshold) dict result" where
  "parse_rollout_rs_thresholds options threshold_spec =
     (case threshold_spec of
        None \<Rightarrow> Inl ValueError
      | Some spec \<Rightarrow>
          let raw_specs = raw_specs_of spec
          in if raw_specs = [] then Inl ValueError
             else if length raw_specs \<noteq> 1 \<and> length raw_specs \<noteq> length options then Inl ValueError
             else let raw_specs' = (if length raw_specs = 1 \<and> length options > 1
                    then replicate (length options) (hd raw_specs) else raw_specs)
                  in rfold (\<lambda>(option, spec) thresholds.
                       rbind (parse_option_threshold option spec) (\<lambda>th.
                       Inr (AList.update option th thresholds))) (zip options raw_specs') [])"

subsection \<open>Statistics\<close>

definition token_k1 :: "real \<Rightarrow> real" where
  "token_k1 log_ratio = - safe log_ratio"

definition token_k2 :: "real \<Rightarrow> real" where
  "token_k2 log_ratio = 1 / 2 * (safe log_ratio)\<^sup>2"

definition token_k3 :: "real \<Rightarrow> real" where
  "token_k3 log_ratio = exp (safe log_ratio) - 1 - safe log_ratio"

definition token_stat :: "string \<Rightarrow> real \<Rightarrow> real" where
  "token_stat option log_ratio =
     (if endswith option ''k1'' then token_k1 log_ratio
      else if endswith option ''k2'' then token_k2 log_ratio
      else token_k3 log_ratio)"

definition row_masked_sum :: "mat \<Rightarrow> mat \<Rightarrow> vec" where
  "row_masked_sum vals msk = map2 masked_sum_vec vals msk"

definition row_masked_mean :: "mat \<Rightarrow> mat \<Rightarrow> vec" where
  "row_masked_mean vals msk = map2 (\<lambda>s n. s / (n + 1 / 10 ^ 8)) (row_masked_sum vals msk) (row_sums msk)"

definition row_masked_max :: "vec \<Rightarrow> vec \<Rightarrow> real result" where
  "row_masked_max vals msk =
     (if vals = [] then Inl IndexError
      else let kept = masked_select vals msk in Inr (if kept = [] then 0 else vmax kept))"

definition within_threshold :: "string \<Rightarrow> rs_threshold \<Rightarrow> real \<Rightarrow> bool" where
  "within_threshold option th x =
     (if endswith option ''k1''
      then ln (get_or 1 (th_lower th)) \<le> x \<and> x \<le> ln (th_upper th) else x \<le> th_upper th)"

text \<open>The statistic of every token, and for the sequence-level options the statistic of every row (which
  every token of the row then carries).\<close>

definition rs_statistic :: "string \<Rightarrow> mat \<Rightarrow> mat \<Rightarrow> (mat \<times> vec option) result" where
  "rs_statistic option log_ratio msk =
     (let stat = mmap (token_stat option) log_ratio
      in if option \<in> set TOKEN_LEVEL_ROLLOUT_RS_OPTIONS then Inr (stat, None)
         else if startswith option ''seq_sum'' then
           (let s = row_masked_sum stat msk in Inr (bcast s msk, Some s))
         else if startswith option ''seq_mean'' then
           (let s = row_masked_mean stat msk in Inr (bcast s msk, Some s))
         else if startswith option ''seq_max'' then
           rbind (rmap (\<lambda>(v, m). row_masked_max v m) (zip stat msk)) (\<lambda>s. Inr (bcast s msk, Some s))
         else Inl ValueError)"

definition rs_keep :: "string \<Rightarrow> rs_threshold \<Rightarrow> mat \<Rightarrow> mat" where
  "rs_keep option th stat = mmap (\<lambda>x. indicator01 (within_threshold option th x)) stat"

subsection \<open>Metrics of one rejection option\<close>

definition fraction_of :: "(real \<Rightarrow> bool) \<Rightarrow> vec \<Rightarrow> real" where
  "fraction_of P xs = vmean (map (\<lambda>x. indicator01 (P x)) xs)"

definition mask_any :: "mat \<Rightarrow> bool" where
  "mask_any msk = (\<exists>row \<in> set msk. \<exists>x \<in> set row. x \<noteq> 0)"

definition masked_entries :: "mat \<Rightarrow> mat \<Rightarrow> vec" where
  "masked_entries vals msk = concat (map2 masked_select vals msk)"

definition seq_valid :: "mat \<Rightarrow> bool list" where
  "seq_valid msk = map (\<lambda>s. s > 0) (row_sums msk)"

definition valid_only :: "vec \<Rightarrow> bool list \<Rightarrow> vec" where
  "valid_only xs valid = map fst (filter snd (zip xs valid))"

definition masked_std :: "mat \<Rightarrow> mat \<Rightarrow> real \<Rightarrow> real \<Rightarrow> real" where
  "masked_std vals msk lo hi =
     (if msum msk > 1 then
        (let clamped = mmap (clamp lo hi) vals;
             mean_clamped = masked_mean clamped msk;
             var = masked_mean (mmap (\<lambda>x. x\<^sup>2) clamped) msk - mean_clamped\<^sup>2
         in sqrt (max var 0))
      else 0)"

definition rs_seq_summary :: "string \<Rightarrow> vec \<Rightarrow> real \<Rightarrow> real \<Rightarrow> bool \<Rightarrow> metrics" where
  "rs_seq_summary pre seq_values_valid thr thr_lower apply_lower =
     (if seq_values_valid \<noteq> [] then
        [(pre @ ''_seq_mean'', vmean seq_values_valid),
         (pre @ ''_seq_std'', if length seq_values_valid > 1 then vstd seq_values_valid else 0),
         (pre @ ''_seq_max'', vmax seq_values_valid),
         (pre @ ''_seq_min'', vmin seq_values_valid),
         (pre @ ''_seq_max_deviation'', vmax (map abs seq_values_valid)),
         (pre @ ''_seq_fraction_high'', fraction_of (\<lambda>x. x > thr) seq_values_valid)]
        @ (if apply_lower then [(pre @ ''_seq_fraction_low'', fraction_of (\<lambda>x. x < thr_lower) seq_values_valid)]
           else [])
      else map (\<lambda>m. (pre @ m, 0)) [''_seq_mean'', ''_seq_std'', ''_seq_max'', ''_seq_min'',
             ''_seq_max_deviation'', ''_seq_fraction_high'', ''_seq_fraction_low''])"

definition compute_rs_metrics ::
  "string \<Rightarrow> mat \<Rightarrow> mat \<Rightarrow> bool list \<Rightarrow> string \<Rightarrow> vec option \<Rightarrow> real \<Rightarrow> real \<Rightarrow> bool \<Rightarrow> metrics result" where
  "compute_rs_metrics option_name rs_stat response_mask seq_valid_mask level per_sequence_values
     thr thr_lower apply_lower =
     (if \<not> mask_any response_mask then Inl ValueError
      else let pre = ''rollout_rs_'' @ option_name;
               seq_values = (case per_sequence_values of Some s \<Rightarrow> s | None \<Rightarrow> row_masked_mean rs_stat response_mask);
               seq_values_valid = valid_only seq_values seq_valid_mask;
               by_seq = (level = ''sequence'' \<and> seq_values_valid \<noteq> []);
               entries = masked_entries rs_stat response_mask
           in Inr
             ([(pre @ ''_mean'', masked_mean rs_stat response_mask),
               (pre @ ''_max'', if by_seq then vmax seq_values_valid else vmax entries),
               (pre @ ''_min'', if by_seq then vmin seq_values_valid else vmin entries),
               (pre @ ''_fraction_high'',
                  if by_seq then fraction_of (\<lambda>x. x > thr) seq_values_valid
                  else masked_mean (mmap (\<lambda>x. indicator01 (x > thr)) rs_stat) response_mask),
               (pre @ ''_fraction_low'',
                  if \<not> apply_lower then 0
                  else if by_seq then fraction_of (\<lambda>x. x < thr_lower) seq_values_valid
                  else masked_mean (mmap (\<lambda>x. indicator01 (x < thr_lower)) rs_stat) response_mask),
               (pre @ ''_std'', masked_std rs_stat response_mask (if apply_lower then thr_lower else 0) thr)]
              @ rs_seq_summary pre seq_values_valid thr thr_lower apply_lower))"

subsection \<open>The rejection mask\<close>

definition normalize_options :: "string \<Rightarrow> string list result" where
  "normalize_options rollout_rs =
     (let option_modes = filter (\<lambda>p. p \<noteq> []) (map py_strip (py_split (CHR '','') rollout_rs))
      in if option_modes = [] then Inl ValueError
         else rfold (\<lambda>opt acc. if opt \<notin> set SUPPORTED_ROLLOUT_RS_OPTIONS then Inl ValueError
                       else Inr (if opt \<in> set acc then acc else acc @ [opt])) option_modes [])"

definition row_rejected :: "vec \<Rightarrow> vec \<Rightarrow> bool" where
  "row_rejected keep msk = (\<exists>(k, m) \<in> set (zip keep msk). k = 0 \<and> m \<noteq> 0)"

definition seq_masked_fraction :: "mat \<Rightarrow> mat \<Rightarrow> real" where
  "seq_masked_fraction keep msk =
     (let valid = map (\<lambda>s. indicator01 (s > 0)) (row_sums msk)
      in if sum_list valid > 0
         then sum_list (map2 (\<lambda>(k, m) v. indicator01 (row_rejected k m) * v) (zip keep msk) valid) / sum_list valid
         else 0)"

definition rs_apply_option ::
  "mat \<Rightarrow> mat \<Rightarrow> (string, rs_threshold) dict \<Rightarrow> string \<Rightarrow> mat \<times> metrics \<Rightarrow> (mat \<times> metrics) result" where
  "rs_apply_option log_ratio response_mask threshold_specs option_name acc =
     (case acc of (combined_mask, mets) \<Rightarrow>
     rbind (dget threshold_specs option_name) (\<lambda>th.
     let is_k1 = endswith option_name ''k1''
     in if is_k1 \<and> th_lower th = None then Inl ValueError
        else rbind (rs_statistic option_name log_ratio response_mask) (\<lambda>(stat, seq_stat).
          let keep = rs_keep option_name th stat;
              level = (if option_name \<in> set TOKEN_LEVEL_ROLLOUT_RS_OPTIONS then ''token'' else ''sequence'')
          in rbind (compute_rs_metrics option_name stat response_mask (seq_valid response_mask) level seq_stat
                 (if is_k1 then ln (th_upper th) else th_upper th)
                 (if is_k1 then ln (get_or 1 (th_lower th)) else 0) is_k1) (\<lambda>option_metrics.
             Inr (mmap2 (*) combined_mask keep,
               dict_update (dict_update mets option_metrics)
                 [(''rollout_rs_'' @ option_name @ ''_masked_fraction'',
                     masked_mean (mmap (\<lambda>k. 1 - k) keep) response_mask),
                  (''rollout_rs_'' @ option_name @ ''_seq_masked_fraction'',
                     seq_masked_fraction keep response_mask)])))))"

definition compute_rollout_rejection_mask ::
  "mat \<Rightarrow> mat \<Rightarrow> string option \<Rightarrow> threshold_spec option \<Rightarrow> (mat \<times> metrics) result" where
  "compute_rollout_rejection_mask log_ratio response_mask rollout_rs rollout_rs_threshold =
     (case rollout_rs of
        None \<Rightarrow> Inl ValueError
      | Some rs \<Rightarrow>
          if rollout_rs_threshold = None then Inl ValueError
          else if log_ratio = [] then Inr (response_mask, [])
          else rbind (normalize_options rs) (\<lambda>options.
            rbind (parse_rollout_rs_thresholds options rollout_rs_threshold) (\<lambda>threshold_specs.
            rbind (rfold (rs_apply_option log_ratio response_mask threshold_specs) options
                (mmap (\<lambda>_. 1) response_mask, [])) (\<lambda>(final_mask, mets).
            let seq_has_masked = map2 (\<lambda>f m. \<exists>(k, x) \<in> set (zip f m). \<not> (k > 1 / 2 \<and> x \<noteq> 0) \<and> x \<noteq> 0)
                   final_mask response_mask
            in Inr (mmap2 (*) response_mask final_mask,
                 dict_update mets
                   [(''rollout_rs_masked_fraction'',
                       masked_mean (mmap (\<lambda>k. 1 - k) final_mask) response_mask),
                    (''rollout_rs_seq_masked_fraction'', vmean (map indicator01 seq_has_masked))])))))"

subsection \<open>Importance weights\<close>

type_synonym all_reduce = "(real \<times> real \<Rightarrow> real \<times> real) option"

definition distributed_masked_mean :: "(real \<times> real \<Rightarrow> real \<times> real) \<Rightarrow> vec \<Rightarrow> vec \<Rightarrow> real result" where
  "distributed_masked_mean reduce local_tensor local_mask =
     (case reduce (sum_list (map2 (*) local_tensor local_mask), sum_list local_mask) of
        (global_sum, global_num) \<Rightarrow> tdiv global_sum global_num)"

definition raw_is_weights :: "mat \<Rightarrow> mat \<Rightarrow> string \<Rightarrow> mat" where
  "raw_is_weights log_ratio response_mask rollout_is =
     (if rollout_is = ''token'' then mmap (\<lambda>x. exp (safe x)) log_ratio
      else bcast (map (\<lambda>s. exp (safe s)) (row_masked_sum log_ratio response_mask)) log_ratio)"

definition is_level_metrics :: "mat \<Rightarrow> mat \<Rightarrow> mat \<Rightarrow> string \<Rightarrow> real \<Rightarrow> metrics" where
  "is_level_metrics weights log_ratio response_mask rollout_is thr =
     (let thr_lower = 1 / thr
      in if rollout_is = ''sequence'' then
           (let totals = row_masked_sum log_ratio response_mask
            in [(''rollout_is_max'', exp (min (vmax totals) SAFETY_BOUND)),
                (''rollout_is_min'', exp (vmin totals)),
                (''rollout_is_mean'', masked_mean weights response_mask),
                (''rollout_is_ratio_fraction_high'', fraction_of (\<lambda>x. x > ln thr) totals),
                (''rollout_is_ratio_fraction_low'', fraction_of (\<lambda>x. x < ln thr_lower) totals)])
         else
           (let entries = masked_entries weights response_mask
            in [(''rollout_is_mean'', masked_mean weights response_mask),
                (''rollout_is_ratio_fraction_high'',
                   masked_mean (mmap (\<lambda>x. indicator01 (x > thr)) weights) response_mask),
                (''rollout_is_ratio_fraction_low'',
                   masked_mean (mmap (\<lambda>x. indicator01 (x < thr_lower)) weights) response_mask),
                (''rollout_is_max'', vmax entries),
                (''rollout_is_min'', vmin entries)]))"

definition is_seq_metrics :: "mat \<Rightarrow> mat \<Rightarrow> real \<Rightarrow> metrics" where
  "is_seq_metrics weights response_mask thr =
     (let seq_mean_weights = row_masked_mean weights response_mask
      in [(''rollout_is_seq_mean'', vmean seq_mean_weights),
          (''rollout_is_seq_std'', if length seq_mean_weights > 1 then vstd seq_mean_weights else 0),
          (''rollout_is_seq_max'', vmax seq_mean_weights),
          (''rollout_is_seq_min'', vmin seq_mean_weights),
          (''rollout_is_seq_max_deviation'', vmax (map (\<lambda>x. \<bar>x - 1\<bar>) seq_mean_weights)),
          (''rollout_is_seq_fraction_high'', fraction_of (\<lambda>x. x > thr) seq_mean_weights),
          (''rollout_is_seq_fraction_low'', fraction_of (\<lambda>x. x < 1 / thr) seq_mean_weights)])"

definition compute_is_metrics :: "mat \<Rightarrow> mat \<Rightarrow> mat \<Rightarrow> string \<Rightarrow> real \<Rightarrow> metrics result" where
  "compute_is_metrics weights log_ratio response_mask rollout_is thr =
     (if \<not> mask_any response_mask then Inl ValueError
      else let thr_lower = 1 / thr;
               weights_for_ess = mmap (clamp thr_lower thr) weights;
               mean_for_ess = masked_mean weights_for_ess response_mask;
               normalized = mmap (\<lambda>w. w / (mean_for_ess + 1 / 10 ^ 8)) weights_for_ess
           in rbind (tdiv 1 (masked_mean (mmap (\<lambda>w. w\<^sup>2) normalized) response_mask)) (\<lambda>ess.
              Inr (is_level_metrics weights log_ratio response_mask rollout_is thr
                @ [(''rollout_is_std'', masked_std weights response_mask thr_lower thr),
                   (''rollout_is_eff_sample_size'', ess)]
                @ is_seq_metrics weights response_mask thr)))"

definition is_weights_mean :: "all_reduce \<Rightarrow> mat \<Rightarrow> mat \<Rightarrow> string \<Rightarrow> real result" where
  "is_weights_mean grp weights response_mask rollout_is =
     (if rollout_is = ''token'' then
        (case grp of
           Some reduce \<Rightarrow> distributed_masked_mean reduce (concat weights) (concat response_mask)
         | None \<Rightarrow> Inr (masked_mean weights response_mask))
      else
        (let seq_weights = row_masked_mean weights response_mask;
             seq_mask = map (\<lambda>s. indicator01 (s > 0)) (row_sums response_mask)
         in case grp of
              Some reduce \<Rightarrow> distributed_masked_mean reduce seq_weights seq_mask
            | None \<Rightarrow> Inr (sum_list (map2 (*) seq_weights seq_mask) / max (sum_list seq_mask) (1 / 10 ^ 8))))"

definition compute_rollout_correction_weights ::
  "all_reduce \<Rightarrow> mat \<Rightarrow> mat \<Rightarrow> string \<Rightarrow> real \<Rightarrow> bool \<Rightarrow> (mat \<times> metrics) result" where
  "compute_rollout_correction_weights grp log_ratio response_mask rollout_is thr batch_normalize =
     (if rollout_is \<notin> {''token'', ''sequence''} then Inl ValueError
      else if thr \<le> 0 then Inl ValueError
      else let weights = mmap2 (*) (raw_is_weights log_ratio response_mask rollout_is) response_mask
           in rbind (compute_is_metrics weights log_ratio response_mask rollout_is thr) (\<lambda>mets.
              let truncated = mmap (\<lambda>w. min w thr) weights
              in if batch_normalize then
                   rbind (is_weights_mean grp truncated response_mask rollout_is) (\<lambda>weights_mean.
                   if weights_mean > 1 / 10 ^ 8 then
                     Inr (mmap (\<lambda>w. w / weights_mean) truncated,
                       dict_update mets [(''rollout_is_batch_norm_factor'', weights_mean)])
                   else Inr (truncated, dict_update mets [(''rollout_is_batch_norm_factor'', 1)]))
                 else Inr (truncated, mets)))"

subsection \<open>Off-policy metrics\<close>

definition compute_offpolicy_metrics :: "mat \<Rightarrow> mat option \<Rightarrow> mat \<Rightarrow> metrics result" where
  "compute_offpolicy_metrics old_log_prob rollout_log_prob response_mask =
     rbind (py_assert (mask_any response_mask)) (\<lambda>_.
     let mean_training = row_masked_mean old_log_prob response_mask;
         base = [(''training_ppl'', vmean (map (\<lambda>m. exp (- m)) mean_training)),
                 (''training_log_ppl'', vmean (map uminus mean_training))]
     in case rollout_log_prob of
          None \<Rightarrow> Inr base
        | Some rollout \<Rightarrow>
            let log_ratio = mmap2 (-) old_log_prob rollout;
                mean_rollout = row_masked_mean rollout response_mask;
                log_ppl_diff = map2 (-) mean_rollout mean_training;
                rho_squared_token = mmap (\<lambda>x. (exp (safe x))\<^sup>2) log_ratio;
                log_ratio_sum = row_masked_sum log_ratio response_mask
            in Inr (base @
              [(''kl'', masked_mean (mmap2 (-) rollout old_log_prob) response_mask),
               (''k3_kl'', masked_mean (mmap (\<lambda>x. exp x - x - 1) log_ratio) response_mask),
               (''rollout_ppl'', vmean (map (\<lambda>m. exp (- m)) mean_rollout)),
               (''rollout_log_ppl'', vmean (map uminus mean_rollout)),
               (''log_ppl_diff'', vmean log_ppl_diff),
               (''log_ppl_abs_diff'', vmean (map abs log_ppl_diff)),
               (''log_ppl_diff_max'', vmax log_ppl_diff),
               (''log_ppl_diff_min'', vmin log_ppl_diff),
               (''ppl_ratio'', vmean (map exp log_ppl_diff)),
               (''chi2_token'', masked_mean rho_squared_token response_mask - 1),
               (''chi2_seq'', vmean (map (\<lambda>s. exp (2 * safe s)) log_ratio_sum) - 1)]))"

definition with_prefix :: "metrics \<Rightarrow> metrics" where
  "with_prefix mets = map (\<lambda>(k, v). (''rollout_corr/'' @ k, v)) mets"

definition compute_rollout_corr_metrics_from_logprobs :: "mat \<Rightarrow> mat \<Rightarrow> mat \<Rightarrow> metrics result" where
  "compute_rollout_corr_metrics_from_logprobs log_prob rollout_log_prob response_mask =
     rbind (compute_offpolicy_metrics log_prob (Some rollout_log_prob) response_mask) (\<lambda>m.
     Inr (with_prefix m))"

subsection \<open>The pipeline\<close>

definition compute_rollout_correction_and_rejection_mask ::
  "all_reduce \<Rightarrow> mat \<Rightarrow> mat \<Rightarrow> mat \<Rightarrow> string option \<Rightarrow> real option \<Rightarrow> bool \<Rightarrow> string option
     \<Rightarrow> threshold_spec option \<Rightarrow> (mat option \<times> mat \<times> metrics) result" where
  "compute_rollout_correction_and_rejection_mask grp old_log_prob rollout_log_prob response_mask
     rollout_is rollout_is_threshold batch_normalize rollout_rs rollout_rs_threshold =
     (if \<not> mask_any response_mask then Inl ValueError
      else if \<not> same_shape old_log_prob rollout_log_prob then Inl ValueError
      else if \<not> same_shape old_log_prob response_mask then Inl ValueError
      else let log_ratio = mmap2 (-) old_log_prob rollout_log_prob
      in rbind (case (rollout_is, rollout_is_threshold) of
             (Some lvl, Some thr) \<Rightarrow>
               rbind (compute_rollout_correction_weights grp log_ratio response_mask lvl thr batch_normalize)
                 (\<lambda>(w, m). Inr (Some w, m))
           | _ \<Rightarrow> Inr (None, [])) (\<lambda>(weights, m1).
         rbind (case rollout_rs of
             None \<Rightarrow> Inr (response_mask, m1)
           | Some rs \<Rightarrow>
               if rollout_rs_threshold = None then Inl ValueError
               else rbind (compute_rollout_rejection_mask log_ratio response_mask (Some rs) rollout_rs_threshold)
                 (\<lambda>(msk, m). Inr (msk, dict_update m1 m))) (\<lambda>(modified_mask, m2).
         rbind (compute_offpolicy_metrics old_log_prob (Some rollout_log_prob) response_mask) (\<lambda>m3.
         Inr (weights, modified_mask, with_prefix (dict_update m2 m3))))))"

text \<open>The tensors of a batch, by name.\<close>

type_synonym tensors = "(string, mat) dict"

definition compute_rollout_correction_and_add_to_batch ::
  "all_reduce \<Rightarrow> tensors \<Rightarrow> rollout_corr_cfg \<Rightarrow> (tensors \<times> metrics) result" where
  "compute_rollout_correction_and_add_to_batch grp batch cfg =
     rbind (dget batch ''old_log_probs'') (\<lambda>old.
     rbind (dget batch ''rollout_log_probs'') (\<lambda>rollout.
     rbind (dget batch ''response_mask'') (\<lambda>msk.
     rbind (compute_rollout_correction_and_rejection_mask grp old rollout msk (rc_rollout_is cfg)
       (rc_rollout_is_threshold cfg) (rc_batch_normalize cfg) (rc_rollout_rs cfg) (rc_rollout_rs_threshold cfg))
       (\<lambda>(weights, modified_mask, mets).
     let batch' = AList.update ''response_mask'' modified_mask batch
     in case weights of
          None \<Rightarrow> Inr (batch', mets)
        | Some w \<Rightarrow>
            if map_of batch' ''rollout_is_weights'' \<in> {None, Some w}
            then Inr (AList.update ''rollout_is_weights'' w batch', mets)
            else Inl AssertionError))))"

definition apply_bypass_mode ::
  "tensors \<Rightarrow> rollout_corr_cfg option \<Rightarrow> policy_loss_cfg \<times> string
     \<Rightarrow> (tensors \<times> policy_loss_cfg \<times> string) result" where
  "apply_bypass_mode batch cfg policy_loss_config =
     (case map_of batch ''rollout_log_probs'' of
        None \<Rightarrow> Inl ValueError
      | Some lp \<Rightarrow> Inr (AList.update ''old_log_probs'' lp batch,
          (fst policy_loss_config)\<lparr>pl_rollout_correction := cfg\<rparr>, ''bypass_mode''))"

subsection \<open>The bypass-mode losses (\<open>verl/trainer/ppo/core_algos.py\<close>)\<close>

definition compute_policy_loss_reinforce ::
  "mat \<Rightarrow> mat \<Rightarrow> mat \<Rightarrow> mat \<Rightarrow> string \<Rightarrow> actor_cfg option \<Rightarrow> mat option \<Rightarrow> (real \<times> metrics) result" where
  "compute_policy_loss_reinforce rollout_log_prob log_prob advantages response_mask loss_agg_mode config
     rollout_is_weights =
     rbind (need_config config) (\<lambda>cfg.
     let pg_losses = (case rollout_is_weights of
           Some w \<Rightarrow> mmap3 (\<lambda>a l w. - a * l * w) advantages log_prob w
         | None \<Rightarrow> mmap2 (\<lambda>a l. - a * l) advantages log_prob)
     in rbind (agg_loss pg_losses response_mask loss_agg_mode (global_batch_info cfg)) (\<lambda>pg_loss.
        let negative_approx_kl = mmap2 (-) log_prob rollout_log_prob
        in Inr (pg_loss, [(''actor/ppo_kl'', masked_mean (mmap uminus negative_approx_kl) response_mask)])))"

definition compute_policy_loss_bypass_mode ::
  "all_reduce \<Rightarrow> mat \<Rightarrow> mat \<Rightarrow> mat \<Rightarrow> mat \<Rightarrow> string \<Rightarrow> actor_cfg option \<Rightarrow> mat option
     \<Rightarrow> (real \<times> metrics) result" where
  "compute_policy_loss_bypass_mode grp old_log_prob log_prob advantages response_mask loss_agg_mode
     config rollout_is_weights =
     rbind (need_config config) (\<lambda>cfg.
     case pl_rollout_correction (policy_loss cfg) of
       None \<Rightarrow> Inl ValueError
     | Some rc \<Rightarrow>
         let rollout_log_prob = old_log_prob
         in rbind (compute_rollout_correction_and_rejection_mask grp log_prob rollout_log_prob response_mask
              (rc_rollout_is rc) (rc_rollout_is_threshold rc) (rc_batch_normalize rc) (rc_rollout_rs rc)
              (rc_rollout_rs_threshold rc)) (\<lambda>(computed_is_weights, effective_mask, rollout_metrics).
            rbind (if rc_loss_type rc = ''reinforce'' then
                compute_policy_loss_reinforce rollout_log_prob log_prob advantages effective_mask
                  loss_agg_mode config computed_is_weights
              else if rc_loss_type rc = ''ppo_clip'' then
                compute_policy_loss_vanilla rollout_log_prob log_prob advantages effective_mask
                  loss_agg_mode config None
              else Inl ValueError) (\<lambda>(pg_loss, pg_metrics).
            Inr (pg_loss, dict_update pg_metrics rollout_metrics))))"

subsection \<open>Shapes of the rejection statistics\<close>

lemma same_shape_nth:
  "same_shape A B \<longleftrightarrow> length A = length B \<and> (\<forall>i < length B. length (A ! i) = length (B ! i))"
  unfolding same_shape_def by (auto simp: list_eq_iff_nth_eq)

lemma mmap2_nth:
  "same_shape A B \<Longrightarrow> i < length B \<Longrightarrow> j < length (B ! i) \<Longrightarrow> mmap2 f A B ! i ! j = f (A ! i ! j) (B ! i ! j)"
  by (simp add: same_shape_nth mmap2_def)

lemma mmap_nth: "i < length A \<Longrightarrow> j < length (A ! i) \<Longrightarrow> mmap f A ! i ! j = f (A ! i ! j)"
  by (simp add: mmap_def)

lemma bcast_nth: "length v = length M \<Longrightarrow> i < length M \<Longrightarrow> j < length (M ! i) \<Longrightarrow> bcast v M ! i ! j = v ! i"
  by (simp add: bcast_def)

lemma bcast_shape: "length v = length M \<Longrightarrow> same_shape (bcast v M) M"
  by (simp add: same_shape_nth bcast_def)

lemma row_masked_lengths [simp]:
  "length (row_masked_sum A M) = min (length A) (length M)"
  "length (row_masked_mean A M) = min (length A) (length M)"
  by (simp_all add: row_masked_sum_def row_masked_mean_def row_sums_def)

lemma length_mmap [simp]: "length (mmap f A) = length A"
  by (simp add: mmap_def)

lemma rs_statistic_shape:
  assumes "rs_statistic opt L M = Inr (stat, s)" "same_shape L M"
  shows "same_shape stat M \<and> (opt \<notin> set TOKEN_LEVEL_ROLLOUT_RS_OPTIONS \<longrightarrow>
     (\<exists>v. s = Some v \<and> length v = length M \<and> stat = bcast v M))"
proof -
  have len: "length L = length M" using assms(2) by (rule same_shape_length)
  show ?thesis
    using assms len
    by (auto simp: rs_statistic_def Let_def res_simps dest!: rmap_length intro!: bcast_shape split: if_splits)
qed

subsection \<open>What a rejection mask keeps\<close>

definition passes :: "(string, rs_threshold) dict \<Rightarrow> mat \<Rightarrow> mat \<Rightarrow> string \<Rightarrow> nat \<Rightarrow> nat \<Rightarrow> bool" where
  "passes ths L M opt i j =
     (case (dget ths opt, rs_statistic opt L M) of
        (Inr th, Inr (stat, s)) \<Rightarrow> within_threshold opt th (stat ! i ! j)
      | _ \<Rightarrow> False)"

lemma rs_apply_option_keeps:
  assumes "rs_apply_option L M ths opt (C, m) = Inr (C', m')" "same_shape L M" "same_shape C M"
  shows "same_shape C' M \<and> (\<forall>i j. i < length M \<longrightarrow> j < length (M ! i) \<longrightarrow>
     C' ! i ! j = C ! i ! j * indicator01 (passes ths L M opt i j))"
proof -
  obtain th stat s where th: "dget ths opt = Inr th" and st: "rs_statistic opt L M = Inr (stat, s)"
    and C': "C' = mmap2 (*) C (rs_keep opt th stat)"
    using assms(1) by (auto simp: rs_apply_option_def Let_def rbind_Inr_iff simp del: dget_Inr split: if_splits)
  have shp: "same_shape stat M" using rs_statistic_shape [OF st assms(2)] by simp
  then have keep: "same_shape (rs_keep opt th stat) M" by (simp add: rs_keep_def)
  then have CK: "same_shape C (rs_keep opt th stat)" using assms(3) by (blast intro: same_shape_trans same_shape_sym)
  have "C' ! i ! j = C ! i ! j * indicator01 (passes ths L M opt i j)" if "i < length M" "j < length (M ! i)" for i j
  proof -
    have ij: "i < length stat" "j < length (stat ! i)" using that shp by (auto simp: same_shape_nth)
    then have "rs_keep opt th stat ! i ! j = indicator01 (passes ths L M opt i j)"
      unfolding rs_keep_def by (simp add: mmap_nth passes_def th st del: dget_Inr)
    moreover have "i < length (rs_keep opt th stat)" "j < length (rs_keep opt th stat ! i)"
      using that keep by (auto simp: same_shape_nth)
    ultimately show ?thesis unfolding C' using mmap2_nth [OF CK] by simp
  qed
  then show ?thesis using C' assms(3) keep by (auto intro: mmap2_shape)
qed

lemma rs_apply_all:
  assumes "rfold (rs_apply_option L M ths) opts (C, m) = Inr (C', m')" "same_shape L M" "same_shape C M"
  shows "same_shape C' M \<and> (\<forall>i j. i < length M \<longrightarrow> j < length (M ! i) \<longrightarrow>
     C' ! i ! j = C ! i ! j * indicator01 (\<forall>opt \<in> set opts. passes ths L M opt i j))"
  using assms
proof (induction opts arbitrary: C m)
  case (Cons opt opts)
  obtain C1 m1 where one: "rs_apply_option L M ths opt (C, m) = Inr (C1, m1)"
    and rest: "rfold (rs_apply_option L M ths) opts (C1, m1) = Inr (C', m')"
    using Cons.prems(1) by (auto simp: rbind_Inr_iff)
  note k = rs_apply_option_keeps [OF one Cons.prems(2,3)]
  show ?case
    using Cons.IH [OF rest Cons.prems(2)] k by (auto simp: indicator01_def)
qed (simp add: indicator01_def)

text \<open>C18: what hard rejection keeps. The returned mask is the response mask with exactly those tokens
  zeroed that fail at least one of the listed options; a sequence-level option accepts or rejects all
  tokens of a row together. Nothing outside the response mask is ever added.\<close>

theorem rejection_mask_keeps_passing_tokens:
  assumes "compute_rollout_rejection_mask L M (Some rs) (Some spec) = Inr (M', mets)"
    and shape: "same_shape L M" and "L \<noteq> []"
  shows "\<exists>opts ths. normalize_options rs = Inr opts \<and> parse_rollout_rs_thresholds opts (Some spec) = Inr ths
    \<and> same_shape M' M
    \<and> (\<forall>i j. i < length M \<longrightarrow> j < length (M ! i) \<longrightarrow>
         M' ! i ! j = (if \<forall>opt \<in> set opts. passes ths L M opt i j then M ! i ! j else 0))
    \<and> (\<forall>opt \<in> set opts. opt \<notin> set TOKEN_LEVEL_ROLLOUT_RS_OPTIONS \<longrightarrow>
         (\<forall>i j j'. i < length M \<longrightarrow> j < length (M ! i) \<longrightarrow> j' < length (M ! i) \<longrightarrow>
            passes ths L M opt i j = passes ths L M opt i j'))"
proof -
  obtain opts ths C m where o: "normalize_options rs = Inr opts"
    and t: "parse_rollout_rs_thresholds opts (Some spec) = Inr ths"
    and f: "rfold (rs_apply_option L M ths) opts (mmap (\<lambda>_. 1) M, []) = Inr (C, m)"
    and M': "M' = mmap2 (*) M C"
    using assms(1,3) by (auto simp: compute_rollout_rejection_mask_def Let_def rbind_Inr_iff)
  have one: "same_shape (mmap (\<lambda>_. 1) M) M" by (simp, simp add: same_shape_def)
  note k = rs_apply_all [OF f shape one]
  have MC: "same_shape M C" using k by (simp add: same_shape_sym)
  have a: "M' ! i ! j = (if \<forall>opt \<in> set opts. passes ths L M opt i j then M ! i ! j else 0)"
    if "i < length M" "j < length (M ! i)" for i j
  proof -
    have "i < length C" "j < length (C ! i)" using that MC by (auto simp: same_shape_nth)
    then show ?thesis
      unfolding M' using mmap2_nth [OF MC] k that by (simp add: mmap_nth indicator01_def)
  qed
  have b: "passes ths L M opt i j = passes ths L M opt i j'"
    if tok: "opt \<notin> set TOKEN_LEVEL_ROLLOUT_RS_OPTIONS" and "i < length M" "j < length (M ! i)" "j' < length (M ! i)"
    for opt i j j'
  proof (cases "rs_statistic opt L M")
    case (Inr r)
    obtain stat s where r: "r = (stat, s)" by (cases r)
    then obtain v where "length v = length M" "stat = bcast v M"
      using rs_statistic_shape [of opt L M stat s] Inr shape tok by blast
    then show ?thesis using that Inr r tok by (cases "dget ths opt") (simp_all add: passes_def bcast_nth del: dget_Inr)
  qed (simp add: passes_def split: sum.splits)
  have c: "same_shape M' M" unfolding M' using conjunct1 [OF k] by (intro mmap2_shape) (simp_all add: same_shape_def)
  show ?thesis
    by (intro exI [of _ opts] exI [of _ ths] conjI allI ballI impI)
       (rule o, rule t, rule c, rule a, assumption, assumption, rule b, assumption+)
qed

lemma demo_options:
  "normalize_options ''token_k2'' = Inr [''token_k2'']"
  "parse_rollout_rs_thresholds [''token_k2''] (Some (SpecNum (1 / 4)))
     = Inr [(''token_k2'', \<lparr>th_lower = None, th_upper = 1 / 4\<rparr>)]"
  by code_simp+

lemma demo_rejection:
  "\<exists>M' mets. compute_rollout_rejection_mask [[0, 1]] [[1, 1]] (Some ''token_k2'') (Some (SpecNum (1 / 4)))
     = Inr (M', mets)"
  by (simp add: compute_rollout_rejection_mask_def demo_options rs_apply_option_def dget_def Let_def
      endswith_def rs_statistic_def TOKEN_LEVEL_ROLLOUT_RS_OPTIONS_def compute_rs_metrics_def mask_any_def)

theorem rejection_mask_keeps_passing_tokens_witness:
  "\<exists>M' mets. compute_rollout_rejection_mask [[0, 1]] [[1, 1]] (Some ''token_k2'') (Some (SpecNum (1 / 4)))
     = Inr (M', mets) \<and> M' ! 0 ! 0 = 1 \<and> M' ! 0 ! 1 = 0"
proof -
  obtain M' mets where m: "compute_rollout_rejection_mask [[0, 1]] [[1, 1]] (Some ''token_k2'')
      (Some (SpecNum (1 / 4))) = Inr (M', mets)"
    using demo_rejection by blast
  let ?ths = "[(''token_k2'', \<lparr>th_lower = None, th_upper = 1 / 4 :: real\<rparr>)]"
  have p: "passes ?ths [[0, 1]] [[1, 1]] ''token_k2'' 0 j = (j = 0)" if "j < 2" for j
    using that by (auto simp: passes_def dget_def rs_statistic_def TOKEN_LEVEL_ROLLOUT_RS_OPTIONS_def
        within_threshold_def endswith_def token_stat_def token_k2_def safe_def SAFETY_BOUND_def clamp_def
        mmap_def less_Suc_eq numeral_2_eq_2)
  show ?thesis
    using rejection_mask_keeps_passing_tokens [OF m] m
    by (auto simp: same_shape_def demo_options p intro!: exI)
qed

subsection \<open>The meaning of a ratio threshold\<close>

lemma k1_bounds_positive:
  assumes "parse_option_threshold opt spec = Inr th" "endswith opt ''k1''"
  obtains lo up where "th = \<lparr>th_lower = Some lo, th_upper = up\<rparr>" "0 < lo" "0 < up" "k1_bounds spec = Inr (lo, up)"
  using assms by (auto simp: parse_option_threshold_def rbind_Inr_iff split: if_splits)

text \<open>A pair of bounds \<open>lower_upper\<close> for \<open>token_k1\<close> bounds the reciprocal of the importance ratio:
  a token is kept exactly when its (clamped) ratio of training to rollout probability lies between
  \<open>1 / upper\<close> and \<open>1 / lower\<close>. The documentation calls the pair the bounds of the ratio itself.\<close>

theorem token_k1_bounds_reciprocal_ratio:
  assumes "parse_option_threshold ''token_k1'' spec = Inr th"
  shows "\<exists>lo up. k1_bounds spec = Inr (lo, up) \<and> 0 < lo \<and> 0 < up
    \<and> (\<forall>x. within_threshold ''token_k1'' th (token_stat ''token_k1'' x)
          \<longleftrightarrow> 1 / up \<le> exp (safe x) \<and> exp (safe x) \<le> 1 / lo)"
proof -
  have k1: "endswith ''token_k1'' ''k1''" by (simp add: endswith_def)
  obtain lo up where b: "th = \<lparr>th_lower = Some lo, th_upper = up\<rparr>" "0 < lo" "0 < up"
      "k1_bounds spec = Inr (lo, up)"
    using k1_bounds_positive [OF assms k1] .
  have "within_threshold ''token_k1'' th (token_stat ''token_k1'' x)
      \<longleftrightarrow> 1 / up \<le> exp (safe x) \<and> exp (safe x) \<le> 1 / lo" for x
  proof -
    have "ln lo \<le> - safe x \<longleftrightarrow> exp (safe x) \<le> 1 / lo"
      using b(2) by (metis exp_le_cancel_iff exp_ln exp_minus inverse_eq_divide inverse_inverse_eq
          le_minus_iff ln_inverse)
    moreover have "- safe x \<le> ln up \<longleftrightarrow> 1 / up \<le> exp (safe x)"
      using b(3) by (metis exp_le_cancel_iff exp_ln inverse_eq_divide ln_inverse minus_le_iff
          positive_imp_inverse_positive)
    ultimately show ?thesis
      using k1 by (auto simp: within_threshold_def b(1) token_stat_def token_k1_def)
  qed
  then show ?thesis using b by blast
qed

theorem token_k1_bounds_reciprocal_ratio_witness:
  "\<not> within_threshold ''token_k1'' \<lparr>th_lower = Some (6 / 10), th_upper = 14 / 10\<rparr>
       (token_stat ''token_k1'' (ln (65 / 100)))"
proof -
  have bounds: "k1_bounds (SpecStr ''0.6_1.4'') = Inr (6 / 10, 14 / 10)"
    "parse_option_threshold ''token_k1'' (SpecStr ''0.6_1.4'')
      = Inr \<lparr>th_lower = Some (6 / 10), th_upper = 14 / 10\<rparr>"
    by code_simp+
  have "exp (- 20) \<le> (65 / 100 :: real)"
  proof -
    have "(65 / 100 :: real) * 20 > 1" by simp
    moreover have "(20 :: real) \<le> exp 20" using exp_ge_add_one_self [of "20 :: real"] by linarith
    ultimately show ?thesis by (simp add: exp_minus field_simps)
  qed
  then have "- 20 \<le> ln (65 / 100 :: real)" by (simp add: ln_ge_iff)
  moreover have "ln (65 / 100 :: real) \<le> 20" by (rule order_trans [of _ 0]) simp_all
  ultimately have "safe (ln (65 / 100)) = ln (65 / 100)"
    by (simp add: safe_def SAFETY_BOUND_def clamp_def)
  moreover obtain lo up where "k1_bounds (SpecStr ''0.6_1.4'') = Inr (lo, up)"
    and w: "\<forall>x. within_threshold ''token_k1'' \<lparr>th_lower = Some (6 / 10), th_upper = 14 / 10\<rparr>
      (token_stat ''token_k1'' x) \<longleftrightarrow> 1 / up \<le> exp (safe x) \<and> exp (safe x) \<le> 1 / lo"
    using token_k1_bounds_reciprocal_ratio [OF bounds(2)] by blast
  moreover have "lo = 6 / 10" "up = 14 / 10" using calculation(2) bounds(1) by simp_all
  ultimately show ?thesis by simp
qed

subsection \<open>Truncated importance weights\<close>

lemma raw_is_weights_shape: "same_shape L M \<Longrightarrow> same_shape (raw_is_weights L M lvl) M"
  by (simp add: raw_is_weights_def same_shape_nth bcast_def mmap_def)

lemma raw_is_weights_nth:
  assumes "same_shape L M" "i < length M" "j < length (M ! i)"
  shows "raw_is_weights L M lvl ! i ! j =
    exp (safe (if lvl = ''token'' then L ! i ! j else row_masked_sum L M ! i))"
  using assms by (simp add: raw_is_weights_def mmap_nth bcast_def same_shape_nth)

text \<open>Without batch normalisation the importance weight of a token is the probability ratio of the
  token (or, at sequence level, of its whole response), clamped to \<open>exp 20\<close> and truncated at the
  threshold, and zero on padding; so every weight is between 0 and the threshold.\<close>

theorem is_weights_truncated:
  assumes "compute_rollout_correction_weights grp L M lvl thr False = Inr (W, mets)"
    and "same_shape L M" "is_mask M" "i < length M" "j < length (M ! i)"
  shows "W ! i ! j = (if M ! i ! j = 0 then 0
      else min (exp (safe (if lvl = ''token'' then L ! i ! j else row_masked_sum L M ! i))) thr)
    \<and> 0 \<le> W ! i ! j \<and> W ! i ! j \<le> thr"
proof -
  have W: "W = mmap (\<lambda>w. min w thr) (mmap2 (*) (raw_is_weights L M lvl) M)" and thr: "0 < thr"
    using assms(1) by (auto simp: compute_rollout_correction_weights_def Let_def rbind_Inr_iff split: if_splits)
  have shp: "same_shape (mmap2 (*) (raw_is_weights L M lvl) M) M"
    using raw_is_weights_shape [OF assms(2)] by (intro mmap2_shape) (simp_all add: same_shape_def)
  then have "i < length (mmap2 (*) (raw_is_weights L M lvl) M)"
    "j < length (mmap2 (*) (raw_is_weights L M lvl) M ! i)"
    using assms(4,5) by (auto simp: same_shape_nth)
  then have Wij: "W ! i ! j = min (raw_is_weights L M lvl ! i ! j * M ! i ! j) thr"
    unfolding W using mmap2_nth [OF raw_is_weights_shape [OF assms(2)] assms(4,5)] by (simp add: mmap_nth)
  have "M ! i ! j \<in> set (M ! i)" "M ! i \<in> set M" using assms(4,5) by simp_all
  then have "M ! i ! j = 0 \<or> M ! i ! j = 1" using assms(3) unfolding is_mask_def by blast
  then show ?thesis
    using thr unfolding Wij raw_is_weights_nth [OF assms(2,4,5)] by auto
qed

lemma demo_is_weights:
  "\<exists>W mets. compute_rollout_correction_weights None [[0, 5]] [[1, 0]] ''token'' 2 False = Inr (W, mets)"
proof -
  have "masked_mean (mmap (\<lambda>w. w\<^sup>2) (mmap (\<lambda>w. w / (masked_mean (mmap (clamp (1 / 2) 2) [[1, 0]]) [[1, 0]]
      + 1 / 10 ^ 8)) (mmap (clamp (1 / 2) 2) [[1, 0]]))) [[1, 0]] \<noteq> 0"
    by (simp add: masked_mean_def masked_sum_def mmap_def mmap2_def msum_def clamp_def)
  then show ?thesis
    by (simp add: compute_rollout_correction_weights_def Let_def raw_is_weights_def compute_is_metrics_def
        mask_any_def safe_def SAFETY_BOUND_def clamp_def mmap_def mmap2_def tdiv_def)
qed

theorem is_weights_truncated_witness:
  "\<exists>W mets. compute_rollout_correction_weights None [[0, 5]] [[1, 0]] ''token'' 2 False = Inr (W, mets)
     \<and> W ! 0 ! 0 = 1 \<and> W ! 0 ! 1 = 0"
proof -
  obtain W mets where w: "compute_rollout_correction_weights None [[0, 5]] [[1, 0]] ''token'' 2 False
      = Inr (W, mets)"
    using demo_is_weights by blast
  show ?thesis
    using is_weights_truncated [OF w, of 0 0] is_weights_truncated [OF w, of 0 1] w
    by (auto simp: same_shape_def is_mask_def safe_def SAFETY_BOUND_def clamp_def)
qed

lemma masked_mean_divide: "masked_mean (mmap (\<lambda>w. w / c) W) M = masked_mean W M / c"
proof -
  have "masked_sum (mmap ((*) (1 / c)) W) M = 1 / c * masked_sum W M"
    by (simp only: num_token_mean agg_num_scale)
  moreover have "mmap ((*) (1 / c)) W = mmap (\<lambda>w. w / c) W" by (simp add: mmap_def)
  ultimately show ?thesis by (simp add: masked_mean_def)
qed

text \<open>Batch normalisation rescales the truncated weights so that their masked mean is exactly 1, unless
  that mean is too small, in which case the weights are left as they are.\<close>

theorem is_batch_normalization_unit_mean:
  assumes "compute_rollout_correction_weights None L M ''token'' thr True = Inr (W, mets)"
  shows "\<exists>W0 mets0. compute_rollout_correction_weights None L M ''token'' thr False = Inr (W0, mets0)
    \<and> (if masked_mean W0 M > 1 / 10 ^ 8
       then masked_mean W M = 1 \<and> W = mmap (\<lambda>w. w / masked_mean W0 M) W0 else W = W0)"
proof -
  let ?W0 = "mmap (\<lambda>w. min w thr) (mmap2 (*) (raw_is_weights L M ''token'') M)"
  obtain mets0 where w0: "compute_rollout_correction_weights None L M ''token'' thr False = Inr (?W0, mets0)"
    and W: "W = (if masked_mean ?W0 M > 1 / 10 ^ 8 then mmap (\<lambda>w. w / masked_mean ?W0 M) ?W0 else ?W0)"
    using assms by (auto simp: compute_rollout_correction_weights_def Let_def rbind_Inr_iff is_weights_mean_def
        split: if_splits)
  have "masked_mean W M = 1" if "masked_mean ?W0 M > 1 / 10 ^ 8"
  proof -
    have "masked_mean ?W0 M \<noteq> 0" using that by auto
    then show ?thesis unfolding W if_P [OF that] masked_mean_divide by (rule divide_self)
  qed
  then show ?thesis using w0 W by (intro exI [of _ ?W0] exI [of _ mets0]) (auto split: if_splits)
qed

theorem is_batch_normalization_unit_mean_witness:
  "\<exists>W mets. compute_rollout_correction_weights None [[0, 5]] [[1, 0]] ''token'' 2 True = Inr (W, mets)
     \<and> masked_mean W [[1, 0]] = 1"
proof -
  obtain W0 mets0 where w0: "compute_rollout_correction_weights None [[0, 5]] [[1, 0]] ''token'' 2 False
      = Inr (W0, mets0)"
    using demo_is_weights by blast
  then have "\<exists>W mets. compute_rollout_correction_weights None [[0, 5]] [[1, 0]] ''token'' 2 True
      = Inr (W, mets)"
    by (auto simp: compute_rollout_correction_weights_def Let_def rbind_Inr_iff is_weights_mean_def
        split: if_split)
  then obtain W mets where w: "compute_rollout_correction_weights None [[0, 5]] [[1, 0]] ''token'' 2 True
      = Inr (W, mets)" by blast
  have "W0 = [[1, 0]]"
    using w0 by (auto simp: compute_rollout_correction_weights_def Let_def rbind_Inr_iff raw_is_weights_def
        mmap_def mmap2_def safe_def SAFETY_BOUND_def clamp_def)
  then have "masked_mean W0 [[1, 0]] > 1 / 10 ^ 8"
    by (simp add: masked_mean_def masked_sum_def mmap2_def msum_def)
  then show ?thesis using is_batch_normalization_unit_mean [OF w] w0 w by auto
qed

subsection \<open>Bypass mode\<close>

text \<open>The bypass loss with PPO clipping never double-counts the importance ratio: whatever the
  importance-sampling settings are, and for every process group, its value is the vanilla clipped loss
  against the rollout policy on the response mask left by rejection sampling, which without rejection
  is the given mask; the precomputed weights are ignored.\<close>

theorem bypass_ppo_clip_is_vanilla:
  assumes "pl_rollout_correction (policy_loss cfg) = Some rc" "rc_loss_type rc = ''ppo_clip''"
    and "compute_policy_loss_bypass_mode grp old_lp lp adv M mode (Some cfg) given = Inr (L, ms)"
  shows "\<exists>w M' m vms. compute_rollout_correction_and_rejection_mask grp lp old_lp M (rc_rollout_is rc)
        (rc_rollout_is_threshold rc) (rc_batch_normalize rc) (rc_rollout_rs rc) (rc_rollout_rs_threshold rc)
        = Inr (w, M', m)
    \<and> compute_policy_loss_vanilla old_lp lp adv M' mode (Some cfg) None = Inr (L, vms)
    \<and> (rc_rollout_rs rc = None \<longrightarrow> M' = M)
    \<and> compute_policy_loss_bypass_mode grp old_lp lp adv M mode (Some cfg) None = Inr (L, ms)"
proof -
  obtain w M' m where c: "compute_rollout_correction_and_rejection_mask grp lp old_lp M (rc_rollout_is rc)
      (rc_rollout_is_threshold rc) (rc_batch_normalize rc) (rc_rollout_rs rc) (rc_rollout_rs_threshold rc)
      = Inr (w, M', m)"
    using assms by (auto simp: compute_policy_loss_bypass_mode_def need_config_def rbind_Inr_iff)
  have "M' = M" if "rc_rollout_rs rc = None"
    using c that by (auto simp: compute_rollout_correction_and_rejection_mask_def Let_def rbind_Inr_iff
        split: if_splits)
  moreover obtain vms where "compute_policy_loss_vanilla old_lp lp adv M' mode (Some cfg) None = Inr (L, vms)"
    using assms c by (auto simp: compute_policy_loss_bypass_mode_def need_config_def rbind_Inr_iff)
  ultimately show ?thesis
    using c assms(3) by (auto simp: compute_policy_loss_bypass_mode_def)
qed

definition demo_rc :: rollout_corr_cfg where
  "demo_rc = \<lparr>rc_rollout_is = None, rc_rollout_is_threshold = Some 2, rc_batch_normalize = False,
     rc_rollout_rs = None, rc_rollout_rs_threshold = None, rc_bypass_mode = True, rc_loss_type = ''ppo_clip''\<rparr>"

definition demo_bypass_actor :: actor_cfg where
  "demo_bypass_actor = \<lparr>clip_ratio = 2 / 10, clip_ratio_low = None, clip_ratio_high = None,
     clip_ratio_c = None, tau_pos = 1, tau_neg = 1,
     policy_loss = \<lparr>pl_beta = None, pl_alpha = None, pl_kl_mode = None, pl_beta_warmup_steps = None,
       pl_beta_decay_steps = None, pl_positive_only = None, pl_rlsd_lambda = None,
       pl_rlsd_lambda_decay_steps = None, pl_rlsd_epsilon_w = None, pl_clip_cov_ratio = None,
       pl_clip_cov_lb = None, pl_clip_cov_ub = None, pl_kl_cov_ratio = None, pl_ppo_kl_coef = None,
       pl_rollout_correction = Some demo_rc\<rparr>,
     global_batch_info = default_info\<rparr>"

theorem bypass_ppo_clip_is_vanilla_witness:
  "\<exists>L vms. compute_policy_loss_vanilla [[0]] [[0]] [[1]] [[1]] ''token-mean'' (Some demo_bypass_actor) None
     = Inr (L, vms)"
proof -
  have rc: "pl_rollout_correction (policy_loss demo_bypass_actor) = Some demo_rc"
    "rc_loss_type demo_rc = ''ppo_clip''" "rc_rollout_rs demo_rc = None" "rc_rollout_is demo_rc = None"
    "rc_rollout_rs_threshold demo_rc = None" "global_batch_info demo_bypass_actor = default_info"
    "clip_ratio_c demo_bypass_actor = None"
    by (simp_all add: demo_bypass_actor_def demo_rc_def)
  have pipe: "\<exists>m. compute_rollout_correction_and_rejection_mask None [[0]] [[0]] [[1]] None
      (rc_rollout_is_threshold demo_rc) (rc_batch_normalize demo_rc) None None = Inr (None, [[1]], m)"
    by (simp add: compute_rollout_correction_and_rejection_mask_def mask_any_def same_shape_def
        compute_offpolicy_metrics_def Let_def)
  have agg: "\<exists>x. agg_loss A [[1]] ''token-mean'' default_info = Inr x" for A
    by (simp add: agg_loss_def default_info_def global_or_def msum_def tdiv_def)
  have "\<exists>L ms. compute_policy_loss_bypass_mode None [[0]] [[0]] [[1]] [[1]] ''token-mean''
      (Some demo_bypass_actor) None = Inr (L, ms)"
  proof -
    obtain m where "compute_rollout_correction_and_rejection_mask None [[0]] [[0]] [[1]] None
      (rc_rollout_is_threshold demo_rc) (rc_batch_normalize demo_rc) None None = Inr (None, [[1]], m)"
      using pipe by blast
    moreover obtain x where "agg_loss (mmap2 (dual_clip (clip_low demo_bypass_actor) (clip_high demo_bypass_actor)
        3) [[1]] (mmap exp (approx_kl [[0]] [[0]]))) [[1]] ''token-mean'' default_info = Inr x"
      using agg by blast
    ultimately show ?thesis
      by (simp add: compute_policy_loss_bypass_mode_def need_config_def rc compute_policy_loss_vanilla_def
          apply_is_weights_def Let_def)
  qed
  then obtain L ms where b: "compute_policy_loss_bypass_mode None [[0]] [[0]] [[1]] [[1]] ''token-mean''
      (Some demo_bypass_actor) None = Inr (L, ms)" by blast
  show ?thesis using bypass_ppo_clip_is_vanilla [OF rc(1,2) b] rc(3) by auto
qed

subsection \<open>Off-policy metrics\<close>

lemma masked_sum_nonneg:
  assumes "\<forall>row \<in> set A. \<forall>x \<in> set row. 0 \<le> x" "\<forall>row \<in> set M. \<forall>x \<in> set row. 0 \<le> x"
  shows "0 \<le> masked_sum A M"
proof -
  have row: "0 \<le> sum_list (map2 (\<lambda>v m. (if m \<noteq> 0 then v else 0) * m) a m)"
    if "\<forall>x \<in> set a. 0 \<le> x" "\<forall>x \<in> set m. 0 \<le> x" for a m :: vec
    using that by (induction a m rule: list_induct2') auto
  show ?thesis
    unfolding masked_sum_def msum_def mmap2_def using assms
    by (induction A M rule: list_induct2') (auto intro!: add_nonneg_nonneg row)
qed

lemma mask_nonneg: "is_mask M \<Longrightarrow> \<forall>row \<in> set M. \<forall>x \<in> set row. 0 \<le> x"
  unfolding is_mask_def by force

lemma msum_nonneg: "\<forall>row \<in> set M. \<forall>x \<in> set row. 0 \<le> x \<Longrightarrow> 0 \<le> msum M"
  unfolding msum_def by (auto intro!: sum_list_nonneg)

text \<open>On the reported divergences: whatever the two policies, the low-variance divergence is
  non-negative, the perplexity ratio is positive, and the mean absolute log-perplexity gap bounds the
  mean gap in size.\<close>

theorem offpolicy_metrics_bounds:
  assumes "compute_offpolicy_metrics lp (Some rollout) M = Inr ms" "is_mask M" "same_shape lp M" "same_shape rollout M"
  shows "\<exists>k3 ratio d a. map_of ms ''k3_kl'' = Some k3 \<and> 0 \<le> k3
    \<and> map_of ms ''ppl_ratio'' = Some ratio \<and> 0 < ratio
    \<and> map_of ms ''log_ppl_diff'' = Some d \<and> map_of ms ''log_ppl_abs_diff'' = Some a \<and> \<bar>d\<bar> \<le> a"
proof -
  let ?log_ratio = "mmap2 (-) lp rollout"
  let ?diff = "map2 (-) (row_masked_mean rollout M) (row_masked_mean lp M)"
  have any: "mask_any M" using assms(1) by (auto simp: compute_offpolicy_metrics_def rbind_Inr_iff)
  have k3: "0 \<le> masked_mean (mmap (\<lambda>x. exp x - x - 1) ?log_ratio) M"
    unfolding masked_mean_def
    using mask_nonneg [OF assms(2)] exp_ge_add_one_self
    by (intro divide_nonneg_nonneg masked_sum_nonneg add_nonneg_nonneg msum_nonneg)
       (auto simp: mmap_def algebra_simps)
  have "M \<noteq> []" using any by (auto simp: mask_any_def)
  then have "0 < length M" by simp
  then have "0 < length ?diff"
    using same_shape_length [OF assms(3)] same_shape_length [OF assms(4)] by simp
  then have "?diff \<noteq> []" by (metis length_greater_0_conv)
  then have ratio: "0 < vmean (map exp ?diff)"
    unfolding vmean_def by (cases ?diff) (auto intro!: divide_pos_pos add_pos_nonneg sum_list_nonneg)
  have "\<bar>vmean ?diff\<bar> \<le> vmean (map abs ?diff)"
    by (rule vmean_abs)
  then show ?thesis
    using assms(1) k3 ratio by (auto simp: compute_offpolicy_metrics_def Let_def rbind_Inr_iff)
qed

theorem offpolicy_metrics_bounds_witness:
  "\<exists>ms k3. compute_offpolicy_metrics [[1, 2]] (Some [[2, 2]]) [[1, 1]] = Inr ms
    \<and> map_of ms ''k3_kl'' = Some k3 \<and> 0 \<le> k3"
proof -
  obtain ms where m: "compute_offpolicy_metrics [[1, 2]] (Some [[2, 2]]) [[1, 1]] = Inr ms"
    by (auto simp: compute_offpolicy_metrics_def mask_any_def Let_def)
  show ?thesis using offpolicy_metrics_bounds [OF m] m by (auto simp: is_mask_def same_shape_def)
qed

end
