(* ===== verification/RolloutPresets.thy ===== *)
theory RolloutPresets
  imports RolloutCorr
begin

section \<open>Presets of the rollout correction (\<open>verl/trainer/config/algorithm.py\<close>)\<close>

text \<open>
  The class methods of \<open>RolloutCorrectionConfig\<close> that build the documented configurations, as updates
  of the record of field defaults.
\<close>

definition default_rollout_corr :: rollout_corr_cfg where
  "default_rollout_corr =
     \<lparr>rc_rollout_is = Some ''sequence'', rc_rollout_is_threshold = Some 2, rc_batch_normalize = False,
      rc_rollout_rs = None, rc_rollout_rs_threshold = None, rc_bypass_mode = False,
      rc_loss_type = ''ppo_clip''\<rparr>"

definition decoupled_token_is :: "real \<Rightarrow> rollout_corr_cfg" where
  "decoupled_token_is threshold = default_rollout_corr
     \<lparr>rc_rollout_is := Some ''token'',
      rc_rollout_is_threshold := Some threshold,
      rc_rollout_rs := None\<rparr>"

definition decoupled_seq_is :: "real \<Rightarrow> rollout_corr_cfg" where
  "decoupled_seq_is threshold = default_rollout_corr
     \<lparr>rc_rollout_is := Some ''sequence'',
      rc_rollout_is_threshold := Some threshold,
      rc_rollout_rs := None\<rparr>"

definition decoupled_seq_is_rs :: "real \<Rightarrow> threshold_spec option \<Rightarrow> rollout_corr_cfg" where
  "decoupled_seq_is_rs is_threshold rs_threshold = default_rollout_corr
     \<lparr>rc_rollout_is := Some ''sequence'',
      rc_rollout_is_threshold := Some is_threshold,
      rc_rollout_rs := Some ''seq_sum_k1'',
      rc_rollout_rs_threshold := rs_threshold\<rparr>"

definition decoupled_geo_rs :: "threshold_spec option \<Rightarrow> rollout_corr_cfg" where
  "decoupled_geo_rs rs_threshold = default_rollout_corr
     \<lparr>rc_rollout_is := None,
      rc_rollout_rs := Some ''seq_mean_k1'',
      rc_rollout_rs_threshold := rs_threshold\<rparr>"

definition bypass_ppo_clip :: "rollout_corr_cfg" where
  "bypass_ppo_clip = default_rollout_corr
     \<lparr>rc_rollout_is := None,
      rc_rollout_rs := None,
      rc_bypass_mode := True,
      rc_loss_type := ''ppo_clip''\<rparr>"

definition bypass_ppo_clip_geo_rs :: "threshold_spec option \<Rightarrow> rollout_corr_cfg" where
  "bypass_ppo_clip_geo_rs rs_threshold = default_rollout_corr
     \<lparr>rc_rollout_is := None,
      rc_rollout_rs := Some ''seq_mean_k1'',
      rc_rollout_rs_threshold := rs_threshold,
      rc_bypass_mode := True,
      rc_loss_type := ''ppo_clip''\<rparr>"

definition bypass_ppo_clip_k3_rs :: "threshold_spec option \<Rightarrow> rollout_corr_cfg" where
  "bypass_ppo_clip_k3_rs rs_threshold = default_rollout_corr
     \<lparr>rc_rollout_is := None,
      rc_rollout_rs := Some ''seq_mean_k3'',
      rc_rollout_rs_threshold := rs_threshold,
      rc_bypass_mode := True,
      rc_loss_type := ''ppo_clip''\<rparr>"

definition bypass_pg_is :: "real \<Rightarrow> rollout_corr_cfg" where
  "bypass_pg_is threshold = default_rollout_corr
     \<lparr>rc_rollout_is := Some ''sequence'',
      rc_rollout_is_threshold := Some threshold,
      rc_rollout_rs := None,
      rc_bypass_mode := True,
      rc_loss_type := ''reinforce''\<rparr>"

definition bypass_pg_geo_rs :: "threshold_spec option \<Rightarrow> rollout_corr_cfg" where
  "bypass_pg_geo_rs rs_threshold = default_rollout_corr
     \<lparr>rc_rollout_is := None,
      rc_rollout_rs := Some ''seq_mean_k1'',
      rc_rollout_rs_threshold := rs_threshold,
      rc_bypass_mode := True,
      rc_loss_type := ''reinforce''\<rparr>"

definition decoupled_geo_rs_seq_tis :: "real \<Rightarrow> threshold_spec option \<Rightarrow> rollout_corr_cfg" where
  "decoupled_geo_rs_seq_tis is_threshold rs_threshold = default_rollout_corr
     \<lparr>rc_rollout_is := Some ''sequence'',
      rc_rollout_is_threshold := Some is_threshold,
      rc_rollout_rs := Some ''seq_mean_k1'',
      rc_rollout_rs_threshold := rs_threshold\<rparr>"

definition decoupled_geo_rs_token_tis :: "real \<Rightarrow> threshold_spec option \<Rightarrow> rollout_corr_cfg" where
  "decoupled_geo_rs_token_tis is_threshold rs_threshold = default_rollout_corr
     \<lparr>rc_rollout_is := Some ''token'',
      rc_rollout_is_threshold := Some is_threshold,
      rc_rollout_rs := Some ''seq_mean_k1'',
      rc_rollout_rs_threshold := rs_threshold\<rparr>"

definition bypass_pg_geo_rs_seq_tis :: "real \<Rightarrow> threshold_spec option \<Rightarrow> rollout_corr_cfg" where
  "bypass_pg_geo_rs_seq_tis is_threshold rs_threshold = default_rollout_corr
     \<lparr>rc_rollout_is := Some ''sequence'',
      rc_rollout_is_threshold := Some is_threshold,
      rc_rollout_rs := Some ''seq_mean_k1'',
      rc_rollout_rs_threshold := rs_threshold,
      rc_bypass_mode := True,
      rc_loss_type := ''reinforce''\<rparr>"

definition bypass_pg_geo_rs_token_tis :: "real \<Rightarrow> threshold_spec option \<Rightarrow> rollout_corr_cfg" where
  "bypass_pg_geo_rs_token_tis is_threshold rs_threshold = default_rollout_corr
     \<lparr>rc_rollout_is := Some ''token'',
      rc_rollout_is_threshold := Some is_threshold,
      rc_rollout_rs := Some ''seq_mean_k1'',
      rc_rollout_rs_threshold := rs_threshold,
      rc_bypass_mode := True,
      rc_loss_type := ''reinforce''\<rparr>"

definition decoupled_k3_rs :: "threshold_spec option \<Rightarrow> rollout_corr_cfg" where
  "decoupled_k3_rs rs_threshold = default_rollout_corr
     \<lparr>rc_rollout_is := None,
      rc_rollout_rs := Some ''seq_mean_k3'',
      rc_rollout_rs_threshold := rs_threshold\<rparr>"

definition decoupled_k3_rs_seq_tis :: "real \<Rightarrow> threshold_spec option \<Rightarrow> rollout_corr_cfg" where
  "decoupled_k3_rs_seq_tis is_threshold rs_threshold = default_rollout_corr
     \<lparr>rc_rollout_is := Some ''sequence'',
      rc_rollout_is_threshold := Some is_threshold,
      rc_rollout_rs := Some ''seq_mean_k3'',
      rc_rollout_rs_threshold := rs_threshold\<rparr>"

definition decoupled_k3_rs_token_tis :: "real \<Rightarrow> threshold_spec option \<Rightarrow> rollout_corr_cfg" where
  "decoupled_k3_rs_token_tis is_threshold rs_threshold = default_rollout_corr
     \<lparr>rc_rollout_is := Some ''token'',
      rc_rollout_is_threshold := Some is_threshold,
      rc_rollout_rs := Some ''seq_mean_k3'',
      rc_rollout_rs_threshold := rs_threshold\<rparr>"

definition disabled :: "rollout_corr_cfg" where
  "disabled = default_rollout_corr
     \<lparr>rc_rollout_is := None,
      rc_rollout_rs := None\<rparr>"

text \<open>What the correction pipeline needs of a configuration before it looks at any data.\<close>

definition well_configured :: "rollout_corr_cfg \<Rightarrow> bool" where
  "well_configured c =
     ((case (rc_rollout_is c, rc_rollout_is_threshold c) of
         (Some lvl, Some thr) \<Rightarrow> lvl \<in> {''token'', ''sequence''} \<and> thr > 0 | _ \<Rightarrow> True)
      \<and> (case rc_rollout_rs c of
           None \<Rightarrow> True
         | Some rs \<Rightarrow> (case normalize_options rs of
             Inl _ \<Rightarrow> False
           | Inr opts \<Rightarrow> (case parse_rollout_rs_thresholds opts (rc_rollout_rs_threshold c) of
               Inl _ \<Rightarrow> False | Inr _ \<Rightarrow> True)))
      \<and> rc_loss_type c \<in> {''ppo_clip'', ''reinforce''}
      \<and> (rc_loss_type c = ''reinforce'' \<longrightarrow> rc_bypass_mode c)
      \<and> (rc_bypass_mode c \<and> rc_loss_type c = ''ppo_clip'' \<longrightarrow> rc_rollout_is c = None))"

definition documented_presets :: "rollout_corr_cfg list" where
  "documented_presets =
    [decoupled_token_is 2,
     decoupled_seq_is 2,
     decoupled_seq_is_rs 2 (Some (SpecStr ''0.5_2.0'')),
     decoupled_geo_rs (Some (SpecStr ''0.999_1.001'')),
     bypass_ppo_clip,
     bypass_ppo_clip_geo_rs (Some (SpecStr ''0.999_1.001'')),
     bypass_ppo_clip_k3_rs (Some (SpecNum (1 / 100))),
     bypass_pg_is 2,
     bypass_pg_geo_rs (Some (SpecStr ''0.999_1.001'')),
     decoupled_geo_rs_seq_tis 2 (Some (SpecStr ''0.999_1.001'')),
     decoupled_geo_rs_token_tis 2 (Some (SpecStr ''0.999_1.001'')),
     bypass_pg_geo_rs_seq_tis 2 (Some (SpecStr ''0.999_1.001'')),
     bypass_pg_geo_rs_token_tis 2 (Some (SpecStr ''0.999_1.001'')),
     decoupled_k3_rs (Some (SpecNum (1 / 100))),
     decoupled_k3_rs_seq_tis 2 (Some (SpecNum (1 / 100))),
     decoupled_k3_rs_token_tis 2 (Some (SpecNum (1 / 100))),
     disabled]"

lemmas preset_defs = default_rollout_corr_def decoupled_token_is_def decoupled_seq_is_def
  decoupled_seq_is_rs_def decoupled_geo_rs_def bypass_ppo_clip_def bypass_ppo_clip_geo_rs_def
  bypass_ppo_clip_k3_rs_def bypass_pg_is_def bypass_pg_geo_rs_def decoupled_geo_rs_seq_tis_def
  decoupled_geo_rs_token_tis_def bypass_pg_geo_rs_seq_tis_def bypass_pg_geo_rs_token_tis_def
  decoupled_k3_rs_def decoupled_k3_rs_seq_tis_def decoupled_k3_rs_token_tis_def disabled_def

lemma preset_options:
  "normalize_options ''seq_sum_k1'' = Inr [''seq_sum_k1'']"
  "normalize_options ''seq_mean_k1'' = Inr [''seq_mean_k1'']"
  "normalize_options ''seq_mean_k3'' = Inr [''seq_mean_k3'']"
  by code_simp+

lemma preset_thresholds:
  "parse_rollout_rs_thresholds [''seq_sum_k1''] (Some (SpecStr ''0.5_2.0''))
     = Inr [(''seq_sum_k1'', \<lparr>th_lower = Some (1 / 2), th_upper = 2\<rparr>)]"
  "parse_rollout_rs_thresholds [''seq_mean_k1''] (Some (SpecStr ''0.999_1.001''))
     = Inr [(''seq_mean_k1'', \<lparr>th_lower = Some (999 / 1000), th_upper = 1001 / 1000\<rparr>)]"
  "parse_rollout_rs_thresholds [''seq_mean_k3''] (Some (SpecNum (1 / 100)))
     = Inr [(''seq_mean_k3'', \<lparr>th_lower = None, th_upper = 1 / 100\<rparr>)]"
  by code_simp+

text \<open>Every preset, with its default thresholds, passes the checks of the correction pipeline: its
  options are supported, its threshold strings parse to positive bounds, its loss type is known,
  REINFORCE is used in bypass mode only, and the clipped bypass presets compute no separate
  importance weights.\<close>

theorem presets_well_configured: "list_all well_configured documented_presets"
  by (simp add: documented_presets_def well_configured_def preset_defs preset_options preset_thresholds)

end
