(* ===== verification/Advantage.thy ===== *)
theory Advantage
  imports PolicyLoss PyString "HOL-Library.List_Lexorder" "HOL-Library.Char_ord"
begin

section \<open>Advantage estimators (\<open>verl/trainer/ppo/core_algos.py\<close>, \<open>verl/utils/groupwise.py\<close>)\<close>

text \<open>
  The estimators of the advantage registry. A batch is a matrix of token-level rewards with its
  response mask and the list of group labels of its rows. Groups are dictionaries from labels to the
  members' data in order of first occurrence, as the code's \<open>defaultdict(list)\<close> builds them.
\<close>

subsection \<open>Groups\<close>

definition add_to_group :: "'g list \<Rightarrow> 'a list \<Rightarrow> nat \<Rightarrow> ('g, 'a list) dict \<Rightarrow> ('g, 'a list) dict result" where
  "add_to_group index xs i groups =
     rbind (py_nth index i) (\<lambda>g.
     Inr (AList.update g ((case map_of groups g of None \<Rightarrow> [] | Some vs \<Rightarrow> vs) @ [xs ! i]) groups))"

definition collect_groups :: "'g list \<Rightarrow> 'a list \<Rightarrow> ('g, 'a list) dict result" where
  "collect_groups index xs = rfold (add_to_group index xs) [0..<length xs] []"

definition members :: "'g list \<Rightarrow> nat \<Rightarrow> 'g \<Rightarrow> nat list" where
  "members index n g = filter (\<lambda>i. index ! i = g) [0..<n]"

definition dict_rmap :: "('v \<Rightarrow> 'w result) \<Rightarrow> ('k, 'v) dict \<Rightarrow> ('k, 'w) dict result" where
  "dict_rmap f d = rmap (\<lambda>(k, v). rbind (f v) (\<lambda>w. Inr (k, w))) d"

text \<open>The value of every row computed from the entry of its group.\<close>

definition per_row :: "'g list \<Rightarrow> ('g, 'w) dict \<Rightarrow> (nat \<Rightarrow> 'w \<Rightarrow> real result) \<Rightarrow> nat \<Rightarrow> vec result" where
  "per_row index table f n =
     rmap (\<lambda>i. rbind (py_nth index i) (\<lambda>g. rbind (dget table g) (f i))) [0..<n]"

subsection \<open>Estimators over groups of outcome rewards\<close>

definition group_mean :: "vec \<Rightarrow> real result" where
  "group_mean scores =
     (if length scores = 1 then Inr 0
      else if length scores > 1 then Inr (vmean scores)
      else Inl ValueError)"

definition group_mean_and_std :: "vec \<Rightarrow> (real \<times> real) result" where
  "group_mean_and_std scores =
     (if length scores = 1 then Inr (0, 1)
      else if length scores > 1 then Inr (vmean scores, vstd scores)
      else Inl ValueError)"

definition compute_grpo_outcome_advantage ::
  "mat \<Rightarrow> mat \<Rightarrow> 'g list \<Rightarrow> real \<Rightarrow> bool \<Rightarrow> (mat \<times> mat) result" where
  "compute_grpo_outcome_advantage token_level_rewards response_mask index epsilon norm_adv_by_std_in_grpo =
     (let scores = row_sums token_level_rewards
      in rbind (collect_groups index scores) (\<lambda>id2score.
         rbind (dict_rmap group_mean_and_std id2score) (\<lambda>id2stat.
         rbind (per_row index id2stat (\<lambda>i (m, s).
             if norm_adv_by_std_in_grpo then tdiv (scores ! i - m) (s + epsilon) else Inr (scores ! i - m))
           (length scores)) (\<lambda>scalars.
         let A = scale_rows scalars response_mask in Inr (A, A)))))"

definition pass_at_k_group ::
  "(vec \<Rightarrow> nat \<Rightarrow> (real \<times> nat) list) \<Rightarrow> bool \<Rightarrow> real \<Rightarrow> vec \<Rightarrow> nat list \<Rightarrow> vec \<Rightarrow> vec result" where
  "pass_at_k_group topk norm_std epsilon rewards indices advantages =
     (if length rewards < 2 then Inl ValueError
      else let top = topk rewards 2;
               r_max = fst (top ! 0); r_second_max = fst (top ! 1);
               i_max = indices ! snd (top ! 0);
               advantage = r_max - r_second_max
           in rbind (if norm_std then tdiv advantage (vstd rewards + epsilon) else Inr advantage) (\<lambda>a.
              Inr (advantages[i_max := a])))"

definition compute_grpo_passk_outcome_advantage ::
  "(vec \<Rightarrow> nat \<Rightarrow> (real \<times> nat) list) \<Rightarrow> mat \<Rightarrow> mat \<Rightarrow> 'g list \<Rightarrow> real \<Rightarrow> bool option option
     \<Rightarrow> (mat \<times> mat) result" where
  "compute_grpo_passk_outcome_advantage topk token_level_rewards response_mask index epsilon config =
     rbind (need_config config) (\<lambda>norm_cfg.
     let norm_std = get_or True norm_cfg;
         scores = row_sums token_level_rewards
     in rbind (collect_groups index scores) (\<lambda>id2scores.
        rbind (collect_groups index [0..<length scores]) (\<lambda>id2indices.
        rbind (rfold (\<lambda>(g, rewards) adv.
            rbind (dget id2indices g) (\<lambda>is. pass_at_k_group topk norm_std epsilon rewards is adv))
          id2scores (map (\<lambda>_. 0) scores)) (\<lambda>advantages.
        let A = scale_rows advantages response_mask in Inr (A, A)))))"

definition compute_reinforce_plus_plus_baseline_outcome_advantage ::
  "mat \<Rightarrow> mat \<Rightarrow> 'g list \<Rightarrow> (mat \<times> mat) result" where
  "compute_reinforce_plus_plus_baseline_outcome_advantage token_level_rewards response_mask index =
     (let scores = row_sums token_level_rewards
      in rbind (collect_groups index scores) (\<lambda>id2score.
         rbind (dict_rmap group_mean id2score) (\<lambda>id2mean.
         rbind (per_row index id2mean (\<lambda>i m. Inr (scores ! i - m)) (length scores)) (\<lambda>centered.
         rbind (masked_whiten (scale_rows centered response_mask) response_mask True) (\<lambda>W.
         let A = mmap2 (*) W response_mask in Inr (A, A))))))"

definition rloo_row :: "vec \<Rightarrow> ('g, vec) dict \<Rightarrow> 'g \<Rightarrow> nat \<Rightarrow> real \<Rightarrow> real result" where
  "rloo_row scores id2score g i m =
     rbind (dget id2score g) (\<lambda>grp.
     let response_num = real (length grp)
     in if length grp > 1
        then Inr (scores ! i * response_num / (response_num - 1) - m * response_num / (response_num - 1))
        else Inr (scores ! i))"

definition compute_rloo_outcome_advantage :: "mat \<Rightarrow> mat \<Rightarrow> 'g list \<Rightarrow> (mat \<times> mat) result" where
  "compute_rloo_outcome_advantage token_level_rewards response_mask index =
     (let scores = row_sums token_level_rewards
      in rbind (collect_groups index scores) (\<lambda>id2score.
         rbind (dict_rmap group_mean id2score) (\<lambda>id2mean.
         rbind (per_row index id2mean (\<lambda>i m. rloo_row scores id2score (index ! i) i m) (length scores)) (\<lambda>adv.
         let A = scale_rows adv response_mask in Inr (A, A)))))"

definition opo_baseline :: "(real \<times> real) list \<Rightarrow> real result" where
  "opo_baseline grp =
     (if length grp = 1 then Inr 0
      else if length grp > 1
        then tdiv (sum_list (map (\<lambda>(s, len). len * s) grp)) (sum_list (map snd grp))
      else Inl ValueError)"

definition compute_opo_outcome_advantage :: "mat \<Rightarrow> mat \<Rightarrow> 'g list \<Rightarrow> (mat \<times> mat) result" where
  "compute_opo_outcome_advantage token_level_rewards response_mask index =
     (let response_length = row_sums response_mask;
          scores = row_sums token_level_rewards
      in rbind (collect_groups index (zip scores response_length)) (\<lambda>groups.
         rbind (dict_rmap opo_baseline groups) (\<lambda>id2bsl.
         rbind (per_row index id2bsl (\<lambda>i b. Inr (scores ! i - b)) (length scores)) (\<lambda>adv.
         let A = scale_rows adv response_mask in Inr (A, A)))))"

definition compute_gpg_outcome_advantage ::
  "mat \<Rightarrow> mat \<Rightarrow> 'g list \<Rightarrow> real \<Rightarrow> real \<Rightarrow> (mat \<times> mat) result" where
  "compute_gpg_outcome_advantage token_level_rewards response_mask index f_norm alpha =
     (let scores = row_sums token_level_rewards;
          m = length (filter (\<lambda>s. s \<noteq> 0) scores);
          alpha' = real (length scores) / real (max m 1)
      in rbind (collect_groups index scores) (\<lambda>id2score.
         rbind (dict_rmap group_mean_and_std id2score) (\<lambda>id2stat.
         rbind (per_row index id2stat (\<lambda>i (m, s). tdiv (alpha' * (scores ! i - m)) f_norm) (length scores))
           (\<lambda>adv.
         let A = scale_rows adv response_mask in Inr (A, A)))))"

subsection \<open>Vectorised groups (\<open>verl/utils/groupwise.py\<close>)\<close>

text \<open>\<open>np.unique(xs, return_inverse=True)[1]\<close>: the position of every label among the sorted distinct
  labels. Labels are integers or strings; strings that all read as integers are taken as those.\<close>

definition unique_inverse :: "'a::linorder list \<Rightarrow> nat list" where
  "unique_inverse xs = (let u = sort (remdups xs) in map (\<lambda>x. length (takeWhile (\<lambda>y. y \<noteq> x) u)) xs)"

datatype labels = IntLabels "int list" | StrLabels "string list"

definition as_torch_index :: "labels \<Rightarrow> int list" where
  "as_torch_index index = (case index of
      IntLabels xs \<Rightarrow> xs
    | StrLabels xs \<Rightarrow> (case rmap py_int xs of Inr ys \<Rightarrow> ys | Inl _ \<Rightarrow> map int (unique_inverse xs)))"

definition index_add :: "nat \<Rightarrow> nat list \<Rightarrow> vec \<Rightarrow> vec" where
  "index_add G gidx xs = map (\<lambda>g. sum_list (map snd (filter (\<lambda>(i, x). i = g) (zip gidx xs)))) [0..<G]"

definition group_stat :: "real \<Rightarrow> real \<Rightarrow> real \<Rightarrow> real \<Rightarrow> real \<times> real" where
  "group_stat eps cnt s1 s2 =
     (let mean = s1 / max cnt 1;
          var_num = s2 - (s1 * s1) / max cnt 1;
          denom = max (cnt - 1) 1;
          std = sqrt (max (var_num / denom) eps)
      in if cnt \<le> 1 then (0, 1) else (mean, std))"

definition group_mean_std :: "vec \<Rightarrow> int list \<Rightarrow> real \<Rightarrow> ((real \<times> real) list) result" where
  "group_mean_std scores gidx eps =
     (if length scores \<noteq> length gidx then Inl ValueError
      else if gidx = [] then Inr []
      else if \<exists>g \<in> set gidx. g < 0 then Inl IndexError
      else let ids = map nat gidx;
               G = Suc (fold max ids 0);
               cnt = index_add G ids (map (\<lambda>_. 1) scores);
               s1 = index_add G ids scores;
               s2 = index_add G ids (map (\<lambda>s. s * s) scores)
           in Inr (map (\<lambda>(c, a, b). group_stat eps c a b) (zip cnt (zip s1 s2))))"

definition compute_grpo_vectorized_outcome_advantage ::
  "mat \<Rightarrow> mat \<Rightarrow> labels \<Rightarrow> real \<Rightarrow> bool \<Rightarrow> (mat \<times> mat) result" where
  "compute_grpo_vectorized_outcome_advantage token_level_rewards response_mask index epsilon
     norm_adv_by_std_in_grpo =
     (let scores = row_sums token_level_rewards;
          g = as_torch_index index
      in rbind (group_mean_std scores g epsilon) (\<lambda>stats.
         rbind (rmap (\<lambda>(s, k). let (m, sd) = stats ! nat k
                 in if norm_adv_by_std_in_grpo then tdiv (s - m) (sd + epsilon) else Inr (s - m))
               (zip scores g)) (\<lambda>scalars.
         let A = scale_rows scalars response_mask in Inr (A, A))))"

definition compute_rloo_vectorized_outcome_advantage ::
  "mat \<Rightarrow> mat \<Rightarrow> 'g::linorder list \<Rightarrow> (mat \<times> mat) result" where
  "compute_rloo_vectorized_outcome_advantage token_level_rewards response_mask index =
     (let scores = row_sums token_level_rewards;
          inv = unique_inverse index;
          G = Suc (fold max inv 0);
          c = map (\<lambda>k. index_add G inv (map (\<lambda>_. 1) inv) ! k) inv;
          totals = map (\<lambda>k. index_add G inv scores ! k) inv;
          adv = map (\<lambda>(s, c, t). (c * s - t) / max (c - 1) 1 * indicator01 (c > 1)) (zip scores (zip c totals));
          A = scale_rows adv response_mask
      in Inr (A, A))"

subsection \<open>Estimators over tokens\<close>

text \<open>One row of the reversed loop of GAE: the state is (next value, last advantage, advantages).\<close>

definition gae_step :: "real \<Rightarrow> real \<Rightarrow> real \<times> real \<times> real \<Rightarrow> real \<times> real \<times> vec \<Rightarrow> real \<times> real \<times> vec" where
  "gae_step gamma lam = (\<lambda>(r, v, m) (nextvalue, lastgaelam, advs).
     (let delta = r + gamma * nextvalue - v;
          gaelam = delta + gamma * lam * lastgaelam;
          nextvalue' = v * m + (1 - m) * nextvalue;
          lastgaelam' = gaelam * m + (1 - m) * lastgaelam
      in (nextvalue', lastgaelam', lastgaelam' # advs)))"

definition gae_row :: "real \<Rightarrow> real \<Rightarrow> vec \<Rightarrow> vec \<Rightarrow> vec \<Rightarrow> vec" where
  "gae_row gamma lam rewards vals msk =
     snd (snd (foldr (gae_step gamma lam) (zip rewards (zip vals msk)) (0, 0, [])))"

definition compute_gae_advantage_return ::
  "mat \<Rightarrow> mat \<Rightarrow> mat \<Rightarrow> real \<Rightarrow> real \<Rightarrow> (mat \<times> mat) result" where
  "compute_gae_advantage_return token_level_rewards vals response_mask gamma lam =
     (if mwidth token_level_rewards = 0 then Inl RuntimeError
      else let advantages = map (\<lambda>(r, v, m). gae_row gamma lam r v m)
                 (zip token_level_rewards (zip vals response_mask));
               returns = mmap2 (+) advantages vals
           in rbind (masked_whiten advantages response_mask True) (\<lambda>A. Inr (A, returns)))"

definition discounted_row :: "real \<Rightarrow> vec \<Rightarrow> vec \<Rightarrow> vec" where
  "discounted_row gamma rewards msk =
     snd (foldr (\<lambda>(r, m) (running, out). let ret = r + gamma * running in (ret * m, ret # out))
       (zip rewards msk) (0, []))"

definition compute_reinforce_plus_plus_outcome_advantage ::
  "mat \<Rightarrow> mat \<Rightarrow> real option \<Rightarrow> (mat \<times> mat) result" where
  "compute_reinforce_plus_plus_outcome_advantage token_level_rewards response_mask config =
     rbind (need_config config) (\<lambda>gamma.
     let returns = map2 (discounted_row gamma) token_level_rewards response_mask
     in rbind (masked_whiten returns response_mask True) (\<lambda>W. Inr (mmap2 (*) W response_mask, returns)))"

text \<open>\<open>x.flip(-1).cumsum(-1).flip(-1)\<close>.\<close>

definition suffix_sums :: "vec \<Rightarrow> vec" where
  "suffix_sums xs = rev (cumsum (rev xs))"

definition rewards_to_go :: "mat \<Rightarrow> mat \<Rightarrow> mat" where
  "rewards_to_go token_level_rewards response_mask =
     map suffix_sums (mmap2 (*) token_level_rewards response_mask)"

definition compute_remax_outcome_advantage :: "mat \<Rightarrow> vec \<Rightarrow> mat \<Rightarrow> mat \<times> mat" where
  "compute_remax_outcome_advantage token_level_rewards reward_baselines response_mask =
     (let returns = rewards_to_go token_level_rewards response_mask
      in (mmap2 (-) returns (scale_rows reward_baselines response_mask), returns))"

subsection \<open>Optimal token baselines\<close>

definition path_variance :: "mat \<Rightarrow> mat \<Rightarrow> mat option \<Rightarrow> mat \<Rightarrow> mat" where
  "path_variance old_log_probs sum_pi_squared rollout_is_weights response_mask =
     (let w = mmap2 (\<lambda>l sq. 1 - 2 * exp l + sq) old_log_probs sum_pi_squared;
          w' = (case rollout_is_weights of None \<Rightarrow> w | Some rho \<Rightarrow> mmap2 (\<lambda>x r. x * r\<^sup>2) w rho)
      in map cumsum (mmap2 (*) w' response_mask))"

definition baseline_per_step :: "real \<Rightarrow> mat \<Rightarrow> mat \<Rightarrow> mat \<Rightarrow> vec result" where
  "baseline_per_step epsilon rets ws msks =
     rmap (\<lambda>t. tdiv (sum_list (map (\<lambda>(r, w, m). r ! t * w ! t * m ! t) (zip rets (zip ws msks))))
                 (sum_list (map2 (\<lambda>w m. w ! t * m ! t) ws msks) + epsilon)) [0..<mwidth rets]"

text \<open>The part of a unique longest trajectory beyond the second longest one gets no baseline.\<close>

definition zero_tail :: "nat list \<Rightarrow> nat list \<Rightarrow> mat \<Rightarrow> mat" where
  "zero_tail lengths is baselines =
     (let srt = sort lengths; max_length = last srt; second_max_length = srt ! (length srt - 2);
          max_length_idx = filter (\<lambda>k. lengths ! k = max_length) [0..<length lengths]
      in if length max_length_idx = 1 \<and> max_length > second_max_length then
           (let i = is ! hd max_length_idx; row = baselines ! i
            in baselines[i := take second_max_length row @ replicate (length row - second_max_length) 0])
         else baselines)"

definition assign_rows :: "nat list \<Rightarrow> 'a \<Rightarrow> 'a list \<Rightarrow> 'a list" where
  "assign_rows is row rows = fold (\<lambda>i rs. rs[i := row]) is rows"

definition mask_lengths :: "mat \<Rightarrow> nat list" where
  "mask_lengths msk = map (\<lambda>s. nat \<lfloor>s\<rfloor>) (row_sums msk)"

definition otb_group :: "real \<Rightarrow> bool \<Rightarrow> mat \<Rightarrow> mat \<Rightarrow> mat \<Rightarrow> nat list \<Rightarrow> nat list \<Rightarrow> mat \<Rightarrow> mat result" where
  "otb_group epsilon handle_zero_tail returns w_cumulative msk lengths is baselines =
     (if length is = 1 then Inr baselines
      else rbind (baseline_per_step epsilon (picks returns is) (picks w_cumulative is) (picks msk is)) (\<lambda>b.
        let baselines' = assign_rows is b baselines
        in Inr (if handle_zero_tail then zero_tail (picks lengths is) is baselines' else baselines')))"

definition compute_optimal_token_baseline_advantage ::
  "mat \<Rightarrow> mat \<Rightarrow> 'g list \<Rightarrow> mat \<Rightarrow> mat \<Rightarrow> mat option \<Rightarrow> bool \<Rightarrow> real \<Rightarrow> (mat \<times> mat) result" where
  "compute_optimal_token_baseline_advantage token_level_rewards response_mask index old_log_probs
     sum_pi_squared rollout_is_weights handle_zero_tail epsilon =
     (let returns = rewards_to_go token_level_rewards response_mask;
          w_cumulative = path_variance old_log_probs sum_pi_squared rollout_is_weights response_mask;
          lengths = mask_lengths response_mask
      in rbind (collect_groups index [0..<length token_level_rewards]) (\<lambda>prompt_groups.
         rbind (rfold (\<lambda>(g, is). otb_group epsilon handle_zero_tail returns w_cumulative response_mask lengths is)
             prompt_groups (mmap (\<lambda>_. 0) returns)) (\<lambda>baselines.
         Inr (mmap2 (*) (mmap2 (-) returns baselines) response_mask, returns))))"

text \<open>The multi-turn variant packs the masked tokens of every trajectory to the left first.\<close>

definition pack_row :: "nat \<Rightarrow> vec \<Rightarrow> vec \<Rightarrow> vec" where
  "pack_row width vals msk =
     (let kept = masked_select vals msk in kept @ replicate (width - length kept) 0)"

fun unpack_row :: "vec \<Rightarrow> vec \<Rightarrow> vec" where
  "unpack_row [] vals = []"
| "unpack_row (m # ms) vals =
     (if m \<noteq> 0 then (case vals of [] \<Rightarrow> 0 # unpack_row ms [] | v # vs \<Rightarrow> v # unpack_row ms vs)
      else 0 # unpack_row ms vals)"

definition nonempty_groups :: "'g list \<Rightarrow> nat list \<Rightarrow> ('g, nat list) dict result" where
  "nonempty_groups index lengths =
     rfold (\<lambda>i groups. if lengths ! i = 0 then Inr groups
                        else add_to_group index [0..<length lengths] i groups) [0..<length lengths] []"

definition compute_multi_turn_optimal_token_baseline_advantage ::
  "mat \<Rightarrow> mat \<Rightarrow> 'g list \<Rightarrow> mat \<Rightarrow> mat \<Rightarrow> mat option \<Rightarrow> bool \<Rightarrow> real \<Rightarrow> (mat \<times> mat) result" where
  "compute_multi_turn_optimal_token_baseline_advantage token_level_rewards response_mask index
     old_log_probs sum_pi_squared rollout_is_weights handle_zero_tail epsilon =
     (let token_returns = rewards_to_go token_level_rewards response_mask;
          w_cumulative = path_variance old_log_probs sum_pi_squared rollout_is_weights response_mask;
          lengths = mask_lengths response_mask;
          width = fold max lengths 0;
          all_w_values = map2 (pack_row width) w_cumulative response_mask;
          all_returns = map2 (pack_row width) token_returns response_mask;
          ones = map (\<lambda>_. replicate width 1) lengths
      in rbind (nonempty_groups index lengths) (\<lambda>prompt_groups.
         rbind (rfold (\<lambda>(g, is). otb_group epsilon handle_zero_tail all_returns all_w_values ones lengths is)
             prompt_groups (map (\<lambda>_. replicate width 0) lengths)) (\<lambda>baselines.
         let all_advantages = mmap2 (-) all_returns baselines
         in Inr (mmap2 (*) (map2 unpack_row response_mask all_advantages) response_mask, token_returns))))"

subsection \<open>What the groups hold\<close>

lemma rmap_ex: "(\<And>x. x \<in> set xs \<Longrightarrow> \<exists>y. f x = Inr y) \<Longrightarrow> \<exists>ys. rmap f xs = Inr ys"
  by (induction xs) (auto simp: rbind_Inr_iff)

lemma members_Suc: "members index (Suc n) g = members index n g @ (if index ! n = g then [n] else [])"
  by (simp add: members_def)

lemma members_bound: "i \<in> set (members index n g) \<longleftrightarrow> i < n \<and> index ! i = g"
  by (auto simp: members_def)

lemma rfold_append: "rfold f (xs @ ys) s = rbind (rfold f xs s) (rfold f ys)"
proof (induction xs arbitrary: s)
  case (Cons x xs)
  then show ?case by (cases "f x s") simp_all
qed simp

lemma collect_groups_upto:
  assumes "n \<le> length xs" "rfold (add_to_group index xs) [0..<n] [] = Inr d"
  shows "n \<le> length index \<and> distinct (map fst d)
    \<and> (\<forall>g. map_of d g = (if members index n g = [] then None else Some (map ((!) xs) (members index n g))))"
  using assms
proof (induction n arbitrary: d)
  case 0
  then show ?case by (simp add: members_def)
next
  case (Suc n)
  obtain d' where d': "rfold (add_to_group index xs) [0..<n] [] = Inr d'"
    and d: "add_to_group index xs n d' = Inr d"
    using Suc.prems(2) by (auto simp: rfold_append rbind_Inr_iff)
  have IH: "n \<le> length index" "distinct (map fst d')"
    "\<And>g. map_of d' g = (if members index n g = [] then None else Some (map ((!) xs) (members index n g)))"
    using Suc.IH [OF _ d'] Suc.prems(1) by auto
  have len: "n < length index"
    and upd: "d = AList.update (index ! n)
      ((case map_of d' (index ! n) of None \<Rightarrow> [] | Some vs \<Rightarrow> vs) @ [xs ! n]) d'"
    using d by (auto simp: add_to_group_def rbind_Inr_iff)
  have "map_of d g = (if members index (Suc n) g = [] then None else Some (map ((!) xs) (members index (Suc n) g)))"
    for g
    unfolding upd members_Suc by (simp add: IH(3))
  then show ?case using len IH(2) by (simp add: upd distinct_update)
qed

lemma collect_groups_Inr:
  assumes "collect_groups index xs = Inr d"
  shows "length xs \<le> length index" "distinct (map fst d)"
    "map_of d g = (if members index (length xs) g = [] then None
       else Some (map ((!) xs) (members index (length xs) g)))"
  using collect_groups_upto [of "length xs" xs index d] assms by (auto simp: collect_groups_def)

lemma collect_groups_total:
  assumes "length xs \<le> length index"
  shows "\<exists>d. collect_groups index xs = Inr d"
proof -
  have "\<exists>d. rfold (add_to_group index xs) [0..<n] [] = Inr d" if "n \<le> length xs" for n
    using that assms
    by (induction n) (auto simp: rfold_append add_to_group_def py_nth_def)
  then show ?thesis by (simp add: collect_groups_def)
qed

lemma dict_rmap_Inr:
  "dict_rmap f d = Inr t \<Longrightarrow> map_of t g = Some w \<Longrightarrow> \<exists>v. map_of d g = Some v \<and> f v = Inr w"
  by (induction d arbitrary: t) (auto simp: dict_rmap_def rbind_Inr_iff split: if_splits prod.splits)

lemma dict_rmap_total:
  assumes "distinct (map fst d)" "\<And>g v. map_of d g = Some v \<Longrightarrow> \<exists>w. f v = Inr w"
  shows "\<exists>t. dict_rmap f d = Inr t \<and> (\<forall>g v. map_of d g = Some v \<longrightarrow> (\<exists>w. map_of t g = Some w \<and> f v = Inr w))"
  using assms
proof (induction d)
  case (Cons p d)
  obtain k v where p: "p = (k, v)" by (cases p)
  obtain w where w: "f v = Inr w" using Cons.prems(2) [of k v] p by auto
  have sub: "\<exists>w. f v' = Inr w" if "map_of d g = Some v'" for g v'
  proof -
    have "g \<noteq> k" using that Cons.prems(1) p by (force dest: map_of_SomeD)
    then show ?thesis using Cons.prems(2) [of g v'] that p by simp
  qed
  obtain t where t: "dict_rmap f d = Inr t"
    "\<forall>g v. map_of d g = Some v \<longrightarrow> (\<exists>w. map_of t g = Some w \<and> f v = Inr w)"
    using Cons.IH sub Cons.prems(1) by auto
  then show ?case using p w by (simp add: dict_rmap_def)
qed (simp add: dict_rmap_def)

text \<open>The common shape of the group estimators: what each row is computed from.\<close>

lemma per_row_from_group:
  assumes "collect_groups index xs = Inr d" "dict_rmap f d = Inr t" "per_row index t h (length xs) = Inr a"
  shows "length a = length xs \<and> (\<forall>i < length xs. \<exists>w.
    f (map ((!) xs) (members index (length xs) (index ! i))) = Inr w \<and> h i w = Inr (a ! i))"
proof (intro conjI allI impI)
  show "length a = length xs" using rmap_length [OF assms(3) [unfolded per_row_def]] by simp
  fix i
  assume i: "i < length xs"
  have "rbind (py_nth index i) (\<lambda>g. rbind (dget t g) (h i)) = Inr (a ! i)"
    using rmap_nth [OF assms(3) [unfolded per_row_def], of i] i by simp
  then obtain w where w: "map_of t (index ! i) = Some w" "h i w = Inr (a ! i)"
    by (auto simp: rbind_Inr_iff)
  then obtain v where "map_of d (index ! i) = Some v" "f v = Inr w"
    using dict_rmap_Inr [OF assms(2)] by blast
  then show "\<exists>w. f (map ((!) xs) (members index (length xs) (index ! i))) = Inr w \<and> h i w = Inr (a ! i)"
    using w collect_groups_Inr(3) [OF assms(1)] by (auto split: if_splits)
qed

lemma members_self: "i < n \<Longrightarrow> i \<in> set (members index n (index ! i))"
  by (simp add: members_bound)

lemma members_not_Nil: "i < n \<Longrightarrow> members index n (index ! i) \<noteq> []"
  by (metis members_self empty_iff empty_set)

lemma per_row_total:
  assumes "length xs \<le> length index" "\<And>vs. vs \<noteq> [] \<Longrightarrow> \<exists>w. f vs = Inr w"
    and "\<And>i w. i < length xs \<Longrightarrow> f (map ((!) xs) (members index (length xs) (index ! i))) = Inr w \<Longrightarrow> \<exists>y. h i w = Inr y"
  shows "\<exists>d t a. collect_groups index xs = Inr d \<and> dict_rmap f d = Inr t \<and> per_row index t h (length xs) = Inr a"
proof -
  obtain d where d: "collect_groups index xs = Inr d" using collect_groups_total [OF assms(1)] by blast
  have some: "\<exists>w. f v = Inr w" if "map_of d g = Some v" for g v
    using that assms(2) [of v] collect_groups_Inr(3) [OF d, of g] by (auto split: if_splits)
  obtain t where t: "dict_rmap f d = Inr t"
    "\<forall>g v. map_of d g = Some v \<longrightarrow> (\<exists>w. map_of t g = Some w \<and> f v = Inr w)"
    using dict_rmap_total [of d f] collect_groups_Inr(2) [OF d] some by blast
  have "\<exists>y. rbind (py_nth index i) (\<lambda>g. rbind (dget t g) (h i)) = Inr y" if i: "i < length xs" for i
  proof -
    have "map_of d (index ! i) = Some (map ((!) xs) (members index (length xs) (index ! i)))"
      using collect_groups_Inr(3) [OF d] members_not_Nil [OF i] by simp
    then obtain w where "map_of t (index ! i) = Some w"
      "f (map ((!) xs) (members index (length xs) (index ! i))) = Inr w"
      using t(2) by blast
    moreover obtain y where "h i w = Inr y" using assms(3) [OF i calculation(2)] by blast
    moreover have "i < length index" using i assms(1) by simp
    ultimately show ?thesis by (simp add: py_nth_def dget_def)
  qed
  then have "\<exists>a. per_row index t h (length xs) = Inr a"
    unfolding per_row_def by (intro rmap_ex) simp
  then show ?thesis using d t(1) by blast
qed

subsection \<open>GRPO\<close>


lemma sum_minus_const: "sum_list (map (\<lambda>x. x - c) xs) = sum_list xs - real (length xs) * c" for xs :: vec
  by (induction xs) (simp_all add: algebra_simps)

lemma centered_sum: "xs \<noteq> [] \<Longrightarrow> sum_list (map (\<lambda>x. x - vmean xs) xs) = 0"
  by (simp add: sum_minus_const vmean_def)

lemma vstd_nonneg: "0 \<le> vstd xs"
proof (cases "xs = []")
  case False
  then have "0 \<le> real (length xs) - 1" by (cases xs) simp_all
  moreover have "0 \<le> sum_list (map (\<lambda>x. (x - vmean xs)\<^sup>2) xs)" by (rule sum_list_nonneg) auto
  ultimately show ?thesis unfolding vstd_def by (intro real_sqrt_ge_zero divide_nonneg_nonneg)
qed (simp add: vstd_def)

lemma grpo_scalars:
  assumes "compute_grpo_outcome_advantage R M index eps norm_std = Inr (A, Ret)"
  obtains a where "A = scale_rows a M" "Ret = A" "length a = length R"
    "\<And>i. i < length R \<Longrightarrow> \<exists>m s. group_mean_and_std (map ((!) (row_sums R)) (members index (length R) (index ! i))) = Inr (m, s)
      \<and> (if norm_std then tdiv (row_sums R ! i - m) (s + eps) else Inr (row_sums R ! i - m)) = Inr (a ! i)"
proof -
  obtain d t a where d: "collect_groups index (row_sums R) = Inr d"
    and t: "dict_rmap group_mean_and_std d = Inr t"
    and a: "per_row index t (\<lambda>i (m, s). if norm_std then tdiv (row_sums R ! i - m) (s + eps)
        else Inr (row_sums R ! i - m)) (length (row_sums R)) = Inr a"
    and A: "A = scale_rows a M" "Ret = A"
    using assms unfolding compute_grpo_outcome_advantage_def Let_def by (auto simp: rbind_Inr_iff)
  show thesis
    using that [OF A] per_row_from_group [OF d t a] by (auto split: prod.splits)
qed

lemma members_eq: "j \<in> set (members index n (index ! i)) \<Longrightarrow> members index n (index ! j) = members index n (index ! i)"
  by (simp add: members_bound)

lemma group_mean_and_std_large:
  "1 < length xs \<Longrightarrow> group_mean_and_std xs = Inr (vmean xs, vstd xs)"
  "length xs = 1 \<Longrightarrow> group_mean_and_std xs = Inr (0, 1)"
  by (auto simp: group_mean_and_std_def)

text \<open>Scalars that are the standardised entries of a group of two or more.\<close>

lemma standardised_group:
  fixes a s :: "real list"
  assumes "\<And>j. j \<in> set G \<Longrightarrow> a ! j = (s ! j - vmean (map ((!) s) G)) / (vstd (map ((!) s) G) + eps)"
    and "1 < length G" "0 < eps" "i \<in> set G"
  shows "sum_list (map ((!) a) G) = 0"
    and "list_all (\<lambda>j. (a ! i \<le> a ! j) = (s ! i \<le> s ! j)) G"
    and "list_all (\<lambda>j. s ! j = s ! i) G \<Longrightarrow> a ! i = 0"
proof -
  define xs where "xs = map ((!) s) G"
  have al: "a ! j = (s ! j - vmean xs) / (vstd xs + eps)" if "j \<in> set G" for j
    using assms(1) [OF that] by (simp add: xs_def)
  have ne: "xs \<noteq> []" using assms(2) by (auto simp: xs_def)
  have pos: "0 < vstd xs + eps" using vstd_nonneg [of xs] assms(3) by linarith
  have "map ((!) a) G = map (\<lambda>x. (x - vmean xs) / (vstd xs + eps)) xs" using al by (simp add: xs_def)
  then have "sum_list (map ((!) a) G) = sum_list (map (\<lambda>x. x - vmean xs) xs) / (vstd xs + eps)"
    by (simp add: sum_list_divide)
  then show "sum_list (map ((!) a) G) = 0" using centered_sum [OF ne] by simp
  show "list_all (\<lambda>j. (a ! i \<le> a ! j) = (s ! i \<le> s ! j)) G"
    using pos al assms(4) by (auto simp: list_all_iff divide_le_cancel)
  show "a ! i = 0" if "list_all (\<lambda>j. s ! j = s ! i) G"
  proof -
    have "xs = replicate (length G) (s ! i)"
      unfolding xs_def map_replicate_const [symmetric] using that by (simp add: list_all_iff)
    then have "vmean xs = s ! i" using assms(2) by (auto simp: vmean_def sum_list_replicate)
    then show ?thesis using al [OF assms(4)] by simp
  qed
qed

text \<open>C39: GRPO compares the responses of one prompt with each other. In a group of at least two
  responses the scalar advantages sum to zero, are ordered as the rewards are, and vanish when all
  rewards agree; a lone response keeps its reward (divided by \<open>1 + eps\<close>). Every token of a response
  gets the scalar of its row times the mask.\<close>

theorem grpo_group_advantages:
  assumes "compute_grpo_outcome_advantage R M index eps True = Inr (A, Ret)" and "0 < eps"
  shows "\<exists>a. A = scale_rows a M \<and> Ret = A \<and> length a = length R
    \<and> (\<forall>i < length R. let G = members index (length R) (index ! i); s = row_sums R in
         (if length G = 1 then a ! i = s ! i / (1 + eps)
          else sum_list (map ((!) a) G) = 0
            \<and> list_all (\<lambda>j. (a ! i \<le> a ! j) = (s ! i \<le> s ! j)) G
            \<and> (list_all (\<lambda>j. s ! j = s ! i) G \<longrightarrow> a ! i = 0)))"
proof -
  let ?s = "row_sums R" and ?mem = "\<lambda>i. members index (length R) (index ! i)"
  obtain a where A: "A = scale_rows a M" "Ret = A" "length a = length R"
    and a: "\<And>i. i < length R \<Longrightarrow> \<exists>m s. group_mean_and_std (map ((!) ?s) (?mem i)) = Inr (m, s)
      \<and> (if True then tdiv (?s ! i - m) (s + eps) else Inr (?s ! i - m)) = Inr (a ! i)"
    using grpo_scalars [OF assms(1)] by metis
  have large: "a ! j = (?s ! j - vmean (map ((!) ?s) (?mem i))) / (vstd (map ((!) ?s) (?mem i)) + eps)"
    if "1 < length (?mem i)" "j \<in> set (?mem i)" for i j
    using a [of j] that members_eq [OF that(2)] group_mean_and_std_large(1) [of "map ((!) ?s) (?mem i)"]
    by (auto simp: members_bound)
  show ?thesis
  proof (intro exI [of _ a] conjI A allI impI)
    fix i
    assume i: "i < length R"
    show "let G = ?mem i; s = ?s in (if length G = 1 then a ! i = s ! i / (1 + eps)
          else sum_list (map ((!) a) G) = 0
            \<and> list_all (\<lambda>j. (a ! i \<le> a ! j) = (s ! i \<le> s ! j)) G
            \<and> (list_all (\<lambda>j. s ! j = s ! i) G \<longrightarrow> a ! i = 0))"
    proof (cases "length (?mem i) = 1")
      case True
      then show ?thesis using a [OF i] by (auto simp: group_mean_and_std_large)
    next
      case False
      have big: "1 < length (?mem i)" using False members_not_Nil [OF i, of index] by (cases "?mem i") auto
      show ?thesis using standardised_group [OF large [OF big] big assms(2) members_self [OF i]] False
        by (simp add: Let_def)
    qed
  qed
qed

lemma grpo_total:
  assumes "length R \<le> length index" "0 < eps"
  shows "\<exists>A Ret. compute_grpo_outcome_advantage R M index eps norm_std = Inr (A, Ret)"
proof -
  have "\<exists>d t a. collect_groups index (row_sums R) = Inr d \<and> dict_rmap group_mean_and_std d = Inr t
    \<and> per_row index t (\<lambda>i (m, s). if norm_std then tdiv (row_sums R ! i - m) (s + eps)
        else Inr (row_sums R ! i - m)) (length (row_sums R)) = Inr a"
  proof (rule per_row_total)
    show "\<exists>w. group_mean_and_std vs = Inr w" if "vs \<noteq> []" for vs
      using that by (cases vs) (auto simp: group_mean_and_std_def)
    show "\<exists>y. (case w of (m, s) \<Rightarrow> if norm_std then tdiv (row_sums R ! i - m) (s + eps)
        else Inr (row_sums R ! i - m)) = Inr y"
      if "group_mean_and_std (map ((!) (row_sums R)) (members index (length (row_sums R)) (index ! i))) = Inr w"
        "i < length (row_sums R)" for i w
    proof -
      have "0 \<le> snd w" using that vstd_nonneg by (auto simp: group_mean_and_std_def split: if_splits)
      then show ?thesis using assms(2) by (cases w) (auto simp: tdiv_def)
    qed
  qed (use assms in simp)
  then show ?thesis unfolding compute_grpo_outcome_advantage_def Let_def by auto
qed

theorem grpo_group_advantages_witness:
  "\<exists>A Ret a. compute_grpo_outcome_advantage [[0, 1], [3, 0], [5, 5]] [[1, 1], [1, 0], [1, 1]]
      [''p'', ''p'', ''q''] (1 / 10 ^ 6) True = Inr (A, Ret)
    \<and> A = scale_rows a [[1, 1], [1, 0], [1, 1]] \<and> a ! 0 + a ! 1 = 0 \<and> a ! 2 = 10 / (1 + 1 / 10 ^ 6)"
proof -
  obtain A Ret where c: "compute_grpo_outcome_advantage [[0, 1], [3, 0], [5, 5]] [[1, 1], [1, 0], [1, 1]]
      [''p'', ''p'', ''q''] (1 / 10 ^ 6) True = Inr (A, Ret)"
    using grpo_total [of "[[0, 1], [3, 0], [5, 5]]" "[''p'', ''p'', ''q'']" "1 / 10 ^ 6"] by force
  have m: "members [''p'', ''p'', ''q''] (Suc (Suc (Suc 0))) ''p'' = [0, 1]"
    "members [''p'', ''p'', ''q''] (Suc (Suc (Suc 0))) ''q'' = [2]"
    by code_simp+
  obtain a where A: "A = scale_rows a [[1, 1], [1, 0], [1, 1]]"
    and a: "\<forall>i < length [[0 :: real, 1], [3, 0], [5, 5]].
      let G = members [''p'', ''p'', ''q''] (length [[0 :: real, 1], [3, 0], [5, 5]]) ([''p'', ''p'', ''q''] ! i); s = row_sums [[0, 1], [3, 0], [5, 5]] in
         (if length G = 1 then a ! i = s ! i / (1 + 1 / 10 ^ 6)
          else sum_list (map ((!) a) G) = 0
            \<and> list_all (\<lambda>j. (a ! i \<le> a ! j) = (s ! i \<le> s ! j)) G
            \<and> (list_all (\<lambda>j. s ! j = s ! i) G \<longrightarrow> a ! i = 0))"
    using grpo_group_advantages [OF c] by force
  have "a ! 0 + a ! 1 = 0" using a [rule_format, of 0] by (simp add: m Let_def)
  moreover have "a ! 2 = 10 / (1 + 1 / 10 ^ 6)" using a [rule_format, of 2] by (simp add: m Let_def row_sums_def)
  ultimately show ?thesis using c A by blast
qed

subsection \<open>RLOO\<close>

lemma remove_self_sum:
  assumes "distinct G" "i \<in> set G"
  shows "sum_list (map f (filter (\<lambda>j. j \<noteq> i) G)) = sum_list (map f G) - (f i :: real)"
    "length (filter (\<lambda>j. j \<noteq> i) G) = length G - 1"
proof -
  have "filter (\<lambda>j. j \<noteq> i) G = remove1 i G" using assms(1) by (simp add: distinct_remove1_removeAll removeAll_filter_not_eq) (metis (no_types))
  then show "sum_list (map f (filter (\<lambda>j. j \<noteq> i) G)) = sum_list (map f G) - f i"
    "length (filter (\<lambda>j. j \<noteq> i) G) = length G - 1"
    using assms(2) by (simp_all add: sum_list_map_remove1 length_remove1)
qed

lemma distinct_members: "distinct (members index n g)"
  by (simp add: members_def)

lemma leave_one_out:
  assumes "distinct G" "i \<in> set G" "1 < length G"
  shows "f i * real (length G) / (real (length G) - 1) - vmean (map f G) * real (length G) / (real (length G) - 1)
    = f i - vmean (map f (filter (\<lambda>j. j \<noteq> i) G))"
proof -
  let ?n = "real (length G)"
  have n: "?n - 1 \<noteq> 0" "?n \<noteq> 0" using assms(3) by auto
  have "vmean (map f (filter (\<lambda>j. j \<noteq> i) G)) = (sum_list (map f G) - f i) / (?n - 1)"
    using remove_self_sum(1) [OF assms(1,2), of f] remove_self_sum(2) [OF assms(1,2)] assms(3) by (simp add: vmean_def of_nat_diff)
  moreover have "f i - (sum_list (map f G) - f i) / (?n - 1) = (f i * ?n - sum_list (map f G)) / (?n - 1)"
    using n(1) by (simp add: divide_simps) (simp add: algebra_simps)
  moreover have "vmean (map f G) * ?n = sum_list (map f G)" using n by (simp add: vmean_def)
  ultimately show ?thesis by (simp only: diff_divide_distrib)
qed

lemma rloo_scalars:
  assumes "compute_rloo_outcome_advantage R M index = Inr (A, Ret)"
  obtains a where "A = scale_rows a M" "Ret = A" "length a = length R"
    "\<And>i. i < length R \<Longrightarrow> a ! i = (let G = members index (length R) (index ! i); s = row_sums R in
       if length G = 1 then s ! i else s ! i - vmean (map ((!) s) (filter (\<lambda>j. j \<noteq> i) G)))"
proof -
  let ?s = "row_sums R"
  obtain d t a where d: "collect_groups index ?s = Inr d" and t: "dict_rmap group_mean d = Inr t"
    and a: "per_row index t (\<lambda>i m. rloo_row ?s d (index ! i) i m) (length ?s) = Inr a"
    and A: "A = scale_rows a M" "Ret = A"
    using assms unfolding compute_rloo_outcome_advantage_def Let_def by (auto simp: rbind_Inr_iff)
  have rows: "a ! i = (let G = members index (length R) (index ! i) in
       if length G = 1 then ?s ! i else ?s ! i - vmean (map ((!) ?s) (filter (\<lambda>j. j \<noteq> i) G)))"
    if i: "i < length R" for i
  proof -
    let ?G = "members index (length R) (index ! i)"
    have G: "i \<in> set ?G" "distinct ?G" "?G \<noteq> []"
      by (rule members_self [OF i], rule distinct_members, rule members_not_Nil [OF i])
    obtain m where m: "group_mean (map ((!) ?s) ?G) = Inr m"
      and r: "rloo_row ?s d (index ! i) i m = Inr (a ! i)"
      using per_row_from_group [OF d t a] i by auto
    have "map_of d (index ! i) = Some (map ((!) ?s) ?G)"
      using collect_groups_Inr(3) [OF d] G(3) by simp
    then have r': "a ! i = (if length ?G > 1 then ?s ! i * real (length ?G) / (real (length ?G) - 1)
        - m * real (length ?G) / (real (length ?G) - 1) else ?s ! i)"
      using r by (auto simp: rloo_row_def Let_def rbind_Inr_iff split: if_splits)
    show ?thesis
    proof (cases "length ?G = 1")
      case False
      then have big: "1 < length ?G" using G(3) by (cases ?G) auto
      then have "m = vmean (map ((!) ?s) ?G)" using m by (simp add: group_mean_def)
      then show ?thesis using r' big leave_one_out [OF G(2,1) big, of "(!) ?s"] by (simp add: Let_def)
    qed (simp add: r' Let_def)
  qed
  show thesis
    using that [OF A] per_row_from_group [OF d t a] rows by (auto simp: Let_def)
qed

subsection \<open>Grouping by the inverse of \<open>unique\<close>\<close>

lemma takeWhile_index:
  assumes "x \<in> set u"
  shows "length (takeWhile (\<lambda>y. y \<noteq> x) u) < length u" "u ! length (takeWhile (\<lambda>y. y \<noteq> x) u) = x"
  using assms by (induction u) auto

definition position :: "'a list \<Rightarrow> 'a \<Rightarrow> nat" where
  "position u x = length (takeWhile (\<lambda>y. y \<noteq> x) u)"

lemma nth_position: "x \<in> set u \<Longrightarrow> u ! position u x = x"
  unfolding position_def by (rule takeWhile_index)

lemma unique_inverse_position: "i < length xs \<Longrightarrow> unique_inverse xs ! i = position (sort (remdups xs)) (xs ! i)"
  by (simp add: unique_inverse_def Let_def position_def)

lemma unique_inverse_eq_iff:
  assumes "i < length xs" "j < length xs"
  shows "unique_inverse xs ! i = unique_inverse xs ! j \<longleftrightarrow> xs ! i = xs ! j"
proof
  have mem: "xs ! i \<in> set (sort (remdups xs))" "xs ! j \<in> set (sort (remdups xs))" using assms by auto
  assume "unique_inverse xs ! i = unique_inverse xs ! j"
  then have "position (sort (remdups xs)) (xs ! i) = position (sort (remdups xs)) (xs ! j)"
    using assms by (simp add: unique_inverse_position)
  then show "xs ! i = xs ! j" using nth_position [OF mem(1)] nth_position [OF mem(2)] by metis
next
  assume "xs ! i = xs ! j"
  then show "unique_inverse xs ! i = unique_inverse xs ! j" using assms by (simp add: unique_inverse_position)
qed

lemma length_unique_inverse [simp]: "length (unique_inverse xs) = length xs"
  by (simp add: unique_inverse_def Let_def)

lemma members_cong:
  assumes "\<forall>j < n. (ids ! j = k) = (index ! j = g)"
  shows "members ids n k = members index n g"
  using assms by (auto simp: members_def intro!: filter_cong)

lemma members_unique_inverse:
  assumes "length index = n" "i < n"
  shows "members (unique_inverse index) n (unique_inverse index ! i) = members index n (index ! i)"
  using assms unique_inverse_eq_iff by (intro members_cong) auto

lemma filter_zip_members:
  assumes "length ids = length xs"
  shows "map snd (filter (\<lambda>(i, x). i = g) (zip ids xs)) = map ((!) xs) (members ids (length xs) g)"
proof -
  have "zip ids xs = map (\<lambda>i. (ids ! i, xs ! i)) [0..<length xs]"
    using assms by (intro nth_equalityI) simp_all
  then show ?thesis by (simp add: members_def filter_map comp_def)
qed

lemma index_add_nth:
  assumes "length ids = length xs" "g < G"
  shows "index_add G ids xs ! g = sum_list (map ((!) xs) (members ids (length xs) g))"
  using assms by (simp add: index_add_def filter_zip_members)

lemma fold_max_ge:
  fixes m :: nat
  shows "x \<in> set xs \<Longrightarrow> x \<le> fold max xs m" "m \<le> fold max xs m"
proof (induction xs arbitrary: m)
  case (Cons y ys)
  { case 1
    then show ?case using Cons(1) Cons(2) [of "max y m"] by (auto simp: max.assoc intro: order_trans [of _ "max y m"]) }
  { case 2
    then show ?case using Cons(2) [of "max y m"] by auto }
qed auto

text \<open>The scalar of row \<open>i\<close> in the vectorised estimator, and its leave-one-out form.\<close>

lemma rloo_vectorized_scalars:
  assumes "compute_rloo_vectorized_outcome_advantage R M index = Inr (B, Ret')" and "length index = length R"
  shows "\<exists>b. B = scale_rows b M \<and> (\<forall>i < length R. let G = members index (length R) (index ! i); s = row_sums R in
    b ! i = (real (length G) * s ! i - sum_list (map ((!) s) G)) / max (real (length G) - 1) 1
        * indicator01 (real (length G) > 1))"
proof -
  let ?s = "row_sums R" and ?inv = "unique_inverse index" and ?n = "length R"
  let ?H = "Suc (fold max ?inv 0)"
  define c where "c = map (\<lambda>k. index_add ?H ?inv (map (\<lambda>_. 1) ?inv) ! k) ?inv"
  define t where "t = map (\<lambda>k. index_add ?H ?inv ?s ! k) ?inv"
  define b where "b = map (\<lambda>(s, c, t). (c * s - t) / max (c - 1) 1 * indicator01 (c > 1)) (zip ?s (zip c t))"
  have "b ! i = (real (length G) * ?s ! i - sum_list (map ((!) ?s) G)) / max (real (length G) - 1) 1
        * indicator01 (real (length G) > 1)" if i: "i < ?n" "G = members index ?n (index ! i)" for i G
  proof -
    have H: "?inv ! i < ?H" using i assms(2) fold_max_ge(1) [of "?inv ! i" ?inv 0] by (simp add: le_imp_less_Suc)
    have mem: "members ?inv ?n (?inv ! i) = G" using members_unique_inverse [OF assms(2) i(1)] i(2) by simp
    have "map ((!) (map (\<lambda>_. 1 :: real) ?inv)) G = map (\<lambda>_. 1) G"
      using assms(2) i(2) by (auto simp: members_bound)
    then have "sum_list (map ((!) (map (\<lambda>_. 1 :: real) ?inv)) G) = real (length G)"
      by (simp only: sum_list_triv mult_1_right)
    then have ci: "c ! i = real (length G)"
      using i(1) assms(2) H mem by (simp add: c_def index_add_nth)
    have ti: "t ! i = sum_list (map ((!) ?s) G)"
      using i(1) assms(2) H mem by (simp add: t_def index_add_nth)
    show ?thesis using i(1) assms(2) by (simp add: b_def ci [symmetric] ti [symmetric] c_def t_def)
  qed
  moreover have "B = scale_rows b M"
    using assms(1) by (simp add: compute_rloo_vectorized_outcome_advantage_def Let_def b_def c_def t_def)
  ultimately show ?thesis unfolding Let_def by blast
qed

lemma leave_one_out_rescaled:
  assumes "distinct G" "i \<in> set G" "1 < length G"
  shows "(real (length G) * s ! i - sum_list (map ((!) s) G)) / (real (length G) - 1)
    = s ! i - vmean (map ((!) s) (filter (\<lambda>j. j \<noteq> i) G))"
proof -
  have "(real (length G) * s ! i - sum_list (map ((!) s) G)) / (real (length G) - 1)
      = s ! i * real (length G) / (real (length G) - 1) - vmean (map ((!) s) G) * real (length G) / (real (length G) - 1)"
    using assms(3) by (simp add: vmean_def diff_divide_distrib mult.commute)
  then show ?thesis using leave_one_out [OF assms] by simp
qed

text \<open>RLOO subtracts from each reward the mean reward of the \<open>other\<close> responses to the same prompt.
  The vectorised estimator computes the same advantages in every group of at least two responses;
  for a prompt with a single response the two differ: RLOO keeps the raw reward and the
  vectorised estimator returns zero.\<close>

theorem rloo_leave_one_out:
  assumes "compute_rloo_outcome_advantage R M index = Inr (A, Ret)"
    and "compute_rloo_vectorized_outcome_advantage R M index = Inr (B, Ret')"
    and "length index = length R"
  shows "\<exists>a b. A = scale_rows a M \<and> B = scale_rows b M
    \<and> (\<forall>i < length R. let G = members index (length R) (index ! i); s = row_sums R in
         (if length G = 1 then a ! i = s ! i \<and> b ! i = 0
          else a ! i = s ! i - vmean (map ((!) s) (filter (\<lambda>j. j \<noteq> i) G)) \<and> b ! i = a ! i))"
proof -
  let ?s = "row_sums R" and ?n = "length R"
  obtain a where A: "A = scale_rows a M" "Ret = A" "length a = ?n"
    and a: "\<And>i. i < ?n \<Longrightarrow> a ! i = (let G = members index ?n (index ! i); s = ?s in
       if length G = 1 then s ! i else s ! i - vmean (map ((!) s) (filter (\<lambda>j. j \<noteq> i) G)))"
    by (rule rloo_scalars [OF assms(1)]) blast
  obtain b where B: "B = scale_rows b M"
    and b: "\<forall>i < ?n. let G = members index ?n (index ! i); s = ?s in
      b ! i = (real (length G) * s ! i - sum_list (map ((!) s) G)) / max (real (length G) - 1) 1
        * indicator01 (real (length G) > 1)"
    using rloo_vectorized_scalars [OF assms(2,3)] by blast
  have rows: "let G = members index ?n (index ! i); s = ?s in
         (if length G = 1 then a ! i = s ! i \<and> b ! i = 0
          else a ! i = s ! i - vmean (map ((!) s) (filter (\<lambda>j. j \<noteq> i) G)) \<and> b ! i = a ! i)"
    if i: "i < ?n" for i
  proof -
    let ?G = "members index ?n (index ! i)"
    have G: "i \<in> set ?G" "distinct ?G" "?G \<noteq> []"
      by (rule members_self [OF i], rule distinct_members, rule members_not_Nil [OF i])
    note bi = b [unfolded Let_def, rule_format, OF i]
    show ?thesis
    proof (cases "length ?G = 1")
      case True
      then show ?thesis using a [OF i] bi by (simp add: Let_def indicator01_def)
    next
      case False
      then have big: "1 < length ?G" using G(3) by (cases ?G) auto
      have "b ! i = (real (length ?G) * ?s ! i - sum_list (map ((!) ?s) ?G)) / (real (length ?G) - 1)"
        unfolding bi using big by (simp add: indicator01_def max_def)
      then show ?thesis using a [OF i] False leave_one_out_rescaled [OF G(2,1) big, of ?s] by (simp add: Let_def)
    qed
  qed
  show ?thesis using A(1) B rows by blast
qed

lemma demo_rloo:
  "compute_rloo_outcome_advantage [[1, 0], [0, 3], [8, 0]] [[1, 1], [1, 0], [1, 1]] [''p'', ''p'', ''q'']
    = Inr ([[- 2, - 2], [2, 0], [8, 8]], [[- 2, - 2], [2, 0], [8, 8]])"
  "compute_rloo_vectorized_outcome_advantage [[1, 0], [0, 3], [8, 0]] [[1, 1], [1, 0], [1, 1]] [''p'', ''p'', ''q'']
    = Inr ([[- 2, - 2], [2, 0], [0, 0]], [[- 2, - 2], [2, 0], [0, 0]])"
  by code_simp+

theorem rloo_leave_one_out_witness:
  "\<exists>a b. [[- 2, - 2], [2, 0], [8, 8]] = scale_rows a [[1, 1], [1, 0], [1, 1]]
     \<and> [[- 2, - 2], [2, 0], [0, 0]] = scale_rows b [[1, 1], [1, 0], [1, 1]]
     \<and> a ! 2 = 8 \<and> b ! 2 = 0"
proof -
  have m: "members [''p'', ''p'', ''q''] (Suc (Suc (Suc 0))) ''q'' = [2]" by code_simp
  obtain a b where "[[- 2, - 2], [2, 0], [8, 8]] = scale_rows a [[1, 1], [1, 0], [1, 1]]"
    "[[- 2, - 2], [2, 0], [0, 0]] = scale_rows b [[1, 1], [1, 0], [1, 1]]"
    and r: "\<forall>i < length [[1 :: real, 0], [0, 3], [8, 0]].
      let G = members [''p'', ''p'', ''q''] (length [[1 :: real, 0], [0, 3], [8, 0]]) ([''p'', ''p'', ''q''] ! i);
          s = row_sums [[1, 0], [0, 3], [8, 0]] in
         (if length G = 1 then a ! i = s ! i \<and> b ! i = 0
          else a ! i = s ! i - vmean (map ((!) s) (filter (\<lambda>j. j \<noteq> i) G)) \<and> b ! i = a ! i)"
    using rloo_leave_one_out [OF demo_rloo] by force
  moreover have "a ! 2 = 8 \<and> b ! 2 = 0"
    using r [rule_format, of 2] by (simp add: m Let_def row_sums_def)
  ultimately show ?thesis by blast
qed

subsection \<open>The vectorised GRPO\<close>

lemma sum_sq_centered:
  assumes "xs \<noteq> []"
  shows "sum_list (map (\<lambda>x. (x - vmean xs)\<^sup>2) xs)
    = sum_list (map (\<lambda>x. x * x) xs) - sum_list xs * sum_list xs / real (length xs)"
proof -
  have "sum_list (map (\<lambda>x. (x - c)\<^sup>2) xs)
      = sum_list (map (\<lambda>x. x * x) xs) - 2 * c * sum_list xs + real (length xs) * (c * c)" for c
    by (induction xs) (simp_all add: power2_eq_square algebra_simps)
  from this [of "vmean xs"] show ?thesis using assms by (simp add: vmean_def field_simps)
qed

lemma group_stat_large:
  assumes "1 < length xs" "eps \<le> (vstd xs)\<^sup>2"
  shows "group_stat eps (real (length xs)) (sum_list xs) (sum_list (map (\<lambda>x. x * x) xs)) = (vmean xs, vstd xs)"
proof -
  have ne: "xs \<noteq> []" using assms(1) by auto
  have n: "max (real (length xs)) 1 = real (length xs)" "max (real (length xs) - 1) 1 = real (length xs) - 1"
    using assms(1) by auto
  let ?q = "sum_list (map (\<lambda>x. (x - vmean xs)\<^sup>2) xs) / (real (length xs) - 1)"
  have "0 \<le> ?q" using assms(1) by (intro divide_nonneg_nonneg sum_list_nonneg) auto
  then have q: "(vstd xs)\<^sup>2 = ?q" by (simp add: vstd_def)
  then have "sqrt (max ?q eps) = vstd xs" using assms(2) by (simp add: max_absorb1 vstd_def)
  then show ?thesis
    using assms(1) unfolding group_stat_def Let_def n sum_sq_centered [OF ne] by (simp add: vmean_def)
qed

lemma group_stat_single: "group_stat eps 1 s1 s2 = (0, 1)"
  by (simp add: group_stat_def)

lemma group_mean_std_row:
  assumes "length scores = length ids" "i < length ids"
    and "group_mean_std scores (map int ids) eps = Inr stats"
  shows "stats ! (ids ! i) = (let xs = map ((!) scores) (members ids (length scores) (ids ! i)) in
    group_stat eps (real (length xs)) (sum_list xs) (sum_list (map (\<lambda>x. x * x) xs)))"
proof -
  let ?H = "Suc (fold max ids 0)" and ?G = "members ids (length scores) (ids ! i)"
  have ne: "ids \<noteq> []" using assms(2) by auto
  have H: "ids ! i < ?H" using assms(2) fold_max_ge(1) [of "ids ! i" ids 0] by (simp add: le_imp_less_Suc)
  have st: "stats = map (\<lambda>(c, a, b). group_stat eps c a b) (zip (index_add ?H ids (map (\<lambda>_. 1) scores))
      (zip (index_add ?H ids scores) (index_add ?H ids (map (\<lambda>s. s * s) scores))))"
    using assms(3) ne assms(1) by (auto simp: group_mean_std_def Let_def comp_def split: if_splits)
  have lens: "length (index_add ?H ids ys) = ?H" for ys by (simp add: index_add_def)
  have "map ((!) (map (\<lambda>_. 1 :: real) scores)) ?G = map (\<lambda>_. 1) ?G" by (auto simp: members_bound)
  then have "sum_list (map ((!) (map (\<lambda>_. 1 :: real) scores)) ?G) = real (length ?G)"
    by (simp only: sum_list_triv mult_1_right)
  moreover have "map ((!) (map (\<lambda>s. s * s) scores)) ?G = map (\<lambda>x. x * x) (map ((!) scores) ?G)"
    by (auto simp: members_bound)
  then have "sum_list (map ((!) (map (\<lambda>s. s * s) scores)) ?G) = sum_list (map (\<lambda>x. x * x) (map ((!) scores) ?G))"
    by (rule arg_cong)
  ultimately show ?thesis
    unfolding st using H assms(1) by (simp add: lens index_add_nth Let_def)
qed

lemma rmap_nthI:
  "length xs = length ys \<Longrightarrow> \<forall>i < length xs. f (xs ! i) = Inr (ys ! i) \<Longrightarrow> rmap f xs = Inr ys"
  by (induction xs ys rule: list_induct2) (simp_all add: All_less_Suc2)

lemma group_mean_std_is_group:
  assumes "group_mean_std s (map int (unique_inverse index)) eps = Inr stats" "length index = length s" "i < length s"
    and G: "G = members index (length s) (index ! i)"
    and "1 < length G \<Longrightarrow> eps \<le> (vstd (map ((!) s) G))\<^sup>2"
  shows "group_mean_and_std (map ((!) s) G) = Inr (stats ! (unique_inverse index ! i))"
proof -
  let ?inv = "unique_inverse index"
  have mem: "members ?inv (length s) (?inv ! i) = G" using members_unique_inverse [OF assms(2,3)] G by simp
  have stat: "stats ! (?inv ! i) = group_stat eps (real (length (map ((!) s) G))) (sum_list (map ((!) s) G))
      (sum_list (map (\<lambda>x. x * x) (map ((!) s) G)))"
    using group_mean_std_row [OF _ _ assms(1), of i] assms(2,3) mem by (simp add: Let_def)
  show ?thesis
  proof (cases "length G = 1")
    case True
    then show ?thesis unfolding stat by (simp add: group_mean_and_std_large group_stat_single)
  next
    case False
    have "G \<noteq> []" unfolding G by (rule members_not_Nil [OF assms(3)])
    then have big: "1 < length (map ((!) s) G)" using False by (cases G) auto
    then have "eps \<le> (vstd (map ((!) s) G))\<^sup>2" using assms(5) by simp
    then show ?thesis unfolding stat using group_stat_large [OF big] group_mean_and_std_large(1) [OF big] by simp
  qed
qed

text \<open>The vectorised GRPO is GRPO. For labels that are not all numeric (the uuids of the trainer) and
  groups whose variance is at least \<open>epsilon\<close> (below it the vectorised code uses \<open>epsilon\<close> instead),
  both estimators return the same advantages.\<close>

theorem grpo_vectorized_is_grpo:
  assumes "rmap py_int index = Inl e" "length index = length R" "0 < eps"
    and "\<And>i. i < length R \<Longrightarrow> 1 < length (members index (length R) (index ! i)) \<Longrightarrow>
      eps \<le> (vstd (map ((!) (row_sums R)) (members index (length R) (index ! i))))\<^sup>2"
  shows "compute_grpo_vectorized_outcome_advantage R M (StrLabels index) eps norm_std
    = compute_grpo_outcome_advantage R M index eps norm_std"
proof -
  let ?s = "row_sums R" and ?inv = "unique_inverse index"
  have idx: "as_torch_index (StrLabels index) = map int ?inv" using assms(1) by (simp add: as_torch_index_def)
  obtain A Ret where g: "compute_grpo_outcome_advantage R M index eps norm_std = Inr (A, Ret)"
    using grpo_total [of R index eps M norm_std] assms(2,3) by auto
  obtain a where A: "A = scale_rows a M" "Ret = A" "length a = length R"
    and a: "\<And>i. i < length R \<Longrightarrow> \<exists>m s. group_mean_and_std (map ((!) ?s) (members index (length R) (index ! i))) = Inr (m, s)
      \<and> (if norm_std then tdiv (?s ! i - m) (s + eps) else Inr (?s ! i - m)) = Inr (a ! i)"
    using grpo_scalars [OF g] by metis
  have "\<exists>stats. group_mean_std ?s (map int ?inv) eps = Inr stats"
    using assms(2) by (auto simp: group_mean_std_def Let_def)
  then obtain stats where st: "group_mean_std ?s (map int ?inv) eps = Inr stats" by blast
  let ?f = "\<lambda>(s, k). let (m, sd) = stats ! nat k
                 in if norm_std then tdiv (s - m) (sd + eps) else Inr (s - m)"
  have row: "?f (zip ?s (map int ?inv) ! i) = Inr (a ! i)" if i: "i < length R" for i
  proof -
    have "group_mean_and_std (map ((!) ?s) (members index (length R) (index ! i))) = Inr (stats ! (?inv ! i))"
      using group_mean_std_is_group [OF st, of i] assms(2) assms(4) [OF i] i by simp
    then show ?thesis using a [OF i] i assms(2) by (auto split: prod.splits)
  qed
  have "rmap ?f (zip ?s (map int ?inv)) = Inr a"
  proof -
    show ?thesis using row assms(2) A(3) by (intro rmap_nthI) simp_all
  qed
  then have "compute_grpo_vectorized_outcome_advantage R M (StrLabels index) eps norm_std
      = Inr (scale_rows a M, scale_rows a M)"
    unfolding compute_grpo_vectorized_outcome_advantage_def Let_def idx st by simp
  then show ?thesis using g A by simp
qed

theorem grpo_vectorized_is_grpo_witness:
  "compute_grpo_vectorized_outcome_advantage [[1], [3], [8]] [[1], [1], [1]]
     (StrLabels [''ab-1'', ''ab-1'', ''b'']) (1 / 10 ^ 6) True
   = compute_grpo_outcome_advantage [[1], [3], [8]] [[1], [1], [1]] [''ab-1'', ''ab-1'', ''b''] (1 / 10 ^ 6) True"
proof (rule grpo_vectorized_is_grpo)
  show "rmap py_int [''ab-1'', ''ab-1'', ''b''] = Inl ValueError" by code_simp
  have m: "members [''ab-1'', ''ab-1'', ''b''] (Suc (Suc (Suc 0))) ''ab-1'' = [0, 1]"
    "members [''ab-1'', ''ab-1'', ''b''] (Suc (Suc (Suc 0))) ''b'' = [2]"
    by code_simp+
  fix i
  assume "i < length [[1 :: real], [3], [8]]"
    and "1 < length (members [''ab-1'', ''ab-1'', ''b''] (length [[1 :: real], [3], [8]]) ([''ab-1'', ''ab-1'', ''b''] ! i))"
  then have "i = 0 \<or> i = 1" using m by (auto simp: less_Suc_eq numeral_2_eq_2)
  then show "1 / 10 ^ 6 \<le> (vstd (map ((!) (row_sums [[1], [3], [8]]))
      (members [''ab-1'', ''ab-1'', ''b''] (length [[1 :: real], [3], [8]]) ([''ab-1'', ''ab-1'', ''b''] ! i))))\<^sup>2"
    using m by (auto simp: row_sums_def vstd_def vmean_def)
qed simp_all

subsection \<open>GAE\<close>

definition gae_state :: "real \<Rightarrow> real \<Rightarrow> vec \<Rightarrow> vec \<Rightarrow> vec \<Rightarrow> real \<times> real \<times> vec" where
  "gae_state gamma lam r v m = foldr (gae_step gamma lam) (zip r (zip v m)) (0, 0, [])"

lemma gae_row_state: "gae_row gamma lam r v m = snd (snd (gae_state gamma lam r v m))"
  by (simp add: gae_row_def gae_state_def)

lemma gae_state_Cons:
  "gae_state gamma lam (r # rs) (v # vs) (m # ms) = gae_step gamma lam (r, v, m) (gae_state gamma lam rs vs ms)"
  by (simp add: gae_state_def)

lemma gae_state_Nil [simp]: "gae_state gamma lam [] [] [] = (0, 0, [])"
  by (simp add: gae_state_def)

lemma gae_step_simps:
  "gae_step gamma lam (r, v, 0) (nv, g, out) = (nv, g, g # out)"
  "gae_step gamma lam (r, v, 1) (nv, g, out) =
     (v, r + gamma * nv - v + gamma * lam * g, (r + gamma * nv - v + gamma * lam * g) # out)"
  by (simp_all add: gae_step_def Let_def)

lemma masked_select_Cons [simp]:
  "masked_select (x # xs) (m # ms) = (if m \<noteq> 0 then x # masked_select xs ms else masked_select xs ms)"
  "masked_select [] ms = []"
  by (simp_all add: masked_select_def)

lemma gae_masked_state:
  assumes "length r = length v" "length v = length m" "\<forall>x \<in> set m. x = 0 \<or> x = (1 :: real)"
  shows "\<exists>nv g out out'. gae_state gamma lam r v m = (nv, g, out)
    \<and> gae_state gamma lam (masked_select r m) (masked_select v m) (masked_select m m) = (nv, g, out')
    \<and> length out = length m \<and> masked_select out m = out'"
  using assms
proof (induction r v m rule: list_induct3)
  case (Cons r rs v vs m ms)
  obtain nv g out out' where IH: "gae_state gamma lam rs vs ms = (nv, g, out)"
    "gae_state gamma lam (masked_select rs ms) (masked_select vs ms) (masked_select ms ms) = (nv, g, out')"
    "length out = length ms" "masked_select out ms = out'"
    using Cons.IH Cons.prems by auto
  consider "m = 0" | "m = 1" using Cons.prems by auto
  then show ?case
    by cases (simp_all add: gae_state_Cons IH gae_step_simps)
qed simp

lemma gae_row_length: "length r = length v \<Longrightarrow> length v = length m \<Longrightarrow> length (gae_row gamma lam r v m) = length m"
proof (induction r v m rule: list_induct3)
  case (Cons r rs v vs m ms)
  obtain nv g out where "gae_state gamma lam rs vs ms = (nv, g, out)" by (cases "gae_state gamma lam rs vs ms")
  then show ?case using Cons by (simp add: gae_row_state gae_state_Cons gae_step_def Let_def)
qed (simp add: gae_row_state)

lemma gae_lambda_one:
  assumes "length r = length v"
  shows "\<exists>nv g out run. gae_state gamma 1 r v (map (\<lambda>_. 1) r) = (nv, g, out)
    \<and> foldr (\<lambda>(r, m) (running, out). let ret = r + gamma * running in (ret * m, ret # out))
        (zip r (map (\<lambda>_. 1) r)) (0, []) = (run, map2 (+) out v)
    \<and> nv + g = run \<and> length out = length v"
  using assms
proof (induction r v rule: list_induct2)
  case (Cons r rs v vs)
  then obtain nv g out run where "gae_state gamma 1 rs vs (map (\<lambda>_. 1) rs) = (nv, g, out)"
    "foldr (\<lambda>(r, m) (running, out). let ret = r + gamma * running in (ret * m, ret # out))
        (zip rs (map (\<lambda>_. 1) rs)) (0, []) = (run, map2 (+) out vs)"
    "nv + g = run" "length out = length vs"
    by auto
  then show ?case
    by (simp add: gae_state_Cons gae_step_simps Let_def algebra_simps)
       (rule exI [of _ "r + (g * gamma + gamma * nv) - v"], auto simp: algebra_simps)
qed simp

text \<open>C19: GAE ignores observation tokens. The returns of a row at its response tokens are those computed on
  the row with all masked tokens deleted, whatever rewards and values the masked tokens carry; and
  with \<open>lam = 1\<close> they are the discounted sums of the remaining rewards, independent of the values.\<close>

theorem gae_skips_masked_tokens:
  assumes "compute_gae_advantage_return R V M gamma lam = Inr (A, Ret)"
    and "same_shape R M" "same_shape V M" "is_mask M" "i < length R"
  shows "let r = masked_select (R ! i) (M ! i); v = masked_select (V ! i) (M ! i); ones = map (\<lambda>_. 1) r in
    masked_select (Ret ! i) (M ! i) = map2 (+) (gae_row gamma lam r v ones) v
    \<and> (lam = 1 \<longrightarrow> masked_select (Ret ! i) (M ! i) = discounted_row gamma r ones)"
proof -
  let ?r = "masked_select (R ! i) (M ! i)" and ?v = "masked_select (V ! i) (M ! i)"
  let ?ones = "map (\<lambda>_. 1 :: real) ?r"
  have len: "length R = length M" "length V = length M" using assms(2,3) by (auto dest: same_shape_length)
  have lens: "length (R ! i) = length (V ! i)" "length (V ! i) = length (M ! i)"
    using assms(2,3,5) len unfolding same_shape_def by (metis length_map nth_map)+
  have msk: "\<forall>x \<in> set (M ! i). x = 0 \<or> x = 1" using assms(4,5) len unfolding is_mask_def by (metis nth_mem)
  have Ret: "Ret ! i = map2 (+) (gae_row gamma lam (R ! i) (V ! i) (M ! i)) (V ! i)"
    using assms(1,5) len by (auto simp: compute_gae_advantage_return_def Let_def rbind_Inr_iff mmap2_def split: if_splits)
  have select: "masked_select (map2 (+) a b) m = map2 (+) (masked_select a m) (masked_select b m)"
    if "length a = length b" "length b = length m" for a b m :: vec
    using that by (induction a b m rule: list_induct3) simp_all
  have mm: "masked_select m m = map (\<lambda>_. 1) (masked_select x m)"
    if "length x = length m" "\<forall>z \<in> set m. z = 0 \<or> z = (1 :: real)" for x m :: vec
    using that by (induction x m rule: list_induct2) auto
  have lsel: "length (masked_select a m) = length (masked_select b m)" if "length a = length b" "length b = length m" for a b m :: vec
    using that by (induction a b m rule: list_induct3) simp_all
  have ones: "masked_select (M ! i) (M ! i) = ?ones" using mm [of "R ! i" "M ! i"] lens msk by simp
  have g: "masked_select (gae_row gamma lam (R ! i) (V ! i) (M ! i)) (M ! i) = gae_row gamma lam ?r ?v ?ones"
    using gae_masked_state [OF lens msk, of gamma lam] unfolding gae_row_state ones by auto
  then have ret: "masked_select (Ret ! i) (M ! i) = map2 (+) (gae_row gamma lam ?r ?v ?ones) ?v"
    unfolding Ret using select gae_row_length [OF lens] lens by simp
  have "map2 (+) (gae_row gamma 1 ?r ?v ?ones) ?v = discounted_row gamma ?r ?ones"
    using gae_lambda_one [OF lsel [OF lens], of gamma] unfolding gae_row_state discounted_row_def by auto
  then show ?thesis using ret by (simp add: Let_def)
qed

theorem gae_skips_masked_tokens_witness:
  "\<exists>A Ret. compute_gae_advantage_return [[1, 7, 2]] [[3, 9, 4]] [[1, 0, 1]] (1 / 2) 1 = Inr (A, Ret)
     \<and> masked_select (Ret ! 0) [1, 0, 1] = [2, 2]"
proof -
  have "\<exists>v. masked_var [gae_row (1 / 2) 1 [1, 7, 2] [3, 9, 4] [1, 0, 1]] [[1, 0, 1]] = Inr v"
    by (simp add: masked_var_def msum_def Let_def)
  then obtain A Ret where g: "compute_gae_advantage_return [[1, 7, 2]] [[3, 9, 4]] [[1, 0, 1]] (1 / 2) 1 = Inr (A, Ret)"
    by (auto simp: compute_gae_advantage_return_def masked_whiten_def mwidth_def Let_def)
  show ?thesis
    using gae_skips_masked_tokens [OF g, of 0] g
    by (auto simp: same_shape_def is_mask_def discounted_row_def Let_def)
qed

subsection \<open>OPO\<close>

lemma opo_centered:
  assumes "opo_baseline ps = Inr b" "1 < length ps"
  shows "sum_list (map (\<lambda>(s, len). len * (s - b)) ps) = 0"
proof -
  have b: "b * sum_list (map snd ps) = sum_list (map (\<lambda>(s, len). len * s) ps)"
    using assms by (auto simp: opo_baseline_def split: if_splits)
  have "sum_list (map (\<lambda>(s, len). len * (s - b)) ps)
      = sum_list (map (\<lambda>(s, len). len * s) ps) - b * sum_list (map snd ps)"
    by (induction ps) (auto simp: algebra_simps)
  then show ?thesis using b by simp
qed

text \<open>The baseline of OPO is the length-weighted mean of the group: in every prompt group with at least
  two responses, the advantages weighted by response length sum to zero.\<close>

theorem opo_length_weighted_baseline:
  assumes "compute_opo_outcome_advantage R M index = Inr (A, Ret)" "length M = length R"
  shows "\<exists>a. A = scale_rows a M \<and> Ret = A \<and> length a = length R
    \<and> (\<forall>i < length R. let G = members index (length R) (index ! i) in
         (if length G = 1 then a ! i = row_sums R ! i
          else sum_list (map (\<lambda>j. row_sums M ! j * a ! j) G) = 0))"
proof -
  let ?s = "row_sums R" and ?l = "row_sums M"
  obtain d t a where d: "collect_groups index (zip ?s ?l) = Inr d" and t: "dict_rmap opo_baseline d = Inr t"
    and a: "per_row index t (\<lambda>i b. Inr (?s ! i - b)) (length ?s) = Inr a"
    and A: "A = scale_rows a M" "Ret = A"
    using assms(1) unfolding compute_opo_outcome_advantage_def Let_def by (auto simp: rbind_Inr_iff)
  have n: "length (zip ?s ?l) = length R" using assms(2) by simp
  note row = per_row_from_group [OF d t, of "\<lambda>i b. Inr (?s ! i - b)" a]
  have rows: "length a = length R" "\<And>i. i < length R \<Longrightarrow>
      \<exists>b. opo_baseline (map ((!) (zip ?s ?l)) (members index (length R) (index ! i))) = Inr b \<and> a ! i = ?s ! i - b"
    using row a assms(2) by auto
  show ?thesis
  proof (intro exI [of _ a] conjI A rows(1) allI impI)
    fix i
    assume i: "i < length R"
    let ?G = "members index (length R) (index ! i)" and ?ps = "map ((!) (zip ?s ?l)) (members index (length R) (index ! i))"
    obtain b where b: "opo_baseline ?ps = Inr b" "a ! i = ?s ! i - b" using rows(2) [OF i] by blast
    show "let G = ?G in (if length G = 1 then a ! i = ?s ! i
        else sum_list (map (\<lambda>j. ?l ! j * a ! j) G) = 0)"
    proof (cases "length ?G = 1")
      case True
      then show ?thesis using b by (auto simp: opo_baseline_def Let_def)
    next
      case False
      then have big: "1 < length ?ps" using members_not_Nil [OF i, of index] by (cases ?G) auto
      have aj: "a ! j = ?s ! j - b" if "j \<in> set ?G" for j
        using rows(2) [of j] that members_eq [OF that] b(1) by (auto simp: members_bound)
      have "map (\<lambda>j. ?l ! j * a ! j) ?G = map (\<lambda>(s, len). len * (s - b)) ?ps"
        using aj assms(2) by (auto simp: members_bound)
      then show ?thesis using opo_centered [OF b(1) big] False by (simp only: Let_def if_False)
    qed
  qed
qed

lemma demo_opo:
  "compute_opo_outcome_advantage [[1, 0], [0, 4], [8, 0]] [[1, 1], [1, 0], [1, 1]] [''p'', ''p'', ''q'']
    = Inr ([[- 1, - 1], [2, 0], [8, 8]], [[- 1, - 1], [2, 0], [8, 8]])"
  by code_simp

theorem opo_length_weighted_baseline_witness:
  "\<exists>a. [[- 1, - 1], [2, 0], [8, 8]] = scale_rows a [[1, 1], [1, 0], [1, 1]] \<and> a ! 2 = 8"
proof -
  have m: "members [''p'', ''p'', ''q''] (Suc (Suc (Suc 0))) ''q'' = [2]" by code_simp
  obtain a where "[[- 1, - 1], [2, 0], [8, 8]] = scale_rows a [[1, 1], [1, 0], [1, 1]]"
    and r: "\<forall>i < length [[1 :: real, 0], [0, 4], [8, 0]].
      let G = members [''p'', ''p'', ''q''] (length [[1 :: real, 0], [0, 4], [8, 0]]) ([''p'', ''p'', ''q''] ! i) in
         (if length G = 1 then a ! i = row_sums [[1, 0], [0, 4], [8, 0]] ! i
          else sum_list (map (\<lambda>j. row_sums [[1, 1], [1, 0], [1, 1]] ! j * a ! j) G) = 0)"
    using opo_length_weighted_baseline [OF demo_opo] by force
  moreover have "a ! 2 = 8" using r [rule_format, of 2] by (simp add: m Let_def row_sums_def)
  ultimately show ?thesis by blast
qed

end
