(* ===== verification/PyValue.thy ===== *)
theory PyValue
  imports Prelude
begin

section \<open>Python objects as values\<close>

text \<open>
  The objects that travel in \<open>meta_info\<close> dictionaries and in object arrays: None, booleans,
  integers, floats (idealised as reals), strings, lists and string-keyed dictionaries. Equality
  is Python's \<open>==\<close>: numbers compare by value across their types, dictionaries ignore the order
  of their items. Reference cycles and NaN are not represented.
\<close>

datatype pyv =
    PNone
  | PBool bool
  | PInt int
  | PFloat real
  | PStr string
  | PList "pyv list"
  | PDict "(string \<times> pyv) list"

fun num_of :: "pyv \<Rightarrow> real option" where
  "num_of (PBool b) = Some (if b then 1 else 0)"
| "num_of (PInt i) = Some (of_int i)"
| "num_of (PFloat x) = Some x"
| "num_of _ = None"

text \<open>The truth value of an object in a condition.\<close>

fun truthy :: "pyv \<Rightarrow> bool" where
  "truthy PNone = False"
| "truthy (PBool b) = b"
| "truthy (PInt i) = (i \<noteq> 0)"
| "truthy (PFloat x) = (x \<noteq> 0)"
| "truthy (PStr s) = (s \<noteq> [])"
| "truthy (PList xs) = (xs \<noteq> [])"
| "truthy (PDict d) = (d \<noteq> [])"

lemma size_zip_left [termination_simp]:
  "(x, y) \<in> set (zip xs ys) \<Longrightarrow> size x < Suc (size_list size xs)"
  by (meson less_Suc_eq_le set_zip_leftD size_list_estimation' order_refl)

lemma size_item [termination_simp]:
  "(k, v) \<in> set d \<Longrightarrow> size v < Suc (size_list (size_prod (\<lambda>s. 0) size) d)"
  by (induction d) auto

fun py_eq :: "pyv \<Rightarrow> pyv \<Rightarrow> bool" where
  "py_eq PNone b = (b = PNone)"
| "py_eq (PBool x) b = (num_of b = Some (if x then 1 else 0))"
| "py_eq (PInt i) b = (num_of b = Some (of_int i))"
| "py_eq (PFloat x) b = (num_of b = Some x)"
| "py_eq (PStr s) b = (b = PStr s)"
| "py_eq (PList xs) b = (case b of
     PList ys \<Rightarrow> length xs = length ys \<and> list_all (\<lambda>(x, y). py_eq x y) (zip xs ys)
   | _ \<Rightarrow> False)"
| "py_eq (PDict d) b = (case b of
     PDict e \<Rightarrow> length d = length e \<and>
       list_all (\<lambda>(k, v). case map_of e k of None \<Rightarrow> False | Some w \<Rightarrow> py_eq v w) d
   | _ \<Rightarrow> False)"

text \<open>\<open>type(a) is type(b)\<close>.\<close>

fun same_type :: "pyv \<Rightarrow> pyv \<Rightarrow> bool" where
  "same_type PNone b = (b = PNone)"
| "same_type (PBool _) b = (case b of PBool _ \<Rightarrow> True | _ \<Rightarrow> False)"
| "same_type (PInt _) b = (case b of PInt _ \<Rightarrow> True | _ \<Rightarrow> False)"
| "same_type (PFloat _) b = (case b of PFloat _ \<Rightarrow> True | _ \<Rightarrow> False)"
| "same_type (PStr _) b = (case b of PStr _ \<Rightarrow> True | _ \<Rightarrow> False)"
| "same_type (PList _) b = (case b of PList _ \<Rightarrow> True | _ \<Rightarrow> False)"
| "same_type (PDict _) b = (case b of PDict _ \<Rightarrow> True | _ \<Rightarrow> False)"

text \<open>Dictionaries have distinct keys, at every depth.\<close>

fun wf_pyv :: "pyv \<Rightarrow> bool" where
  "wf_pyv (PList xs) = list_all wf_pyv xs"
| "wf_pyv (PDict d) = (wf_dict d \<and> list_all (\<lambda>(k, v). wf_pyv v) d)"
| "wf_pyv _ = True"

lemma zip_self: "zip xs xs = map (\<lambda>x. (x, x)) xs"
  by (induction xs) auto

lemma wf_dict_map_of: "wf_dict d \<Longrightarrow> (k, v) \<in> set d \<Longrightarrow> map_of d k = Some v"
  by (simp add: wf_dict_def keys_def)

lemma py_eq_refl: "wf_pyv x \<Longrightarrow> py_eq x x"
proof (induction x rule: wf_pyv.induct)
  case (1 xs)
  then show ?case by (auto simp: list_all_iff zip_self)
next
  case (2 d)
  then show ?case by (fastforce simp: list_all_iff wf_dict_map_of)
qed auto

lemma same_type_refl [simp]: "same_type x x"
  by (cases x) auto

text \<open>A dictionary of well-formed objects, the shape of \<open>meta_info\<close>.\<close>

definition wf_meta :: "(string, pyv) dict \<Rightarrow> bool" where
  "wf_meta m \<longleftrightarrow> wf_pyv (PDict m)"

lemma wf_metaD:
  assumes "wf_meta m"
  shows "wf_dict m" "(k, v) \<in> set m \<Longrightarrow> wf_pyv v"
  using assms by (auto simp: wf_meta_def list_all_iff)

end
