(* ===== verification/Protocol.thy ===== *)
theory Protocol
  imports PyValue
begin

section \<open>The batch protocol\<close>

text \<open>
  \<open>verl/protocol.py\<close>: a \<open>DataProto\<close> is a batch of tensors (a \<open>TensorDict\<close> with one batch
  dimension), a dictionary of object arrays and a dictionary of meta information. A tensor is the list
  of its rows along the batch dimension, an array the list of its entries; the types \<open>'r\<close> and \<open>'o\<close>
  of rows and entries are arbitrary. Methods that change \<open>self\<close> return the new value;
  the sharing of \<open>meta_info\<close> between a batch and its pieces is not represented. Of torch and numpy the
  documented effect on the batch dimension is modelled (indexing, slicing, \<open>chunk\<close>,
  \<open>cat\<close>, \<open>stack\<close>, \<open>repeat\<close>, \<open>array_split\<close>).
\<close>

subsection \<open>Data\<close>

record 'r tensordict =
  td_size :: nat
  td_tensors :: "(string, 'r list) dict"

record ('r, 'o) data_proto =
  batch :: "'r tensordict option"
  non_tensor_batch :: "(string, 'o list) dict"
  meta_info :: "(string, pyv) dict"

record ('r, 'o) data_proto_item =
  item_batch :: "(string, 'r) dict option"
  item_non_tensor_batch :: "(string, 'o) dict"
  item_meta_info :: "(string, pyv) dict"

text \<open>The constructor of \<open>TensorDict\<close> checks the batch size of every tensor.\<close>

definition mk_tensordict :: "(string, 'r list) dict \<Rightarrow> nat \<Rightarrow> 'r tensordict result" where
  "mk_tensordict src n =
    (if list_all (\<lambda>(k, v). length v = n) src then Inr \<lparr>td_size = n, td_tensors = src\<rparr> else Inl RuntimeError)"

definition proto_len :: "('r, 'o) data_proto \<Rightarrow> nat" where
  "proto_len d = (case batch d of
     Some t \<Rightarrow> td_size t
   | None \<Rightarrow> (case non_tensor_batch d of [] \<Rightarrow> 0 | (k, v) # _ \<Rightarrow> length v))"

definition check_consistency :: "('r, 'o) data_proto \<Rightarrow> unit result" where
  "check_consistency d = (case batch d of
     Some t \<Rightarrow> py_assert (list_all (\<lambda>(k, v). length v = td_size t) (non_tensor_batch d))
   | None \<Rightarrow> Inr ())"

definition mk_proto ::
  "'r tensordict option \<Rightarrow> (string, 'o list) dict \<Rightarrow> (string, pyv) dict \<Rightarrow> ('r, 'o) data_proto result" where
  "mk_proto b nt meta =
    (let d = \<lparr>batch = b, non_tensor_batch = nt, meta_info = meta\<rparr>
     in rbind (check_consistency d) (\<lambda>_. Inr d))"

definition auto_padding_key :: string where
  "auto_padding_key = ''_verl_auto_padding''"

definition from_dict ::
  "(string, 'r list) dict \<Rightarrow> (string, 'o list) dict \<Rightarrow> (string, pyv) dict \<Rightarrow> bool \<Rightarrow> ('r, 'o) data_proto result" where
  "from_dict tensors non_tensors meta auto_padding =
    (let meta' = (if auto_padding then AList.update auto_padding_key (PBool True) meta else meta)
     in case tensors of
          [] \<Rightarrow> mk_proto None non_tensors meta'
        | (k, v) # _ \<Rightarrow>
            rbind (py_assert (list_all (\<lambda>(k', v'). length v' = length v) tensors)) (\<lambda>_.
            rbind (mk_tensordict tensors (length v)) (\<lambda>t. mk_proto (Some t) non_tensors meta')))"

datatype ('r, 'o) any_array = TorchTensor "'r list" | NumpyArray "'o list" | OtherObject

definition from_single_dict ::
  "(string, ('r, 'o) any_array) dict \<Rightarrow> (string, pyv) dict \<Rightarrow> bool \<Rightarrow> ('r, 'o) data_proto result" where
  "from_single_dict data meta auto_padding =
    (if list_ex (\<lambda>(k, v). v = OtherObject) data then Inl ValueError
     else from_dict [(k, t). (k, TorchTensor t) \<leftarrow> data] [(k, a). (k, NumpyArray a) \<leftarrow> data] meta auto_padding)"

subsection \<open>Indexing\<close>

text \<open>A Python index counts from the end when negative. \<open>range(a, b, s)\<close> and the clamping of
  \<open>slice(start, stop, step).indices(n)\<close>; torch refuses a negative step, numpy reverses.\<close>

definition py_index :: "nat \<Rightarrow> int \<Rightarrow> nat result" where
  "py_index n i = (if 0 \<le> i \<and> i < int n then Inr (nat i)
     else if - int n \<le> i \<and> i < 0 then Inr (nat (int n + i)) else Inl IndexError)"

definition py_range :: "int \<Rightarrow> int \<Rightarrow> int \<Rightarrow> int list" where
  "py_range a b s = map (\<lambda>i. a + int i * s) [0..<nat ((b - a + s - sgn s) div s)]"

definition slice_bound :: "nat \<Rightarrow> int \<Rightarrow> int \<Rightarrow> int \<Rightarrow> int" where
  "slice_bound n lo hi i = max lo (min hi (if i < 0 then i + int n else i))"

definition slice_indices :: "nat \<Rightarrow> int option \<Rightarrow> int option \<Rightarrow> int \<Rightarrow> nat list" where
  "slice_indices n start stop step =
    (let (lo, hi) = (if step < 0 then (- 1, int n - 1) else (0, int n));
         a = (case start of None \<Rightarrow> if step < 0 then hi else lo | Some i \<Rightarrow> slice_bound n lo hi i);
         b = (case stop of None \<Rightarrow> if step < 0 then lo else hi | Some i \<Rightarrow> slice_bound n lo hi i)
     in map nat (py_range a b step))"

definition td_pick :: "nat list \<Rightarrow> 'r tensordict \<Rightarrow> 'r tensordict" where
  "td_pick is t = \<lparr>td_size = length is, td_tensors = dict_map (\<lambda>v. picks v is) (td_tensors t)\<rparr>"

definition slice_proto ::
  "('r, 'o) data_proto \<Rightarrow> int option \<Rightarrow> int option \<Rightarrow> int option \<Rightarrow> ('r, 'o) data_proto result" where
  "slice_proto d start stop step =
    (let st = (case step of None \<Rightarrow> 1 | Some s \<Rightarrow> s)
     in rbind (ensure ValueError ((batch d = None \<or> 0 < st) \<and> (non_tensor_batch d = [] \<or> st \<noteq> 0))) (\<lambda>_.
          mk_proto (map_option (\<lambda>t. td_pick (slice_indices (td_size t) start stop st) t) (batch d))
            (dict_map (\<lambda>v. picks v (slice_indices (length v) start stop st)) (non_tensor_batch d))
            (meta_info d)))"

datatype idxs = IdxInts "int list" | IdxMask "bool list"

text \<open>The rows an index array selects from an array of \<open>n\<close> rows.\<close>

fun resolve_idxs :: "nat \<Rightarrow> idxs \<Rightarrow> nat list result" where
  "resolve_idxs n (IdxInts is) = rmap (py_index n) is"
| "resolve_idxs n (IdxMask bs) =
     (if length bs = n then Inr (filter ((!) bs) [0..<n]) else Inl IndexError)"

definition fancy_index :: "idxs \<Rightarrow> 'a list \<Rightarrow> 'a list result" where
  "fancy_index idx v = rbind (resolve_idxs (length v) idx) (\<lambda>is. Inr (picks v is))"

fun idxs_size :: "idxs \<Rightarrow> nat" where
  "idxs_size (IdxInts is) = length is"
| "idxs_size (IdxMask bs) = length (filter (\<lambda>b. b) bs)"

definition dict_mapr :: "('v \<Rightarrow> 'w result) \<Rightarrow> ('k, 'v) dict \<Rightarrow> ('k, 'w) dict result" where
  "dict_mapr f = rmap (\<lambda>(k, v). rbind (f v) (\<lambda>w. Inr (k, w)))"

text \<open>\<open>None\<close> or a value of a computation that may raise.\<close>

definition opt_result :: "('a \<Rightarrow> 'b result) \<Rightarrow> 'a option \<Rightarrow> 'b option result" where
  "opt_result f a = (case a of None \<Rightarrow> Inr None | Some x \<Rightarrow> rbind (f x) (\<lambda>y. Inr (Some y)))"

definition select_idxs :: "('r, 'o) data_proto \<Rightarrow> idxs \<Rightarrow> ('r, 'o) data_proto result" where
  "select_idxs d idx =
    rbind (opt_result (\<lambda>t. rbind (dict_mapr (fancy_index idx) (td_tensors t)) (\<lambda>src.
        mk_tensordict src (idxs_size idx))) (batch d)) (\<lambda>b.
    rbind (dict_mapr (fancy_index idx) (non_tensor_batch d)) (\<lambda>nt.
    mk_proto b nt (meta_info d)))"

definition getitem_int :: "('r, 'o) data_proto \<Rightarrow> int \<Rightarrow> ('r, 'o) data_proto_item result" where
  "getitem_int d i =
    rbind (opt_result (\<lambda>t. rbind (py_index (td_size t) i) (\<lambda>j. Inr (dict_map (\<lambda>v. v ! j) (td_tensors t)))) (batch d)) (\<lambda>b.
    rbind (dict_mapr (\<lambda>v. rbind (py_index (length v) i) (py_nth v)) (non_tensor_batch d)) (\<lambda>nt.
    Inr \<lparr>item_batch = b, item_non_tensor_batch = nt, item_meta_info = meta_info d\<rparr>))"

definition reorder :: "('r, 'o) data_proto \<Rightarrow> int list \<Rightarrow> ('r, 'o) data_proto result" where
  "reorder d indices = (case batch d of
     None \<Rightarrow> Inl TypeError
   | Some t \<Rightarrow>
       rbind (rmap (py_index (td_size t)) indices) (\<lambda>is.
       rbind (dict_mapr (fancy_index (IdxInts indices)) (non_tensor_batch d)) (\<lambda>nt.
       Inr (d\<lparr>batch := Some (td_pick is t), non_tensor_batch := nt\<rparr>))))"

subsection \<open>Operations on keys\<close>

text \<open>\<open>{key: d[key] for key in ks}\<close> and \<open>{key: val for key, val in d.items() if key in ks}\<close>.\<close>

definition dict_of_keys :: "(string, 'v) dict \<Rightarrow> string list \<Rightarrow> (string, 'v) dict result" where
  "dict_of_keys d ks = rfold (\<lambda>k out. rbind (dget d k) (\<lambda>v. Inr (AList.update k v out))) ks []"

definition dict_restrict :: "(string, 'v) dict \<Rightarrow> string list \<Rightarrow> (string, 'v) dict" where
  "dict_restrict d ks = filter (\<lambda>(k, v). k \<in> set ks) d"

definition select ::
  "('r, 'o) data_proto \<Rightarrow> string list option \<Rightarrow> string list option \<Rightarrow> string list option \<Rightarrow> ('r, 'o) data_proto result" where
  "select d batch_keys non_tensor_batch_keys meta_info_keys =
    rbind (case batch_keys of
        None \<Rightarrow> Inr (batch d)
      | Some ks \<Rightarrow> (case batch d of
          None \<Rightarrow> Inl AttributeError
        | Some t \<Rightarrow> rbind (dict_of_keys (td_tensors t) ks) (\<lambda>src. Inr (Some (t\<lparr>td_tensors := src\<rparr>))))) (\<lambda>b.
    mk_proto b
      (case non_tensor_batch_keys of None \<Rightarrow> non_tensor_batch d | Some ks \<Rightarrow> dict_restrict (non_tensor_batch d) ks)
      (case meta_info_keys of None \<Rightarrow> meta_info d | Some ks \<Rightarrow> dict_restrict (meta_info d) ks))"

text \<open>Popping a list of keys from a dictionary: the popped items and what is left.\<close>

definition pop_keys :: "string list \<Rightarrow> (string, 'v) dict \<Rightarrow> ((string, 'v) dict \<times> (string, 'v) dict) result" where
  "pop_keys ks d = rfold (\<lambda>k (popped, rest).
     (case map_of rest k of
        None \<Rightarrow> Inl AssertionError
      | Some v \<Rightarrow> Inr (AList.update k v popped, AList.delete k rest))) ks ([], d)"

definition pop ::
  "('r, 'o) data_proto \<Rightarrow> string list \<Rightarrow> string list \<Rightarrow> string list
   \<Rightarrow> (('r, 'o) data_proto \<times> ('r, 'o) data_proto) result" where
  "pop d batch_keys non_tensor_batch_keys meta_info_keys =
    rbind (case batch d of
        None \<Rightarrow> if batch_keys = [] then Inr ([], None) else Inl AttributeError
      | Some t \<Rightarrow> rbind (pop_keys batch_keys (td_tensors t)) (\<lambda>(tensors, rest).
          Inr (tensors, Some (t\<lparr>td_tensors := rest\<rparr>)))) (\<lambda>(tensors, b).
    rbind (pop_keys non_tensor_batch_keys (non_tensor_batch d)) (\<lambda>(non_tensors, nt).
    rbind (pop_keys meta_info_keys (meta_info d)) (\<lambda>(meta, mi).
    rbind (from_dict tensors non_tensors meta False) (\<lambda>popped.
    Inr (popped, \<lparr>batch = b, non_tensor_batch = nt, meta_info = mi\<rparr>)))))"

text \<open>
  \<open>rename_key_\<close> takes one key each, where a tuple of several strings is the path of a nested
  key; the tensors of a batch are not nested, so such a path is not found.
\<close>

definition rename_key :: "string list \<Rightarrow> string list \<Rightarrow> 'r tensordict \<Rightarrow> 'r tensordict result" where
  "rename_key old new t = (case (old, new) of
     ([k], [k']) \<Rightarrow> (case map_of (td_tensors t) k of
        None \<Rightarrow> Inl KeyError
      | Some v \<Rightarrow> Inr (if k = k' then t
          else t\<lparr>td_tensors := AList.update k' v (AList.delete k (td_tensors t))\<rparr>))
   | _ \<Rightarrow> Inl KeyError)"

definition rename :: "('r, 'o) data_proto \<Rightarrow> string list \<Rightarrow> string list \<Rightarrow> ('r, 'o) data_proto result" where
  "rename d old_keys new_keys =
    rbind (ensure ValueError (length new_keys = length old_keys)) (\<lambda>_.
    (case batch d of
       None \<Rightarrow> Inl AttributeError
     | Some t \<Rightarrow> rbind (rename_key old_keys new_keys t) (\<lambda>t'. Inr (d\<lparr>batch := Some t'\<rparr>))))"

definition union_tensor_dict :: "'r tensordict \<Rightarrow> 'r tensordict \<Rightarrow> 'r tensordict result" where
  "union_tensor_dict t u =
    rbind (py_assert (td_size t = td_size u)) (\<lambda>_.
    rbind (rfold (\<lambda>(k, v) out. (case map_of out k of
        None \<Rightarrow> Inr (AList.update k v out)
      | Some w \<Rightarrow> rbind (py_assert (w = v)) (\<lambda>_. Inr out))) (td_tensors u) (td_tensors t)) (\<lambda>src.
    Inr (t\<lparr>td_tensors := src\<rparr>)))"

text \<open>\<open>_deep_equal\<close> on objects without cycles, and on arrays entry by entry.\<close>

definition deep_equal :: "pyv \<Rightarrow> pyv \<Rightarrow> bool" where
  "deep_equal a b \<longleftrightarrow> same_type a b \<and> py_eq a b"

definition array_equal :: "pyv list \<Rightarrow> pyv list \<Rightarrow> bool" where
  "array_equal a b \<longleftrightarrow> length a = length b \<and> list_all (\<lambda>(x, y). deep_equal x y) (zip a b)"

text \<open>Merging with an equality test on the keys both have; the value of the second wins.\<close>

definition union_checked :: "('v \<Rightarrow> 'v \<Rightarrow> bool) \<Rightarrow> (string, 'v) dict \<Rightarrow> (string, 'v) dict \<Rightarrow> (string, 'v) dict result" where
  "union_checked eq d1 d2 = rfold (\<lambda>(k, v) out.
     rbind (case map_of out k of None \<Rightarrow> Inr () | Some w \<Rightarrow> py_assert (eq w v)) (\<lambda>_.
     Inr (AList.update k v out))) d2 d1"

definition union_numpy_dict :: "(string, pyv list) dict \<Rightarrow> (string, pyv list) dict \<Rightarrow> (string, pyv list) dict result" where
  "union_numpy_dict = union_checked array_equal"

definition union_two_dict :: "(string, pyv) dict \<Rightarrow> (string, pyv) dict \<Rightarrow> (string, pyv) dict result" where
  "union_two_dict = union_checked (\<lambda>w v. py_eq v w)"

definition union :: "('r, pyv) data_proto \<Rightarrow> ('r, pyv) data_proto \<Rightarrow> ('r, pyv) data_proto result" where
  "union d e = (case (batch d, batch e) of
     (Some t, Some u) \<Rightarrow>
       rbind (union_tensor_dict t u) (\<lambda>b.
       rbind (union_numpy_dict (non_tensor_batch d) (non_tensor_batch e)) (\<lambda>nt.
       rbind (union_two_dict (meta_info d) (meta_info e)) (\<lambda>mi.
       Inr \<lparr>batch = Some b, non_tensor_batch = nt, meta_info = mi\<rparr>)))
   | _ \<Rightarrow> Inl AttributeError)"

subsection \<open>Repetition\<close>

definition repeat_interleave :: "nat \<Rightarrow> 'a list \<Rightarrow> 'a list" where
  "repeat_interleave k v = concat (map (replicate k) v)"

definition repeat_tile :: "nat \<Rightarrow> 'a list \<Rightarrow> 'a list" where
  "repeat_tile k v = concat (replicate k v)"

definition repeat_proto :: "('r, 'o) data_proto \<Rightarrow> nat \<Rightarrow> bool \<Rightarrow> ('r, 'o) data_proto result" where
  "repeat_proto d repeat_times interleave =
    rbind (opt_result (\<lambda>t. mk_tensordict
        (dict_map (\<lambda>v. if interleave then repeat_interleave repeat_times v else repeat_tile repeat_times v) (td_tensors t))
        (td_size t * repeat_times)) (batch d)) (\<lambda>b.
    mk_proto b
      (dict_map (\<lambda>v. if interleave then repeat_interleave repeat_times v else repeat_tile repeat_times v) (non_tensor_batch d))
      (meta_info d))"

text \<open>A repeat count per row; a single count is broadcast, any other mismatch of lengths raises.\<close>

definition repeat_counts :: "py_error \<Rightarrow> nat list \<Rightarrow> 'a list \<Rightarrow> 'a list result" where
  "repeat_counts err cs v =
    (if length cs = length v then Inr (concat (map2 replicate cs v))
     else if length cs = 1 then Inr (repeat_interleave (cs ! 0) v)
     else Inl err)"

definition sample_level_repeat :: "('r, 'o) data_proto \<Rightarrow> nat list \<Rightarrow> ('r, 'o) data_proto result" where
  "sample_level_repeat d repeat_times =
    rbind (opt_result (\<lambda>t. rbind (dict_mapr (repeat_counts RuntimeError repeat_times) (td_tensors t)) (\<lambda>src.
        mk_tensordict src (sum_list repeat_times))) (batch d)) (\<lambda>b.
    rbind (dict_mapr (repeat_counts ValueError repeat_times) (non_tensor_batch d)) (\<lambda>nt.
    mk_proto b nt (meta_info d)))"

text \<open>
  Rows with structure: a scalar or a vector of the next dimension. \<open>unfold_column_chunks\<close> reshapes
  the rows of the split keys, a row of width \<open>w\<close> into \<open>n\<close> rows of width \<open>w / n\<close>, and repeats the others.
\<close>

datatype 'a trow = Scalar 'a | Vector "'a trow list"

definition column_width :: "'a trow list \<Rightarrow> nat result" where
  "column_width v = (case v of
     Vector w # _ \<Rightarrow> Inr (length w)
   | _ \<Rightarrow> Inl IndexError)"

fun row_cells :: "'a trow \<Rightarrow> 'a trow list" where
  "row_cells (Vector w) = w"
| "row_cells (Scalar x) = []"

definition blocks_of :: "nat \<Rightarrow> nat \<Rightarrow> 'a list \<Rightarrow> 'a list list" where
  "blocks_of k m xs = map (\<lambda>c. take k (drop (c * k) xs)) [0..<m]"

definition reshape_columns :: "py_error \<Rightarrow> nat \<Rightarrow> 'a trow list \<Rightarrow> 'a trow list result" where
  "reshape_columns err n v =
    (if v = [] then rbind (ensure ZeroDivisionError (n \<noteq> 0)) (\<lambda>_. Inr [])
     else rbind (column_width v) (\<lambda>w.
      rbind (ensure ZeroDivisionError (n \<noteq> 0)) (\<lambda>_.
      let cells = concat (map row_cells v)
      in rbind (ensure err (length cells = length v * n * (w div n))) (\<lambda>_.
         Inr (map Vector (blocks_of (w div n) (length v * n) cells))))))"

definition unfold_column_chunks ::
  "('a trow, 'b trow) data_proto \<Rightarrow> nat \<Rightarrow> string list option \<Rightarrow> ('a trow, 'b trow) data_proto result" where
  "unfold_column_chunks d n_split split_keys =
    rbind (opt_result (\<lambda>t. rbind (rmap (\<lambda>(k, v).
          rbind (if (case split_keys of Some ks \<Rightarrow> k \<in> set ks | None \<Rightarrow> False) then reshape_columns RuntimeError n_split v
            else Inr (repeat_interleave n_split v)) (\<lambda>w. Inr (k, w))) (td_tensors t)) (\<lambda>src.
        mk_tensordict src (td_size t * n_split))) (batch d)) (\<lambda>b.
    rbind (rmap (\<lambda>(k, v).
        (case split_keys of
           None \<Rightarrow> Inl TypeError
         | Some ks \<Rightarrow> rbind (if k \<in> set ks then reshape_columns ValueError n_split v
             else Inr (repeat_interleave n_split v)) (\<lambda>w. Inr (k, w)))) (non_tensor_batch d)) (\<lambda>nt.
    mk_proto b nt (meta_info d)))"

subsection \<open>Lists of dictionaries\<close>

definition list_of_dict_to_dict_of_list :: "(string, 'v) dict list \<Rightarrow> (string, 'v list) dict result" where
  "list_of_dict_to_dict_of_list ds = (case ds of
     [] \<Rightarrow> Inr []
   | d0 # _ \<Rightarrow> rfold (rfold (\<lambda>(k, v) out. (case map_of out k of
         None \<Rightarrow> Inl AssertionError
       | Some vs \<Rightarrow> Inr (AList.update k (vs @ [v]) out)))) ds (map (\<lambda>k. (k, [])) (keys d0)))"

text \<open>\<open>torch.stack\<close> of rows and \<open>torch.cat\<close> of batches: all must have the same keys.\<close>

definition td_stack :: "(string, 'r) dict option list \<Rightarrow> 'r tensordict result" where
  "td_stack bs = (case bs of
     Some d0 # _ \<Rightarrow>
       if list_all (\<lambda>b. case b of Some e \<Rightarrow> set (keys e) = set (keys d0) | None \<Rightarrow> False) bs
       then mk_tensordict (map (\<lambda>k. (k, map (\<lambda>b. the (map_of (the b) k)) bs)) (keys d0)) (length bs)
       else Inl RuntimeError
   | [] \<Rightarrow> Inl RuntimeError
   | None # _ \<Rightarrow> Inl TypeError)"

definition collate_fn :: "('r, 'o) data_proto_item list \<Rightarrow> ('r, 'o) data_proto result" where
  "collate_fn xs =
    rbind (td_stack (map item_batch xs)) (\<lambda>b.
    rbind (list_of_dict_to_dict_of_list (map item_non_tensor_batch xs)) (\<lambda>nt.
    mk_proto (Some b) nt []))"

definition td_cat :: "'r tensordict option list \<Rightarrow> 'r tensordict option result" where
  "td_cat bs = (case bs of
     [] \<Rightarrow> Inl IndexError
   | None # _ \<Rightarrow> Inr None
   | Some t0 # _ \<Rightarrow>
       rbind (ensure TypeError (None \<notin> set bs)) (\<lambda>_.
       let ts = map the bs
       in if list_all (\<lambda>t. set (keys (td_tensors t)) = set (keys (td_tensors t0))) ts
          then Inr (Some \<lparr>td_size = sum_list (map td_size ts),
            td_tensors = map (\<lambda>k. (k, concat (map (\<lambda>t. the (map_of (td_tensors t) k)) ts))) (keys (td_tensors t0))\<rparr>)
          else Inl RuntimeError))"

definition metrics_of :: "pyv \<Rightarrow> pyv list" where
  "metrics_of v = (case v of PNone \<Rightarrow> [] | PList vs \<Rightarrow> vs | _ \<Rightarrow> [v])"

text \<open>One item of a \<open>meta_info\<close> in \<open>concat\<close>: metrics are collected, other keys must agree.\<close>

definition merge_meta_item ::
  "string \<times> pyv \<Rightarrow> (string, pyv) dict \<times> pyv list \<Rightarrow> ((string, pyv) dict \<times> pyv list) result" where
  "merge_meta_item kv acc = (case (kv, acc) of ((k, v), (merged, metrics)) \<Rightarrow>
     if k = ''metrics'' then Inr (merged, metrics @ metrics_of v)
     else (case map_of merged k of
        Some w \<Rightarrow> rbind (py_assert (py_eq w v)) (\<lambda>_. Inr (merged, metrics))
      | None \<Rightarrow> Inr (AList.update k v merged, metrics)))"

definition metric_dict :: "pyv \<Rightarrow> (string, pyv) dict result" where
  "metric_dict v = (case v of PDict d \<Rightarrow> Inr d | _ \<Rightarrow> Inl AttributeError)"

definition merge_meta :: "(string, pyv) dict list \<Rightarrow> (string, pyv) dict result" where
  "merge_meta metas =
    rbind (rfold (rfold merge_meta_item) metas ([], [])) (\<lambda>(merged, metrics).
    if metrics = [] then Inr merged
    else rbind (rmap metric_dict metrics) (\<lambda>ds.
      rbind (list_of_dict_to_dict_of_list ds) (\<lambda>agg.
      Inr (AList.update ''metrics'' (PDict (dict_map PList agg)) merged))))"

definition concat_proto :: "('r, 'o) data_proto list \<Rightarrow> ('r, 'o) data_proto result" where
  "concat_proto data =
    rbind (td_cat (map batch data)) (\<lambda>b.
    rbind (list_of_dict_to_dict_of_list (map non_tensor_batch data)) (\<lambda>lists.
    rbind (merge_meta (map meta_info data)) (\<lambda>mi.
    mk_proto b (dict_map concat lists) mi)))"

subsection \<open>Padding\<close>

definition is_padding_enabled :: "bool \<Rightarrow> ('r, 'o) data_proto \<Rightarrow> bool" where
  "is_padding_enabled auto_padding d \<longleftrightarrow>
    (case map_of (meta_info d) auto_padding_key of None \<Rightarrow> False | Some v \<Rightarrow> truthy v) \<or> auto_padding"

text \<open>\<open>padding\<close> repeats the first or the last row; it replaces the tensors and arrays in place and
  keeps \<open>meta_info\<close>.\<close>

definition padding :: "('r, 'o) data_proto \<Rightarrow> nat \<Rightarrow> string \<Rightarrow> ('r, 'o) data_proto result" where
  "padding d padding_size padding_candidate =
    (if padding_size = 0 then Inr d
     else rbind (select_idxs d (IdxInts [if padding_candidate = ''first'' then 0 else int (proto_len d) - 1])) (\<lambda>cand.
       rbind (repeat_proto cand padding_size True) (\<lambda>part.
       rbind (concat_proto [d, part]) (\<lambda>p.
       Inr (d\<lparr>batch := batch p, non_tensor_batch := non_tensor_batch p\<rparr>)))))"

text \<open>The loop of \<open>pad_dataproto_to_divisor\<close>: the sizes of the pieces \<open>data[:take_size]\<close>, where
  \<open>None\<close> is a loop that does not end (an empty batch would be taken for ever).\<close>

partial_function (option) pad_take_sizes :: "nat \<Rightarrow> nat \<Rightarrow> nat list option" where
  "pad_take_sizes n remaining_pad =
    (if remaining_pad = 0 then Some []
     else Option.bind (pad_take_sizes n (remaining_pad - min remaining_pad n)) (\<lambda>rest.
       Some (min remaining_pad n # rest)))"

declare pad_take_sizes.simps [code]

definition pad_dataproto_to_divisor ::
  "('r, 'o) data_proto \<Rightarrow> nat \<Rightarrow> (('r, 'o) data_proto \<times> nat) result option" where
  "pad_dataproto_to_divisor data size_divisor =
    (if size_divisor = 0 then Some (Inl ZeroDivisionError)
     else if proto_len data mod size_divisor \<noteq> 0 then
       let pad_size = size_divisor - proto_len data mod size_divisor
       in map_option (\<lambda>takes.
            rbind (rmap (\<lambda>k. slice_proto data None (Some (int k)) None) takes) (\<lambda>padding_protos.
            rbind (concat_proto (data # padding_protos)) (\<lambda>data_padded.
            Inr (data_padded, pad_size)))) (pad_take_sizes (proto_len data) pad_size)
     else Some (Inr (data, 0)))"

definition unpad_dataproto :: "('r, 'o) data_proto \<Rightarrow> nat \<Rightarrow> ('r, 'o) data_proto result" where
  "unpad_dataproto data pad_size =
    (if pad_size \<noteq> 0 then slice_proto data None (Some (- int pad_size)) None else Inr data)"

subsection \<open>Splitting\<close>

text \<open>\<open>TensorDict.chunk\<close> splits into pieces of \<open>\<lceil>n / chunks\<rceil>\<close> rows, possibly fewer than
  \<open>chunks\<close>; \<open>np.array_split\<close> cuts at given offsets, or into pieces whose sizes differ by at most one.\<close>

definition chunk_sizes :: "nat \<Rightarrow> nat \<Rightarrow> nat list result" where
  "chunk_sizes n chunks =
    rbind (ensure ValueError (0 < chunks)) (\<lambda>_.
    let sz = (n + chunks - 1) div chunks
    in rbind (ensure RuntimeError (0 < sz)) (\<lambda>_.
       Inr (map (\<lambda>i. min sz (n - i)) (range_step n sz))))"

fun split_sizes :: "nat list \<Rightarrow> 'a list \<Rightarrow> 'a list list" where
  "split_sizes [] xs = []"
| "split_sizes (s # ss) xs = take s xs # split_sizes ss (drop s xs)"

definition array_split_at :: "nat list \<Rightarrow> 'a list \<Rightarrow> 'a list list" where
  "array_split_at sizes v =
    split_sizes (butlast sizes) v @ [drop (sum_list (butlast sizes)) v]"

definition array_split :: "nat \<Rightarrow> 'a list \<Rightarrow> 'a list list result" where
  "array_split chunks v =
    (if chunks = 0 then Inl ValueError
     else Inr (split_sizes (map (\<lambda>i. length v div chunks + (if i < length v mod chunks then 1 else 0)) [0..<chunks]) v))"

definition td_chunk :: "nat \<Rightarrow> 'r tensordict \<Rightarrow> 'r tensordict list result" where
  "td_chunk chunks t =
    rbind (chunk_sizes (td_size t) chunks) (\<lambda>sizes.
    Inr (map (\<lambda>is. td_pick is t) (split_sizes sizes [0..<td_size t])))"

definition chunk :: "bool \<Rightarrow> ('r, 'o) data_proto \<Rightarrow> nat \<Rightarrow> ('r, 'o) data_proto list result" where
  "chunk auto_padding d chunks =
    rbind (if is_padding_enabled auto_padding d then Inr ()
      else rbind (ensure ZeroDivisionError (chunks \<noteq> 0)) (\<lambda>_. py_assert (proto_len d mod chunks = 0))) (\<lambda>_.
    rbind (case batch d of
        Some t \<Rightarrow> rbind (td_chunk chunks t) (\<lambda>ts. Inr (map Some ts))
      | None \<Rightarrow> Inr (replicate chunks None)) (\<lambda>batch_lst.
    rbind (dict_mapr (\<lambda>v.
        rbind (if batch d \<noteq> None then Inr (array_split_at (map (td_size \<circ> the) batch_lst) v) else array_split chunks v)
          (\<lambda>parts. rbind (py_assert (length parts = chunks)) (\<lambda>_. Inr parts))) (non_tensor_batch d)) (\<lambda>nt.
    rmap (\<lambda>i. rbind (py_nth batch_lst i) (\<lambda>b.
        mk_proto b (dict_map (\<lambda>parts. parts ! i) nt) (meta_info d))) [0..<chunks])))"

definition split :: "('r, 'o) data_proto \<Rightarrow> nat \<Rightarrow> ('r, 'o) data_proto list result" where
  "split d split_size =
    rbind (ensure ValueError (split_size \<noteq> 0)) (\<lambda>_.
    rmap (\<lambda>i. slice_proto d (Some (int i)) (Some (int (i + split_size))) None)
      (range_step (proto_len d) split_size))"

text \<open>
  One epoch of \<open>make_iterator\<close>: the data loader cuts the sampler's order of row numbers into
  mini-batches, collates the items of each, and the iterator restores \<open>meta_info\<close>. The
  order is \<open>range(len(self))\<close> unless \<open>dataloader_kwargs\<close> asks for shuffling.
\<close>

definition epoch_batches :: "('r, 'o) data_proto \<Rightarrow> nat \<Rightarrow> nat list \<Rightarrow> ('r, 'o) data_proto list result" where
  "epoch_batches d mini_batch_size order =
    rmap (\<lambda>is. rbind (rmap (\<lambda>i. getitem_int d (int i)) is) (\<lambda>items.
        rbind (collate_fn items) (\<lambda>b. Inr (b\<lparr>meta_info := meta_info d\<rparr>))))
      (map (\<lambda>i. take mini_batch_size (drop i order)) (range_step (length order) mini_batch_size))"

definition make_iterator ::
  "('r, 'o) data_proto \<Rightarrow> nat \<Rightarrow> nat list list \<Rightarrow> ('r, 'o) data_proto list list result" where
  "make_iterator d mini_batch_size orders = (case batch d of
     None \<Rightarrow> Inl AttributeError
   | Some t \<Rightarrow>
       rbind (ensure ZeroDivisionError (mini_batch_size \<noteq> 0)) (\<lambda>_.
       rbind (py_assert (td_size t mod mini_batch_size = 0)) (\<lambda>_.
       rmap (epoch_batches d mini_batch_size) orders)))"

subsection \<open>Futures\<close>

text \<open>A future stands for the concatenation of the workers' results, of which \<open>get\<close> may take
  one piece.\<close>

record 'ref proto_future =
  futures :: "'ref list"
  dispatch_fn :: "(nat \<times> nat) option" \<comment> \<open>piece \<open>i\<close> of \<open>chunks\<close>\<close>

definition future_concat :: "'ref list \<Rightarrow> 'ref proto_future" where
  "future_concat data = \<lparr>futures = data, dispatch_fn = None\<rparr>"

definition future_chunk :: "'ref proto_future \<Rightarrow> nat \<Rightarrow> 'ref proto_future list" where
  "future_chunk f chunks = map (\<lambda>i. \<lparr>futures = futures f, dispatch_fn = Some (i, chunks)\<rparr>) [0..<chunks]"

definition future_get ::
  "bool \<Rightarrow> ('ref \<Rightarrow> ('r, 'o) data_proto) \<Rightarrow> 'ref proto_future \<Rightarrow> ('r, 'o) data_proto result" where
  "future_get auto_padding ray_get f =
    rbind (concat_proto (map ray_get (futures f))) (\<lambda>out.
    (case dispatch_fn f of
       None \<Rightarrow> Inr out
     | Some (i, chunks) \<Rightarrow> rbind (chunk auto_padding out chunks) (\<lambda>ps. py_nth ps i)))"

end
