(* ===== verification/ProtocolLaws.thy ===== *)
theory ProtocolLaws
  imports Protocol
begin

section \<open>Selecting rows\<close>

definition td_wf :: "'r tensordict \<Rightarrow> bool" where
  "td_wf t \<longleftrightarrow> wf_dict (td_tensors t) \<and> list_all (\<lambda>(k, v). length v = td_size t) (td_tensors t)"

definition aligned :: "nat \<Rightarrow> ('r, 'o) data_proto \<Rightarrow> bool" where
  "aligned n d \<longleftrightarrow>
    (case batch d of Some t \<Rightarrow> td_wf t \<and> td_size t = n | None \<Rightarrow> non_tensor_batch d \<noteq> [] \<or> n = 0)
    \<and> wf_dict (non_tensor_batch d) \<and> list_all (\<lambda>(k, v). length v = n) (non_tensor_batch d)"

definition pick :: "nat list \<Rightarrow> ('r, 'o) data_proto \<Rightarrow> ('r, 'o) data_proto" where
  "pick is d = d\<lparr>batch := map_option (td_pick is) (batch d),
     non_tensor_batch := dict_map (\<lambda>v. picks v is) (non_tensor_batch d)\<rparr>"

lemma list_all_dict_map [simp]: "list_all (\<lambda>(k, v). P k v) (dict_map f d) = list_all (\<lambda>(k, v). P k (f v)) d"
  by (induction d) (auto simp: dict_map_def)

lemma list_all_triv [simp]: "list_all (\<lambda>(k, v). True) d"
  by (simp add: list_all_iff split_def)

lemma picks_all' [simp]: "length v = n \<Longrightarrow> picks v [0..<n] = v"
  by auto

lemma dict_map_Nil [simp]: "dict_map f d = [] \<longleftrightarrow> d = []" "dict_map f [] = []"
  by (simp_all add: dict_map_def)

lemma dict_map_congr: "list_all (\<lambda>(k, v). f v = g v) d \<Longrightarrow> dict_map f d = dict_map g d"
  by (auto simp: dict_map_def list_all_iff)

lemma dict_map_ident: "list_all (\<lambda>(k, v). f v = v) d \<Longrightarrow> dict_map f d = d"
  using dict_map_congr [of f "\<lambda>x. x" d] by simp

lemma dict_mapr_total: "list_all (\<lambda>(k, v). f v = Inr (g v)) d \<Longrightarrow> dict_mapr f d = Inr (dict_map g d)"
  by (induction d) (auto simp: dict_mapr_def dict_map_def)

lemma list_all_and: "list_all P xs \<Longrightarrow> list_all Q xs \<Longrightarrow> list_all (\<lambda>x. P x \<and> Q x) xs"
  by (simp add: list_all_iff)

lemma proto_len_aligned: "aligned n d \<Longrightarrow> proto_len d = n"
  by (auto simp: aligned_def proto_len_def split: option.splits list.splits)

lemma batch_pick [simp]: "batch (pick is d) = map_option (td_pick is) (batch d)"
  and non_tensor_pick [simp]: "non_tensor_batch (pick is d) = dict_map (\<lambda>v. picks v is) (non_tensor_batch d)"
  and meta_pick [simp]: "meta_info (pick is d) = meta_info d"
  by (simp_all add: pick_def)

lemma td_wf_pick [simp]: "td_wf t \<Longrightarrow> td_wf (td_pick is t)"
  by (simp add: td_wf_def td_pick_def)

lemma td_size_pick [simp]: "td_size (td_pick is t) = length is"
  by (simp add: td_pick_def)

lemma aligned_pick [simp]: "aligned n d \<Longrightarrow> non_tensor_batch d \<noteq> [] \<or> batch d \<noteq> None \<Longrightarrow> aligned (length is) (pick is d)"
  by (auto simp: aligned_def split: option.splits)

lemma td_pick_all:
  assumes "td_wf t"
  shows "td_pick [0..<td_size t] t = t"
proof -
  have "dict_map (\<lambda>v. picks v [0..<td_size t]) (td_tensors t) = td_tensors t"
    using assms by (intro dict_map_ident) (auto simp: td_wf_def list_all_iff)
  then show ?thesis by (simp add: td_pick_def)
qed

lemma pick_all: "aligned n d \<Longrightarrow> pick [0..<n] d = d"
proof -
  assume a: "aligned n d"
  then have "map_option (td_pick [0..<n]) (batch d) = batch d"
    by (auto simp: aligned_def td_pick_all split: option.splits)
  moreover have "dict_map (\<lambda>v. picks v [0..<n]) (non_tensor_batch d) = non_tensor_batch d"
    using a by (intro dict_map_ident) (auto simp: aligned_def list_all_iff)
  ultimately show ?thesis by (simp add: pick_def)
qed

lemma td_pick_pick: "\<forall>j \<in> set js. j < length is \<Longrightarrow> td_pick js (td_pick is t) = td_pick (picks is js) t"
  by (simp add: td_pick_def picks_picks comp_def)

lemma pick_pick: "\<forall>j \<in> set js. j < length is \<Longrightarrow> pick js (pick is d) = pick (picks is js) d"
  by (cases d) (simp add: pick_def picks_picks comp_def td_pick_pick option.map_comp)

lemma mk_tensordict_pick:
  "mk_tensordict (dict_map (\<lambda>v. picks v is) (td_tensors t)) (length is) = Inr (td_pick is t)"
  by (simp add: mk_tensordict_def td_pick_def)

lemma mk_proto_pick:
  "mk_proto (map_option (td_pick is) (batch d)) (dict_map (\<lambda>v. picks v is) (non_tensor_batch d)) (meta_info d)
    = Inr (pick is d)"
  by (cases "batch d") (simp_all add: mk_proto_def check_consistency_def pick_def)

lemma py_index_nat: "i < n \<Longrightarrow> py_index n (int i) = Inr i"
  by (simp add: py_index_def)

lemma rmap_py_index: "\<forall>i \<in> set is. i < n \<Longrightarrow> rmap (py_index n) (map int is) = Inr is"
  by (induction "is") (auto simp: py_index_nat)

lemma fancy_index_ints:
  "\<forall>i \<in> set is. i < length v \<Longrightarrow> fancy_index (IdxInts (map int is)) v = Inr (picks v is)"
  by (simp add: fancy_index_def rmap_py_index)

lemma select_idxs_pick:
  assumes "aligned n d" and "\<forall>i \<in> set is. i < n"
  shows "select_idxs d (IdxInts (map int is)) = Inr (pick is d)"
proof -
  have nt: "dict_mapr (fancy_index (IdxInts (map int is))) (non_tensor_batch d)
      = Inr (dict_map (\<lambda>v. picks v is) (non_tensor_batch d))"
    using assms by (intro dict_mapr_total) (auto simp: aligned_def list_all_iff intro!: fancy_index_ints)
  have "opt_result (\<lambda>t. rbind (dict_mapr (fancy_index (IdxInts (map int is))) (td_tensors t)) (\<lambda>src.
        mk_tensordict src (idxs_size (IdxInts (map int is))))) (batch d) = Inr (map_option (td_pick is) (batch d))"
  proof (cases "batch d")
    case (Some t)
    have "dict_mapr (fancy_index (IdxInts (map int is))) (td_tensors t) = Inr (dict_map (\<lambda>v. picks v is) (td_tensors t))"
      using assms Some by (intro dict_mapr_total) (auto simp: aligned_def td_wf_def list_all_iff intro!: fancy_index_ints)
    then show ?thesis using Some by (simp add: opt_result_def mk_tensordict_pick)
  qed (simp add: opt_result_def)
  then show ?thesis using nt by (simp add: select_idxs_def mk_proto_pick)
qed

lemma slice_indices_1:
  "slice_indices n start stop 1 =
    (let a = (case start of None \<Rightarrow> 0 | Some i \<Rightarrow> slice_bound n 0 (int n) i);
         b = (case stop of None \<Rightarrow> int n | Some i \<Rightarrow> slice_bound n 0 (int n) i)
     in [nat a..<nat b])"
proof -
  have "map nat (py_range a b 1) = [nat a..<nat b]" if "0 \<le> a" for a b
  proof -
    have "nat (b - a) = nat b - nat a" using that by linarith
    then have "map nat (py_range a b 1) = map (\<lambda>i. i + nat a) [0..<nat b - nat a]"
      using that by (simp add: py_range_def comp_def nat_add_distrib add.commute)
    also have "\<dots> = [nat a..<nat b]" by (cases "nat a \<le> nat b") (simp_all add: map_add_upt add.commute)
    finally show ?thesis .
  qed
  moreover have "0 \<le> slice_bound n 0 (int n) i" for i by (simp add: slice_bound_def)
  ultimately show ?thesis unfolding slice_indices_def by (auto split: option.splits simp: Let_def)
qed

lemma slice_proto_pick:
  assumes "aligned n d"
  shows "slice_proto d start stop None = Inr (pick (slice_indices n start stop 1) d)"
proof -
  have "map_option (\<lambda>t. td_pick (slice_indices (td_size t) start stop 1) t) (batch d)
      = map_option (td_pick (slice_indices n start stop 1)) (batch d)"
    using assms by (auto simp: aligned_def split: option.splits)
  moreover have "dict_map (\<lambda>v. picks v (slice_indices (length v) start stop 1)) (non_tensor_batch d)
      = dict_map (\<lambda>v. picks v (slice_indices n start stop 1)) (non_tensor_batch d)"
    using assms by (intro dict_map_congr) (auto simp: aligned_def list_all_iff)
  ultimately show ?thesis by (simp add: slice_proto_def mk_proto_pick)
qed

section \<open>Concatenation of selected rows\<close>

lemma map_of_keys_map: "k \<in> set ks \<Longrightarrow> map_of (map (\<lambda>k. (k, f k)) ks) k = Some (f k)"
  by (induction ks) auto

lemma dict_map_keys: "dict_map f (map (\<lambda>k. (k, g k)) ks) = map (\<lambda>k. (k, f (g k))) ks"
  by (simp add: dict_map_def)

lemma wf_dict_as_keys: "wf_dict d \<Longrightarrow> map (\<lambda>k. (k, f (the (map_of d k)))) (keys d) = dict_map f d"
  by (auto simp: keys_def dict_map_def wf_dict_map_of)

lemma update_keys_map:
  "distinct ks \<Longrightarrow> k \<in> set ks \<Longrightarrow>
    AList.update k w (map (\<lambda>k. (k, g k)) ks) = map (\<lambda>k'. (k', if k' = k then w else g k')) ks"
proof (induction ks)
  case (Cons a ks)
  then show ?case by (cases "a = k") auto
qed simp

lemma add_dict_step:
  assumes "distinct ks" "wf_dict d" "set (keys d) \<subseteq> set ks"
  shows "rfold (\<lambda>(k, v) out. (case map_of out k of None \<Rightarrow> Inl AssertionError
      | Some vs \<Rightarrow> Inr (AList.update k (vs @ [v]) out))) d (map (\<lambda>k. (k, g k)) ks)
    = Inr (map (\<lambda>k. (k, g k @ (case map_of d k of None \<Rightarrow> [] | Some v \<Rightarrow> [v]))) ks)"
  using assms
proof (induction d arbitrary: g)
  case (Cons p d)
  obtain k v where p: "p = (k, v)" by force
  have d: "wf_dict d" "k \<notin> set (keys d)" "k \<in> set ks" "set (keys d) \<subseteq> set ks"
    using Cons.prems p by (auto simp: wf_dict_def)
  have none: "map_of d k = None" using d(2) by (simp add: set_keys domIff)
  have "map (\<lambda>k'. (k', (if k' = k then g k @ [v] else g k') @ (case map_of d k' of None \<Rightarrow> [] | Some v \<Rightarrow> [v]))) ks
    = map (\<lambda>k'. (k', g k' @ (case map_of (p # d) k' of None \<Rightarrow> [] | Some v \<Rightarrow> [v]))) ks"
    using none by (auto simp: p)
  then show ?case
    using Cons.IH [of "\<lambda>k'. if k' = k then g k @ [v] else g k'"] d Cons.prems(1)
    by (simp add: p map_of_keys_map update_keys_map)
qed simp

lemma dict_of_lists_same_keys:
  assumes "ds \<noteq> []" "distinct ks" "\<forall>d \<in> set ds. keys d = ks"
  shows "list_of_dict_to_dict_of_list ds = Inr (map (\<lambda>k. (k, map (\<lambda>d. the (map_of d k)) ds)) ks)"
proof -
  let ?add = "rfold (\<lambda>(k, v) out. (case map_of out k of None \<Rightarrow> Inl AssertionError
      | Some vs \<Rightarrow> Inr (AList.update k (vs @ [v]) out)))"
  have loop: "rfold ?add es (map (\<lambda>k. (k, g k)) ks) = Inr (map (\<lambda>k. (k, g k @ map (\<lambda>d. the (map_of d k)) es)) ks)"
    if "\<forall>d \<in> set es. keys d = ks" for es g
    using that
  proof (induction es arbitrary: g)
    case (Cons d es)
    have d: "keys d = ks" "wf_dict d" using Cons.prems assms(2) by (auto simp: wf_dict_def)
    have "\<forall>k \<in> set ks. \<exists>v. map_of d k = Some v" using d(1) set_keys [of d] by auto
    then have eq: "map (\<lambda>k. (k, g k @ (case map_of d k of None \<Rightarrow> [] | Some v \<Rightarrow> [v]))) ks
        = map (\<lambda>k. (k, g k @ [the (map_of d k)])) ks" by auto
    have "set (keys d) \<subseteq> set ks" using d(1) by simp
    from add_dict_step [OF assms(2) d(2) this, of g, unfolded eq]
    show ?case using Cons.IH [of "\<lambda>k. g k @ [the (map_of d k)]"] Cons.prems by simp
  qed simp
  obtain d0 ds' where ds: "ds = d0 # ds'" using assms(1) by (cases ds) auto
  have "keys d0 = ks" using assms(3) ds by simp
  then show ?thesis
    using loop [OF assms(3), of "\<lambda>_. []"] by (simp add: list_of_dict_to_dict_of_list_def ds)
qed

lemma keys_td_pick [simp]: "keys (td_tensors (td_pick is t)) = keys (td_tensors t)"
  by (simp add: td_pick_def)

lemma td_cat_picks:
  assumes "iss \<noteq> []" "td_wf t"
  shows "td_cat (map (\<lambda>is. Some (td_pick is t)) iss) = Inr (Some (td_pick (concat iss) t))"
proof -
  obtain i0 iss' where iss: "iss = i0 # iss'" using assms(1) by (cases iss) auto
  have sizes: "sum_list (map (\<lambda>is. length is) iss) = length (concat iss)" by (simp add: length_concat)
  have "map (\<lambda>k. (k, concat (map (\<lambda>is. the (map_of (td_tensors (td_pick is t)) k)) iss))) (keys (td_tensors t))
      = map (\<lambda>k. (k, concat (map (\<lambda>is. picks (the (map_of (td_tensors t) k)) is) iss))) (keys (td_tensors t))"
    by (auto simp: td_pick_def set_keys domIff intro!: arg_cong [of _ _ concat])
  also have "\<dots> = map (\<lambda>k. (k, picks (the (map_of (td_tensors t) k)) (concat iss))) (keys (td_tensors t))"
    by (simp add: concat_picks)
  also have "\<dots> = dict_map (\<lambda>v. picks v (concat iss)) (td_tensors t)"
    using assms(2) wf_dict_as_keys [of "td_tensors t" "\<lambda>v. picks v (concat iss)"] by (simp add: td_wf_def)
  finally have tensors: "map (\<lambda>k. (k, concat (map (\<lambda>is. the (map_of (td_tensors (td_pick is t)) k)) iss))) (keys (td_tensors t))
      = dict_map (\<lambda>v. picks v (concat iss)) (td_tensors t)" .
  have "td_cat (map (\<lambda>is. Some (td_pick is t)) iss) =
     Inr (Some \<lparr>td_size = sum_list (map (\<lambda>is. length is) iss),
       td_tensors = map (\<lambda>k. (k, concat (map (\<lambda>is. the (map_of (td_tensors (td_pick is t)) k)) iss))) (keys (td_tensors t))\<rparr>)"
    by (simp add: td_cat_def iss Let_def comp_def list_all_iff image_iff)
  then show ?thesis unfolding tensors sizes by (simp add: td_pick_def)
qed

lemma merge_meta_self:
  assumes "wf_meta m" "map_of m ''metrics'' = None" "ms \<noteq> []" "\<forall>x \<in> set ms. x = m"
  shows "merge_meta ms = Inr m"
proof -
  have no: "k \<noteq> ''metrics''" if "(k, v) \<in> set m" for k v
    using that assms(2) by (force simp: map_of_eq_None_iff)
  have first: "rfold merge_meta_item es (acc, []) = Inr (acc @ es, [])"
    if "set es \<subseteq> set m" "distinct (keys acc @ keys es)" for es acc
    using that
  proof (induction es arbitrary: acc)
    case (Cons e es)
    obtain k v where e: "e = (k, v)" by force
    have "map_of acc k = None" using Cons.prems(2) e by (auto simp: map_of_eq_None_iff keys_def)
    then have "merge_meta_item e (acc, []) = Inr (acc @ [e], [])"
      using no [of k v] Cons.prems(1) e by (simp add: merge_meta_item_def update_conv [symmetric])
         (induction acc, auto split: if_splits)
    then show ?case using Cons.IH [of "acc @ [e]"] Cons.prems by simp
  qed simp
  have again: "rfold merge_meta_item es (m, []) = Inr (m, [])" if "set es \<subseteq> set m" for es
    using that
  proof (induction es)
    case (Cons e es)
    obtain k v where e: "e = (k, v)" by force
    have "(k, v) \<in> set m" using Cons.prems e by simp
    then have "merge_meta_item e (m, []) = Inr (m, [])"
      using no [of k v] wf_metaD [OF assms(1)] e by (simp add: merge_meta_item_def wf_dict_map_of py_eq_refl)
    then show ?case using Cons by simp
  qed simp
  have rest: "rfold (rfold merge_meta_item) xs (m, []) = Inr (m, [])" if "\<forall>x \<in> set xs. x = m" for xs
    using that by (induction xs) (auto simp: again)
  obtain ms' where "ms = m # ms'" "\<forall>x \<in> set ms'. x = m" using assms(3,4) by (cases ms) auto
  then show ?thesis
    using rest first [of m "[]"] wf_metaD(1) [OF assms(1)] by (simp add: merge_meta_def wf_dict_def)
qed

text \<open>\<open>meta_info\<close> that \<open>concat\<close> reproduces: no metrics, which it aggregates.\<close>

definition plain_meta :: "('r, 'o) data_proto \<Rightarrow> bool" where
  "plain_meta d \<longleftrightarrow> wf_meta (meta_info d) \<and> map_of (meta_info d) ''metrics'' = None"

lemma concat_proto_picks:
  assumes "aligned n d" "plain_meta d" "iss \<noteq> []"
  shows "concat_proto (map (\<lambda>is. pick is d) iss) = Inr (pick (concat iss) d)"
proof -
  let ?nt = "non_tensor_batch d"
  have b: "td_cat (map batch (map (\<lambda>is. pick is d) iss)) = Inr (map_option (td_pick (concat iss)) (batch d))"
  proof (cases "batch d")
    case None
    then show ?thesis using assms(3) by (cases iss) (simp_all add: td_cat_def)
  next
    case (Some t)
    then show ?thesis using td_cat_picks [OF assms(3), of t] assms(1) by (simp add: comp_def aligned_def)
  qed
  have wf: "wf_dict ?nt" using assms(1) by (simp add: aligned_def)
  have "list_of_dict_to_dict_of_list (map non_tensor_batch (map (\<lambda>is. pick is d) iss))
      = Inr (map (\<lambda>k. (k, map (\<lambda>e. the (map_of e k)) (map non_tensor_batch (map (\<lambda>is. pick is d) iss)))) (keys ?nt))"
    using assms(3) wf by (intro dict_of_lists_same_keys) (auto simp: wf_dict_def)
  moreover have "dict_map concat (map (\<lambda>k. (k, map (\<lambda>e. the (map_of e k)) (map non_tensor_batch (map (\<lambda>is. pick is d) iss)))) (keys ?nt))
      = dict_map (\<lambda>v. picks v (concat iss)) ?nt"
  proof -
    have "map (\<lambda>k. (k, concat (map (\<lambda>is. the (map_of (dict_map (\<lambda>v. picks v is) ?nt) k)) iss))) (keys ?nt)
        = map (\<lambda>k. (k, concat (map (\<lambda>is. picks (the (map_of ?nt k)) is) iss))) (keys ?nt)"
      by (auto simp: set_keys domIff intro!: arg_cong [of _ _ concat])
    also have "\<dots> = dict_map (\<lambda>v. picks v (concat iss)) ?nt"
      using wf_dict_as_keys [OF wf, of "\<lambda>v. picks v (concat iss)"] by (simp add: concat_picks)
    finally show ?thesis by (simp add: dict_map_keys comp_def)
  qed
  moreover have "merge_meta (map meta_info (map (\<lambda>is. pick is d) iss)) = Inr (meta_info d)"
    using assms(2,3) by (intro merge_meta_self) (auto simp: plain_meta_def)
  ultimately show ?thesis using b by (simp add: concat_proto_def mk_proto_pick)
qed

section \<open>Splitting into equal pieces\<close>

lemma picks_block: "i + k \<le> length v \<Longrightarrow> picks v [i..<i + k] = take k (drop i v)"
  by (intro nth_equalityI) (auto simp: picks_def)

lemma split_sizes_replicate:
  "length v = c * k \<Longrightarrow> split_sizes (replicate c k) v = map (\<lambda>i. picks v [i * k..<Suc i * k]) [0..<c]"
proof -
  have blocks: "split_sizes (replicate c k) v = map (\<lambda>i. take k (drop (i * k) v)) [0..<c]" for v :: "'a list"
    by (induction c arbitrary: v) (simp_all add: map_upt_Suc add.commute del: upt_Suc)
  assume len: "length v = c * k"
  have "take k (drop (i * k) v) = picks v [i * k..<Suc i * k]" if "i < c" for i
  proof -
    have "Suc i * k \<le> c * k" using that by (intro mult_le_mono1) simp
    then show ?thesis using picks_block [of "i * k" k v] len by (simp add: add.commute)
  qed
  then show ?thesis unfolding blocks by simp
qed

lemma split_sizes_snoc: "split_sizes (ss @ [s]) v = split_sizes ss v @ [take s (drop (sum_list ss) v)]"
  by (induction ss arbitrary: v) (simp_all add: add.commute)

lemma array_split_at_eq:
  assumes "sizes \<noteq> []" "sum_list sizes = length v"
  shows "array_split_at sizes v = split_sizes sizes v"
proof -
  obtain ss s where s: "sizes = ss @ [s]" using assms(1) by (metis rev_exhaust)
  then have "length (drop (sum_list ss) v) = s" using assms(2) by simp
  then show ?thesis by (simp add: array_split_at_def s split_sizes_snoc)
qed

lemma equal_division:
  assumes "(c :: nat) dvd n" "0 < c" "0 < n"
  obtains k where "n = c * k" "0 < k" "n div c = k"
  using assms by (auto elim!: dvdE)

lemma chunk_sizes_equal:
  assumes "0 < c" "0 < k"
  shows "chunk_sizes (c * k) c = Inr (replicate c k)"
proof -
  have sz: "(c * k + c - 1) div c = k"
    using assms by (intro div_nat_eqI) (simp_all add: algebra_simps)
  have cnt: "(c * k + k - 1) div k = c"
    using assms by (intro div_nat_eqI) (simp_all add: algebra_simps)
  have "map (\<lambda>i. min k (c * k - i)) (map (\<lambda>i. i * k) [0..<c]) = replicate c k"
  proof (rule nth_equalityI)
    fix i
    assume "i < length (map (\<lambda>i. min k (c * k - i)) (map (\<lambda>i. i * k) [0..<c]))"
    then have i: "i < c" by simp
    then have "Suc i * k \<le> c * k" by (intro mult_le_mono1) simp
    then show "map (\<lambda>i. min k (c * k - i)) (map (\<lambda>i. i * k) [0..<c]) ! i = replicate c k ! i"
      using i by simp
  qed simp
  then show ?thesis using assms sz cnt by (simp add: chunk_sizes_def range_step_def)
qed

lemma picks_upt: "\<forall>i \<in> set is. i < n \<Longrightarrow> picks [0..<n] is = is"
  by (simp add: picks_def map_idI)

lemma td_chunk_equal:
  assumes "0 < c" "0 < k" "td_size t = c * k"
  shows "td_chunk c t = Inr (map (\<lambda>i. td_pick [i * k..<Suc i * k] t) [0..<c])"
proof -
  have "picks [0..<c * k] [i * k..<Suc i * k] = [i * k..<Suc i * k]" if "i < c" for i
  proof (rule picks_upt)
    have "Suc i * k \<le> c * k" using that by (intro mult_le_mono1) simp
    then show "\<forall>j \<in> set [i * k..<Suc i * k]. j < c * k" by auto
  qed
  then have "split_sizes (replicate c k) [0..<c * k] = map (\<lambda>i. [i * k..<Suc i * k]) [0..<c]"
    by (simp add: split_sizes_replicate)
  then show ?thesis using assms by (simp add: td_chunk_def chunk_sizes_equal)
qed

lemma array_split_equal:
  assumes "0 < c" "length v = c * k"
  shows "array_split c v = Inr (map (\<lambda>i. picks v [i * k..<Suc i * k]) [0..<c])"
  using assms by (simp add: array_split_def map_replicate_const split_sizes_replicate)

text \<open>The pieces of one array, cut at the sizes of the tensor pieces or evenly.\<close>

lemma chunk_array_parts:
  assumes "length v = c * k" "0 < c"
    and "lst = map (\<lambda>i. map_option (td_pick [i * k..<Suc i * k]) b) [0..<c]"
  shows "rbind (if b \<noteq> None then Inr (array_split_at (map (td_size \<circ> the) lst) v) else array_split c v)
      (\<lambda>parts. rbind (py_assert (length parts = c)) (\<lambda>_. Inr parts)) = Inr (map (\<lambda>i. picks v [i * k..<Suc i * k]) [0..<c])"
proof (cases b)
  case None
  then show ?thesis using array_split_equal [OF assms(2), of v k] assms(1) by simp
next
  case (Some t)
  have "map (td_size \<circ> the) lst = replicate c k"
    by (simp add: assms(3) Some comp_def map_replicate_const)
  then show ?thesis
    using Some assms(1,2) by (simp add: array_split_at_eq sum_list_replicate split_sizes_replicate)
qed

theorem chunk_equal_pieces:
  assumes "aligned n d" "0 < c" "c dvd n" "0 < n"
  shows "chunk ap d c = Inr (map (\<lambda>i. pick [i * (n div c)..<Suc i * (n div c)] d) [0..<c])"
proof -
  obtain k where k: "n = c * k" "0 < k" "n div c = k" using equal_division [OF assms(3,2,4)] .
  define blk where "blk i = [i * k..<Suc i * k]" for i
  have guard: "(if is_padding_enabled ap d then Inr ()
      else rbind (ensure ZeroDivisionError (c \<noteq> 0)) (\<lambda>_. py_assert (proto_len d mod c = 0))) = Inr ()"
    using assms proto_len_aligned [OF assms(1)] by simp
  define lst where "lst = map (\<lambda>i. map_option (td_pick (blk i)) (batch d)) [0..<c]"
  have b: "(case batch d of Some t \<Rightarrow> rbind (td_chunk c t) (\<lambda>ts. Inr (map Some ts))
      | None \<Rightarrow> Inr (replicate c None)) = Inr lst"
  proof (cases "batch d")
    case (Some t)
    then have "td_size t = c * k" using assms(1) k(1) by (simp add: aligned_def)
    then show ?thesis using td_chunk_equal [OF assms(2) k(2), of t] Some by (simp add: lst_def blk_def)
  qed (simp add: lst_def map_replicate_const)
  have one: "rbind (if batch d \<noteq> None then Inr (array_split_at (map (td_size \<circ> the) lst) v) else array_split c v)
      (\<lambda>parts. rbind (py_assert (length parts = c)) (\<lambda>_. Inr parts)) = Inr (map (\<lambda>i. picks v (blk i)) [0..<c])"
    if "length v = n" for v :: "'b list"
    unfolding blk_def by (rule chunk_array_parts) (simp_all only: that k(1) assms(2) lst_def blk_def)
  have nt: "dict_mapr (\<lambda>v. rbind (if batch d \<noteq> None then Inr (array_split_at (map (td_size \<circ> the) lst) v) else array_split c v)
          (\<lambda>parts. rbind (py_assert (length parts = c)) (\<lambda>_. Inr parts))) (non_tensor_batch d)
      = Inr (dict_map (\<lambda>v. map (\<lambda>i. picks v (blk i)) [0..<c]) (non_tensor_batch d))"
  proof (intro dict_mapr_total)
    have "list_all (\<lambda>(k, v). length v = n) (non_tensor_batch d)" using assms(1) by (simp add: aligned_def)
    then show "list_all (\<lambda>(k, v). rbind (if batch d \<noteq> None then Inr (array_split_at (map (td_size \<circ> the) lst) v) else array_split c v)
          (\<lambda>parts. rbind (py_assert (length parts = c)) (\<lambda>_. Inr parts)) = Inr (map (\<lambda>i. picks v (blk i)) [0..<c])) (non_tensor_batch d)"
      by (rule list.pred_mono_strong) (split prod.splits, intro allI impI, rule one, simp only: prod.case)
  qed
  have piece: "rbind (py_nth lst i) (\<lambda>b. mk_proto b (dict_map (\<lambda>parts. parts ! i)
        (dict_map (\<lambda>v. map (\<lambda>i. picks v (blk i)) [0..<c]) (non_tensor_batch d))) (meta_info d)) = Inr (pick (blk i) d)"
    if "i < c" for i
  proof -
    have "dict_map (\<lambda>parts. parts ! i) (dict_map (\<lambda>v. map (\<lambda>i. picks v (blk i)) [0..<c]) (non_tensor_batch d))
        = dict_map (\<lambda>v. picks v (blk i)) (non_tensor_batch d)"
      using that by (simp add: comp_def)
    then show ?thesis using that by (simp add: py_nth_def lst_def mk_proto_pick)
  qed
  have "rmap (\<lambda>i. rbind (py_nth lst i) (\<lambda>b. mk_proto b (dict_map (\<lambda>parts. parts ! i)
        (dict_map (\<lambda>v. map (\<lambda>i. picks v (blk i)) [0..<c]) (non_tensor_batch d))) (meta_info d))) [0..<c]
      = Inr (map (\<lambda>i. pick (blk i) d) [0..<c])"
    by (rule rmap_total, rule piece) simp
  then show ?thesis unfolding chunk_def guard b rbind.simps nt k(3) blk_def .
qed

lemma concat_equal_blocks: "concat (map (\<lambda>i. [i * k..<Suc i * k]) [0..<c]) = [0..<c * k]"
proof -
  have "map (\<lambda>i. [i * k..<Suc i * k]) [0..<c] = map (\<lambda>i. map (\<lambda>j. i * k + j) [0..<k]) [0..<c]"
    by (simp add: map_add_upt add.commute)
  then show ?thesis using concat_blocks [of "\<lambda>i. i" k c] by (simp only: map_ident)
qed

section \<open>Padding\<close>

lemma pad_take_sizes_total:
  assumes "0 < n"
  shows "\<exists>ts. pad_take_sizes n r = Some ts \<and> sum_list ts = r \<and> list_all (\<lambda>t. t \<le> n) ts"
proof (induction r rule: less_induct)
  case (less r)
  show ?case
  proof (cases "r = 0")
    case True
    then show ?thesis by (subst pad_take_sizes.simps) simp
  next
    case False
    then obtain ts where "pad_take_sizes n (r - min r n) = Some ts" "sum_list ts = r - min r n" "list_all (\<lambda>t. t \<le> n) ts"
      using less [of "r - min r n"] assms by auto
    then show ?thesis using False by (subst pad_take_sizes.simps) simp
  qed
qed

lemma pad_take_sizes_empty: "pad_take_sizes 0 r = Some ts \<Longrightarrow> r = 0"
proof -
  have "n = 0 \<longrightarrow> r = 0" if "pad_take_sizes n r = Some ts" for n r ts
  proof (rule pad_take_sizes.raw_induct [of "\<lambda>n r _. n = 0 \<longrightarrow> r = 0", OF _ that])
    fix f :: "nat \<Rightarrow> nat \<Rightarrow> nat list option" and n r ts
    assume h: "\<And>n r ts. f n r = Some ts \<Longrightarrow> n = 0 \<longrightarrow> r = 0"
      and e: "(if r = 0 then Some [] else Option.bind (f n (r - min r n)) (\<lambda>rest. Some (min r n # rest))) = Some ts"
    show "n = 0 \<longrightarrow> r = 0"
    proof (cases "r = 0")
      case False
      then obtain rest where "f n (r - min r n) = Some rest" using e by (auto split: bind_splits)
      from h [OF this] show ?thesis by (auto simp: min_def split: if_splits)
    qed simp
  qed
  then show "pad_take_sizes 0 r = Some ts \<Longrightarrow> r = 0" by blast
qed

lemma slice_head_pick:
  assumes "aligned n d" "k \<le> n"
  shows "slice_proto d None (Some (int k)) None = Inr (pick [0..<k] d)"
  using assms by (simp add: slice_proto_pick slice_indices_1 slice_bound_def Let_def)

lemma slice_prefix_pick:
  assumes "aligned (n + m) d" "0 < m"
  shows "slice_proto d None (Some (- int m)) None = Inr (pick [0..<n] d)"
  using assms by (simp add: slice_proto_pick slice_indices_1 slice_bound_def Let_def)

lemma pad_to_divisor_pick:
  assumes "aligned n d" "plain_meta d" "0 < k"
  shows "\<exists>pads pad. pad_dataproto_to_divisor d k = Some (Inr (pick ([0..<n] @ pads) d, pad))
    \<and> length pads = pad \<and> pad < k \<and> k dvd n + pad \<and> list_all (\<lambda>i. i < n) pads \<and> (pad = 0 \<or> 0 < n)"
proof (cases "n mod k = 0")
  case True
  then have "pad_dataproto_to_divisor d k = Some (Inr (pick ([0..<n] @ []) d, 0))"
    using assms pick_all [OF assms(1)] proto_len_aligned [OF assms(1)] by (simp add: pad_dataproto_to_divisor_def)
  then show ?thesis using True assms(3)
    by (intro exI [of _ "[]"] exI [of _ 0]) (auto simp: mod_eq_0_iff_dvd)
next
  case False
  define pad where "pad = k - n mod k"
  have n: "0 < n" using False by (cases n) auto
  obtain ts where ts: "pad_take_sizes n pad = Some ts" "sum_list ts = pad" "list_all (\<lambda>t. t \<le> n) ts"
    using pad_take_sizes_total [OF n] by blast
  define iss where "iss = [0..<n] # map (\<lambda>t. [0..<t]) ts"
  have "rmap (\<lambda>t. slice_proto d None (Some (int t)) None) ts = Inr (map (\<lambda>t. pick [0..<t] d) ts)"
    using ts(3) slice_head_pick [OF assms(1)] by (intro rmap_total) (auto simp: list_all_iff)
  moreover have "concat_proto (d # map (\<lambda>t. pick [0..<t] d) ts) = Inr (pick (concat iss) d)"
    using concat_proto_picks [OF assms(1,2), of iss] pick_all [OF assms(1)] by (simp add: iss_def comp_def)
  ultimately have r: "pad_dataproto_to_divisor d k = Some (Inr (pick ([0..<n] @ concat (map (\<lambda>t. [0..<t]) ts)) d, pad))"
    using False assms(3) ts(1) proto_len_aligned [OF assms(1)]
    by (simp add: pad_dataproto_to_divisor_def pad_def [symmetric] Let_def iss_def)
  have len: "length (concat (map (\<lambda>t. [0..<t]) ts)) = pad" using ts(2) by (simp add: length_concat comp_def)
  have "n + pad = k * (n div k) + k"
    using mult_div_mod_eq [of k n] mod_less_divisor [OF assms(3), of n] unfolding pad_def by linarith
  then have "k dvd n + pad" by simp
  moreover have "pad < k" using False assms(3) by (simp add: pad_def)
  moreover have "list_all (\<lambda>i. i < n) (concat (map (\<lambda>t. [0..<t]) ts))" using ts(3) by (auto simp: list_all_iff)
  ultimately show ?thesis using r len n by blast
qed

lemma unpad_pick:
  assumes "aligned n d" "length pads = pad" "pad = 0 \<or> 0 < n"
  shows "unpad_dataproto (pick ([0..<n] @ pads) d) pad = Inr d"
proof (cases "pad = 0")
  case True
  then show ?thesis using assms by (simp add: unpad_dataproto_def pick_all)
next
  case False
  then have "non_tensor_batch d \<noteq> [] \<or> batch d \<noteq> None" using assms by (auto simp: aligned_def split: option.splits)
  then have "aligned (n + pad) (pick ([0..<n] @ pads) d)" using aligned_pick [OF assms(1), of "[0..<n] @ pads"] assms(2) by simp
  then have "unpad_dataproto (pick ([0..<n] @ pads) d) pad = Inr (pick [0..<n] (pick ([0..<n] @ pads) d))"
    using False slice_prefix_pick by (simp add: unpad_dataproto_def)
  also have "pick [0..<n] (pick ([0..<n] @ pads) d) = pick (picks ([0..<n] @ pads) [0..<n]) d"
    by (intro pick_pick) auto
  also have "picks ([0..<n] @ pads) [0..<n] = [0..<n]"
    unfolding picks_def by (rule map_idI) (simp add: nth_append)
  finally show ?thesis by (simp add: pick_all [OF assms(1)])
qed

section \<open>Mini-batches\<close>

lemma mini_batches_concat:
  assumes "0 < m"
  shows "concat (map (\<lambda>i. take m (drop i xs)) (range_step (length xs) m)) = xs"
proof -
  have "concat (map (\<lambda>c. take m (drop (c * m) xs)) [0..<q]) = take (q * m) xs" for q
    by (induction q) (simp_all add: take_add [symmetric] add.commute)
  moreover have "length xs \<le> (length xs + m - 1) div m * m"
    using assms div_mult_mod_eq [of "length xs + m - 1" m] mod_less_divisor [OF assms, of "length xs + m - 1"] by linarith
  ultimately show ?thesis by (simp add: range_step_def comp_def)
qed

definition row_item :: "('r, 'o) data_proto \<Rightarrow> nat \<Rightarrow> ('r, 'o) data_proto_item" where
  "row_item d i = \<lparr>item_batch = map_option (\<lambda>t. dict_map (\<lambda>v. v ! i) (td_tensors t)) (batch d),
     item_non_tensor_batch = dict_map (\<lambda>v. v ! i) (non_tensor_batch d), item_meta_info = meta_info d\<rparr>"

lemma getitem_int_row:
  assumes "aligned n d" "i < n"
  shows "getitem_int d (int i) = Inr (row_item d i)"
proof -
  have "dict_mapr (\<lambda>v. rbind (py_index (length v) (int i)) (py_nth v)) (non_tensor_batch d)
      = Inr (dict_map (\<lambda>v. v ! i) (non_tensor_batch d))"
    using assms by (intro dict_mapr_total) (auto simp: aligned_def list_all_iff py_index_nat py_nth_def)
  moreover have "opt_result (\<lambda>t. rbind (py_index (td_size t) (int i)) (\<lambda>j. Inr (dict_map (\<lambda>v. v ! j) (td_tensors t)))) (batch d)
      = Inr (map_option (\<lambda>t. dict_map (\<lambda>v. v ! i) (td_tensors t)) (batch d))"
    using assms by (auto simp: opt_result_def aligned_def py_index_nat split: option.splits)
  ultimately show ?thesis by (simp add: getitem_int_def row_item_def)
qed

lemma columns_of_rows:
  assumes "wf_dict e"
  shows "map (\<lambda>k. (k, map (\<lambda>i. the (map_of (dict_map (\<lambda>v. v ! i) e) k)) is)) (keys e) = dict_map (\<lambda>v. picks v is) e"
proof -
  have "map (\<lambda>k. (k, map (\<lambda>i. the (map_of (dict_map (\<lambda>v. v ! i) e) k)) is)) (keys e)
      = map (\<lambda>k. (k, picks (the (map_of e k)) is)) (keys e)"
    by (auto simp: set_keys domIff picks_def)
  then show ?thesis using wf_dict_as_keys [OF assms, of "\<lambda>v. picks v is"] by simp
qed

lemma collate_rows:
  assumes "aligned n d" "batch d = Some t" "is \<noteq> []"
  shows "collate_fn (map (row_item d) is) = Inr ((pick is d)\<lparr>meta_info := []\<rparr>)"
proof -
  obtain i0 is' where i0: "is = i0 # is'" using assms(3) by (cases "is") auto
  have t: "wf_dict (td_tensors t)" and nt: "wf_dict (non_tensor_batch d)"
    using assms by (auto simp: aligned_def td_wf_def)
  define rows where "rows = map (\<lambda>i. Some (dict_map (\<lambda>v. v ! i) (td_tensors t))) is"
  have rows0: "rows = Some (dict_map (\<lambda>v. v ! i0) (td_tensors t)) # map (\<lambda>i. Some (dict_map (\<lambda>v. v ! i) (td_tensors t))) is'"
    by (simp add: rows_def i0)
  have "td_stack rows = mk_tensordict (map (\<lambda>k. (k, map (\<lambda>b. the (map_of (the b) k)) rows)) (keys (td_tensors t))) (length rows)"
    unfolding td_stack_def by (subst rows0) (auto simp: rows_def list_all_iff)
  also have "map (\<lambda>k. (k, map (\<lambda>b. the (map_of (the b) k)) rows)) (keys (td_tensors t)) = dict_map (\<lambda>v. picks v is) (td_tensors t)"
    using columns_of_rows [OF t, of "is"] by (simp add: rows_def comp_def)
  also have "mk_tensordict (dict_map (\<lambda>v. picks v is) (td_tensors t)) (length rows) = Inr (td_pick is t)"
    by (simp add: rows_def mk_tensordict_pick)
  finally have b: "td_stack (map item_batch (map (row_item d) is)) = Inr (td_pick is t)"
    by (simp add: rows_def row_item_def comp_def assms(2))
  define cols where "cols = map (\<lambda>i. dict_map (\<lambda>v. v ! i) (non_tensor_batch d)) is"
  have "list_of_dict_to_dict_of_list cols = Inr (map (\<lambda>k. (k, map (\<lambda>e. the (map_of e k)) cols)) (keys (non_tensor_batch d)))"
    using assms(3) nt by (intro dict_of_lists_same_keys) (auto simp: cols_def wf_dict_def)
  also have "map (\<lambda>k. (k, map (\<lambda>e. the (map_of e k)) cols)) (keys (non_tensor_batch d)) = dict_map (\<lambda>v. picks v is) (non_tensor_batch d)"
    using columns_of_rows [OF nt, of "is"] by (simp add: cols_def comp_def)
  finally have "list_of_dict_to_dict_of_list (map item_non_tensor_batch (map (row_item d) is)) = Inr (dict_map (\<lambda>v. picks v is) (non_tensor_batch d))"
    by (simp add: cols_def row_item_def comp_def)
  then show ?thesis using b assms(2)
    by (simp add: collate_fn_def mk_proto_def check_consistency_def pick_def)
qed

lemma epoch_batches_picks:
  assumes "aligned n d" "batch d = Some t" "0 < m" "\<forall>i \<in> set order. i < n"
  shows "epoch_batches d m order = Inr (map (\<lambda>i. pick (take m (drop i order)) d) (range_step (length order) m))"
proof -
  have "epoch_batches d m order
      = Inr (map (\<lambda>is. pick is d) (map (\<lambda>i. take m (drop i order)) (range_step (length order) m)))"
    unfolding epoch_batches_def
  proof (rule rmap_total)
    fix "is"
    assume "is \<in> set (map (\<lambda>i. take m (drop i order)) (range_step (length order) m))"
    then obtain c where c: "c < (length order + m - 1) div m" "is = take m (drop (c * m) order)"
      by (auto simp: range_step_def)
    have "(c + 1) * m \<le> (length order + m - 1) div m * m" using c(1) by (intro mult_le_mono1) simp
    also have "\<dots> \<le> length order + m - 1" by (rule div_times_less_eq_dividend)
    finally have "c * m < length order" using assms(3) by simp
    then have ne: "is \<noteq> []" using c(2) assms(3) by simp
    have "set is \<subseteq> set order" using c(2) by (meson order_trans set_drop_subset set_take_subset)
    then have "rmap (\<lambda>i. getitem_int d (int i)) is = Inr (map (row_item d) is)"
      using assms(4) by (intro rmap_total getitem_int_row [OF assms(1)]) auto
    then show "rbind (rmap (\<lambda>i. getitem_int d (int i)) is) (\<lambda>items.
        rbind (collate_fn items) (\<lambda>b. Inr (b\<lparr>meta_info := meta_info d\<rparr>))) = Inr (pick is d)"
      using collate_rows [OF assms(1,2) ne] by (simp add: pick_def)
  qed
  then show ?thesis by (simp add: comp_def)
qed

section \<open>Properties of splitting, padding and iterating\<close>

definition demo_proto :: "(int, pyv) data_proto" where
  "demo_proto = \<lparr>batch = Some \<lparr>td_size = 4, td_tensors = [(''ids'', [11, 12, 13, 14]), (''mask'', [1, 1, 0, 1])]\<rparr>,
     non_tensor_batch = [(''uid'', [PStr ''a'', PStr ''a'', PStr ''b'', PStr ''b''])],
     meta_info = [(''temperature'', PFloat (1 / 2)), (''eos'', PList [PInt 2, PInt 3])]\<rparr>"

lemma demo_aligned: "aligned 4 demo_proto" "plain_meta demo_proto"
  by code_simp+

text \<open>C8: \<open>chunk\<close> never fails on a non-empty batch whose length the number of chunks divides,
  the pieces all have the same length, and \<open>concat\<close> of them is the original batch, tensors,
  object arrays and meta information alike (metrics apart, which \<open>concat\<close> aggregates).\<close>

theorem chunk_concat_roundtrip:
  assumes "aligned n d" "plain_meta d" "0 < c" "c dvd n" "0 < n"
  shows "\<exists>ps. chunk auto_padding d c = Inr ps \<and> length ps = c \<and> list_all (\<lambda>p. proto_len p = n div c) ps
    \<and> concat_proto ps = Inr d"
proof -
  obtain k where k: "n = c * k" "0 < k" "n div c = k" using equal_division [OF assms(4,3,5)] .
  define iss where "iss = map (\<lambda>i. [i * k..<Suc i * k]) [0..<c]"
  have c: "chunk auto_padding d c = Inr (map (\<lambda>is. pick is d) iss)"
    using chunk_equal_pieces [OF assms(1,3-5)] by (simp add: iss_def k(3) comp_def)
  have ne: "iss \<noteq> []" using assms(3) by (simp add: iss_def)
  have "concat_proto (map (\<lambda>is. pick is d) iss) = Inr d"
    using concat_proto_picks [OF assms(1,2) ne] concat_equal_blocks [of k c] k pick_all [OF assms(1)]
    by (simp add: iss_def del: upt_Suc mult_Suc)
  moreover have "proto_len (pick [i * k..<Suc i * k] d) = k" for i
  proof -
    have "non_tensor_batch d \<noteq> [] \<or> batch d \<noteq> None" using assms(1,5) by (auto simp: aligned_def split: option.splits)
    then show ?thesis using proto_len_aligned [OF aligned_pick [OF assms(1)]] by simp
  qed
  ultimately show ?thesis using c k(3) by (simp add: iss_def list_all_iff)
qed

theorem chunk_concat_roundtrip_witness:
  "\<exists>ps. chunk False demo_proto 2 = Inr ps \<and> length ps = 2 \<and> list_all (\<lambda>p. proto_len p = 2) ps
    \<and> concat_proto ps = Inr demo_proto"
  using chunk_concat_roundtrip [OF demo_aligned, of 2 False] by simp

text \<open>C22: the padding loop ends whenever it is entered: \<open>pad_dataproto_to_divisor\<close> returns for
  every batch and positive divisor, appends fewer rows than the divisor, all of them rows of the batch,
  makes the length divisible, and \<open>unpad_dataproto\<close> gives the batch back. The loop itself would not end on an
  empty batch, which the test for divisibility keeps away from it.\<close>

theorem pad_unpad_roundtrip:
  assumes "aligned n d" "plain_meta d" "0 < k"
  shows "\<exists>p pad rows. pad_dataproto_to_divisor d k = Some (Inr (p, pad)) \<and> pad < k
    \<and> p = pick ([0..<n] @ rows) d \<and> length rows = pad \<and> list_all (\<lambda>i. i < n) rows \<and> k dvd n + pad
    \<and> unpad_dataproto p pad = Inr d
    \<and> (pad_take_sizes 0 k = None)"
proof -
  have "pad_take_sizes 0 k = None" using pad_take_sizes_empty [of k] assms(3) by (cases "pad_take_sizes 0 k") auto
  moreover obtain rows pad where p: "pad_dataproto_to_divisor d k = Some (Inr (pick ([0..<n] @ rows) d, pad))"
    "length rows = pad" "pad < k" "k dvd n + pad" "list_all (\<lambda>i. i < n) rows" "pad = 0 \<or> 0 < n"
    using pad_to_divisor_pick [OF assms] by blast
  moreover have "unpad_dataproto (pick ([0..<n] @ rows) d) pad = Inr d"
    using unpad_pick [OF assms(1) p(2,6)] .
  ultimately show ?thesis by blast
qed

theorem pad_unpad_roundtrip_witness:
  "\<exists>p. pad_dataproto_to_divisor demo_proto 3 = Some (Inr (p, 2)) \<and> unpad_dataproto p 2 = Inr demo_proto"
proof -
  obtain p pad where p: "pad_dataproto_to_divisor demo_proto 3 = Some (Inr (p, pad))" "pad < 3" "3 dvd 4 + pad"
    "unpad_dataproto p pad = Inr demo_proto"
    using pad_unpad_roundtrip [OF demo_aligned, of 3] by auto
  have "pad = 2" using p(2,3) by presburger
  then show ?thesis using p by blast
qed

text \<open>An iterator visits, in every epoch, each row exactly as often as the sampler's order
  names it: all mini-batches are full, mini-batch \<open>j\<close> consists of the rows the order has at positions
  \<open>j m, ..., j m + m - 1\<close>, and the concatenation of the epoch is the batch in that order. With the default order it is
  the batch itself.\<close>

theorem make_iterator_covers:
  assumes "aligned n d" "plain_meta d" "batch d = Some t" "0 < m" "m dvd n" "0 < n"
    and "list_all (\<lambda>order. length order = n \<and> list_all (\<lambda>i. i < n) order) orders"
  shows "\<exists>es. make_iterator d m orders = Inr es \<and> list_all2 (\<lambda>order bs.
      concat_proto bs = Inr (pick order d) \<and> list_all (\<lambda>b. proto_len b = m) bs \<and> length bs = n div m) orders es
    \<and> pick [0..<n] d = d"
proof -
  have size: "td_size t = n" using assms(1,3) by (simp add: aligned_def)
  obtain k where k: "n = m * k" "0 < k" "n div m = k" using equal_division [OF assms(5,4,6)] .
  have batches: "\<exists>bs. epoch_batches d m order = Inr bs \<and> concat_proto bs = Inr (pick order d)
      \<and> list_all (\<lambda>b. proto_len b = m) bs \<and> length bs = n div m"
    if "order \<in> set orders" for order
  proof -
    have o: "length order = n" "\<forall>i \<in> set order. i < n" using that assms(7) by (auto simp: list_all_iff)
    define iss where "iss = map (\<lambda>i. take m (drop i order)) (range_step (length order) m)"
    have cnt: "(n + m - 1) div m = k" using k assms(4) by (intro div_nat_eqI) (simp_all add: algebra_simps)
    have iss: "length iss = k" "concat iss = order"
      using o(1) cnt mini_batches_concat [OF assms(4), of order] by (simp_all add: iss_def range_step_def)
    have "length is = m" if "in": "is \<in> set iss" for "is"
    proof -
      obtain c where c: "c < k" "is = take m (drop (c * m) order)" using "in" o(1) cnt by (auto simp: iss_def range_step_def)
      then have "Suc c * m \<le> k * m" by (intro mult_le_mono1) simp
      then show ?thesis using c(2) o(1) k(1) by (simp add: mult.commute)
    qed
    then have len: "list_all (\<lambda>b. proto_len b = m) (map (\<lambda>is. pick is d) iss)"
      using assms(3) by (auto simp: list_all_iff proto_len_def)
    have "epoch_batches d m order = Inr (map (\<lambda>is. pick is d) iss)"
      using epoch_batches_picks [OF assms(1,3,4) o(2)] by (simp add: iss_def comp_def)
    moreover have "concat_proto (map (\<lambda>is. pick is d) iss) = Inr (pick order d)"
      using concat_proto_picks [OF assms(1,2), of iss] iss k(2) by auto
    ultimately show ?thesis using len iss(1) k(3) by auto
  qed
  have "\<exists>es. rmap (epoch_batches d m) orders = Inr es \<and> list_all2 (\<lambda>order bs.
      concat_proto bs = Inr (pick order d) \<and> list_all (\<lambda>b. proto_len b = m) bs \<and> length bs = n div m) orders es"
    using batches by (rule rmap_list_all2)
  then show ?thesis
    using assms(3-5) size pick_all [OF assms(1)] by (auto simp: make_iterator_def mod_eq_0_iff_dvd)
qed

theorem make_iterator_covers_witness:
  "\<exists>es. make_iterator demo_proto 2 [[0, 1, 2, 3], [3, 1, 0, 2]] = Inr es \<and> length es = 2
    \<and> concat_proto (es ! 0) = Inr demo_proto"
proof -
  obtain es where es: "make_iterator demo_proto 2 [[0, 1, 2, 3], [3, 1, 0, 2]] = Inr es"
    "list_all2 (\<lambda>order bs. concat_proto bs = Inr (pick order demo_proto)
      \<and> list_all (\<lambda>b. proto_len b = 2) bs \<and> length bs = 4 div 2) [[0, 1, 2, 3], [3, 1, 0, 2]] es"
    and all: "pick [0..<4] demo_proto = demo_proto"
    using make_iterator_covers [OF demo_aligned, of _ 2 "[[0, 1, 2, 3], [3, 1, 0, 2]]"]
    by (force simp: demo_proto_def)
  moreover have "[0..<4] = [0, 1, 2, 3]" by code_simp
  ultimately have "concat_proto (es ! 0) = Inr demo_proto" by (auto simp: list_all2_Cons1)
  then show ?thesis using es list_all2_lengthD [OF es(2)] by simp
qed

end
