(* ===== verification/Dispatch.thy ===== *)
theory Dispatch
  imports ProtocolLaws
begin

section \<open>Dispatching method calls to worker groups\<close>

text \<open>
  \<open>single_controller/base/decorator.py\<close> and the call path of \<open>single_controller/ray/base.py\<close>: a method
  of a worker group splits its arguments over the workers (the dispatch function), runs the method on each
  (the execute function) and merges the results (the collect function). Ray delivers a stored object by
  value, so \<open>ray.put\<close> and \<open>ray.get\<close> are the identity here, except for results that are not fetched,
  which are references. Batches of the type \<open>TensorDict\<close> and \<open>BatchMeta\<close> are left out.
\<close>

subsection \<open>Arguments and results\<close>

datatype ('r, 'o, 'x) obj =
    OProto "('r, 'o) data_proto"
  | OFuture "nat proto_future"
  | ORef nat
  | OList "('r, 'o, 'x) obj list"
  | OFunction 'x
  | OOther 'x

type_synonym ('r, 'o, 'x) args = "('r, 'o, 'x) obj list"
type_synonym ('r, 'o, 'x) kwargs = "(string, ('r, 'o, 'x) obj) dict"

text \<open>What a dispatch function returns: the arguments, and the padding it put into the keyword
  arguments under a key of its own.\<close>

type_synonym ('r, 'o, 'x) dispatched = "('r, 'o, 'x) args \<times> ('r, 'o, 'x) kwargs \<times> nat option"

fun py_length :: "('r, 'o, 'x) obj \<Rightarrow> nat result" where
  "py_length (OList xs) = Inr (length xs)"
| "py_length (OProto d) = Inr (proto_len d)"
| "py_length _ = Inl TypeError"

definition is_list_of :: "nat \<Rightarrow> ('r, 'o, 'x) obj \<Rightarrow> bool" where
  "is_list_of n a = (case a of OList xs \<Rightarrow> length xs = n | _ \<Rightarrow> False)"

text \<open>Iterating over a result that should be a list: the entries of a \<open>DataProto\<close> are items, which the
  collect functions reject.\<close>

fun iter_items :: "('r, 'o, 'x) obj \<Rightarrow> ('r, 'o, 'x) obj list result" where
  "iter_items (OList xs) = Inr xs"
| "iter_items (OProto d) = Inl AssertionError"
| "iter_items _ = Inl TypeError"

fun items_of :: "('r, 'o, 'x) obj \<Rightarrow> ('r, 'o, 'x) obj list" where
  "items_of (OList xs) = xs"
| "items_of _ = []"

subsection \<open>Splitting\<close>

definition split_arg :: "bool \<Rightarrow> nat \<Rightarrow> ('r, 'o, 'x) obj \<Rightarrow> ('r, 'o, 'x) obj result" where
  "split_arg ap chunks a =
    rbind (case a of
        OProto d \<Rightarrow> rbind (chunk ap d chunks) (\<lambda>ps. Inr (map OProto ps))
      | OFuture f \<Rightarrow> Inr (map OFuture (future_chunk f chunks))
      | _ \<Rightarrow> Inl AssertionError) (\<lambda>pieces.
    rbind (py_assert (length pieces = chunks)) (\<lambda>_. Inr (OList pieces)))"

definition split_args_kwargs_data_proto ::
  "bool \<Rightarrow> nat \<Rightarrow> ('r, 'o, 'x) args \<Rightarrow> ('r, 'o, 'x) kwargs \<Rightarrow> (('r, 'o, 'x) args \<times> ('r, 'o, 'x) kwargs) result" where
  "split_args_kwargs_data_proto ap chunks args kwargs =
    rbind (rmap (split_arg ap chunks) args) (\<lambda>sa.
    rbind (dict_mapr (split_arg ap chunks) kwargs) (\<lambda>sk. Inr (sa, sk)))"

text \<open>\<open>_padding_and_split_data\<close>: the first padded batch fixes the length and the padding of all
  (the state is \<open>data_proto_len\<close> and \<open>padding_size\<close>).\<close>

type_synonym pad_state = "(nat \<times> nat) option"

definition pad_count :: "nat \<Rightarrow> nat \<Rightarrow> nat" where
  "pad_count n chunks = (if 0 < n mod chunks then chunks - n mod chunks else 0)"

definition padding_and_split_data ::
  "bool \<Rightarrow> nat \<Rightarrow> ('r, 'o, 'x) obj \<Rightarrow> pad_state \<Rightarrow> (('r, 'o, 'x) obj \<times> pad_state) result" where
  "padding_and_split_data ap chunks a st = (case a of
     OProto d \<Rightarrow>
       if is_padding_enabled ap d then
         rbind (case st of
             None \<Rightarrow> rbind (ensure ZeroDivisionError (chunks \<noteq> 0)) (\<lambda>_.
               Inr (proto_len d, pad_count (proto_len d) chunks))
           | Some (len, ps) \<Rightarrow> rbind (py_assert (len = proto_len d)) (\<lambda>_. Inr (len, ps))) (\<lambda>(len, ps).
         rbind (padding d ps []) (\<lambda>d'.
         rbind (chunk ap d' chunks) (\<lambda>pieces.
         Inr (OList (map OProto pieces), Some (len, ps)))))
       else rbind (chunk ap d chunks) (\<lambda>pieces. Inr (OList (map OProto pieces), st))
   | OFuture f \<Rightarrow> Inr (OList (map OFuture (future_chunk f chunks)), st)
   | _ \<Rightarrow> Inl AssertionError)"

fun pad_split_args ::
  "bool \<Rightarrow> nat \<Rightarrow> ('r, 'o, 'x) args \<Rightarrow> pad_state \<Rightarrow> (('r, 'o, 'x) args \<times> pad_state) result" where
  "pad_split_args ap chunks [] st = Inr ([], st)"
| "pad_split_args ap chunks (a # as) st =
     rbind (padding_and_split_data ap chunks a st) (\<lambda>(x, st').
     rbind (pad_split_args ap chunks as st') (\<lambda>(xs, st''). Inr (x # xs, st'')))"

definition split_args_kwargs_data_proto_with_auto_padding ::
  "bool \<Rightarrow> nat \<Rightarrow> ('r, 'o, 'x) args \<Rightarrow> ('r, 'o, 'x) kwargs \<Rightarrow> ('r, 'o, 'x) dispatched result" where
  "split_args_kwargs_data_proto_with_auto_padding ap chunks args kwargs =
    rbind (pad_split_args ap chunks args None) (\<lambda>(sa, st).
    rbind (pad_split_args ap chunks (map snd kwargs) st) (\<lambda>(sk, st').
    Inr (sa, zip (keys kwargs) sk, map_option snd st')))"

subsection \<open>Dispatch functions\<close>

definition dispatch_one_to_all :: "nat \<Rightarrow> ('r, 'o, 'x) args \<Rightarrow> ('r, 'o, 'x) kwargs \<Rightarrow> ('r, 'o, 'x) dispatched result" where
  "dispatch_one_to_all world_size args kwargs =
    Inr (map (\<lambda>a. OList (replicate world_size a)) args, dict_map (\<lambda>v. OList (replicate world_size v)) kwargs, None)"

definition dispatch_all_to_all :: "nat \<Rightarrow> ('r, 'o, 'x) args \<Rightarrow> ('r, 'o, 'x) kwargs \<Rightarrow> ('r, 'o, 'x) dispatched result" where
  "dispatch_all_to_all world_size args kwargs = Inr (args, kwargs, None)"

definition dummy_direct_rollout_call :: "nat \<Rightarrow> 'a \<Rightarrow> 'b result" where
  "dummy_direct_rollout_call world_size x = Inl NotImplementedError"

definition dispatch_dp_compute :: "nat \<Rightarrow> ('r, 'o, 'x) args \<Rightarrow> ('r, 'o, 'x) kwargs \<Rightarrow> ('r, 'o, 'x) dispatched result" where
  "dispatch_dp_compute world_size args kwargs =
    rbind (py_assert (list_all (is_list_of world_size) args)) (\<lambda>_.
    rbind (py_assert (list_all (\<lambda>(k, v). is_list_of world_size v) kwargs)) (\<lambda>_.
    Inr (args, kwargs, None)))"

definition dispatch_dp_compute_data_proto ::
  "bool \<Rightarrow> nat \<Rightarrow> ('r, 'o, 'x) args \<Rightarrow> ('r, 'o, 'x) kwargs \<Rightarrow> ('r, 'o, 'x) dispatched result" where
  "dispatch_dp_compute_data_proto ap world_size args kwargs =
    split_args_kwargs_data_proto_with_auto_padding ap world_size args kwargs"

definition dispatch_dp_compute_data_proto_with_func ::
  "bool \<Rightarrow> nat \<Rightarrow> ('r, 'o, 'x) args \<Rightarrow> ('r, 'o, 'x) kwargs \<Rightarrow> ('r, 'o, 'x) dispatched result" where
  "dispatch_dp_compute_data_proto_with_func ap world_size args kwargs = (case args of
     [] \<Rightarrow> Inl IndexError
   | OFunction g # rest \<Rightarrow>
       rbind (split_args_kwargs_data_proto ap world_size rest kwargs) (\<lambda>(sa, sk).
       Inr (OList (replicate world_size (OFunction g)) # sa, sk, None))
   | _ \<Rightarrow> Inl AssertionError)"

text \<open>Rank \<open>i\<close> gets the piece of its data-parallel rank. \<open>parallel_put\<close> refuses an empty list,
  and the number of its threads is computed from the first positional argument.\<close>

definition parallel_put :: "('r, 'o, 'x) obj \<Rightarrow> ('r, 'o, 'x) obj list result" where
  "parallel_put a = (case a of
     OList xs \<Rightarrow> rbind (py_assert (xs \<noteq> [])) (\<lambda>_. Inr xs)
   | _ \<Rightarrow> Inl TypeError)"

definition nd_shard :: "nat list \<Rightarrow> nat \<Rightarrow> nat \<Rightarrow> ('r, 'o, 'x) obj list \<Rightarrow> ('r, 'o, 'x) obj result" where
  "nd_shard dp_rank_mapping dp_size world_size xs =
    rbind (py_assert (length xs = dp_size)) (\<lambda>_.
    rbind (rmap (\<lambda>i. rbind (py_nth dp_rank_mapping i) (py_nth xs)) [0..<world_size]) (\<lambda>ys.
    Inr (OList ys)))"

definition dispatch_nd_compute ::
  "nat list \<Rightarrow> nat \<Rightarrow> nat \<Rightarrow> ('r, 'o, 'x) args \<Rightarrow> ('r, 'o, 'x) kwargs \<Rightarrow> ('r, 'o, 'x) dispatched result" where
  "dispatch_nd_compute dp_rank_mapping dp_size world_size args kwargs =
    rbind (py_nth args 0) (\<lambda>a0.
    rbind (py_length a0) (\<lambda>_.
    rbind (rmap parallel_put args) (\<lambda>pa.
    rbind (dict_mapr parallel_put kwargs) (\<lambda>pk.
    rbind (rmap (nd_shard dp_rank_mapping dp_size world_size) pa) (\<lambda>all_args.
    rbind (dict_mapr (nd_shard dp_rank_mapping dp_size world_size) pk) (\<lambda>all_kwargs.
    Inr (all_args, all_kwargs, None)))))))"

definition dispatch_nd_compute_dataproto ::
  "bool \<Rightarrow> nat list \<Rightarrow> nat \<Rightarrow> nat \<Rightarrow> ('r, 'o, 'x) args \<Rightarrow> ('r, 'o, 'x) kwargs \<Rightarrow> ('r, 'o, 'x) dispatched result" where
  "dispatch_nd_compute_dataproto ap dp_rank_mapping dp_size world_size args kwargs =
    rbind (split_args_kwargs_data_proto ap dp_size args kwargs) (\<lambda>(sa, sk).
    dispatch_nd_compute dp_rank_mapping dp_size world_size sa sk)"

subsection \<open>Collect functions\<close>

fun the_proto :: "('r, 'o, 'x) obj \<Rightarrow> ('r, 'o) data_proto result" where
  "the_proto (OProto d) = Inr d"
| "the_proto _ = Inl AssertionError"

fun the_ref :: "('r, 'o, 'x) obj \<Rightarrow> nat result" where
  "the_ref (ORef i) = Inr i"
| "the_ref _ = Inl AssertionError"

definition concat_data_proto_or_future :: "('r, 'o, 'x) obj list \<Rightarrow> ('r, 'o, 'x) obj result" where
  "concat_data_proto_or_future output = (case output of
     [] \<Rightarrow> Inl IndexError
   | OProto d # _ \<Rightarrow> rbind (rmap the_proto output) (\<lambda>ds. rbind (concat_proto ds) (\<lambda>d. Inr (OProto d)))
   | ORef i # _ \<Rightarrow> rbind (rmap the_ref output) (\<lambda>rs. Inr (OFuture (future_concat rs)))
   | _ \<Rightarrow> Inl NotImplementedError)"

definition collect_all_to_all :: "nat \<Rightarrow> ('r, 'o, 'x) obj \<Rightarrow> ('r, 'o, 'x) obj result" where
  "collect_all_to_all world_size output = Inr output"

definition collect_dp_compute :: "nat \<Rightarrow> ('r, 'o, 'x) obj \<Rightarrow> ('r, 'o, 'x) obj result" where
  "collect_dp_compute world_size output =
    rbind (py_length output) (\<lambda>n. rbind (py_assert (n = world_size)) (\<lambda>_. Inr output))"

fun proto_or_ref :: "('r, 'o, 'x) obj \<Rightarrow> bool" where
  "proto_or_ref (OProto d) = True"
| "proto_or_ref (ORef i) = True"
| "proto_or_ref _ = False"

definition collect_dp_compute_data_proto :: "nat \<Rightarrow> ('r, 'o, 'x) obj \<Rightarrow> ('r, 'o, 'x) obj result" where
  "collect_dp_compute_data_proto world_size output =
    rbind (iter_items output) (\<lambda>items.
    rbind (py_assert (list_all proto_or_ref items)) (\<lambda>_.
    rbind (collect_dp_compute world_size output) (\<lambda>_.
    concat_data_proto_or_future items)))"

definition collect_nd_compute :: "bool list \<Rightarrow> nat \<Rightarrow> ('r, 'o, 'x) obj \<Rightarrow> ('r, 'o, 'x) obj list result" where
  "collect_nd_compute collect_mask world_size output =
    rbind (py_length output) (\<lambda>n.
    rbind (py_assert (n = world_size)) (\<lambda>_.
    rbind (rmap (py_nth collect_mask) [0..<world_size]) (\<lambda>ms.
    rbind (iter_items output) (\<lambda>items.
    Inr (map ((!) items) (filter ((!) ms) [0..<world_size]))))))"

definition collect_nd_compute_dataproto :: "bool list \<Rightarrow> nat \<Rightarrow> ('r, 'o, 'x) obj \<Rightarrow> ('r, 'o, 'x) obj result" where
  "collect_nd_compute_dataproto collect_mask world_size output =
    rbind (collect_nd_compute collect_mask world_size output) (\<lambda>out.
    rbind (py_assert (list_all proto_or_ref out)) (\<lambda>_.
    concat_data_proto_or_future out))"

subsection \<open>The lazily queried mesh\<close>

text \<open>A worker group caches, per mesh name, what its workers answer to \<open>_query_dispatch_info\<close> and
  \<open>_query_collect_info\<close>.\<close>

record worker_group =
  world_size :: nat
  dispatch_info :: "(string, nat list) dict"
  collect_info :: "(string, bool list) dict"

definition cached :: "nat \<Rightarrow> (string \<Rightarrow> 'v list result) \<Rightarrow> (string, 'v list) dict \<Rightarrow> string \<Rightarrow> ('v list \<times> (string, 'v list) dict) result" where
  "cached n query info mesh = (case map_of info mesh of
     Some v \<Rightarrow> Inr (v, info)
   | None \<Rightarrow> rbind (query mesh) (\<lambda>v. rbind (py_assert (length v = n)) (\<lambda>_. Inr (v, AList.update mesh v info))))"

definition dispatch_lazy_compute_data_proto ::
  "bool \<Rightarrow> (string \<Rightarrow> nat list result) \<Rightarrow> string \<Rightarrow> worker_group \<Rightarrow> ('r, 'o, 'x) args \<Rightarrow> ('r, 'o, 'x) kwargs
   \<Rightarrow> (('r, 'o, 'x) dispatched \<times> worker_group) result" where
  "dispatch_lazy_compute_data_proto ap query mesh_name wg args kwargs =
    rbind (cached (world_size wg) query (dispatch_info wg) mesh_name) (\<lambda>(mapping, info).
    rbind (ensure ValueError (mapping \<noteq> [])) (\<lambda>_.
    rbind (dispatch_nd_compute_dataproto ap mapping (Max (set mapping) + 1) (world_size wg) args kwargs) (\<lambda>d.
    Inr (d, wg\<lparr>dispatch_info := info\<rparr>))))"

definition collect_lazy_compute_data_proto ::
  "(string \<Rightarrow> bool list result) \<Rightarrow> string \<Rightarrow> worker_group \<Rightarrow> ('r, 'o, 'x) obj \<Rightarrow> (('r, 'o, 'x) obj \<times> worker_group) result" where
  "collect_lazy_compute_data_proto query mesh_name wg output =
    rbind (py_assert (mesh_name \<in> set (keys (dispatch_info wg)))) (\<lambda>_.
    rbind (cached (world_size wg) query (collect_info wg) mesh_name) (\<lambda>(collect_mask, info).
    rbind (collect_nd_compute_dataproto collect_mask (world_size wg) output) (\<lambda>out.
    Inr (out, wg\<lparr>collect_info := info\<rparr>))))"

subsection \<open>Executing and calling\<close>

text \<open>A remote method: the result of rank \<open>i\<close> on its arguments. \<open>execute_all\<close> slices the arguments when all
  of them are lists with one entry per worker, and broadcasts them otherwise.\<close>

type_synonym ('r, 'o, 'x) remote = "nat \<Rightarrow> ('r, 'o, 'x) args \<Rightarrow> ('r, 'o, 'x) kwargs \<Rightarrow> ('r, 'o, 'x) obj result"

definition execute_all :: "nat \<Rightarrow> ('r, 'o, 'x) remote \<Rightarrow> ('r, 'o, 'x) args \<Rightarrow> ('r, 'o, 'x) kwargs \<Rightarrow> ('r, 'o, 'x) obj result" where
  "execute_all n remote args kwargs =
    rbind (if list_all (is_list_of n) args \<and> list_all (\<lambda>(k, v). is_list_of n v) kwargs
        then rmap (\<lambda>i. remote i (map (\<lambda>a. items_of a ! i) args) (dict_map (\<lambda>v. items_of v ! i) kwargs)) [0..<n]
        else rmap (\<lambda>i. remote i args kwargs) [0..<n]) (\<lambda>out. Inr (OList out))"

definition execute_rank_zero :: "nat \<Rightarrow> ('r, 'o, 'x) remote \<Rightarrow> ('r, 'o, 'x) args \<Rightarrow> ('r, 'o, 'x) kwargs \<Rightarrow> ('r, 'o, 'x) obj result" where
  "execute_rank_zero n remote args kwargs = (if n = 0 then Inl IndexError else remote 0 args kwargs)"

definition strip_padding :: "nat \<Rightarrow> ('r, 'o, 'x) obj \<Rightarrow> ('r, 'o, 'x) obj result" where
  "strip_padding padding_count output =
    (if 0 < padding_count then (case output of
        OProto d \<Rightarrow> rbind (select_idxs d (IdxInts (map int (take (proto_len d - padding_count) [0..<proto_len d])))) (\<lambda>d'.
          Inr (OProto d'))
      | OList xs \<Rightarrow> Inr (OList (take (length xs - padding_count) xs))
      | _ \<Rightarrow> Inr output)
     else Inr output)"

definition func_generator ::
  "(('r, 'o, 'x) args \<Rightarrow> ('r, 'o, 'x) kwargs \<Rightarrow> ('r, 'o, 'x) dispatched result) \<Rightarrow> (('r, 'o, 'x) obj \<Rightarrow> ('r, 'o, 'x) obj result)
   \<Rightarrow> (('r, 'o, 'x) args \<Rightarrow> ('r, 'o, 'x) kwargs \<Rightarrow> ('r, 'o, 'x) obj result)
   \<Rightarrow> ('r, 'o, 'x) args \<Rightarrow> ('r, 'o, 'x) kwargs \<Rightarrow> ('r, 'o, 'x) obj result" where
  "func_generator dispatch collect execute args kwargs =
    rbind (dispatch args kwargs) (\<lambda>(as, ks, padding_count).
    rbind (execute as ks) (\<lambda>output.
    rbind (collect output) (\<lambda>out.
    strip_padding (case padding_count of None \<Rightarrow> 0 | Some p \<Rightarrow> p) out)))"

definition materialize_futures :: "bool \<Rightarrow> (nat \<Rightarrow> ('r, 'o) data_proto) \<Rightarrow> ('r, 'o, 'x) obj \<Rightarrow> ('r, 'o, 'x) obj result" where
  "materialize_futures ap ray_get a = (case a of
     OFuture f \<Rightarrow> rbind (future_get ap ray_get f) (\<lambda>d. Inr (OProto d))
   | _ \<Rightarrow> Inr a)"

subsection \<open>Modes\<close>

datatype dispatch_mode = RANK_ZERO | ONE_TO_ALL | ALL_TO_ALL | DP_COMPUTE | DP_COMPUTE_PROTO
  | DP_COMPUTE_PROTO_WITH_FUNC | DP_COMPUTE_METRIC | DIRECT_ROLLOUT_METHOD

datatype execute_mode = EXECUTE_ALL | EXECUTE_RANK_ZERO

fun get_predefined_dispatch_fn :: "bool \<Rightarrow> nat \<Rightarrow> dispatch_mode \<Rightarrow>
   ((('r, 'o, 'x) args \<Rightarrow> ('r, 'o, 'x) kwargs \<Rightarrow> ('r, 'o, 'x) dispatched result) \<times> (('r, 'o, 'x) obj \<Rightarrow> ('r, 'o, 'x) obj result)) result" where
  "get_predefined_dispatch_fn ap n ONE_TO_ALL = Inr (dispatch_one_to_all n, collect_all_to_all n)"
| "get_predefined_dispatch_fn ap n ALL_TO_ALL = Inr (dispatch_all_to_all n, collect_all_to_all n)"
| "get_predefined_dispatch_fn ap n DP_COMPUTE = Inr (dispatch_dp_compute n, collect_dp_compute n)"
| "get_predefined_dispatch_fn ap n DP_COMPUTE_PROTO = Inr (dispatch_dp_compute_data_proto ap n, collect_dp_compute_data_proto n)"
| "get_predefined_dispatch_fn ap n DP_COMPUTE_PROTO_WITH_FUNC =
     Inr (dispatch_dp_compute_data_proto_with_func ap n, collect_dp_compute_data_proto n)"
| "get_predefined_dispatch_fn ap n DP_COMPUTE_METRIC = Inr (dispatch_dp_compute_data_proto ap n, collect_dp_compute n)"
| "get_predefined_dispatch_fn ap n DIRECT_ROLLOUT_METHOD =
     Inr (\<lambda>as ks. dummy_direct_rollout_call n (as, ks), dummy_direct_rollout_call n)"
| "get_predefined_dispatch_fn ap n RANK_ZERO = Inl KeyError"

fun get_predefined_execute_fn :: "nat \<Rightarrow> execute_mode \<Rightarrow> ('r, 'o, 'x) remote \<Rightarrow> ('r, 'o, 'x) args \<Rightarrow> ('r, 'o, 'x) kwargs \<Rightarrow> ('r, 'o, 'x) obj result" where
  "get_predefined_execute_fn n EXECUTE_ALL = execute_all n"
| "get_predefined_execute_fn n EXECUTE_RANK_ZERO = execute_rank_zero n"

text \<open>A method bound to the worker group by \<open>_bind_worker_method\<close>.\<close>

definition call_method ::
  "bool \<Rightarrow> nat \<Rightarrow> dispatch_mode \<Rightarrow> execute_mode \<Rightarrow> ('r, 'o, 'x) remote \<Rightarrow> ('r, 'o, 'x) args \<Rightarrow> ('r, 'o, 'x) kwargs \<Rightarrow> ('r, 'o, 'x) obj result" where
  "call_method ap n dm em remote args kwargs =
    rbind (get_predefined_dispatch_fn ap n dm) (\<lambda>(dispatch, collect).
    func_generator dispatch collect (get_predefined_execute_fn n em remote) args kwargs)"

text \<open>A method registered with \<open>make_nd_compute_dataproto_dispatch_fn(mesh_name)\<close>, bound by the same
  generator; the worker group keeps its caches.\<close>

definition call_nd_method ::
  "bool \<Rightarrow> (string \<Rightarrow> nat list result) \<Rightarrow> (string \<Rightarrow> bool list result) \<Rightarrow> string \<Rightarrow> worker_group
   \<Rightarrow> ('r, 'o, 'x) remote \<Rightarrow> ('r, 'o, 'x) args \<Rightarrow> ('r, 'o, 'x) kwargs \<Rightarrow> (('r, 'o, 'x) obj \<times> worker_group) result" where
  "call_nd_method ap query_dispatch query_collect mesh_name wg remote args kwargs =
    rbind (dispatch_lazy_compute_data_proto ap query_dispatch mesh_name wg args kwargs) (\<lambda>((as, ks, padding_count), wg1).
    rbind (execute_all (world_size wg) remote as ks) (\<lambda>output.
    rbind (collect_lazy_compute_data_proto query_collect mesh_name wg1 output) (\<lambda>(out, wg2).
    rbind (strip_padding (case padding_count of None \<Rightarrow> 0 | Some p \<Rightarrow> p) out) (\<lambda>res. Inr (res, wg2)))))"

section \<open>Data-parallel calls\<close>

text \<open>A remote method that works row by row: on any rows of \<open>d\<close> it returns the same rows of \<open>e\<close>.\<close>

definition rowwise :: "('r, 'o, 'x) remote \<Rightarrow> nat \<Rightarrow> ('r, 'o) data_proto \<Rightarrow> ('r, 'o) data_proto \<Rightarrow> bool" where
  "rowwise remote n d e \<longleftrightarrow> (\<forall>i is. is \<noteq> [] \<longrightarrow> list_all (\<lambda>j. j < n) is \<longrightarrow>
     remote i [OProto (pick is d)] [] = Inr (OProto (pick is e)))"

lemma rowwiseD:
  "rowwise remote n d e \<Longrightarrow> is \<noteq> [] \<Longrightarrow> \<forall>j \<in> set is. j < n \<Longrightarrow>
    remote i [OProto (pick is d)] [] = Inr (OProto (pick is e))"
  by (simp add: rowwise_def list_all_iff)

lemma interleave_picks: "repeat_interleave k (picks v is) = picks v (repeat_interleave k is)"
  by (simp add: repeat_interleave_def picks_def map_concat comp_def)

lemma interleave_comp: "repeat_interleave k \<circ> (\<lambda>v. picks v is) = (\<lambda>v. picks v (repeat_interleave k is))"
  by (auto simp: interleave_picks)

lemma repeat_pick:
  "repeat_proto (pick is d) k True = Inr (pick (repeat_interleave k is) d)"
proof -
  have "length (repeat_interleave k is) = length is * k"
    by (simp add: repeat_interleave_def length_concat comp_def sum_list_triv)
  then have "opt_result (\<lambda>t. mk_tensordict (dict_map (repeat_interleave k) (td_tensors t)) (td_size t * k)) (batch (pick is d))
      = Inr (map_option (td_pick (repeat_interleave k is)) (batch d))"
    using mk_tensordict_pick [of "repeat_interleave k is" "the (batch d)"]
    by (cases "batch d") (simp_all add: opt_result_def td_pick_def interleave_comp)
  then show ?thesis
    using mk_proto_pick [of "repeat_interleave k is" d] by (simp add: repeat_proto_def interleave_comp)
qed

lemma padding_pick:
  assumes "aligned n d" "plain_meta d" "0 < n"
  shows "padding d k [] = Inr (pick ([0..<n] @ replicate k (n - 1)) d)"
proof (cases "k = 0")
  case True
  then show ?thesis by (simp add: padding_def pick_all [OF assms(1)])
next
  case False
  have "select_idxs d (IdxInts [int n - 1]) = Inr (pick [n - 1] d)"
    using select_idxs_pick [OF assms(1), of "[n - 1]"] assms(3) by (simp add: of_nat_diff)
  moreover have "concat_proto [d, pick (replicate k (n - 1)) d] = Inr (pick ([0..<n] @ replicate k (n - 1)) d)"
    using concat_proto_picks [OF assms(1,2), of "[[0..<n], replicate k (n - 1)]"] pick_all [OF assms(1)] by simp
  ultimately show ?thesis
    using False proto_len_aligned [OF assms(1)] repeat_pick [of "[n - 1]" d k]
    by (simp add: padding_def repeat_interleave_def pick_def)
qed

lemma aligned_pick_pos: "aligned n d \<Longrightarrow> 0 < n \<Longrightarrow> aligned (length is) (pick is d)"
  by (rule aligned_pick) (auto simp: aligned_def split: option.splits)

lemma plain_meta_pick [simp]: "plain_meta (pick is d) = plain_meta d"
  by (simp add: plain_meta_def)

lemma padding_enabled_pick [simp]: "is_padding_enabled ap (pick is d) = is_padding_enabled ap d"
  by (simp add: is_padding_enabled_def)

text \<open>Chunking a selection of rows gives the equal blocks of the selection.\<close>

definition blocks :: "nat \<Rightarrow> nat list \<Rightarrow> nat list list" where
  "blocks c is = map (\<lambda>i. picks is [i * (length is div c)..<Suc i * (length is div c)]) [0..<c]"

lemma block_bound: "i < c \<Longrightarrow> c dvd (m :: nat) \<Longrightarrow> j < Suc i * (m div c) \<Longrightarrow> j < m"
proof -
  assume "i < c" "c dvd m" and j: "j < Suc i * (m div c)"
  then have "Suc i * (m div c) \<le> c * (m div c)" by (intro mult_le_mono1) simp
  also have "c * (m div c) = m" using \<open>c dvd m\<close> by simp
  finally show "j < m" using j by simp
qed

lemma chunk_pick:
  assumes "aligned n d" "0 < n" "is \<noteq> []" "0 < c" "c dvd length is"
  shows "chunk ap (pick is d) c = Inr (map (\<lambda>js. pick js d) (blocks c is))"
proof -
  let ?k = "length is div c"
  have "chunk ap (pick is d) c = Inr (map (\<lambda>i. pick [i * ?k..<Suc i * ?k] (pick is d)) [0..<c])"
    using chunk_equal_pieces [OF aligned_pick_pos [OF assms(1,2)] assms(4,5)] assms(3) by simp
  also have "map (\<lambda>i. pick [i * ?k..<Suc i * ?k] (pick is d)) [0..<c] = map (\<lambda>js. pick js d) (blocks c is)"
    using block_bound [OF _ assms(5)] by (auto simp: blocks_def pick_pick simp del: mult_Suc)
  finally show ?thesis .
qed

lemma concat_blocks_pick:
  assumes "c dvd length is" "0 < c"
  shows "concat (blocks c is) = is"
proof -
  obtain k where k: "length is = c * k" "length is div c = k" using assms by (auto elim: dvdE)
  have "blocks c is = map (picks is) (map (\<lambda>i. [i * k..<Suc i * k]) [0..<c])"
    unfolding blocks_def k(2) map_map comp_def ..
  then have "concat (blocks c is) = picks is [0..<c * k]" by (simp only: concat_picks concat_equal_blocks)
  then show ?thesis unfolding k(1) [symmetric] by simp
qed

lemma blocks_wf:
  assumes "c dvd length is" "is \<noteq> []" "js \<in> set (blocks c is)"
  shows "js \<noteq> []" "set js \<subseteq> set is"
proof -
  let ?k = "length is div c"
  obtain i where i: "i < c" "js = picks is [i * ?k..<Suc i * ?k]" using assms(3) by (auto simp: blocks_def simp del: mult_Suc)
  have "0 < ?k" using assms(1,2) i(1) by (auto simp: div_greater_zero_iff dvd_imp_le)
  then show "js \<noteq> []" by (simp add: i(2) picks_def)
  show "set js \<subseteq> set is"
    using block_bound [OF i(1) assms(1)] by (auto simp: i(2) picks_def simp del: mult_Suc intro!: nth_mem)
qed

lemma length_blocks [simp]: "length (blocks c is) = c"
  by (simp add: blocks_def)

text \<open>Running a row-wise method on the blocks and concatenating.\<close>

lemma execute_blocks:
  assumes "rowwise remote n d e" "\<forall>js \<in> set jss. js \<noteq> [] \<and> (\<forall>j \<in> set js. j < n)" "length jss = w"
  shows "execute_all w remote [OList (map OProto (map (\<lambda>js. pick js d) jss))] []
    = Inr (OList (map OProto (map (\<lambda>js. pick js e) jss)))"
proof -
  have "remote i [OProto (pick (jss ! i) d)] [] = Inr (OProto (pick (jss ! i) e))" if "i < w" for i
  proof (rule rowwiseD [OF assms(1)])
    have "jss ! i \<in> set jss" using that assms(3) by simp
    then show "jss ! i \<noteq> []" "\<forall>j \<in> set (jss ! i). j < n" using assms(2) by blast+
  qed
  then have "rmap (\<lambda>i. remote i (map (\<lambda>a. items_of a ! i) [OList (map OProto (map (\<lambda>js. pick js d) jss))]) (dict_map (\<lambda>v. items_of v ! i) [])) [0..<w]
      = Inr (map (\<lambda>i. OProto (pick (jss ! i) e)) [0..<w])"
    using assms(3) by (intro rmap_total) simp
  moreover have "map (\<lambda>i. OProto (pick (jss ! i) e)) [0..<w] = map OProto (map (\<lambda>js. pick js e) jss)"
    using assms(3) by (intro nth_equalityI) simp_all
  ultimately show ?thesis using assms(3) by (simp add: execute_all_def is_list_of_def)
qed

lemma concat_proto_objs:
  fixes e :: "('a, 'b) data_proto"
  assumes "aligned n e" "plain_meta e" "jss \<noteq> []"
  shows "concat_data_proto_or_future (map OProto (map (\<lambda>js. pick js e) jss) :: ('a, 'b, 'c) obj list) = Inr (OProto (pick (concat jss) e))"
proof -
  have "rmap the_proto (map OProto ds :: ('a, 'b, 'c) obj list) = Inr ds" for ds
    by (induction ds) auto
  from this [of "map (\<lambda>js. pick js e) jss"] show ?thesis using concat_proto_picks [OF assms] assms(3)
    by (cases jss) (simp_all add: concat_data_proto_or_future_def)
qed

lemma collect_blocks:
  assumes "aligned n e" "plain_meta e" "0 < w" "length jss = w"
  shows "collect_dp_compute_data_proto w (OList (map OProto (map (\<lambda>js. pick js e) jss))) = Inr (OProto (pick (concat jss) e))"
proof -
  have "jss \<noteq> []" using assms(3,4) by auto
  from concat_proto_objs [OF assms(1,2) this] assms(4) show ?thesis
    by (simp add: collect_dp_compute_data_proto_def collect_dp_compute_def list_all_iff)
qed

lemma strip_padding_pick:
  assumes "aligned n e" "0 < n"
  shows "strip_padding (length rows) (OProto (pick ([0..<n] @ rows) e)) = Inr (OProto e)"
proof (cases "rows = []")
  case True
  then show ?thesis by (simp add: strip_padding_def pick_all [OF assms(1)])
next
  case False
  let ?is = "[0..<n] @ rows"
  have al: "aligned (length ?is) (pick ?is e)" by (rule aligned_pick_pos [OF assms])
  have "take (length ?is - length rows) [0..<length ?is] = [0..<n]" by simp
  then have "select_idxs (pick ?is e) (IdxInts (map int (take (length ?is - length rows) [0..<length ?is])))
      = Inr (pick [0..<n] (pick ?is e))"
    using select_idxs_pick [OF al, of "[0..<n]"] by simp
  also have "pick [0..<n] (pick ?is e) = pick (picks ?is [0..<n]) e" by (intro pick_pick) auto
  also have "picks ?is [0..<n] = [0..<n]" unfolding picks_def by (rule map_idI) (simp add: nth_append)
  finally show ?thesis
    using False proto_len_aligned [OF al] pick_all [OF assms(1)] by (simp add: strip_padding_def)
qed

lemma pad_count_dvd: "0 < w \<Longrightarrow> w dvd n + pad_count n w"
proof -
  assume w: "0 < w"
  show ?thesis
  proof (cases "n mod w = 0")
    case False
    then have "pad_count n w = w - n mod w" by (simp add: pad_count_def)
    then have "n + pad_count n w = w * (n div w) + w"
      using mult_div_mod_eq [of w n] mod_less_divisor [OF w, of n] by linarith
    then show ?thesis by simp
  qed (auto simp: pad_count_def)
qed

lemma dispatch_padded:
  assumes "aligned n d" "plain_meta d" "0 < n" "0 < w" "is_padding_enabled ap d"
  shows "dispatch_dp_compute_data_proto ap w [OProto d] []
    = Inr ([OList (map OProto (map (\<lambda>js. pick js d) (blocks w ([0..<n] @ replicate (pad_count n w) (n - 1)))))], [], Some (pad_count n w))"
proof -
  let ?is = "[0..<n] @ replicate (pad_count n w) (n - 1)"
  have "chunk ap (pick ?is d) w = Inr (map (\<lambda>js. pick js d) (blocks w ?is))"
    using chunk_pick [OF assms(1,3), of ?is w ap] assms(3,4) pad_count_dvd [OF assms(4), of n] by simp
  then show ?thesis
    using assms(4,5) padding_pick [OF assms(1,2,3), of "pad_count n w"] proto_len_aligned [OF assms(1)]
    by (simp add: dispatch_dp_compute_data_proto_def split_args_kwargs_data_proto_with_auto_padding_def
        padding_and_split_data_def)
qed

text \<open>C1: calling a method in mode \<open>DP_COMPUTE_PROTO\<close> on a worker group is running it on the
  whole batch. For a method that works row by row, a batch of any positive length with padding
  enabled, and any number of workers, the batch is padded to a multiple of the number of workers, split, processed piece by
  piece, concatenated, and the padding removed again: the result is the method's result on the batch itself.\<close>

theorem data_parallel_call:
  fixes remote :: "('a, 'b, 'c) remote"
  assumes "aligned n d" "plain_meta d" "aligned n e" "plain_meta e" "0 < n" "0 < w"
    and "is_padding_enabled auto_padding d" "rowwise remote n d e"
  shows "call_method auto_padding w DP_COMPUTE_PROTO EXECUTE_ALL remote [OProto d] [] = Inr (OProto e)"
proof -
  let ?is = "[0..<n] @ replicate (pad_count n w) (n - 1)"
  let ?objs = "\<lambda>d. map OProto (map (\<lambda>js. pick js d) (blocks w ?is)) :: ('a, 'b, 'c) obj list"
  have dvd: "w dvd length ?is" using pad_count_dvd [OF assms(6), of n] by simp
  have bl: "\<forall>js \<in> set (blocks w ?is). js \<noteq> [] \<and> (\<forall>j \<in> set js. j < n)"
  proof
    fix js
    assume "js \<in> set (blocks w ?is)"
    then show "js \<noteq> [] \<and> (\<forall>j \<in> set js. j < n)" using blocks_wf [OF dvd, of js] assms(5) by (auto split: if_splits)
  qed
  have dispatch: "dispatch_dp_compute_data_proto auto_padding w [OProto d :: ('a, 'b, 'c) obj] []
      = Inr ([OList (?objs d)], [], Some (pad_count n w))"
    by (rule dispatch_padded [OF assms(1,2,5,6,7)])
  have execute: "execute_all w remote [OList (?objs d)] [] = Inr (OList (?objs e))"
    by (rule execute_blocks [OF assms(8) bl length_blocks])
  have collect: "collect_dp_compute_data_proto w (OList (?objs e)) = Inr (OProto (pick ?is e))"
    using collect_blocks [OF assms(3,4,6), of "blocks w ?is"] concat_blocks_pick [OF dvd assms(6)] by simp
  have strip: "strip_padding (pad_count n w) (OProto (pick ?is e) :: ('a, 'b, 'c) obj) = Inr (OProto e)"
    using strip_padding_pick [OF assms(3,5), of "replicate (pad_count n w) (n - 1)"] by simp
  show ?thesis
    by (simp only: call_method_def get_predefined_dispatch_fn.simps get_predefined_execute_fn.simps func_generator_def
        rbind.simps prod.case dispatch execute collect option.case strip)
qed

lemma blocks_Nil [simp]: "blocks c is = [] \<longleftrightarrow> c = 0"
  by (simp add: blocks_def)

definition demo_auto :: "(int, pyv) data_proto" where
  "demo_auto = demo_proto\<lparr>meta_info := [(auto_padding_key, PBool True)]\<rparr>"

text \<open>A remote method that doubles the \<open>ids\<close> of the rows it gets.\<close>

definition double_rows :: "(int, pyv) data_proto \<Rightarrow> (int, pyv) data_proto" where
  "double_rows p = p\<lparr>batch := map_option (\<lambda>t. t\<lparr>td_tensors := dict_map (map (\<lambda>x. 2 * x)) (td_tensors t)\<rparr>) (batch p)\<rparr>"

definition demo_remote :: "(int, pyv, unit) remote" where
  "demo_remote i as ks = (case as of [OProto p] \<Rightarrow> Inr (OProto (double_rows p)) | _ \<Rightarrow> Inl TypeError)"

lemma demo_rowwise: "rowwise demo_remote 4 demo_auto (double_rows demo_auto)"
proof -
  have "double_rows (pick is demo_auto) = pick is (double_rows demo_auto)" if "list_all (\<lambda>j. j < 4) is" for "is"
  proof -
    have "\<forall>j \<in> set is. j < length [11, 12, 13, 14 :: int]" "\<forall>j \<in> set is. j < length [1, 1, 0, 1 :: int]"
      using that by (auto simp: list_all_iff)
    from this [THEN picks_map, of "\<lambda>x. 2 * x"] show ?thesis
      by (simp add: double_rows_def demo_auto_def demo_proto_def pick_def td_pick_def dict_map_def)
  qed
  then show ?thesis by (simp add: rowwise_def demo_remote_def)
qed

lemma demo_auto_ok:
  "aligned 4 demo_auto" "plain_meta demo_auto" "aligned 4 (double_rows demo_auto)" "plain_meta (double_rows demo_auto)"
  "is_padding_enabled False demo_auto"
  by code_simp+

theorem data_parallel_call_witness:
  "call_method False 3 DP_COMPUTE_PROTO EXECUTE_ALL demo_remote [OProto demo_auto] [] = Inr (OProto (double_rows demo_auto))"
  by (rule data_parallel_call [OF demo_auto_ok(1-4) _ _ demo_auto_ok(5) demo_rowwise]) simp_all

section \<open>Calls over a device mesh\<close>

lemma cached_present:
  assumes "cached n q info mesh = Inr (v, info')"
  shows "mesh \<in> set (keys info')"
  using assms by (auto simp: cached_def set_keys rbind_Inr_iff split: option.splits)

lemma filter_nth_mask: "length ms = w \<Longrightarrow> rmap (py_nth ms) [0..<w] = Inr ms"
  using rmap_py_nth [of "[0..<w]" ms] by auto

lemma nd_dispatch_blocks:
  fixes d :: "('a, 'b) data_proto"
  assumes "aligned n d" "0 < n" "0 < dp" "dp dvd n" "length mapping = w" "list_all (\<lambda>r. r < dp) mapping"
  shows "dispatch_nd_compute_dataproto ap mapping dp w [OProto d :: ('a, 'b, 'c) obj] []
    = Inr ([OList (map OProto (map (\<lambda>js. pick js d) (map (\<lambda>r. blocks dp [0..<n] ! r) mapping)))], [], None)"
proof -
  let ?bl = "blocks dp [0..<n]"
  let ?xs = "map OProto (map (\<lambda>js. pick js d) ?bl) :: ('a, 'b, 'c) obj list"
  have "chunk ap d dp = Inr (map (\<lambda>js. pick js d) ?bl)"
    using chunk_pick [OF assms(1,2), of "[0..<n]" dp ap] assms(2-4) pick_all [OF assms(1)] by simp
  then have split: "split_args_kwargs_data_proto ap dp [OProto d :: ('a, 'b, 'c) obj] [] = Inr ([OList ?xs], [])"
    by (simp add: split_args_kwargs_data_proto_def split_arg_def dict_mapr_def)
  have put: "parallel_put (OList ?xs) = Inr ?xs" "py_length (OList ?xs) = Inr dp"
    using assms(3) by (simp_all add: parallel_put_def)
  have "rmap (\<lambda>i. rbind (py_nth mapping i) (py_nth ?xs)) [0..<w] = Inr (map (\<lambda>i. ?xs ! (mapping ! i)) [0..<w])"
    using assms(5,6) by (intro rmap_total) (auto simp: list_all_length py_nth_def)
  moreover have "map (\<lambda>i. ?xs ! (mapping ! i)) [0..<w] = map OProto (map (\<lambda>js. pick js d) (map (\<lambda>r. ?bl ! r) mapping))"
    using assms(5,6) by (intro nth_equalityI) (auto simp: list_all_length)
  ultimately have shard: "nd_shard mapping dp w ?xs = Inr (OList (map OProto (map (\<lambda>js. pick js d) (map (\<lambda>r. ?bl ! r) mapping))))"
    by (simp add: nd_shard_def)
  have none: "dict_mapr f [] = Inr []" for f :: "'x \<Rightarrow> 'y result" by (simp add: dict_mapr_def)
  have first: "py_nth [OList ?xs] 0 = Inr (OList ?xs)" by simp
  show ?thesis
    by (simp only: dispatch_nd_compute_dataproto_def split rbind.simps prod.case dispatch_nd_compute_def first put
        rmap.simps none shard)
qed

lemma nd_collect_blocks:
  fixes e :: "('a, 'b) data_proto"
  assumes "aligned n e" "plain_meta e" "length mapping = w" "length collect_mask = w"
    and "map ((!) mapping) (filter ((!) collect_mask) [0..<w]) = [0..<dp]" "dp dvd n" "0 < dp"
  shows "collect_nd_compute_dataproto collect_mask w
      (OList (map OProto (map (\<lambda>js. pick js e) (map (\<lambda>r. blocks dp [0..<n] ! r) mapping))) :: ('a, 'b, 'c) obj) = Inr (OProto e)"
proof -
  let ?bl = "blocks dp [0..<n]" and ?ranks = "filter ((!) collect_mask) [0..<w]"
  let ?objs = "map OProto (map (\<lambda>js. pick js e) (map (\<lambda>r. ?bl ! r) mapping)) :: ('a, 'b, 'c) obj list"
  have dvd: "dp dvd length [0..<n]" using assms(6) by simp
  have "map ((!) ?objs) ?ranks = map OProto (map (\<lambda>js. pick js e) (map (\<lambda>r. ?bl ! r) (map ((!) mapping) ?ranks)))"
    using assms(3) by auto
  also have "map (\<lambda>r. ?bl ! r) (map ((!) mapping) ?ranks) = ?bl"
    unfolding assms(5) by (intro nth_equalityI) simp_all
  finally have items: "map ((!) ?objs) ?ranks = map OProto (map (\<lambda>js. pick js e) ?bl)" .
  have "?bl \<noteq> []" using assms(7) by simp
  then have cat: "concat_data_proto_or_future (map OProto (map (\<lambda>js. pick js e) ?bl) :: ('a, 'b, 'c) obj list) = Inr (OProto e)"
    by (simp only: concat_proto_objs [OF assms(1,2)] concat_blocks_pick [OF dvd assms(7)] pick_all [OF assms(1)] simp_thms)
  have len: "length ?objs = w" using assms(3) by simp
  have "list_all proto_or_ref (map OProto (map (\<lambda>js. pick js e) ?bl) :: ('a, 'b, 'c) obj list)" by (simp add: list_all_iff)
  then show ?thesis
    by (simp only: collect_nd_compute_dataproto_def collect_nd_compute_def py_length.simps rbind.simps len ensure_True
        filter_nth_mask [OF assms(4)] iter_items.simps items cat simp_thms)
qed

text \<open>C25: a call over an n-dimensional mesh (data parallel times tensor, pipeline or sequence parallel)
  sends every worker the piece of its data-parallel rank and collects from one worker per rank. Whenever
  the ranks chosen by the collect mask have the data-parallel ranks \<open>0, ..., dp - 1\<close> in this order and \<open>dp\<close> divides the
  length of the batch, a row-wise method whose result has plain \<open>meta_info\<close> returns its result on the whole batch, and the mesh
  answers are cached in the worker group.\<close>

theorem mesh_call:
  fixes remote :: "('a, 'b, 'c) remote"
  assumes "aligned n d" "aligned n e" "plain_meta e" "0 < n" "rowwise remote n d e"
    and "cached (world_size wg) query_dispatch (dispatch_info wg) mesh = Inr (mapping, info)"
    and "cached (world_size wg) query_collect (collect_info wg) mesh = Inr (collect_mask, cinfo)"
    and "length mapping = world_size wg" "length collect_mask = world_size wg"
    and "map ((!) mapping) (filter ((!) collect_mask) [0..<world_size wg]) = [0..<dp]"
    and "list_all (\<lambda>r. r < dp) mapping" "dp dvd n" "0 < dp"
  shows "call_nd_method auto_padding query_dispatch query_collect mesh wg remote [OProto d] []
    = Inr (OProto e, wg\<lparr>dispatch_info := info, collect_info := cinfo\<rparr>)"
proof -
  let ?w = "world_size wg" and ?bl = "blocks dp [0..<n]"
  let ?objs = "\<lambda>d. map OProto (map (\<lambda>js. pick js d) (map (\<lambda>r. ?bl ! r) mapping)) :: ('a, 'b, 'c) obj list"
  have dvd: "dp dvd length [0..<n]" using assms(12) by simp
  have bl: "?bl ! r \<in> set ?bl" if "r < dp" for r using that by simp
  have "dp - 1 \<in> set mapping"
  proof -
    have "dp - 1 \<in> set (map ((!) mapping) (filter ((!) collect_mask) [0..<?w]))" using assms(10,13) by simp
    then show ?thesis using assms(8) by auto
  qed
  then have "Max (set mapping) = dp - 1" using assms(11) by (intro Max_eqI) (auto simp: list_all_iff)
  then have dp: "Max (set mapping) + 1 = dp" and ne: "mapping \<noteq> []" using assms(13) \<open>dp - 1 \<in> set mapping\<close> by auto
  have dispatch: "dispatch_nd_compute_dataproto auto_padding mapping dp ?w [OProto d :: ('a, 'b, 'c) obj] [] = Inr ([OList (?objs d)], [], None)"
    by (rule nd_dispatch_blocks [OF assms(1,4,13,12,8,11)])
  have "\<forall>js \<in> set (map (\<lambda>r. ?bl ! r) mapping). js \<noteq> [] \<and> (\<forall>j \<in> set js. j < n)"
  proof
    fix js
    assume "js \<in> set (map (\<lambda>r. ?bl ! r) mapping)"
    then have "js \<in> set ?bl" using assms(11) bl by (auto simp: list_all_iff)
    then show "js \<noteq> [] \<and> (\<forall>j \<in> set js. j < n)" using blocks_wf [OF dvd, of js] assms(4) by auto
  qed
  then have execute: "execute_all ?w remote [OList (?objs d)] [] = Inr (OList (?objs e))"
    by (rule execute_blocks [OF assms(5)]) (simp add: assms(8))
  have collect: "collect_nd_compute_dataproto collect_mask ?w (OList (?objs e)) = Inr (OProto e)"
    by (rule nd_collect_blocks [OF assms(2,3,8,9,10,12,13)])
  have key: "mesh \<in> set (keys info)" by (rule cached_present [OF assms(6)])
  have lazy_dispatch: "dispatch_lazy_compute_data_proto auto_padding query_dispatch mesh wg [OProto d :: ('a, 'b, 'c) obj] []
      = Inr (([OList (?objs d)], [], None), wg\<lparr>dispatch_info := info\<rparr>)"
    by (simp only: dispatch_lazy_compute_data_proto_def assms(6) rbind.simps prod.case dp dispatch ne ensure_True simp_thms)
  have lazy_collect: "collect_lazy_compute_data_proto query_collect mesh (wg\<lparr>dispatch_info := info\<rparr>) (OList (?objs e))
      = Inr (OProto e, wg\<lparr>dispatch_info := info, collect_info := cinfo\<rparr>)"
    using assms(7) key collect by (simp add: collect_lazy_compute_data_proto_def)
  show ?thesis
    by (simp only: call_nd_method_def lazy_dispatch rbind.simps prod.case execute lazy_collect option.case strip_padding_def
        less_irrefl if_False)
qed

definition demo_wg :: worker_group where
  "demo_wg = \<lparr>world_size = 4, dispatch_info = [], collect_info = []\<rparr>"

text \<open>Two data-parallel ranks of two workers each; the first worker of each rank is collected.\<close>

theorem mesh_call_witness:
  "call_nd_method False (\<lambda>_. Inr [0, 0, 1, 1]) (\<lambda>_. Inr [True, False, True, False]) ''actor'' demo_wg demo_remote [OProto demo_auto] []
    = Inr (OProto (double_rows demo_auto),
        \<lparr>world_size = 4, dispatch_info = [(''actor'', [0, 0, 1, 1])], collect_info = [(''actor'', [True, False, True, False])]\<rparr>)"
proof -
  have c: "cached (world_size demo_wg) (\<lambda>_. Inr [0, 0, 1, 1]) (dispatch_info demo_wg) ''actor'' = Inr ([0, 0, 1, 1 :: nat], [(''actor'', [0, 0, 1, 1])])"
    "cached (world_size demo_wg) (\<lambda>_. Inr [True, False, True, False]) (collect_info demo_wg) ''actor''
      = Inr ([True, False, True, False], [(''actor'', [True, False, True, False])])"
    "map ((!) [0, 0, 1, 1 :: nat]) (filter ((!) [True, False, True, False]) [0..<world_size demo_wg]) = [0..<2]"
    by code_simp+
  show ?thesis
    using mesh_call [OF demo_auto_ok(1,3,4) _ demo_rowwise c(1,2) _ _ c(3), of False] by (simp add: demo_wg_def)
qed

section \<open>Corners of the call path\<close>

text \<open>In mode \<open>DP_COMPUTE_METRIC\<close> the result is a list with one entry per worker, but the call
  removes from its end as many entries as rows were padded: whatever the workers return, metrics of the last
  workers are lost when the batch was padded.\<close>

theorem metric_mode_drops_workers:
  fixes remote :: "('a, 'b, 'c) remote"
  assumes "aligned n d" "plain_meta d" "0 < n" "0 < w" "is_padding_enabled auto_padding d"
    and "list_all2 (\<lambda>js out. \<forall>i. remote i [OProto (pick js d)] [] = Inr out)
      (blocks w ([0..<n] @ replicate (pad_count n w) (n - 1))) outs"
  shows "call_method auto_padding w DP_COMPUTE_METRIC EXECUTE_ALL remote [OProto d] []
    = Inr (OList (take (w - pad_count n w) outs))"
proof -
  let ?is = "[0..<n] @ replicate (pad_count n w) (n - 1)"
  let ?objs = "map OProto (map (\<lambda>js. pick js d) (blocks w ?is)) :: ('a, 'b, 'c) obj list"
  have len: "length outs = w" using list_all2_lengthD [OF assms(6)] by simp
  have dispatch: "dispatch_dp_compute_data_proto auto_padding w [OProto d :: ('a, 'b, 'c) obj] []
      = Inr ([OList ?objs], [], Some (pad_count n w))"
    by (rule dispatch_padded [OF assms(1-5)])
  have "rmap (\<lambda>i. remote i (map (\<lambda>a. items_of a ! i) [OList ?objs]) (dict_map (\<lambda>v. items_of v ! i) [])) [0..<w]
      = Inr (map ((!) outs) [0..<w])"
    using list_all2_nthD [OF assms(6)] by (intro rmap_total) simp
  then have execute: "execute_all w remote [OList ?objs] [] = Inr (OList outs)"
    using len map_nth [of outs] by (simp add: execute_all_def is_list_of_def)
  have collect: "collect_dp_compute w (OList outs) = Inr (OList outs)"
    using len by (simp add: collect_dp_compute_def)
  have strip: "strip_padding (pad_count n w) (OList outs) = Inr (OList (take (w - pad_count n w) outs))"
    using len by (simp add: strip_padding_def)
  show ?thesis
    by (simp only: call_method_def get_predefined_dispatch_fn.simps get_predefined_execute_fn.simps func_generator_def
        rbind.simps prod.case dispatch execute collect option.case strip)
qed

text \<open>A remote method that reports how many rows it got.\<close>

definition count_remote :: "(int, pyv, nat) remote" where
  "count_remote i as ks = (case as of [OProto p] \<Rightarrow> Inr (OOther (proto_len p)) | _ \<Rightarrow> Inl TypeError)"

theorem metric_mode_drops_workers_witness:
  "call_method False 3 DP_COMPUTE_METRIC EXECUTE_ALL count_remote [OProto demo_auto] [] = Inr (OList [OOther 2])"
proof -
  have "blocks 3 ([0..<4] @ replicate (pad_count 4 3) (4 - 1)) = [[0, 1], [2, 3], [3, 3]]" by code_simp
  moreover have "proto_len (pick [i, j] demo_auto) = 2" for i j
    by (simp add: proto_len_def demo_auto_def demo_proto_def)
  ultimately have "list_all2 (\<lambda>js out. \<forall>i. count_remote i [OProto (pick js demo_auto)] [] = Inr out)
      (blocks 3 ([0..<4] @ replicate (pad_count 4 3) (4 - 1))) [OOther 2, OOther 2, OOther 2]"
    by (simp add: count_remote_def)
  then have "call_method False 3 DP_COMPUTE_METRIC EXECUTE_ALL count_remote [OProto demo_auto] []
      = Inr (OList (take (3 - pad_count 4 3) [OOther 2, OOther 2, OOther 2]))"
    by (intro metric_mode_drops_workers [OF demo_auto_ok(1,2) _ _ demo_auto_ok(5)]) simp_all
  then show ?thesis by (simp add: pad_count_def)
qed

text \<open>The number of threads of the mesh dispatch is taken from the first positional argument, so a call with keyword
  arguments only raises; and the mode \<open>RANK_ZERO\<close> of the enumeration has no dispatch function.\<close>

lemma mesh_dispatch_needs_positional:
  "split_args_kwargs_data_proto ap dp [] kwargs = Inr ([], sk) \<Longrightarrow>
    dispatch_nd_compute_dataproto ap mapping dp w [] kwargs = Inl IndexError"
  by (simp add: dispatch_nd_compute_dataproto_def dispatch_nd_compute_def py_nth_def)

lemma rank_zero_has_no_dispatch: "call_method ap n RANK_ZERO em remote args kwargs = Inl KeyError"
  by (simp add: call_method_def)

end
