(* ===== verification/Controller.thy ===== *)
theory Controller
  imports Dispatch PyString
begin

section \<open>Resource pools and dynamic enumerations\<close>

text \<open>
  \<open>ResourcePool\<close> of \<open>single_controller/base/worker_group.py\<close>, the splitting, merging and worker placement of
  \<open>single_controller/ray/base.py\<close>, and \<open>DynamicEnum\<close> of \<open>utils/py_functional.py\<close>, which names the
  dispatch modes. Placement groups are Ray's; they are a list of an arbitrary type.
\<close>

subsection \<open>Pools\<close>

record 'pg pool =
  store :: "nat list"
  use_gpu :: bool
  name_prefix :: string
  max_colocate_count :: nat
  n_gpus_per_node :: nat
  detached :: bool
  pgs :: "'pg list"
  sub_range :: "(nat \<times> nat) option" \<comment> \<open>a \<open>SubRayResourcePool\<close>: start bundle and size\<close>

definition add_node :: "nat \<Rightarrow> 'pg pool \<Rightarrow> 'pg pool" where
  "add_node process_count p = p\<lparr>store := store p @ [process_count]\<rparr>"

definition pool_world_size :: "'pg pool \<Rightarrow> nat" where
  "pool_world_size p = (case sub_range p of None \<Rightarrow> sum_list (store p) | Some (start, n) \<Rightarrow> n)"

definition local_world_size_list :: "'pg pool \<Rightarrow> nat list" where
  "local_world_size_list p = concat (map (\<lambda>n. replicate n n) (store p))"

definition local_rank_list :: "'pg pool \<Rightarrow> nat list" where
  "local_rank_list p = concat (map (\<lambda>n. [0..<n]) (store p))"

datatype split_size = EqualSize nat | Sizes "nat list"

definition split_size_list :: "nat \<Rightarrow> split_size \<Rightarrow> nat list result" where
  "split_size_list world s = (case s of
     EqualSize k \<Rightarrow>
       rbind (ensure ZeroDivisionError (k \<noteq> 0)) (\<lambda>_.
       rbind (py_assert (world mod k = 0)) (\<lambda>_. Inr (replicate (world div k) k)))
   | Sizes ks \<Rightarrow> Inr ks)"

text \<open>\<open>np.cumsum([start] + sizes[:-1])\<close>.\<close>

fun start_indices :: "nat \<Rightarrow> nat list \<Rightarrow> nat list" where
  "start_indices start [] = [start]"
| "start_indices start [k] = [start]"
| "start_indices start (k # ks) = start # start_indices (start + k) ks"

definition split_resource_pool :: "'pg pool \<Rightarrow> split_size \<Rightarrow> 'pg pool list result" where
  "split_resource_pool p s =
    rbind (split_size_list (pool_world_size p) s) (\<lambda>ks.
    rbind (py_assert (sum_list ks = pool_world_size p)) (\<lambda>_.
    let starts = start_indices (case sub_range p of None \<Rightarrow> 0 | Some (start, n) \<Rightarrow> start) ks
    in Inr (map (\<lambda>i. \<lparr>store = store p, use_gpu = use_gpu p, name_prefix = name_prefix p @ ''_split_'' @ nat_string i,
          max_colocate_count = max_colocate_count p, n_gpus_per_node = 8, detached = False, pgs = pgs p,
          sub_range = Some (starts ! i, ks ! i)\<rparr>) [0..<length ks])))"

definition merge_resource_pool :: "'pg pool \<Rightarrow> 'pg pool \<Rightarrow> 'pg pool result" where
  "merge_resource_pool p q =
    rbind (py_assert (use_gpu p = use_gpu q)) (\<lambda>_.
    rbind (py_assert (max_colocate_count p = max_colocate_count q)) (\<lambda>_.
    rbind (py_assert (n_gpus_per_node p = n_gpus_per_node q)) (\<lambda>_.
    rbind (py_assert (detached p = detached q)) (\<lambda>_.
    Inr \<lparr>store = store p @ store q, use_gpu = use_gpu p, name_prefix = name_prefix p @ ''_'' @ name_prefix q,
      max_colocate_count = max_colocate_count p, n_gpus_per_node = 8, detached = detached p,
      pgs = pgs p @ pgs q, sub_range = None\<rparr>))))"

text \<open>The workers of a pool in rank order, as (placement group, bundle) pairs: \<open>_init_with_resource_pool\<close>
  fills every group with the process count of the first node, \<open>_init_with_subresource_pool\<close> walks the
  sub-pool's bundles. The sizes of the groups are a parameter, checked as the code does.\<close>

definition init_with_resource_pool :: "'pg pool \<Rightarrow> ('pg \<Rightarrow> nat) \<Rightarrow> (nat \<times> nat) list result" where
  "init_with_resource_pool p bundle_count =
    rbind (py_nth (store p) 0) (\<lambda>local_world_size.
    rbind (rmap (\<lambda>g. rbind (py_assert (local_world_size \<le> bundle_count (pgs p ! g))) (\<lambda>_.
        Inr (map (\<lambda>local_rank. (g, local_rank)) [0..<local_world_size]))) [0..<length (pgs p)]) (\<lambda>ws.
    Inr (concat ws)))"

definition init_with_subresource_pool :: "'pg pool \<Rightarrow> ('pg \<Rightarrow> nat) \<Rightarrow> nat \<times> nat \<Rightarrow> (nat \<times> nat) list result" where
  "init_with_subresource_pool p bundle_count rng = (case rng of (start, n) \<Rightarrow>
    rbind (py_nth (store p) 0) (\<lambda>local_world_size.
    rbind (ensure ZeroDivisionError (local_world_size \<noteq> 0)) (\<lambda>_.
    rbind (py_nth (pgs p) (start div local_world_size)) (\<lambda>_.
    rmap (\<lambda>curr_rank.
        rbind (py_nth (pgs p) (curr_rank div local_world_size)) (\<lambda>pg.
        rbind (py_assert (local_world_size \<le> bundle_count pg)) (\<lambda>_.
        Inr (curr_rank div local_world_size, curr_rank mod local_world_size)))) [start..<start + n]))))"

text \<open>\<open>ResourcePoolManager\<close>: the GPUs asked for against those the cluster has.\<close>

definition get_n_gpus :: "(string, nat list) dict \<Rightarrow> nat" where
  "get_n_gpus resource_pool_spec = sum_list (map (\<lambda>(k, ns). sum_list ns) resource_pool_spec)"

definition check_resource_available :: "(string, nat list) dict \<Rightarrow> (string, nat) dict \<Rightarrow> unit result" where
  "check_resource_available resource_pool_spec node_available_gpus =
    ensure ValueError (\<not> sum_list (map snd node_available_gpus) < get_n_gpus resource_pool_spec)"

subsection \<open>Dynamic enumerations\<close>

definition py_upper :: "string \<Rightarrow> string" where
  "py_upper s = map (\<lambda>c. if 97 \<le> (of_char c :: nat) \<and> (of_char c :: nat) \<le> 122 then char_of ((of_char c :: nat) - 32) else c) s"

record dynamic_enum =
  members :: "(string, nat) dict"
  next_value :: nat

definition empty_enum :: dynamic_enum where
  "empty_enum = \<lparr>members = [], next_value = 0\<rparr>"

definition enum_register :: "string \<Rightarrow> dynamic_enum \<Rightarrow> (nat \<times> dynamic_enum) result" where
  "enum_register name e =
    rbind (ensure ValueError (py_upper name \<notin> set (keys (members e)))) (\<lambda>_.
    Inr (next_value e, \<lparr>members = AList.update (py_upper name) (next_value e) (members e), next_value = next_value e + 1\<rparr>))"

definition enum_remove :: "string \<Rightarrow> dynamic_enum \<Rightarrow> (nat \<times> dynamic_enum) result" where
  "enum_remove name e =
    rbind (dget (members e) (py_upper name)) (\<lambda>v.
    Inr (v, e\<lparr>members := AList.delete (py_upper name) (members e)\<rparr>))"

definition from_name :: "string \<Rightarrow> dynamic_enum \<Rightarrow> nat option" where
  "from_name name e = map_of (members e) (py_upper name)"

definition init_predefined_dispatch_mode :: "dynamic_enum result" where
  "init_predefined_dispatch_mode = rfold (\<lambda>n e. rbind (enum_register n e) (\<lambda>(m, e'). Inr e'))
    [''RANK_ZERO'', ''ONE_TO_ALL'', ''ALL_TO_ALL'', ''DP_COMPUTE'', ''DP_COMPUTE_PROTO'',
     ''DP_COMPUTE_PROTO_WITH_FUNC'', ''DP_COMPUTE_METRIC'', ''DIRECT_ROLLOUT_METHOD''] empty_enum"

definition init_predefined_execute_mode :: "dynamic_enum result" where
  "init_predefined_execute_mode = rfold (\<lambda>n e. rbind (enum_register n e) (\<lambda>(m, e'). Inr e')) [''ALL'', ''RANK_ZERO''] empty_enum"

text \<open>Registering a mode together with its functions: the enumeration and the table of functions.\<close>

definition register_dispatch_mode ::
  "string \<Rightarrow> 'f \<Rightarrow> dynamic_enum \<times> (nat, 'f) dict \<Rightarrow> (dynamic_enum \<times> (nat, 'f) dict) result" where
  "register_dispatch_mode name fns st = (case st of (e, table) \<Rightarrow>
     rbind (enum_register name e) (\<lambda>(m, e').
     rbind (py_assert (m \<notin> set (keys table))) (\<lambda>_.
     Inr (e', AList.update m fns table))))"

definition update_dispatch_mode :: "nat \<Rightarrow> 'f \<Rightarrow> (nat, 'f) dict \<Rightarrow> (nat, 'f) dict result" where
  "update_dispatch_mode m fns table =
    rbind (py_assert (m \<in> set (keys table))) (\<lambda>_. Inr (AList.update m fns table))"

inductive enum_reachable :: "dynamic_enum \<Rightarrow> bool" where
  enum_start: "enum_reachable empty_enum"
| enum_add: "enum_reachable e \<Longrightarrow> enum_register name e = Inr (v, e') \<Longrightarrow> enum_reachable e'"
| enum_drop: "enum_reachable e \<Longrightarrow> enum_remove name e = Inr (v, e') \<Longrightarrow> enum_reachable e'"

section \<open>Laws\<close>

text \<open>The bundles of a pool, as global bundle numbers.\<close>

definition bundles :: "'pg pool \<Rightarrow> nat list" where
  "bundles p = (case sub_range p of None \<Rightarrow> [0..<sum_list (store p)] | Some (start, n) \<Rightarrow> [start..<start + n])"

lemma start_indices_tile:
  "ks \<noteq> [] \<Longrightarrow> length (start_indices s ks) = length ks
    \<and> concat (map (\<lambda>i. [start_indices s ks ! i..<start_indices s ks ! i + ks ! i]) [0..<length ks]) = [s..<s + sum_list ks]"
proof (induction s ks rule: start_indices.induct)
  case (3 s k k' ks)
  have IH: "length (start_indices (s + k) (k' # ks)) = length (k' # ks)"
    "concat (map (\<lambda>i. [start_indices (s + k) (k' # ks) ! i..<start_indices (s + k) (k' # ks) ! i + (k' # ks) ! i]) [0..<length (k' # ks)])
      = [s + k..<s + k + sum_list (k' # ks)]"
    using 3 by blast+
  have "concat (map (\<lambda>i. [start_indices s (k # k' # ks) ! i..<start_indices s (k # k' # ks) ! i + (k # k' # ks) ! i]) [0..<length (k # k' # ks)])
    = [s..<s + k] @ concat (map (\<lambda>i. [start_indices (s + k) (k' # ks) ! i..<start_indices (s + k) (k' # ks) ! i + (k' # ks) ! i]) [0..<length (k' # ks)])"
    by (simp add: map_upt_Suc del: upt_Suc)
  also have "\<dots> = [s..<s + k] @ [s + k..<s + k + sum_list (k' # ks)]" by (simp only: IH(2))
  also have "\<dots> = [s..<s + sum_list (k # k' # ks)]"
    using upt_add_eq_append [of s "s + k" "sum_list (k' # ks)"] by (simp add: add.assoc)
  finally show ?case using IH(1) by simp
qed simp_all

text \<open>Splitting a resource pool tiles it. Whatever the requested sizes, an accepted split gives
  sub-pools of exactly these sizes whose bundles, taken in order, are the bundles of the pool: none is shared and none is
  lost. The same holds when a sub-pool is split again.\<close>

theorem split_pool_tiles:
  assumes "split_resource_pool p s = Inr ps" "0 < pool_world_size p"
  shows "concat (map bundles ps) = bundles p \<and> sum_list (map pool_world_size ps) = pool_world_size p"
proof -
  define st where "st = (case sub_range p of None \<Rightarrow> 0 | Some (start, n) \<Rightarrow> start)"
  obtain ks where ks: "sum_list ks = pool_world_size p"
    and ps: "ps = map (\<lambda>i. \<lparr>store = store p, use_gpu = use_gpu p, name_prefix = name_prefix p @ ''_split_'' @ nat_string i,
          max_colocate_count = max_colocate_count p, n_gpus_per_node = 8, detached = False, pgs = pgs p,
          sub_range = Some (start_indices st ks ! i, ks ! i)\<rparr>) [0..<length ks]"
    using assms(1) unfolding split_resource_pool_def st_def by (auto simp: rbind_Inr_iff Let_def)
  have ne: "ks \<noteq> []" using ks assms(2) by auto
  have "concat (map bundles ps) = concat (map (\<lambda>i. [start_indices st ks ! i..<start_indices st ks ! i + ks ! i]) [0..<length ks])"
    by (simp add: ps bundles_def comp_def)
  also have "\<dots> = [st..<st + sum_list ks]" using start_indices_tile [OF ne] by blast
  also have "\<dots> = bundles p" by (auto simp: ks st_def bundles_def pool_world_size_def split: option.splits)
  finally have "concat (map bundles ps) = bundles p" .
  moreover have "sum_list (map pool_world_size ps) = pool_world_size p"
    using map_nth [of ks] ks by (simp add: ps pool_world_size_def comp_def)
  ultimately show ?thesis by blast
qed

text \<open>Sixteen bundles on two nodes, split into a half and two quarters, of which the half is split again.\<close>

definition demo_pool :: "nat pool" where
  "demo_pool = \<lparr>store = [8, 8], use_gpu = True, name_prefix = ''p'', max_colocate_count = 3, n_gpus_per_node = 8,
     detached = False, pgs = [0, 1], sub_range = None\<rparr>"

theorem split_pool_tiles_witness:
  "\<exists>ps. split_resource_pool demo_pool (Sizes [8, 4, 4]) = Inr ps \<and> concat (map bundles ps) = [0..<16]"
proof -
  obtain ps where ps: "split_resource_pool demo_pool (Sizes [8, 4, 4]) = Inr ps"
    by (auto simp: split_resource_pool_def split_size_list_def demo_pool_def pool_world_size_def)
  moreover have "0 < pool_world_size demo_pool" "bundles demo_pool = [0..<16]" by code_simp+
  ultimately show ?thesis using split_pool_tiles [OF ps] by simp
qed

lemma upper_register_wf: "enum_register name e = Inr (v, e') \<Longrightarrow> v = next_value e \<and> next_value e' = Suc (next_value e)
    \<and> members e' = AList.update (py_upper name) v (members e) \<and> py_upper name \<notin> set (keys (members e))"
  by (auto simp: enum_register_def rbind_Inr_iff)

lemma map_snd_update_new: "k \<notin> set (keys d) \<Longrightarrow> AList.update k v d = d @ [(k, v)]"
  by (induction d) auto

text \<open>The members of a dynamic enumeration have distinct names and distinct values, whatever sequence of
  registrations and removals led to it: values are handed out from a counter that never goes back, so a mode
  registered after a removal is never confused with the removed one.\<close>

theorem enum_members_distinct:
  assumes "enum_reachable e"
  shows "distinct (keys (members e)) \<and> distinct (map snd (members e)) \<and> list_all (\<lambda>(k, v). v < next_value e) (members e)"
  using assms
proof (induction rule: enum_reachable.induct)
  case enum_start
  then show ?case by (simp add: empty_enum_def)
next
  case (enum_add e name v e')
  have r: "v = next_value e" "next_value e' = Suc (next_value e)" "members e' = members e @ [(py_upper name, v)]"
    "py_upper name \<notin> set (keys (members e))"
    using upper_register_wf [OF enum_add(2)] map_snd_update_new by auto
  have "v \<notin> set (map snd (members e))" using enum_add.IH r(1) by (auto simp: list_all_iff)
  then show ?case using enum_add.IH r by (auto simp: list_all_iff)
next
  case (enum_drop e name v e')
  have r: "members e' = filter (\<lambda>(k, _). py_upper name \<noteq> k) (members e)" "next_value e' = next_value e"
    using enum_drop(2) by (auto simp: enum_remove_def rbind_Inr_iff AList.delete_eq)
  then show ?case using enum_drop.IH
    by (auto simp: keys_def distinct_map_filter list_all_iff)
qed

theorem enum_members_distinct_witness:
  "distinct (map snd [(''B'', 1 :: nat), (''A'', 2)])"
proof -
  have "enum_register ''a'' empty_enum = Inr (0, \<lparr>members = [(''A'', 0)], next_value = 1\<rparr>)"
    "enum_register ''b'' \<lparr>members = [(''A'', 0)], next_value = 1\<rparr> = Inr (1, \<lparr>members = [(''A'', 0), (''B'', 1)], next_value = 2\<rparr>)"
    "enum_remove ''A'' \<lparr>members = [(''A'', 0), (''B'', 1)], next_value = 2\<rparr> = Inr (0, \<lparr>members = [(''B'', 1)], next_value = 2\<rparr>)"
    "enum_register ''a'' \<lparr>members = [(''B'', 1)], next_value = 2\<rparr> = Inr (2, \<lparr>members = [(''B'', 1), (''A'', 2)], next_value = 3\<rparr>)"
    by code_simp+
  note steps = enum_add [OF enum_drop [OF enum_add [OF enum_add [OF enum_start this(1)] this(2)] this(3)] this(4)]
  show ?thesis using enum_members_distinct [OF steps] by simp
qed

text \<open>Local ranks and local world sizes: one entry per process, each rank below its node's size.\<close>

lemma local_ranks_bounded:
  "length (local_rank_list p) = sum_list (store p) \<and> length (local_world_size_list p) = sum_list (store p)
    \<and> list_all2 (<) (local_rank_list p) (local_world_size_list p)"
proof -
  have "list_all2 (<) (concat (map (\<lambda>n. [0..<n]) ns)) (concat (map (\<lambda>n. replicate n n) ns))" for ns :: "nat list"
    by (induction ns) (auto simp: list_all2_conv_all_nth nth_append)
  then show ?thesis by (simp add: local_rank_list_def local_world_size_list_def length_concat comp_def)
qed

text \<open>No two workers of a group share a bundle.\<close>

lemma sub_pool_workers_distinct:
  assumes "init_with_subresource_pool p bundle_count (start, n) = Inr ws"
  shows "length ws = n \<and> distinct ws"
proof -
  obtain k where k: "0 < k" and ws: "rmap (\<lambda>r. rbind (py_nth (pgs p) (r div k)) (\<lambda>pg.
      rbind (py_assert (k \<le> bundle_count pg)) (\<lambda>_. Inr (r div k, r mod k)))) [start..<start + n] = Inr ws"
    using assms by (auto simp: init_with_subresource_pool_def rbind_Inr_iff)
  have "ws = map (\<lambda>r. (r div k, r mod k)) [start..<start + n]"
    using rmap_length [OF ws] rmap_nth [OF ws] by (intro nth_equalityI) (auto simp: rbind_Inr_iff)
  moreover have "inj_on (\<lambda>r. (r div k, r mod k)) A" for A
    by (rule inj_onI) (metis div_mult_mod_eq prod.inject)
  ultimately show ?thesis by (simp add: distinct_map)
qed

end
