(* ===== verification/AsyncQueue.thy ===== *)
theory AsyncQueue
  imports PyValue
begin

section \<open>The sample queue of the fully asynchronous trainer\<close>

text \<open>
  \<open>experimental/fully_async_policy/message_queue.py\<close>: an actor between the rollouter, which puts samples, and the
  trainer, which takes them. Every method body runs under one asyncio lock, so it is one step; the only
  place where the lock is released is \<open>wait()\<close> inside \<open>get_sample\<close>, so a call of \<open>get_sample\<close> is a
  consumer that is either ready to run its loop or waiting for a notification. The logging and the size
  estimate of \<open>get_memory_usage\<close> are left out.
\<close>

record ('a, 'v) mq =
  queue :: "'a list"
  max_queue_size :: nat
  current_param_version :: int
  val_queue :: "'v list"
  staleness_threshold :: real
  running :: bool
  total_produced :: nat
  total_consumed :: nat
  dropped_samples :: nat

definition init_mq :: "nat option \<Rightarrow> real option \<Rightarrow> ('a, 'v) mq result" where
  "init_mq max_size threshold = (case max_size of
     None \<Rightarrow> Inl ValueError
   | Some n \<Rightarrow> Inr \<lparr>queue = [], max_queue_size = n, current_param_version = 0, val_queue = [],
       staleness_threshold = (case threshold of None \<Rightarrow> 3 | Some t \<Rightarrow> t), running = True,
       total_produced = 0, total_consumed = 0, dropped_samples = 0\<rparr>)"

text \<open>\<open>append\<close> to a \<open>deque(maxlen=m)\<close>.\<close>

definition deque_append :: "nat \<Rightarrow> 'a list \<Rightarrow> 'a \<Rightarrow> 'a list" where
  "deque_append m xs x = drop (length xs + 1 - m) (xs @ [x])"

definition put_sample :: "'a \<Rightarrow> ('a, 'v) mq \<Rightarrow> (bool \<times> ('a, 'v) mq) result" where
  "put_sample sample q =
    (if max_queue_size q \<le> length (queue q) then (case queue q of
       [] \<Rightarrow> Inl IndexError
     | _ # rest \<Rightarrow> Inr (False, q\<lparr>queue := deque_append (max_queue_size q) rest sample,
         total_produced := total_produced q + 1, dropped_samples := dropped_samples q + 1\<rparr>))
     else Inr (True, q\<lparr>queue := deque_append (max_queue_size q) (queue q) sample, total_produced := total_produced q + 1\<rparr>))"

text \<open>One pass of the loop of \<open>get_sample\<close> with the lock held: wait, give up because the queue is closed, or take a
  sample and report the remaining length.\<close>

datatype ('a, 's) get_outcome = Waits | Closed | Got 'a nat 's

definition get_sample :: "('a, 'v) mq \<Rightarrow> ('a, ('a, 'v) mq) get_outcome" where
  "get_sample q = (case queue q of
     [] \<Rightarrow> if running q then Waits else Closed
   | x # rest \<Rightarrow> Got x (length rest) (q\<lparr>queue := rest, total_consumed := total_consumed q + 1\<rparr>))"

definition update_param_version :: "int \<Rightarrow> ('a, 'v) mq \<Rightarrow> ('a, 'v) mq" where
  "update_param_version version q = q\<lparr>current_param_version := version\<rparr>"

definition get_queue_size :: "('a, 'v) mq \<Rightarrow> nat" where
  "get_queue_size q = length (queue q)"

definition get_statistics :: "('a, 'v) mq \<Rightarrow> (string, pyv) dict" where
  "get_statistics q = [(''queue_size'', PInt (int (length (queue q)))), (''total_produced'', PInt (int (total_produced q))),
     (''total_consumed'', PInt (int (total_consumed q))), (''dropped_samples'', PInt (int (dropped_samples q))),
     (''current_param_version'', PInt (current_param_version q)), (''staleness_threshold'', PFloat (staleness_threshold q)),
     (''max_queue_size'', PInt (int (max_queue_size q)))]"

definition clear_queue :: "('a, 'v) mq \<Rightarrow> ('a, 'v) mq" where
  "clear_queue q = q\<lparr>queue := []\<rparr>"

definition shutdown :: "('a, 'v) mq \<Rightarrow> ('a, 'v) mq" where
  "shutdown q = q\<lparr>running := False\<rparr>"

definition put_validate :: "'v \<Rightarrow> ('a, 'v) mq \<Rightarrow> ('a, 'v) mq" where
  "put_validate d q = q\<lparr>val_queue := val_queue q @ [d]\<rparr>"

definition get_validate :: "('a, 'v) mq \<Rightarrow> 'v option \<times> ('a, 'v) mq" where
  "get_validate q = (case val_queue q of [] \<Rightarrow> (None, q) | d # rest \<Rightarrow> (Some d, q\<lparr>val_queue := rest\<rparr>))"

subsection \<open>Runs\<close>

text \<open>What became of a sample that left the queue, and the system: the queue, the calls of \<open>get_sample\<close> in progress, and
  as ghosts the samples put so far and those that left, in order.\<close>

datatype fate = Consumed | Dropped | Cleared

record ('a, 'v) queue_system =
  mq_state :: "('a, 'v) mq"
  ready :: "nat list"
  waiting :: "nat list"
  put_log :: "'a list"
  out_log :: "('a \<times> fate) list"

inductive mq_step :: "('a, 'v) queue_system \<Rightarrow> ('a, 'v) queue_system \<Rightarrow> bool" where
  step_put: "put_sample x (mq_state s) = Inr (ok, q) \<Longrightarrow>
    mq_step s (s\<lparr>mq_state := q, ready := ready s @ waiting s, waiting := [], put_log := put_log s @ [x],
      out_log := out_log s @ (if ok then [] else [(hd (queue (mq_state s)), Dropped)])\<rparr>)"
| step_call: "mq_step s (s\<lparr>ready := c # ready s\<rparr>)"
| step_wait: "ready s = cs @ c # ds \<Longrightarrow> get_sample (mq_state s) = Waits \<Longrightarrow>
    mq_step s (s\<lparr>ready := cs @ ds, waiting := c # waiting s\<rparr>)"
| step_got: "ready s = cs @ c # ds \<Longrightarrow> get_sample (mq_state s) = Got x n q \<Longrightarrow>
    mq_step s (s\<lparr>mq_state := q, ready := cs @ ds, out_log := out_log s @ [(x, Consumed)]\<rparr>)"
| step_closed: "ready s = cs @ c # ds \<Longrightarrow> get_sample (mq_state s) = Closed \<Longrightarrow> mq_step s (s\<lparr>ready := cs @ ds\<rparr>)"
| step_version: "mq_step s (s\<lparr>mq_state := update_param_version v (mq_state s)\<rparr>)"
| step_clear: "mq_step s (s\<lparr>mq_state := clear_queue (mq_state s),
    out_log := out_log s @ map (\<lambda>x. (x, Cleared)) (queue (mq_state s))\<rparr>)"
| step_shutdown: "mq_step s (s\<lparr>mq_state := shutdown (mq_state s), ready := ready s @ waiting s, waiting := []\<rparr>)"

inductive_cases mq_stepE: "mq_step s s'"

inductive mq_reachable :: "nat \<Rightarrow> ('a, 'v) queue_system \<Rightarrow> bool" for m where
  mq_start: "init_mq (Some m) th = Inr q \<Longrightarrow>
    mq_reachable m \<lparr>mq_state = q, ready = [], waiting = [], put_log = [], out_log = []\<rparr>"
| mq_next: "mq_reachable m s \<Longrightarrow> mq_step s s' \<Longrightarrow> mq_reachable m s'"

definition n_fate :: "fate \<Rightarrow> ('a \<times> fate) list \<Rightarrow> nat" where
  "n_fate f l = length (filter (\<lambda>(x, g). g = f) l)"

lemma n_fate_simps [simp]: "n_fate f [] = 0" "n_fate f (xs @ ys) = n_fate f xs + n_fate f ys"
  "n_fate f [(x, g)] = (if g = f then 1 else 0)" "n_fate f (map (\<lambda>x. (x, Cleared)) zs) = (if f = Cleared then length zs else 0)"
  by (auto simp: n_fate_def comp_def)

definition mq_inv :: "nat \<Rightarrow> ('a, 'v) queue_system \<Rightarrow> bool" where
  "mq_inv m s \<longleftrightarrow> (let q = mq_state s in
     max_queue_size q = m \<and> length (queue q) \<le> m
     \<and> map fst (out_log s) @ queue q = put_log s
     \<and> total_produced q = length (put_log s) \<and> total_consumed q = n_fate Consumed (out_log s)
     \<and> dropped_samples q = n_fate Dropped (out_log s)
     \<and> (waiting s = [] \<or> queue q = [] \<and> running q))"

lemma put_sample_room:
  "length (queue q) < max_queue_size q \<Longrightarrow>
    put_sample x q = Inr (True, q\<lparr>queue := queue q @ [x], total_produced := total_produced q + 1\<rparr>)"
  by (simp add: put_sample_def deque_append_def)

lemma put_sample_full:
  "length (queue q) = max_queue_size q \<Longrightarrow> queue q = y # rest \<Longrightarrow>
    put_sample x q = Inr (False, q\<lparr>queue := rest @ [x], total_produced := total_produced q + 1,
      dropped_samples := dropped_samples q + 1\<rparr>)"
  by (simp add: put_sample_def deque_append_def)

lemma mq_inv_put:
  assumes "mq_inv m s" "put_sample x (mq_state s) = Inr (ok, q)"
  shows "mq_inv m (s\<lparr>mq_state := q, ready := ready s @ waiting s, waiting := [], put_log := put_log s @ [x],
      out_log := out_log s @ (if ok then [] else [(hd (queue (mq_state s)), Dropped)])\<rparr>)"
proof (cases "length (queue (mq_state s)) < max_queue_size (mq_state s)")
  case True
  then show ?thesis using assms put_sample_room [OF True, of x] by (auto simp: mq_inv_def Let_def)
next
  case False
  then have full: "length (queue (mq_state s)) = max_queue_size (mq_state s)" using assms(1) by (simp add: mq_inv_def Let_def)
  obtain y rest where y: "queue (mq_state s) = y # rest"
    using assms(2) False by (cases "queue (mq_state s)") (auto simp: put_sample_def)
  show ?thesis using assms put_sample_full [OF full y, of x] y full by (auto simp: mq_inv_def Let_def)
qed

lemma mq_inv_step: "mq_inv m s \<Longrightarrow> mq_step s s' \<Longrightarrow> mq_inv m s'"
proof (erule mq_stepE, goal_cases)
  case (1 x ok q)
  show ?case unfolding 1(2) by (rule mq_inv_put [OF 1(1) 1(3)])
next
  case (4 cs c ds x n q)
  then show ?case by (cases "queue (mq_state s)") (auto simp: mq_inv_def Let_def get_sample_def split: if_splits)
qed (auto simp: mq_inv_def Let_def get_sample_def update_param_version_def clear_queue_def shutdown_def comp_def
    split: list.splits if_splits)

lemma mq_reachable_inv: "mq_reachable m s \<Longrightarrow> mq_inv m s"
proof (induction rule: mq_reachable.induct)
  case (mq_start th q)
  then show ?case by (auto simp: init_mq_def mq_inv_def Let_def)
qed (rule mq_inv_step)

text \<open>C9: in every run of the queue, with any interleaving of producers and consumers, the samples
  leave in the order they were put, each exactly once, and the statistics add up: what was produced is what was
  consumed, dropped because the queue was full, cleared, or is still queued. The queue never exceeds its
  bound.\<close>

theorem queue_accounts_for_every_sample:
  assumes "mq_reachable m s"
  shows "map fst (out_log s) @ queue (mq_state s) = put_log s \<and> length (queue (mq_state s)) \<le> m
    \<and> total_produced (mq_state s) = total_consumed (mq_state s) + dropped_samples (mq_state s)
        + n_fate Cleared (out_log s) + get_queue_size (mq_state s)"
proof -
  have inv: "mq_inv m s" by (rule mq_reachable_inv [OF assms])
  have parts: "n_fate Consumed l + n_fate Dropped l + n_fate Cleared l = length l" for l :: "('a \<times> fate) list"
  proof (induction l)
    case (Cons p l)
    then show ?case by (cases p; cases "snd p") (auto simp: n_fate_def)
  qed simp
  have "length (put_log s) = length (out_log s) + length (queue (mq_state s))"
    using inv by (auto simp: mq_inv_def Let_def dest!: arg_cong [of _ _ length])
  then show ?thesis using inv parts [of "out_log s"] by (simp add: mq_inv_def Let_def get_queue_size_def)
qed

text \<open>C24: no wake-up is lost. A consumer sleeps only while the queue is empty and running: as soon as a sample is
  there, or the queue is shut down, every pending call is ready to run; and after a shutdown each of
  the pending calls returns (with a sample or empty-handed) however they are scheduled, in as many steps as there are
  calls.\<close>

theorem no_lost_wakeup:
  assumes "mq_reachable m s"
  shows "(queue (mq_state s) \<noteq> [] \<or> \<not> running (mq_state s) \<longrightarrow> waiting s = [])
    \<and> (\<not> running (mq_state s) \<longrightarrow> (\<exists>s'. (mq_step ^^ length (ready s)) s s' \<and> ready s' = [] \<and> waiting s' = []))"
proof -
  have wait: "waiting s = []" if "mq_reachable m s" "queue (mq_state s) \<noteq> [] \<or> \<not> running (mq_state s)" for s :: "('a, 'b) queue_system"
    using mq_reachable_inv [OF that(1)] that(2) by (auto simp: mq_inv_def Let_def)
  have "\<exists>s'. (mq_step ^^ n) s s' \<and> ready s' = [] \<and> waiting s' = []"
    if "mq_reachable m s" "\<not> running (mq_state s)" "length (ready s) = n" for n and s :: "('a, 'b) queue_system"
    using that
  proof (induction n arbitrary: s)
    case 0
    then show ?case using wait [of s] by (intro exI [of _ s]) auto
  next
    case (Suc n)
    obtain c ds where c: "ready s = [] @ c # ds" "length ds = n" using Suc.prems(3) by (cases "ready s") auto
    have "\<exists>t. mq_step s t \<and> ready t = ds \<and> \<not> running (mq_state t)"
    proof (cases "queue (mq_state s)")
      case Nil
      then have "get_sample (mq_state s) = Closed" using Suc.prems(2) by (simp add: get_sample_def)
      from step_closed [OF c(1) this] show ?thesis using Suc.prems(2) by force
    next
      case (Cons x rest)
      then have "get_sample (mq_state s) = Got x (length rest) ((mq_state s)\<lparr>queue := rest, total_consumed := total_consumed (mq_state s) + 1\<rparr>)"
        by (simp add: get_sample_def)
      from step_got [OF c(1) this] show ?thesis using Suc.prems(2) by force
    qed
    then obtain t where t: "mq_step s t" "ready t = ds" "\<not> running (mq_state t)" by blast
    then show ?case
      using Suc.IH [OF mq_next [OF Suc.prems(1) t(1)] t(3)] c(2) relpowp_Suc_I2 [of mq_step s t n] by metis
  qed
  then show ?thesis using wait assms by blast
qed

text \<open>A queue of size two: a consumer waits, three samples are put, of which the first is dropped, and the consumer
  takes the second.\<close>

lemma demo_queue_run:
  "\<exists>s :: (int, unit) queue_system. mq_reachable 2 s \<and> out_log s = [(11, Dropped), (12, Consumed)] \<and> queue (mq_state s) = [13]"
proof -
  define q :: "int list \<Rightarrow> nat \<Rightarrow> nat \<Rightarrow> nat \<Rightarrow> (int, unit) mq" where "q xs p c d = \<lparr>queue = xs, max_queue_size = 2, current_param_version = 0,
    val_queue = [], staleness_threshold = 3, running = True, total_produced = p, total_consumed = c, dropped_samples = d\<rparr>" for xs p c d
  have "mq_reachable 2 \<lparr>mq_state = q [] 0 0 0, ready = [], waiting = [], put_log = [], out_log = []\<rparr>"
    by (rule mq_start [of _ None]) (simp add: init_mq_def q_def)
  from mq_next [OF this step_call [of _ 7]]
  have "mq_reachable 2 \<lparr>mq_state = q [] 0 0 0, ready = [7], waiting = [], put_log = [], out_log = []\<rparr>" by simp
  from mq_next [OF this step_wait [of _ "[]" 7 "[]"]]
  have "mq_reachable 2 \<lparr>mq_state = q [] 0 0 0, ready = [], waiting = [7], put_log = [], out_log = []\<rparr>"
    by (simp add: get_sample_def q_def)
  from mq_next [OF this step_put [of 11 _ True "q [11] 1 0 0"]]
  have "mq_reachable 2 \<lparr>mq_state = q [11] 1 0 0, ready = [7], waiting = [], put_log = [11], out_log = []\<rparr>"
    by (simp add: put_sample_def deque_append_def q_def)
  from mq_next [OF this step_put [of 12 _ True "q [11, 12] 2 0 0"]]
  have "mq_reachable 2 \<lparr>mq_state = q [11, 12] 2 0 0, ready = [7], waiting = [], put_log = [11, 12], out_log = []\<rparr>"
    by (simp add: put_sample_def deque_append_def q_def)
  from mq_next [OF this step_put [of 13 _ False "q [12, 13] 3 0 1"]]
  have "mq_reachable 2 \<lparr>mq_state = q [12, 13] 3 0 1, ready = [7], waiting = [], put_log = [11, 12, 13], out_log = [(11, Dropped)]\<rparr>"
    by (simp add: put_sample_def deque_append_def q_def)
  from mq_next [OF this step_got [of _ "[]" 7 "[]" 12 1 "q [13] 3 1 1"]]
  have "mq_reachable 2 \<lparr>mq_state = q [13] 3 1 1, ready = [], waiting = [], put_log = [11, 12, 13],
      out_log = [(11, Dropped), (12, Consumed)]\<rparr>"
    by (simp add: get_sample_def q_def)
  then show ?thesis by (intro exI [of _ "\<lparr>mq_state = q [13] 3 1 1, ready = [], waiting = [], put_log = [11, 12, 13],
      out_log = [(11, Dropped), (12, Consumed)]\<rparr>"]) (simp add: q_def)
qed

theorem queue_accounts_for_every_sample_witness:
  "\<exists>s :: (int, unit) queue_system. mq_reachable 2 s \<and> put_log s = [11, 12, 13]"
proof -
  obtain s :: "(int, unit) queue_system" where s: "mq_reachable 2 s" "out_log s = [(11, Dropped), (12, Consumed)]" "queue (mq_state s) = [13]"
    using demo_queue_run by blast
  then show ?thesis using queue_accounts_for_every_sample [OF s(1)] by auto
qed

theorem no_lost_wakeup_witness:
  "\<exists>s :: (int, unit) queue_system. mq_reachable 2 s \<and> queue (mq_state s) = [13] \<and> waiting s = []"
proof -
  obtain s :: "(int, unit) queue_system" where s: "mq_reachable 2 s" "queue (mq_state s) = [13]"
    using demo_queue_run by blast
  then show ?thesis using no_lost_wakeup [OF s(1)] by auto
qed

section \<open>The interface the trainer uses\<close>

text \<open>
  The trainer sees the queue through \<open>get_sample\<close> alone. What it relies on: a call takes the oldest sample,
  and waits or reports closing exactly when there is none.
\<close>

locale sample_source =
  fixes get :: "'s \<Rightarrow> ('a option, 's) get_outcome"
    and content :: "'s \<Rightarrow> 'a option list"
  assumes get_Cons: "content s = x # xs \<Longrightarrow> \<exists>s'. get s = Got x (length xs) s' \<and> content s' = xs"
    and get_Nil: "content s = [] \<Longrightarrow> get s = Waits \<or> get s = Closed"

text \<open>
  The loop of \<open>_get_samples_from_queue\<close> in \<open>fully_async_trainer.py\<close>: \<open>get_sample_sync\<close> blocks while the queue is empty
  and running; on a closed queue it returns \<open>None\<close>, which the loop fails to unpack; a sample \<open>None\<close> is
  the rollouter's signal that it has finished.
\<close>

datatype ('a, 's) collected = Batch "'a list" 's | NotEnough "'a list" 's | Blocks "'a list" 's | Raises py_error

fun collect_samples :: "('s \<Rightarrow> ('a option, 's) get_outcome) \<Rightarrow> nat \<Rightarrow> 'a list \<Rightarrow> 's \<Rightarrow> ('a, 's) collected" where
  "collect_samples get 0 acc s = (if acc = [] then NotEnough acc s else Batch acc s)"
| "collect_samples get (Suc k) acc s = (case get s of
     Waits \<Rightarrow> Blocks acc s
   | Closed \<Rightarrow> Raises TypeError
   | Got None n s' \<Rightarrow> NotEnough acc s'
   | Got (Some x) n s' \<Rightarrow> collect_samples get k (acc @ [x]) s')"

definition get_samples_from_queue :: "nat \<Rightarrow> ('a option, 'v) mq \<Rightarrow> ('a, ('a option, 'v) mq) collected" where
  "get_samples_from_queue required_samples q = collect_samples get_sample required_samples [] q"

context sample_source
begin

lemma collect_enough:
  assumes "content s = map Some xs @ rest" "acc @ xs \<noteq> []"
  shows "\<exists>s'. collect_samples get (length xs) acc s = Batch (acc @ xs) s' \<and> content s' = rest"
  using assms
proof (induction xs arbitrary: s acc)
  case (Cons x xs)
  obtain s' where s': "get s = Got (Some x) (length (map Some xs @ rest)) s'" "content s' = map Some xs @ rest"
    using get_Cons [of s "Some x" "map Some xs @ rest"] Cons.prems(1) by auto
  then show ?case using Cons.IH [OF s'(2), of "acc @ [x]"] by simp
qed simp

lemma collect_finished:
  assumes "content s = map Some xs @ None # rest" "length xs < k"
  shows "\<exists>s'. collect_samples get k acc s = NotEnough (acc @ xs) s' \<and> content s' = rest"
  using assms
proof (induction xs arbitrary: s acc k)
  case Nil
  obtain s' where "get s = Got None (length rest) s'" "content s' = rest" using get_Cons [of s None rest] Nil(1) by auto
  moreover obtain k' where "k = Suc k'" using Nil(2) by (cases k) auto
  ultimately show ?case by simp
next
  case (Cons x xs)
  obtain k' where k: "k = Suc k'" "length xs < k'" using Cons.prems(2) by (cases k) auto
  obtain s' where s': "get s = Got (Some x) (length (map Some xs @ None # rest)) s'" "content s' = map Some xs @ None # rest"
    using get_Cons [of s "Some x" "map Some xs @ None # rest"] Cons.prems(1) by auto
  then show ?case using Cons.IH [OF s'(2) k(2), of "acc @ [x]"] k(1) by simp
qed

end

interpretation mq: sample_source "get_sample :: ('a option, 'v) mq \<Rightarrow> ('a option, ('a option, 'v) mq) get_outcome" queue
  by unfold_locales (auto simp: get_sample_def)

text \<open>The trainer's batch is the oldest samples of the queue, in order and exactly as many as
  required, and the rest stays. When the rollouter's end signal comes before enough samples, no batch is made: the samples
  collected so far have left the queue for good.\<close>

theorem trainer_takes_oldest_samples:
  assumes "0 < k"
  shows "(\<forall>xs rest. queue q = map Some xs @ rest \<and> length xs = k \<longrightarrow>
      (\<exists>q'. get_samples_from_queue k q = Batch xs q' \<and> queue q' = rest))
    \<and> (\<forall>xs rest. queue q = map Some xs @ None # rest \<and> length xs < k \<longrightarrow>
      (\<exists>q'. get_samples_from_queue k q = NotEnough xs q' \<and> queue q' = rest))"
proof (intro conjI allI impI; elim conjE)
  fix xs rest
  assume "queue q = map Some xs @ rest" "length xs = k"
  then show "\<exists>q'. get_samples_from_queue k q = Batch xs q' \<and> queue q' = rest"
    using mq.collect_enough [of q xs rest "[]"] assms by (auto simp: get_samples_from_queue_def)
next
  fix xs rest
  assume "queue q = map Some xs @ None # rest" "length xs < k"
  then show "\<exists>q'. get_samples_from_queue k q = NotEnough xs q' \<and> queue q' = rest"
    using mq.collect_finished [of q xs rest k "[]"] by (auto simp: get_samples_from_queue_def)
qed

definition demo_mq :: "(int option, unit) mq" where
  "demo_mq = \<lparr>queue = [Some 11, Some 12, Some 13], max_queue_size = 8, current_param_version = 0, val_queue = [],
     staleness_threshold = 3, running = True, total_produced = 3, total_consumed = 0, dropped_samples = 0\<rparr>"

theorem trainer_takes_oldest_samples_witness:
  "\<exists>q'. get_samples_from_queue 2 demo_mq = Batch [11, 12] q' \<and> queue q' = [Some 13]"
proof -
  have "queue demo_mq = map Some [11, 12] @ [Some 13]" "length [11, 12 :: int] = 2"
    by (simp_all add: demo_mq_def)
  then show ?thesis
    by (intro trainer_takes_oldest_samples [THEN conjunct1, rule_format, of 2 demo_mq "[11, 12]" "[Some 13]"] conjI) simp_all
qed

text \<open>On a closed queue the trainer does not stop cleanly: the loop unpacks \<open>None\<close>.\<close>

lemma closed_queue_raises:
  "0 < k \<Longrightarrow> queue q = [] \<Longrightarrow> \<not> running q \<Longrightarrow> get_samples_from_queue k q = Raises TypeError"
  by (cases k) (simp_all add: get_samples_from_queue_def get_sample_def)

text \<open>A queue without room raises on every put.\<close>

lemma zero_size_put_raises: "max_queue_size q = 0 \<Longrightarrow> queue q = [] \<Longrightarrow> put_sample x q = Inl IndexError"
  by (simp add: put_sample_def)

end
