(* ===== verification/Rollouter.thy ===== *)
theory Rollouter
  imports AsyncQueue "HOL-Library.Multiset"
begin

section \<open>The asynchronous rollouter\<close>

text \<open>
  \<open>experimental/fully_async_policy/fully_async_rollouter.py\<close>: coroutines of one asyncio loop that feed samples,
  start one generation task for each, and put the results into the message queue, while the
  parameter synchroniser calls \<open>pause\<close>, \<open>update_param_version\<close> and \<open>resume\<close> and the monitor loop wakes a
  paused processor. A step is what runs between two awaits; a coroutine that holds \<open>self.lock\<close>
  while it awaits is a lock holder with two steps. The operations return \<open>None\<close> when their coroutine cannot run. Generation
  itself, validation, timing and checkpoints are left out; a task may raise while it generates. \<open>task_done\<close>,
  which nobody joins, has no effect. The fields \<open>taken\<close> and \<open>lost\<close> are ghosts.
\<close>

subsection \<open>Limits\<close>

record rollout_limits =
  max_required_samples :: nat
  max_concurrent_samples :: nat
  r_max_queue_size :: nat
  total_train_steps :: nat
  total_rollout_steps :: nat
  partial_rollout :: bool

definition set_max_required_samples :: "nat \<Rightarrow> real \<Rightarrow> nat \<Rightarrow> nat \<Rightarrow> nat \<Rightarrow> bool \<Rightarrow> rollout_limits result" where
  "set_max_required_samples required threshold sync_step rollout_steps n_servers partial =
    rbind (ensure ZeroDivisionError (required * sync_step \<noteq> 0)) (\<lambda>_.
    let m = nat \<lfloor>real required * (threshold + 1) * real sync_step\<rfloor>
    in Inr \<lparr>max_required_samples = m, max_concurrent_samples = min (n_servers * 16) m, r_max_queue_size = m,
      total_train_steps = rollout_steps div (required * sync_step), total_rollout_steps = rollout_steps,
      partial_rollout = partial\<rparr>)"

subsection \<open>State\<close>

datatype 's item = Item 's | DoneSignal

text \<open>A generation task: running, its result put (and accepted or not), finished, or ended by an exception.\<close>

datatype 's task = Running 's | Delivered bool | Finished | Failed

fun is_done :: "'s task \<Rightarrow> bool" where
  "is_done Finished = True"
| "is_done Failed = True"
| "is_done _ = False"

text \<open>The places where the processor waits for tasks: pausing, at the concurrency limit with the sample it
  holds, and after the end signal; and where it stands.\<close>

datatype 's site = AtPause | AtLimit 's | AtEnd

datatype 's proc =
    Loop | WantPause | Fetching
  | Drain "'s site" | WantDrain "'s site" | Reaping "'s site"
  | WantLock "'s option" | Asleep "'s option"
  | Stopped | Crashed "'s site" | Signalled

datatype holder = ByProcessor | ByPause | ByUpdate nat

record ('s, 'v) rollouter =
  feed_rest :: "'s list"
  feed_stop :: bool
  feed_done :: bool
  global_steps :: nat
  pending_queue :: "'s item list"
  active_tasks :: "'s task list"
  cancel_queue :: "'s list"
  proc :: "'s proc"
  lock :: "holder option"
  monitor_ready :: bool
  paused :: bool
  ro_running :: bool
  monitor_loop_trigger :: bool
  done_bound :: bool
  staleness_samples :: nat
  total_generated_samples :: nat
  dropped_stale_samples :: nat
  processed_sample_count :: nat
  param_version :: int
  mqueue :: "('s option, 'v) mq"
  taken :: "'s option list"
  lost :: "'s option list"

definition init_rollouter :: "'s list \<Rightarrow> ('s option, 'v) mq \<Rightarrow> ('s, 'v) rollouter" where
  "init_rollouter feed q = \<lparr>feed_rest = feed, feed_stop = False, feed_done = False, global_steps = 1,
     pending_queue = [], active_tasks = [], cancel_queue = [], proc = Loop, lock = None, monitor_ready = False,
     paused = False, ro_running = True, monitor_loop_trigger = True, done_bound = False, staleness_samples = 0,
     total_generated_samples = 0, dropped_stale_samples = 0, processed_sample_count = 0, param_version = 0,
     mqueue = q, taken = [], lost = []\<rparr>"

definition should_pause_generation :: "rollout_limits \<Rightarrow> ('s, 'v) rollouter \<Rightarrow> bool" where
  "should_pause_generation L r \<longleftrightarrow>
     r_max_queue_size L \<le> length (queue (mqueue r)) \<or> max_required_samples L \<le> staleness_samples r"

subsection \<open>Feeding\<close>

definition feed_sample :: "rollout_limits \<Rightarrow> ('s, 'v) rollouter \<Rightarrow> ('s, 'v) rollouter option" where
  "feed_sample L r = (case feed_rest r of
     [] \<Rightarrow> None
   | x # xs \<Rightarrow> if feed_stop r \<or> 128 \<le> length (pending_queue r) then None
       else Some (let r1 = r\<lparr>feed_rest := xs, pending_queue := pending_queue r @ [Item x]\<rparr>
         in if total_rollout_steps L \<le> global_steps r then r1\<lparr>feed_stop := True\<rparr>
            else r1\<lparr>global_steps := global_steps r + 1\<rparr>))"

definition feed_end :: "('s, 'v) rollouter \<Rightarrow> ('s, 'v) rollouter option" where
  "feed_end r = (if (feed_rest r = [] \<or> feed_stop r) \<and> \<not> feed_done r \<and> length (pending_queue r) < 128
     then Some (r\<lparr>pending_queue := pending_queue r @ [DoneSignal], feed_done := True\<rparr>) else None)"

subsection \<open>The processor\<close>

definition take_item :: "'s item \<Rightarrow> 's item list \<Rightarrow> ('s, 'v) rollouter \<Rightarrow> ('s, 'v) rollouter" where
  "take_item i rest r = r\<lparr>pending_queue := rest, staleness_samples := staleness_samples r + 1,
     proc := (case i of DoneSignal \<Rightarrow> Drain AtEnd | Item x \<Rightarrow> Drain (AtLimit x))\<rparr>"

definition proc_loop :: "rollout_limits \<Rightarrow> ('s, 'v) rollouter \<Rightarrow> ('s, 'v) rollouter option" where
  "proc_loop L r = (case proc r of
     Loop \<Rightarrow> Some (
       if paused r \<or> should_pause_generation L r then r\<lparr>proc := WantPause\<rparr>
       else (case cancel_queue r of
           x # cs \<Rightarrow> r\<lparr>cancel_queue := cs, proc := Drain (AtLimit x)\<rparr>
         | [] \<Rightarrow> (case pending_queue r of
             i # rest \<Rightarrow> take_item i rest r
           | [] \<Rightarrow> r\<lparr>proc := Fetching\<rparr>)))
   | _ \<Rightarrow> None)"

definition proc_fetch :: "('s, 'v) rollouter \<Rightarrow> ('s, 'v) rollouter option" where
  "proc_fetch r = (case (proc r, pending_queue r) of
     (Fetching, i # rest) \<Rightarrow> Some (take_item i rest r)
   | _ \<Rightarrow> None)"

definition proc_pause :: "('s, 'v) rollouter \<Rightarrow> ('s, 'v) rollouter option" where
  "proc_pause r = (if proc r = WantPause \<and> lock r = None then Some (r\<lparr>paused := True, proc := Drain AtPause\<rparr>) else None)"

text \<open>The three loops \<open>while ...: async with self.lock: ... asyncio.wait(FIRST_COMPLETED)\<close>: their condition, where they
  lead, and the steps of an iteration. The variable \<open>done_tasks\<close> is unbound until a first wait.\<close>

fun drain_cond :: "rollout_limits \<Rightarrow> 's site \<Rightarrow> ('s, 'v) rollouter \<Rightarrow> bool" where
  "drain_cond L (AtLimit x) r \<longleftrightarrow> max_concurrent_samples L \<le> length (active_tasks r)"
| "drain_cond L AtPause r \<longleftrightarrow> active_tasks r \<noteq> []"
| "drain_cond L AtEnd r \<longleftrightarrow> active_tasks r \<noteq> []"

fun drain_exit :: "'s site \<Rightarrow> 's proc" where
  "drain_exit (AtLimit x) = WantLock (Some x)"
| "drain_exit AtPause = WantLock None"
| "drain_exit AtEnd = Stopped"

definition proc_drain :: "rollout_limits \<Rightarrow> ('s, 'v) rollouter \<Rightarrow> ('s, 'v) rollouter option" where
  "proc_drain L r = (case proc r of
     Drain w \<Rightarrow> Some (r\<lparr>proc := (if drain_cond L w r then WantDrain w else drain_exit w)\<rparr>)
   | _ \<Rightarrow> None)"

definition proc_drain_lock :: "('s, 'v) rollouter \<Rightarrow> ('s, 'v) rollouter option" where
  "proc_drain_lock r = (case proc r of
     WantDrain w \<Rightarrow> if lock r \<noteq> None then None
       else Some (if active_tasks r \<noteq> [] then r\<lparr>lock := Some ByProcessor, proc := Reaping w\<rparr>
         else if done_bound r then r\<lparr>proc := Drain w\<rparr> else r\<lparr>proc := Crashed w\<rparr>)
   | _ \<Rightarrow> None)"

text \<open>\<open>asyncio.wait\<close> returns when a task is done; awaiting one that failed raises in the processor.\<close>

definition proc_reap :: "('s, 'v) rollouter \<Rightarrow> ('s, 'v) rollouter option" where
  "proc_reap r = (case proc r of
     Reaping w \<Rightarrow> if list_ex is_done (active_tasks r)
       then Some (r\<lparr>active_tasks := filter (\<lambda>t. \<not> is_done t) (active_tasks r), done_bound := True, lock := None,
         proc := (if Failed \<in> set (active_tasks r) then Crashed w else Drain w)\<rparr>)
       else None
   | _ \<Rightarrow> None)"

text \<open>With the lock: wait while paused, then go on, or start the task of the sample held.\<close>

definition proc_lock :: "('s, 'v) rollouter \<Rightarrow> ('s, 'v) rollouter option" where
  "proc_lock r = (case proc r of
     WantLock k \<Rightarrow> if lock r \<noteq> None then None
       else Some (if paused r then r\<lparr>proc := Asleep k\<rparr>
         else (case k of
             None \<Rightarrow> r\<lparr>proc := Loop\<rparr>
           | Some x \<Rightarrow> r\<lparr>active_tasks := active_tasks r @ [Running x], proc := Loop\<rparr>))
   | _ \<Rightarrow> None)"

subsection \<open>Tasks\<close>

definition task_deliver :: "nat \<Rightarrow> ('s, 'v) rollouter \<Rightarrow> ('s, 'v) rollouter option" where
  "task_deliver i r = (if i < length (active_tasks r) then (case active_tasks r ! i of
       Running x \<Rightarrow> (case put_sample (Some x) (mqueue r) of
           Inr (ok, q) \<Rightarrow> Some (r\<lparr>active_tasks := (active_tasks r)[i := Delivered ok], mqueue := q,
             lost := lost r @ (if ok then [] else [hd (queue (mqueue r))])\<rparr>)
         | Inl _ \<Rightarrow> None)
     | _ \<Rightarrow> None) else None)"

definition task_account :: "nat \<Rightarrow> ('s, 'v) rollouter \<Rightarrow> ('s, 'v) rollouter option" where
  "task_account i r = (if i < length (active_tasks r) then (case active_tasks r ! i of
       Delivered ok \<Rightarrow> Some (let r1 = r\<lparr>active_tasks := (active_tasks r)[i := Finished], processed_sample_count := processed_sample_count r + 1\<rparr>
         in if ok then r1\<lparr>total_generated_samples := total_generated_samples r + 1\<rparr>
            else r1\<lparr>dropped_stale_samples := dropped_stale_samples r + 1\<rparr>)
     | _ \<Rightarrow> None) else None)"

definition task_cancel :: "rollout_limits \<Rightarrow> nat \<Rightarrow> ('s, 'v) rollouter \<Rightarrow> ('s, 'v) rollouter option" where
  "task_cancel L i r = (if i < length (active_tasks r) \<and> partial_rollout L then (case active_tasks r ! i of
       Running x \<Rightarrow> Some (r\<lparr>active_tasks := (active_tasks r)[i := Finished], cancel_queue := cancel_queue r @ [x],
         processed_sample_count := processed_sample_count r + 1\<rparr>)
     | _ \<Rightarrow> None) else None)"

text \<open>Generation raises: the sample of the task is gone.\<close>

definition task_fail :: "nat \<Rightarrow> ('s, 'v) rollouter \<Rightarrow> ('s, 'v) rollouter option" where
  "task_fail i r = (if i < length (active_tasks r) then (case active_tasks r ! i of
       Running x \<Rightarrow> Some (r\<lparr>active_tasks := (active_tasks r)[i := Failed], lost := lost r @ [Some x]\<rparr>)
     | _ \<Rightarrow> None) else None)"

subsection \<open>Pausing, synchronising, resuming\<close>

definition pause_begin :: "('s, 'v) rollouter \<Rightarrow> ('s, 'v) rollouter option" where
  "pause_begin r = (if lock r = None then Some (r\<lparr>lock := Some ByPause, paused := True\<rparr>) else None)"

text \<open>\<open>gather\<close> waits for all tasks and returns their exceptions, which nobody reads.\<close>

definition pause_end :: "('s, 'v) rollouter \<Rightarrow> ('s, 'v) rollouter option" where
  "pause_end r = (if lock r = Some ByPause \<and> list_all is_done (active_tasks r)
     then Some (r\<lparr>active_tasks := [], monitor_loop_trigger := False, lock := None\<rparr>) else None)"

text \<open>\<open>update_param_version\<close> evaluates the first two lengths before it awaits the third. The validation metrics
  it puts are the parameter \<open>data\<close>, absent when validation runs in parallel.\<close>

definition update_begin :: "int \<Rightarrow> ('s, 'v) rollouter \<Rightarrow> ('s, 'v) rollouter option" where
  "update_begin version r = (if lock r = None
     then Some (r\<lparr>lock := Some (ByUpdate (length (active_tasks r) + length (cancel_queue r))), param_version := version\<rparr>) else None)"

definition update_end :: "'v option \<Rightarrow> ('s, 'v) rollouter \<Rightarrow> ('s, 'v) rollouter option" where
  "update_end data r = (case lock r of
     Some (ByUpdate n) \<Rightarrow> Some (r\<lparr>staleness_samples := n + get_queue_size (mqueue r), lock := None,
       mqueue := (case data of None \<Rightarrow> mqueue r | Some d \<Rightarrow> put_validate d (mqueue r))\<rparr>)
   | _ \<Rightarrow> None)"

definition notify :: "'s proc \<Rightarrow> 's proc" where
  "notify p = (case p of Asleep k \<Rightarrow> WantLock k | _ \<Rightarrow> p)"

definition resume :: "('s, 'v) rollouter \<Rightarrow> ('s, 'v) rollouter option" where
  "resume r = (if lock r = None then Some (r\<lparr>paused := False, monitor_loop_trigger := True, proc := notify (proc r)\<rparr>) else None)"

text \<open>The monitor loop tests first and then waits for the lock.\<close>

definition monitor_check :: "rollout_limits \<Rightarrow> ('s, 'v) rollouter \<Rightarrow> ('s, 'v) rollouter option" where
  "monitor_check L r = (if ro_running r \<and> \<not> monitor_ready r \<and> monitor_loop_trigger r \<and> \<not> should_pause_generation L r
     then Some (r\<lparr>monitor_ready := True\<rparr>) else None)"

definition monitor_wake :: "('s, 'v) rollouter \<Rightarrow> ('s, 'v) rollouter option" where
  "monitor_wake r = (if monitor_ready r \<and> lock r = None
     then Some (r\<lparr>monitor_ready := False, paused := False, proc := notify (proc r)\<rparr>) else None)"

text \<open>The end of \<open>_streaming_generation_main\<close>, after the processor returned or raised.\<close>

fun orphan :: "'s site \<Rightarrow> 's option list" where
  "orphan (AtLimit x) = [Some x]"
| "orphan AtPause = []"
| "orphan AtEnd = []"

definition put_signal :: "'s option list \<Rightarrow> ('s, 'v) rollouter \<Rightarrow> ('s, 'v) rollouter option" where
  "put_signal orphans r = (case put_sample None (mqueue r) of
     Inr (ok, q) \<Rightarrow> Some (r\<lparr>proc := Signalled, mqueue := q,
       lost := lost r @ orphans @ (if ok then [] else [hd (queue (mqueue r))])\<rparr>)
   | Inl _ \<Rightarrow> None)"

definition finish_signal :: "('s, 'v) rollouter \<Rightarrow> ('s, 'v) rollouter option" where
  "finish_signal r = (case proc r of
     Stopped \<Rightarrow> put_signal [] r
   | Crashed w \<Rightarrow> put_signal (orphan w) r
   | _ \<Rightarrow> None)"

definition finish_stop :: "('s, 'v) rollouter \<Rightarrow> ('s, 'v) rollouter option" where
  "finish_stop r = (if proc r = Signalled \<and> lock r = None then Some (r\<lparr>ro_running := False\<rparr>) else None)"

text \<open>The trainer takes a sample.\<close>

definition trainer_take :: "('s, 'v) rollouter \<Rightarrow> ('s, 'v) rollouter option" where
  "trainer_take r = (case get_sample (mqueue r) of
     Got x n q \<Rightarrow> Some (r\<lparr>mqueue := q, taken := taken r @ [x]\<rparr>)
   | _ \<Rightarrow> None)"

subsection \<open>Runs\<close>

datatype 'v event =
    FeedSample | FeedEnd
  | ProcLoop | ProcFetch | ProcPause | ProcDrain | ProcDrainLock | ProcReap | ProcLock
  | TaskDeliver nat | TaskAccount nat | TaskCancel nat | TaskFail nat
  | PauseBegin | PauseEnd | UpdateBegin int | UpdateEnd "'v option" | QueueVersion int | Resume
  | MonitorCheck | MonitorWake | FinishSignal | FinishStop | TrainerTake

fun ro_step :: "rollout_limits \<Rightarrow> 'v event \<Rightarrow> ('s, 'v) rollouter \<Rightarrow> ('s, 'v) rollouter option" where
  "ro_step L FeedSample r = feed_sample L r"
| "ro_step L FeedEnd r = feed_end r"
| "ro_step L ProcLoop r = proc_loop L r"
| "ro_step L ProcFetch r = proc_fetch r"
| "ro_step L ProcPause r = proc_pause r"
| "ro_step L ProcDrain r = proc_drain L r"
| "ro_step L ProcDrainLock r = proc_drain_lock r"
| "ro_step L ProcReap r = proc_reap r"
| "ro_step L ProcLock r = proc_lock r"
| "ro_step L (TaskDeliver i) r = task_deliver i r"
| "ro_step L (TaskAccount i) r = task_account i r"
| "ro_step L (TaskCancel i) r = task_cancel L i r"
| "ro_step L (TaskFail i) r = task_fail i r"
| "ro_step L PauseBegin r = pause_begin r"
| "ro_step L PauseEnd r = pause_end r"
| "ro_step L (UpdateBegin v) r = update_begin v r"
| "ro_step L (UpdateEnd d) r = update_end d r"
| "ro_step L (QueueVersion v) r = Some (r\<lparr>mqueue := update_param_version v (mqueue r)\<rparr>)"
| "ro_step L Resume r = resume r"
| "ro_step L MonitorCheck r = monitor_check L r"
| "ro_step L MonitorWake r = monitor_wake r"
| "ro_step L FinishSignal r = finish_signal r"
| "ro_step L FinishStop r = finish_stop r"
| "ro_step L TrainerTake r = trainer_take r"

fun ro_run :: "rollout_limits \<Rightarrow> 'v event list \<Rightarrow> ('s, 'v) rollouter \<Rightarrow> ('s, 'v) rollouter option" where
  "ro_run L [] r = Some r"
| "ro_run L (e # es) r = Option.bind (ro_step L e r) (ro_run L es)"

inductive ro_reachable :: "rollout_limits \<Rightarrow> ('s, 'v) rollouter \<Rightarrow> ('s, 'v) rollouter \<Rightarrow> bool" for L r0 where
  ro_start: "ro_reachable L r0 r0"
| ro_next: "ro_reachable L r0 r \<Longrightarrow> ro_step L e r = Some r' \<Longrightarrow> ro_reachable L r0 r'"

lemma ro_run_reachable: "ro_reachable L r0 r \<Longrightarrow> ro_run L es r = Some r' \<Longrightarrow> ro_reachable L r0 r'"
  by (induction es arbitrary: r) (auto split: bind_splits intro: ro_next)

subsection \<open>Samples in flight\<close>

fun running_samples :: "'s task list \<Rightarrow> 's list" where
  "running_samples [] = []"
| "running_samples (Running x # ts) = x # running_samples ts"
| "running_samples (Delivered ok # ts) = running_samples ts"
| "running_samples (Finished # ts) = running_samples ts"
| "running_samples (Failed # ts) = running_samples ts"

fun somes :: "'s option list \<Rightarrow> 's list" where
  "somes [] = []"
| "somes (None # xs) = somes xs"
| "somes (Some x # xs) = x # somes xs"

fun site_held :: "'s site \<Rightarrow> 's list" where
  "site_held (AtLimit x) = [x]"
| "site_held AtPause = []"
| "site_held AtEnd = []"

fun proc_held :: "'s proc \<Rightarrow> 's list" where
  "proc_held (Drain w) = site_held w"
| "proc_held (WantDrain w) = site_held w"
| "proc_held (Reaping w) = site_held w"
| "proc_held (Crashed w) = site_held w"
| "proc_held (WantLock k) = somes [k]"
| "proc_held (Asleep k) = somes [k]"
| "proc_held _ = []"

definition in_flight :: "('s, 'v) rollouter \<Rightarrow> nat" where
  "in_flight r = length (running_samples (active_tasks r)) + length (cancel_queue r)
     + length (proc_held (proc r)) + length (somes (queue (mqueue r)))"

lemma running_samples_append [simp]: "running_samples (xs @ ys) = running_samples xs @ running_samples ys"
  by (induction xs rule: running_samples.induct) auto

lemma running_samples_filter [simp]: "running_samples (filter (\<lambda>t. \<not> is_done t) ts) = running_samples ts"
  by (induction ts rule: running_samples.induct) auto

lemma running_samples_finished: "list_all is_done ts \<Longrightarrow> running_samples ts = []"
  by (induction ts rule: running_samples.induct) auto

lemma running_samples_le: "length (running_samples ts) \<le> length ts"
  by (induction ts rule: running_samples.induct) auto

lemma running_samples_update:
  assumes "i < length ts" "ts ! i = Running x" "t = Finished \<or> t = Failed \<or> t = Delivered ok"
  shows "mset (running_samples ts) = add_mset x (mset (running_samples (ts[i := t])))"
    and "length (running_samples ts) = Suc (length (running_samples (ts[i := t])))"
proof -
  have "ts = take i ts @ Running x # drop (Suc i) ts" using assms id_take_nth_drop [of i ts] by simp
  moreover have "ts[i := t] = take i ts @ t # drop (Suc i) ts" using assms by (simp add: upd_conv_take_nth_drop)
  ultimately have "running_samples ts = running_samples (take i ts) @ x # running_samples (drop (Suc i) ts)"
    and "running_samples (ts[i := t]) = running_samples (take i ts) @ running_samples (drop (Suc i) ts)"
    using assms(3) by (metis running_samples.simps(2) running_samples_append, auto)
  then show "mset (running_samples ts) = add_mset x (mset (running_samples (ts[i := t])))"
    and "length (running_samples ts) = Suc (length (running_samples (ts[i := t])))" by auto
qed

lemma running_samples_account:
  assumes "i < length ts" "ts ! i = Delivered ok"
  shows "running_samples (ts[i := Finished]) = running_samples ts"
proof -
  have "ts = take i ts @ Delivered ok # drop (Suc i) ts" using assms id_take_nth_drop [of i ts] by simp
  moreover have "ts[i := Finished] = take i ts @ Finished # drop (Suc i) ts" using assms by (simp add: upd_conv_take_nth_drop)
  ultimately show ?thesis by (metis running_samples.simps(3,4) running_samples_append)
qed

lemma somes_append [simp]: "somes (xs @ ys) = somes xs @ somes ys"
  by (induction xs rule: somes.induct) auto

lemma somes_singleton_le: "length (somes [k]) \<le> 1"
  by (cases k) auto

lemma proc_held_le: "length (proc_held p) \<le> 1"
proof -
  have "length (site_held w) \<le> 1" for w :: "'a site" by (cases w) auto
  then show ?thesis using somes_singleton_le by (cases p) auto
qed

lemma proc_held_notify [simp]: "proc_held (notify p) = proc_held p"
  by (cases p) (auto simp: notify_def)

lemma somes_tail_le [simp]: "length (somes xs) \<le> length (somes (y # xs))"
  by (cases y) auto

lemma put_sample_cases:
  assumes "put_sample x q = Inr (ok, q')" "length (queue q) \<le> max_queue_size q"
  shows "max_queue_size q' = max_queue_size q \<and> (if ok then queue q' = queue q @ [x] \<and> length (queue q) < max_queue_size q
    else (\<exists>y rest. queue q = y # rest \<and> queue q' = rest @ [x] \<and> length (queue q) = max_queue_size q))"
proof (cases "length (queue q) < max_queue_size q")
  case True
  then show ?thesis using assms(1) by (auto simp: put_sample_room)
next
  case False
  then have full: "length (queue q) = max_queue_size q" using assms(2) by simp
  obtain y rest where y: "queue q = y # rest"
    using assms(1) False by (cases "queue q") (auto simp: put_sample_def)
  then show ?thesis using assms(1) full put_sample_full [OF full y] by auto
qed

definition ro_inv :: "rollout_limits \<Rightarrow> ('s, 'v) rollouter \<Rightarrow> bool" where
  "ro_inv L r \<longleftrightarrow> in_flight r \<le> staleness_samples r + 1 \<and> in_flight r \<le> max_required_samples L + 1
     \<and> (proc r = Fetching \<longrightarrow> in_flight r \<le> max_required_samples L)
     \<and> (\<forall>n. lock r = Some (ByUpdate n) \<longrightarrow> length (running_samples (active_tasks r)) + length (cancel_queue r) \<le> n)
     \<and> max_queue_size (mqueue r) = r_max_queue_size L \<and> length (queue (mqueue r)) \<le> r_max_queue_size L
     \<and> length (active_tasks r) \<le> max_concurrent_samples L
     \<and> (\<forall>x. proc r = WantLock (Some x) \<or> proc r = Asleep (Some x) \<longrightarrow> length (active_tasks r) < max_concurrent_samples L)
     \<and> (lock r = Some ByProcessor \<longleftrightarrow> (\<exists>w. proc r = Reaping w))
     \<and> ((\<exists>k. proc r = Asleep k) \<longrightarrow> paused r)"

lemma ro_inv_feed: "ro_inv L r \<Longrightarrow> feed_sample L r = Some r' \<Longrightarrow> ro_inv L r'"
  "ro_inv L r \<Longrightarrow> feed_end r = Some r' \<Longrightarrow> ro_inv L r'"
  by (auto simp: feed_sample_def feed_end_def ro_inv_def in_flight_def Let_def split: list.splits if_splits)

lemma ro_inv_loop: "ro_inv L r \<Longrightarrow> proc_loop L r = Some r' \<Longrightarrow> ro_inv L r'"
  by (auto simp: proc_loop_def take_item_def should_pause_generation_def ro_inv_def in_flight_def
      split: proc.splits list.splits item.splits if_splits)

lemma ro_inv_fetch: "ro_inv L r \<Longrightarrow> proc_fetch r = Some r' \<Longrightarrow> ro_inv L r'"
  by (auto simp: proc_fetch_def take_item_def ro_inv_def in_flight_def split: proc.splits list.splits item.splits)

lemma ro_inv_pause: "ro_inv L r \<Longrightarrow> proc_pause r = Some r' \<Longrightarrow> ro_inv L r'"
  by (auto simp: proc_pause_def ro_inv_def in_flight_def split: if_splits)

lemma ro_inv_drain: "ro_inv L r \<Longrightarrow> proc_drain L r = Some r' \<Longrightarrow> ro_inv L r'"
proof -
  have "length (proc_held (drain_exit w)) = length (site_held w)" for w :: "'a site" by (cases w) auto
  moreover have "drain_exit w \<noteq> Fetching" "drain_exit w \<noteq> Asleep k" "drain_exit w \<noteq> Reaping w'" for w w' :: "'a site" and k
    by (cases w; simp)+
  moreover have "drain_exit w = WantLock (Some x) \<longleftrightarrow> w = AtLimit x" for w :: "'a site" and x by (cases w) auto
  ultimately show "ro_inv L r \<Longrightarrow> proc_drain L r = Some r' \<Longrightarrow> ro_inv L r'"
    by (auto simp: proc_drain_def ro_inv_def in_flight_def split: proc.splits if_splits)
qed

lemma ro_inv_drain_lock: "ro_inv L r \<Longrightarrow> proc_drain_lock r = Some r' \<Longrightarrow> ro_inv L r'"
  by (auto simp: proc_drain_lock_def ro_inv_def in_flight_def split: proc.splits if_splits)

lemma ro_inv_reap: "ro_inv L r \<Longrightarrow> proc_reap r = Some r' \<Longrightarrow> ro_inv L r'"
  by (auto simp: proc_reap_def ro_inv_def in_flight_def intro: order_trans [OF length_filter_le] split: proc.splits if_splits)

lemma ro_inv_lock: "ro_inv L r \<Longrightarrow> proc_lock r = Some r' \<Longrightarrow> ro_inv L r'"
  by (auto simp: proc_lock_def ro_inv_def in_flight_def split: proc.splits if_splits option.splits)

lemma ro_inv_deliver:
  assumes "ro_inv L r" "task_deliver i r = Some r'"
  shows "ro_inv L r'"
proof -
  obtain x ok q where d: "i < length (active_tasks r)" "active_tasks r ! i = Running x"
    "put_sample (Some x) (mqueue r) = Inr (ok, q)"
    "r' = r\<lparr>active_tasks := (active_tasks r)[i := Delivered ok], mqueue := q,
       lost := lost r @ (if ok then [] else [hd (queue (mqueue r))])\<rparr>"
    using assms(2) by (auto simp: task_deliver_def split: task.splits sum.splits if_splits prod.splits)
  have run: "length (running_samples (active_tasks r)) = Suc (length (running_samples ((active_tasks r)[i := Delivered ok])))"
    by (rule running_samples_update(2) [OF d(1,2)]) simp
  have q: "max_queue_size q = max_queue_size (mqueue r)" "length (queue q) \<le> r_max_queue_size L"
    "length (somes (queue q)) \<le> Suc (length (somes (queue (mqueue r))))"
    using put_sample_cases [OF d(3)] assms(1) by (auto simp: ro_inv_def le_SucI split: if_splits)
  show ?thesis using assms(1) run q unfolding d(4) by (auto simp: ro_inv_def in_flight_def)
qed

lemma ro_inv_account: "ro_inv L r \<Longrightarrow> task_account i r = Some r' \<Longrightarrow> ro_inv L r'"
  by (auto simp: task_account_def ro_inv_def in_flight_def running_samples_account Let_def split: task.splits if_splits)

lemma ro_inv_cancel:
  assumes "ro_inv L r" "task_cancel L i r = Some r'"
  shows "ro_inv L r'"
proof -
  obtain x where d: "i < length (active_tasks r)" "active_tasks r ! i = Running x"
    "r' = r\<lparr>active_tasks := (active_tasks r)[i := Finished], cancel_queue := cancel_queue r @ [x],
       processed_sample_count := processed_sample_count r + 1\<rparr>"
    using assms(2) by (auto simp: task_cancel_def split: task.splits if_splits)
  show ?thesis using assms(1) running_samples_update(2) [OF d(1,2), of Finished] unfolding d(3)
    by (auto simp: ro_inv_def in_flight_def)
qed

lemma ro_inv_fail:
  assumes "ro_inv L r" "task_fail i r = Some r'"
  shows "ro_inv L r'"
proof -
  obtain x where d: "i < length (active_tasks r)" "active_tasks r ! i = Running x"
    "r' = r\<lparr>active_tasks := (active_tasks r)[i := Failed], lost := lost r @ [Some x]\<rparr>"
    using assms(2) by (auto simp: task_fail_def split: task.splits if_splits)
  show ?thesis using assms(1) running_samples_update(2) [OF d(1,2), of Failed] unfolding d(3)
    by (auto simp: ro_inv_def in_flight_def)
qed

lemma ro_inv_control:
  "ro_inv L r \<Longrightarrow> pause_begin r = Some r' \<Longrightarrow> ro_inv L r'"
  "ro_inv L r \<Longrightarrow> pause_end r = Some r' \<Longrightarrow> ro_inv L r'"
  "ro_inv L r \<Longrightarrow> update_begin v r = Some r' \<Longrightarrow> ro_inv L r'"
  using running_samples_le [of "active_tasks r"]
  by (auto simp: pause_begin_def pause_end_def update_begin_def ro_inv_def in_flight_def split: if_splits)

lemma ro_inv_update_end: "ro_inv L r \<Longrightarrow> update_end d r = Some r' \<Longrightarrow> ro_inv L r'"
proof -
  have "length (somes q) \<le> length q" for q :: "'a option list" by (induction q rule: somes.induct) auto
  from this [of "queue (mqueue r)"] proc_held_le [of "proc r"]
  show "ro_inv L r \<Longrightarrow> update_end d r = Some r' \<Longrightarrow> ro_inv L r'"
    by (auto simp: update_end_def ro_inv_def in_flight_def get_queue_size_def put_validate_def
        split: option.splits holder.splits)
qed

lemma notify_proc: "notify p \<noteq> Asleep k" "notify p = Fetching \<longleftrightarrow> p = Fetching" "notify p = Reaping w \<longleftrightarrow> p = Reaping w"
  "notify p = Signalled \<longleftrightarrow> p = Signalled"
  "notify p = WantLock k \<longleftrightarrow> p = WantLock k \<or> p = Asleep k"
  by (cases p; simp add: notify_def)+

lemma ro_inv_wake:
  "ro_inv L r \<Longrightarrow> resume r = Some r' \<Longrightarrow> ro_inv L r'"
  "ro_inv L r \<Longrightarrow> monitor_check L r = Some r' \<Longrightarrow> ro_inv L r'"
  "ro_inv L r \<Longrightarrow> monitor_wake r = Some r' \<Longrightarrow> ro_inv L r'"
  by (auto simp: resume_def monitor_check_def monitor_wake_def ro_inv_def in_flight_def notify_proc split: if_splits)

lemma ro_inv_signal:
  assumes "ro_inv L r" "put_signal os r = Some r'" "proc r = Stopped \<or> proc r = Crashed w"
  shows "ro_inv L r'"
proof -
  obtain ok q where d: "put_sample None (mqueue r) = Inr (ok, q)"
    "r' = r\<lparr>proc := Signalled, mqueue := q, lost := lost r @ os @ (if ok then [] else [hd (queue (mqueue r))])\<rparr>"
    using assms(2) by (auto simp: put_signal_def split: sum.splits prod.splits)
  have "max_queue_size q = max_queue_size (mqueue r)" "length (queue q) \<le> r_max_queue_size L"
    "length (somes (queue q)) \<le> length (somes (queue (mqueue r)))"
    using put_sample_cases [OF d(1)] assms(1) by (auto simp: ro_inv_def split: if_splits)
  then show ?thesis using assms(1,3) unfolding d(2) by (auto simp: ro_inv_def in_flight_def)
qed

lemma ro_inv_finish:
  assumes "ro_inv L r"
  shows "finish_signal r = Some r' \<Longrightarrow> ro_inv L r'" and "finish_stop r = Some r' \<Longrightarrow> ro_inv L r'"
  using ro_inv_signal [OF assms] assms
  by (auto simp: finish_signal_def split: proc.splits) (auto simp: finish_stop_def ro_inv_def in_flight_def split: if_splits)

lemma ro_inv_take: "ro_inv L r \<Longrightarrow> trainer_take r = Some r' \<Longrightarrow> ro_inv L r'"
proof -
  assume inv: "ro_inv L r" and "trainer_take r = Some r'"
  then obtain x rest where d: "queue (mqueue r) = x # rest"
    "r' = r\<lparr>mqueue := (mqueue r)\<lparr>queue := rest, total_consumed := total_consumed (mqueue r) + 1\<rparr>, taken := taken r @ [x]\<rparr>"
    by (auto simp: trainer_take_def get_sample_def split: list.splits if_splits)
  then show ?thesis using inv unfolding d(2) by (cases x) (auto simp: ro_inv_def in_flight_def)
qed

lemma ro_inv_version: "ro_inv L r \<Longrightarrow> ro_inv L (r\<lparr>mqueue := update_param_version v (mqueue r)\<rparr>)"
  by (auto simp: ro_inv_def in_flight_def update_param_version_def)

lemma ro_inv_step: "ro_inv L r \<Longrightarrow> ro_step L e r = Some r' \<Longrightarrow> ro_inv L r'"
  by (cases e) (auto intro: ro_inv_feed ro_inv_loop ro_inv_fetch ro_inv_pause ro_inv_drain ro_inv_drain_lock ro_inv_reap
    ro_inv_lock ro_inv_deliver ro_inv_account ro_inv_cancel ro_inv_fail ro_inv_control ro_inv_update_end ro_inv_wake ro_inv_finish
    ro_inv_take ro_inv_version)

lemma ro_reachable_inv:
  assumes "ro_reachable L (init_rollouter feed q) r" "queue q = []" "max_queue_size q = r_max_queue_size L"
  shows "ro_inv L r"
  using assms(1)
proof (induction rule: ro_reachable.induct)
  case ro_start
  then show ?case using assms(2,3) by (simp add: init_rollouter_def ro_inv_def in_flight_def)
qed (rule ro_inv_step)

text \<open>The counter of stale samples itself: an update sets it to at most this, and a sample is counted while it is below the
  allowance, or by the processor that was already waiting for the pending queue.\<close>

definition after_update :: "rollout_limits \<Rightarrow> nat" where
  "after_update L = max_concurrent_samples L + max_required_samples L + 1 + r_max_queue_size L"

definition count_inv :: "rollout_limits \<Rightarrow> ('s, 'v) rollouter \<Rightarrow> bool" where
  "count_inv L r \<longleftrightarrow> staleness_samples r \<le> after_update L + 1 \<and> (proc r = Fetching \<longrightarrow> staleness_samples r \<le> after_update L)
     \<and> (\<forall>n. lock r = Some (ByUpdate n) \<longrightarrow> n \<le> max_concurrent_samples L + max_required_samples L + 1)"

lemma count_inv_same:
  assumes "count_inv L r" "staleness_samples r' = staleness_samples r" "proc r' = Fetching \<Longrightarrow> proc r = Fetching"
    "\<And>n. lock r' = Some (ByUpdate n) \<Longrightarrow> lock r = Some (ByUpdate n)"
  shows "count_inv L r'"
  using assms by (auto simp: count_inv_def)

lemma drain_exit_not_fetching [simp]: "drain_exit w \<noteq> Fetching"
  by (cases w) auto

lemma count_inv_processor:
  assumes "count_inv L r"
  shows "proc_pause r = Some r' \<Longrightarrow> count_inv L r'" "proc_drain L r = Some r' \<Longrightarrow> count_inv L r'"
    "proc_drain_lock r = Some r' \<Longrightarrow> count_inv L r'" "proc_reap r = Some r' \<Longrightarrow> count_inv L r'" "proc_lock r = Some r' \<Longrightarrow> count_inv L r'"
  by (rule count_inv_same [OF assms]; auto simp: proc_pause_def proc_drain_def proc_drain_lock_def proc_reap_def proc_lock_def
      split: proc.splits if_splits option.splits)+

lemma count_inv_tasks:
  assumes "count_inv L r"
  shows "task_deliver i r = Some r' \<Longrightarrow> count_inv L r'" "task_account i r = Some r' \<Longrightarrow> count_inv L r'"
    "task_cancel L i r = Some r' \<Longrightarrow> count_inv L r'" "task_fail i r = Some r' \<Longrightarrow> count_inv L r'"
    "feed_sample L r = Some r' \<Longrightarrow> count_inv L r'" "feed_end r = Some r' \<Longrightarrow> count_inv L r'" "trainer_take r = Some r' \<Longrightarrow> count_inv L r'"
  by (rule count_inv_same [OF assms]; auto simp: task_deliver_def task_account_def task_cancel_def task_fail_def feed_sample_def
      feed_end_def trainer_take_def Let_def split: task.splits sum.splits prod.splits list.splits get_outcome.splits if_splits)+

lemma count_inv_control:
  assumes "count_inv L r"
  shows "pause_begin r = Some r' \<Longrightarrow> count_inv L r'" "pause_end r = Some r' \<Longrightarrow> count_inv L r'" "resume r = Some r' \<Longrightarrow> count_inv L r'"
    "monitor_check L r = Some r' \<Longrightarrow> count_inv L r'" "monitor_wake r = Some r' \<Longrightarrow> count_inv L r'"
    "finish_signal r = Some r' \<Longrightarrow> count_inv L r'" "finish_stop r = Some r' \<Longrightarrow> count_inv L r'"
    "count_inv L (r\<lparr>mqueue := update_param_version v (mqueue r)\<rparr>)"
  by (rule count_inv_same [OF assms]; auto simp: pause_begin_def pause_end_def resume_def monitor_check_def monitor_wake_def
      finish_signal_def finish_stop_def put_signal_def notify_proc split: proc.splits sum.splits prod.splits if_splits)+

lemma count_inv_loop:
  assumes "count_inv L r"
  shows "proc_loop L r = Some r' \<Longrightarrow> count_inv L r'" "proc_fetch r = Some r' \<Longrightarrow> count_inv L r'"
proof -
  assume d: "proc_loop L r = Some r'"
  show "count_inv L r'"
  proof (cases "paused r \<or> should_pause_generation L r")
    case True
    then show ?thesis using d by (intro count_inv_same [OF assms]) (auto simp: proc_loop_def split: proc.splits)
  next
    case False
    then have "staleness_samples r < max_required_samples L" by (simp add: should_pause_generation_def)
    then show ?thesis using assms d False
      by (auto simp: proc_loop_def take_item_def count_inv_def after_update_def split: proc.splits list.splits item.splits)
  qed
next
  assume "proc_fetch r = Some r'"
  then show "count_inv L r'" using assms
    by (auto simp: proc_fetch_def take_item_def count_inv_def split: proc.splits list.splits item.splits)
qed

lemma count_inv_update:
  assumes "count_inv L r" "ro_inv L r"
  shows "update_begin v r = Some r' \<Longrightarrow> count_inv L r'" "update_end d r = Some r' \<Longrightarrow> count_inv L r'"
proof -
  have "length (active_tasks r) \<le> max_concurrent_samples L" "length (cancel_queue r) \<le> max_required_samples L + 1"
    using assms(2) by (simp_all add: ro_inv_def in_flight_def)
  then show "update_begin v r = Some r' \<Longrightarrow> count_inv L r'"
    using assms(1) by (auto simp: update_begin_def count_inv_def split: if_splits)
next
  assume d: "update_end d r = Some r'"
  then obtain n where n: "lock r = Some (ByUpdate n)" by (auto simp: update_end_def split: option.splits holder.splits)
  moreover have "length (queue (mqueue r)) \<le> r_max_queue_size L" using assms(2) by (simp add: ro_inv_def)
  moreover have "n \<le> max_concurrent_samples L + max_required_samples L + 1" using assms(1) n by (simp add: count_inv_def)
  ultimately show "count_inv L r'" using d
    by (auto simp: update_end_def count_inv_def after_update_def get_queue_size_def)
qed

lemma count_inv_step: "count_inv L r \<Longrightarrow> ro_inv L r \<Longrightarrow> ro_step L e r = Some r' \<Longrightarrow> count_inv L r'"
  by (cases e) (auto intro: count_inv_processor count_inv_tasks count_inv_control count_inv_loop count_inv_update)

lemma ro_reachable_count:
  assumes "ro_reachable L (init_rollouter feed q) r" "queue q = []" "max_queue_size q = r_max_queue_size L"
  shows "count_inv L r"
  using assms(1)
proof (induction rule: ro_reachable.induct)
  case ro_start
  then show ?case by (simp add: init_rollouter_def count_inv_def)
next
  case (ro_next r e r')
  then show ?case using count_inv_step [OF _ ro_reachable_inv [OF ro_next(1) assms(2,3)]] by blast
qed

subsection \<open>No sample is lost\<close>

fun items :: "'s item list \<Rightarrow> 's list" where
  "items [] = []"
| "items (Item x # is) = x # items is"
| "items (DoneSignal # is) = items is"

lemma items_append [simp]: "items (xs @ ys) = items xs @ items ys"
  by (induction xs rule: items.induct) auto

definition all_samples :: "('s, 'v) rollouter \<Rightarrow> 's multiset" where
  "all_samples r = mset (feed_rest r) + mset (items (pending_queue r)) + mset (proc_held (proc r))
     + mset (running_samples (active_tasks r)) + mset (cancel_queue r)
     + mset (somes (queue (mqueue r))) + mset (somes (taken r)) + mset (somes (lost r))"

lemma samples_processor:
  "proc_loop L r = Some r' \<Longrightarrow> all_samples r' = all_samples r"
  "proc_fetch r = Some r' \<Longrightarrow> all_samples r' = all_samples r"
  "proc_pause r = Some r' \<Longrightarrow> all_samples r' = all_samples r"
  "proc_drain_lock r = Some r' \<Longrightarrow> all_samples r' = all_samples r"
  "proc_reap r = Some r' \<Longrightarrow> all_samples r' = all_samples r"
  "proc_lock r = Some r' \<Longrightarrow> all_samples r' = all_samples r"
  by (auto simp: proc_loop_def proc_fetch_def take_item_def proc_pause_def proc_drain_lock_def proc_reap_def proc_lock_def
      all_samples_def split: proc.splits list.splits item.splits if_splits option.splits)

lemma samples_drain: "proc_drain L r = Some r' \<Longrightarrow> all_samples r' = all_samples r"
proof -
  have "proc_held (drain_exit w) = site_held w" for w :: "'a site" by (cases w) auto
  then show "proc_drain L r = Some r' \<Longrightarrow> all_samples r' = all_samples r"
    by (auto simp: proc_drain_def all_samples_def split: proc.splits)
qed

lemma samples_control:
  "feed_sample L r = Some r' \<Longrightarrow> all_samples r' = all_samples r"
  "feed_end r = Some r' \<Longrightarrow> all_samples r' = all_samples r"
  "pause_begin r = Some r' \<Longrightarrow> all_samples r' = all_samples r"
  "pause_end r = Some r' \<Longrightarrow> all_samples r' = all_samples r"
  "update_begin v r = Some r' \<Longrightarrow> all_samples r' = all_samples r"
  "update_end d r = Some r' \<Longrightarrow> all_samples r' = all_samples r"
  "resume r = Some r' \<Longrightarrow> all_samples r' = all_samples r"
  "monitor_check L r = Some r' \<Longrightarrow> all_samples r' = all_samples r"
  "monitor_wake r = Some r' \<Longrightarrow> all_samples r' = all_samples r"
  "finish_stop r = Some r' \<Longrightarrow> all_samples r' = all_samples r"
  by (auto simp: feed_sample_def feed_end_def pause_begin_def pause_end_def update_begin_def update_end_def put_validate_def
      resume_def monitor_check_def monitor_wake_def finish_stop_def all_samples_def running_samples_finished Let_def
      split: list.splits if_splits option.splits holder.splits)

lemma put_sample_samples:
  assumes "put_sample x q = Inr (ok, q')" "length (queue q) \<le> max_queue_size q"
  shows "mset (somes (queue q')) + mset (somes (if ok then [] else [hd (queue q)])) = mset (somes (queue q)) + mset (somes [x])"
proof (cases ok)
  case False
  then obtain y rest where y: "queue q = y # rest" "queue q' = rest @ [x]" using put_sample_cases [OF assms] by auto
  have "mset (somes (y # rest)) = mset (somes rest) + mset (somes [y])" by (cases y) auto
  then show ?thesis using y False by simp
qed (use put_sample_cases [OF assms] in simp)

lemma samples_task:
  assumes "length (queue (mqueue r)) \<le> max_queue_size (mqueue r)"
  shows "task_deliver i r = Some r' \<Longrightarrow> all_samples r' = all_samples r"
    and "task_account i r = Some r' \<Longrightarrow> all_samples r' = all_samples r"
    and "task_cancel L i r = Some r' \<Longrightarrow> all_samples r' = all_samples r"
    and "task_fail i r = Some r' \<Longrightarrow> all_samples r' = all_samples r"
proof -
  assume "task_deliver i r = Some r'"
  then obtain x ok q where d: "i < length (active_tasks r)" "active_tasks r ! i = Running x"
    "put_sample (Some x) (mqueue r) = Inr (ok, q)"
    "r' = r\<lparr>active_tasks := (active_tasks r)[i := Delivered ok], mqueue := q,
       lost := lost r @ (if ok then [] else [hd (queue (mqueue r))])\<rparr>"
    by (auto simp: task_deliver_def split: task.splits sum.splits if_splits prod.splits)
  have "mset (running_samples (active_tasks r)) = add_mset x (mset (running_samples ((active_tasks r)[i := Delivered ok])))"
    by (rule running_samples_update(1) [OF d(1,2)]) simp
  then show "all_samples r' = all_samples r"
    using put_sample_samples [OF d(3) assms] unfolding d(4) by (simp add: all_samples_def ac_simps)
next
  assume "task_account i r = Some r'"
  then show "all_samples r' = all_samples r"
    by (auto simp: task_account_def all_samples_def running_samples_account Let_def split: task.splits if_splits)
next
  assume "task_cancel L i r = Some r'"
  then obtain x where d: "i < length (active_tasks r)" "active_tasks r ! i = Running x"
    "r' = r\<lparr>active_tasks := (active_tasks r)[i := Finished], cancel_queue := cancel_queue r @ [x],
       processed_sample_count := processed_sample_count r + 1\<rparr>"
    by (auto simp: task_cancel_def split: task.splits if_splits)
  then show "all_samples r' = all_samples r"
    using running_samples_update(1) [OF d(1,2), of Finished] by (simp add: all_samples_def)
next
  assume "task_fail i r = Some r'"
  then obtain x where d: "i < length (active_tasks r)" "active_tasks r ! i = Running x"
    "r' = r\<lparr>active_tasks := (active_tasks r)[i := Failed], lost := lost r @ [Some x]\<rparr>"
    by (auto simp: task_fail_def split: task.splits if_splits)
  then show "all_samples r' = all_samples r"
    using running_samples_update(1) [OF d(1,2), of Failed] by (simp add: all_samples_def ac_simps)
qed

lemma samples_signal:
  assumes "put_signal os r = Some r'" "length (queue (mqueue r)) \<le> max_queue_size (mqueue r)" "somes os = proc_held (proc r)"
  shows "all_samples r' = all_samples r"
proof -
  obtain ok q where d: "put_sample None (mqueue r) = Inr (ok, q)"
    "r' = r\<lparr>proc := Signalled, mqueue := q, lost := lost r @ os @ (if ok then [] else [hd (queue (mqueue r))])\<rparr>"
    using assms(1) by (auto simp: put_signal_def split: sum.splits prod.splits)
  show ?thesis using put_sample_samples [OF d(1) assms(2)] assms(3) unfolding d(2) by (simp add: all_samples_def ac_simps)
qed

lemma samples_finish:
  assumes "finish_signal r = Some r'" "length (queue (mqueue r)) \<le> max_queue_size (mqueue r)"
  shows "all_samples r' = all_samples r"
proof -
  have "somes (orphan w) = site_held w" for w :: "'a site" by (cases w) auto
  then show ?thesis using assms by (auto simp: finish_signal_def intro: samples_signal split: proc.splits)
qed

lemma samples_take:
  assumes "trainer_take r = Some r'"
  shows "all_samples r' = all_samples r"
proof -
  obtain x rest where d: "queue (mqueue r) = x # rest"
    "r' = r\<lparr>mqueue := (mqueue r)\<lparr>queue := rest, total_consumed := total_consumed (mqueue r) + 1\<rparr>, taken := taken r @ [x]\<rparr>"
    using assms by (auto simp: trainer_take_def get_sample_def split: list.splits if_splits)
  then show ?thesis by (cases x) (simp_all add: all_samples_def)
qed

lemma samples_step:
  assumes "ro_inv L r" "ro_step L e r = Some r'"
  shows "all_samples r' = all_samples r"
proof -
  have "length (queue (mqueue r)) \<le> max_queue_size (mqueue r)" using assms(1) by (simp add: ro_inv_def)
  note queue_ops = samples_task [OF this] samples_finish [OF _ this]
  have version: "all_samples (r\<lparr>mqueue := update_param_version v (mqueue r)\<rparr>) = all_samples r" for v
    by (simp add: all_samples_def update_param_version_def)
  show ?thesis
  proof (cases e)
    case (QueueVersion v)
    then show ?thesis using assms(2) version by auto
  qed (use assms(2) in \<open>simp only: ro_step.simps, elim queue_ops samples_processor samples_drain samples_control samples_take\<close>)+
qed

subsection \<open>Progress\<close>

fun ended :: "'s proc \<Rightarrow> bool" where
  "ended (Drain w) = (w = AtEnd)"
| "ended (WantDrain w) = (w = AtEnd)"
| "ended (Reaping w) = (w = AtEnd)"
| "ended Stopped = True"
| "ended (Crashed w) = True"
| "ended Signalled = True"
| "ended _ = False"

definition live_inv :: "('s, 'v) rollouter \<Rightarrow> bool" where
  "live_inv r \<longleftrightarrow> (feed_done r \<longrightarrow> DoneSignal \<in> set (pending_queue r) \<or> ended (proc r))
     \<and> ((\<exists>w. proc r = Reaping w) \<longrightarrow> active_tasks r \<noteq> []) \<and> (proc r \<noteq> Signalled \<longrightarrow> ro_running r)"

lemma ended_notify [simp]: "ended (notify p) = ended p"
  by (cases p) (auto simp: notify_def)

lemma live_inv_processor:
  assumes "live_inv r"
  shows "proc_loop L r = Some r' \<Longrightarrow> live_inv r'" "proc_fetch r = Some r' \<Longrightarrow> live_inv r'"
    "proc_pause r = Some r' \<Longrightarrow> live_inv r'" "proc_drain_lock r = Some r' \<Longrightarrow> live_inv r'"
    "proc_reap r = Some r' \<Longrightarrow> live_inv r'" "proc_lock r = Some r' \<Longrightarrow> live_inv r'"
  using assms by (auto simp: proc_loop_def proc_fetch_def take_item_def proc_pause_def proc_drain_lock_def proc_reap_def
      proc_lock_def live_inv_def split: proc.splits list.splits item.splits if_splits option.splits)

lemma live_inv_drain: "live_inv r \<Longrightarrow> proc_drain L r = Some r' \<Longrightarrow> live_inv r'"
proof -
  have "ended (drain_exit w) = (w = AtEnd)" "drain_exit w \<noteq> Reaping w'" for w w' :: "'a site" by (cases w; simp)+
  then show "live_inv r \<Longrightarrow> proc_drain L r = Some r' \<Longrightarrow> live_inv r'"
    by (auto simp: proc_drain_def live_inv_def split: proc.splits if_splits)
qed

lemma live_inv_tasks:
  assumes "live_inv r"
  shows "task_deliver i r = Some r' \<Longrightarrow> live_inv r'" "task_account i r = Some r' \<Longrightarrow> live_inv r'"
    "task_cancel L i r = Some r' \<Longrightarrow> live_inv r'" "task_fail i r = Some r' \<Longrightarrow> live_inv r'" "trainer_take r = Some r' \<Longrightarrow> live_inv r'"
  using assms by (auto simp: task_deliver_def task_account_def task_cancel_def task_fail_def trainer_take_def live_inv_def Let_def
      split: task.splits sum.splits prod.splits get_outcome.splits if_splits)

lemma live_inv_control:
  assumes "live_inv r"
  shows "feed_sample L r = Some r' \<Longrightarrow> live_inv r'" "feed_end r = Some r' \<Longrightarrow> live_inv r'"
    "pause_begin r = Some r' \<Longrightarrow> live_inv r'"
    "update_begin v r = Some r' \<Longrightarrow> live_inv r'" "update_end d r = Some r' \<Longrightarrow> live_inv r'"
    "resume r = Some r' \<Longrightarrow> live_inv r'" "monitor_check L r = Some r' \<Longrightarrow> live_inv r'"
    "monitor_wake r = Some r' \<Longrightarrow> live_inv r'" "finish_stop r = Some r' \<Longrightarrow> live_inv r'"
    "finish_signal r = Some r' \<Longrightarrow> live_inv r'"
  using assms by (auto simp: feed_sample_def feed_end_def pause_begin_def update_begin_def update_end_def put_validate_def
      resume_def monitor_check_def monitor_wake_def finish_stop_def finish_signal_def put_signal_def live_inv_def notify_proc Let_def
      split: list.splits if_splits option.splits holder.splits proc.splits sum.splits prod.splits)

lemma live_inv_pause_end: "live_inv r \<Longrightarrow> ro_inv L r \<Longrightarrow> pause_end r = Some r' \<Longrightarrow> live_inv r'"
  by (auto simp: pause_end_def live_inv_def ro_inv_def split: if_splits)

lemma live_inv_step:
  assumes "ro_inv L r" "live_inv r" "ro_step L e r = Some r'"
  shows "live_inv r'"
proof (cases e)
  case (QueueVersion v)
  then show ?thesis using assms(2,3) by (auto simp: live_inv_def)
qed (use assms(3) in \<open>simp only: ro_step.simps,
    elim live_inv_processor [OF assms(2)] live_inv_drain [OF assms(2)] live_inv_tasks [OF assms(2)]
      live_inv_control [OF assms(2)] live_inv_pause_end [OF assms(2,1)]\<close>)+

lemma put_sample_defined: "0 < max_queue_size q \<Longrightarrow> \<exists>ok q'. put_sample x q = Inr (ok, q')"
  by (cases "queue q") (auto simp: put_sample_def)

text \<open>An unfinished task can always take a step, so a wait for tasks ends.\<close>

lemma task_moves:
  assumes "t \<in> set (active_tasks r)" "\<not> is_done t" "0 < max_queue_size (mqueue r)"
  shows "\<exists>i. task_deliver i r \<noteq> None \<or> task_account i r \<noteq> None"
proof -
  obtain i where i: "i < length (active_tasks r)" "active_tasks r ! i = t" using assms(1) by (auto simp: in_set_conv_nth)
  show ?thesis
  proof (cases t)
    case (Running x)
    then have "task_deliver i r \<noteq> None"
      using i put_sample_defined [OF assms(3), of "Some x"] by (auto simp: task_deliver_def)
    then show ?thesis by blast
  next
    case (Delivered ok)
    then have "task_account i r \<noteq> None" using i by (simp add: task_account_def Let_def)
    then show ?thesis by blast
  qed (use assms(2) in simp_all)
qed

definition internal :: "'v event \<Rightarrow> bool" where
  "internal e \<longleftrightarrow> (case e of PauseBegin \<Rightarrow> False | UpdateBegin v \<Rightarrow> False | QueueVersion v \<Rightarrow> False | Resume \<Rightarrow> False
     | TrainerTake \<Rightarrow> False | TaskCancel i \<Rightarrow> False | TaskFail i \<Rightarrow> False | MonitorCheck \<Rightarrow> False | _ \<Rightarrow> True)"

lemma lock_holder_moves:
  assumes "ro_inv L r" "live_inv r" "0 < r_max_queue_size L" "lock r \<noteq> None"
  shows "\<exists>e. internal e \<and> ro_step L e r \<noteq> None"
proof -
  have size: "0 < max_queue_size (mqueue r)" using assms(1,3) by (simp add: ro_inv_def)
  obtain h where h: "lock r = Some h" using assms(4) by auto
  have tasks: "\<exists>e. internal e \<and> ro_step L e r \<noteq> None" if t: "t \<in> set (active_tasks r)" "\<not> is_done t" for t
  proof -
    obtain i where "task_deliver i r \<noteq> None \<or> task_account i r \<noteq> None" using task_moves [OF t size] by blast
    then have "ro_step L (TaskDeliver i) r \<noteq> None \<or> ro_step L (TaskAccount i) r \<noteq> None" by simp
    then show ?thesis by (auto simp: internal_def intro: exI [of _ "TaskDeliver i"] exI [of _ "TaskAccount i"])
  qed
  show ?thesis
  proof (cases h)
    case ByProcessor
    then obtain w where w: "proc r = Reaping w" using assms(1) h by (auto simp: ro_inv_def)
    then have "active_tasks r \<noteq> []" using assms(2) by (auto simp: live_inv_def)
    then obtain t where t: "t \<in> set (active_tasks r)" by (cases "active_tasks r") auto
    show ?thesis
    proof (cases "is_done t")
      case True
      then have "ro_step L ProcReap r \<noteq> None" using w t by (auto simp: proc_reap_def list_ex_iff)
      then show ?thesis by (intro exI [of _ ProcReap]) (simp add: internal_def)
    qed (rule tasks [OF t])
  next
    case ByPause
    show ?thesis
    proof (cases "list_all is_done (active_tasks r)")
      case True
      then have "ro_step L PauseEnd r \<noteq> None" using h ByPause by (simp add: pause_end_def)
      then show ?thesis by (intro exI [of _ PauseEnd]) (simp add: internal_def)
    next
      case False
      then obtain t where "t \<in> set (active_tasks r)" "\<not> is_done t" by (auto simp: list_all_iff)
      then show ?thesis by (rule tasks)
    qed
  next
    case (ByUpdate n)
    then have "ro_step L (UpdateEnd None) r \<noteq> None" using h by (simp add: update_end_def)
    then show ?thesis by (intro exI [of _ "UpdateEnd None"]) (simp add: internal_def)
  qed
qed

lemma processor_moves:
  assumes "ro_inv L r" "live_inv r" "0 < r_max_queue_size L" "lock r = None"
    and "proc r \<noteq> Signalled" "\<And>k. proc r \<noteq> Asleep k"
  shows "\<exists>e. internal e \<and> ro_step L e r \<noteq> None"
proof -
  have size: "0 < max_queue_size (mqueue r)" using assms(1,3) by (simp add: ro_inv_def)
  have signal: "put_signal os r \<noteq> None" for os
    using put_sample_defined [OF size, of None] by (auto simp: put_signal_def)
  have "ro_step L ProcLoop r \<noteq> None \<or> ro_step L ProcPause r \<noteq> None \<or> ro_step L ProcDrain r \<noteq> None
    \<or> ro_step L ProcDrainLock r \<noteq> None \<or> ro_step L ProcLock r \<noteq> None \<or> ro_step L FinishSignal r \<noteq> None
    \<or> ro_step L ProcFetch r \<noteq> None \<or> ro_step L FeedSample r \<noteq> None \<or> ro_step L FeedEnd r \<noteq> None"
  proof (cases "proc r")
    case Fetching
    then have "pending_queue r = [] \<Longrightarrow> \<not> feed_done r" using assms(2) by (auto simp: live_inv_def)
    then show ?thesis using Fetching
      by (cases "pending_queue r"; cases "feed_rest r") (auto simp: proc_fetch_def feed_sample_def feed_end_def)
  qed (use assms signal in \<open>auto simp: proc_loop_def proc_pause_def proc_drain_def proc_drain_lock_def proc_lock_def
      finish_signal_def ro_inv_def\<close>)
  then show ?thesis
    by (elim disjE) (rule exI, rule conjI [rotated], assumption, simp add: internal_def)+
qed

lemmas ro_ops = feed_sample_def feed_end_def proc_loop_def take_item_def proc_fetch_def proc_pause_def proc_drain_def
  proc_drain_lock_def proc_reap_def proc_lock_def task_account_def task_cancel_def task_fail_def pause_begin_def pause_end_def
  update_begin_def update_end_def resume_def monitor_check_def monitor_wake_def finish_stop_def trainer_take_def Let_def

lemma lost_step:
  assumes "ro_step L e r = Some r'"
  shows "lost r' = lost r \<or> (\<exists>x q. put_sample x (mqueue r) = Inr (False, q)) \<or> (\<exists>w. proc r = Crashed w)
    \<or> (\<exists>i x. e = TaskFail i \<and> i < length (active_tasks r) \<and> active_tasks r ! i = Running x \<and> lost r' = lost r @ [Some x])"
proof (cases e)
  case (TaskDeliver i)
  then show ?thesis using assms by (auto simp: task_deliver_def split: task.splits sum.splits prod.splits if_splits)
next
  case FinishSignal
  then show ?thesis using assms by (auto simp: finish_signal_def put_signal_def split: proc.splits sum.splits prod.splits if_splits)
qed (use assms in \<open>auto simp: ro_ops split: proc.splits list.splits item.splits task.splits option.splits holder.splits
  get_outcome.splits if_splits\<close>)

subsection \<open>Properties\<close>

lemma init_live: "live_inv (init_rollouter feed q)"
  by (simp add: live_inv_def init_rollouter_def)

lemma ro_reachable_live:
  assumes "ro_reachable L (init_rollouter feed q) r" "queue q = []" "max_queue_size q = r_max_queue_size L"
  shows "live_inv r"
  using assms(1)
proof (induction rule: ro_reachable.induct)
  case (ro_next r e r')
  show ?case by (rule live_inv_step [OF ro_reachable_inv [OF ro_next(1) assms(2,3)] ro_next(3,2)])
qed (rule init_live)

lemma ro_reachable_samples:
  assumes "ro_reachable L (init_rollouter feed q) r" "queue q = []" "max_queue_size q = r_max_queue_size L"
  shows "all_samples r = mset feed"
  using assms(1)
proof (induction rule: ro_reachable.induct)
  case ro_start
  then show ?case using assms(2) by (simp add: all_samples_def init_rollouter_def)
next
  case (ro_next r e r')
  then show ?case using samples_step [OF ro_reachable_inv [OF ro_next(1) assms(2,3)] ro_next(2)] by simp
qed

text \<open>C6: The staleness control bounds what is in flight. With the limits computed from the configuration, at any time and in any
  interleaving of feeding, generation, failures, synchronisation and training, at most
  \<open>required_samples * (staleness_threshold + 1) * trigger_parameter_sync_step + 1\<close> samples are being generated, cancelled
  or waiting to be trained on, at most one more than \<open>staleness_samples\<close> says; never more than 16 tasks for each server exist; and a
  finished sample pushes an older one out of the queue only when the queue holds the full allowance. The counter itself
  goes beyond the allowance, because \<open>update_param_version\<close> counts finished tasks that have not been collected twice, but by
  no more than the allowance, the number of concurrent tasks and 2.\<close>

theorem staleness_bound:
  assumes "set_max_required_samples required threshold sync_step steps servers partial = Inr L"
    and "init_mq (Some (r_max_queue_size L)) th = Inr q" "0 \<le> threshold"
    and "ro_reachable L (init_rollouter feed q) r"
  shows "real (in_flight r) \<le> real required * (threshold + 1) * real sync_step + 1
    \<and> in_flight r \<le> staleness_samples r + 1 \<and> length (active_tasks r) \<le> 16 * servers
    \<and> staleness_samples r \<le> 2 * max_required_samples L + max_concurrent_samples L + 2
    \<and> (\<forall>i r'. task_deliver i r = Some r' \<longrightarrow>
        lost r' = lost r \<or> length (queue (mqueue r)) = max_required_samples L)"
proof -
  have q: "queue q = []" "max_queue_size q = r_max_queue_size L" using assms(2) by (auto simp: init_mq_def)
  have inv: "ro_inv L r" by (rule ro_reachable_inv [OF assms(4) q])
  have L: "max_required_samples L = nat \<lfloor>real required * (threshold + 1) * real sync_step\<rfloor>"
    "max_concurrent_samples L \<le> servers * 16" "r_max_queue_size L = max_required_samples L"
    using assms(1) by (auto simp: set_max_required_samples_def rbind_Inr_iff Let_def)
  have "real (max_required_samples L) \<le> real required * (threshold + 1) * real sync_step"
    unfolding L(1) using assms(3) by (intro of_nat_floor) simp
  moreover have "lost r' = lost r \<or> length (queue (mqueue r)) = max_required_samples L" if d: "task_deliver i r = Some r'" for i r'
  proof -
    obtain x ok q' where "put_sample (Some x) (mqueue r) = Inr (ok, q')"
      "lost r' = lost r @ (if ok then [] else [hd (queue (mqueue r))])"
      using d by (auto simp: task_deliver_def split: task.splits sum.splits if_splits prod.splits)
    then show ?thesis using put_sample_cases [of "Some x" "mqueue r" ok q'] inv L(3) by (auto simp: ro_inv_def split: if_splits)
  qed
  moreover have "staleness_samples r \<le> 2 * max_required_samples L + max_concurrent_samples L + 2"
    using ro_reachable_count [OF assms(4) q] L(3) by (simp add: count_inv_def after_update_def)
  ultimately show ?thesis using inv L(2) by (auto simp: ro_inv_def)
qed

text \<open>C10: no sample disappears. At every moment the samples of the data loader are, as a multiset, those not yet
  read, those in the pending queue, held by the processor, being generated, cancelled and waiting to be resumed, queued for the trainer,
  taken by it, or lost; and samples are lost only when the queue is full, when the processor has crashed, or when the
  generation of the sample itself raises an exception.\<close>

theorem no_sample_disappears:
  assumes "init_mq (Some (r_max_queue_size L)) th = Inr q"
    and "ro_reachable L (init_rollouter feed q) r"
  shows "mset feed = mset (feed_rest r) + mset (items (pending_queue r)) + mset (proc_held (proc r))
      + mset (running_samples (active_tasks r)) + mset (cancel_queue r)
      + mset (somes (queue (mqueue r))) + mset (somes (taken r)) + mset (somes (lost r))
    \<and> (\<forall>e r'. ro_step L e r = Some r' \<longrightarrow> lost r' = lost r
        \<or> length (queue (mqueue r)) = r_max_queue_size L \<or> (\<exists>w. proc r = Crashed w)
        \<or> (\<exists>i x. e = TaskFail i \<and> i < length (active_tasks r) \<and> active_tasks r ! i = Running x \<and> lost r' = lost r @ [Some x]))"
proof -
  have q: "queue q = []" "max_queue_size q = r_max_queue_size L" using assms(1) by (auto simp: init_mq_def)
  have inv: "ro_inv L r" by (rule ro_reachable_inv [OF assms(2) q])
  have full: "length (queue (mqueue r)) = r_max_queue_size L" if "put_sample x (mqueue r) = Inr (False, q')" for x q'
    using put_sample_cases [OF that] inv by (auto simp: ro_inv_def)
  have "\<forall>e r'. ro_step L e r = Some r' \<longrightarrow> lost r' = lost r
        \<or> length (queue (mqueue r)) = r_max_queue_size L \<or> (\<exists>w. proc r = Crashed w)
        \<or> (\<exists>i x. e = TaskFail i \<and> i < length (active_tasks r) \<and> active_tasks r ! i = Running x \<and> lost r' = lost r @ [Some x])"
  proof (intro allI impI)
    fix e r'
    assume "ro_step L e r = Some r'"
    from lost_step [OF this] full show "lost r' = lost r
        \<or> length (queue (mqueue r)) = r_max_queue_size L \<or> (\<exists>w. proc r = Crashed w)
        \<or> (\<exists>i x. e = TaskFail i \<and> i < length (active_tasks r) \<and> active_tasks r ! i = Running x \<and> lost r' = lost r @ [Some x])"
      by auto
  qed
  then show ?thesis using ro_reachable_samples [OF assms(2) q] by (auto simp: all_samples_def)
qed

text \<open>C20: The rollouter never deadlocks. In every reachable state in which it has not signalled its end, one of its
  coroutines can run without any event from outside, the test of the monitor loop not counted; or generation is paused and the
  processor sleeps. In the second case, unless \<open>pause()\<close> has ended without a later \<open>resume()\<close>, the queue is full, or the count
  of stale samples is at its limit, the monitor loop wakes the processor; in these three situations, in which generation is meant
  to wait for the trainer, \<open>resume()\<close>, which the trainer's synchronisation calls, does. Either way the processor is back in its
  loop one step later, with the task of the sample it held started.\<close>

theorem rollouter_never_stuck:
  assumes "init_mq (Some (r_max_queue_size L)) th = Inr q" "0 < r_max_queue_size L"
    and "ro_reachable L (init_rollouter feed q) r" "proc r \<noteq> Signalled"
  shows "(\<exists>e. internal e \<and> ro_step L e r \<noteq> None)
    \<or> paused r \<and> (\<exists>k. proc r = Asleep k) \<and> (\<exists>r'. proc r' = Loop \<and> active_tasks r' = active_tasks r @ map Running (proc_held (proc r))
      \<and> ro_run L (if monitor_loop_trigger r \<and> \<not> should_pause_generation L r then [MonitorCheck, MonitorWake, ProcLock]
          else [Resume, ProcLock]) r = Some r')"
proof -
  have q: "queue q = []" "max_queue_size q = r_max_queue_size L" using assms(1) by (auto simp: init_mq_def)
  have inv: "ro_inv L r" "live_inv r" by (rule ro_reachable_inv ro_reachable_live, rule assms(3), rule q, rule q)+
  show ?thesis
  proof (cases "lock r = None \<and> (\<exists>k. proc r = Asleep k)")
    case True
    then obtain k where k: "lock r = None" "proc r = Asleep k" by blast
    then have "paused r" using inv(1) by (auto simp: ro_inv_def)
    show ?thesis
    proof (cases "monitor_ready r")
      case True
      then have "ro_step L MonitorWake r \<noteq> None" using k by (simp add: monitor_wake_def)
      then show ?thesis by (auto simp: internal_def intro!: disjI1 exI [of _ MonitorWake])
    next
      case False
      have "ro_running r" using inv(2) assms(4) by (simp add: live_inv_def)
      then have "\<exists>r'. proc r' = Loop \<and> active_tasks r' = active_tasks r @ map Running (proc_held (proc r))
        \<and> ro_run L (if monitor_loop_trigger r \<and> \<not> should_pause_generation L r then [MonitorCheck, MonitorWake, ProcLock]
            else [Resume, ProcLock]) r = Some r'"
        using k False by (cases k) (auto simp: resume_def proc_lock_def notify_def monitor_check_def monitor_wake_def)
      then show ?thesis using k(2) \<open>paused r\<close> by blast
    qed
  next
    case False
    then show ?thesis
      using lock_holder_moves [OF inv assms(2)] processor_moves [OF inv assms(2) _ assms(4)] by blast
  qed
qed

text \<open>A pause does not hold. If the monitor loop has tested its condition before \<open>pause()\<close> takes the
  lock, it clears \<open>paused\<close> when \<open>pause()\<close> releases it, and the processor starts a new task although nobody called
  \<open>resume\<close>: generation goes on while the weights are being synchronised.\<close>

theorem monitor_undoes_pause:
  fixes q :: "('s option, 'v) mq"
  assumes "0 < max_required_samples L" "0 < max_concurrent_samples L" "0 < r_max_queue_size L" "queue q = []"
  shows "\<exists>before after r1 r2. ro_run L (before @ [PauseBegin, PauseEnd]) (init_rollouter (x # xs) q) = Some r1 \<and> paused r1
    \<and> active_tasks r1 = [] \<and> Resume \<notin> set (before @ after)
    \<and> ro_run L (after :: 'v event list) r1 = Some r2 \<and> active_tasks r2 = [Running x]"
proof -
  let ?before = "[FeedSample, MonitorCheck] :: 'v event list" and ?after = "[MonitorWake, ProcLoop, ProcDrain, ProcLock] :: 'v event list"
  have "\<exists>r1 r2. ro_run L (?before @ [PauseBegin, PauseEnd]) (init_rollouter (x # xs) q) = Some r1 \<and> paused r1 \<and> active_tasks r1 = []
    \<and> ro_run L ?after r1 = Some r2 \<and> active_tasks r2 = [Running x]"
    using assms by (simp add: ro_ops init_rollouter_def should_pause_generation_def notify_def)
  then show ?thesis by (intro exI [of _ ?before] exI [of _ ?after]) auto
qed

text \<open>The processor fails when \<open>pause()\<close> empties the task set while the processor waits for the lock at the
  concurrency limit, before any wait has bound \<open>done_tasks\<close>.\<close>

lemma unbound_done_tasks:
  fixes q :: "('s option, 'v) mq"
  assumes "max_concurrent_samples L = 1" "2 \<le> max_required_samples L" "2 \<le> r_max_queue_size L" "2 \<le> total_rollout_steps L"
    and "queue q = []" "max_queue_size q = r_max_queue_size L"
  shows "\<exists>r. ro_run L ([FeedSample, ProcLoop, ProcDrain, ProcLock, ProcLoop, PauseBegin, FeedSample, ProcFetch, ProcDrain,
      TaskDeliver 0, TaskAccount 0, PauseEnd, ProcDrainLock] :: 'v event list) (init_rollouter [x, y] q) = Some r \<and> proc r = Crashed (AtLimit y)"
  using assms by (simp add: ro_ops init_rollouter_def should_pause_generation_def task_deliver_def put_sample_room)

text \<open>A task that fails while \<open>pause\<close> waits for it loses its sample, and nothing else shows it: the exception is returned by
  \<open>gather\<close> and dropped, and generation goes on.\<close>

lemma pause_swallows_failures:
  fixes q :: "('s option, 'v) mq"
  assumes "0 < max_required_samples L" "0 < max_concurrent_samples L" "0 < r_max_queue_size L" "queue q = []"
  shows "\<exists>r. ro_run L ([FeedSample, ProcLoop, ProcDrain, ProcLock, PauseBegin, TaskFail 0, PauseEnd, Resume, ProcLoop] :: 'v event list)
      (init_rollouter [x] q) = Some r \<and> lost r = [Some x] \<and> active_tasks r = [] \<and> (proc r = WantPause \<or> proc r = Fetching)"
  using assms by (simp add: ro_ops init_rollouter_def should_pause_generation_def notify_def)

text \<open>With an allowance of one sample, the counter reaches 2: the finished task and its result in the queue are counted.\<close>

lemma counter_counts_twice:
  fixes q :: "('s option, 'v) mq"
  assumes "max_required_samples L = 1" "max_concurrent_samples L = 1" "r_max_queue_size L = 1" "queue q = []" "max_queue_size q = 1"
  shows "\<exists>r. ro_run L ([FeedSample, ProcLoop, ProcDrain, ProcLock, TaskDeliver 0, TaskAccount 0, UpdateBegin v, UpdateEnd None] :: 'v event list)
      (init_rollouter [x] q) = Some r \<and> staleness_samples r = 2 \<and> in_flight r = 1"
  using assms by (simp add: ro_ops init_rollouter_def should_pause_generation_def task_deliver_def put_sample_room get_queue_size_def in_flight_def)

subsection \<open>Witnesses\<close>

definition demo_limits :: rollout_limits where
  "demo_limits = \<lparr>max_required_samples = 3, max_concurrent_samples = 3, r_max_queue_size = 3, total_train_steps = 5,
     total_rollout_steps = 10, partial_rollout = True\<rparr>"

definition demo_events :: "unit event list" where
  "demo_events = [FeedSample, FeedSample, FeedSample, ProcLoop, ProcDrain, ProcLock, ProcLoop, ProcDrain, ProcLock,
     TaskDeliver 0, TaskAccount 0, TrainerTake, ProcLoop, PauseBegin, ProcDrain, TaskCancel 1, PauseEnd,
     UpdateBegin 1, UpdateEnd (Some ()), ProcLock]"

definition demo_ro_queue :: "(int option, unit) mq" where
  "demo_ro_queue = \<lparr>queue = [], max_queue_size = 3, current_param_version = 0, val_queue = [], staleness_threshold = 3,
     running = True, total_produced = 0, total_consumed = 0, dropped_samples = 0\<rparr>"

lemma demo_limits_set: "set_max_required_samples 2 (1 / 2) 1 10 1 True = Inr demo_limits"
  by (simp add: set_max_required_samples_def demo_limits_def Let_def)

lemma demo_ro_queue_init: "init_mq (Some (r_max_queue_size demo_limits)) None = Inr demo_ro_queue"
  by (simp add: init_mq_def demo_limits_def demo_ro_queue_def)

text \<open>The samples 7, 8 and 9: one has been trained on, one was cancelled by the pause, and the processor sleeps holding the third,
  which the reset of the count has missed.\<close>

lemma demo_ro_run:
  "\<exists>r. ro_run demo_limits demo_events (init_rollouter [7, 8, 9] demo_ro_queue) = Some r \<and> taken r = [Some 7] \<and> cancel_queue r = [8]
    \<and> proc r = Asleep (Some 9) \<and> staleness_samples r = 1 \<and> in_flight r = 2 \<and> paused r"
  unfolding demo_limits_def demo_events_def demo_ro_queue_def
  by (simp add: ro_ops init_rollouter_def should_pause_generation_def task_deliver_def put_sample_room get_sample_def
      get_queue_size_def put_validate_def in_flight_def notify_def)

theorem staleness_bound_witness:
  "\<exists>r. ro_run demo_limits demo_events (init_rollouter [7, 8, 9] demo_ro_queue) = Some r \<and> in_flight r = staleness_samples r + 1
    \<and> real (in_flight r) \<le> real 2 * (1 / 2 + 1) * real 1 + 1"
proof -
  obtain r where r: "ro_run demo_limits demo_events (init_rollouter [7, 8, 9] demo_ro_queue) = Some r"
    "staleness_samples r = 1" "in_flight r = 2" using demo_ro_run by blast
  have "real (in_flight r) \<le> real 2 * (1 / 2 + 1) * real 1 + 1"
    using staleness_bound [OF demo_limits_set demo_ro_queue_init _ ro_run_reachable [OF ro_start r(1)]] by simp
  then show ?thesis using r by simp
qed

theorem no_sample_disappears_witness:
  "\<exists>r. ro_run demo_limits demo_events (init_rollouter [7, 8, 9] demo_ro_queue) = Some r \<and> somes (taken r) = [7] \<and> cancel_queue r = [8]
    \<and> proc_held (proc r) = [9] \<and> size (mset (feed_rest r) + mset (items (pending_queue r)) + mset (somes (lost r))) = 0"
proof -
  obtain r where r: "ro_run demo_limits demo_events (init_rollouter [7, 8, 9] demo_ro_queue) = Some r"
    "taken r = [Some 7]" "cancel_queue r = [8]" "proc r = Asleep (Some 9)" using demo_ro_run by blast
  have "mset [7, 8, 9] = mset (feed_rest r) + mset (items (pending_queue r)) + mset (proc_held (proc r))
      + mset (running_samples (active_tasks r)) + mset (cancel_queue r)
      + mset (somes (queue (mqueue r))) + mset (somes (taken r)) + mset (somes (lost r))"
    using no_sample_disappears [OF demo_ro_queue_init ro_run_reachable [OF ro_start r(1)]] by blast
  from arg_cong [OF this, of size] show ?thesis using r by simp
qed

theorem rollouter_never_stuck_witness:
  "\<exists>r. ro_run demo_limits demo_events (init_rollouter [7, 8, 9] demo_ro_queue) = Some r \<and> proc r = Asleep (Some 9)
    \<and> ((\<exists>e. internal e \<and> ro_step demo_limits e r \<noteq> None)
      \<or> (\<exists>r'. ro_run demo_limits (if monitor_loop_trigger r \<and> \<not> should_pause_generation demo_limits r
          then [MonitorCheck, MonitorWake, ProcLock] else [Resume, ProcLock]) r = Some r'
        \<and> proc r' = Loop \<and> active_tasks r' = active_tasks r @ [Running 9]))"
proof -
  obtain r where r: "ro_run demo_limits demo_events (init_rollouter [7, 8, 9] demo_ro_queue) = Some r" "proc r = Asleep (Some 9)"
    using demo_ro_run by blast
  have "0 < r_max_queue_size demo_limits" "proc r \<noteq> Signalled" using r(2) by (simp_all add: demo_limits_def)
  from rollouter_never_stuck [OF demo_ro_queue_init this(1) ro_run_reachable [OF ro_start r(1)] this(2)]
  show ?thesis using r by (elim disjE exE conjE) auto
qed

theorem monitor_undoes_pause_witness:
  "\<exists>before after r1 r2. ro_run demo_limits (before @ [PauseBegin, PauseEnd]) (init_rollouter [7] demo_ro_queue) = Some r1 \<and> paused r1
    \<and> active_tasks r1 = [] \<and> Resume \<notin> set (before @ after) \<and> ro_run demo_limits (after :: unit event list) r1 = Some r2 \<and> active_tasks r2 = [Running 7]"
  using monitor_undoes_pause [of demo_limits demo_ro_queue 7 "[]"] by (simp add: demo_limits_def demo_ro_queue_def)

end
