(* ===== verification/Trainer.thy ===== *)
theory Trainer
  imports Dispatch MicroBatch KlControl Advantage Registry
begin

section \<open>The steps of the PPO trainer\<close>

text \<open>
  \<open>verl/trainer/ppo/ray_trainer.py\<close>: what the driver itself does to a batch between the calls of workers: the KL penalty
  on rewards, the choice and the call of the advantage estimator, the balancing of a batch over
  the data-parallel ranks, and the teacher log-probabilities of RLSD and OPSD. A batch is a \<open>DataProto\<close> whose
  tensors have rows of reals; a tensor with one number per row has rows of length one. The
  forward pass of the workers and the random resampling of PF-PPO are parameters.
\<close>

type_synonym rl_batch = "(vec, pyv) data_proto"

subsection \<open>Reading and writing tensors\<close>

definition has_tensor :: "('r, 'o) data_proto \<Rightarrow> string \<Rightarrow> bool" where
  "has_tensor d k = (case batch d of None \<Rightarrow> False | Some t \<Rightarrow> k \<in> set (keys (td_tensors t)))"

definition tensor :: "('r, 'o) data_proto \<Rightarrow> string \<Rightarrow> 'r list result" where
  "tensor d k = (case batch d of None \<Rightarrow> Inl TypeError | Some t \<Rightarrow> dget (td_tensors t) k)"

definition set_tensor :: "string \<Rightarrow> 'r list \<Rightarrow> ('r, 'o) data_proto \<Rightarrow> ('r, 'o) data_proto result" where
  "set_tensor k v d = (case batch d of
     None \<Rightarrow> Inl TypeError
   | Some t \<Rightarrow> rbind (ensure RuntimeError (length v = td_size t)) (\<lambda>_.
       Inr (d\<lparr>batch := Some (t\<lparr>td_tensors := AList.update k v (td_tensors t)\<rparr>)\<rparr>)))"

subsection \<open>KL penalty on rewards\<close>

definition masked_mean_row :: "vec \<Rightarrow> vec \<Rightarrow> real" where
  "masked_mean_row v m = masked_sum_vec v m / (sum_list m + 1 / 10 ^ 8)"

definition apply_kl_penalty ::
  "rl_batch \<Rightarrow> kl_controller \<Rightarrow> string \<Rightarrow> ((rl_batch \<times> (string, real) dict) \<times> kl_controller) result" where
  "apply_kl_penalty data kl_ctrl kind =
    rbind (tensor data ''response_mask'') (\<lambda>response_mask.
    rbind (tensor data ''token_level_scores'') (\<lambda>token_level_scores.
    rbind (tensor data ''old_log_probs'') (\<lambda>old.
    rbind (tensor data ''ref_log_prob'') (\<lambda>ref.
    rbind (kl_penalty old ref kind) (\<lambda>kld0.
    let kld = mmap2 (*) kld0 response_mask;
        beta = kl_value kl_ctrl;
        token_level_rewards = mmap2 (\<lambda>s k. s - beta * k) token_level_scores kld
    in rbind (tdiv (sum_list (map2 masked_mean_row kld response_mask)) (real (length kld))) (\<lambda>current_kl.
       rbind (kl_update current_kl (int (proto_len data)) kl_ctrl) (\<lambda>kl_ctrl'.
       rbind (set_tensor ''token_level_rewards'' token_level_rewards data) (\<lambda>data'.
       Inr ((data', [(''actor/reward_kl_penalty'', current_kl), (''actor/reward_kl_penalty_coeff'', beta)]), kl_ctrl')))))))))"

subsection \<open>Calling an estimator\<close>

definition compute_response_mask :: "rl_batch \<Rightarrow> mat result" where
  "compute_response_mask data =
    rbind (tensor data ''responses'') (\<lambda>responses.
    rbind (tensor data ''attention_mask'') (\<lambda>attention_mask.
    Inr (map (last_n (mwidth responses)) attention_mask)))"

record algo_cfg =
  algo_gamma :: real
  norm_adv_by_std_in_grpo :: "bool option"
  use_pf_ppo :: bool

text \<open>Keyword arguments of an estimator, and what its signature accepts.\<close>

datatype adv_arg = ArgMat mat | ArgVec vec | ArgIndex "pyv list" | ArgConfig "algo_cfg option" | ArgNum real | ArgNone

record adv_fn =
  required :: "string list"
  optional :: "string list"
  var_keywords :: bool
  body :: "(string, adv_arg) dict \<Rightarrow> (mat \<times> mat) result"

definition call_adv_fn :: "adv_fn \<Rightarrow> (string, adv_arg) dict \<Rightarrow> (mat \<times> mat) result" where
  "call_adv_fn f kwargs =
    rbind (ensure TypeError (list_all (\<lambda>k. k \<in> set (keys kwargs)) (required f))) (\<lambda>_.
    rbind (ensure TypeError (var_keywords f \<or> list_all (\<lambda>k. k \<in> set (required f) \<union> set (optional f)) (keys kwargs))) (\<lambda>_.
    body f kwargs))"

fun as_mat :: "adv_arg \<Rightarrow> mat result" where
  "as_mat (ArgMat m) = Inr m"
| "as_mat _ = Inl TypeError"

fun as_vec :: "adv_arg \<Rightarrow> vec result" where
  "as_vec (ArgVec v) = Inr v"
| "as_vec _ = Inl TypeError"

fun as_num :: "adv_arg \<Rightarrow> real result" where
  "as_num (ArgNum x) = Inr x"
| "as_num _ = Inl TypeError"

fun as_index :: "adv_arg \<Rightarrow> pyv list result" where
  "as_index (ArgIndex v) = Inr v"
| "as_index _ = Inl TypeError"

fun as_config :: "adv_arg \<Rightarrow> algo_cfg option result" where
  "as_config (ArgConfig c) = Inr c"
| "as_config _ = Inl TypeError"

fun as_opt_mat :: "adv_arg \<Rightarrow> mat option result" where
  "as_opt_mat (ArgMat m) = Inr (Some m)"
| "as_opt_mat ArgNone = Inr None"
| "as_opt_mat _ = Inl TypeError"

definition arg :: "(adv_arg \<Rightarrow> 'a result) \<Rightarrow> (string, adv_arg) dict \<Rightarrow> string \<Rightarrow> 'a result" where
  "arg as kw k = (case map_of kw k of None \<Rightarrow> Inl TypeError | Some a \<Rightarrow> as a)"

fun str_label :: "pyv \<Rightarrow> string result" where
  "str_label (PStr s) = Inr s"
| "str_label _ = Inl TypeError"

fun int_label :: "pyv \<Rightarrow> int result" where
  "int_label (PInt i) = Inr i"
| "int_label _ = Inl TypeError"

definition group_labels :: "pyv list \<Rightarrow> labels result" where
  "group_labels index = (case rmap int_label index of
     Inr is \<Rightarrow> Inr (IntLabels is)
   | Inl _ \<Rightarrow> rbind (rmap str_label index) (\<lambda>ss. Inr (StrLabels ss)))"

text \<open>The common arguments, and an estimator over the groups of an index.\<close>

definition indexed :: "(mat \<Rightarrow> mat \<Rightarrow> pyv list \<Rightarrow> (mat \<times> mat) result) \<Rightarrow> (string, adv_arg) dict \<Rightarrow> (mat \<times> mat) result" where
  "indexed f kw =
    rbind (arg as_mat kw ''token_level_rewards'') (\<lambda>R.
    rbind (arg as_mat kw ''response_mask'') (\<lambda>M.
    rbind (arg as_index kw ''index'') (\<lambda>index. f R M index)))"

definition otb_body ::
  "(mat \<Rightarrow> mat \<Rightarrow> pyv list \<Rightarrow> mat \<Rightarrow> mat \<Rightarrow> mat option \<Rightarrow> bool \<Rightarrow> real \<Rightarrow> (mat \<times> mat) result)
   \<Rightarrow> (string, adv_arg) dict \<Rightarrow> (mat \<times> mat) result" where
  "otb_body f kw = indexed (\<lambda>R M index.
    rbind (arg as_mat kw ''old_log_probs'') (\<lambda>old.
    rbind (arg as_mat kw ''sum_pi_squared'') (\<lambda>sq.
    rbind (case map_of kw ''rollout_is_weights'' of None \<Rightarrow> Inr None | Some a \<Rightarrow> as_opt_mat a) (\<lambda>ws.
    f R M index old sq ws True (1 / 10 ^ 8))))) kw"

abbreviation (input) "outcome_args \<equiv> [''token_level_rewards'', ''response_mask'', ''index'']"

text \<open>The functions registered in \<open>core_algos.py\<close>, with the defaults of their signatures; \<open>topk\<close> is torch's.\<close>

definition adv_estimators :: "(vec \<Rightarrow> nat \<Rightarrow> (real \<times> nat) list) \<Rightarrow> (advantage_estimator \<times> adv_fn) list" where
  "adv_estimators topk =
   [(GAE, \<lparr>required = [''token_level_rewards'', ''values'', ''response_mask'', ''gamma'', ''lam''], optional = [],
       var_keywords = False,
       body = (\<lambda>kw. rbind (arg as_mat kw ''token_level_rewards'') (\<lambda>R. rbind (arg as_mat kw ''values'') (\<lambda>V.
         rbind (arg as_mat kw ''response_mask'') (\<lambda>M. rbind (arg as_num kw ''gamma'') (\<lambda>g. rbind (arg as_num kw ''lam'') (\<lambda>l.
         compute_gae_advantage_return R V M g l))))))\<rparr>),
    (GRPO, \<lparr>required = outcome_args, optional = [''epsilon'', ''norm_adv_by_std_in_grpo'', ''config''], var_keywords = False,
       body = indexed (\<lambda>R M index. compute_grpo_outcome_advantage R M index (1 / 10 ^ 6) True)\<rparr>),
    (GRPO_VECTORIZED, \<lparr>required = outcome_args, optional = [''epsilon'', ''norm_adv_by_std_in_grpo'', ''config''], var_keywords = False,
       body = indexed (\<lambda>R M index. rbind (group_labels index) (\<lambda>ls.
         compute_grpo_vectorized_outcome_advantage R M ls (1 / 10 ^ 6) True))\<rparr>),
    (GRPO_PASSK, \<lparr>required = outcome_args, optional = [''epsilon'', ''norm_adv_by_std_in_grpo'', ''config''], var_keywords = True,
       body = (\<lambda>kw. indexed (\<lambda>R M index. rbind (arg as_config kw ''config'') (\<lambda>c.
         compute_grpo_passk_outcome_advantage topk R M index (1 / 10 ^ 6) (map_option Trainer.norm_adv_by_std_in_grpo c))) kw)\<rparr>),
    (REINFORCE_PLUS_PLUS_BASELINE, \<lparr>required = outcome_args, optional = [''epsilon'', ''config''], var_keywords = True,
       body = indexed compute_reinforce_plus_plus_baseline_outcome_advantage\<rparr>),
    (RLOO, \<lparr>required = outcome_args, optional = [''epsilon'', ''config''], var_keywords = True,
       body = indexed compute_rloo_outcome_advantage\<rparr>),
    (OPO, \<lparr>required = outcome_args, optional = [''epsilon'', ''config''], var_keywords = True,
       body = indexed compute_opo_outcome_advantage\<rparr>),
    (REINFORCE_PLUS_PLUS, \<lparr>required = [''token_level_rewards'', ''response_mask''], optional = [''config''], var_keywords = True,
       body = (\<lambda>kw. rbind (arg as_mat kw ''token_level_rewards'') (\<lambda>R. rbind (arg as_mat kw ''response_mask'') (\<lambda>M.
         rbind (arg as_config kw ''config'') (\<lambda>c. compute_reinforce_plus_plus_outcome_advantage R M (map_option algo_gamma c)))))\<rparr>),
    (REMAX, \<lparr>required = [''token_level_rewards'', ''reward_baselines'', ''response_mask''], optional = [''config''], var_keywords = True,
       body = (\<lambda>kw. rbind (arg as_mat kw ''token_level_rewards'') (\<lambda>R. rbind (arg as_vec kw ''reward_baselines'') (\<lambda>b.
         rbind (arg as_mat kw ''response_mask'') (\<lambda>M. Inr (compute_remax_outcome_advantage R b M)))))\<rparr>),
    (GPG, \<lparr>required = outcome_args, optional = [''epsilon'', ''f_norm'', ''alpha'', ''config''], var_keywords = True,
       body = indexed (\<lambda>R M index. compute_gpg_outcome_advantage R M index 1 1)\<rparr>),
    (RLOO_VECTORIZED, \<lparr>required = outcome_args, optional = [''epsilon'', ''config''], var_keywords = True,
       body = indexed (\<lambda>R M index. rbind (rmap str_label index) (\<lambda>ss. compute_rloo_vectorized_outcome_advantage R M ss))\<rparr>),
    (OPTIMAL_TOKEN_BASELINE, \<lparr>required = outcome_args @ [''old_log_probs'', ''sum_pi_squared''],
       optional = [''rollout_is_weights'', ''handle_zero_tail'', ''epsilon''], var_keywords = False,
       body = otb_body compute_optimal_token_baseline_advantage\<rparr>),
    (TIR_OPTIMAL_TOKEN_BASELINE, \<lparr>required = outcome_args @ [''old_log_probs'', ''sum_pi_squared''],
       optional = [''rollout_is_weights'', ''handle_zero_tail'', ''epsilon''], var_keywords = False,
       body = otb_body compute_multi_turn_optimal_token_baseline_advantage\<rparr>)]"

definition adv_registry :: "(vec \<Rightarrow> nat \<Rightarrow> (real \<times> nat) list) \<Rightarrow> (string, adv_fn) dict" where
  "adv_registry topk = map (\<lambda>(e, f). (estimator_value e, f)) (adv_estimators topk)"

definition advantage_kwargs :: "rl_batch \<Rightarrow> advantage_estimator \<Rightarrow> algo_cfg option \<Rightarrow> (string, adv_arg) dict result" where
  "advantage_kwargs data est config =
    rbind (tensor data ''token_level_rewards'') (\<lambda>R.
    rbind (tensor data ''response_mask'') (\<lambda>M.
    let kw = [(''token_level_rewards'', ArgMat R), (''response_mask'', ArgMat M), (''config'', ArgConfig config)];
        kw = (case map_of (non_tensor_batch data) ''uid'' of None \<Rightarrow> kw | Some us \<Rightarrow> kw @ [(''index'', ArgIndex us)]);
        kw = (case tensor data ''reward_baselines'' of Inl _ \<Rightarrow> kw | Inr b \<Rightarrow> kw @ [(''reward_baselines'', ArgVec (map hd b))])
    in if est \<in> {OPTIMAL_TOKEN_BASELINE, TIR_OPTIMAL_TOKEN_BASELINE} then
         rbind (py_assert (has_tensor data ''sum_pi_squared'')) (\<lambda>_.
         rbind (tensor data ''sum_pi_squared'') (\<lambda>sq.
         Inr (kw @ [(''sum_pi_squared'', ArgMat sq),
           (''rollout_is_weights'', case tensor data ''rollout_is_weights'' of Inl _ \<Rightarrow> ArgNone | Inr w \<Rightarrow> ArgMat w)])))
       else Inr kw))"

definition store_advantages :: "rl_batch \<Rightarrow> (mat \<times> mat) \<Rightarrow> rl_batch result" where
  "store_advantages data AR =
    rbind (set_tensor ''advantages'' (fst AR) data) (\<lambda>data. set_tensor ''returns'' (snd AR) data)"

definition compute_advantage ::
  "(string, adv_fn) dict \<Rightarrow> (rl_batch \<Rightarrow> rl_batch result) \<Rightarrow> advantage_estimator \<Rightarrow> real \<Rightarrow> real \<Rightarrow> bool \<Rightarrow> algo_cfg option
   \<Rightarrow> rl_batch \<Rightarrow> rl_batch result" where
  "compute_advantage reg pf_ppo est gamma lam norm_std config data =
    rbind (if has_tensor data ''response_mask'' then Inr data
      else rbind (compute_response_mask data) (\<lambda>m. set_tensor ''response_mask'' m data)) (\<lambda>data.
    case est of
      GAE \<Rightarrow>
        rbind (tensor data ''token_level_rewards'') (\<lambda>R. rbind (tensor data ''values'') (\<lambda>V.
        rbind (tensor data ''response_mask'') (\<lambda>M. rbind (compute_gae_advantage_return R V M gamma lam) (\<lambda>AR.
        rbind (store_advantages data AR) (\<lambda>data.
        (case config of None \<Rightarrow> Inl AttributeError | Some c \<Rightarrow> if use_pf_ppo c then pf_ppo data else Inr data))))))
    | GRPO \<Rightarrow>
        rbind (tensor data ''response_mask'') (\<lambda>M. rbind (tensor data ''token_level_rewards'') (\<lambda>R.
        rbind (dget (non_tensor_batch data) ''uid'') (\<lambda>index.
        rbind (compute_grpo_outcome_advantage R M index (1 / 10 ^ 6) norm_std) (store_advantages data))))
    | _ \<Rightarrow>
        rbind (get_adv_estimator_fn (Member est) reg) (\<lambda>f.
        rbind (advantage_kwargs data est config) (\<lambda>kw.
        rbind (call_adv_fn f kw) (store_advantages data))))"

subsection \<open>Balancing a batch over the data-parallel ranks\<close>

definition seq_lengths :: "mat \<Rightarrow> int list" where
  "seq_lengths attention_mask = map (\<lambda>r. \<lfloor>sum_list r\<rfloor>) attention_mask"

definition get_dp_size :: "(string \<Rightarrow> nat list result) \<Rightarrow> (string, nat list) dict \<Rightarrow> string \<Rightarrow> (nat \<times> (string, nat list) dict) result" where
  "get_dp_size query info role =
    rbind (case map_of info role of Some m \<Rightarrow> Inr (m, info) | None \<Rightarrow> rbind (query role) (\<lambda>m. Inr (m, AList.update role m info))) (\<lambda>(m, info').
    rbind (ensure ValueError (m \<noteq> [])) (\<lambda>_. Inr (Max (set m) + 1, info')))"

definition minibatch_partitions :: "int list \<Rightarrow> nat \<Rightarrow> nat \<Rightarrow> nat list list result" where
  "minibatch_partitions workloads minibatch_size n_dp =
    rbind (ensure ZeroDivisionError (minibatch_size \<noteq> 0)) (\<lambda>_.
    rfold (\<lambda>i parts.
      rbind (get_seqlen_balanced_partitions (slice (i * minibatch_size) ((i + 1) * minibatch_size) workloads) n_dp True) (\<lambda>ps.
      Inr (map2 (\<lambda>part p. part @ map (\<lambda>x. x + minibatch_size * i) p) parts ps)))
      [0..<length workloads div minibatch_size] (replicate n_dp []))"

definition balance_partitions ::
  "bool \<Rightarrow> nat option \<Rightarrow> nat \<Rightarrow> int list \<Rightarrow> pyv list option \<Rightarrow> nat list list result" where
  "balance_partitions use_prefix_grouper keep_minibatch n_dp seqlens uids =
    (let workloads = map calculate_workload seqlens
     in case (use_prefix_grouper, uids) of
       (True, Some us) \<Rightarrow>
         rbind (ensure ValueError (length (remdups us) mod n_dp = 0)) (\<lambda>_.
         get_group_balanced_partitions seqlens (map Some us) n_dp)
     | _ \<Rightarrow> (case keep_minibatch of
           Some m \<Rightarrow> minibatch_partitions workloads m n_dp
         | None \<Rightarrow> get_seqlen_balanced_partitions workloads n_dp True))"

definition order_partition :: "int list \<Rightarrow> nat list \<Rightarrow> nat list" where
  "order_partition workloads p =
    (let q = sort_key (\<lambda>x. (workloads ! x, x)) p in every_other q @ rev (every_other (tl q)))"

definition balance_batch ::
  "bool \<Rightarrow> nat option \<Rightarrow> nat \<Rightarrow> string \<Rightarrow> rl_batch \<Rightarrow> (rl_batch \<times> (string, real) dict) result" where
  "balance_batch use_prefix_grouper keep_minibatch n_dp logging_prefix data =
    rbind (tensor data ''attention_mask'') (\<lambda>attention_mask.
    let seqlens = seq_lengths attention_mask
    in rbind (balance_partitions use_prefix_grouper keep_minibatch n_dp seqlens (map_of (non_tensor_batch data) ''uid'')) (\<lambda>ps.
       let ps' = (if use_prefix_grouper then ps else map (order_partition (map calculate_workload seqlens)) ps)
       in rbind (reorder data (map int (concat ps'))) (\<lambda>data'.
          rbind (log_seqlen_unbalance seqlens ps' logging_prefix) (\<lambda>stats. Inr (data', stats)))))"

subsection \<open>Teacher log-probabilities\<close>

text \<open>The teacher sees its own prompt followed by the responses of the rollout.\<close>

definition position_row :: "vec \<Rightarrow> vec" where
  "position_row m = map (\<lambda>c. max 0 (c - 1)) (cumsum m)"

definition teacher_tensors :: "rl_batch \<Rightarrow> (string, vec list) dict result" where
  "teacher_tensors data =
    rbind (tensor data ''teacher_input_ids'') (\<lambda>prompt_ids.
    rbind (tensor data ''teacher_attention_mask'') (\<lambda>prompt_mask.
    rbind (tensor data ''responses'') (\<lambda>responses.
    rbind (tensor data ''response_mask'') (\<lambda>response_mask.
    rbind (tensor data ''attention_mask'') (\<lambda>attention_mask.
    let ids = map2 (@) prompt_ids responses;
        msk = map2 (@) prompt_mask (map (last_n (mwidth responses)) attention_mask)
    in Inr [(''input_ids'', ids), (''attention_mask'', msk), (''position_ids'', map position_row msk),
            (''responses'', responses), (''prompts'', prompt_ids), (''response_mask'', response_mask)])))))"

definition teacher_batch :: "rl_batch \<Rightarrow> rl_batch result" where
  "teacher_batch data =
    rbind (teacher_tensors data) (\<lambda>ts. from_single_dict (dict_map TorchTensor ts) [] False)"

text \<open>The permutation that balances the teacher sequences, if there is one, and its inverse
  \<open>inv[perm] = arange(n)\<close>.\<close>

definition teacher_perm :: "nat \<Rightarrow> rl_batch \<Rightarrow> nat list option result" where
  "teacher_perm n_dp tb =
    (if 1 < n_dp \<and> proto_len tb mod n_dp = 0 then
       rbind (tensor tb ''attention_mask'') (\<lambda>msk.
       rbind (get_seqlen_balanced_partitions (map calculate_workload (seq_lengths msk)) n_dp True) (\<lambda>ps.
       Inr (Some (concat ps))))
     else Inr None)"

definition permute_tensors :: "nat list option \<Rightarrow> rl_batch \<Rightarrow> rl_batch" where
  "permute_tensors perm tb = (case perm of
     None \<Rightarrow> tb
   | Some p \<Rightarrow> tb\<lparr>batch := map_option (td_pick p) (batch tb)\<rparr>)"

definition inverse_perm :: "nat list \<Rightarrow> nat list" where
  "inverse_perm p = fold (\<lambda>k inv. inv[p ! k := k]) [0..<length p] (replicate (length p) 0)"

record teacher_cfg =
  micro_batch_size :: pyv
  use_dynamic_bsz :: bool
  max_token_len :: int
  pad_token_id :: "int option"

definition teacher_meta :: "teacher_cfg \<Rightarrow> (string, pyv) dict" where
  "teacher_meta cfg = [(''micro_batch_size'', micro_batch_size cfg), (''temperature'', PFloat 1),
     (''use_dynamic_bsz'', PBool (use_dynamic_bsz cfg)), (''max_token_len'', PInt (max_token_len cfg)),
     (''pad_token_id'', PInt (case pad_token_id cfg of None \<Rightarrow> 0 | Some i \<Rightarrow> i)), (''skip_entropy'', PBool True)]"

definition restore_rows :: "nat list option \<Rightarrow> 'r list \<Rightarrow> 'r list" where
  "restore_rows perm rows = (case perm of None \<Rightarrow> rows | Some p \<Rightarrow> picks rows (inverse_perm p))"

definition teacher_result :: "nat list option \<Rightarrow> rl_batch \<Rightarrow> string \<Rightarrow> rl_batch result" where
  "teacher_result perm out key =
    rbind (tensor out key) (\<lambda>log_probs.
    rbind (from_single_dict [(''teacher_log_prob'', TorchTensor log_probs)] [] False) (\<lambda>res.
    (case perm of None \<Rightarrow> Inr res
     | Some p \<Rightarrow> rbind (tensor res ''teacher_log_prob'') (\<lambda>rows. set_tensor ''teacher_log_prob'' (restore_rows perm rows) res))))"

definition compute_teacher_log_prob ::
  "(rl_batch \<Rightarrow> rl_batch result) \<Rightarrow> teacher_cfg \<Rightarrow> nat \<Rightarrow> rl_batch \<Rightarrow> rl_batch result" where
  "compute_teacher_log_prob actor cfg n_dp data =
    rbind (teacher_batch data) (\<lambda>tb.
    rbind (teacher_perm n_dp tb) (\<lambda>perm.
    rbind (actor ((permute_tensors perm tb)\<lparr>meta_info := teacher_meta cfg\<rparr>)) (\<lambda>out.
    teacher_result perm out ''old_log_probs'')))"

text \<open>OPSD asks the frozen reference policy instead, at its own temperature.\<close>

definition compute_opsd_teacher_log_prob ::
  "(rl_batch \<Rightarrow> rl_batch result) \<Rightarrow> real option \<Rightarrow> nat \<Rightarrow> rl_batch \<Rightarrow> rl_batch result" where
  "compute_opsd_teacher_log_prob ref_policy temperature n_dp data =
    rbind (teacher_batch data) (\<lambda>tb.
    let tb = tb\<lparr>meta_info := [(''temperature'', PFloat (get_or 1 temperature))]\<rparr>
    in rbind (teacher_perm n_dp tb) (\<lambda>perm.
       rbind (ref_policy (permute_tensors perm tb)) (\<lambda>out.
       teacher_result perm out ''ref_log_prob'')))"

subsection \<open>Rows of a forward pass\<close>

definition row_of :: "(string, 'r list) dict \<Rightarrow> nat \<Rightarrow> (string, 'r) dict" where
  "row_of ts i = dict_map (\<lambda>v. v ! i) ts"

text \<open>A forward pass whose result for a row depends on that row and the meta information only. The dispatcher
  splits the batch over \<open>k\<close> ranks and asserts that \<open>k\<close> divides its size, so nothing is asked of the forward pass on other sizes.\<close>

definition forward_by_row ::
  "nat \<Rightarrow> string \<Rightarrow> ((string, pyv) dict \<Rightarrow> (string, vec) dict \<Rightarrow> vec) \<Rightarrow> (rl_batch \<Rightarrow> rl_batch result) \<Rightarrow> bool" where
  "forward_by_row k key g fwd \<longleftrightarrow>
     (\<forall>d t. batch d = Some t \<and> td_wf t \<and> non_tensor_batch d = [] \<and> 0 < td_size t \<and> k dvd td_size t \<longrightarrow>
     (\<exists>out. fwd d = Inr out
       \<and> tensor out key = Inr (map (\<lambda>i. g (meta_info d) (row_of (td_tensors t) i)) [0..<td_size t])))"

lemma forward_by_rowD:
  "forward_by_row k key g fwd \<Longrightarrow> batch d = Some t \<Longrightarrow> td_wf t \<Longrightarrow> non_tensor_batch d = [] \<Longrightarrow> 0 < td_size t \<Longrightarrow> k dvd td_size t \<Longrightarrow>
    \<exists>out. fwd d = Inr out \<and> tensor out key = Inr (map (\<lambda>i. g (meta_info d) (row_of (td_tensors t) i)) [0..<td_size t])"
  by (simp add: forward_by_row_def)

lemma inverse_fold:
  assumes "distinct p" "set p \<subseteq> {..<length r}" "m \<le> length p"
  shows "length (fold (\<lambda>k r. r[p ! k := k]) [0..<m] r) = length r
    \<and> (\<forall>k < m. fold (\<lambda>k r. r[p ! k := k]) [0..<m] r ! (p ! k) = k)"
  using assms(3)
proof (induction m)
  case (Suc m)
  let ?r = "fold (\<lambda>k r. r[p ! k := k]) [0..<m] r"
  have b: "p ! k < length r" if "k < length p" for k
    using assms(2) nth_mem [OF that] by auto
  have "?r[p ! m := m] ! (p ! k) = k" if "k < Suc m" for k
  proof (cases "k = m")
    case True
    then show ?thesis using Suc b [of m] by simp
  next
    case False
    then have "p ! m \<noteq> p ! k" using that Suc.prems assms(1) by (simp add: nth_eq_iff_index_eq)
    then show ?thesis using False that Suc by simp
  qed
  then show ?case using Suc by simp
qed simp

lemma inverse_perm_inverse:
  assumes "mset p = mset [0..<n]"
  shows "length (inverse_perm p) = n" and "\<forall>j < n. inverse_perm p ! j < n \<and> p ! (inverse_perm p ! j) = j"
proof -
  have d: "distinct p" "set p = {0..<n}" and len: "length p = n"
    using assms perm_upt_iff mset_eq_length [OF assms] by auto
  have inv: "length (inverse_perm p) = n" "\<forall>k < n. inverse_perm p ! (p ! k) = k"
    using inverse_fold [of p "replicate n 0" n] d len by (auto simp: inverse_perm_def lessThan_atLeast0)
  then show "length (inverse_perm p) = n" by simp
  show "\<forall>j < n. inverse_perm p ! j < n \<and> p ! (inverse_perm p ! j) = j"
  proof (intro allI impI)
    fix j assume "j < n"
    then obtain k where "k < n" "p ! k = j" using d(2) len by (metis atLeastLessThan_iff in_set_conv_nth le0)
    then show "inverse_perm p ! j < n \<and> p ! (inverse_perm p ! j) = j" using inv(2) by auto
  qed
qed

lemma restore_inverse:
  assumes "mset p = mset [0..<n]"
  shows "restore_rows (Some p) (map (f \<circ> (!) p) [0..<n]) = map f [0..<n]"
  using inverse_perm_inverse [OF assms] by (intro nth_equalityI) (auto simp: restore_rows_def picks_def)

lemma row_of_pick: "i < length is \<Longrightarrow> row_of (td_tensors (td_pick is t)) i = row_of (td_tensors t) (is ! i)"
  by (simp add: row_of_def td_pick_def picks_def comp_def)

lemma single_tensor_batch:
  "from_single_dict [(k, TorchTensor v)] [] False
    = Inr \<lparr>batch = Some \<lparr>td_size = length v, td_tensors = [(k, v)]\<rparr>, non_tensor_batch = [], meta_info = []\<rparr>"
  by (simp add: from_single_dict_def from_dict_def mk_tensordict_def mk_proto_def check_consistency_def)

text \<open>Running the permuted batch and undoing the permutation is running the batch.\<close>

lemma teacher_forward:
  assumes "forward_by_row k key g fwd" "batch tb = Some t" "td_wf t" "td_size t = n" "non_tensor_batch tb = []" "0 < n" "k dvd n"
    and "\<forall>p. perm = Some p \<longrightarrow> mset p = mset [0..<n]"
  shows "\<exists>res. rbind (fwd ((permute_tensors perm tb)\<lparr>meta_info := m\<rparr>)) (\<lambda>out. teacher_result perm out key) = Inr res
    \<and> tensor res ''teacher_log_prob'' = Inr (map (\<lambda>i. g m (row_of (td_tensors t) i)) [0..<n])"
proof (cases perm)
  case None
  obtain out where "fwd (tb\<lparr>meta_info := m\<rparr>) = Inr out"
    "tensor out key = Inr (map (\<lambda>i. g m (row_of (td_tensors t) i)) [0..<n])"
    using forward_by_rowD [OF assms(1), of "tb\<lparr>meta_info := m\<rparr>" t] assms(2-7) by auto
  then show ?thesis
    using None by (simp add: permute_tensors_def teacher_result_def single_tensor_batch) (simp add: tensor_def dget_def)
next
  case (Some p)
  let ?f = "\<lambda>i. g m (row_of (td_tensors t) i)"
  have p: "mset p = mset [0..<n]" and len: "length p = n"
    using assms(8) Some mset_eq_length [of p "[0..<n]"] by auto
  have "map (\<lambda>i. g m (row_of (td_tensors (td_pick p t)) i)) [0..<n] = map (?f \<circ> (!) p) [0..<n]"
    using len by (intro map_cong) (auto simp: row_of_pick)
  moreover have "td_wf (td_pick p t)" "td_size (td_pick p t) = n" using assms(3) len by simp_all
  ultimately obtain out where "fwd ((permute_tensors perm tb)\<lparr>meta_info := m\<rparr>) = Inr out"
    "tensor out key = Inr (map (?f \<circ> (!) p) [0..<n])"
    using forward_by_rowD [OF assms(1), of "(permute_tensors perm tb)\<lparr>meta_info := m\<rparr>" "td_pick p t"] assms(2,5-7) Some
    by (auto simp: permute_tensors_def simp del: map_map)
  moreover have "length (restore_rows (Some p) (map (?f \<circ> (!) p) [0..<n])) = n"
    by (simp add: restore_inverse [OF p])
  ultimately show ?thesis
    using Some restore_inverse [OF p, of ?f]
    by (simp add: teacher_result_def single_tensor_batch tensor_def dget_def set_tensor_def del: map_map)
qed

text \<open>A batch whose rows have a teacher prompt, and whose masks are not negative.\<close>

definition teacher_ready :: "nat \<Rightarrow> rl_batch \<Rightarrow> bool" where
  "teacher_ready n data \<longleftrightarrow> (\<exists>t. batch data = Some t \<and> td_wf t \<and> td_size t = n \<and> 0 < n
     \<and> list_all (\<lambda>k. k \<in> set (keys (td_tensors t)))
         [''teacher_input_ids'', ''teacher_attention_mask'', ''responses'', ''response_mask'', ''attention_mask'']
     \<and> list_all (\<lambda>k. list_all (list_all (\<lambda>x. 0 \<le> x)) (the (map_of (td_tensors t) k)))
         [''teacher_attention_mask'', ''attention_mask''])"

lemma tensor_of_key:
  assumes "batch d = Some t" "td_wf t" "k \<in> set (keys (td_tensors t))"
  obtains v where "map_of (td_tensors t) k = Some v" "tensor d k = Inr v" "length v = td_size t"
proof -
  obtain v where v: "map_of (td_tensors t) k = Some v" using assms(3) by (auto simp: set_keys)
  then have "length v = td_size t"
    using assms(2) by (auto simp: td_wf_def list_all_iff dest!: map_of_SomeD)
  then show ?thesis using that [OF v] v assms(1) by (simp add: tensor_def dget_def)
qed

lemma last_n_subset: "x \<in> set (last_n k r) \<Longrightarrow> x \<in> set r"
  by (auto simp: last_n_def dest: in_set_dropD split: if_splits)

lemma teacher_batch_built:
  assumes "teacher_ready n data"
  obtains tb u where "teacher_batch data = Inr tb" "batch tb = Some u" "td_wf u" "td_size u = n" "meta_info tb = []"
    "teacher_tensors data = Inr (td_tensors u)" "proto_len tb = n" "non_tensor_batch tb = []"
    "\<exists>msk. tensor tb ''attention_mask'' = Inr msk \<and> length msk = n \<and> list_all (list_all (\<lambda>x. 0 \<le> x)) msk"
proof -
  obtain t where t: "batch data = Some t" "td_wf t" "td_size t = n" "0 < n"
    and ks: "list_all (\<lambda>k. k \<in> set (keys (td_tensors t)))
         [''teacher_input_ids'', ''teacher_attention_mask'', ''responses'', ''response_mask'', ''attention_mask'']"
    and nn: "list_all (\<lambda>k. list_all (list_all (\<lambda>x. 0 \<le> x)) (the (map_of (td_tensors t) k)))
         [''teacher_attention_mask'', ''attention_mask'']"
    using assms by (auto simp: teacher_ready_def)
  obtain pid where pid: "tensor data ''teacher_input_ids'' = Inr pid" "length pid = n"
    using tensor_of_key [OF t(1,2), of "''teacher_input_ids''"] ks t(3) by auto
  obtain pm where pm: "tensor data ''teacher_attention_mask'' = Inr pm" "length pm = n"
      "map_of (td_tensors t) ''teacher_attention_mask'' = Some pm"
    using tensor_of_key [OF t(1,2), of "''teacher_attention_mask''"] ks t(3) by auto
  obtain rs where rs: "tensor data ''responses'' = Inr rs" "length rs = n"
    using tensor_of_key [OF t(1,2), of "''responses''"] ks t(3) by auto
  obtain rm where rm: "tensor data ''response_mask'' = Inr rm" "length rm = n"
    using tensor_of_key [OF t(1,2), of "''response_mask''"] ks t(3) by auto
  obtain am where am: "tensor data ''attention_mask'' = Inr am" "length am = n"
      "map_of (td_tensors t) ''attention_mask'' = Some am"
    using tensor_of_key [OF t(1,2), of "''attention_mask''"] ks t(3) by auto
  let ?ids = "map2 (@) pid rs"
  let ?msk = "map2 (@) pm (map (last_n (mwidth rs)) am)"
  let ?ts = "[(''input_ids'', ?ids), (''attention_mask'', ?msk), (''position_ids'', map position_row ?msk),
            (''responses'', rs), (''prompts'', pid), (''response_mask'', rm)]"
  let ?u = "\<lparr>td_size = n, td_tensors = ?ts\<rparr>"
  have ts: "teacher_tensors data = Inr ?ts" using pid pm rs rm am by (simp add: teacher_tensors_def Let_def)
  have lens: "length ?ids = n" "length ?msk = n" using pid pm rs am by simp_all
  have wf: "td_wf ?u" using lens pid(2) rs(2) rm(2) by (simp add: td_wf_def wf_dict_def)
  have tb: "teacher_batch data = Inr \<lparr>batch = Some ?u, non_tensor_batch = [], meta_info = []\<rparr>"
    using lens pid(2) rs(2) rm(2)
    by (simp add: teacher_batch_def ts from_single_dict_def from_dict_def mk_tensordict_def mk_proto_def
        check_consistency_def dict_map_def)
  have "list_all (list_all (\<lambda>x. 0 \<le> x)) ?msk"
    using nn pm(3) am(3) by (auto simp: list_all_iff elim!: in_set_zipE dest!: last_n_subset)
  then show ?thesis
    using that [OF tb] wf ts lens by (simp add: tensor_def dget_def proto_len_def)
qed

lemma workloads_nonneg:
  "list_all (list_all (\<lambda>x. 0 \<le> x)) msk \<Longrightarrow> \<forall>s \<in> set (map calculate_workload (seq_lengths msk)). 0 \<le> s"
  by (auto simp: seq_lengths_def calculate_workload_def list_all_iff intro!: add_nonneg_nonneg sum_list_nonneg)

lemma teacher_perm_built:
  assumes "proto_len tb = n" "0 < n" "tensor tb ''attention_mask'' = Inr msk" "length msk = n"
    "list_all (list_all (\<lambda>x. 0 \<le> x)) msk"
  obtains perm where "teacher_perm n_dp tb = Inr perm" "\<forall>p. perm = Some p \<longrightarrow> mset p = mset [0..<n]"
proof (cases "1 < n_dp \<and> n mod n_dp = 0")
  case True
  let ?w = "map calculate_workload (seq_lengths msk)"
  have l: "length ?w = n" using assms(4) by (simp add: seq_lengths_def)
  have dvd: "n_dp dvd n" "n_dp \<le> n" using True assms(2) by (auto simp: dvd_imp_le)
  obtain ps where ps: "get_seqlen_balanced_partitions ?w n_dp True = Inr ps"
    using balanced_partitions_total [of n_dp ?w True] True dvd workloads_nonneg [OF assms(5)] unfolding l by auto
  have "mset (concat ps) = mset [0..<n]"
    using balanced_partitions_Inr(1) [OF ps] unfolding l by (simp add: is_partition_def)
  then show ?thesis
    using that [of "Some (concat ps)"] True ps assms(1,3) by (simp add: teacher_perm_def)
next
  case False
  then show ?thesis using that [of None] assms(1) by (auto simp: teacher_perm_def)
qed

lemma teacher_perm_meta [simp]: "teacher_perm k (tb\<lparr>meta_info := m\<rparr>) = teacher_perm k tb"
proof -
  have "proto_len (tb\<lparr>meta_info := m\<rparr>) = proto_len tb" by (simp add: proto_len_def split: option.splits)
  then show ?thesis by (simp add: teacher_perm_def tensor_def)
qed

text \<open>C5: The teacher log-probabilities of RLSD (current actor) and of OPSD (frozen reference) do not depend on how the
  teacher sequences were balanced. The batch has a size that the numbers of ranks of the two worker groups divide, since their
  dispatchers assert it. Then for every number of ranks that the balancing uses the call returns, in the order of the rollout, what the
  forward pass computes for each teacher row.\<close>

theorem teacher_log_prob_ignores_balancing:
  assumes "teacher_ready n data"
    and "forward_by_row k ''old_log_probs'' g actor" and "k dvd n"
    and "forward_by_row l ''ref_log_prob'' h ref_policy" and "l dvd n"
  shows "\<exists>ts res res'. teacher_tensors data = Inr ts
    \<and> compute_teacher_log_prob actor cfg n_dp data = Inr res
    \<and> tensor res ''teacher_log_prob'' = Inr (map (\<lambda>i. g (teacher_meta cfg) (row_of ts i)) [0..<n])
    \<and> compute_opsd_teacher_log_prob ref_policy temperature n_dp data = Inr res'
    \<and> tensor res' ''teacher_log_prob''
        = Inr (map (\<lambda>i. h [(''temperature'', PFloat (get_or 1 temperature))] (row_of ts i)) [0..<n])"
proof -
  obtain tb u msk where tb: "teacher_batch data = Inr tb" "batch tb = Some u" "td_wf u" "td_size u = n" "proto_len tb = n" "non_tensor_batch tb = []"
    and ts: "teacher_tensors data = Inr (td_tensors u)"
    and msk: "tensor tb ''attention_mask'' = Inr msk" "length msk = n" "list_all (list_all (\<lambda>x. 0 \<le> x)) msk"
    using teacher_batch_built [OF assms(1)] by blast
  have n: "0 < n" using assms(1) by (auto simp: teacher_ready_def)
  let ?m = "[(''temperature'', PFloat (get_or 1 temperature))]"
  obtain perm where perm: "teacher_perm n_dp tb = Inr perm" "\<forall>p. perm = Some p \<longrightarrow> mset p = mset [0..<n]"
    using teacher_perm_built [OF tb(5) n msk] .
  have "teacher_perm n_dp (tb\<lparr>meta_info := ?m\<rparr>) = Inr perm"
    using perm(1) by simp
  moreover have "permute_tensors perm (tb\<lparr>meta_info := ?m\<rparr>) = (permute_tensors perm tb)\<lparr>meta_info := ?m\<rparr>"
    by (simp add: permute_tensors_def split: option.splits)
  ultimately show ?thesis
    using teacher_forward [OF assms(2) tb(2,3,4,6) n assms(3) perm(2), of "teacher_meta cfg"]
      teacher_forward [OF assms(4) tb(2,3,4,6) n assms(5) perm(2), of ?m] tb(1) ts perm(1)
    by (simp add: compute_teacher_log_prob_def compute_opsd_teacher_log_prob_def Let_def)
qed

text \<open>What the dispatcher makes of a method that computes a row of its result from each row of its piece is such a forward pass.\<close>

definition row_worker :: "string \<Rightarrow> ((string, pyv) dict \<Rightarrow> (string, vec) dict \<Rightarrow> vec) \<Rightarrow> rl_batch \<Rightarrow> rl_batch result" where
  "row_worker key g d = (case batch d of
     None \<Rightarrow> Inl TypeError
   | Some t \<Rightarrow> from_single_dict [(key, TorchTensor (map (\<lambda>i. g (meta_info d) (row_of (td_tensors t) i)) [0..<td_size t]))] [] False)"

definition chunked_forward :: "nat \<Rightarrow> (rl_batch \<Rightarrow> rl_batch result) \<Rightarrow> rl_batch \<Rightarrow> rl_batch result" where
  "chunked_forward k work d = rbind (chunk False d k) (\<lambda>ds. rbind (rmap work ds) concat_proto)"

lemma rmap_map: "rmap f (map h xs) = rmap (f \<circ> h) xs"
  by (induction xs) auto

lemma chunked_forward_by_row:
  assumes "0 < k"
  shows "forward_by_row k key g (chunked_forward k (row_worker key g))"
  unfolding forward_by_row_def
proof (intro allI impI, elim conjE)
  fix d :: rl_batch and t
  assume d: "batch d = Some t" "td_wf t" "non_tensor_batch d = []" "0 < td_size t" "k dvd td_size t"
  let ?n = "td_size t" let ?f = "\<lambda>i. g (meta_info d) (row_of (td_tensors t) i)"
  let ?e = "\<lparr>batch = Some \<lparr>td_size = ?n, td_tensors = [(key, map ?f [0..<?n])]\<rparr>, non_tensor_batch = [], meta_info = []\<rparr> :: rl_batch"
  let ?bl = "blocks k [0..<?n]"
  have al: "aligned ?n d" using d by (simp add: aligned_def wf_dict_def)
  have ale: "aligned ?n ?e" "plain_meta ?e" by (simp_all add: aligned_def td_wf_def wf_dict_def plain_meta_def wf_meta_def)
  have dvd: "k dvd length [0..<?n]" and ne: "[0..<?n] \<noteq> []" using d(4,5) by simp_all
  have ch: "chunk False d k = Inr (map (\<lambda>js. pick js d) ?bl)"
    using chunk_pick [OF al d(4) ne assms dvd] pick_all [OF al] by simp
  have "row_worker key g (pick js d) = Inr (pick js ?e)" if "js \<in> set ?bl" for js
  proof -
    have js: "set js \<subseteq> {0..<?n}" using blocks_wf(2) [OF dvd ne that] by simp
    have "map (\<lambda>i. g (meta_info d) (row_of (td_tensors (td_pick js t)) i)) [0..<length js] = map (\<lambda>i. ?f (js ! i)) [0..<length js]"
      by (intro map_cong) (simp_all add: row_of_pick)
    also have "\<dots> = picks (map ?f [0..<?n]) js"
    proof -
      have "map ?f [0..<?n] ! j = ?f j" if "j \<in> set js" for j using js that by auto
      then show ?thesis by (intro nth_equalityI) (simp_all add: picks_def)
    qed
    finally show ?thesis using d(1) by (simp add: row_worker_def single_tensor_batch pick_def td_pick_def dict_map_def)
  qed
  then have "rmap (row_worker key g \<circ> (\<lambda>js. pick js d)) ?bl = Inr (map (\<lambda>js. pick js ?e) ?bl)"
    by (intro rmap_total) simp
  then have "rmap (row_worker key g) (map (\<lambda>js. pick js d) ?bl) = Inr (map (\<lambda>js. pick js ?e) ?bl)"
    by (simp add: rmap_map comp_def)
  moreover have "concat_proto (map (\<lambda>js. pick js ?e) ?bl) = Inr ?e"
  proof -
    have "?bl \<noteq> []" using assms by (simp add: blocks_def)
    then show ?thesis using concat_proto_picks [OF ale] concat_blocks_pick [OF dvd assms] pick_all [OF ale(1)] by metis
  qed
  ultimately have "chunked_forward k (row_worker key g) d = Inr ?e" by (simp add: chunked_forward_def ch)
  then show "\<exists>out. chunked_forward k (row_worker key g) d = Inr out \<and> tensor out key = Inr (map ?f [0..<?n])"
    by (simp add: tensor_def dget_def)
qed

definition demo_forward :: "string \<Rightarrow> rl_batch \<Rightarrow> rl_batch result" where
  "demo_forward key = chunked_forward 2 (row_worker key (\<lambda>m r. the (map_of r ''input_ids'')))"

definition demo_teacher_data :: rl_batch where
  "demo_teacher_data = \<lparr>batch = Some \<lparr>td_size = 2, td_tensors =
     [(''teacher_input_ids'', [[0, 7], [8, 9]]), (''teacher_attention_mask'', [[0, 1], [1, 1]]),
      (''responses'', [[5, 6], [3, 0]]), (''response_mask'', [[1, 1], [1, 0]]),
      (''attention_mask'', [[1, 1, 1], [1, 1, 0]])]\<rparr>, non_tensor_batch = [], meta_info = []\<rparr>"

lemma demo_forward_by_row: "forward_by_row 2 key (\<lambda>m r. the (map_of r ''input_ids'')) (demo_forward key)"
  unfolding demo_forward_def by (rule chunked_forward_by_row) simp

theorem teacher_log_prob_ignores_balancing_witness:
  "\<exists>ts res res'. teacher_tensors demo_teacher_data = Inr ts
    \<and> compute_teacher_log_prob (demo_forward ''old_log_probs'')
        \<lparr>micro_batch_size = PInt 1, use_dynamic_bsz = True, max_token_len = 4096, pad_token_id = None\<rparr> 2 demo_teacher_data = Inr res
    \<and> tensor res ''teacher_log_prob'' = Inr (map (\<lambda>i. the (map_of (row_of ts i) ''input_ids'')) [0..<2])
    \<and> compute_opsd_teacher_log_prob (demo_forward ''ref_log_prob'') (Some (1 / 2)) 2 demo_teacher_data = Inr res'
    \<and> tensor res' ''teacher_log_prob'' = Inr (map (\<lambda>i. the (map_of (row_of ts i) ''input_ids'')) [0..<2])"
proof (rule teacher_log_prob_ignores_balancing)
  show "teacher_ready 2 demo_teacher_data"
    by (simp add: teacher_ready_def demo_teacher_data_def td_wf_def wf_dict_def)
qed (rule demo_forward_by_row | simp)+

subsection \<open>Balancing keeps the batch\<close>

lemma mset_order_partition: "mset (order_partition w p) = mset p"
proof -
  have "mset (order_partition w p) = mset (sort_key (\<lambda>x. (w ! x, x)) p)"
    by (simp add: order_partition_def Let_def every_other_split del: mset_sort)
  then show ?thesis by simp
qed

lemma reorder_pick:
  assumes "aligned n d" "batch d \<noteq> None" "\<forall>i \<in> set is. i < n"
  shows "reorder d (map int is) = Inr (pick is d)"
proof -
  obtain t where t: "batch d = Some t" "td_size t = n" using assms(1,2) by (auto simp: aligned_def)
  have "dict_mapr (fancy_index (IdxInts (map int is))) (non_tensor_batch d)
      = Inr (dict_map (\<lambda>v. picks v is) (non_tensor_batch d))"
    using assms by (intro dict_mapr_total) (auto simp: aligned_def list_all_iff intro!: fancy_index_ints)
  then show ?thesis
    using t rmap_py_index [of "is" n] assms(3) by (simp add: reorder_def pick_def)
qed

lemma partition_bound: "is_partition n k ps \<Longrightarrow> p \<in> set ps \<Longrightarrow> i \<in> set p \<Longrightarrow> i < n"
  by (metis UN_I atLeastLessThan_iff is_partition_def perm_upt_iff set_concat)

lemma order_is_partition:
  "is_partition n k ps \<Longrightarrow> is_partition n k (map (order_partition w) ps)"
  by (simp add: is_partition_def mset_concat comp_def mset_order_partition cong: map_cong)

lemma concat_block:
  "\<forall>p \<in> set ps. length p = m \<Longrightarrow> i < length ps \<Longrightarrow> take m (drop (i * m) (concat ps)) = ps ! i"
proof (induction ps arbitrary: i)
  case (Cons p ps)
  then show ?case by (cases i) simp_all
qed simp

lemma log_seqlen_unbalance_total:
  assumes "is_partition (length seqlens) k ps" "0 < k" "k \<le> length seqlens"
  shows "\<exists>stats. log_seqlen_unbalance seqlens ps pre = Inr stats"
proof -
  let ?n = "length seqlens"
  have len: "length ps = k" using assms(1) by (simp add: is_partition_def)
  have bs: "?n div k \<noteq> 0" using assms(2,3) by (simp add: div_eq_0_iff)
  have "range_step ?n (?n div k) \<noteq> []"
  proof -
    have "?n div k \<le> ?n + ?n div k - 1" using assms(2,3) by simp
    then have "0 < (?n + ?n div k - 1) div (?n div k)" using bs by (simp add: div_greater_zero_iff)
    then show ?thesis by (simp add: range_step_def)
  qed
  moreover have "rmap (\<lambda>p. rbind (rmap (py_nth seqlens) p) (\<lambda>vs. Inr (sum_list vs))) ps
      = Inr (map (\<lambda>p. sum_list (picks seqlens p)) ps)"
    by (rule rmap_total) (use partition_bound [OF assms(1)] in \<open>simp add: rmap_py_nth\<close>)
  moreover have "py_min xs = Inr (Min (set xs)) \<and> py_max xs = Inr (Max (set xs))" if "xs \<noteq> []" for xs
    using that by (simp add: py_min_Inr py_max_Inr)
  ultimately show ?thesis
    using len bs assms(2) by (auto simp: log_seqlen_unbalance_def Let_def)
qed

text \<open>Balancing in the default mode reorders by the concatenation of a partition.\<close>

lemma balance_batch_pick:
  assumes "balance_batch False None k pre data = Inr (data', stats)" "aligned n data"
  obtains ps where "is_partition n k ps" "\<forall>p \<in> set ps. length p * k = n" "data' = pick (concat ps) data"
proof -
  obtain msk where msk: "tensor data ''attention_mask'' = Inr msk"
    using assms(1) by (auto simp: balance_batch_def rbind_Inr_iff)
  have b: "batch data \<noteq> None" and len: "length msk = n"
    using msk assms(2)
    by (auto simp: tensor_def aligned_def td_wf_def list_all_iff dest!: map_of_SomeD split: option.splits)
  let ?w = "map calculate_workload (seq_lengths msk)"
  have l: "length ?w = n" using len by (simp add: seq_lengths_def)
  obtain ps where ps: "get_seqlen_balanced_partitions ?w k True = Inr ps"
    and r: "reorder data (map int (concat (map (order_partition ?w) ps))) = Inr data'"
    using assms(1) msk by (auto simp: balance_batch_def balance_partitions_def Let_def rbind_Inr_iff)
  let ?ps = "map (order_partition ?w) ps"
  have part: "is_partition n k ?ps"
    using order_is_partition balanced_partitions_Inr(1) [OF ps] unfolding l by blast
  then have "\<forall>i \<in> set (concat ?ps). i < n" using partition_bound by fastforce
  then have "data' = pick (concat ?ps) data" using reorder_pick [OF assms(2) b] r by simp
  moreover have "\<forall>p \<in> set ?ps. length p * k = n"
    using balanced_partitions_Inr(3) [OF ps] l mset_eq_length [OF mset_order_partition] by simp
  ultimately show ?thesis using that part by blast
qed

lemma balanced_chunks:
  assumes "aligned n data" "is_partition n k ps" "\<forall>p \<in> set ps. length p * k = n" "0 < k" "0 < n" "k dvd n"
    "non_tensor_batch data \<noteq> [] \<or> batch data \<noteq> None"
  shows "chunk ap (pick (concat ps) data) k = Inr (map (\<lambda>p. pick p data) ps)"
proof -
  have len: "length ps = k" "length (concat ps) = n"
    using assms(2) mset_eq_length [of "concat ps" "[0..<n]"] by (auto simp: is_partition_def)
  have al: "aligned n (pick (concat ps) data)" using aligned_pick [OF assms(1,7)] len(2) by metis
  have m: "\<forall>p \<in> set ps. length p = n div k" using assms(3,4) by (metis nonzero_mult_div_cancel_right less_numeral_extra(3))
  have "pick [i * (n div k)..<Suc i * (n div k)] (pick (concat ps) data) = pick (ps ! i) data" if "i < k" for i
  proof -
    have le: "Suc i * (n div k) \<le> n"
      using mult_le_mono1 [of "Suc i" k "n div k"] that assms(6) by simp
    have "picks (concat ps) [i * (n div k)..<i * (n div k) + n div k] = ps ! i"
      using picks_block [of "i * (n div k)" "n div k" "concat ps"] le len concat_block [OF m, of i] that
      by (simp add: add.commute)
    then show ?thesis using le len(2) by (subst pick_pick) (auto simp: add.commute)
  qed
  then show ?thesis
    using chunk_equal_pieces [OF al assms(4,6,5), of ap] len(1)
    by (auto simp: list_eq_iff_nth_eq intro!: nth_equalityI)
qed

lemma balance_batch_total:
  assumes "aligned n data" "tensor data ''attention_mask'' = Inr msk" "list_all (list_all (\<lambda>x. 0 \<le> x)) msk"
    and "0 < k" "k dvd n" "0 < n"
  shows "\<exists>data' stats. balance_batch False None k pre data = Inr (data', stats)"
proof -
  have b: "batch data \<noteq> None" and len: "length msk = n"
    using assms(1,2)
    by (auto simp: tensor_def aligned_def td_wf_def list_all_iff dest!: map_of_SomeD split: option.splits)
  let ?w = "map calculate_workload (seq_lengths msk)"
  have l: "length ?w = n" "length (seq_lengths msk) = n" using len by (simp_all add: seq_lengths_def)
  have le: "k \<le> n" using assms(5,6) by (rule dvd_imp_le)
  obtain ps where ps: "get_seqlen_balanced_partitions ?w k True = Inr ps"
    using balanced_partitions_total [of k ?w True] assms(4,5) le workloads_nonneg [OF assms(3)] unfolding l by auto
  let ?ps = "map (order_partition ?w) ps"
  have part: "is_partition n k ?ps"
    using order_is_partition balanced_partitions_Inr(1) [OF ps] unfolding l by blast
  then have "\<forall>i \<in> set (concat ?ps). i < n" using partition_bound by fastforce
  then have "reorder data (map int (concat ?ps)) = Inr (pick (concat ?ps) data)" by (rule reorder_pick [OF assms(1) b])
  moreover obtain stats where "log_seqlen_unbalance (seq_lengths msk) ?ps pre = Inr stats"
    using log_seqlen_unbalance_total [of "seq_lengths msk" k ?ps pre] part assms(4) le unfolding l by blast
  ultimately show ?thesis
    using assms(2) ps by (simp add: balance_batch_def balance_partitions_def Let_def)
qed

text \<open>C21: In the default mode (no prefix grouper, mini-batches not kept together) balancing an aligned batch with an attention mask
  never raises when the ranks divide it, and the equal chunks that the dispatcher later
  cuts from it are, rank by rank, the rows of one part each of a partition of the batch into parts of
  equal size: no row is lost, duplicated or separated from its other columns.\<close>

theorem balanced_chunks_are_partition:
  assumes "aligned n data" "tensor data ''attention_mask'' = Inr msk" "list_all (list_all (\<lambda>x. 0 \<le> x)) msk"
    and "0 < k" "k dvd n" "0 < n"
  shows "\<exists>ps data' stats. balance_batch False None k pre data = Inr (data', stats)
    \<and> length ps = k \<and> distinct (concat ps) \<and> set (concat ps) = {0..<n} \<and> list_all (\<lambda>p. length p * k = n) ps
    \<and> chunk ap data' k = Inr (map (\<lambda>p. pick p data) ps)"
proof -
  obtain data' stats where bb: "balance_batch False None k pre data = Inr (data', stats)"
    using balance_batch_total [OF assms] by blast
  obtain ps where ps: "is_partition n k ps" "\<forall>p \<in> set ps. length p * k = n" and d: "data' = pick (concat ps) data"
    using balance_batch_pick [OF bb assms(1)] .
  have "batch data \<noteq> None" using assms(2) by (auto simp: tensor_def split: option.splits)
  then have "chunk ap data' k = Inr (map (\<lambda>p. pick p data) ps)"
    unfolding d using balanced_chunks [OF assms(1) ps assms(4,6,5)] by blast
  then show ?thesis
    using bb ps perm_upt_iff by (auto simp: is_partition_def list_all_iff)
qed

definition demo_balance_data :: rl_batch where
  "demo_balance_data = \<lparr>batch = Some \<lparr>td_size = 4, td_tensors =
     [(''attention_mask'', [[1, 1, 1], [1, 0, 0], [1, 1, 0], [1, 1, 1]]), (''response_mask'', [[1, 1], [1, 0], [1, 0], [1, 1]]),
      (''token_level_rewards'', [[0, 1], [2, 0], [0, 0], [0, 3]])]\<rparr>,
     non_tensor_batch = [(''uid'', [PStr ''a'', PStr ''a'', PStr ''b'', PStr ''b''])], meta_info = []\<rparr>"

lemma demo_balance_aligned: "aligned 4 demo_balance_data"
  and demo_balance_mask: "tensor demo_balance_data ''attention_mask'' = Inr [[1, 1, 1], [1, 0, 0], [1, 1, 0], [1, 1, 1]]"
  by (simp_all add: aligned_def td_wf_def wf_dict_def demo_balance_data_def tensor_def)

theorem balanced_chunks_are_partition_witness:
  "\<exists>ps data' stats. balance_batch False None 2 ''global_seqlen'' demo_balance_data = Inr (data', stats)
    \<and> length ps = 2 \<and> distinct (concat ps) \<and> set (concat ps) = {0..<4} \<and> list_all (\<lambda>p. length p * 2 = 4) ps
    \<and> chunk False data' 2 = Inr (map (\<lambda>p. pick p demo_balance_data) ps)"
  by (rule balanced_chunks_are_partition [OF demo_balance_aligned demo_balance_mask]) simp_all

text \<open>Keeping mini-batches together is undone by the ordering inside each partition: with one rank and mini-batches of two, the rows
  \<open>0, 1\<close> of the first mini-batch end up in different ones.\<close>

lemma keep_minibatch_partition:
  "minibatch_partitions (map calculate_workload [3, 4, 1, 2]) 2 1 = Inr [[0, 1, 2, 3]]"
  by code_simp

lemma keep_minibatch_is_undone:
  "\<exists>ps. balance_partitions False (Some 2) 1 [3, 4, 1, 2] None = Inr ps
    \<and> map (order_partition (map calculate_workload [3, 4, 1, 2])) ps = [[2, 0, 1, 3]]"
proof -
  have "map (order_partition (map calculate_workload [3, 4, 1, 2])) [[0, 1, 2, 3]] = [[2, 0, 1, 3]]" by code_simp
  then show ?thesis using keep_minibatch_partition by (simp add: balance_partitions_def Let_def)
qed

subsection \<open>Advantages do not depend on the order of the batch\<close>

lemma group_mean_and_std_mset:
  assumes "mset xs = mset ys"
  shows "group_mean_and_std xs = group_mean_and_std ys"
proof -
  have l: "length xs = length ys" using assms by (rule mset_eq_length)
  have s: "sum_list (map f xs) = sum_list (map f ys)" for f :: "real \<Rightarrow> real"
    using assms by (metis mset_map sum_mset_sum_list)
  have "vmean xs = vmean ys" using s [of "\<lambda>x. x"] l by (simp add: vmean_def)
  then show ?thesis using s l by (simp add: group_mean_and_std_def vstd_def)
qed

lemma picks_zip: "\<forall>i \<in> set p. i < length xs \<and> i < length ys \<Longrightarrow> zip (picks xs p) (picks ys p) = picks (zip xs ys) p"
  by (induction p) (simp_all add: picks_def)

lemma permuted_group:
  assumes "mset p = mset [0..<n]" "length index = n" "length s = n"
  shows "mset (map ((!) (picks s p)) (members (picks index p) n g)) = mset (map ((!) s) (members index n g))"
proof -
  have p: "set p = {0..<n}" "length p = n" using perm_upt_iff [of p n] mset_eq_length [OF assms(1)] assms(1) by auto
  have "mset (zip (picks index p) (picks s p)) = mset (zip index s)"
    using picks_zip [of p index s] p assms by (simp add: mset_picks_perm)
  then show ?thesis
    using filter_zip_members [of "picks index p" "picks s p" g] filter_zip_members [of index s g] assms(2,3) p(2)
    by (metis length_picks mset_filter mset_map)
qed

lemma grpo_pick:
  assumes "mset p = mset [0..<n]" "length R = n" "length M = n" "length index = n" "0 < eps"
    and "compute_grpo_outcome_advantage R M index eps norm_std = Inr (A, Ret)"
  shows "compute_grpo_outcome_advantage (picks R p) (picks M p) (picks index p) eps norm_std = Inr (picks A p, picks A p)"
    and "Ret = A" and "length A = n"
proof -
  have p: "\<forall>i \<in> set p. i < n" "length p = n" using perm_upt_iff [of p n] mset_eq_length [OF assms(1)] assms(1) by auto
  let ?s = "row_sums R" and ?G = "\<lambda>i. members index n (index ! i)"
  obtain a where a: "A = scale_rows a M" "Ret = A" "length a = n"
    and av: "\<And>i. i < n \<Longrightarrow> \<exists>m s. group_mean_and_std (map ((!) ?s) (?G i)) = Inr (m, s)
      \<and> (if norm_std then tdiv (?s ! i - m) (s + eps) else Inr (?s ! i - m)) = Inr (a ! i)"
    using grpo_scalars [OF assms(6)] assms(2) by metis
  show "Ret = A" "length A = n" using a assms(3) by (simp_all add: scale_rows_def)
  obtain B Ret' where B: "compute_grpo_outcome_advantage (picks R p) (picks M p) (picks index p) eps norm_std = Inr (B, Ret')"
    using grpo_total [OF _ assms(5), of "picks R p" "picks index p"] by (metis length_picks order_refl)
  have rs: "row_sums (picks R p) = picks ?s p" using p assms(2) by (simp add: row_sums_def picks_map)
  let ?G' = "\<lambda>i. members (picks index p) n (picks index p ! i)"
  obtain b where b: "B = scale_rows b (picks M p)" "Ret' = B" "length b = n"
    and bv: "\<And>i. i < n \<Longrightarrow> \<exists>m s. group_mean_and_std (map ((!) (picks ?s p)) (?G' i)) = Inr (m, s)
      \<and> (if norm_std then tdiv (picks ?s p ! i - m) (s + eps) else Inr (picks ?s p ! i - m)) = Inr (b ! i)"
    using grpo_scalars [OF B] p(2) rs by (metis length_picks)
  have "b ! i = a ! (p ! i)" if i: "i < n" for i
  proof -
    have pi: "p ! i < n" using p i by simp
    have "picks index p ! i = index ! (p ! i)" "picks ?s p ! i = ?s ! (p ! i)"
      using i p(2) by (simp_all add: picks_def)
    moreover have "group_mean_and_std (map ((!) (picks ?s p)) (?G' i)) = group_mean_and_std (map ((!) ?s) (?G (p ! i)))"
      using permuted_group [OF assms(1,4), of ?s] calculation(1) assms(2)
      by (simp add: group_mean_and_std_mset row_sums_def)
    ultimately show ?thesis using av [OF pi] bv [OF i] by (auto split: if_splits)
  qed
  then have "b = picks a p" using b(3) p(2) by (intro nth_equalityI) (simp_all add: picks_def)
  then have "B = picks A p"
    using a b(1) p assms(3) by (intro nth_equalityI) (simp_all add: scale_rows_def picks_def)
  then show "compute_grpo_outcome_advantage (picks R p) (picks M p) (picks index p) eps norm_std = Inr (picks A p, picks A p)"
    using B b(2) by simp
qed

lemma tensor_pick: "tensor d k = Inr v \<Longrightarrow> tensor (pick is d) k = Inr (picks v is)"
  by (auto simp: tensor_def td_pick_def dget_def split: option.splits)

lemma tensor_length: "aligned n d \<Longrightarrow> tensor d k = Inr v \<Longrightarrow> length v = n \<and> batch d \<noteq> None"
  by (auto simp: tensor_def aligned_def td_wf_def list_all_iff dest!: map_of_SomeD split: option.splits)

lemma dict_map_update: "dict_map f (AList.update k v d) = AList.update k (f v) (dict_map f d)"
  by (induction d) (auto simp: dict_map_def)

lemma set_tensor_pick:
  "set_tensor k v d = Inr e \<Longrightarrow> set_tensor k (picks v is) (pick is d) = Inr (pick is e)"
  by (auto simp: set_tensor_def rbind_Inr_iff td_pick_def pick_def dict_map_update split: option.splits)

lemma has_tensor_pick [simp]: "has_tensor (pick is d) k = has_tensor d k"
  by (simp add: has_tensor_def split: option.splits)

lemma grpo_advantage_pick:
  assumes "compute_advantage reg pf GRPO gamma lam norm_std config data = Inr e"
    and "aligned n data" "has_tensor data ''response_mask''" "mset p = mset [0..<n]"
  shows "compute_advantage reg pf GRPO gamma lam norm_std config (pick p data) = Inr (pick p e)"
proof -
  obtain M R index A Ret where M: "tensor data ''response_mask'' = Inr M"
    and R: "tensor data ''token_level_rewards'' = Inr R"
    and index: "map_of (non_tensor_batch data) ''uid'' = Some index"
    and A: "compute_grpo_outcome_advantage R M index (1 / 10 ^ 6) norm_std = Inr (A, Ret)"
    and e: "store_advantages data (A, Ret) = Inr e"
    using assms(1,3) by (auto simp: compute_advantage_def rbind_Inr_iff)
  have "length index = n"
    using index assms(2) by (auto simp: aligned_def list_all_iff dest!: map_of_SomeD)
  then have B: "compute_grpo_outcome_advantage (picks R p) (picks M p) (picks index p) (1 / 10 ^ 6) norm_std
      = Inr (picks A p, picks A p)" and AR: "Ret = A"
    using grpo_pick [OF assms(4) _ _ _ _ A] tensor_length [OF assms(2)] M R by auto
  have "store_advantages (pick p data) (picks A p, picks A p) = Inr (pick p e)"
    using e AR by (auto simp: store_advantages_def rbind_Inr_iff dest: set_tensor_pick)
  then show ?thesis
    using B assms(3) tensor_pick [OF M, of p] tensor_pick [OF R, of p] index
    by (simp add: compute_advantage_def dget_def)
qed

text \<open>C17: Balancing before the advantages are computed does not affect them: GRPO on the balanced batch gives the balanced
  batch of the advantages, row for row, because scores are compared within their \<open>uid\<close> only.\<close>

theorem grpo_ignores_balancing:
  assumes "aligned n data" "has_tensor data ''response_mask''"
    and "balance_batch False None k pre data = Inr (data', stats)"
    and "compute_advantage reg pf GRPO gamma lam norm_std config data = Inr e"
  shows "\<exists>p. distinct p \<and> set p = {0..<n} \<and> data' = pick p data
    \<and> compute_advantage reg pf GRPO gamma lam norm_std config data' = Inr (pick p e)"
proof -
  obtain ps where ps: "is_partition n k ps" and d: "data' = pick (concat ps) data"
    using balance_batch_pick [OF assms(3,1)] by metis
  have "mset (concat ps) = mset [0..<n]" using ps by (simp add: is_partition_def)
  then show ?thesis
    using grpo_advantage_pick [OF assms(4,1,2)] d perm_upt_iff by metis
qed

theorem grpo_ignores_balancing_witness:
  "\<exists>data' stats e p. balance_batch False None 2 ''global_seqlen'' demo_balance_data = Inr (data', stats)
    \<and> compute_advantage [] Inr GRPO 1 1 True None demo_balance_data = Inr e
    \<and> distinct p \<and> set p = {0..<4} \<and> data' = pick p demo_balance_data
    \<and> compute_advantage [] Inr GRPO 1 1 True None data' = Inr (pick p e)"
proof -
  obtain data' stats where b: "balance_batch False None 2 ''global_seqlen'' demo_balance_data = Inr (data', stats)"
    using balance_batch_total [OF demo_balance_aligned demo_balance_mask, of 2] by fastforce
  have m: "has_tensor demo_balance_data ''response_mask''" by (simp add: has_tensor_def demo_balance_data_def)
  obtain A Ret where "compute_grpo_outcome_advantage [[0, 1], [2, 0], [0, 0], [0, 3]] [[1, 1], [1, 0], [1, 0], [1, 1]]
      [PStr ''a'', PStr ''a'', PStr ''b'', PStr ''b''] (1 / 10 ^ 6) True = Inr (A, Ret)"
    using grpo_total [of "[[0, 1], [2, 0], [0, 0], [0, 3]]" "[PStr ''a'', PStr ''a'', PStr ''b'', PStr ''b'']" "1 / 10 ^ 6"]
    by force
  moreover from this have "length A = 4" "Ret = A"
    using grpo_pick(2,3) [of "[0..<4]" 4, OF _ _ _ _ _ calculation] by simp_all
  ultimately have "\<exists>e. compute_advantage [] Inr GRPO 1 1 True None demo_balance_data = Inr e"
    using m by (simp add: compute_advantage_def demo_balance_data_def tensor_def dget_def store_advantages_def set_tensor_def)
  then obtain e where e: "compute_advantage [] Inr GRPO 1 1 True None demo_balance_data = Inr e" ..
  then show ?thesis
    using b grpo_ignores_balancing [OF demo_balance_aligned m b e] by blast
qed

subsection \<open>The optimal token baselines cannot be called\<close>

lemma otb_signature:
  assumes "est = OPTIMAL_TOKEN_BASELINE \<or> est = TIR_OPTIMAL_TOKEN_BASELINE"
  shows "\<exists>f. get_adv_estimator_fn (Member est) (adv_registry topk) = Inr f
    \<and> required f = outcome_args @ [''old_log_probs'', ''sum_pi_squared'']"
  using assms by (auto simp: get_adv_estimator_fn_def adv_registry_def adv_estimators_def dget_def)

lemma advantage_kwargs_keys:
  "advantage_kwargs data est config = Inr kw \<Longrightarrow> ''old_log_probs'' \<notin> set (keys kw) \<and> ''config'' \<in> set (keys kw)"
  by (auto simp: advantage_kwargs_def rbind_Inr_iff Let_def split: if_splits option.splits sum.splits)

lemma otb_raises:
  assumes "est = OPTIMAL_TOKEN_BASELINE \<or> est = TIR_OPTIMAL_TOKEN_BASELINE"
  shows "isl (compute_advantage (adv_registry topk) pf est gamma lam norm_std config data)"
proof -
  obtain f where f: "get_adv_estimator_fn (Member est) (adv_registry topk) = Inr f"
    "required f = outcome_args @ [''old_log_probs'', ''sum_pi_squared'']"
    using otb_signature [OF assms] by blast
  have "isl (rbind (advantage_kwargs d est config) (\<lambda>kw. rbind (call_adv_fn f kw) (store_advantages d)))" for d
    using f(2) advantage_kwargs_keys [of d est config]
    by (cases "advantage_kwargs d est config") (auto simp: call_adv_fn_def)
  moreover have "isl (rbind m h)" if "\<And>d. isl (h d)" for m :: "rl_batch result" and h :: "rl_batch \<Rightarrow> rl_batch result"
    using that by (cases m) auto
  ultimately show ?thesis using assms f(1) by (auto simp: compute_advantage_def)
qed

text \<open>Both optimal-token-baseline estimators need \<open>old_log_probs\<close>, which \<open>compute_advantage\<close> never passes: with either of
  them it raises on every batch.\<close>

theorem otb_estimators_always_raise:
  "isl (compute_advantage (adv_registry topk) pf OPTIMAL_TOKEN_BASELINE gamma lam norm_std config data)
   \<and> isl (compute_advantage (adv_registry topk) pf TIR_OPTIMAL_TOKEN_BASELINE gamma lam norm_std config data)"
  using otb_raises by blast

text \<open>Estimators over outcome rewards get the tensors of the batch and its \<open>uid\<close>.\<close>

lemma outcome_estimators_dispatched:
  assumes "tensor data ''response_mask'' = Inr M" "tensor data ''token_level_rewards'' = Inr R"
    and "map_of (non_tensor_batch data) ''uid'' = Some us" "has_tensor data ''response_mask''"
  shows "compute_advantage (adv_registry topk) pf RLOO gamma lam ns config data
      = rbind (compute_rloo_outcome_advantage R M us) (store_advantages data)"
    and "compute_advantage (adv_registry topk) pf OPO gamma lam ns config data
      = rbind (compute_opo_outcome_advantage R M us) (store_advantages data)"
    and "compute_advantage (adv_registry topk) pf REINFORCE_PLUS_PLUS_BASELINE gamma lam ns config data
      = rbind (compute_reinforce_plus_plus_baseline_outcome_advantage R M us) (store_advantages data)"
  using assms
  by (cases "tensor data ''reward_baselines''";
      simp add: compute_advantage_def get_adv_estimator_fn_def adv_registry_def adv_estimators_def
        advantage_kwargs_def Let_def call_adv_fn_def indexed_def arg_def)+

end
