(* ===== verification/AgentLoop.thy ===== *)
theory AgentLoop
  imports PyString PyValue Protocol Tensor
begin

section \<open>The tool agent loop\<close>

text \<open>
  \<open>experimental/agent_loop/tool_agent_loop.py\<close>: the state machine that alternates model turns with tool calls or
  an interaction and collects one trajectory. The model server, tokenizer, chat template, tool
  parser, tools and interaction are functions in a record \<open>agent_env\<close>; they may depend on the whole
  state of the conversation, so each of them may answer differently at every turn. Media preprocessing, routed experts and
  timing are left out. A tool whose creation or execution raises is the left value with the text of the
  exception, and a tool does not change the conversation itself.
\<close>

subsection \<open>Data\<close>

record token_output =
  token_ids :: "int list"
  log_probs :: "real list option"
  num_preempted :: "int option"

record function_call =
  call_name :: string
  call_arguments :: string

record 'i tool_response =
  tr_text :: "string option"
  tr_image :: "'i list option"
  tr_video :: "'i list option"

datatype part = ImagePart | VideoPart | TextPart string

datatype msg_content = Plain string | Parts "part list"

record message =
  role :: string
  content :: msg_content

datatype agent_state = PENDING | GENERATING | PROCESSING_TOOLS | TERMINATED | INTERACTING

record 'i agent_data =
  messages :: "message list"
  image_data :: "'i list option"
  prompt_ids :: "int list"
  response_ids :: "int list"
  response_mask :: "nat list"
  response_logprobs :: "real list"
  turn_scores :: "real list"
  tool_rewards :: "real list"
  user_turns :: nat
  assistant_turns :: nat
  tool_calls :: "function_call list"
  preempted :: "int option"

definition new_agent_data :: "message list \<Rightarrow> 'i list option \<Rightarrow> 'i agent_data" where
  "new_agent_data msgs images = \<lparr>messages = msgs, image_data = images, prompt_ids = [], response_ids = [], response_mask = [],
     response_logprobs = [], turn_scores = [], tool_rewards = [], user_turns = 0, assistant_turns = 0, tool_calls = [],
     preempted = None\<rparr>"

record agent_cfg =
  max_user_turns :: "nat option"
  max_assistant_turns :: "nat option"
  max_parallel_calls :: nat
  max_tool_response_length :: nat
  tool_response_truncate_side :: string
  tool_parser_name :: string
  response_length :: nat
  has_interaction :: bool
  has_image_processor :: bool

record 'i agent_env =
  server_generate :: "'i agent_data \<Rightarrow> token_output"
  parse_tool_calls :: "int list \<Rightarrow> function_call list"
  chat_template :: "message list \<Rightarrow> 'i list option \<Rightarrow> int list"
  system_prompt :: "int list"
  encode :: "string \<Rightarrow> int list"
  decode :: "int list \<Rightarrow> string"
  repr_parts :: "part list \<Rightarrow> string"
  json_loads :: "string \<Rightarrow> string + pyv"
  tools :: "(string, 'i agent_data \<Rightarrow> pyv \<Rightarrow> string + ('i tool_response \<times> real option)) dict"
  interact :: "'i agent_data \<Rightarrow> bool \<times> string \<times> real option"

definition apply_chat_template :: "'i agent_env \<Rightarrow> message list \<Rightarrow> 'i list option \<Rightarrow> bool \<Rightarrow> int list" where
  "apply_chat_template env msgs images remove_system_prompt =
    (let ids = chat_template env msgs images in if remove_system_prompt then drop (length (system_prompt env)) ids else ids)"

subsection \<open>Calling a tool\<close>

definition truncate_tool_text :: "agent_cfg \<Rightarrow> string \<Rightarrow> string" where
  "truncate_tool_text cfg t =
    (let m = max_tool_response_length cfg
     in if length t \<le> m then t
        else if tool_response_truncate_side cfg = ''left'' then take m t @ ''...(truncated)''
        else if tool_response_truncate_side cfg = ''right'' then ''(truncated)...'' @ last_n m t
        else take (m div 2) t @ ''...(truncated)...'' @ last_n (m div 2) t)"

definition failed_call :: "string \<Rightarrow> 'i tool_response \<times> real option" where
  "failed_call e = (\<lparr>tr_text = Some (''Error when executing tool: '' @ e), tr_image = None, tr_video = None\<rparr>, Some 0)"

definition call_tool :: "'i agent_env \<Rightarrow> agent_cfg \<Rightarrow> 'i agent_data \<Rightarrow> function_call \<Rightarrow> 'i tool_response \<times> real option" where
  "call_tool env cfg d c =
    (case json_loads env (call_arguments c) of
       Inl e \<Rightarrow> failed_call e
     | Inr args \<Rightarrow> (case map_of (tools env) (call_name c) of
         None \<Rightarrow> failed_call ([CHR 0x27] @ call_name c @ [CHR 0x27])
       | Some tool \<Rightarrow> (case tool d args of
           Inl e \<Rightarrow> failed_call e
         | Inr (r, reward) \<Rightarrow> (r\<lparr>tr_text := map_option (truncate_tool_text cfg) (tr_text r)\<rparr>, reward))))"

subsection \<open>The handlers\<close>

definition handle_pending_state :: "'i agent_env \<Rightarrow> 'i agent_data \<Rightarrow> agent_state \<times> 'i agent_data" where
  "handle_pending_state env d =
    (GENERATING, d\<lparr>prompt_ids := apply_chat_template env (messages d) (image_data d) False\<rparr>)"

text \<open>\<open>if limit and turns >= limit\<close>.\<close>

definition turns_reached :: "nat option \<Rightarrow> nat \<Rightarrow> bool" where
  "turns_reached limit turns = (case limit of None \<Rightarrow> False | Some m \<Rightarrow> m \<noteq> 0 \<and> m \<le> turns)"

definition count_preempted :: "int option \<Rightarrow> int option \<Rightarrow> int option" where
  "count_preempted sofar new = (case sofar of
     None \<Rightarrow> Some (case new of None \<Rightarrow> - 1 | Some k \<Rightarrow> k)
   | Some n \<Rightarrow> Some (n + (case new of None \<Rightarrow> 0 | Some k \<Rightarrow> k)))"

definition record_turn :: "token_output \<Rightarrow> 'i agent_data \<Rightarrow> 'i agent_data" where
  "record_turn out d = d\<lparr>preempted := count_preempted (preempted d) (num_preempted out),
     assistant_turns := assistant_turns d + 1,
     response_ids := token_ids out,
     prompt_ids := prompt_ids d @ token_ids out,
     response_mask := response_mask d @ replicate (length (token_ids out)) 1,
     response_logprobs := response_logprobs d @ (case log_probs out of None \<Rightarrow> [] | Some l \<Rightarrow> l)\<rparr>"

definition handle_generating_state :: "'i agent_env \<Rightarrow> agent_cfg \<Rightarrow> 'i agent_data \<Rightarrow> agent_state \<times> 'i agent_data" where
  "handle_generating_state env cfg d0 =
    (let d = record_turn (server_generate env d0) d0
     in if response_length cfg \<le> length (response_mask d) then (TERMINATED, d)
        else if turns_reached (max_assistant_turns cfg) (assistant_turns d) then (TERMINATED, d)
        else if turns_reached (max_user_turns cfg) (user_turns d) then (TERMINATED, d)
        else let d = d\<lparr>tool_calls := parse_tool_calls env (response_ids d)\<rparr>;
                 d = (if has_interaction cfg
                      then d\<lparr>messages := messages d @ [\<lparr>role = ''assistant'', content = Plain (decode env (response_ids d))\<rparr>]\<rparr>
                      else d)
             in (if tool_calls d \<noteq> [] then PROCESSING_TOOLS else if has_interaction cfg then INTERACTING else TERMINATED, d))"

definition append_observation :: "int list \<Rightarrow> 'i agent_data \<Rightarrow> 'i agent_data" where
  "append_observation ids d = d\<lparr>prompt_ids := prompt_ids d @ ids,
     response_mask := response_mask d @ replicate (length ids) 0,
     response_logprobs := response_logprobs d @ (if response_logprobs d = [] then [] else replicate (length ids) 0)\<rparr>"

definition has_items :: "'a list option \<Rightarrow> bool" where
  "has_items xs = (case xs of None \<Rightarrow> False | Some ys \<Rightarrow> ys \<noteq> [])"

definition text_or_empty :: "string option \<Rightarrow> string" where
  "text_or_empty t = (case t of None \<Rightarrow> '''' | Some s \<Rightarrow> s)"

definition tool_message :: "agent_cfg \<Rightarrow> 'i tool_response \<Rightarrow> message result" where
  "tool_message cfg r =
    (if has_items (tr_image r) \<or> has_items (tr_video r) then
       rbind (ensure ValueError (has_image_processor cfg)) (\<lambda>_.
       Inr \<lparr>role = ''tool'', content = Parts ((if has_items (tr_image r) then [ImagePart] else [])
         @ (if has_items (tr_video r) then [VideoPart] else [])
         @ (if text_or_empty (tr_text r) = '''' then [] else [TextPart (text_or_empty (tr_text r))]))\<rparr>)
     else Inr \<lparr>role = ''tool'', content = Plain (text_or_empty (tr_text r))\<rparr>)"

text \<open>One response: its message, its images and its reward.\<close>

definition process_tool_response ::
  "agent_cfg \<Rightarrow> 'i tool_response \<times> real option \<Rightarrow> (message list \<times> 'i list \<times> real list) \<Rightarrow> (message list \<times> 'i list \<times> real list) result" where
  "process_tool_response cfg = (\<lambda>(r, reward) (msgs, images, rewards).
    rbind (tool_message cfg r) (\<lambda>m.
    rbind (ensure NotImplementedError (\<not> has_items (tr_video r))) (\<lambda>_.
    Inr (msgs @ [m], images @ (case tr_image r of None \<Rightarrow> [] | Some is \<Rightarrow> is),
         rewards @ (case reward of None \<Rightarrow> [] | Some x \<Rightarrow> [x])))))"

definition format_gpt_oss_tool_response_manually :: "string \<Rightarrow> string \<Rightarrow> string" where
  "format_gpt_oss_tool_response_manually response name =
    ''<|start|>functions.'' @ name @ '' to=assistant<|channel|>commentary<|message|>'' @ response @ ''<|end|>''"

definition add_generation_prompt_for_gpt_oss :: "string \<Rightarrow> string" where
  "add_generation_prompt_for_gpt_oss text = text @ ''<|start|>assistant''"

definition build_gpt_oss_tool_response_text :: "(part list \<Rightarrow> string) \<Rightarrow> message list \<Rightarrow> string list \<Rightarrow> string result" where
  "build_gpt_oss_tool_response_text repr msgs names =
    rbind (rmap (\<lambda>(i, m). rbind (py_nth names i) (\<lambda>n.
        Inr (format_gpt_oss_tool_response_manually (case content m of Plain t \<Rightarrow> t | Parts ps \<Rightarrow> repr ps) n)))
      (zip [0..<length msgs] msgs)) (\<lambda>ts.
    Inr (add_generation_prompt_for_gpt_oss (concat ts)))"

definition handle_processing_tools_state ::
  "'i agent_env \<Rightarrow> agent_cfg \<Rightarrow> 'i agent_data \<Rightarrow> (agent_state \<times> 'i agent_data) result" where
  "handle_processing_tools_state env cfg d =
    (let calls = take (max_parallel_calls cfg) (tool_calls d);
         responses = map (call_tool env cfg d) calls
     in rbind (rfold (process_tool_response cfg) responses ([], [], [])) (\<lambda>(add_messages, new_images, rewards).
        let d = d\<lparr>messages := messages d @ add_messages, tool_rewards := tool_rewards d @ rewards\<rparr>
        in rbind (if tool_parser_name cfg = ''gpt-oss''
                  then rbind (build_gpt_oss_tool_response_text (repr_parts env) add_messages (map call_name calls)) (\<lambda>t. Inr (encode env t))
                  else Inr (apply_chat_template env add_messages (Some new_images) True)) (\<lambda>ids.
           if response_length cfg \<le> length (response_mask d) + length ids then Inr (TERMINATED, d)
           else Inr (GENERATING, (append_observation ids d)\<lparr>
             image_data := (if new_images = [] then image_data d
               else Some ((case image_data d of None \<Rightarrow> [] | Some is \<Rightarrow> is) @ new_images)),
             user_turns := user_turns d + 1\<rparr>))))"

definition handle_interacting_state :: "'i agent_env \<Rightarrow> 'i agent_data \<Rightarrow> agent_state \<times> 'i agent_data" where
  "handle_interacting_state env d =
    (case interact env d of (stop, text, reward) \<Rightarrow>
       let m = \<lparr>role = ''user'', content = Plain text\<rparr>;
           d = d\<lparr>user_turns := user_turns d + 1, messages := messages d @ [m],
             turn_scores := turn_scores d @ (case reward of None \<Rightarrow> [] | Some x \<Rightarrow> [x])\<rparr>;
           d = append_observation (apply_chat_template env [m] None True) d
       in (if stop then TERMINATED else GENERATING, d))"

subsection \<open>The loop\<close>

definition agent_step :: "'i agent_env \<Rightarrow> agent_cfg \<Rightarrow> agent_state \<Rightarrow> 'i agent_data \<Rightarrow> (agent_state \<times> 'i agent_data) result" where
  "agent_step env cfg s d = (case s of
     PENDING \<Rightarrow> Inr (handle_pending_state env d)
   | GENERATING \<Rightarrow> Inr (handle_generating_state env cfg d)
   | PROCESSING_TOOLS \<Rightarrow> handle_processing_tools_state env cfg d
   | INTERACTING \<Rightarrow> Inr (handle_interacting_state env d)
   | TERMINATED \<Rightarrow> Inr (TERMINATED, d))"

partial_function (option) agent_loop ::
  "'i agent_env \<Rightarrow> agent_cfg \<Rightarrow> agent_state \<Rightarrow> 'i agent_data \<Rightarrow> 'i agent_data result option" where
  "agent_loop env cfg s d =
    (if s = TERMINATED then Some (Inr d)
     else case agent_step env cfg s d of Inl e \<Rightarrow> Some (Inl e) | Inr (s', d') \<Rightarrow> agent_loop env cfg s' d')"

declare agent_loop.simps [code]

record agent_output =
  out_prompt_ids :: "int list"
  out_response_ids :: "int list"
  out_response_mask :: "nat list"
  out_response_logprobs :: "real list option"
  num_turns :: nat
  out_preempted :: "int option"
  out_turn_scores :: "real list"
  out_tool_rewards :: "real list"

definition finalize_output :: "agent_cfg \<Rightarrow> 'i agent_data \<Rightarrow> agent_output" where
  "finalize_output cfg d =
    (let n = length (response_mask d); R = response_length cfg
     in \<lparr>out_prompt_ids = take (length (prompt_ids d) - n) (prompt_ids d),
         out_response_ids = take R (last_n n (prompt_ids d)),
         out_response_mask = take R (response_mask d),
         out_response_logprobs = (if response_logprobs d = [] then None else Some (take R (response_logprobs d))),
         num_turns = user_turns d + assistant_turns d + 1,
         out_preempted = preempted d, out_turn_scores = turn_scores d, out_tool_rewards = tool_rewards d\<rparr>)"

definition run_tool_agent ::
  "'i agent_env \<Rightarrow> agent_cfg \<Rightarrow> message list \<Rightarrow> 'i list option \<Rightarrow> agent_output result option" where
  "run_tool_agent env cfg msgs images =
    map_option (\<lambda>r. rbind r (\<lambda>d. Inr (finalize_output cfg d))) (agent_loop env cfg PENDING (new_agent_data msgs images))"

subsection \<open>Reasoning about the loop\<close>

lemma agent_loop_invariant:
  assumes "agent_loop env cfg s d = Some (Inr d')" "I s d"
    and step: "\<And>s d s' d'. s \<noteq> TERMINATED \<Longrightarrow> I s d \<Longrightarrow> agent_step env cfg s d = Inr (s', d') \<Longrightarrow> I s' d'"
  shows "I TERMINATED d'"
proof -
  have "e = env \<and> c = cfg \<and> I s d \<longrightarrow> (\<forall>d'. r = Inr d' \<longrightarrow> I TERMINATED d')"
    if "agent_loop e c s d = Some r" for e c s d r
  proof (rule agent_loop.raw_induct [OF _ that])
    fix f :: "'a agent_env \<Rightarrow> agent_cfg \<Rightarrow> agent_state \<Rightarrow> 'a agent_data \<Rightarrow> 'a agent_data result option"
      and e c s d r
    assume IH: "\<And>e c s d r. f e c s d = Some r \<Longrightarrow> e = env \<and> c = cfg \<and> I s d \<longrightarrow> (\<forall>d'. r = Inr d' \<longrightarrow> I TERMINATED d')"
      and f: "(if s = TERMINATED then Some (Inr d)
        else case agent_step e c s d of Inl x \<Rightarrow> Some (Inl x) | Inr (s', d') \<Rightarrow> f e c s' d') = Some r"
    show "e = env \<and> c = cfg \<and> I s d \<longrightarrow> (\<forall>d'. r = Inr d' \<longrightarrow> I TERMINATED d')"
      using f step by (auto split: if_splits sum.splits prod.splits dest: IH)
  qed
  then show ?thesis using assms by blast
qed

lemma agent_loop_terminates:
  fixes m :: "agent_state \<Rightarrow> 'i agent_data \<Rightarrow> nat"
  assumes "I s d"
    and step: "\<And>s d s' d'. s \<noteq> TERMINATED \<Longrightarrow> I s d \<Longrightarrow> agent_step env cfg s d = Inr (s', d') \<Longrightarrow> I s' d' \<and> m s' d' < m s d"
  shows "\<exists>r. agent_loop env cfg s d = Some r"
  using assms(1)
proof (induction "m s d" arbitrary: s d rule: less_induct)
  case less
  show ?case
  proof (cases "s = TERMINATED")
    case True
    then show ?thesis by (simp add: agent_loop.simps)
  next
    case False
    show ?thesis
    proof (cases "agent_step env cfg s d")
      case (Inl e)
      then show ?thesis using False by (subst agent_loop.simps) simp
    next
      case (Inr sd)
      obtain s' d' where sd: "sd = (s', d')" by (cases sd)
      then have "I s' d' \<and> m s' d' < m s d" using step [OF False less.prems] Inr by simp
      then obtain r where "agent_loop env cfg s' d' = Some r" using less.hyps by blast
      then show ?thesis using False Inr sd by (subst agent_loop.simps) simp
    qed
  qed
qed

subsection \<open>The trajectory\<close>

text \<open>What is assumed of the model server: it never returns an empty turn, and its log-probabilities are either always
  absent or always one for each token.\<close>

definition nonempty_turns :: "'i agent_env \<Rightarrow> bool" where
  "nonempty_turns env \<longleftrightarrow> (\<forall>d. token_ids (server_generate env d) \<noteq> [])"











text \<open>The invariants: the counters of turns; and, with the states \<open>ds\<close> in which the server has been called and the
  observations \<open>obs\<close>, the prompt, the mask and the log-probabilities that they determine.\<close>

definition turn_inv :: "agent_state \<Rightarrow> 'i agent_data \<Rightarrow> bool" where
  "turn_inv s d \<longleftrightarrow> s \<noteq> PENDING
    \<and> (case s of TERMINATED \<Rightarrow> user_turns d \<le> assistant_turns d \<and> assistant_turns d \<le> user_turns d + 1 \<and> 0 < assistant_turns d
       | GENERATING \<Rightarrow> user_turns d = assistant_turns d | _ \<Rightarrow> assistant_turns d = user_turns d + 1)"


lemma rbindE: "rbind m f = Inr y \<Longrightarrow> (\<And>x. m = Inr x \<Longrightarrow> f x = Inr y \<Longrightarrow> P) \<Longrightarrow> P"
  by (cases m) auto

lemma handle_tools_cases:
  assumes "handle_processing_tools_state env cfg d = Inr (s', d')"
  shows "\<exists>msgs images rewards ids. s' = TERMINATED \<and> d' = d\<lparr>messages := msgs, tool_rewards := rewards\<rparr>
    \<or> s' = GENERATING \<and> d' = (append_observation ids (d\<lparr>messages := msgs, tool_rewards := rewards\<rparr>))\<lparr>image_data := images,
        user_turns := user_turns d + 1\<rparr>
      \<and> length (response_mask d') < response_length cfg"
proof -
  define upd where "upd add rewards = d\<lparr>messages := messages d @ add, tool_rewards := tool_rewards d @ rewards\<rparr>"
    for add rewards
  define fin where "fin add new rewards ids = (if response_length cfg \<le> length (response_mask (upd add rewards)) + length ids
      then Inr (TERMINATED, upd add rewards)
      else Inr (GENERATING, (append_observation ids (upd add rewards))\<lparr>
        image_data := (if new = [] then image_data (upd add rewards)
          else Some ((case image_data (upd add rewards) of None \<Rightarrow> [] | Some is \<Rightarrow> is) @ new)),
        user_turns := user_turns (upd add rewards) + 1\<rparr>) :: (agent_state \<times> 'a agent_data) result)" for add new rewards ids
  have "\<exists>add new rewards ids. fin add new rewards ids = Inr (s', d')"
    using assms unfolding handle_processing_tools_state_def Let_def upd_def [symmetric] fin_def [symmetric]
    by (elim rbindE) (auto split: prod.splits elim!: rbindE)
  then obtain add new rewards ids where "fin add new rewards ids = Inr (s', d')" by blast
  then show ?thesis
    unfolding fin_def upd_def
    by (intro exI [of _ "messages d @ add"] exI [of _ "if new = [] then image_data d
          else Some ((case image_data d of None \<Rightarrow> [] | Some is \<Rightarrow> is) @ new)"] exI [of _ "tool_rewards d @ rewards"] exI [of _ ids])
       (cases d; auto split: if_splits simp: append_observation_def)
qed

lemma turn_inv_step:
  assumes "turn_inv s d" "agent_step env cfg s d = Inr (s', d')"
  shows "turn_inv s' d'"
proof (cases s)
  case PROCESSING_TOOLS
  then show ?thesis using assms
    by (auto simp: agent_step_def turn_inv_def append_observation_def dest!: handle_tools_cases)
qed (use assms in \<open>auto simp: agent_step_def turn_inv_def handle_generating_state_def handle_interacting_state_def record_turn_def
  append_observation_def Let_def split: if_splits prod.splits\<close>)








lemma loop_from_pending:
  "agent_loop env cfg PENDING (new_agent_data msgs images)
    = agent_loop env cfg GENERATING ((new_agent_data msgs images)\<lparr>prompt_ids := apply_chat_template env msgs images False\<rparr>)"
  by (subst agent_loop.simps) (simp add: agent_step_def handle_pending_state_def new_agent_data_def)


subsection \<open>Termination\<close>

definition loop_measure :: "nat \<Rightarrow> ('i agent_data \<Rightarrow> nat) \<Rightarrow> agent_state \<Rightarrow> 'i agent_data \<Rightarrow> nat" where
  "loop_measure bound c s d = (case s of
     TERMINATED \<Rightarrow> 0 | PENDING \<Rightarrow> 2 * bound + 4 | GENERATING \<Rightarrow> 2 * (bound - c d) + 2 | _ \<Rightarrow> 2 * (bound - c d) + 3)"

lemma generating_successors:
  "handle_generating_state env cfg d = (s', d') \<Longrightarrow> s' \<in> {TERMINATED, PROCESSING_TOOLS, INTERACTING}"
  by (auto simp: handle_generating_state_def Let_def split: if_splits)

lemma agent_loop_bounded:
  fixes env :: "'i agent_env" and c :: "'i agent_data \<Rightarrow> nat" and bound :: nat
  assumes gen: "\<And>d s' d'. handle_generating_state env cfg d = (s', d') \<Longrightarrow> s' = TERMINATED \<or> c d < c d' \<and> c d' < bound"
    and tools: "\<And>d s' d'. handle_processing_tools_state env cfg d = Inr (s', d') \<Longrightarrow> c d \<le> c d'"
    and inter: "\<And>d s' d'. handle_interacting_state env d = (s', d') \<Longrightarrow> c d \<le> c d'"
  shows "\<exists>r. agent_loop env cfg s d = Some r"
proof (rule agent_loop_terminates [where I = "\<lambda>_ _. True" and m = "loop_measure bound c"])
  fix s d s' and d' :: "'i agent_data"
  assume s: "s \<noteq> TERMINATED" and step: "agent_step env cfg s d = Inr (s', d')"
  show "True \<and> loop_measure bound c s' d' < loop_measure bound c s d"
  proof (cases s)
    case PENDING
    then show ?thesis using step by (auto simp: agent_step_def handle_pending_state_def loop_measure_def)
  next
    case GENERATING
    then have h: "handle_generating_state env cfg d = (s', d')" using step by (simp add: agent_step_def)
    show ?thesis
      using gen [OF h] generating_successors [OF h] GENERATING by (auto simp: loop_measure_def)
  next
    case PROCESSING_TOOLS
    then have h: "handle_processing_tools_state env cfg d = Inr (s', d')" using step by (simp add: agent_step_def)
    then have "s' \<in> {TERMINATED, GENERATING}" using handle_tools_cases by blast
    then show ?thesis using tools [OF h] PROCESSING_TOOLS by (auto simp: loop_measure_def)
  next
    case INTERACTING
    then have h: "handle_interacting_state env d = (s', d')" using step by (simp add: agent_step_def)
    then have "s' \<in> {TERMINATED, GENERATING}" by (auto simp: handle_interacting_state_def Let_def split: prod.splits if_splits)
    then show ?thesis using inter [OF h] INTERACTING by (auto simp: loop_measure_def)
  next
    case TERMINATED
    then show ?thesis using s by simp
  qed
qed simp

lemma tools_monotone:
  assumes "handle_processing_tools_state env cfg d = Inr (s', d')"
  shows "length (response_mask d) \<le> length (response_mask d')" and "assistant_turns d' = assistant_turns d"
  using handle_tools_cases [OF assms] by (auto simp: append_observation_def)

lemma interacting_monotone:
  assumes "handle_interacting_state env d = (s', d')"
  shows "length (response_mask d) \<le> length (response_mask d')" and "assistant_turns d' = assistant_turns d"
  using assms by (auto simp: handle_interacting_state_def append_observation_def Let_def split: prod.splits)

lemma generating_progress:
  assumes "handle_generating_state env cfg d = (s', d')"
  shows "length (response_mask d') = length (response_mask d) + length (token_ids (server_generate env d))"
    and "assistant_turns d' = assistant_turns d + 1"
    and "s' \<noteq> TERMINATED \<Longrightarrow> length (response_mask d') < response_length cfg"
    and "s' \<noteq> TERMINATED \<Longrightarrow> \<not> turns_reached (max_assistant_turns cfg) (assistant_turns d')"
  using assms by (auto simp: handle_generating_state_def record_turn_def Let_def split: if_splits)

lemma turns_bounded:
  fixes env :: "'i agent_env"
  assumes "run_tool_agent env cfg msgs images = Some (Inr out)" "max_assistant_turns cfg = Some m" "0 < m"
  shows "num_turns out \<le> 2 * m + 1"
proof -
  let ?p = "apply_chat_template env msgs images False"
  let ?d1 = "(new_agent_data msgs images)\<lparr>prompt_ids := ?p\<rparr>"
  let ?I = "\<lambda>s d :: 'i agent_data. turn_inv s d \<and> (if s = TERMINATED then assistant_turns d \<le> m else assistant_turns d < m)"
  obtain d where d: "agent_loop env cfg GENERATING ?d1 = Some (Inr d)" and out: "out = finalize_output cfg d"
    using assms(1) by (auto simp: run_tool_agent_def loop_from_pending elim!: rbindE)
  have "?I TERMINATED d"
  proof (rule agent_loop_invariant [where I = ?I, OF d])
    show "?I GENERATING ?d1" using assms(3) by (simp add: turn_inv_def new_agent_data_def)
  next
    fix s d s' and d' :: "'i agent_data"
    assume s: "s \<noteq> TERMINATED" and i: "?I s d" and step: "agent_step env cfg s d = Inr (s', d')"
    have "if s' = TERMINATED then assistant_turns d' \<le> m else assistant_turns d' < m"
      using s i step generating_progress(2,4) [of env cfg d s' d'] tools_monotone(2) [of env cfg d s' d']
        interacting_monotone(2) [of env d s' d'] assms(2,3)
      by (cases s) (auto simp: agent_step_def turns_reached_def turn_inv_def)
    then show "?I s' d'" using turn_inv_step [OF conjunct1 [OF i] step] by simp
  qed
  then show ?thesis by (auto simp: out finalize_output_def turn_inv_def Let_def)
qed

text \<open>C12: The tool agent always stops: if the server never returns an empty turn (every turn then uses up some of the response length), or if a positive
  limit on assistant turns is configured. With such a limit a trajectory has at most \<open>2 m + 1\<close> turns.\<close>

theorem tool_agent_terminates:
  assumes "nonempty_turns env \<or> max_assistant_turns cfg = Some m \<and> 0 < m"
  shows "(\<exists>r. run_tool_agent env cfg msgs images = Some r)
    \<and> (max_assistant_turns cfg = Some m \<and> 0 < m \<longrightarrow>
      (\<forall>out. run_tool_agent env cfg msgs images = Some (Inr out) \<longrightarrow> num_turns out \<le> 2 * m + 1))"
proof -
  have "\<exists>r. agent_loop env cfg PENDING (new_agent_data msgs images) = Some r"
    using assms
  proof
    assume ne: "nonempty_turns env"
    show ?thesis
    proof (rule agent_loop_bounded [where c = "\<lambda>d. length (response_mask d)" and bound = "response_length cfg"])
      fix d s' d' assume h: "handle_generating_state env cfg d = (s', d')"
      have "token_ids (server_generate env d) \<noteq> []" using ne by (simp add: nonempty_turns_def)
      then show "s' = TERMINATED \<or> length (response_mask d) < length (response_mask d') \<and> length (response_mask d') < response_length cfg"
        using generating_progress [OF h] by auto
    qed (rule tools_monotone interacting_monotone; assumption)+
  next
    assume m: "max_assistant_turns cfg = Some m \<and> 0 < m"
    show ?thesis
    proof (rule agent_loop_bounded [where c = assistant_turns and bound = m])
      fix d s' d' assume h: "handle_generating_state env cfg d = (s', d')"
      show "s' = TERMINATED \<or> assistant_turns d < assistant_turns d' \<and> assistant_turns d' < m"
        using generating_progress(2,4) [OF h] m by (cases "s' = TERMINATED") (auto simp: turns_reached_def)
    qed (simp_all add: tools_monotone(2) interacting_monotone(2))
  qed
  then have "\<exists>r. run_tool_agent env cfg msgs images = Some r" by (auto simp: run_tool_agent_def)
  then show ?thesis using turns_bounded by blast
qed

subsection \<open>Examples\<close>

definition demo_cfg :: agent_cfg where
  "demo_cfg = \<lparr>max_user_turns = None, max_assistant_turns = Some 4, max_parallel_calls = 1, max_tool_response_length = 8,
     tool_response_truncate_side = ''left'', tool_parser_name = ''hermes'', response_length = 6, has_interaction = False,
     has_image_processor = False\<rparr>"

definition demo_env :: "unit agent_env" where
  "demo_env = \<lparr>server_generate = (\<lambda>d. if assistant_turns d = 0 then \<lparr>token_ids = [5, 6], log_probs = Some [- 1, - 2], num_preempted = None\<rparr>
       else \<lparr>token_ids = [7], log_probs = Some [- 3], num_preempted = Some 1\<rparr>),
     parse_tool_calls = (\<lambda>ids. if ids = [5, 6] then [\<lparr>call_name = ''add'', call_arguments = ''1''\<rparr>] else []),
     chat_template = (\<lambda>ms im. map (\<lambda>m. case content m of Plain t \<Rightarrow> int (length t) | Parts ps \<Rightarrow> 0) ms),
     system_prompt = [], encode = (\<lambda>t. []), decode = (\<lambda>ids. ''''), repr_parts = (\<lambda>ps. ''''),
     json_loads = (\<lambda>t. Inr (PInt 1)),
     tools = [(''add'', \<lambda>d x. Inr (\<lparr>tr_text = Some ''two'', tr_image = None, tr_video = None\<rparr>, Some (1 / 2)))],
     interact = (\<lambda>d. (True, '''', None))\<rparr>"

lemma demo_run_tool_agent:
  "run_tool_agent demo_env demo_cfg [\<lparr>role = ''user'', content = Plain ''hi''\<rparr>] None
    = Some (Inr \<lparr>out_prompt_ids = [2], out_response_ids = [5, 6, 3, 7], out_response_mask = [1, 1, 0, 1],
        out_response_logprobs = Some [- 1, - 2, 0, - 3], num_turns = 4, out_preempted = Some 0, out_turn_scores = [], out_tool_rewards = [1 / 2]\<rparr>)"
  by code_simp



theorem tool_agent_terminates_witness:
  "\<exists>out. run_tool_agent demo_env demo_cfg [\<lparr>role = ''user'', content = Plain ''hi''\<rparr>] None = Some (Inr out)
    \<and> num_turns out \<le> 2 * 4 + 1"
proof -
  have "nonempty_turns demo_env \<or> max_assistant_turns demo_cfg = Some 4 \<and> 0 < (4 :: nat)" by (simp add: demo_cfg_def)
  from tool_agent_terminates [OF this] demo_run_tool_agent show ?thesis by (auto simp: demo_cfg_def)
qed

text \<open>A first turn without tokens: the mask is empty and the slice \<open>prompt_ids[-0:]\<close> is the whole prompt, which becomes the
  response.\<close>

lemma empty_turn_repeats_prompt:
  "\<exists>out. run_tool_agent (demo_env\<lparr>server_generate := (\<lambda>d. \<lparr>token_ids = [], log_probs = None, num_preempted = None\<rparr>)\<rparr>)
      demo_cfg [\<lparr>role = ''user'', content = Plain ''hi''\<rparr>] None = Some (Inr out)
    \<and> out_response_ids out = [2] \<and> out_prompt_ids out = [2] \<and> out_response_mask out = []"
proof -
  have "map_option (\<lambda>r. rbind r (\<lambda>out. Inr (out_response_ids out, out_prompt_ids out, out_response_mask out)))
     (run_tool_agent (demo_env\<lparr>server_generate := (\<lambda>d. \<lparr>token_ids = [], log_probs = None, num_preempted = None\<rparr>)\<rparr>)
      demo_cfg [\<lparr>role = ''user'', content = Plain ''hi''\<rparr>] None) = Some (Inr ([2], [2], []))"
    by code_simp
  then show ?thesis by (auto elim!: rbindE)
qed

text \<open>An empty first turn in an interaction: the observation gets no log-probabilities because none were recorded yet, and
  those of the next turn are attributed to the observation.\<close>

lemma empty_turn_shifts_log_probs:
  "\<exists>out. run_tool_agent (demo_env\<lparr>server_generate := (\<lambda>d. if assistant_turns d = 0 then \<lparr>token_ids = [], log_probs = Some [], num_preempted = None\<rparr>
         else \<lparr>token_ids = [7], log_probs = Some [- 3], num_preempted = None\<rparr>), interact := (\<lambda>d. (user_turns d = 1, ''go on'', None))\<rparr>)
      (demo_cfg\<lparr>has_interaction := True, max_assistant_turns := Some 2\<rparr>) [\<lparr>role = ''user'', content = Plain ''hi''\<rparr>] None = Some (Inr out)
    \<and> out_response_ids out = [5, 7] \<and> out_response_mask out = [0, 1] \<and> out_response_logprobs out = Some [- 3]"
proof -
  have "map_option (\<lambda>r. rbind r (\<lambda>out. Inr (out_response_ids out, out_response_mask out, out_response_logprobs out)))
     (run_tool_agent (demo_env\<lparr>server_generate := (\<lambda>d. if assistant_turns d = 0 then \<lparr>token_ids = [], log_probs = Some [], num_preempted = None\<rparr>
         else \<lparr>token_ids = [7], log_probs = Some [- 3], num_preempted = None\<rparr>), interact := (\<lambda>d. (user_turns d = 1, ''go on'', None))\<rparr>)
      (demo_cfg\<lparr>has_interaction := True, max_assistant_turns := Some 2\<rparr>) [\<lparr>role = ''user'', content = Plain ''hi''\<rparr>] None)
    = Some (Inr ([5, 7], [0, 1], Some [- 3]))"
    by code_simp
  then show ?thesis by (auto elim!: rbindE)
qed

text \<open>A cut of length zero on the right keeps the whole text: with a limit of one character the truncated text is longer than
  the text.\<close>

lemma truncation_of_short_limit:
  "truncate_tool_text (demo_cfg\<lparr>max_tool_response_length := 1, tool_response_truncate_side := ''middle''\<rparr>) ''abc''
    = ''...(truncated)...abc''"
  by code_simp

end
