(* ===== verification/AgentBatch.thy ===== *)
theory AgentBatch
  imports AgentLoop ProtocolLaws
begin

section \<open>From trajectories to a batch\<close>

text \<open>
  \<open>experimental/agent_loop/agent_loop.py\<close> and \<open>single_turn_agent_loop.py\<close>: the padding of one trajectory to the configured
  lengths, its position ids and reward, the batch the worker returns, and the manager that distributes
  a batch over the workers. \<open>tokenizer.pad\<close> pads a list of ids to a length with the padding id and does not truncate; the
  tensors are rows of reals as in \<open>Trainer\<close>. The processor of multi-modal models, routed experts and timing are left out: the multi-modal inputs of a
  trajectory are the empty dictionary that the code uses without a processor. The order of the
  keys of extra fields, a set in the code, is that of their first appearance.
\<close>

subsection \<open>Single turn\<close>

definition run_single_turn ::
  "(int list \<Rightarrow> token_output) \<Rightarrow> (message list \<Rightarrow> int list) \<Rightarrow> nat \<Rightarrow> message list \<Rightarrow> agent_output" where
  "run_single_turn generate template R msgs =
    (let prompt_ids = template msgs; out = generate prompt_ids
     in \<lparr>out_prompt_ids = prompt_ids, out_response_ids = take R (token_ids out),
         out_response_mask = take R (replicate (length (token_ids out)) 1),
         out_response_logprobs = (case log_probs out of None \<Rightarrow> None | Some l \<Rightarrow> if l = [] then None else Some (take R l)),
         num_turns = 2, out_preempted = Some (case num_preempted out of None \<Rightarrow> - 1 | Some k \<Rightarrow> k),
         out_turn_scores = [], out_tool_rewards = []\<rparr>)"

subsection \<open>Padding one trajectory\<close>

definition pad_left :: "nat \<Rightarrow> 'a \<Rightarrow> 'a list \<Rightarrow> 'a list" where
  "pad_left n v xs = replicate (n - length xs) v @ xs"

definition pad_right :: "nat \<Rightarrow> 'a \<Rightarrow> 'a list \<Rightarrow> 'a list" where
  "pad_right n v xs = xs @ replicate (n - length xs) v"

definition compute_position_id_with_mask :: "vec \<Rightarrow> vec" where
  "compute_position_id_with_mask m = map (\<lambda>c. max 0 (c - 1)) (cumsum m)"

record padded_output =
  io_prompts :: vec
  io_responses :: vec
  io_response_mask :: vec
  io_input_ids :: vec
  io_attention_mask :: vec
  io_position_ids :: vec
  io_logprobs :: "vec option"
  io_reward_score :: "real option"
  io_multi_modal_inputs :: "pyv option"
  io_num_turns :: nat
  io_metrics :: pyv
  io_extra_fields :: "(string, pyv) dict"

definition ids_row :: "int list \<Rightarrow> vec" where
  "ids_row = map real_of_int"

definition ones :: "'a list \<Rightarrow> vec" where
  "ones xs = replicate (length xs) 1"

text \<open>The reward of a trajectory that has none is asked from a reward worker, if there is any; it may also give extra
  information.\<close>

record reward_result =
  reward_score :: real
  reward_extra_info :: "(string, pyv) dict"

definition agent_loop_postprocess ::
  "nat \<Rightarrow> nat \<Rightarrow> int \<Rightarrow> (agent_output \<Rightarrow> reward_result) option \<Rightarrow> pyv \<Rightarrow> agent_output \<Rightarrow> padded_output" where
  "agent_loop_postprocess P R pad_id compute_score raw_prompt out =
    (let prompts = pad_left P (real_of_int pad_id) (ids_row (out_prompt_ids out));
         prompt_attention = pad_left P 0 (ones (out_prompt_ids out));
         responses = pad_right R (real_of_int pad_id) (ids_row (out_response_ids out));
         response_attention = pad_right R 0 (ones (out_response_ids out));
         padded_mask = pad_right R (real_of_int pad_id) (map real (out_response_mask out));
         attention = prompt_attention @ response_attention;
         extra = [(''turn_scores'', PList (map PFloat (out_turn_scores out))), (''tool_rewards'', PList (map PFloat (out_tool_rewards out))),
           (''raw_prompt'', raw_prompt)];
         result = map_option (\<lambda>f. f out) compute_score
     in \<lparr>io_prompts = prompts, io_responses = responses, io_response_mask = map2 (*) padded_mask response_attention,
         io_input_ids = prompts @ responses, io_attention_mask = attention,
         io_position_ids = compute_position_id_with_mask attention,
         io_logprobs = map_option (\<lambda>l. l @ replicate (R - length l) 0) (out_response_logprobs out),
         io_reward_score = map_option reward_score result, io_multi_modal_inputs = Some (PDict []), io_num_turns = num_turns out,
         io_metrics = PDict [(''num_preempted'', PInt (case out_preempted out of None \<Rightarrow> - 1 | Some k \<Rightarrow> k))],
         io_extra_fields = (case result of None \<Rightarrow> extra | Some r \<Rightarrow> extra @ [(''reward_extra_info'', PDict (reward_extra_info r))])\<rparr>)"

subsection \<open>The batch\<close>

text \<open>\<open>torch.cat\<close> of the rows of all trajectories, which must have one width.\<close>

definition cat_rows :: "vec list \<Rightarrow> vec list result" where
  "cat_rows rows = rbind (ensure RuntimeError (list_all (\<lambda>r. length r = length (hd rows)) rows)) (\<lambda>_. Inr rows)"

text \<open>\<open>rm_scores[i, k_i] = score_i\<close> with the index \<open>k_i\<close> of the last response token, which is -1 for an empty response.\<close>

definition score_row :: "nat \<Rightarrow> vec \<Rightarrow> vec \<Rightarrow> real \<Rightarrow> vec result" where
  "score_row prompt_length rmask attention score =
    rbind (py_index (length rmask) (\<lfloor>sum_list (drop prompt_length attention)\<rfloor> - 1)) (\<lambda>k.
    Inr ((replicate (length rmask) 0)[k := score]))"

definition rm_scores_of :: "padded_output list \<Rightarrow> vec list option result" where
  "rm_scores_of inputs =
    (if list_all (\<lambda>i. io_reward_score i \<noteq> None) inputs
     then rbind (rmap (\<lambda>i. score_row (length (io_prompts (hd inputs))) (io_response_mask i) (io_attention_mask i) (the (io_reward_score i))) inputs)
       (\<lambda>rows. Inr (Some rows))
     else Inr None)"

definition extra_keys :: "padded_output list \<Rightarrow> string list" where
  "extra_keys inputs = remdups (concat (map (keys \<circ> io_extra_fields) inputs)
     @ [''turn_scores'', ''tool_rewards'', ''is_cancel'', ''param_version_start'', ''param_version_end'', ''extras''])"

definition dict_get :: "(string, pyv) dict \<Rightarrow> string \<Rightarrow> pyv" where
  "dict_get d k = (case map_of d k of None \<Rightarrow> PNone | Some v \<Rightarrow> v)"

definition extra_info_of :: "padded_output \<Rightarrow> (string, pyv) dict" where
  "extra_info_of i = (case map_of (io_extra_fields i) ''reward_extra_info'' of Some (PDict d) \<Rightarrow> d | _ \<Rightarrow> [])"

text \<open>The multi-modal inputs are added if any is not \<open>None\<close>, which the empty dictionary is not.\<close>

definition multi_modal_column :: "padded_output list \<Rightarrow> (string, pyv list) dict" where
  "multi_modal_column inputs =
    (if list_ex (\<lambda>i. io_multi_modal_inputs i \<noteq> None) inputs
     then [(''multi_modal_inputs'', map (\<lambda>i. case io_multi_modal_inputs i of None \<Rightarrow> PNone | Some v \<Rightarrow> v) inputs)] else [])"

definition postprocess ::
  "bool \<Rightarrow> (string, pyv list) dict \<Rightarrow> padded_output list \<Rightarrow> (vec, pyv) data_proto result" where
  "postprocess has_reward_workers input_non_tensor inputs =
    rbind (ensure RuntimeError (inputs \<noteq> [])) (\<lambda>_.
    rbind (cat_rows (map io_prompts inputs)) (\<lambda>prompts.
    rbind (cat_rows (map io_responses inputs)) (\<lambda>responses.
    rbind (cat_rows (map io_response_mask inputs)) (\<lambda>rmask.
    rbind (cat_rows (map io_attention_mask inputs)) (\<lambda>attention.
    rbind (cat_rows (map io_input_ids inputs)) (\<lambda>input_ids.
    rbind (cat_rows (map io_position_ids inputs)) (\<lambda>position_ids.
    rbind (case io_logprobs (hd inputs) of
        None \<Rightarrow> Inr []
      | Some _ \<Rightarrow> rbind (rmap (\<lambda>i. case io_logprobs i of None \<Rightarrow> Inl TypeError | Some l \<Rightarrow> Inr l) inputs) (\<lambda>ls.
          rbind (cat_rows ls) (\<lambda>rows. Inr [(''rollout_log_probs'', rows)]))) (\<lambda>optional.
    rbind (rm_scores_of inputs) (\<lambda>scores.
    rbind (mk_tensordict ([(''prompts'', prompts), (''responses'', responses), (''response_mask'', rmask), (''input_ids'', input_ids),
        (''attention_mask'', attention), (''position_ids'', position_ids)] @ optional
        @ (case scores of None \<Rightarrow> [] | Some rows \<Rightarrow> [(''rm_scores'', rows)])) (length inputs)) (\<lambda>batch.
    let turns = [(''__num_turns__'', map (\<lambda>i. PInt (int (io_num_turns i))) inputs)];
        non_tensor = (if has_reward_workers then turns else dict_update turns input_non_tensor);
        info_keys = keys (extra_info_of (hd inputs))
    in rbind (rmap (\<lambda>k. rbind (rmap (\<lambda>i. dget (extra_info_of i) k) inputs) (\<lambda>vs. Inr (k, vs))) info_keys) (\<lambda>info.
       let extra = map (\<lambda>k. (k, map (\<lambda>i. dict_get (io_extra_fields i) k) inputs)) (extra_keys inputs);
           metrics = (''metrics'', PList (map io_metrics inputs))
       in mk_proto (Some batch) (dict_update (dict_update (dict_update non_tensor info) (multi_modal_column inputs)) extra)
            (if scores = None then [metrics] else [metrics, (''reward_extra_keys'', PList (map PStr info_keys))]))))))))))))"

text \<open>The worker runs one loop for each row and combines the results; \<open>run\<close> gives the trajectory of a row.\<close>

definition row_kwargs :: "(string, pyv list) dict \<Rightarrow> nat \<Rightarrow> (string, pyv) dict" where
  "row_kwargs nt i = dict_map (\<lambda>v. v ! i) nt"

definition with_agent_name :: "string \<Rightarrow> (vec, pyv) data_proto \<Rightarrow> (string, pyv list) dict" where
  "with_agent_name default_agent d =
    (if ''agent_name'' \<in> set (keys (non_tensor_batch d)) then non_tensor_batch d
     else non_tensor_batch d @ [(''agent_name'', replicate (proto_len d) (PStr default_agent))])"

definition worker_generate ::
  "nat \<Rightarrow> nat \<Rightarrow> int \<Rightarrow> (agent_output \<Rightarrow> reward_result) option \<Rightarrow> string \<Rightarrow> ((string, pyv) dict \<Rightarrow> agent_output result)
   \<Rightarrow> (vec, pyv) data_proto \<Rightarrow> (vec, pyv) data_proto result" where
  "worker_generate P R pad_id compute_score default_agent run d =
    (let nt = with_agent_name default_agent d
     in rbind (rmap (\<lambda>i. rbind (run (row_kwargs nt i)) (\<lambda>out. rbind (dget (row_kwargs nt i) ''raw_prompt'') (\<lambda>raw.
          Inr (agent_loop_postprocess P R pad_id compute_score raw out)))) [0..<proto_len d]) (\<lambda>inputs.
        postprocess (compute_score \<noteq> None) nt inputs))"

definition get_trajectory_info :: "pyv \<Rightarrow> pyv list \<Rightarrow> bool \<Rightarrow> (pyv \<times> pyv \<times> nat \<times> bool) list" where
  "get_trajectory_info step index validate =
    rev (snd (fold (\<lambda>i (rollout_n, info).
      let n = (if 0 < i \<and> py_eq (index ! (i - 1)) (index ! i) then rollout_n + 1 else 0)
      in (n, (step, index ! i, n, validate) # info)) [0..<length index] (0, [])))"

subsection \<open>Padding loses nothing\<close>

definition fits :: "nat \<Rightarrow> nat \<Rightarrow> bool \<Rightarrow> agent_output \<Rightarrow> bool" where
  "fits P R b out \<longleftrightarrow> length (out_prompt_ids out) \<le> P \<and> out_response_ids out \<noteq> [] \<and> length (out_response_ids out) \<le> R
    \<and> length (out_response_mask out) = length (out_response_ids out)
    \<and> (case out_response_logprobs out of None \<Rightarrow> \<not> b | Some l \<Rightarrow> b \<and> length l = length (out_response_ids out))"

lemma length_pad [simp]: "length (pad_left n v xs) = max n (length xs)" "length (pad_right n v xs) = max n (length xs)"
  by (simp_all add: pad_left_def pad_right_def)

lemma masked_select_append:
  "length xs = length ms \<Longrightarrow> masked_select (xs @ ys) (ms @ ns) = masked_select xs ms @ masked_select ys ns"
  by (simp add: masked_select_def)

lemma masked_select_zero: "masked_select xs (replicate n 0) = []"
  by (auto simp: masked_select_def filter_empty_conv dest!: set_zip_rightD)

lemma masked_select_one: "length xs = n \<Longrightarrow> masked_select xs (replicate n 1) = xs"
  by (induction xs arbitrary: n) (auto simp: masked_select_def)

lemma masked_select_pad_left:
  "length xs = length ys \<Longrightarrow> masked_select (pad_left n v xs) (pad_left n 0 (ones ys)) = xs"
  by (simp add: pad_left_def ones_def masked_select_append masked_select_zero masked_select_one)

lemma masked_select_pad_right:
  "length xs = length ms \<Longrightarrow> masked_select (pad_right n v xs) (pad_right n 0 ms) = masked_select xs ms"
  by (simp add: pad_right_def masked_select_append masked_select_zero)

lemma times_attention:
  "length ms = length xs \<Longrightarrow> map2 (*) (pad_right n v ms) (pad_right n 0 (ones xs)) = pad_right n 0 (ms :: vec)"
proof -
  assume l: "length ms = length xs"
  have "map2 (*) ms (replicate (length ms) 1) = ms" for ms :: vec by (induction ms) auto
  moreover have "map2 (*) (replicate k v) (replicate k 0) = replicate k (0 :: real)" for k by (induction k) auto
  ultimately show ?thesis using l by (simp add: pad_right_def ones_def) metis
qed

lemma cumsum_Nil [simp]: "cumsum [] = []"
  by (simp add: cumsum_def)

lemma cumsum_Cons: "cumsum (x # xs) = x # map ((+) x) (cumsum (xs :: vec))"
proof -
  have "[0..<Suc (length xs)] = 0 # map Suc [0..<length xs]" by (simp add: map_Suc_upt upt_conv_Cons del: upt_Suc)
  then show ?thesis by (simp add: cumsum_def comp_def del: upt_Suc)
qed

lemma plus_zero [simp]: "map ((+) 0) xs = (xs :: vec)"
  by (simp add: map_idI)

lemma cumsum_zeros: "cumsum (replicate k 0 @ xs) = replicate k 0 @ cumsum (xs :: vec)"
  by (induction k) (auto simp: cumsum_Cons)

lemma cumsum_ones: "cumsum (replicate k (1 :: real) @ replicate j 0) = map (\<lambda>i. real (Suc i)) [0..<k] @ replicate j (real k)"
proof (induction k)
  case 0
  show ?case by (induction j) (auto simp: cumsum_Cons)
next
  case (Suc k)
  have "[0..<Suc k] = 0 # map Suc [0..<k]" by (simp add: map_Suc_upt upt_conv_Cons del: upt_Suc)
  then show ?case using Suc by (simp add: cumsum_Cons comp_def add.commute del: upt_Suc)
qed

lemma positions_restart:
  "compute_position_id_with_mask (replicate k 0 @ replicate n 1 @ replicate j 0)
    = replicate k 0 @ map real [0..<n] @ replicate j (max 0 (real n - 1))"
proof -
  have "map (\<lambda>c. max 0 (c - 1)) (map (\<lambda>i. real (Suc i)) [0..<n]) = map real [0..<n]" by simp
  then show ?thesis
    by (simp add: compute_position_id_with_mask_def cumsum_zeros cumsum_ones del: of_nat_Suc map_map)
qed

text \<open>What one padded trajectory holds.\<close>

definition trajectory_row :: "nat \<Rightarrow> nat \<Rightarrow> agent_output \<Rightarrow> padded_output \<Rightarrow> bool" where
  "trajectory_row P R out o' \<longleftrightarrow>
     length (io_prompts o') = P \<and> length (io_responses o') = R \<and> io_input_ids o' = io_prompts o' @ io_responses o'
     \<and> length (io_attention_mask o') = P + R \<and> length (io_position_ids o') = P + R
     \<and> io_response_mask o' = pad_right R 0 (map real (out_response_mask out))
     \<and> masked_select (io_input_ids o') (io_attention_mask o') = ids_row (out_prompt_ids out @ out_response_ids out)
     \<and> masked_select (io_position_ids o') (io_attention_mask o') = map real [0..<length (out_prompt_ids out) + length (out_response_ids out)]
     \<and> masked_select (io_responses o') (io_response_mask o') = masked_select (ids_row (out_response_ids out)) (map real (out_response_mask out))
     \<and> drop P (io_attention_mask o') = pad_right R 0 (ones (out_response_ids out))"

lemma padded_trajectory:
  assumes "fits P R b out"
  shows "trajectory_row P R out (agent_loop_postprocess P R pad_id compute_score raw out)"
proof -
  let ?p = "out_prompt_ids out" and ?r = "out_response_ids out" and ?m = "map real (out_response_mask out)"
  let ?o = "agent_loop_postprocess P R pad_id compute_score raw out"
  have f: "length ?p \<le> P" "length ?r \<le> R" "length ?m = length ?r" using assms by (auto simp: fits_def)
  have ids [simp]: "length (ids_row xs) = length xs" for xs by (simp add: ids_row_def)
  have att: "io_attention_mask ?o = pad_left P 0 (ones ?p) @ pad_right R 0 (ones ?r)"
    by (simp add: agent_loop_postprocess_def Let_def)
  also have "\<dots> = replicate (P - length ?p) 0 @ replicate (length ?p + length ?r) 1 @ replicate (R - length ?r) 0"
    by (simp add: pad_left_def pad_right_def ones_def replicate_add)
  finally have att2: "io_attention_mask ?o = \<dots>" .
  have rm: "io_response_mask ?o = pad_right R 0 ?m"
    using times_attention [of ?m ?r R "real_of_int pad_id"] f(3) by (simp add: agent_loop_postprocess_def Let_def)
  have pos: "io_position_ids ?o = compute_position_id_with_mask (io_attention_mask ?o)"
    by (simp add: agent_loop_postprocess_def Let_def)
  have sel: "masked_select (io_position_ids ?o) (io_attention_mask ?o) = map real [0..<length ?p + length ?r]"
    unfolding pos att2 positions_restart
    by (simp add: masked_select_append masked_select_zero masked_select_one del: upt_Suc map_map)
  have inp: "io_input_ids ?o = pad_left P (real_of_int pad_id) (ids_row ?p) @ pad_right R (real_of_int pad_id) (ids_row ?r)"
    "io_responses ?o = pad_right R (real_of_int pad_id) (ids_row ?r)"
    "io_prompts ?o = pad_left P (real_of_int pad_id) (ids_row ?p)"
    by (simp_all add: agent_loop_postprocess_def Let_def)
  have len: "length (io_position_ids ?o) = P + R"
    using f unfolding pos att2 positions_restart by simp
  have "masked_select (io_input_ids ?o) (io_attention_mask ?o) = ids_row ?p @ masked_select (ids_row ?r) (ones ?r)"
    unfolding inp att
    by (subst masked_select_append) (simp_all add: ones_def masked_select_pad_left [unfolded ones_def] masked_select_pad_right)
  also have "\<dots> = ids_row (?p @ ?r)" by (simp add: ones_def masked_select_one) (simp add: ids_row_def)
  finally have a: "masked_select (io_input_ids ?o) (io_attention_mask ?o) = ids_row (?p @ ?r)" .
  have b: "masked_select (io_responses ?o) (io_response_mask ?o) = masked_select (ids_row ?r) ?m"
    unfolding inp rm using f(3) by (intro masked_select_pad_right) simp
  have d: "drop P (io_attention_mask ?o) = pad_right R 0 (ones ?r)"
    unfolding att using f by (simp add: ones_def)
  show ?thesis
    unfolding trajectory_row_def using f a b d sel len rm inp att by (simp add: ones_def)
qed

lemma cat_rows_total: "\<forall>r \<in> set rows. length r = n \<Longrightarrow> cat_rows rows = Inr rows"
  by (cases rows) (auto simp: cat_rows_def list_all_iff)

text \<open>The score of a trajectory sits on its last response token.\<close>

lemma score_row_last:
  assumes "trajectory_row P R out o'" "fits P R b out"
  shows "score_row P (io_response_mask o') (io_attention_mask o') x
    = Inr ((replicate R 0)[length (out_response_ids out) - 1 := x])"
proof -
  let ?n = "length (out_response_ids out)"
  have n: "0 < ?n" "?n \<le> R" "length (out_response_mask out) = ?n" using assms(2) by (auto simp: fits_def)
  have "sum_list (drop P (io_attention_mask o')) = real ?n"
    using assms(1) by (simp add: trajectory_row_def pad_right_def ones_def sum_list_replicate)
  moreover have "length (io_response_mask o') = R" using assms(1) n by (simp add: trajectory_row_def)
  moreover have "py_index R (\<lfloor>real ?n\<rfloor> - 1) = Inr (?n - 1)" using n by (auto simp: py_index_def)
  ultimately show ?thesis by (simp add: score_row_def)
qed

text \<open>The tensors of a batch of trajectories.\<close>

definition batch_tensors :: "padded_output list \<Rightarrow> nat \<Rightarrow> agent_output list \<Rightarrow> real list \<Rightarrow> (string, vec list) dict" where
  "batch_tensors inputs R outs scores =
    [(''prompts'', map io_prompts inputs), (''responses'', map io_responses inputs), (''response_mask'', map io_response_mask inputs),
     (''input_ids'', map io_input_ids inputs), (''attention_mask'', map io_attention_mask inputs),
     (''position_ids'', map io_position_ids inputs)]
    @ (case io_logprobs (hd inputs) of None \<Rightarrow> [] | Some _ \<Rightarrow> [(''rollout_log_probs'', map (the \<circ> io_logprobs) inputs)])
    @ [(''rm_scores'', map2 (\<lambda>out x. (replicate R 0)[length (out_response_ids out) - 1 := x]) outs scores)]"

lemma rm_scores_total:
  assumes "list_all2 (trajectory_row P R) outs inputs" "list_all (fits P R b) outs" "inputs \<noteq> []"
    and "map io_reward_score inputs = map Some scores"
  shows "rm_scores_of inputs = Inr (Some (map2 (\<lambda>out x. (replicate R 0)[length (out_response_ids out) - 1 := x]) outs scores))"
proof -
  have P: "length (io_prompts (hd inputs)) = P"
    using assms(1,3) by (cases inputs) (auto simp: list_all2_Cons2 trajectory_row_def)
  have "rmap (\<lambda>i. score_row P (io_response_mask i) (io_attention_mask i) (the (io_reward_score i))) inputs
    = Inr (map2 (\<lambda>out x. (replicate R 0)[length (out_response_ids out) - 1 := x]) outs scores)"
    using assms(1,2,4)
  proof (induction outs inputs arbitrary: scores rule: list_all2_induct)
    case (Cons out outs inp inputs)
    then obtain x xs where "scores = x # xs" by (cases scores) auto
    moreover have "fits P R b out" using Cons.prems(1) by simp
    ultimately show ?case using Cons score_row_last [OF Cons.hyps(1)] by simp
  qed simp
  moreover have "list_all (\<lambda>i. io_reward_score i \<noteq> None) inputs"
  proof -
    have "\<forall>s \<in> set (map io_reward_score inputs). s \<noteq> None" unfolding assms(4) by simp
    then show ?thesis by (simp add: list_all_iff)
  qed
  ultimately show ?thesis by (simp add: rm_scores_of_def P)
qed

lemma list_all_dict_update:
  "list_all (\<lambda>(k, v). Q v) d \<Longrightarrow> list_all (\<lambda>(k, v). Q v) e \<Longrightarrow> list_all (\<lambda>(k, v). Q v) (dict_update d e)"
  unfolding dict_update_def by (induction e arbitrary: d) (auto intro!: list_all_update)

lemma optional_log_probs:
  assumes "inputs \<noteq> []" "list_all (\<lambda>i. if b then \<exists>l. io_logprobs i = Some l \<and> length l = R else io_logprobs i = None) inputs"
  shows "(case io_logprobs (hd inputs) of
        None \<Rightarrow> Inr []
      | Some _ \<Rightarrow> rbind (rmap (\<lambda>i. case io_logprobs i of None \<Rightarrow> Inl TypeError | Some l \<Rightarrow> Inr l) inputs) (\<lambda>ls.
          rbind (cat_rows ls) (\<lambda>rows. Inr [(''rollout_log_probs'', rows)])))
    = Inr (case io_logprobs (hd inputs) of None \<Rightarrow> [] | Some _ \<Rightarrow> [(''rollout_log_probs'', map (the \<circ> io_logprobs) inputs)])"
  proof (cases b)
    case True
    then have l: "\<forall>i \<in> set inputs. \<exists>l. io_logprobs i = Some l \<and> length l = R" using assms(2) by (simp add: list_all_iff)
    then have "rmap (\<lambda>i. case io_logprobs i of None \<Rightarrow> Inl TypeError | Some l \<Rightarrow> Inr l) inputs = Inr (map (the \<circ> io_logprobs) inputs)"
      by (intro rmap_total) fastforce
    moreover have "cat_rows (map (the \<circ> io_logprobs) inputs) = Inr (map (the \<circ> io_logprobs) inputs)"
      using l by (intro cat_rows_total [where n = R]) force
    ultimately show ?thesis by (simp split: option.split)
  next
    case False
    then have "io_logprobs (hd inputs) = None" using assms by (cases inputs) simp_all
    then show ?thesis by simp
  qed

lemma extra_info_total:
  assumes "inputs \<noteq> []" "list_all (\<lambda>i. keys (extra_info_of i) = ks) inputs"
  shows "\<exists>info. rmap (\<lambda>k. rbind (rmap (\<lambda>i. dget (extra_info_of i) k) inputs) (\<lambda>vs. Inr (k, vs))) (keys (extra_info_of (hd inputs)))
      = Inr info \<and> list_all (\<lambda>(k, v). length v = length inputs) info"
  proof -
    have key: "\<exists>y. rbind (rmap (\<lambda>i. dget (extra_info_of i) k) inputs) (\<lambda>vs. Inr (k, vs)) = Inr y \<and> length (snd y) = length inputs"
      if "k \<in> set (keys (extra_info_of (hd inputs)))" for k
    proof -
      have k: "k \<in> set ks" using that assms by (cases inputs) auto
      have "\<forall>i \<in> set inputs. \<exists>v. dget (extra_info_of i) k = Inr v"
        using assms(2) k by (auto simp: list_all_iff set_keys)
      then have "rmap (\<lambda>i. dget (extra_info_of i) k) inputs = Inr (map (\<lambda>i. projr (dget (extra_info_of i) k)) inputs)"
        by (intro rmap_total) (metis sum.sel(2))
      then show ?thesis by simp
    qed
    have "\<exists>ys. rmap (\<lambda>k. rbind (rmap (\<lambda>i. dget (extra_info_of i) k) inputs) (\<lambda>vs. Inr (k, vs)))
        (keys (extra_info_of (hd inputs))) = Inr ys \<and> list_all2 (\<lambda>k y. length (snd y) = length inputs) (keys (extra_info_of (hd inputs))) ys"
      by (rule rmap_list_all2) (rule key)
    then obtain ys where ys: "rmap (\<lambda>k. rbind (rmap (\<lambda>i. dget (extra_info_of i) k) inputs) (\<lambda>vs. Inr (k, vs)))
        (keys (extra_info_of (hd inputs))) = Inr ys" "list_all2 (\<lambda>k y. length (snd y) = length inputs) (keys (extra_info_of (hd inputs))) ys"
      by blast
    have "length (snd y) = length inputs" if "y \<in> set ys" for y
      using list_all2_nthD2 [OF ys(2)] that by (auto simp: in_set_conv_nth)
    then show ?thesis using ys(1) by (auto simp: list_all_iff)
  qed

lemma postprocess_total:
  assumes "list_all2 (trajectory_row P R) outs inputs" "list_all (fits P R b) outs" "inputs \<noteq> []"
    and "map io_reward_score inputs = map Some scores"
    and "list_all (\<lambda>i. if b then \<exists>l. io_logprobs i = Some l \<and> length l = R else io_logprobs i = None) inputs"
    and "list_all (\<lambda>i. keys (extra_info_of i) = ks) inputs"
  shows "\<exists>e. postprocess True nt inputs = Inr e
    \<and> batch e = Some \<lparr>td_size = length inputs, td_tensors = batch_tensors inputs R outs scores\<rparr>"
proof -
  have len: "length outs = length inputs" using assms(1) by (rule list_all2_lengthD)
  have rows: "trajectory_row P R (outs ! i) (inputs ! i) \<and> fits P R b (outs ! i)" if "i < length inputs" for i
    using assms(1,2) that len by (auto simp: list_all2_conv_all_nth list_all_length)
  have w: "\<forall>i \<in> set inputs. length (io_prompts i) = P \<and> length (io_responses i) = R \<and> length (io_response_mask i) = R
      \<and> length (io_attention_mask i) = P + R \<and> length (io_input_ids i) = P + R \<and> length (io_position_ids i) = P + R"
    using rows by (auto simp: in_set_conv_nth trajectory_row_def fits_def)
  have cat: "cat_rows (map io_prompts inputs) = Inr (map io_prompts inputs)"
    "cat_rows (map io_responses inputs) = Inr (map io_responses inputs)"
    "cat_rows (map io_response_mask inputs) = Inr (map io_response_mask inputs)"
    "cat_rows (map io_attention_mask inputs) = Inr (map io_attention_mask inputs)"
    "cat_rows (map io_input_ids inputs) = Inr (map io_input_ids inputs)"
    "cat_rows (map io_position_ids inputs) = Inr (map io_position_ids inputs)"
    using w by (auto intro!: cat_rows_total)
  note opt = optional_log_probs [OF assms(3,5)]
  note rm = rm_scores_total [OF assms(1-4)]
  have n: "length scores = length inputs" using assms(4) by (metis length_map)
  have td: "mk_tensordict (batch_tensors inputs R outs scores) (length inputs)
      = Inr \<lparr>td_size = length inputs, td_tensors = batch_tensors inputs R outs scores\<rparr>"
    using n len by (auto simp: mk_tensordict_def batch_tensors_def split: option.split)
  obtain info where info: "rmap (\<lambda>k. rbind (rmap (\<lambda>i. dget (extra_info_of i) k) inputs) (\<lambda>vs. Inr (k, vs))) (keys (extra_info_of (hd inputs)))
      = Inr info" "list_all (\<lambda>(k, v). length v = length inputs) info"
    using extra_info_total [OF assms(3,6)] by blast
  have upd: "list_all (\<lambda>(k, v). length v = m) d \<Longrightarrow> list_all (\<lambda>(k, v). length v = m) e \<Longrightarrow> list_all (\<lambda>(k, v). length v = m) (dict_update d e)"
    for d e :: "(string, pyv list) dict" and m
    by (rule list_all_dict_update)
  have mm: "list_all (\<lambda>(k, v). length v = length inputs) (multi_modal_column inputs)" by (simp add: multi_modal_column_def)
  let ?nt = "dict_update (dict_update (dict_update [(''__num_turns__'', map (\<lambda>i. PInt (int (io_num_turns i))) inputs)] info)
    (multi_modal_column inputs))
    (map (\<lambda>k. (k, map (\<lambda>i. dict_get (io_extra_fields i) k) inputs)) (extra_keys inputs))"
  have "list_all (\<lambda>(k, v). length v = length inputs) ?nt"
    using info(2) mm by (intro upd) (auto simp: list_all_iff)
  then show ?thesis
    using assms(3) cat opt rm td info(1)
    by (simp add: postprocess_def Let_def batch_tensors_def mk_proto_def check_consistency_def)
qed

lemma diff_less_le: "xs \<noteq> [] \<Longrightarrow> length xs \<le> R \<Longrightarrow> length xs - Suc 0 < R"
  by (cases xs) auto

lemma postprocess_logs:
  assumes "fits P R b out"
  shows "if b then \<exists>l. io_logprobs (agent_loop_postprocess P R pad_id cs raw out) = Some l \<and> length l = R
    else io_logprobs (agent_loop_postprocess P R pad_id cs raw out) = None"
  using assms by (auto simp: fits_def agent_loop_postprocess_def Let_def split: option.splits)

lemma postprocess_reward:
  "io_reward_score (agent_loop_postprocess P R pad_id (Some f) raw out) = Some (reward_score (f out))"
  "extra_info_of (agent_loop_postprocess P R pad_id (Some f) raw out) = reward_extra_info (f out)"
  by (simp_all add: agent_loop_postprocess_def extra_info_of_def Let_def)

lemma masked_select_rows:
  "list_all2 (trajectory_row P R) outs inputs \<Longrightarrow>
    map2 masked_select (map io_input_ids inputs) (map io_attention_mask inputs)
      = map (\<lambda>out. ids_row (out_prompt_ids out @ out_response_ids out)) outs
    \<and> map2 masked_select (map io_responses inputs) (map io_response_mask inputs)
      = map (\<lambda>out. masked_select (ids_row (out_response_ids out)) (map real (out_response_mask out))) outs"
  by (induction rule: list_all2_induct) (auto simp: trajectory_row_def)

text \<open>C13: The batch a rollout worker returns holds exactly the trajectories. If every trajectory fits the configured lengths and has at least one response token, the
  worker never raises; removing the padding from \<open>input_ids\<close> gives prompt and response back, the
  response mask selects the tokens the model generated, and the rows of \<open>rm_scores\<close> sum to the
  scores of the trajectories.\<close>

theorem worker_batch_holds_trajectories:
  assumes "0 < n" "proto_len d = n" "''raw_prompt'' \<in> set (keys (non_tensor_batch d))"
    and "length outs = n" "list_all (fits P R b) outs" "list_all (\<lambda>out. keys (reward_extra_info (f out)) = ks) outs"
    and "list_all (\<lambda>i. run (row_kwargs (with_agent_name agent d) i) = Inr (outs ! i)) [0..<n]"
  shows "\<exists>e t ids att rs rmask scores. worker_generate P R pad_id (Some f) agent run d = Inr e \<and> batch e = Some t \<and> td_size t = n
    \<and> map_of (td_tensors t) ''input_ids'' = Some ids \<and> map_of (td_tensors t) ''attention_mask'' = Some att
    \<and> map_of (td_tensors t) ''responses'' = Some rs \<and> map_of (td_tensors t) ''response_mask'' = Some rmask
    \<and> map_of (td_tensors t) ''rm_scores'' = Some scores
    \<and> map2 masked_select ids att = map (\<lambda>out. ids_row (out_prompt_ids out @ out_response_ids out)) outs
    \<and> map2 masked_select rs rmask = map (\<lambda>out. masked_select (ids_row (out_response_ids out)) (map real (out_response_mask out))) outs
    \<and> row_sums scores = map (\<lambda>out. reward_score (f out)) outs"
proof -
  let ?nt = "with_agent_name agent d"
  define raw where "raw i = the (map_of (row_kwargs ?nt i) ''raw_prompt'')" for i
  have raw: "dget (row_kwargs ?nt i) ''raw_prompt'' = Inr (raw i)" for i
    using assms(3) by (auto simp: raw_def row_kwargs_def with_agent_name_def set_keys dget_def split: option.splits)
  define inputs where "inputs = map (\<lambda>i. agent_loop_postprocess P R pad_id (Some f) (raw i) (outs ! i)) [0..<n]"
  have ne: "inputs \<noteq> []" and len: "length inputs = n" using assms(1) by (simp_all add: inputs_def)
  have rows: "list_all2 (trajectory_row P R) outs inputs"
    using assms(4,5) padded_trajectory by (auto simp: list_all2_conv_all_nth inputs_def list_all_length)
  have "map io_reward_score inputs = map Some (map (\<lambda>out. reward_score (f out)) outs)"
    using assms(4) by (auto simp: inputs_def postprocess_reward intro: nth_equalityI)
  moreover have "list_all (\<lambda>i. if b then \<exists>l. io_logprobs i = Some l \<and> length l = R else io_logprobs i = None) inputs"
    using assms(4,5) postprocess_logs by (auto simp: inputs_def list_all_length)
  moreover have "list_all (\<lambda>i. keys (extra_info_of i) = ks) inputs"
    using assms(4,6) by (auto simp: inputs_def postprocess_reward list_all_length)
  ultimately obtain e where e: "postprocess True ?nt inputs = Inr e"
    "batch e = Some \<lparr>td_size = length inputs, td_tensors = batch_tensors inputs R outs (map (\<lambda>out. reward_score (f out)) outs)\<rparr>"
    using postprocess_total [OF rows assms(5) ne] by blast
  have "rmap (\<lambda>i. rbind (run (row_kwargs ?nt i)) (\<lambda>out. rbind (dget (row_kwargs ?nt i) ''raw_prompt'') (\<lambda>raw.
      Inr (agent_loop_postprocess P R pad_id (Some f) raw out)))) [0..<n] = Inr inputs"
    unfolding inputs_def using assms(7) raw by (intro rmap_total) (auto simp: list_all_iff dget_def)
  then have "worker_generate P R pad_id (Some f) agent run d = Inr e"
    using e(1) assms(2) by (simp add: worker_generate_def Let_def)
  moreover have "row_sums (map2 (\<lambda>out x. (replicate R 0)[length (out_response_ids out) - 1 := x]) outs (map (\<lambda>out. reward_score (f out)) outs))
      = map (\<lambda>out. reward_score (f out)) outs"
    using assms(5) by (induction outs) (auto simp: row_sums_def fits_def intro!: sum_list_one_hot diff_less_le)
  ultimately show ?thesis
    using e(2) len masked_select_rows [OF rows] by (auto simp: batch_tensors_def split: option.splits)
qed

definition demo_agent_output :: "nat \<Rightarrow> agent_output" where
  "demo_agent_output k = \<lparr>out_prompt_ids = [2], out_response_ids = 5 # replicate k 6, out_response_mask = 1 # replicate k 0,
     out_response_logprobs = None, num_turns = 2, out_preempted = None, out_turn_scores = [], out_tool_rewards = []\<rparr>"

definition demo_prompts :: "(vec, pyv) data_proto" where
  "demo_prompts = \<lparr>batch = None, non_tensor_batch = [(''raw_prompt'', [PInt 0, PInt 1])], meta_info = []\<rparr>"

definition demo_run :: "(string, pyv) dict \<Rightarrow> agent_output result" where
  "demo_run kw = Inr (demo_agent_output (if map_of kw ''raw_prompt'' = Some (PInt 0) then 0 else 1))"

theorem worker_batch_holds_trajectories_witness:
  "\<exists>e t ids att scores. worker_generate 2 3 0 (Some (\<lambda>out. \<lparr>reward_score = real (length (out_response_ids out)), reward_extra_info = []\<rparr>))
      ''single_turn_agent'' demo_run demo_prompts = Inr e \<and> batch e = Some t
    \<and> map_of (td_tensors t) ''input_ids'' = Some ids \<and> map_of (td_tensors t) ''attention_mask'' = Some att
    \<and> map2 masked_select ids att = [[2, 5], [2, 5, 6]]
    \<and> map_of (td_tensors t) ''rm_scores'' = Some scores \<and> row_sums scores = [1, 2]"
proof -
  have k: "row_kwargs (with_agent_name ''single_turn_agent'' demo_prompts) i
      = [(''raw_prompt'', [PInt 0, PInt 1] ! i), (''agent_name'', replicate 2 (PStr ''single_turn_agent'') ! i)]" for i
    by (simp add: row_kwargs_def with_agent_name_def demo_prompts_def proto_len_def dict_map_def numeral_2_eq_2)
  have run: "list_all (\<lambda>i. demo_run (row_kwargs (with_agent_name ''single_turn_agent'' demo_prompts) i)
      = Inr ([demo_agent_output 0, demo_agent_output 1] ! i)) [0..<2]"
    unfolding k demo_run_def by (simp add: upt_rec)
  have "\<exists>e t ids att rs rmask scores. worker_generate 2 3 0 (Some (\<lambda>out. \<lparr>reward_score = real (length (out_response_ids out)), reward_extra_info = []\<rparr>))
      ''single_turn_agent'' demo_run demo_prompts = Inr e \<and> batch e = Some t \<and> td_size t = 2
    \<and> map_of (td_tensors t) ''input_ids'' = Some ids \<and> map_of (td_tensors t) ''attention_mask'' = Some att
    \<and> map_of (td_tensors t) ''responses'' = Some rs \<and> map_of (td_tensors t) ''response_mask'' = Some rmask
    \<and> map_of (td_tensors t) ''rm_scores'' = Some scores
    \<and> map2 masked_select ids att = map (\<lambda>out. ids_row (out_prompt_ids out @ out_response_ids out)) [demo_agent_output 0, demo_agent_output 1]
    \<and> map2 masked_select rs rmask = map (\<lambda>out. masked_select (ids_row (out_response_ids out)) (map real (out_response_mask out)))
        [demo_agent_output 0, demo_agent_output 1]
    \<and> row_sums scores = map (\<lambda>out. reward_score \<lparr>reward_score = real (length (out_response_ids out)), reward_extra_info = []\<rparr>)
        [demo_agent_output 0, demo_agent_output 1]"
    by (rule worker_batch_holds_trajectories [where b = False and ks = "[]", OF _ _ _ _ _ _ run])
       (simp_all add: demo_prompts_def proto_len_def fits_def demo_agent_output_def)
  then show ?thesis by (fastforce simp: demo_agent_output_def ids_row_def)
qed

text \<open>An empty response puts its score on the last padding position, through the index -1.\<close>

lemma empty_response_scored_on_padding:
  "score_row 1 [0, 0, 0] [1, 0, 0, 0] 7 = Inr [0, 0, 7]"
  by (simp add: score_row_def py_index_def)

end
