(* ===== verification/Serving.thy ===== *)
theory Serving
  imports Prelude
begin

section \<open>Choosing a server\<close>

text \<open>
  The two load balancers: \<open>AsyncLLMServerManager\<close> of \<open>experimental/agent_loop/agent_loop.py\<close> with its heap of request
  counts and its session cache, and \<open>NaiveRouter\<close> of \<open>experimental/reward_loop/router/naive_router.py\<close> with its
  retries. The heap is represented by the sorted list of its entries: they are compared by count and
  position, which are distinct, and only the smallest is read. The cache is \<open>cachetools.LRUCache\<close>; its three operations are
  parameters. The outcomes of HTTP requests are a list.
\<close>

subsection \<open>Sticky sessions over a heap of counts\<close>

record ('c, 'h) session_cache =
  cache_lookup :: "'c \<Rightarrow> string \<Rightarrow> 'h option"
  cache_touch :: "'c \<Rightarrow> string \<Rightarrow> 'c"
  cache_store :: "'c \<Rightarrow> string \<Rightarrow> 'h \<Rightarrow> 'c"

record ('c, 'h) server_manager =
  weighted_servers :: "(nat \<times> nat \<times> 'h) list"
  request_id_to_server :: 'c

definition server_entry :: "nat \<times> nat \<times> 'h \<Rightarrow> nat \<times> nat" where
  "server_entry e = (fst e, fst (snd e))"

fun heap_insert :: "nat \<times> nat \<times> 'h \<Rightarrow> (nat \<times> nat \<times> 'h) list \<Rightarrow> (nat \<times> nat \<times> 'h) list" where
  "heap_insert e [] = [e]"
| "heap_insert e (f # fs) =
     (if fst e < fst f \<or> fst e = fst f \<and> fst (snd e) \<le> fst (snd f) then e # f # fs else f # heap_insert e fs)"

definition init_server_manager :: "'c \<Rightarrow> 'h list \<Rightarrow> ('c, 'h) server_manager" where
  "init_server_manager c handles =
    \<lparr>weighted_servers = map (\<lambda>(i, h). (0, i, h)) (zip [0..<length handles] handles), request_id_to_server = c\<rparr>"

definition choose_server ::
  "('c, 'h) session_cache \<Rightarrow> string \<Rightarrow> ('c, 'h) server_manager \<Rightarrow> ('h \<times> ('c, 'h) server_manager) result" where
  "choose_server ops request_id m =
    (case cache_lookup ops (request_id_to_server m) request_id of
       Some h \<Rightarrow> Inr (h, m\<lparr>request_id_to_server := cache_touch ops (request_id_to_server m) request_id\<rparr>)
     | None \<Rightarrow> (case weighted_servers m of
         [] \<Rightarrow> Inl IndexError
       | (n, i, h) # rest \<Rightarrow> Inr (h, m\<lparr>weighted_servers := heap_insert (n + 1, i, h) rest,
           request_id_to_server := cache_store ops (request_id_to_server m) request_id h\<rparr>)))"

fun serve ::
  "('c, 'h) session_cache \<Rightarrow> string list \<Rightarrow> ('c, 'h) server_manager \<Rightarrow> ('h list \<times> ('c, 'h) server_manager) result" where
  "serve ops [] m = Inr ([], m)"
| "serve ops (r # rs) m =
     rbind (choose_server ops r m) (\<lambda>(h, m'). rbind (serve ops rs m') (\<lambda>(hs, m''). Inr (h # hs, m'')))"

subsection \<open>The naive router\<close>

datatype attempt = Answered | TimedOut | NoConnection | HttpError | OtherError

definition select_worker :: "(string, nat) dict \<Rightarrow> (string \<times> (string, nat) dict) result" where
  "select_worker counts = (case counts of
     [] \<Rightarrow> Inl ValueError
   | (u, n) # rest \<Rightarrow>
       (let best = fold (\<lambda>(v, k) (b, m). if k < m then (v, k) else (b, m)) rest (u, n)
        in Inr (fst best, AList.update (fst best) (snd best + 1) counts)))"

definition release_worker :: "string \<Rightarrow> (string, nat) dict \<Rightarrow> (string, nat) dict result" where
  "release_worker url counts = rbind (dget counts url) (\<lambda>n. Inr (AList.update url (n - 1) counts))"

text \<open>The attempts of one request, numbered from 0: the first answer, an exception that is raised again, or the failure after
  the last attempt.\<close>

datatype request_result = Output | Reraised attempt | Exhausted | NoWorkers

fun try_request :: "nat \<Rightarrow> nat \<Rightarrow> (nat \<Rightarrow> attempt) \<Rightarrow> request_result" where
  "try_request 0 i outcomes = Exhausted"
| "try_request (Suc attempts_left) i outcomes = (case outcomes i of
     Answered \<Rightarrow> Output
   | HttpError \<Rightarrow> Reraised HttpError
   | OtherError \<Rightarrow> if attempts_left = 0 then Reraised OtherError else try_request attempts_left (i + 1) outcomes
   | _ \<Rightarrow> try_request attempts_left (i + 1) outcomes)"

definition make_async_request ::
  "nat \<Rightarrow> (nat \<Rightarrow> attempt) \<Rightarrow> (string, nat) dict \<Rightarrow> (request_result \<times> (string, nat) dict) result" where
  "make_async_request max_attempts outcomes counts =
    (if counts = [] then Inr (NoWorkers, counts)
     else rbind (select_worker counts) (\<lambda>(url, counts).
       case try_request max_attempts 0 outcomes of
         Output \<Rightarrow> rbind (release_worker url counts) (\<lambda>counts. Inr (Output, counts))
       | r \<Rightarrow> Inr (r, counts)))"

subsection \<open>Least requests, sticky sessions\<close>

definition entry_less :: "nat \<times> nat \<times> 'h \<Rightarrow> nat \<times> nat \<times> 'h \<Rightarrow> bool" where
  "entry_less e f \<longleftrightarrow> fst e < fst f \<or> fst e = fst f \<and> fst (snd e) \<le> fst (snd f)"

lemma mset_heap_insert [simp]: "mset (heap_insert e fs) = add_mset e (mset fs)"
  by (induction fs) auto

lemma set_heap_insert [simp]: "set (heap_insert e fs) = insert e (set fs)"
  by (induction fs) auto

lemma map_heap_insert [simp]:
  "mset (map snd (heap_insert e fs)) = add_mset (snd e) (mset (map snd fs))"
  "sum_list (map fst (heap_insert e fs)) = fst e + sum_list (map fst fs)"
  by (induction fs) auto

lemma sorted_heap_insert: "sorted_wrt entry_less fs \<Longrightarrow> sorted_wrt entry_less (heap_insert e fs)"
  by (induction fs) (auto simp: entry_less_def)

text \<open>The invariant: sorted, counts at most one apart, as many servers as handles, and the number of requests assigned so far.\<close>

definition balanced :: "'h list \<Rightarrow> nat \<Rightarrow> (nat \<times> nat \<times> 'h) list \<Rightarrow> bool" where
  "balanced handles total_requests ws \<longleftrightarrow> sorted_wrt entry_less ws
    \<and> mset (map snd ws) = mset (zip [0..<length handles] handles)
    \<and> sum_list (map fst ws) = total_requests \<and> (\<forall>e \<in> set ws. \<forall>f \<in> set ws. fst f \<le> fst e + 1)"

lemma balanced_init: "balanced handles 0 (weighted_servers (init_server_manager c handles))"
proof -
  have "sorted_wrt entry_less (map (\<lambda>(i, h). (0, i, h)) (zip [k..<k + length handles] handles))" for k
  proof (induction handles arbitrary: k)
    case (Cons h hs)
    have u: "[k..<k + length (h # hs)] = k # [Suc k..<Suc k + length hs]" by (simp add: upt_rec)
    have "i \<in> {k..<Suc k + length hs}" if "(i, x) \<in> set (zip [Suc k..<Suc k + length hs] hs)" for i x
      using set_zip_leftD [OF that] by auto
    then show ?case unfolding u using Cons.IH [of "Suc k"] by (fastforce simp: entry_less_def simp del: upt_Suc)
  qed simp
  from this [of 0] show ?thesis
    by (auto simp: balanced_def init_server_manager_def comp_def split_def sum_list_0)
qed

lemma balanced_insert:
  assumes "balanced handles t ((n, i, h) # rest)"
  shows "balanced handles (t + 1) (heap_insert (n + 1, i, h) rest)"
proof -
  have le: "\<forall>f \<in> set rest. n \<le> fst f \<and> fst f \<le> n + 1"
    using assms by (auto simp: balanced_def entry_less_def)
  have "mset (map snd (heap_insert (n + 1, i, h) rest)) = mset (map snd ((n, i, h) # rest))"
    "sum_list (map fst (heap_insert (n + 1, i, h) rest)) = t + 1"
    using assms by (simp_all add: balanced_def)
  moreover have "sorted_wrt entry_less (heap_insert (n + 1, i, h) rest)"
    using assms by (intro sorted_heap_insert) (simp add: balanced_def)
  ultimately show ?thesis using assms le by (fastforce simp: balanced_def)
qed

text \<open>What the cache promises while it has room for \<open>n\<close> new keys, as an LRU cache of a fixed size does.\<close>

definition keeps_sessions :: "('c, 'h) session_cache \<Rightarrow> ('c \<Rightarrow> nat \<Rightarrow> bool) \<Rightarrow> bool" where
  "keeps_sessions ops room \<longleftrightarrow>
    (\<forall>c n k h. room c (Suc n) \<longrightarrow> room (cache_store ops c k h) n
       \<and> cache_lookup ops (cache_store ops c k h) = (cache_lookup ops c)(k \<mapsto> h))
    \<and> (\<forall>c n k. room c n \<longrightarrow> room (cache_touch ops c k) n \<and> cache_lookup ops (cache_touch ops c k) = cache_lookup ops c)"

lemma serve_run:
  fixes ops :: "('c, 'h) session_cache"
  assumes "keeps_sessions ops room" "handles \<noteq> []"
    and "balanced handles t (weighted_servers m)" "room (request_id_to_server m) (card (set rs - dom (cache_lookup ops (request_id_to_server m))))"
    and "ran (cache_lookup ops (request_id_to_server m)) \<subseteq> set handles"
  shows "\<exists>hs m'. serve ops rs m = Inr (hs, m') \<and> length hs = length rs \<and> set hs \<subseteq> set handles
    \<and> balanced handles (t + card (set rs - dom (cache_lookup ops (request_id_to_server m)))) (weighted_servers m')
    \<and> (\<forall>i < length rs. cache_lookup ops (request_id_to_server m') (rs ! i) = Some (hs ! i))
    \<and> cache_lookup ops (request_id_to_server m) \<subseteq>\<^sub>m cache_lookup ops (request_id_to_server m')"
  using assms(3-5)
proof (induction rs arbitrary: m t)
  case (Cons r rs)
  let ?L = "cache_lookup ops (request_id_to_server m)"
  show ?case
  proof (cases "?L r")
    case (Some h)
    let ?m = "m\<lparr>request_id_to_server := cache_touch ops (request_id_to_server m) r\<rparr>"
    have same: "set (r # rs) - dom ?L = set rs - dom ?L" using Some by auto
    have L: "cache_lookup ops (request_id_to_server ?m) = ?L"
      and room: "room (request_id_to_server ?m) (card (set rs - dom ?L))"
      using assms(1) Cons.prems(2) unfolding same by (auto simp: keeps_sessions_def)
    obtain hs m' where run: "serve ops rs ?m = Inr (hs, m')" "length hs = length rs" "set hs \<subseteq> set handles"
        "balanced handles (t + card (set rs - dom ?L)) (weighted_servers m')"
        "\<forall>i < length rs. cache_lookup ops (request_id_to_server m') (rs ! i) = Some (hs ! i)"
        "?L \<subseteq>\<^sub>m cache_lookup ops (request_id_to_server m')"
      using Cons.IH [of t ?m] Cons.prems(1,3) room unfolding L by auto
    have "h \<in> set handles" using Some Cons.prems(3) by (auto simp: ran_def)
    moreover have "cache_lookup ops (request_id_to_server m') r = Some h"
      using run(6) Some by (auto simp: map_le_def dom_def)
    moreover have "serve ops (r # rs) m = Inr (h # hs, m')"
      using Some run(1) by (simp add: choose_server_def)
    ultimately show ?thesis
      using run unfolding same by (auto simp: nth_Cons split: nat.split)
  next
    case None
    obtain n i h rest where ws: "weighted_servers m = (n, i, h) # rest"
    proof (cases "weighted_servers m")
      case Nil
      then have "zip [0..<length handles] handles = []" using Cons.prems(1) by (simp add: balanced_def)
      then have "length handles = 0" by (metis length_0_conv length_upt length_zip diff_zero min.idem)
      then show ?thesis using assms(2) by simp
    qed (auto intro: that)
    let ?m = "m\<lparr>weighted_servers := heap_insert (n + 1, i, h) rest,
      request_id_to_server := cache_store ops (request_id_to_server m) r h\<rparr>"
    have c: "card (set (r # rs) - dom ?L) = Suc (card (set rs - dom (?L(r \<mapsto> h))))"
    proof -
      have "set (r # rs) - dom ?L = insert r (set rs - dom (?L(r \<mapsto> h)))" using None by auto
      then show ?thesis by simp
    qed
    have L: "cache_lookup ops (request_id_to_server ?m) = ?L(r \<mapsto> h)"
      and room: "room (request_id_to_server ?m) (card (set rs - dom (?L(r \<mapsto> h))))"
      using assms(1) Cons.prems(2) unfolding c keeps_sessions_def by auto
    have "(i, h) \<in> set (zip [0..<length handles] handles)"
    proof -
      have "mset (map snd (weighted_servers m)) = mset (zip [0..<length handles] handles)"
        using Cons.prems(1) by (simp add: balanced_def)
      then have "set (map snd (weighted_servers m)) = set (zip [0..<length handles] handles)" by (metis set_mset_mset)
      then show ?thesis by (auto simp: ws)
    qed
    then have h: "h \<in> set handles" by (rule set_zip_rightD)
    have ran: "ran (cache_lookup ops (request_id_to_server ?m)) \<subseteq> set handles"
      unfolding L using Cons.prems(3) h None by (simp add: ran_map_upd)
    have b: "balanced handles (t + 1) (weighted_servers ?m)"
      using balanced_insert [of handles t n i h rest] Cons.prems(1) ws by simp
    obtain hs m' where run: "serve ops rs ?m = Inr (hs, m')" "length hs = length rs" "set hs \<subseteq> set handles"
        "balanced handles (t + 1 + card (set rs - dom (?L(r \<mapsto> h)))) (weighted_servers m')"
        "\<forall>i < length rs. cache_lookup ops (request_id_to_server m') (rs ! i) = Some (hs ! i)"
        "?L(r \<mapsto> h) \<subseteq>\<^sub>m cache_lookup ops (request_id_to_server m')"
      using Cons.IH [OF b _ ran] room unfolding L by blast
    have "cache_lookup ops (request_id_to_server m') r = Some h" "?L \<subseteq>\<^sub>m cache_lookup ops (request_id_to_server m')"
      using run(6) None by (auto simp: map_le_def dom_def split: if_splits)
    moreover have "serve ops (r # rs) m = Inr (h # hs, m')"
      using None run(1) by (simp add: choose_server_def ws)
    ultimately show ?thesis
      using run h unfolding c by (auto simp: nth_Cons split: nat.split)
  qed
qed auto

text \<open>Requests are balanced over the servers and sessions are sticky. As long as the session cache has room, no request fails, all turns of one request id go to the
  same server, every id is counted once, and the counts of any two servers differ by at most one.\<close>

theorem sessions_sticky_and_balanced:
  assumes "keeps_sessions ops room" "handles \<noteq> []" "room c (card (set rs))" "\<forall>k. cache_lookup ops c k = None"
  shows "\<exists>hs m. serve ops rs (init_server_manager c handles) = Inr (hs, m)
    \<and> length hs = length rs \<and> set hs \<subseteq> set handles
    \<and> (\<forall>i < length rs. \<forall>j < length rs. rs ! i = rs ! j \<longrightarrow> hs ! i = hs ! j)
    \<and> sum_list (map fst (weighted_servers m)) = card (set rs)
    \<and> (\<forall>e \<in> set (weighted_servers m). \<forall>f \<in> set (weighted_servers m). fst f \<le> fst e + 1)"
proof -
  have L: "cache_lookup ops c = (\<lambda>_. None)" using assms(4) by auto
  let ?m = "init_server_manager c handles"
  have c: "request_id_to_server ?m = c" by (simp add: init_server_manager_def)
  have "room c (card (set rs - dom (cache_lookup ops (request_id_to_server ?m))))"
    "ran (cache_lookup ops (request_id_to_server ?m)) \<subseteq> set handles"
    using assms(3) by (simp_all add: L c)
  then obtain hs m' where run: "serve ops rs ?m = Inr (hs, m')" "length hs = length rs" "set hs \<subseteq> set handles"
      "balanced handles (0 + card (set rs - dom (cache_lookup ops (request_id_to_server ?m)))) (weighted_servers m')"
      "\<forall>i < length rs. cache_lookup ops (request_id_to_server m') (rs ! i) = Some (hs ! i)"
    using serve_run [OF assms(1,2) balanced_init [of handles c], of rs, unfolded c] unfolding c by blast
  then have "balanced handles (card (set rs)) (weighted_servers m')" by (simp add: L c)
  have "hs ! i = hs ! j" if "i < length rs" "j < length rs" "rs ! i = rs ! j" for i j
    using run(5) that by (metis option.inject)
  then show ?thesis
    using run(1-3) \<open>balanced handles (card (set rs)) (weighted_servers m')\<close> unfolding balanced_def by blast
qed

definition lru_demo :: "((string \<times> string) list, string) session_cache" where
  "lru_demo = \<lparr>cache_lookup = (\<lambda>c k. map_of c k),
     cache_touch = (\<lambda>c k. case map_of c k of None \<Rightarrow> c | Some h \<Rightarrow> (k, h) # AList.delete k c),
     cache_store = (\<lambda>c k h. take 2 ((k, h) # AList.delete k c))\<rparr>"

lemma map_of_take_all: "length c \<le> n \<Longrightarrow> take n c = c"
  by simp

lemma lru_demo_keeps: "keeps_sessions lru_demo (\<lambda>c n. distinct (map fst c) \<and> length c + n \<le> 2)"
  unfolding keeps_sessions_def
proof (intro conjI allI impI)
  fix c :: "(string \<times> string) list" and n k h
  assume c: "distinct (map fst c) \<and> length c + Suc n \<le> 2"
  have d: "length (AList.delete k c) \<le> length c" "distinct (map fst (AList.delete k c))"
    using c by (simp_all add: length_delete_le distinct_delete)
  have k: "k \<notin> set (map fst (AList.delete k c))" by (simp add: delete_keys)
  have s: "cache_store lru_demo c k h = (k, h) # AList.delete k c" using c d by (simp add: lru_demo_def)
  show "distinct (map fst (cache_store lru_demo c k h))" "length (cache_store lru_demo c k h) + n \<le> 2"
    using c d k by (simp_all add: s)
  show "cache_lookup lru_demo (cache_store lru_demo c k h) = (cache_lookup lru_demo c)(k \<mapsto> h)"
    unfolding s by (auto simp: lru_demo_def delete_conv)
next
  fix c :: "(string \<times> string) list" and n k
  assume c: "distinct (map fst c) \<and> length c + n \<le> 2"
  have t: "cache_touch lru_demo c k = (case map_of c k of None \<Rightarrow> c | Some h \<Rightarrow> (k, h) # AList.delete k c)"
    by (simp add: lru_demo_def)
  have len: "length (AList.delete k c) + 1 \<le> length c" if "(k, x) \<in> set c" for x
    using that by (induction c) (auto simp: length_delete_le Suc_le_eq less_Suc_eq_le split: if_splits)
  show "distinct (map fst (cache_touch lru_demo c k))"
    using c distinct_delete [of c k] by (auto simp: t delete_keys split: option.split)
  show "length (cache_touch lru_demo c k) + n \<le> 2"
    using c len by (fastforce simp: t split: option.split dest: map_of_SomeD)
  show "cache_lookup lru_demo (cache_touch lru_demo c k) = cache_lookup lru_demo c"
    by (auto simp: t lru_demo_def delete_conv split: option.split)
qed

theorem sessions_sticky_and_balanced_witness:
  "\<exists>hs m. serve lru_demo [''a'', ''b'', ''a''] (init_server_manager [] [''s0'', ''s1'']) = Inr (hs, m)
    \<and> length hs = 3 \<and> hs ! 0 = hs ! 2 \<and> sum_list (map fst (weighted_servers m)) = 2"
proof -
  have "(\<lambda>c n. distinct (map fst c) \<and> length c + n \<le> 2) ([] :: (string \<times> string) list) (card (set [''a'', ''b'', ''a'']))"
    by (simp add: card_insert_if)
  moreover have "\<forall>k. cache_lookup lru_demo [] k = None" by (simp add: lru_demo_def)
  ultimately obtain hs m where run: "serve lru_demo [''a'', ''b'', ''a''] (init_server_manager [] [''s0'', ''s1'']) = Inr (hs, m)"
    "length hs = length [''a'', ''b'', ''a'']" "sum_list (map fst (weighted_servers m)) = card (set [''a'', ''b'', ''a''])"
    and eq: "\<forall>i < length [''a'', ''b'', ''a'']. \<forall>j < length [''a'', ''b'', ''a''].
         [''a'', ''b'', ''a''] ! i = [''a'', ''b'', ''a''] ! j \<longrightarrow> hs ! i = hs ! j"
    using sessions_sticky_and_balanced [OF lru_demo_keeps, of "[''s0'', ''s1'']" "[]" "[''a'', ''b'', ''a'']"] by blast
  have "hs ! 0 = hs ! 2" using eq [rule_format, of 0 2] by simp
  then show ?thesis using run by (auto simp: card_insert_if)
qed

subsection \<open>The router loses count of failed requests\<close>

lemma fold_least:
  fixes rest :: "(string \<times> nat) list"
  shows "fold (\<lambda>(v, k) (b, m). if k < m then (v, k) else (b, m)) rest (u, n) = (w, l) \<Longrightarrow>
    (w, l) \<in> set ((u, n) # rest) \<and> (\<forall>(v, k) \<in> set ((u, n) # rest). l \<le> k)"
proof (induction rest arbitrary: u n)
  case (Cons p rest)
  obtain v k where p: "p = (v, k)" by (cases p)
  show ?case
  proof (cases "k < n")
    case True
    then show ?thesis using Cons.IH [of v k] Cons.prems p by fastforce
  next
    case False
    then show ?thesis using Cons.IH [of u n] Cons.prems p by fastforce
  qed
qed simp

lemma select_worker_least:
  assumes "select_worker counts = Inr (url, counts')" "wf_dict counts"
  obtains n where "map_of counts url = Some n" "\<forall>(v, k) \<in> set counts. n \<le> k" "counts' = AList.update url (n + 1) counts"
proof -
  obtain u n rest where c: "counts = (u, n) # rest"
    using assms(1) by (auto simp: select_worker_def split: list.splits)
  obtain w l where f: "fold (\<lambda>(v, k) (b, m). if k < m then (v, k) else (b, m)) rest (u, n) = (w, l)" by fastforce
  have "url = w" "counts' = AList.update w (l + 1) counts"
    using assms(1) unfolding c select_worker_def Let_def list.case prod.case f by auto
  moreover have "map_of counts w = Some l"
    using fold_least [OF f] assms(2) unfolding c by (auto simp: wf_dict_def keys_def rev_image_eqI)
  ultimately show ?thesis using that fold_least [OF f] c by blast
qed

text \<open>The router sends a request to a least loaded worker and forgets it again only if it was answered: after any failure (time-outs, no
  connection, an HTTP error) the worker keeps the request in its count for ever.\<close>

theorem router_counts_failed_requests:
  assumes "make_async_request max_attempts outcomes counts = Inr (r, counts')" "wf_dict counts" "counts \<noteq> []"
  shows "\<exists>url n. map_of counts url = Some n \<and> list_all (\<lambda>(v, k). n \<le> k) counts
    \<and> map_of counts' = (map_of counts)(url \<mapsto> (if r = Output then n else n + 1))"
proof -
  obtain url c1 where s: "select_worker counts = Inr (url, c1)"
    and r: "(case try_request max_attempts 0 outcomes of
         Output \<Rightarrow> rbind (release_worker url c1) (\<lambda>counts. Inr (Output, counts))
       | r \<Rightarrow> Inr (r, c1)) = (Inr (r, counts') :: (request_result \<times> (string, nat) dict) result)"
    using assms(1,3) by (auto simp: make_async_request_def rbind_Inr_iff)
  obtain n where n: "map_of counts url = Some n" "\<forall>(v, k) \<in> set counts. n \<le> k" "c1 = AList.update url (n + 1) counts"
    using select_worker_least [OF s assms(2)] .
  have "map_of counts' = (map_of counts)(url \<mapsto> (if r = Output then n else n + 1))"
    using r n(3) by (cases "try_request max_attempts 0 outcomes") (auto simp: release_worker_def rbind_Inr_iff)
  then show ?thesis using n by (auto simp: list_all_iff)
qed

theorem router_counts_failed_requests_witness:
  "make_async_request 3 (\<lambda>i. TimedOut) [(''a'', 2), (''b'', 0)] = Inr (Exhausted, [(''a'', 2), (''b'', 1)])
   \<and> (\<exists>url n. map_of [(''a'', 2), (''b'', 0)] url = Some n \<and> list_all (\<lambda>(v, k). n \<le> k) [(''a'', 2), (''b'', 0 :: nat)]
    \<and> map_of [(''a'', 2), (''b'', 1)] = (map_of [(''a'', 2), (''b'', 0)])(url \<mapsto> (if Exhausted = Output then n else n + 1)))"
proof -
  have "make_async_request 3 (\<lambda>i. TimedOut) [(''a'', 2), (''b'', 0)] = Inr (Exhausted, [(''a'', 2), (''b'', 1)])"
    by code_simp
  with router_counts_failed_requests [OF this] show ?thesis by (simp add: wf_dict_def)
qed

end
