(* ===== verification/Metrics.thy ===== *)
theory Metrics
  imports Tensor PyString
begin

section \<open>Collecting and aggregating metrics\<close>

text \<open>
  \<open>verl/utils/metric/utils.py\<close>: the class \<open>Metric\<close> and \<open>reduce_metrics\<close>. \<open>experimental/fully_async_policy/detach_utils.py\<close>: the
  \<open>MetricsAggregator\<close> that combines the metrics of several steps. Numbers are reals; numpy arrays as single values of
  a \<open>Metric\<close> are left out, and the time stamps of steps, which nothing reads, are too. The mean of no values is a NaN, the maximum
  or minimum of none raises.
\<close>

subsection \<open>Metric\<close>

datatype aggregation_type = AggMean | AggSum | AggMin | AggMax

record metric =
  aggregation :: aggregation_type
  metric_values :: vec

datatype metric_input =
    Number real
  | ScalarTensor "real list" \<comment> \<open>a tensor with its elements\<close>
  | ListOf "metric_input list"
  | OtherMetric metric
  | OtherValue \<comment> \<open>neither number nor tensor: a string, None, a dictionary\<close>

definition aggregation_of :: "string \<Rightarrow> aggregation_type result" where
  "aggregation_of s =
    (if s = ''mean'' then Inr AggMean else if s = ''sum'' then Inr AggSum
     else if s = ''min'' then Inr AggMin else if s = ''max'' then Inr AggMax else Inl ValueError)"

definition init_list :: "metric \<Rightarrow> metric" where
  "init_list m = \<lparr>aggregation = aggregation m, metric_values = []\<rparr>"

fun append_number :: "real \<Rightarrow> metric \<Rightarrow> metric result" where
  "append_number x m = Inr (m\<lparr>metric_values := metric_values m @ [x]\<rparr>)"

definition extend_metric :: "metric \<Rightarrow> metric \<Rightarrow> metric result" where
  "extend_metric other m =
    rbind (ensure ValueError (aggregation other = aggregation m)) (\<lambda>_.
    rfold append_number (metric_values other) m)"

fun append_value :: "metric_input \<Rightarrow> metric \<Rightarrow> metric result" where
  "append_value (OtherMetric other) m = extend_metric other m"
| "append_value (ScalarTensor xs) m = (case xs of [x] \<Rightarrow> append_number x m | _ \<Rightarrow> Inl ValueError)"
| "append_value (Number x) m = append_number x m"
| "append_value (ListOf _) m = Inl ValueError"
| "append_value OtherValue m = Inl ValueError"

definition extend_list :: "metric_input list \<Rightarrow> metric \<Rightarrow> metric result" where
  "extend_list vs m = rfold append_value vs m"

definition new_metric :: "string \<Rightarrow> metric_input option \<Rightarrow> metric result" where
  "new_metric s v = rbind (aggregation_of s) (\<lambda>a.
     let m = \<lparr>aggregation = a, metric_values = []\<rparr>
     in case v of None \<Rightarrow> Inr m | Some x \<Rightarrow> append_value x m)"

definition metrics_from_dict :: "(string, metric_input) dict \<Rightarrow> string \<Rightarrow> (string, metric) dict result" where
  "metrics_from_dict data s = rmap (\<lambda>(k, v). rbind (new_metric s (Some v)) (\<lambda>m. Inr (k, m))) data"

fun aggregate_values :: "vec \<Rightarrow> aggregation_type \<Rightarrow> real result" where
  "aggregate_values vs AggMean = (if vs = [] then Inl NonFinite else Inr (vmean vs))"
| "aggregate_values vs AggSum = Inr (sum_list vs)"
| "aggregate_values vs AggMin = (if vs = [] then Inl ValueError else Inr (vmin vs))"
| "aggregate_values vs AggMax = (if vs = [] then Inl ValueError else Inr (vmax vs))"

definition aggregate :: "metric \<Rightarrow> real result" where
  "aggregate m = aggregate_values (metric_values m) (aggregation m)"

text \<open>\<open>np.mean\<close> over the first axis of a rectangular array.\<close>

definition mean_columns :: "vec list \<Rightarrow> vec" where
  "mean_columns rows = map (\<lambda>j. vmean (map (\<lambda>r. r ! j) rows)) [0..<length (hd rows)]"

definition aggregate_dp :: "metric list \<Rightarrow> real result" where
  "aggregate_dp metric_lists =
    rbind (ensure ValueError (metric_lists \<noteq> [])) (\<lambda>_.
    let value_lists = map metric_values metric_lists
    in rbind (ensure ValueError (list_all (\<lambda>ls. length ls = length (hd value_lists)) value_lists)) (\<lambda>_.
       let a = aggregation (hd metric_lists)
       in if a = AggSum \<or> a = AggMean then aggregate_values (mean_columns value_lists) a
          else aggregate_values (concat value_lists) a))"

datatype logged = LMetric metric | LList vec

fun reduce_metric :: "string \<times> logged \<Rightarrow> (string \<times> real) result" where
  "reduce_metric (key, LMetric m) = rbind (aggregate m) (\<lambda>x. Inr (key, x))"
| "reduce_metric (key, LList vs) =
     rbind (aggregate_values vs (if contains ''max'' key then AggMax else if contains ''min'' key then AggMin else AggMean))
       (\<lambda>x. Inr (key, x))"

definition reduce_metrics :: "(string, logged) dict \<Rightarrow> (string, real) dict result" where
  "reduce_metrics metrics = rmap reduce_metric metrics"

subsection \<open>The aggregator of several steps\<close>

record metrics_aggregator =
  ma_values :: "(string, vec) dict"
  sample_counts :: "int list"
  step_count :: nat
  total_gpus :: real

definition new_aggregator :: "real \<Rightarrow> metrics_aggregator" where
  "new_aggregator gpus = \<lparr>ma_values = [], sample_counts = [], step_count = 0, total_gpus = gpus\<rparr>"

definition reset_aggregator :: "metrics_aggregator \<Rightarrow> metrics_aggregator" where
  "reset_aggregator s = s\<lparr>ma_values := [], sample_counts := [], step_count := 0\<rparr>"

definition push_value :: "string \<Rightarrow> real \<Rightarrow> metrics_aggregator \<Rightarrow> metrics_aggregator" where
  "push_value key x s = s\<lparr>ma_values := AList.update key
     ((case map_of (ma_values s) key of None \<Rightarrow> [] | Some vs \<Rightarrow> vs) @ [x]) (ma_values s)\<rparr>"

text \<open>The counters are updated first; a tensor with several elements then raises in the middle of the loop, and the
  state keeps what was stored until there.\<close>

fun store_metrics :: "(string, metric_input) dict \<Rightarrow> metrics_aggregator \<Rightarrow> metrics_aggregator \<times> unit result" where
  "store_metrics [] s = (s, Inr ())"
| "store_metrics ((key, v) # d) s = (case v of
     Number x \<Rightarrow> store_metrics d (push_value key x s)
   | ScalarTensor xs \<Rightarrow> (case xs of [x] \<Rightarrow> store_metrics d (push_value key x s) | _ \<Rightarrow> (s, Inl RuntimeError))
   | _ \<Rightarrow> store_metrics d s)"

definition add_step_metrics ::
  "(string, metric_input) dict \<Rightarrow> int \<Rightarrow> metrics_aggregator \<Rightarrow> metrics_aggregator \<times> unit result" where
  "add_step_metrics metrics sample_count s =
    store_metrics metrics (s\<lparr>sample_counts := sample_counts s @ [sample_count], step_count := step_count s + 1\<rparr>)"

datatype rule = TimeSum | RuleMin | RuleAvg | RuleMax | RuleLast | RuleSum | WeightedAvg

definition aggregation_rules :: "(rule \<times> string list) list" where
  "aggregation_rules =
    [(TimeSum, [''perf/time_per_step'']),
     (RuleMin, [''timing_s/agent_loop/tool_calls/min'']),
     (RuleAvg, [''timing_s/agent_loop/tool_calls/mean'']),
     (RuleMax, [''timing_s/agent_loop/tool_calls/max'']),
     (RuleLast, [''fully_async/count/total_generated_samples'', ''fully_async/count/stale_samples_processed'',
        ''fully_async/count/stale_trajectory_processed'', ''fully_async/count/current_param_version'',
        ''fully_async/count/dropped_stale_samples'', ''training/global_step''])]"

definition get_aggregation_type :: "string \<Rightarrow> rule" where
  "get_aggregation_type name = (case find (\<lambda>(r, names). name \<in> set names) aggregation_rules of
      Some (r, _) \<Rightarrow> r
    | None \<Rightarrow>
       (let metric_lower = to_lower name; any = (\<lambda>ws. list_ex (\<lambda>w. contains w metric_lower) ws)
        in if any [''timing_s/''] then TimeSum
           else if any [''mean'', ''avg'', ''average''] then RuleAvg
           else if any [''max'', ''maximum''] then RuleMax
           else if any [''min'', ''minimum''] then RuleMin
           else if any [''sum'', ''total''] then RuleSum
           else if any [''weighted_avg''] then WeightedAvg
           else RuleAvg))"

definition aggregate_single_metric :: "metrics_aggregator \<Rightarrow> string \<Rightarrow> vec \<Rightarrow> real" where
  "aggregate_single_metric s name vs =
    (if vs = [] then 0
     else case get_aggregation_type name of
       RuleLast \<Rightarrow> last vs
     | WeightedAvg \<Rightarrow>
         (if length vs \<noteq> length (sample_counts s) then sum_list vs / real (length vs)
          else let total_samples = sum_list (sample_counts s)
            in if total_samples = 0 then sum_list vs / real (length vs)
               else sum_list (map2 (\<lambda>v c. v * of_int c) vs (sample_counts s)) / of_int total_samples)
     | RuleSum \<Rightarrow> sum_list vs
     | TimeSum \<Rightarrow> sum_list vs
     | RuleAvg \<Rightarrow> sum_list vs / real (length vs)
     | RuleMax \<Rightarrow> vmax vs
     | RuleMin \<Rightarrow> vmin vs)"

definition py_truediv :: "real \<Rightarrow> real \<Rightarrow> real result" where
  "py_truediv a b = (if b = 0 then Inl ZeroDivisionError else Inr (a / b))"

definition special_metrics :: "metrics_aggregator \<Rightarrow> (string, real) dict \<Rightarrow> (string, real) dict result" where
  "special_metrics s a =
    rbind (if ''global_seqlen/minmax_diff'' \<in> set (keys a) then
        rbind (dget a ''global_seqlen/max'') (\<lambda>hi. rbind (dget a ''global_seqlen/min'') (\<lambda>lo.
        Inr (AList.update ''global_seqlen/minmax_diff'' (hi - lo) a))) else Inr a) (\<lambda>a.
    rbind (case (map_of a ''perf/throughput'', map_of a ''perf/total_num_tokens'', map_of a ''perf/time_per_step'') of
        (Some _, Some tokens, Some time) \<Rightarrow> rbind (py_truediv tokens (time * total_gpus s)) (\<lambda>x.
          Inr (AList.update ''perf/throughput'' x a))
      | _ \<Rightarrow> Inr a) (\<lambda>a.
    case (map_of a ''timing_s/gen'', map_of a ''timing_s/step'') of
        (Some gen, Some step) \<Rightarrow> rbind (py_truediv gen step) (\<lambda>x. Inr (AList.update ''trainer/idle_ratio'' x a))
      | _ \<Rightarrow> Inr a))"

definition get_aggregated_metrics :: "metrics_aggregator \<Rightarrow> (string, real) dict result" where
  "get_aggregated_metrics s =
    (if step_count s = 0 then Inr []
     else special_metrics s (map (\<lambda>(name, vs). (name, aggregate_single_metric s name vs)) (ma_values s)))"

subsection \<open>Aggregation over data-parallel ranks\<close>

lemma rfold_append_number:
  "rfold append_number xs m = Inr (m\<lparr>metric_values := metric_values m @ xs\<rparr>)"
  by (induction xs arbitrary: m) simp_all

lemma rfold_extend_metric:
  "list_all (\<lambda>x. aggregation x = aggregation m) ms \<Longrightarrow>
    rfold extend_metric ms m = Inr (m\<lparr>metric_values := metric_values m @ concat (map metric_values ms)\<rparr>)"
  by (induction ms arbitrary: m) (simp_all add: extend_metric_def rfold_append_number)

lemma sum_list_columns:
  fixes rows :: "vec list"
  assumes "list_all (\<lambda>r. length r = k) rows"
  shows "sum_list (map (\<lambda>j. sum_list (map (\<lambda>r. r ! j) rows)) [0..<k]) = sum_list (concat rows)" (is "?l rows = _")
  using assms
proof (induction rows)
  case (Cons r rows)
  then have "sum_list (map ((!) r) [0..<k]) = sum_list r" by (auto simp: map_nth)
  then show ?case using Cons by (simp add: sum_list_addf)
qed simp

lemma sum_mean_columns:
  assumes "rows \<noteq> []" "list_all (\<lambda>r. length r = k) rows"
  shows "sum_list (mean_columns rows) = sum_list (concat rows) / real (length rows)"
    and "length (mean_columns rows) = k"
proof -
  have "length (hd rows) = k" using assms by (cases rows) simp_all
  then show "length (mean_columns rows) = k" "sum_list (mean_columns rows) = sum_list (concat rows) / real (length rows)"
    using sum_list_columns [OF assms(2)]
    by (simp_all add: mean_columns_def vmean_def sum_list_divide)
qed

lemma length_concat_const: "list_all (\<lambda>r. length r = k) rows \<Longrightarrow> length (concat rows) = length rows * k"
  by (induction rows) auto

text \<open>Aggregating a metric over the data-parallel ranks gives what aggregating all values at once
  gives: if every rank recorded the same positive number of values under the same
  aggregation, \<open>aggregate_dp\<close> equals the aggregate of the one metric that was extended by all of
  them, divided by the number of ranks if the aggregation is a sum.\<close>

theorem dp_aggregation_is_global:
  assumes "ms \<noteq> []" "0 < k" "list_all (\<lambda>m. length (metric_values m) = k \<and> aggregation m = a) ms"
  shows "\<exists>g. rfold extend_metric ms (init_list (hd ms)) = Inr g
    \<and> aggregate_dp ms = rbind (aggregate g) (\<lambda>x. Inr (if a = AggSum then x / real (length ms) else x))"
proof -
  let ?rows = "map metric_values ms"
  have rows: "?rows \<noteq> []" "list_all (\<lambda>r. length r = k) ?rows" "list_all (\<lambda>r. length r = length (hd ?rows)) ?rows"
    and a: "aggregation (hd ms) = a"
    using assms by (cases ms; auto simp: list_all_iff)+
  have "list_all (\<lambda>x. aggregation x = aggregation (init_list (hd ms))) ms"
    using assms(3) a by (auto simp: list_all_iff init_list_def)
  from rfold_extend_metric [OF this]
  have g: "rfold extend_metric ms (init_list (hd ms)) = Inr \<lparr>aggregation = a, metric_values = concat ?rows\<rparr>"
    using a by (simp add: init_list_def)
  have n: "length (concat ?rows) = length ms * k" using length_concat_const [OF rows(2)] by simp
  then have ne: "concat ?rows \<noteq> []" using assms(1,2) by (metis length_0_conv mult_eq_0_iff not_gr_zero)
  note cols = sum_mean_columns [OF rows(1,2)]
  have ne': "mean_columns ?rows \<noteq> []" using cols(2) assms(2) by auto
  have "aggregate_dp ms = rbind (aggregate_values (concat ?rows) a) (\<lambda>x. Inr (if a = AggSum then x / real (length ms) else x))"
    using assms(1) rows a ne ne' cols n
    by (cases a) (simp_all add: aggregate_dp_def Let_def vmean_def hd_map mult.commute)
  then show ?thesis using g by (auto simp: aggregate_def)
qed

theorem dp_aggregation_is_global_witness:
  "aggregate_dp [\<lparr>aggregation = AggMean, metric_values = [1, 2]\<rparr>, \<lparr>aggregation = AggMean, metric_values = [3, 6]\<rparr>] = Inr 3"
proof -
  let ?ms = "[\<lparr>aggregation = AggMean, metric_values = [1, 2]\<rparr>, \<lparr>aggregation = AggMean, metric_values = [3, 6]\<rparr>]"
  have "\<exists>g. rfold extend_metric ?ms (init_list (hd ?ms)) = Inr g
    \<and> aggregate_dp ?ms = rbind (aggregate g) (\<lambda>x. Inr (if AggMean = AggSum then x / real (length ?ms) else x))"
    by (rule dp_aggregation_is_global [where k = 2]) simp_all
  then show ?thesis by (auto simp: extend_metric_def init_list_def aggregate_def vmean_def)
qed

text \<open>\<open>Metric(aggregation, [1.0, 2.0])\<close>, a list of initial values, raises.\<close>

lemma initial_list_raises: "new_metric ''mean'' (Some (ListOf vs)) = Inl ValueError"
  by (simp add: new_metric_def aggregation_of_def)

subsection \<open>What an aggregator holds\<close>

definition step_values :: "string \<Rightarrow> (string, metric_input) dict \<Rightarrow> vec" where
  "step_values key d = concat (map (\<lambda>(k, v). if k = key then (case v of Number x \<Rightarrow> [x] | ScalarTensor [x] \<Rightarrow> [x] | _ \<Rightarrow> []) else []) d)"

definition stored :: "metrics_aggregator \<Rightarrow> string \<Rightarrow> vec" where
  "stored s key = (case map_of (ma_values s) key of None \<Rightarrow> [] | Some vs \<Rightarrow> vs)"

definition no_empty_series :: "metrics_aggregator \<Rightarrow> bool" where
  "no_empty_series s \<longleftrightarrow> wf_dict (ma_values s) \<and> list_all (\<lambda>(k, vs). vs \<noteq> []) (ma_values s)"

definition scalars_only :: "(string, metric_input) dict \<Rightarrow> bool" where
  "scalars_only d = list_all (\<lambda>(k, v). case v of ScalarTensor xs \<Rightarrow> length xs = 1 | _ \<Rightarrow> True) d"

lemma stored_push [simp]:
  "stored (push_value key x s) k = (if k = key then stored s k @ [x] else stored s k)"
  by (simp add: stored_def push_value_def)

lemma no_empty_push: "no_empty_series s \<Longrightarrow> no_empty_series (push_value key x s)"
  by (simp add: no_empty_series_def push_value_def list_all_update)

lemma push_fields [simp]:
  "sample_counts (push_value key x s) = sample_counts s" "step_count (push_value key x s) = step_count s"
  "total_gpus (push_value key x s) = total_gpus s"
  by (simp_all add: push_value_def)

lemma store_metrics_spec:
  assumes "scalars_only d"
  shows "\<exists>s'. store_metrics d s = (s', Inr ()) \<and> stored s' k = stored s k @ step_values k d
    \<and> (no_empty_series s \<longrightarrow> no_empty_series s') \<and> sample_counts s' = sample_counts s
    \<and> step_count s' = step_count s \<and> total_gpus s' = total_gpus s"
  using assms
proof (induction d arbitrary: s)
  case Nil
  then show ?case by (simp add: step_values_def)
next
  case (Cons p d)
  obtain key v where p: "p = (key, v)" by (cases p)
  have d: "scalars_only d" using Cons.prems by (simp add: scalars_only_def)
  show ?case
  proof (cases v)
    case (Number x)
    then show ?thesis using Cons.IH [OF d, of "push_value key x s"] p by (auto simp: step_values_def no_empty_push)
  next
    case (ScalarTensor xs)
    then obtain x where "xs = [x]" using Cons.prems p by (auto simp: scalars_only_def length_Suc_conv)
    then show ?thesis using Cons.IH [OF d, of "push_value key x s"] p ScalarTensor by (auto simp: step_values_def no_empty_push)
  qed (use Cons.IH [OF d, of s] p in \<open>auto simp: step_values_def\<close>)
qed

fun add_steps :: "((string, metric_input) dict \<times> int) list \<Rightarrow> metrics_aggregator \<Rightarrow> metrics_aggregator" where
  "add_steps [] s = s"
| "add_steps ((d, c) # ds) s = add_steps ds (fst (add_step_metrics d c s))"

lemma add_steps_spec:
  assumes "list_all (\<lambda>(d, c). scalars_only d) ds"
  shows "stored (add_steps ds s) k = stored s k @ concat (map (\<lambda>(d, c). step_values k d) ds)
    \<and> (no_empty_series s \<longrightarrow> no_empty_series (add_steps ds s)) \<and> sample_counts (add_steps ds s) = sample_counts s @ map snd ds
    \<and> step_count (add_steps ds s) = step_count s + length ds \<and> total_gpus (add_steps ds s) = total_gpus s"
  using assms
proof (induction ds arbitrary: s)
  case (Cons p ds)
  obtain d c where p: "p = (d, c)" by (cases p)
  let ?s = "s\<lparr>sample_counts := sample_counts s @ [c], step_count := step_count s + 1\<rparr>"
  obtain s' where s': "store_metrics d ?s = (s', Inr ())" "stored s' k = stored ?s k @ step_values k d"
    "no_empty_series ?s \<longrightarrow> no_empty_series s'" "sample_counts s' = sample_counts ?s" "step_count s' = step_count ?s"
    "total_gpus s' = total_gpus ?s"
    using store_metrics_spec [of d ?s k] Cons.prems p by auto
  have "list_all (\<lambda>(d, c). scalars_only d) ds" using Cons.prems by simp
  note IH = Cons.IH [OF this, of s']
  have "add_steps (p # ds) s = add_steps ds s'" using s'(1) p by (simp add: add_step_metrics_def)
  then show ?case using IH s' p by (simp add: stored_def no_empty_series_def)
qed simp

lemma stored_new [simp]: "stored (new_aggregator g) k = []" "no_empty_series (new_aggregator g)"
  "step_count (new_aggregator g) = 0" "total_gpus (new_aggregator g) = g" "sample_counts (new_aggregator g) = []"
  by (simp_all add: stored_def new_aggregator_def no_empty_series_def wf_dict_def)

lemma stored_Some:
  "no_empty_series s \<Longrightarrow> map_of (ma_values s) k = (if stored s k = [] then None else Some (stored s k))"
  by (fastforce simp: no_empty_series_def stored_def list_all_iff split: option.splits dest: map_of_SomeD)

lemma map_of_aggregated:
  assumes "no_empty_series s"
  shows "map_of (map (\<lambda>(name, vs). (name, f name vs)) (ma_values s)) k
    = (if stored s k = [] then None else Some (f k (stored s k)))"
proof -
  have "map_of (map (\<lambda>(name, vs). (name, f name vs)) d) k = map_option (f k) (map_of d k)" for d
    by (induction d) auto
  then show ?thesis using stored_Some [OF assms] by simp
qed

lemma contains_trans: "contains p q \<Longrightarrow> contains q s \<Longrightarrow> contains p s"
  unfolding contains_iff by (metis append.assoc)

text \<open>No name is aggregated by the weighted average: what contains \<open>weighted_avg\<close> contains \<open>avg\<close>.\<close>

lemma weighted_avg_unreachable: "get_aggregation_type name \<noteq> WeightedAvg"
proof -
  have "contains ''avg'' ''weighted_avg''" by code_simp
  then have avg: "contains ''weighted_avg'' s \<Longrightarrow> contains ''avg'' s" for s by (rule contains_trans)
  have "r \<noteq> WeightedAvg" if "find (\<lambda>(r, names). name \<in> set names) aggregation_rules = Some (r, ns)" for r ns
    using that by (auto simp: aggregation_rules_def split: if_splits)
  then show ?thesis using avg by (auto simp: get_aggregation_type_def Let_def split: option.splits)
qed

end
