(* ===== verification/DataMetrics.thy ===== *)
theory DataMetrics
  imports Trainer Metrics
begin

section \<open>Metrics of a training batch\<close>

text \<open>
  \<open>verl/trainer/ppo/metric_utils.py\<close>, first part: statistics of scores, lengths and times of a batch, throughput, and the
  variance proxies. A batch is a \<open>DataProto\<close> as in \<open>Trainer\<close>. The mean of an empty tensor is a
  NaN, which torch only computes, and its maximum raises; the code always takes the mean before the maximum.
\<close>

subsection \<open>Lengths\<close>

text \<open>\<open>xs[:-n]\<close>, which is empty for \<open>n = 0\<close>.\<close>

definition drop_last :: "nat \<Rightarrow> 'a list \<Rightarrow> 'a list" where
  "drop_last n xs = (if n = 0 then [] else take (length xs - n) xs)"

record response_info =
  ri_response_mask :: mat
  ri_prompt_length :: vec
  ri_response_length :: vec

definition compute_response_info :: "rl_batch \<Rightarrow> response_info result" where
  "compute_response_info data =
    rbind (tensor data ''responses'') (\<lambda>responses.
    rbind (tensor data ''attention_mask'') (\<lambda>attention.
    let n = mwidth responses; prompt_mask = map (drop_last n) attention; rmask = map (last_n n) attention
    in Inr \<lparr>ri_response_mask = rmask, ri_prompt_length = row_sums prompt_mask, ri_response_length = row_sums rmask\<rparr>))"

subsection \<open>Statistics of a batch\<close>

definition stats :: "string \<Rightarrow> vec \<Rightarrow> (string, real) dict result" where
  "stats name xs = (if xs = [] then Inl RuntimeError
     else Inr [(name @ ''/mean'', vmean xs), (name @ ''/max'', vmax xs), (name @ ''/min'', vmin xs)])"

definition clip_ratio :: "vec \<Rightarrow> nat \<Rightarrow> real" where
  "clip_ratio lengths width = vmean (map (\<lambda>x. indicator01 (x = real width)) lengths)"

definition vvar :: "vec \<Rightarrow> real result" where
  "vvar xs = (if length xs < 2 then Inl NonFinite
     else Inr (sum_list (map (\<lambda>x. (x - vmean xs)\<^sup>2) xs) / (real (length xs) - 1)))"

definition select_valid :: "mat \<Rightarrow> mat \<Rightarrow> vec" where
  "select_valid vals rmask = concat (map2 masked_select vals rmask)"

definition value_stats :: "rl_batch \<Rightarrow> mat \<Rightarrow> vec \<Rightarrow> (string, real) dict result" where
  "value_stats data rmask valid_returns =
    rbind (tensor data ''values'') (\<lambda>vs.
    let valid_values = select_valid vs rmask
    in rbind (stats ''critic/values'' valid_values) (\<lambda>a.
       rbind (vvar (map2 (-) valid_returns valid_values)) (\<lambda>return_diff_var.
       rbind (vvar valid_returns) (\<lambda>return_var.
       Inr (a @ [(''critic/vf_explained_var'', 1 - return_diff_var / (return_var + 1 / 10 ^ 5))])))))"

text \<open>Statistics of an object array of numbers.\<close>

definition numbers :: "pyv list \<Rightarrow> vec result" where
  "numbers vs = rmap (\<lambda>v. case num_of v of None \<Rightarrow> Inl TypeError | Some x \<Rightarrow> Inr x) vs"

definition array_stats :: "rl_batch \<Rightarrow> string \<Rightarrow> string \<Rightarrow> (string, real) dict result" where
  "array_stats data key name = (case map_of (non_tensor_batch data) key of
     None \<Rightarrow> Inr []
   | Some vs \<Rightarrow> rbind (numbers vs) (\<lambda>xs. rbind (ensure ValueError (xs \<noteq> [])) (\<lambda>_.
       Inr [(name @ ''/min'', vmin xs), (name @ ''/max'', vmax xs), (name @ ''/mean'', vmean xs)])))"

definition compute_data_metrics :: "rl_batch \<Rightarrow> bool \<Rightarrow> (string, real) dict result" where
  "compute_data_metrics data use_critic =
    rbind (tensor data ''token_level_scores'') (\<lambda>scores.
    rbind (tensor data ''token_level_rewards'') (\<lambda>rewards.
    rbind (tensor data ''advantages'') (\<lambda>advs.
    rbind (tensor data ''returns'') (\<lambda>rets.
    rbind (tensor data ''responses'') (\<lambda>responses.
    rbind (tensor data ''attention_mask'') (\<lambda>attention.
    rbind (tensor data ''response_mask'') (\<lambda>rmask.
    rbind (compute_response_info data) (\<lambda>ri.
    let max_response_length = mwidth responses;
        max_prompt_length = mwidth (map (drop_last max_response_length) attention);
        prompt_length = ri_prompt_length ri; response_length = ri_response_length ri;
        non_aborted = map (\<lambda>x. indicator01 (x \<noteq> 0)) response_length;
        valid_adv = select_valid advs rmask; valid_returns = select_valid rets rmask;
        non_aborted_length = masked_select response_length non_aborted
    in rbind (stats ''critic/score'' (masked_select (row_sums scores) non_aborted)) (\<lambda>score.
       rbind (stats ''critic/rewards'' (masked_select (row_sums rewards) non_aborted)) (\<lambda>reward.
       rbind (if use_critic then rbind (tensor data ''values'') (\<lambda>_. Inr ()) else Inr ()) (\<lambda>_.
       rbind (ensure ValueError (non_aborted_length \<noteq> [])) (\<lambda>_.
       rbind (stats ''critic/advantages'' valid_adv) (\<lambda>adv.
       rbind (stats ''critic/returns'' valid_returns) (\<lambda>ret.
       rbind (if use_critic then value_stats data rmask valid_returns else Inr []) (\<lambda>vals.
       rbind (stats ''response_length'' response_length) (\<lambda>len.
       rbind (stats ''response_length_non_aborted'' non_aborted_length) (\<lambda>len_na.
       rbind (stats ''prompt_length'' prompt_length) (\<lambda>plen.
       rbind (array_stats data ''__num_turns__'' ''num_turns'') (\<lambda>turns.
       rbind (array_stats data ''tool_call_counts'' ''tool_call_counts'') (\<lambda>calls.
       Inr (score @ reward @ adv @ ret @ vals
         @ len @ [(''response_length/clip_ratio'', clip_ratio response_length max_response_length)]
         @ len_na @ [(''response_length_non_aborted/clip_ratio'', clip_ratio non_aborted_length max_response_length),
            (''response/aborted_ratio'', vmean (map (\<lambda>x. indicator01 (x = 0)) response_length))]
         @ plen @ [(''prompt_length/clip_ratio'', clip_ratio prompt_length max_prompt_length)]
         @ turns @ calls)))))))))))))))))))))"

subsection \<open>Times and throughput\<close>

definition compute_timing_metrics :: "rl_batch \<Rightarrow> (string, real) dict \<Rightarrow> (string, real) dict result" where
  "compute_timing_metrics data timing_raw =
    rbind (compute_response_info data) (\<lambda>ri.
    let num_prompt_tokens = sum_list (ri_prompt_length ri); num_response_tokens = sum_list (ri_response_length ri);
        num_overall_tokens = num_prompt_tokens + num_response_tokens;
        sections = (''gen'', num_response_tokens)
          # map (\<lambda>name. (name, num_overall_tokens)) [''ref'', ''values'', ''adv'', ''update_critic'', ''update_actor'']
    in rbind (rmap (\<lambda>(name, tokens). rbind (dget timing_raw name) (\<lambda>t. rbind (py_truediv (t * 1000) tokens) (\<lambda>x.
           Inr (''timing_per_token_ms/'' @ name, x))))
         (filter (\<lambda>(name, _). name \<in> set (keys timing_raw)) sections)) (\<lambda>per_token.
       Inr (map (\<lambda>(name, t). (''timing_s/'' @ name, t)) timing_raw @ per_token)))"

definition compute_throughout_metrics :: "('r, pyv) data_proto \<Rightarrow> (string, real) dict \<Rightarrow> real \<Rightarrow> (string, real) dict result" where
  "compute_throughout_metrics data timing_raw n_gpus =
    rbind (dget (meta_info data) ''global_token_num'') (\<lambda>v.
    rbind (case v of PList vs \<Rightarrow> numbers vs | _ \<Rightarrow> Inl TypeError) (\<lambda>token_num.
    let total_num_tokens = sum_list token_num
    in rbind (dget timing_raw ''step'') (\<lambda>time.
       rbind (py_truediv total_num_tokens (time * n_gpus)) (\<lambda>throughput.
       Inr [(''perf/total_num_tokens'', total_num_tokens), (''perf/time_per_step'', time), (''perf/throughput'', throughput)]))))"

subsection \<open>Variance proxies\<close>

definition compute_variance_proxy_metrics :: "rl_batch \<Rightarrow> real option \<Rightarrow> (string, real) dict result" where
  "compute_variance_proxy_metrics data gradient_norm =
    (if \<not> has_tensor data ''sum_pi_squared'' \<or> \<not> has_tensor data ''old_log_probs'' \<or> \<not> has_tensor data ''advantages'' then Inr []
     else
    rbind (tensor data ''old_log_probs'') (\<lambda>old_log_probs.
    rbind (tensor data ''sum_pi_squared'') (\<lambda>sum_pi_squared.
    rbind (tensor data ''response_mask'') (\<lambda>rmask.
    rbind (tensor data ''advantages'') (\<lambda>advs.
    rbind (if has_tensor data ''rollout_is_weights'' then rbind (tensor data ''rollout_is_weights'') (\<lambda>w. Inr (Some w)) else Inr None) (\<lambda>is_weights.
    let w0 = mmap2 (\<lambda>p s. 1 - 2 * p + s) (mmap exp old_log_probs) sum_pi_squared;
        w_per_timestep = (case is_weights of None \<Rightarrow> w0 | Some r \<Rightarrow> mmap2 (\<lambda>w x. w * x\<^sup>2) w0 r);
        advantages_scalar = map2 masked_mean_row advs rmask;
        w_values = map2 masked_sum_vec w_per_timestep rmask;
        n = real (length advantages_scalar);
        proxy1 = map_option (\<lambda>g. g\<^sup>2) gradient_norm
    in rbind (case is_weights of
          Some r \<Rightarrow> tdiv (sum_list (map2 (\<lambda>(s, a) w. s\<^sup>2 * a\<^sup>2 * w) (zip (map2 masked_mean_row r rmask) advantages_scalar)
             (map (max 0) (map2 masked_sum_vec (mmap2 (\<lambda>w x. w / max (x\<^sup>2) (1 / 10 ^ 10)) w_per_timestep r) rmask)))) n
        | None \<Rightarrow> tdiv (sum_list (map2 (\<lambda>a w. a\<^sup>2 * w) advantages_scalar (map (max 0) w_values))) n) (\<lambda>proxy2.
       rbind (tdiv (sum_list (map (\<lambda>a. a\<^sup>2) advantages_scalar)) n) (\<lambda>expected_a_squared.
       rbind (tdiv (sum_list w_values) n) (\<lambda>expected_w.
       let proxy3 = (case proxy1 of None \<Rightarrow> 0
             | Some p \<Rightarrow> if 1 < length advantages_scalar then max 0 (1 / (n - 1) * (proxy2 - p)) else 0)
       in Inr [(''variance_proxy/proxy1_signal_strength'', case proxy1 of None \<Rightarrow> 0 | Some p \<Rightarrow> p),
            (''variance_proxy/proxy2_total_power'', proxy2), (''variance_proxy/proxy3_pure_noise'', proxy3),
            (''variance_proxy/expected_a_squared'', expected_a_squared), (''variance_proxy/expected_w'', expected_w)])))))))))"

subsection \<open>Throughput over several steps\<close>

definition logged_scalars :: "(string, real) dict \<Rightarrow> (string, metric_input) dict" where
  "logged_scalars = dict_map Number"

definition perf_of :: "real \<Rightarrow> real \<Rightarrow> real \<Rightarrow> (string, real) dict" where
  "perf_of tokens time gpus = [(''perf/total_num_tokens'', tokens), (''perf/time_per_step'', time), (''perf/throughput'', tokens / (time * gpus))]"

lemma compute_throughout_Inr:
  assumes "compute_throughout_metrics d t g = Inr m"
  shows "\<exists>tokens time. m = perf_of tokens time g \<and> map_of t ''step'' = Some time \<and> time * g \<noteq> 0"
  using assms by (auto simp: compute_throughout_metrics_def perf_of_def py_truediv_def Let_def res_simps split: if_splits)

lemma step_values_perf:
  "step_values k (logged_scalars (perf_of tokens time g)) =
    (if k = ''perf/total_num_tokens'' then [tokens] else if k = ''perf/time_per_step'' then [time]
     else if k = ''perf/throughput'' then [tokens / (time * g)] else [])"
  by (simp add: step_values_def logged_scalars_def perf_of_def dict_map_def)

lemma perf_rules:
  "get_aggregation_type ''perf/total_num_tokens'' = RuleSum" "get_aggregation_type ''perf/time_per_step'' = TimeSum"
  by code_simp+

text \<open>A weighted mean lies between the least and the greatest value.\<close>

lemma fold_max_start_le: "x \<le> fold max xs x" and fold_max_mem: "y \<in> set xs \<Longrightarrow> y \<le> fold max xs (x :: real)"
proof -
  have a: "x \<le> fold max xs x" for xs and x :: real
  proof (induction xs arbitrary: x)
    case (Cons y xs)
    show ?case using order_trans [OF max.cobounded2 Cons [of "max y x"]] by simp
  qed simp
  then show "x \<le> fold max xs x" .
  show "y \<in> set xs \<Longrightarrow> y \<le> fold max xs x"
  proof (induction xs arbitrary: x)
    case (Cons z xs)
    then show ?case using a [of "max z x" xs] by auto
  qed simp
qed

lemma fold_min_start_le: "fold min xs x \<le> x" and fold_min_mem: "y \<in> set xs \<Longrightarrow> fold min xs (x :: real) \<le> y"
proof -
  have a: "fold min xs x \<le> x" for xs and x :: real
  proof (induction xs arbitrary: x)
    case (Cons y xs)
    show ?case using order_trans [OF Cons [of "min y x"] min.cobounded2] by simp
  qed simp
  then show "fold min xs x \<le> x" .
  show "y \<in> set xs \<Longrightarrow> fold min xs x \<le> y"
  proof (induction xs arbitrary: x)
    case (Cons z xs)
    then show ?case using a [of xs "min z x"] by auto
  qed simp
qed

lemma vmax_ge: "x \<in> set xs \<Longrightarrow> x \<le> vmax xs" and vmin_le: "x \<in> set xs \<Longrightarrow> vmin xs \<le> x"
  by (simp_all add: vmax_def vmin_def fold_max_mem fold_min_mem)

lemma sum_times_bounds:
  assumes "list_all (\<lambda>(n, w). lo * w \<le> n \<and> n \<le> hi * w) (ps :: (real \<times> real) list)"
  shows "lo * sum_list (map snd ps) \<le> sum_list (map fst ps)" "sum_list (map fst ps) \<le> hi * sum_list (map snd ps)"
  using assms by (induction ps) (auto simp: algebra_simps)

lemma aggregated_perf:
  assumes "ps \<noteq> []" "0 < sum_list (map snd ps)" "0 < g"
  shows "\<exists>a. get_aggregated_metrics (add_steps (map (\<lambda>(n, w). (logged_scalars (perf_of n w g), c)) ps) (new_aggregator g)) = Inr a
    \<and> map_of a ''perf/throughput'' = Some (sum_list (map fst ps) / (sum_list (map snd ps) * g))"
proof -
  let ?ds = "map (\<lambda>(n, w). (logged_scalars (perf_of n w g), c)) ps"
  let ?s = "add_steps ?ds (new_aggregator g)"
  have "list_all (\<lambda>(d, c). scalars_only d) ?ds"
    by (auto simp: list_all_iff scalars_only_def logged_scalars_def dict_map_def)
  note spec = add_steps_spec [OF this, of "new_aggregator g"]
  have st: "stored ?s k = concat (map (\<lambda>(n, w). step_values k (logged_scalars (perf_of n w g))) ps)" for k
  proof -
    have "map (\<lambda>(d, c). step_values k d) ?ds = map (\<lambda>(n, w). step_values k (logged_scalars (perf_of n w g))) ps"
      by (auto simp: split_def)
    then show ?thesis using spec [of k] by (metis append_Nil stored_new(1))
  qed
  have cst: "concat (map (\<lambda>(n, w). [f n w]) ps) = map (\<lambda>(n, w). f n w) ps" for f :: "real \<Rightarrow> real \<Rightarrow> real"
    by (induction ps) auto
  have e: "(\<lambda>(n, w). n) = (fst :: real \<times> real \<Rightarrow> real)" "(\<lambda>(n, w). w) = (snd :: real \<times> real \<Rightarrow> real)" by auto
  let ?a = "map (\<lambda>(name, vs). (name, aggregate_single_metric ?s name vs)) (ma_values ?s)"
  have m: "map_of ?a k = (if stored ?s k = [] then None else Some (aggregate_single_metric ?s k (stored ?s k)))" for k
    using spec by (intro map_of_aggregated) simp
  have keys: "k \<in> set (keys ?a) \<longleftrightarrow> map_of ?a k \<noteq> None" for k by (auto simp: set_keys)
  have tokens: "map_of ?a ''perf/total_num_tokens'' = Some (sum_list (map fst ps))"
    and time: "map_of ?a ''perf/time_per_step'' = Some (sum_list (map snd ps))"
    and tp: "map_of ?a ''perf/throughput'' \<noteq> None"
    using assms(1) e cst [of "\<lambda>n w. n"] cst [of "\<lambda>n w. w"] cst [of "\<lambda>n w. n / (w * g)"]
    unfolding m by (auto simp: st step_values_perf aggregate_single_metric_def perf_rules split_def)
  have none: "map_of ?a ''global_seqlen/minmax_diff'' = None" "map_of ?a ''timing_s/gen'' = None"
    unfolding m st by (auto simp: step_values_perf)
  obtain old where old: "map_of ?a ''perf/throughput'' = Some old" using tp by blast
  have "special_metrics ?s ?a = Inr (AList.update ''perf/throughput'' (sum_list (map fst ps) / (sum_list (map snd ps) * g)) ?a)"
    unfolding special_metrics_def keys
    using assms spec none tokens time old by (simp add: py_truediv_def)
  moreover have "step_count ?s \<noteq> 0" using spec assms(1) by simp
  ultimately show ?thesis by (simp add: get_aggregated_metrics_def)
qed

lemma throughputs_Inr:
  assumes "rmap (\<lambda>(d, t). compute_throughout_metrics d t g) steps = Inr ms" "list_all (\<lambda>(d, t). 0 < the (map_of t ''step'')) steps"
  shows "\<exists>ps. ms = map (\<lambda>(n, w). perf_of n w g) ps \<and> list_all (\<lambda>(n, w). 0 < w) ps"
  using assms
proof (induction steps arbitrary: ms)
  case (Cons p steps)
  obtain d t where p: "p = (d, t)" by (cases p)
  then obtain m ms' where m: "compute_throughout_metrics d t g = Inr m" "ms = m # ms'"
    "rmap (\<lambda>(d, t). compute_throughout_metrics d t g) steps = Inr ms'"
    using Cons.prems(1) by (auto simp: res_simps)
  obtain n w where "m = perf_of n w g" "0 < w" using compute_throughout_Inr [OF m(1)] Cons.prems(2) p by auto
  moreover obtain ps where "ms' = map (\<lambda>(n, w). perf_of n w g) ps" "list_all (\<lambda>(n, w). 0 < w) ps"
    using Cons.IH [OF m(3)] Cons.prems(2) by auto
  ultimately show ?case using m(2) by (intro exI [of _ "(n, w) # ps"]) simp
qed simp

lemma sum_list_pos: "ps \<noteq> [] \<Longrightarrow> list_all (\<lambda>(n, w). 0 < w) ps \<Longrightarrow> 0 < sum_list (map snd (ps :: (real \<times> real) list))"
proof (induction ps)
  case (Cons p ps)
  then show ?case by (cases "ps = []") (auto simp: add_pos_pos)
qed simp

text \<open>Combining steps keeps throughput honest: if every step logs what \<open>compute_throughout_metrics\<close>
  gives, the aggregated throughput is the total number of tokens divided by the total time and
  the number of GPUs (not the mean of the steps' throughputs), and it lies between the least and
  the greatest throughput of a step.\<close>

theorem aggregated_throughput_is_weighted:
  assumes "steps \<noteq> []" "0 < g" "rmap (\<lambda>(d, t). compute_throughout_metrics d t g) steps = Inr ms"
    and "list_all (\<lambda>(d, t). 0 < the (map_of t ''step'')) steps"
  shows "\<exists>a x. get_aggregated_metrics (add_steps (map (\<lambda>m. (logged_scalars m, c)) ms) (new_aggregator g)) = Inr a
    \<and> map_of a ''perf/throughput'' = Some x
    \<and> x * (sum_list (map (\<lambda>m. the (map_of m ''perf/time_per_step'')) ms) * g) = sum_list (map (\<lambda>m. the (map_of m ''perf/total_num_tokens'')) ms)
    \<and> vmin (map (\<lambda>m. the (map_of m ''perf/throughput'')) ms) \<le> x \<and> x \<le> vmax (map (\<lambda>m. the (map_of m ''perf/throughput'')) ms)"
proof -
  obtain ps where ms: "ms = map (\<lambda>(n, w). perf_of n w g) ps" and pos: "list_all (\<lambda>(n, w). 0 < w) ps"
    using throughputs_Inr [OF assms(3,4)] by blast
  have ne: "ps \<noteq> []" using assms(1) rmap_length [OF assms(3)] ms by auto
  have W: "0 < sum_list (map snd ps)" using ne pos by (rule sum_list_pos)
  let ?x = "sum_list (map fst ps) / (sum_list (map snd ps) * g)"
  let ?tp = "map (\<lambda>(n, w). n / (w * g)) ps"
  have b: "list_all (\<lambda>(n, w). (vmin ?tp * g) * w \<le> n \<and> n \<le> (vmax ?tp * g) * w) ps"
  proof -
    have "(vmin ?tp * g) * w \<le> n \<and> n \<le> (vmax ?tp * g) * w" if p: "(n, w) \<in> set ps" for n w
    proof -
      have "0 < w * g" using p pos assms(2) by (auto simp: list_all_iff)
      moreover have "n / (w * g) \<in> set ?tp" using p by force
      then have "vmin ?tp \<le> n / (w * g)" "n / (w * g) \<le> vmax ?tp" by (simp_all add: vmin_le vmax_ge)
      ultimately show ?thesis by (simp add: pos_le_divide_eq pos_divide_le_eq mult.assoc mult.commute [of g])
    qed
    then show ?thesis by (auto simp: list_all_iff)
  qed
  have bounds: "vmin ?tp \<le> ?x" "?x \<le> vmax ?tp"
    using sum_times_bounds [OF b] W assms(2) by (simp_all add: pos_le_divide_eq pos_divide_le_eq mult.assoc mult.commute [of g])
  have eqs: "map (\<lambda>m. the (map_of m ''perf/time_per_step'')) ms = map snd ps"
    "map (\<lambda>m. the (map_of m ''perf/total_num_tokens'')) ms = map fst ps"
    "map (\<lambda>m. the (map_of m ''perf/throughput'')) ms = ?tp"
    "map (\<lambda>m. (logged_scalars m, c)) ms = map (\<lambda>(n, w). (logged_scalars (perf_of n w g), c)) ps"
    unfolding ms by (auto simp: perf_of_def)
  show ?thesis
    unfolding eqs using aggregated_perf [of ps g c] ne W assms(2) bounds by auto
qed

definition demo_step :: "int list \<Rightarrow> (vec, pyv) data_proto" where
  "demo_step ns = \<lparr>batch = None, non_tensor_batch = [], meta_info = [(''global_token_num'', PList (map PInt ns))]\<rparr>"

theorem aggregated_throughput_is_weighted_witness:
  "\<exists>a x. get_aggregated_metrics (add_steps (map (\<lambda>m. (logged_scalars m, 4)) [perf_of 30 1 2, perf_of 30 5 2]) (new_aggregator 2)) = Inr a
    \<and> map_of a ''perf/throughput'' = Some x \<and> x * 12 = 60"
proof -
  let ?steps = "[(demo_step [10, 20], [(''step'', 1)]), (demo_step [30], [(''step'', 5)])]"
  have r: "rmap (\<lambda>(d, t). compute_throughout_metrics d t 2) ?steps = Inr [perf_of 30 1 2, perf_of 30 5 2]"
    by (simp add: compute_throughout_metrics_def demo_step_def numbers_def perf_of_def py_truediv_def Let_def dget_def)
  have "\<exists>a x. get_aggregated_metrics (add_steps (map (\<lambda>m. (logged_scalars m, 4)) [perf_of 30 1 2, perf_of 30 5 2]) (new_aggregator 2)) = Inr a
    \<and> map_of a ''perf/throughput'' = Some x
    \<and> x * (sum_list (map (\<lambda>m. the (map_of m ''perf/time_per_step'')) [perf_of 30 1 2, perf_of 30 5 2]) * 2)
      = sum_list (map (\<lambda>m. the (map_of m ''perf/total_num_tokens'')) [perf_of 30 1 2, perf_of 30 5 2])
    \<and> vmin (map (\<lambda>m. the (map_of m ''perf/throughput'')) [perf_of 30 1 2, perf_of 30 5 2]) \<le> x
    \<and> x \<le> vmax (map (\<lambda>m. the (map_of m ''perf/throughput'')) [perf_of 30 1 2, perf_of 30 5 2])"
    by (rule aggregated_throughput_is_weighted [OF _ _ r]) simp_all
  moreover have "sum_list (map (\<lambda>m. the (map_of m ''perf/time_per_step'')) [perf_of 30 1 2, perf_of 30 5 2]) * 2 = 12"
    "sum_list (map (\<lambda>m. the (map_of m ''perf/total_num_tokens'')) [perf_of 30 1 2, perf_of 30 5 2]) = 60"
    by (simp_all add: perf_of_def)
  ultimately show ?thesis by metis
qed

text \<open>If all samples are aborted the code means to raise \<open>ValueError\<close>, but the maximum of the scores
  of no sample raises \<open>RuntimeError\<close> before that line.\<close>

lemma all_aborted_raises_in_max:
  assumes "tensor data ''responses'' = Inr rs" "tensor data ''attention_mask'' = Inr att"
    and "list_all (\<lambda>row. sum_list (last_n (mwidth rs) row) = 0) att"
    and "compute_data_metrics data use_critic = Inl e"
  shows "e \<noteq> ValueError"
proof -
  let ?rl = "row_sums (map (last_n (mwidth rs)) att)"
  have z: "\<forall>x \<in> set ?rl. x = 0" using assms(3) by (auto simp: row_sums_def list_all_iff)
  have sel: "masked_select v (map (\<lambda>x. indicator01 (x \<noteq> 0)) l) = []" if "\<forall>x \<in> set l. x = 0" for v l :: vec
    using that unfolding masked_select_def
    by (auto simp: filter_empty_conv indicator01_def dest!: set_zip_rightD)
  have key: "tensor data k = Inl e' \<Longrightarrow> e' \<noteq> ValueError" for k e'
    by (auto simp: tensor_def dget_def split: option.splits)
  show ?thesis
    using assms(4) key
    by (auto simp: compute_data_metrics_def compute_response_info_def Let_def assms(1,2) rbind_Inl_iff sel [OF z] stats_def)
qed

end
