(* ===== verification/Validation.thy ===== *)
theory Validation
  imports DataMetrics
begin

section \<open>Validation metrics\<close>

text \<open>
  \<open>verl/trainer/ppo/metric_utils.py\<close>, second part: bootstrap estimates, majority votes, and the grouping of the validation
  results by data source, prompt and variable. The indices \<open>np.random.choice\<close> draws for a seed are a
  parameter; numpy documents that there are \<open>n_bootstrap\<close> rows of \<open>subset_size\<close> indices below the
  number of data. Values are Python numbers; a value that is none raises, as numpy's mean does.
\<close>

subsection \<open>Bootstrap\<close>

definition np_std :: "vec \<Rightarrow> real" where
  "np_std xs = sqrt (sum_list (map (\<lambda>x. (x - vmean xs)\<^sup>2) xs) / real (length xs))"

definition bootstrap_metric ::
  "(nat \<Rightarrow> nat \<Rightarrow> nat \<Rightarrow> nat list list) \<Rightarrow> 'a list \<Rightarrow> nat \<Rightarrow> ('a list \<Rightarrow> real result) list \<Rightarrow> nat \<Rightarrow> (real \<times> real) list result" where
  "bootstrap_metric choice data subset_size reduce_fns n_bootstrap =
    rbind (ensure ValueError (data \<noteq> [] \<or> n_bootstrap * subset_size = 0)) (\<lambda>_.
    let bootstrap_idxs = choice (length data) n_bootstrap subset_size
    in rmap (\<lambda>fn. rbind (rmap (\<lambda>idxs. fn (picks data idxs)) bootstrap_idxs) (\<lambda>results.
         rbind (ensure NonFinite (results \<noteq> [])) (\<lambda>_. Inr (vmean results, np_std results)))) reduce_fns)"

subsection \<open>Majority vote\<close>

text \<open>A vote is a dictionary key: it must be hashable, and keys are compared by \<open>==\<close>.\<close>

fun hashable :: "pyv \<Rightarrow> bool" where
  "hashable (PList _) = False"
| "hashable (PDict _) = False"
| "hashable _ = True"

fun add_vote :: "pyv \<Rightarrow> pyv \<Rightarrow> (pyv \<times> pyv list) list \<Rightarrow> (pyv \<times> pyv list) list" where
  "add_vote k v [] = [(k, [v])]"
| "add_vote k v ((k', vs) # r) = (if py_eq k k' then (k', vs @ [v]) # r else (k', vs) # add_vote k v r)"

text \<open>\<open>max(vote2cnt, key=vote2cnt.get)\<close>: the first key with the greatest count.\<close>

fun first_longest :: "(pyv \<times> pyv list) list \<Rightarrow> (pyv \<times> pyv list) result" where
  "first_longest [] = Inl ValueError"
| "first_longest [p] = Inr p"
| "first_longest (p # q # r) = rbind (first_longest (q # r)) (\<lambda>b. Inr (if length (snd p) \<ge> length (snd b) then p else b))"

definition calc_maj_val :: "(string, pyv) dict list \<Rightarrow> string \<Rightarrow> string \<Rightarrow> pyv result" where
  "calc_maj_val data vote_key val_key =
    rbind (rfold (\<lambda>d votes. rbind (dget d vote_key) (\<lambda>k. rbind (ensure TypeError (hashable k)) (\<lambda>_. rbind (dget d val_key) (\<lambda>v.
        Inr (add_vote k v votes))))) data []) (\<lambda>vote2vals.
    rbind (first_longest vote2vals) (\<lambda>(maj_vote, vs). py_nth vs 0))"

subsection \<open>Subset sizes\<close>

text \<open>The loop \<open>while n < n_resps\<close> from 2 on; the loop doubles a positive number, so the guard \<open>0 < n\<close> always holds.\<close>

function doubles :: "nat \<Rightarrow> nat \<Rightarrow> nat list" where
  "doubles n n_resps = (if 0 < n \<and> n < n_resps then n # doubles (n * 2) n_resps else [])"
  by pat_completeness auto

termination
  by (relation "measure (\<lambda>(n, n_resps). n_resps - n)") auto

declare doubles.simps [simp del]

definition gen_ns :: "nat \<Rightarrow> nat list" where
  "gen_ns n_resps = (if n_resps \<le> 1 then [] else doubles 2 n_resps @ [n_resps])"

subsection \<open>Grouping\<close>

type_synonym var2vals = "(string, pyv list) dict"

definition add_sample :: "(string, pyv list) dict \<Rightarrow> nat \<Rightarrow> var2vals \<Rightarrow> var2vals result" where
  "add_sample infos i var2vals =
    rfold (\<lambda>(var, vals) d. rbind (py_nth vals i) (\<lambda>v. Inr (modify [] var (\<lambda>vs. vs @ [v]) d))) infos var2vals"

definition group_samples ::
  "string list \<Rightarrow> string list \<Rightarrow> (string, pyv list) dict \<Rightarrow> (string, (string, var2vals) dict) dict result" where
  "group_samples data_sources sample_uids infos =
    rfold (\<lambda>i d. rbind (py_nth data_sources i) (\<lambda>src. rbind (py_nth sample_uids i) (\<lambda>uid.
      let uids = (case map_of d src of None \<Rightarrow> [] | Some u \<Rightarrow> u); vars = (case map_of uids uid of None \<Rightarrow> [] | Some v \<Rightarrow> v)
      in rbind (add_sample infos i vars) (\<lambda>vars'. Inr (AList.update src (AList.update uid vars' uids) d)))))
    [0..<length data_sources] []"

subsection \<open>The metrics of one prompt\<close>

definition at_name :: "string \<Rightarrow> nat \<Rightarrow> string \<Rightarrow> string" where
  "at_name name n suffix = name @ ''@'' @ nat_string n @ suffix"

definition zip_strict :: "'a list \<Rightarrow> 'b list \<Rightarrow> ('a \<times> 'b) list result" where
  "zip_strict xs ys = rbind (ensure ValueError (length xs = length ys)) (\<lambda>_. Inr (zip xs ys))"

definition nonempty :: "(vec \<Rightarrow> real) \<Rightarrow> vec \<Rightarrow> real result" where
  "nonempty f xs = rbind (ensure ValueError (xs \<noteq> [])) (\<lambda>_. Inr (f xs))"

definition as_float :: "pyv \<Rightarrow> real result" where
  "as_float v = (case num_of v of None \<Rightarrow> Inl TypeError | Some x \<Rightarrow> Inr x)"

definition n_bootstrap :: nat where
  "n_bootstrap = 1000"

definition maj_metric ::
  "(nat \<Rightarrow> nat \<Rightarrow> nat \<Rightarrow> nat list list) \<Rightarrow> pyv list \<Rightarrow> pyv list option \<Rightarrow> nat \<Rightarrow> (string, real) dict result" where
  "maj_metric choice var_vals pred_vals n = (case pred_vals of
     None \<Rightarrow> Inr []
   | Some preds \<Rightarrow>
       rbind (zip_strict var_vals preds) (\<lambda>ps.
       rbind (bootstrap_metric choice (map (\<lambda>(v, pr). [(''val'', v), (''pred'', pr)]) ps) n
          [\<lambda>sample. rbind (calc_maj_val sample ''pred'' ''val'') as_float] n_bootstrap) (\<lambda>r.
       Inr [(at_name ''maj'' n ''/mean'', fst (r ! 0)), (at_name ''maj'' n ''/std'', snd (r ! 0))])))"

definition subset_metrics ::
  "(nat \<Rightarrow> nat \<Rightarrow> nat \<Rightarrow> nat list list) \<Rightarrow> pyv list \<Rightarrow> vec \<Rightarrow> pyv list option \<Rightarrow> nat \<Rightarrow> (string, real) dict result" where
  "subset_metrics choice var_vals xs pred_vals n =
    rbind (bootstrap_metric choice xs n [nonempty vmax, nonempty vmin] n_bootstrap) (\<lambda>r.
    rbind (maj_metric choice var_vals pred_vals n) (\<lambda>maj.
    Inr ([(at_name ''best'' n ''/mean'', fst (r ! 0)), (at_name ''best'' n ''/std'', snd (r ! 0)),
          (at_name ''worst'' n ''/mean'', fst (r ! 1)), (at_name ''worst'' n ''/std'', snd (r ! 1))] @ maj)))"

definition prompt_metrics ::
  "(nat \<Rightarrow> nat \<Rightarrow> nat \<Rightarrow> nat list list) \<Rightarrow> pyv list option \<Rightarrow> pyv list \<Rightarrow> (string, real) dict result" where
  "prompt_metrics choice pred_vals var_vals =
    rbind (rmap as_float var_vals) (\<lambda>xs.
    let n_resps = length var_vals; mean = [(at_name ''mean'' n_resps '''', vmean xs)]
    in if n_resps > 1 then
         rbind (rmap (subset_metrics choice var_vals xs pred_vals) (gen_ns n_resps)) (\<lambda>ms.
         Inr (dict_update (mean @ [(at_name ''std'' n_resps '''', np_std xs)]) (concat ms)))
       else Inr mean)"

definition skipped :: "pyv list \<Rightarrow> bool" where
  "skipped vals = (vals = [] \<or> (case vals of PStr _ # _ \<Rightarrow> True | _ \<Rightarrow> False))"

definition uid_metrics ::
  "(nat \<Rightarrow> nat \<Rightarrow> nat \<Rightarrow> nat list list) \<Rightarrow> var2vals \<Rightarrow> (string, (string, real) dict) dict result" where
  "uid_metrics choice var2vals =
    rmap (\<lambda>(var, vals). rbind (prompt_metrics choice (map_of var2vals ''pred'') vals) (\<lambda>m. Inr (var, m)))
      (filter (\<lambda>(var, vals). \<not> skipped vals) var2vals)"

subsection \<open>Averaging over the prompts\<close>

definition collect_metrics ::
  "(string, (string, real) dict) dict list \<Rightarrow> (string, (string, vec) dict) dict" where
  "collect_metrics uids = fold (\<lambda>var2metric. fold (\<lambda>(var, m). fold (\<lambda>(name, x).
      modify [] var (modify [] name (\<lambda>xs. xs @ [x]))) m) var2metric) uids []"

definition process_validation_metrics ::
  "(nat \<Rightarrow> nat \<Rightarrow> nat \<Rightarrow> nat list list) \<Rightarrow> string list \<Rightarrow> string list \<Rightarrow> (string, pyv list) dict
   \<Rightarrow> (string, (string, (string, real) dict) dict) dict result" where
  "process_validation_metrics choice data_sources sample_uids infos =
    rbind (group_samples data_sources sample_uids infos) (\<lambda>data_src2uid2var2vals.
    rbind (rmap (\<lambda>(src, uid2var2vals). rbind (rmap (\<lambda>(uid, v). uid_metrics choice v) uid2var2vals) (\<lambda>ms. Inr (src, ms)))
      data_src2uid2var2vals) (\<lambda>per_source.
    Inr (filter (\<lambda>(src, vars). vars \<noteq> [])
      (map (\<lambda>(src, ms). (src, dict_map (dict_map vmean) (collect_metrics ms))) per_source))))"

subsection \<open>Lemmas\<close>

text \<open>What numpy documents of \<open>np.random.choice\<close>.\<close>

definition choice_ok :: "(nat \<Rightarrow> nat \<Rightarrow> nat \<Rightarrow> nat list list) \<Rightarrow> bool" where
  "choice_ok choice \<longleftrightarrow> (\<forall>n b k. 0 < n \<longrightarrow> length (choice n b k) = b
     \<and> list_all (\<lambda>row. length row = k \<and> list_all (\<lambda>i. i < n) row) (choice n b k))"

lemma choice_rows:
  assumes "choice_ok choice" "0 < n"
  shows "length (choice n b k) = b" "row \<in> set (choice n b k) \<Longrightarrow> length row = k \<and> (\<forall>i \<in> set row. i < n)"
  using assms by (auto simp: choice_ok_def list_all_iff)

lemma vmin_in_set: "xs \<noteq> [] \<Longrightarrow> vmin xs \<in> set xs" and vmax_in_set: "xs \<noteq> [] \<Longrightarrow> vmax xs \<in> set xs"
proof -
  have a: "fold min xs x \<in> insert x (set xs)" for xs and x :: real
  proof (induction xs arbitrary: x)
    case (Cons y xs)
    show ?case using Cons [of "min y x"] by (auto simp: min_def)
  qed simp
  have b: "fold max xs x \<in> insert x (set xs)" for xs and x :: real
  proof (induction xs arbitrary: x)
    case (Cons y xs)
    show ?case using Cons [of "max y x"] by (auto simp: max_def)
  qed simp
  show "xs \<noteq> [] \<Longrightarrow> vmin xs \<in> set xs" "xs \<noteq> [] \<Longrightarrow> vmax xs \<in> set xs"
    using a [of xs "hd xs"] b [of xs "hd xs"] by (auto simp: vmin_def vmax_def)
qed

lemma vmean_mono:
  assumes "\<And>r. r \<in> set rows \<Longrightarrow> f r \<le> g r"
  shows "vmean (map f rows) \<le> vmean (map g rows)"
  using sum_list_mono [of rows f g] assms by (simp add: vmean_def divide_right_mono)

lemma vmean_const: "rows \<noteq> [] \<Longrightarrow> vmean (map (\<lambda>_. c) rows) = c"
  by (simp add: vmean_def sum_list_triv)

lemma n_bootstrap_pos: "0 < n_bootstrap" by (simp add: n_bootstrap_def)

lemma bootstrap_total:
  assumes "choice_ok choice" "data \<noteq> []" "0 < b"
    and "\<And>fn idxs. fn \<in> set fns \<Longrightarrow> length idxs = k \<Longrightarrow> \<forall>i \<in> set idxs. i < length data \<Longrightarrow> \<exists>x. fn (picks data idxs) = Inr x"
  shows "bootstrap_metric choice data k fns b = Inr (map (\<lambda>fn.
    let results = map (\<lambda>idxs. projr (fn (picks data idxs))) (choice (length data) b k) in (vmean results, np_std results)) fns)"
proof -
  have rows: "length (choice (length data) b k) = b"
    "\<And>row. row \<in> set (choice (length data) b k) \<Longrightarrow> length row = k \<and> (\<forall>i \<in> set row. i < length data)"
    using choice_rows [OF assms(1)] assms(2) by blast+
  have "rmap (\<lambda>idxs. fn (picks data idxs)) (choice (length data) b k)
      = Inr (map (\<lambda>idxs. projr (fn (picks data idxs))) (choice (length data) b k))" if "fn \<in> set fns" for fn
    using assms(4) [OF that] rows(2) by (intro rmap_total) (metis sum.sel(2))
  moreover have "choice (length data) b k \<noteq> []" using rows(1) assms(3) by auto
  ultimately show ?thesis
    using assms(2) by (auto simp: bootstrap_metric_def Let_def intro!: rmap_total)
qed

lemma best_worst_bounds:
  assumes "choice_ok choice" "xs \<noteq> []" "0 < k" "0 < b"
  shows "\<exists>best worst sb sw. bootstrap_metric choice xs k [nonempty vmax, nonempty vmin] b = Inr [(best, sb), (worst, sw)]
    \<and> vmin xs \<le> worst \<and> worst \<le> best \<and> best \<le> vmax xs"
proof -
  let ?rows = "choice (length xs) b k"
  have n: "0 < length xs" using assms(2) by simp
  have rows: "?rows \<noteq> []" "\<And>row. row \<in> set ?rows \<Longrightarrow> length row = k \<and> (\<forall>i \<in> set row. i < length xs)"
    using choice_rows [OF assms(1) n] assms(4) by (metis length_0_conv less_irrefl, blast)
  have ne: "picks xs idxs \<noteq> []" if "length idxs = k" for idxs using that assms(3) by (auto simp: picks_def)
  have sub: "set (picks xs idxs) \<subseteq> set xs" if "\<forall>i \<in> set idxs. i < length xs" for idxs
    using that by (auto simp: picks_def)
  have r: "bootstrap_metric choice xs k [nonempty vmax, nonempty vmin] b = Inr (map (\<lambda>fn.
      let results = map (\<lambda>idxs. projr (fn (picks xs idxs))) ?rows in (vmean results, np_std results)) [nonempty vmax, nonempty vmin])"
    using assms ne by (intro bootstrap_total) (auto simp: nonempty_def)
  have p: "projr (nonempty f (picks xs idxs)) = f (picks xs idxs)" if "idxs \<in> set ?rows" for f :: "vec \<Rightarrow> real" and idxs
    using rows(2) [OF that] ne by (simp add: nonempty_def)
  have "vmin xs \<le> vmin (picks xs idxs) \<and> vmin (picks xs idxs) \<le> vmax (picks xs idxs) \<and> vmax (picks xs idxs) \<le> vmax xs"
    if "idxs \<in> set ?rows" for idxs
  proof -
    have row: "picks xs idxs \<noteq> []" "set (picks xs idxs) \<subseteq> set xs" using rows(2) [OF that] ne sub by simp_all
    then have "vmin (picks xs idxs) \<in> set xs" "vmax (picks xs idxs) \<in> set xs" using vmin_in_set vmax_in_set by blast+
    then show ?thesis using vmax_ge [OF vmin_in_set [OF row(1)]] by (simp add: vmin_le vmax_ge)
  qed
  then have bd: "vmean (map (\<lambda>_. vmin xs) ?rows) \<le> vmean (map (\<lambda>idxs. projr (nonempty vmin (picks xs idxs))) ?rows)"
    "vmean (map (\<lambda>idxs. projr (nonempty vmin (picks xs idxs))) ?rows) \<le> vmean (map (\<lambda>idxs. projr (nonempty vmax (picks xs idxs))) ?rows)"
    "vmean (map (\<lambda>idxs. projr (nonempty vmax (picks xs idxs))) ?rows) \<le> vmean (map (\<lambda>_. vmax xs) ?rows)"
    by (auto intro!: vmean_mono simp: p)
  then show ?thesis using r rows(1) by (simp add: Let_def vmean_const)
qed

text \<open>The groups of votes after a prefix of the data: every value in them comes from the data.\<close>

lemma add_vote_groups:
  assumes "list_all (\<lambda>(k, vs). vs \<noteq> [] \<and> set vs \<subseteq> V) votes" "v \<in> V"
  shows "list_all (\<lambda>(k, vs). vs \<noteq> [] \<and> set vs \<subseteq> V) (add_vote k v votes) \<and> add_vote k v votes \<noteq> []"
  using assms by (induction k v votes rule: add_vote.induct) auto

lemma first_longest_mem: "votes \<noteq> [] \<Longrightarrow> \<exists>p \<in> set votes. first_longest votes = Inr p"
  by (induction votes rule: first_longest.induct) auto

lemma vote_groups:
  assumes "list_all (\<lambda>d. \<exists>k v. dget d vk = Inr k \<and> hashable k \<and> dget d valk = Inr v \<and> v \<in> V) data"
    and "list_all (\<lambda>(k, vs). vs \<noteq> [] \<and> set vs \<subseteq> V) votes"
  shows "\<exists>votes'. rfold (\<lambda>d votes. rbind (dget d vk) (\<lambda>k. rbind (ensure TypeError (hashable k)) (\<lambda>_. rbind (dget d valk) (\<lambda>v.
        Inr (add_vote k v votes))))) data votes = Inr votes' \<and> list_all (\<lambda>(k, vs). vs \<noteq> [] \<and> set vs \<subseteq> V) votes'
      \<and> (data \<noteq> [] \<or> votes \<noteq> [] \<longrightarrow> votes' \<noteq> [])"
  using assms
proof (induction data arbitrary: votes)
  case (Cons d data)
  then obtain k v where kv: "dget d vk = Inr k" "hashable k" "dget d valk = Inr v" "v \<in> V" by auto
  have "list_all (\<lambda>(k, vs). vs \<noteq> [] \<and> set vs \<subseteq> V) (add_vote k v votes)" "add_vote k v votes \<noteq> []"
    using add_vote_groups [OF Cons.prems(2) kv(4)] by blast+
  then show ?case using Cons.IH [of "add_vote k v votes"] Cons.prems(1) kv by (simp add: dget_def)
qed simp

lemma list_all_Nil: "list_all P []" by simp

lemma calc_maj_val_total:
  assumes "data \<noteq> []" "list_all (\<lambda>d. \<exists>k v. dget d vk = Inr k \<and> hashable k \<and> dget d valk = Inr v \<and> v \<in> V) data"
  shows "\<exists>v \<in> V. calc_maj_val data vk valk = Inr v"
proof -
  obtain votes where votes: "rfold (\<lambda>d votes. rbind (dget d vk) (\<lambda>k. rbind (ensure TypeError (hashable k)) (\<lambda>_. rbind (dget d valk) (\<lambda>v.
        Inr (add_vote k v votes))))) data [] = Inr votes" "list_all (\<lambda>(k, vs). vs \<noteq> [] \<and> set vs \<subseteq> V) votes" "votes \<noteq> []"
    using vote_groups [OF assms(2) list_all_Nil] assms(1) by blast
  obtain k vs where "(k, vs) \<in> set votes" "first_longest votes = Inr (k, vs)"
    using first_longest_mem [OF votes(3)] by (metis surj_pair)
  moreover have "vs \<noteq> []" "set vs \<subseteq> V" using votes(2) calculation(1) by (auto simp: list_all_iff)
  ultimately show ?thesis using votes(1) by (auto simp: calc_maj_val_def py_nth_def)
qed

lemma maj_bounds:
  assumes "choice_ok choice" "rmap as_float vals = Inr xs" "vals \<noteq> []" "length preds = length vals" "list_all hashable preds" "0 < k"
  shows "\<exists>j s. maj_metric choice vals (Some preds) k = Inr [(at_name ''maj'' k ''/mean'', j), (at_name ''maj'' k ''/std'', s)]
    \<and> vmin xs \<le> j \<and> j \<le> vmax xs"
proof -
  let ?data = "map (\<lambda>(v, pr). [(''val'', v), (''pred'', pr)]) (zip vals preds)"
  let ?fn = "\<lambda>sample. rbind (calc_maj_val sample ''pred'' ''val'') as_float"
  let ?rows = "choice (length ?data) n_bootstrap k"
  have len: "length ?data = length vals" "?data \<noteq> []" using assms(3,4) by auto
  have val: "\<exists>x. as_float v = Inr x \<and> x \<in> set xs" if "v \<in> set vals" for v
    using that rmap_nth [OF assms(2)] rmap_length [OF assms(2)] by (metis in_set_conv_nth)
  have fn: "\<exists>x. ?fn (picks ?data idxs) = Inr x \<and> x \<in> set xs"
    if idxs: "length idxs = k" "\<forall>i \<in> set idxs. i < length ?data" for idxs
  proof -
    have "picks ?data idxs \<noteq> []" using idxs(1) assms(6) by (auto simp: picks_def)
    moreover have "list_all (\<lambda>d. \<exists>p v. dget d ''pred'' = Inr p \<and> hashable p \<and> dget d ''val'' = Inr v \<and> v \<in> set vals) (picks ?data idxs)"
      using idxs(2) assms(4,5) by (auto simp: picks_def list_all_length dget_def list_all_iff)
    ultimately show ?thesis using calc_maj_val_total [of "picks ?data idxs" "''pred''" "''val''" "set vals"] val by fastforce
  qed
  have r: "bootstrap_metric choice ?data k [?fn] n_bootstrap = Inr (map (\<lambda>fn.
      let results = map (\<lambda>idxs. projr (fn (picks ?data idxs))) ?rows in (vmean results, np_std results)) [?fn])"
  proof (rule bootstrap_total [OF assms(1) len(2)])
    show "0 < n_bootstrap" by (rule n_bootstrap_pos)
    show "\<exists>x. g (picks ?data idxs) = Inr x" if "g \<in> set [?fn]" "length idxs = k" "\<forall>i \<in> set idxs. i < length ?data" for g idxs
      using fn [OF that(2,3)] that(1) by auto
  qed
  have rows: "?rows \<noteq> []" "\<And>row. row \<in> set ?rows \<Longrightarrow> length row = k \<and> (\<forall>i \<in> set row. i < length ?data)"
    using choice_rows [OF assms(1), of "length ?data"] len(2) by (metis length_0_conv length_greater_0_conv n_bootstrap_pos, blast)
  have "vmin xs \<le> projr (?fn (picks ?data idxs)) \<and> projr (?fn (picks ?data idxs)) \<le> vmax xs" if row: "idxs \<in> set ?rows" for idxs
  proof -
    obtain x where "?fn (picks ?data idxs) = Inr x" "x \<in> set xs" using fn [of idxs] rows(2) [OF row] by blast
    then show ?thesis by (simp add: vmin_le vmax_ge)
  qed
  then have "vmean (map (\<lambda>_. vmin xs) ?rows) \<le> vmean (map (\<lambda>idxs. projr (?fn (picks ?data idxs))) ?rows)"
    "vmean (map (\<lambda>idxs. projr (?fn (picks ?data idxs))) ?rows) \<le> vmean (map (\<lambda>_. vmax xs) ?rows)"
    by (auto intro!: vmean_mono)
  then show ?thesis using r rows(1) assms(4) by (simp add: maj_metric_def zip_strict_def Let_def vmean_const)
qed

subsection \<open>Subset sizes and names\<close>

lemma doubles_bounds: "0 < n \<Longrightarrow> sorted_wrt (<) (doubles n m) \<and> (\<forall>k \<in> set (doubles n m). n \<le> k \<and> k < m)"
proof (induction n m rule: doubles.induct)
  case (1 n m)
  show ?case
  proof (cases "n < m")
    case True
    have d: "doubles n m = n # doubles (n * 2) m" using 1 True by (subst doubles.simps) simp
    have "sorted_wrt (<) (doubles (n * 2) m) \<and> (\<forall>k \<in> set (doubles (n * 2) m). n * 2 \<le> k \<and> k < m)"
      using 1 True by simp
    then show ?thesis unfolding d using 1(2) True by fastforce
  qed (subst doubles.simps, simp)+
qed

lemma gen_ns_increasing:
  assumes "1 < n"
  shows "sorted_wrt (<) (gen_ns n)" "last (gen_ns n) = n" "k \<in> set (gen_ns n) \<Longrightarrow> 2 \<le> k \<and> k \<le> n"
  using assms doubles_bounds [of 2 n] by (auto simp: gen_ns_def sorted_wrt_append)

lemma takeWhile_at: "\<forall>c \<in> set a. c \<noteq> x \<Longrightarrow> dropWhile (\<lambda>c. c \<noteq> x) (a @ x # r) = x # r"
  by (induction a) auto

lemma at_name_number:
  assumes "at_name a k s = at_name b k' s'" "CHR ''@'' \<notin> set a" "CHR ''@'' \<notin> set b"
    and "s = [] \<or> \<not> is_digit (hd s)" "s' = [] \<or> \<not> is_digit (hd s')"
  shows "k = k'"
proof -
  have "dropWhile (\<lambda>c. c \<noteq> CHR ''@'') (at_name a k s) = CHR ''@'' # nat_string k @ s"
    if "CHR ''@'' \<notin> set a" for a k s
    using that by (auto simp: at_name_def intro: takeWhile_at)
  then have "nat_string k @ s = nat_string k' @ s'" using assms(1-3) by (metis list.inject)
  then have "takeWhile is_digit (nat_string k @ s) = takeWhile is_digit (nat_string k' @ s')" by simp
  moreover have "takeWhile is_digit (nat_string k @ s) = nat_string k" if "s = [] \<or> \<not> is_digit (hd s)" for k s
    using that nat_string_digits [of k] by (cases s) (auto simp: list_all_iff takeWhile_append)
  ultimately have "nat_string k = nat_string k'" using assms(4,5) by simp
  then show ?thesis by (metis nat_string_value)
qed

lemma map_of_dict_update: "map_of (dict_update d e) = map_of d ++ map_of (rev e)"
  by (induction e arbitrary: d) (auto simp: dict_update_def fun_eq_iff map_add_def split: option.splits)

subsection \<open>All metrics of a prompt\<close>

definition subset_names :: "bool \<Rightarrow> nat \<Rightarrow> string list" where
  "subset_names preds k = map (\<lambda>(a, s). at_name a k s) ([(''best'', ''/mean''), (''best'', ''/std''), (''worst'', ''/mean''), (''worst'', ''/std'')]
     @ (if preds then [(''maj'', ''/mean''), (''maj'', ''/std'')] else []))"

lemma subset_names_number: "x \<in> set (subset_names p k) \<Longrightarrow> x \<in> set (subset_names p k') \<Longrightarrow> k = k'"
  by (auto simp: subset_names_def is_digit_def split: if_splits dest!: at_name_number)

lemma distinct_subset_names: "distinct (subset_names p k)"
  by (cases p) (simp_all add: subset_names_def at_name_def)

lemma distinct_all_names: "distinct ns \<Longrightarrow> distinct (concat (map (subset_names p) ns))"
  by (induction ns) (auto simp: distinct_subset_names dest: subset_names_number)

lemma mean_not_subset_name: "at_name ''mean'' n '''' \<notin> set (subset_names p k)" "at_name ''std'' n '''' \<notin> set (subset_names p k)"
  by (auto simp: subset_names_def at_name_def)

definition subset_ok :: "bool \<Rightarrow> vec \<Rightarrow> nat \<Rightarrow> (string, real) dict \<Rightarrow> bool" where
  "subset_ok p xs k d \<longleftrightarrow> keys d = subset_names p k \<and> (\<exists>best worst. (at_name ''best'' k ''/mean'', best) \<in> set d
     \<and> (at_name ''worst'' k ''/mean'', worst) \<in> set d \<and> vmin xs \<le> worst \<and> worst \<le> best \<and> best \<le> vmax xs)
     \<and> (p \<longrightarrow> (\<exists>j. (at_name ''maj'' k ''/mean'', j) \<in> set d \<and> vmin xs \<le> j \<and> j \<le> vmax xs))"

definition votes_ok :: "pyv list option \<Rightarrow> nat \<Rightarrow> bool" where
  "votes_ok preds n = (case preds of None \<Rightarrow> True | Some ps \<Rightarrow> length ps = n \<and> list_all hashable ps)"

lemma subset_metrics_total:
  assumes "choice_ok choice" "rmap as_float vals = Inr xs" "vals \<noteq> []" "votes_ok preds (length vals)" "0 < k"
  shows "\<exists>d. subset_metrics choice vals xs preds k = Inr d \<and> subset_ok (preds \<noteq> None) xs k d"
proof -
  have "xs \<noteq> []" using assms(3) rmap_length [OF assms(2)] by auto
  then obtain best worst sb sw where bw:
    "bootstrap_metric choice xs k [nonempty vmax, nonempty vmin] n_bootstrap = Inr [(best, sb), (worst, sw)]"
    "vmin xs \<le> worst" "worst \<le> best" "best \<le> vmax xs"
    using best_worst_bounds [OF assms(1) _ assms(5) n_bootstrap_pos] by blast
  show ?thesis
  proof (cases preds)
    case None
    then show ?thesis using bw by (auto simp: subset_metrics_def maj_metric_def subset_ok_def subset_names_def)
  next
    case (Some ps)
    then obtain j s where "maj_metric choice vals preds k = Inr [(at_name ''maj'' k ''/mean'', j), (at_name ''maj'' k ''/std'', s)]"
      "vmin xs \<le> j" "j \<le> vmax xs"
      using maj_bounds [OF assms(1,2,3) _ _ assms(5), of ps] assms(4) by (auto simp: votes_ok_def)
    then show ?thesis using bw Some by (auto simp: subset_metrics_def subset_ok_def subset_names_def)
  qed
qed

lemma keys_concat: "keys (concat ds) = concat (map keys ds)"
  by (induction ds) simp_all

lemma map_of_rev_distinct: "distinct (keys d) \<Longrightarrow> (k, v) \<in> set d \<Longrightarrow> map_of (rev d) k = Some v"
  by (intro map_of_is_SomeI) (auto simp: keys_def rev_map [symmetric])

lemma subset_keys:
  assumes "list_all2 (subset_ok p xs) ns ds"
  shows "keys (concat ds) = concat (map (subset_names p) ns)"
  using assms unfolding keys_concat by (induction rule: list_all2_induct) (auto simp: subset_ok_def)

text \<open>The validation metrics of a prompt never raise on numbers and are consistent. With at least two
  responses the subset sizes double from 2 and end with the number of responses; for each of them the
  estimated worst value is at most the estimated best value, and both, as well as the estimated majority value,
  lie between the least and the greatest value observed.\<close>

theorem prompt_metrics_bounds:
  assumes "choice_ok choice" "rmap as_float vals = Inr xs" "1 < length vals" "votes_ok preds (length vals)"
  shows "sorted_wrt (<) (gen_ns (length vals)) \<and> last (gen_ns (length vals)) = length vals
    \<and> (\<exists>m. prompt_metrics choice preds vals = Inr m \<and> map_of m (at_name ''mean'' (length vals) '''') = Some (vmean xs)
      \<and> (\<forall>k \<in> set (gen_ns (length vals)). \<exists>best worst.
          map_of m (at_name ''best'' k ''/mean'') = Some best \<and> map_of m (at_name ''worst'' k ''/mean'') = Some worst
          \<and> vmin xs \<le> worst \<and> worst \<le> best \<and> best \<le> vmax xs
          \<and> (preds \<noteq> None \<longrightarrow> (\<exists>j. map_of m (at_name ''maj'' k ''/mean'') = Some j \<and> vmin xs \<le> j \<and> j \<le> vmax xs))))"
proof -
  let ?n = "length vals" let ?p = "preds \<noteq> None"
  note ns = gen_ns_increasing [OF assms(3)]
  have ne: "vals \<noteq> []" using assms(3) by auto
  have "\<exists>d. subset_metrics choice vals xs preds k = Inr d \<and> subset_ok ?p xs k d" if "k \<in> set (gen_ns ?n)" for k
    using subset_metrics_total [OF assms(1,2) ne assms(4), of k] ns(3) [OF that] by simp
  then obtain ds where ds: "rmap (subset_metrics choice vals xs preds) (gen_ns ?n) = Inr ds" "list_all2 (subset_ok ?p xs) (gen_ns ?n) ds"
    using rmap_list_all2 [of "gen_ns ?n" "subset_metrics choice vals xs preds" "subset_ok ?p xs"] by blast
  let ?head = "[(at_name ''mean'' ?n '''', vmean xs), (at_name ''std'' ?n '''', np_std xs)]"
  let ?m = "dict_update ?head (concat ds)"
  have m: "prompt_metrics choice preds vals = Inr ?m"
    using assms(2,3) ds(1) by (simp add: prompt_metrics_def Let_def)
  have keys: "keys (concat ds) = concat (map (subset_names ?p) (gen_ns ?n))" using ds(2) by (rule subset_keys)
  have dist: "distinct (keys (concat ds))"
    unfolding keys using ns(1) by (intro distinct_all_names) (simp add: strict_sorted_iff)
  have "at_name ''mean'' ?n '''' \<notin> set (keys (rev (concat ds)))"
    using keys mean_not_subset_name by (simp add: keys_def rev_map [symmetric])
  then have mean: "map_of ?m (at_name ''mean'' ?n '''') = Some (vmean xs)"
    by (simp add: map_of_dict_update map_add_def set_keys split: option.split) blast
  have look: "map_of ?m x = Some v" if "d \<in> set ds" "(x, v) \<in> set d" for d x v
  proof -
    have "map_of (rev (concat ds)) x = Some v" by (rule map_of_rev_distinct [OF dist]) (use that in auto)
    then show ?thesis by (simp add: map_of_dict_update map_add_def)
  qed
  have each: "\<exists>d \<in> set ds. subset_ok ?p xs k d" if "k \<in> set (gen_ns ?n)" for k
    using ds(2) that by (metis in_set_conv_nth list_all2_conv_all_nth)
  have "\<exists>best worst. map_of ?m (at_name ''best'' k ''/mean'') = Some best \<and> map_of ?m (at_name ''worst'' k ''/mean'') = Some worst
      \<and> vmin xs \<le> worst \<and> worst \<le> best \<and> best \<le> vmax xs
      \<and> (?p \<longrightarrow> (\<exists>j. map_of ?m (at_name ''maj'' k ''/mean'') = Some j \<and> vmin xs \<le> j \<and> j \<le> vmax xs))"
    if k: "k \<in> set (gen_ns ?n)" for k
  proof -
    obtain d where d: "d \<in> set ds" "subset_ok ?p xs k d" using each [OF k] by blast
    then obtain best worst where bw: "(at_name ''best'' k ''/mean'', best) \<in> set d" "(at_name ''worst'' k ''/mean'', worst) \<in> set d"
      "vmin xs \<le> worst" "worst \<le> best" "best \<le> vmax xs"
      and j: "?p \<longrightarrow> (\<exists>j. (at_name ''maj'' k ''/mean'', j) \<in> set d \<and> vmin xs \<le> j \<and> j \<le> vmax xs)"
      by (auto simp: subset_ok_def)
    have "?p \<longrightarrow> (\<exists>j. map_of ?m (at_name ''maj'' k ''/mean'') = Some j \<and> vmin xs \<le> j \<and> j \<le> vmax xs)"
      using j look [OF d(1)] by metis
    then show ?thesis using bw look [OF d(1) bw(1)] look [OF d(1) bw(2)] by metis
  qed
  then show ?thesis using ns m mean by blast
qed

definition demo_choice :: "nat \<Rightarrow> nat \<Rightarrow> nat \<Rightarrow> nat list list" where
  "demo_choice n b k = map (\<lambda>i. map (\<lambda>j. (i + j) mod n) [0..<k]) [0..<b]"

theorem prompt_metrics_bounds_witness:
  "\<exists>m best worst. prompt_metrics demo_choice (Some [PStr ''a'', PStr ''b'', PStr ''a'']) [PInt 1, PFloat 0, PBool True] = Inr m
    \<and> map_of m (at_name ''best'' 2 ''/mean'') = Some best \<and> map_of m (at_name ''worst'' 2 ''/mean'') = Some worst
    \<and> 0 \<le> worst \<and> worst \<le> best \<and> best \<le> 1"
proof -
  let ?vals = "[PInt 1, PFloat 0, PBool True]" let ?preds = "Some [PStr ''a'', PStr ''b'', PStr ''a'']"
  have c: "choice_ok demo_choice" by (auto simp: choice_ok_def demo_choice_def list_all_iff)
  have x: "rmap as_float ?vals = Inr [1, 0, 1]" by (simp add: as_float_def)
  have v: "1 < length ?vals" "votes_ok ?preds (length ?vals)" by (simp_all add: votes_ok_def)
  have "vmin [1, 0, 1] = 0" "vmax [1, 0, 1] = 1" by (simp_all add: vmin_def vmax_def)
  moreover have "2 \<in> set (gen_ns (length ?vals))" by (simp add: gen_ns_def doubles.simps)
  ultimately show ?thesis using prompt_metrics_bounds [OF c x v] by metis
qed

subsection \<open>Averages over prompts\<close>

definition collected_values :: "(string, (string, vec) dict) dict \<Rightarrow> string \<Rightarrow> string \<Rightarrow> vec" where
  "collected_values d var name = (case map_of d var of None \<Rightarrow> [] | Some vs \<Rightarrow> (case map_of vs name of None \<Rightarrow> [] | Some xs \<Rightarrow> xs))"

definition values_of :: "(string, (string, real) dict) dict \<Rightarrow> string \<Rightarrow> string \<Rightarrow> vec" where
  "values_of u var name = concat (map (\<lambda>(v, m). if v = var then concat (map (\<lambda>(n, x). if n = name then [x] else []) m) else []) u)"

lemma collected_modify:
  "collected_values (modify [] v (modify [] n (\<lambda>xs. xs @ [x])) d) var name
    = collected_values d var name @ (if v = var \<and> n = name then [x] else [])"
  by (auto simp: collected_values_def modify_def split: option.splits)

lemma collected_prompt:
  "collected_values (fold (\<lambda>(n, x). modify [] v (modify [] n (\<lambda>xs. xs @ [x]))) m d) var name
    = collected_values d var name @ (if v = var then concat (map (\<lambda>(n, x). if n = name then [x] else []) m) else [])"
  by (induction m arbitrary: d) (auto simp: collected_modify)

lemma collected_vars:
  "collected_values (fold (\<lambda>(v, m). fold (\<lambda>(n, x). modify [] v (modify [] n (\<lambda>xs. xs @ [x]))) m) u d) var name
    = collected_values d var name @ values_of u var name"
  by (induction u arbitrary: d) (auto simp: collected_prompt values_of_def)

text \<open>The values averaged for a variable and a metric are those of the prompts that have it, in order.\<close>

lemma collect_metrics_values:
  "collected_values (collect_metrics uids) var name = concat (map (\<lambda>u. values_of u var name) uids)"
proof -
  have "collected_values (fold (\<lambda>u. fold (\<lambda>(v, m). fold (\<lambda>(n, x). modify [] v (modify [] n (\<lambda>xs. xs @ [x]))) m) u) uids d) var name
      = collected_values d var name @ concat (map (\<lambda>u. values_of u var name) uids)" for d
    by (induction uids arbitrary: d) (auto simp: collected_vars)
  then show ?thesis by (simp add: collect_metrics_def collected_values_def)
qed

end
