(* ===== verification/MathReward.thy ===== *)
theory MathReward
  imports PyString
begin

section \<open>Rule-based scores of mathematical answers\<close>

text \<open>
  \<open>verl/utils/reward_score/math_reward.py\<close>: the answer of a solution is the content of its last box; it is compared with the
  ground truth after a normalisation of the LaTeX. Strings are ASCII; an exception inside
  \<open>is_equiv\<close> or \<open>compute_score\<close> is caught there as in the code.
\<close>

text \<open>\<open>\\s\<close> of the source: the string after a backslash.\<close>

definition tex :: "string \<Rightarrow> string" where
  "tex s = CHR 0x5C # s"

definition newline :: string where
  "newline = [CHR 0x0A]"

definition double_quote :: char where
  "double_quote = CHR 0x22"

subsection \<open>The last box\<close>

text \<open>The loop over the characters from the box on: how many are read until the brace that closes the first one;
  the counter becomes negative if a brace is closed before.\<close>

fun close_brace :: "int \<Rightarrow> string \<Rightarrow> nat option" where
  "close_brace n [] = None"
| "close_brace n (c # cs) =
    (let n1 = (if c = CHR ''{'' then n + 1 else n)
     in if c = CHR ''}'' then
          (if n1 - 1 = 0 then Some 1 else map_option Suc (close_brace (n1 - 1) cs))
        else map_option Suc (close_brace n1 cs))"

definition boxed_from :: "nat \<Rightarrow> string \<Rightarrow> string option" where
  "boxed_from idx s = map_option (\<lambda>k. take k (drop idx s)) (close_brace 0 (drop idx s))"

definition last_boxed_only_string :: "string \<Rightarrow> string option" where
  "last_boxed_only_string s =
    (if contains (tex ''boxed '') s
     then Some (tex ''boxed '' @ hd (split_str ''$'' (last (split_str (tex ''boxed '') s))))
     else case rfind (tex ''boxed'') s of
       Some idx \<Rightarrow> boxed_from idx s
     | None \<Rightarrow> (case rfind (tex ''fbox'') s of None \<Rightarrow> None | Some idx \<Rightarrow> boxed_from idx s))"

definition remove_boxed :: "string \<Rightarrow> string result" where
  "remove_boxed s =
    (if contains (tex ''boxed '') s
     then rbind (py_assert (startswith s (tex ''boxed ''))) (\<lambda>_. Inr (drop 7 s))
     else rbind (py_assert (startswith s (tex ''boxed{''))) (\<lambda>_.
       rbind (if s = [] then Inl IndexError else py_assert (last s = CHR ''}'')) (\<lambda>_. Inr (butlast (drop 7 s)))))"

subsection \<open>Normalisation\<close>

text \<open>One piece after \<open>\\frac\<close>; \<open>None\<close> stands for the early return of the original string.\<close>

fun frac_part :: "string \<Rightarrow> string option result" where
  "frac_part [] = Inl IndexError"
| "frac_part (a # rest) =
    (if a = CHR ''{'' then Inr (Some (a # rest))
     else case rest of
       [] \<Rightarrow> Inr None
     | b # post \<Rightarrow> if b \<noteq> CHR ''{'' then Inr (Some (''{'' @ [a] @ ''}{'' @ [b] @ ''}'' @ post))
         else Inr (Some (''{'' @ [a] @ ''}'' @ [b] @ post)))"

fun frac_parts :: "string list \<Rightarrow> string option result" where
  "frac_parts [] = Inr (Some [])"
| "frac_parts (p # ps) = rbind (frac_part p) (\<lambda>r. case r of
     None \<Rightarrow> Inr None
   | Some t \<Rightarrow> rbind (frac_parts ps) (\<lambda>u. Inr (map_option (\<lambda>v. tex ''frac'' @ t @ v) u)))"

definition fix_fracs :: "string \<Rightarrow> string result" where
  "fix_fracs s = (let substrs = split_str (tex ''frac'') s
     in rbind (frac_parts (tl substrs)) (\<lambda>r. Inr (case r of None \<Rightarrow> s | Some t \<Rightarrow> hd substrs @ t)))"

definition int_string :: "int \<Rightarrow> string" where
  "int_string i = (if i < 0 then CHR ''-'' # nat_string (nat (- i)) else nat_string (nat i))"

definition fix_a_slash_b :: "string \<Rightarrow> string" where
  "fix_a_slash_b s = (case split_str ''/'' s of
     [a, b] \<Rightarrow>
       (case rbind (py_int a) (\<lambda>i. rbind (py_int b) (\<lambda>j.
          rbind (py_assert (s = int_string i @ ''/'' @ int_string j)) (\<lambda>_.
          Inr (tex ''frac{'' @ int_string i @ ''}{'' @ int_string j @ ''}'')))) of
         Inl e \<Rightarrow> s | Inr t \<Rightarrow> t)
   | _ \<Rightarrow> s)"

definition remove_right_units :: "string \<Rightarrow> string result" where
  "remove_right_units s =
    (if contains (tex ''text{ '') s
     then (let splits = split_str (tex ''text{ '') s in rbind (py_assert (length splits = 2)) (\<lambda>_. Inr (hd splits)))
     else Inr s)"

fun sqrt_part :: "string \<Rightarrow> string result" where
  "sqrt_part [] = Inl IndexError"
| "sqrt_part (a # rest) = Inr (if a \<noteq> CHR ''{'' then tex ''sqrt{'' @ [a] @ ''}'' @ rest else tex ''sqrt'' @ a # rest)"

definition fix_sqrt :: "string \<Rightarrow> string result" where
  "fix_sqrt s =
    (if contains (tex ''sqrt'') s
     then (let splits = split_str (tex ''sqrt'') s in rbind (rmap sqrt_part (tl splits)) (\<lambda>ps. Inr (hd splits @ concat ps)))
     else Inr s)"

definition remove_all :: "string list \<Rightarrow> string \<Rightarrow> string" where
  "remove_all ps s = fold (\<lambda>p. py_replace p []) ps s"

definition strip_string :: "string \<Rightarrow> string result" where
  "strip_string s0 =
    (let s = remove_all [newline, tex ''!''] s0;
         s = py_replace (tex (tex [])) (tex []) s;
         s = py_replace ''tfrac'' ''frac'' s;
         s = py_replace ''dfrac'' ''frac'' s;
         s = remove_all [tex ''left'', tex ''right'', ''^{'' @ tex ''circ}'', ''^'' @ tex ''circ'', tex ''$''] s
     in rbind (remove_right_units s) (\<lambda>s.
     let s = remove_all [tex (tex ''%''), tex ''%''] s;
         s = py_replace '' .'' '' 0.'' s;
         s = py_replace ''{.'' ''{0.'' s
     in if s = [] then Inr s
        else let s = (if hd s = CHR ''.'' then CHR ''0'' # s else s);
                 s = (case split_str ''='' s of [l, r] \<Rightarrow> if length l \<le> 2 then r else s | _ \<Rightarrow> s)
        in rbind (fix_sqrt s) (\<lambda>s. rbind (fix_fracs (remove_all ['' ''] s)) (\<lambda>s.
           Inr (fix_a_slash_b (if s = ''0.5'' then tex ''frac{1}{2}'' else s))))))"

subsection \<open>The score\<close>

definition is_equiv :: "string option \<Rightarrow> string option \<Rightarrow> bool" where
  "is_equiv a b = (case (a, b) of
     (None, None) \<Rightarrow> True
   | (Some s, Some t) \<Rightarrow> (case (strip_string s, strip_string t) of
        (Inr u, Inr v) \<Rightarrow> u = v
      | _ \<Rightarrow> s = t)
   | _ \<Rightarrow> False)"

definition compute_score :: "string \<Rightarrow> string option \<Rightarrow> real" where
  "compute_score solution ground_truth = (case last_boxed_only_string solution of
     None \<Rightarrow> 0
   | Some s \<Rightarrow> (case remove_boxed s of
        Inl e \<Rightarrow> 0
      | Inr answer \<Rightarrow> if is_equiv (Some answer) ground_truth then 1 else 0))"

subsection \<open>A boxed answer is found\<close>

text \<open>Braces are balanced when \<open>n\<close> of them are open.\<close>

fun braces_balanced :: "nat \<Rightarrow> string \<Rightarrow> bool" where
  "braces_balanced n [] = (n = 0)"
| "braces_balanced n (c # cs) = (if c = CHR ''{'' then braces_balanced (Suc n) cs
     else if c = CHR ''}'' then 0 < n \<and> braces_balanced (n - 1) cs else braces_balanced n cs)"

lemma close_brace_balanced:
  "braces_balanced n a \<Longrightarrow> close_brace (int n + 1) (a @ CHR ''}'' # r) = Some (Suc (length a))"
proof (induction a arbitrary: n)
  case (Cons c cs)
  show ?case
  proof (cases "c = CHR ''}''")
    case True
    then have "0 < n" "braces_balanced (n - 1) cs" using Cons.prems by simp_all
    then show ?thesis using Cons.IH [of "n - 1"] True by (simp add: Let_def of_nat_diff)
  next
    case False
    show ?thesis
    proof (cases "c = CHR ''{''")
      case True
      then show ?thesis using Cons.IH [of "Suc n"] Cons.prems by (simp add: add.commute)
    qed (use Cons.IH [of n] Cons.prems False in simp)
  qed
qed simp

lemma rfind_last:
  assumes "\<not> contains (c # w) rest" "c \<notin> set w"
  shows "rfind (c # w) (pre @ c # w @ rest) = Some (length pre)"
proof -
  let ?s = "pre @ c # w @ rest"
  have at: "startswith (drop (length pre) ?s) (c # w)" using startswith_append [of "c # w" rest] by simp
  have later: "\<not> startswith (drop j ?s) (c # w)" if j: "length pre < j" for j
  proof
    assume st: "startswith (drop j ?s) (c # w)"
    define k where "k = j - length pre - 1"
    have d: "drop j ?s = drop k (w @ rest)" using j by (simp add: k_def drop_Cons')
    show False
    proof (cases "k < length w")
      case True
      then have "hd (drop k (w @ rest)) \<in> set w" by (simp add: hd_drop_conv_nth nth_append)
      moreover have "hd (drop k (w @ rest)) = c" using st d by (auto simp: startswith_iff)
      ultimately show False using assms(2) by simp
    next
      case False
      then have "startswith (drop (k - length w) rest) (c # w)" using st d by simp
      then have "contains (c # w) rest" unfolding startswith_iff contains_iff by (metis append_take_drop_id)
      then show False using assms(1) by blast
    qed
  qed
  have "contains (c # w) ?s" by (auto simp: contains_iff)
  then obtain i where i: "rfind (c # w) ?s = Some i" using rfind_None by (metis option.exhaust)
  then have "i = length pre" using rfind_Some [OF i] at later by (metis le_add1 length_append linorder_neqE_nat)
  then show ?thesis using i by simp
qed

lemma boxed_from_balanced:
  assumes "braces_balanced 0 ans" "CHR ''{'' \<notin> set w" "CHR ''}'' \<notin> set w"
  shows "boxed_from (length pre) (pre @ w @ ''{'' @ ans @ ''}'' @ post) = Some (w @ ''{'' @ ans @ ''}'')"
proof -
  have skip: "close_brace 0 (w @ r) = map_option (\<lambda>k. length w + k) (close_brace 0 r)" for r
    using assms(2,3) by (induction w) (cases "close_brace 0 r", auto simp: Let_def)+
  have "close_brace 0 (''{'' @ ans @ ''}'' @ post) = Some (Suc (Suc (length ans)))"
    using close_brace_balanced [OF assms(1), of post] by simp
  then show ?thesis unfolding boxed_from_def using skip by simp
qed

lemma remove_boxed_box:
  "\<not> contains (tex ''boxed '') (tex ''boxed{'' @ ans @ ''}'') \<Longrightarrow> remove_boxed (tex ''boxed{'' @ ans @ ''}'') = Inr ans"
  by (simp add: remove_boxed_def tex_def startswith_def butlast_append)

lemma contains_part: "\<not> contains p (a @ s @ b) \<Longrightarrow> \<not> contains p s"
  unfolding contains_iff by (metis append.assoc)

lemma is_equiv_refl: "is_equiv a a" and is_equiv_sym: "is_equiv a b \<longleftrightarrow> is_equiv b a"
  by (auto simp: is_equiv_def split: option.splits sum.splits)

text \<open>A boxed answer earns its score. In a solution whose last box holds a text with balanced braces, exactly
  this text is compared with the ground truth: the score is 1 if they are equivalent and 0
  otherwise, and equivalence holds at least when they are equal.\<close>

theorem boxed_answer_scores:
  assumes "braces_balanced 0 ans" "\<not> contains (tex ''boxed'') (''{'' @ ans @ ''}'' @ post)"
    and "\<not> contains (tex ''boxed '') (pre @ tex ''boxed{'' @ ans @ ''}'' @ post)"
  shows "compute_score (pre @ tex ''boxed{'' @ ans @ ''}'' @ post) gt = (if is_equiv (Some ans) gt then 1 else 0)
    \<and> compute_score (pre @ tex ''boxed{'' @ ans @ ''}'' @ post) (Some ans) = 1"
proof -
  let ?s = "pre @ tex ''boxed{'' @ ans @ ''}'' @ post"
  have split: "?s = pre @ tex ''boxed'' @ (''{'' @ ans @ ''}'' @ post)" by (simp add: tex_def)
  have "rfind (CHR 0x5C # ''boxed'') (pre @ CHR 0x5C # ''boxed'' @ (''{'' @ ans @ ''}'' @ post)) = Some (length pre)"
    by (rule rfind_last [OF assms(2) [unfolded tex_def]]) simp
  then have "rfind (tex ''boxed'') ?s = Some (length pre)" by (simp add: tex_def)
  moreover have "boxed_from (length pre) ?s = Some (tex ''boxed'' @ ''{'' @ ans @ ''}'')"
    unfolding split by (rule boxed_from_balanced) (simp_all add: assms(1) tex_def)
  ultimately have last: "last_boxed_only_string ?s = Some (tex ''boxed{'' @ ans @ ''}'')"
    using assms(3) by (simp add: last_boxed_only_string_def tex_def)
  have "\<not> contains (tex ''boxed '') (tex ''boxed{'' @ ans @ ''}'')"
    by (rule contains_part [of _ pre _ post]) (use assms(3) in simp)
  then show ?thesis using last is_equiv_refl by (simp add: compute_score_def remove_boxed_box)
qed

theorem boxed_answer_scores_witness:
  "compute_score (''So '' @ tex ''boxed{'' @ (tex ''frac{1}{2}'') @ ''}'' @ ''.'') (Some (tex ''frac12'')) = 1"
proof -
  have "is_equiv (Some (tex ''frac{1}{2}'')) (Some (tex ''frac12''))" by code_simp
  moreover have "braces_balanced 0 (tex ''frac{1}{2}'')" "\<not> contains (tex ''boxed'') (''{'' @ tex ''frac{1}{2}'' @ ''}'' @ ''.'')"
    "\<not> contains (tex ''boxed '') (''So '' @ tex ''boxed{'' @ tex ''frac{1}{2}'' @ ''}'' @ ''.'')"
    by code_simp+
  ultimately show ?thesis
    using boxed_answer_scores [of "tex ''frac{1}{2}''" "''.''" "''So ''" "Some (tex ''frac12'')"] by simp
qed

text \<open>An answer in \<open>\\fbox\<close> is looked for, but \<open>remove_boxed\<close> rejects it.\<close>

lemma fbox_never_scores: "compute_score (tex ''fbox{3}'') (Some ''3'') = 0"
  by code_simp

text \<open>A text that ends with a bare \<open>\\frac\<close> makes the normalisation raise, so equivalent answers are compared verbatim.\<close>

lemma bare_frac_raises: "strip_string (''1 '' @ tex ''frac'') = Inl IndexError"
  by code_simp

end
