(* ===== verification/DapoReward.thy ===== *)
theory DapoReward
  imports MathReward
begin

section \<open>Scores of DAPO answers\<close>

text \<open>
  \<open>verl/utils/reward_score/math_dapo.py\<close>: answers after \<open>Answer:\<close> or in a box, compared after a normalisation. The regular
  expressions are written out as functions on the string: \<open>.\<close> does not match a newline, a
  substitution replaces non-overlapping matches from the left, a star gives characters back when the rest of
  the pattern does not match. Names that \<open>MathReward\<close> has too get the prefix \<open>dapo\<close>.
\<close>

subsection \<open>Boxes\<close>

definition dapo_last_boxed_only_string :: "string \<Rightarrow> string option" where
  "dapo_last_boxed_only_string s = (case rfind (tex ''boxed{'') s of None \<Rightarrow> None | Some idx \<Rightarrow> boxed_from idx s)"

definition dapo_remove_boxed :: "string \<Rightarrow> string result" where
  "dapo_remove_boxed s =
    rbind (py_assert (startswith s (tex ''boxed{''))) (\<lambda>_.
    rbind (if s = [] then Inl IndexError else py_assert (last s = CHR ''}'')) (\<lambda>_. Inr (butlast (drop 7 s))))"

subsection \<open>Normalisation\<close>

definition SUBSTITUTIONS :: "(string \<times> string) list" where
  "SUBSTITUTIONS =
    [(''an '', []), (''a '', []), (''.$'', ''$''), (tex ''$'', []), (tex '' '', []), ('' '', []), (''mbox'', ''text''),
     ('','' @ tex ''text{and}'', '',''), (tex ''text{and}'', '',''), (tex ''text{m}'', tex ''text{}'')]"

definition REMOVED_EXPRESSIONS :: "string list" where
  "REMOVED_EXPRESSIONS =
    [''square'', ''ways'', ''integers'', ''dollars'', ''mph'', ''inches'', ''hours'', ''km'', ''units'', tex ''ldots'', ''sue'',
     ''points'', ''feet'', ''minutes'', ''digits'', ''cents'', ''degrees'', ''cm'', ''gm'', ''pounds'', ''meters'', ''meals'',
     ''edges'', ''students'', ''childrentickets'', ''multiples'', tex ''text{s}'', tex ''text{.}'',
     tex ''text{'' @ newline @ ''s}'', tex ''text{}^2'', tex ''text{}^3'', tex ''text{'' @ newline @ ''}'', tex ''text{}'',
     tex ''mathrm{th}'', ''^'' @ tex ''circ'', ''^{'' @ tex ''circ}'', tex '';'', '','' @ tex ''!'', ''{,}'', [double_quote],
     tex ''dots'']"

definition not_newline :: "char \<Rightarrow> bool" where
  "not_newline c = (c \<noteq> CHR 0x0A)"

text \<open>The substitution of \<open>(.*?)($)(.*?)($)(.*)\<close> acts on each line with two dollar signs.\<close>

definition dollar_line :: "string \<Rightarrow> string" where
  "dollar_line l = (let after = drop 1 (dropWhile (\<lambda>c. c \<noteq> CHR ''$'') l)
     in if CHR ''$'' \<in> set after then ''$'' @ takeWhile (\<lambda>c. c \<noteq> CHR ''$'') after @ ''$'' else l)"

definition sub_dollars :: "string \<Rightarrow> string" where
  "sub_dollars s = py_join (CHR 0x0A) (map dollar_line (py_split (CHR 0x0A) s))"

text \<open>\<open>(\\macro{)(.*?)(})\<close> is replaced by its second group: the text up to the first closing brace on the line.\<close>

function sub_macro :: "string \<Rightarrow> string \<Rightarrow> string" where
  "sub_macro p s = (case s of
     [] \<Rightarrow> []
   | c # cs \<Rightarrow>
      (let rest = drop (length p) s; inner = takeWhile (\<lambda>c. c \<noteq> CHR ''}'' \<and> not_newline c) rest; after = drop (length inner) rest
       in if startswith s p \<and> after \<noteq> [] \<and> hd after = CHR ''}'' then inner @ sub_macro p (tl after)
          else c # sub_macro p cs))"
  by pat_completeness auto

termination
  by (relation "measure (\<lambda>(p, s). length s)") auto

declare sub_macro.simps [simp del]

text \<open>\<open>(\\boxed{)(.*)(})\<close>: up to the last closing brace on the line.\<close>

function sub_boxed :: "string \<Rightarrow> string" where
  "sub_boxed s = (case s of
     [] \<Rightarrow> []
   | c # cs \<Rightarrow>
      (let rest = drop 7 s; line = takeWhile not_newline rest; inner = butlast (rev (dropWhile (\<lambda>c. c \<noteq> CHR ''}'') (rev line)))
       in if startswith s (tex ''boxed{'') \<and> CHR ''}'' \<in> set line then inner @ sub_boxed (drop (Suc (length inner)) rest)
          else c # sub_boxed cs))"
  by pat_completeness auto

termination
  by (relation "measure length") auto

declare sub_boxed.simps [simp del]

fun sub_frac :: "string \<Rightarrow> string" where
  "sub_frac (f # r # a # c # x # y # post) =
     (if [f, r, a, c] = ''frac'' \<and> x \<noteq> CHR ''{'' \<and> not_newline y then ''frac{'' @ [x] @ ''}{'' @ [y] @ ''}'' @ sub_frac post
      else f # sub_frac (r # a # c # x # y # post))"
| "sub_frac s = s"

fun sub_sqrt :: "string \<Rightarrow> string" where
  "sub_sqrt (q # r # s # t # x # post) =
     (if [q, r, s, t] = ''sqrt'' \<and> x \<noteq> CHR ''{'' then ''sqrt{'' @ [x] @ ''}'' @ sub_sqrt post
      else q # sub_sqrt (r # s # t # x # post))"
| "sub_sqrt s = s"

definition isdigit_str :: "string \<Rightarrow> bool" where
  "isdigit_str s = (s \<noteq> [] \<and> list_all is_digit s)"

definition normalize_final_answer :: "string \<Rightarrow> string" where
  "normalize_final_answer s0 =
    (let s = last (split_str ''='' s0);
         s = fold (\<lambda>(before, after). py_replace before after) SUBSTITUTIONS s;
         s = remove_all REMOVED_EXPRESSIONS s;
         s = sub_dollars s;
         s = sub_boxed (sub_macro (tex ''overline{'') (sub_macro (tex ''textbf{'') (sub_macro (tex ''text{'') s)));
         s = py_replace ''$'' [] (sub_sqrt (sub_frac s));
         digits = py_replace '','' [] s
     in py_strip (if isdigit_str digits then digits else s))"

subsection \<open>Answer lines\<close>

text \<open>The rest of the pattern after the colon: blanks, then a non-empty text up to the end of the line; \<open>blank\<close> is \<open>\\s\<close> or \<open>[ \\t]\<close>.
  If nothing follows the blanks, the shortest sufficient end of them is given back.\<close>

definition answer_group :: "(char \<Rightarrow> bool) \<Rightarrow> string \<Rightarrow> (string \<times> string) option" where
  "answer_group blank r =
    (let blanks = takeWhile blank r; t = dropWhile blank r
     in if t \<noteq> [] \<and> not_newline (hd t) then Some (takeWhile not_newline t, dropWhile not_newline t)
        else map_option (\<lambda>k. (takeWhile not_newline (drop k r), dropWhile not_newline (drop k r)))
          (find (\<lambda>k. not_newline (blanks ! k)) (rev [0..<length blanks])))"

lemma length_dropWhile_drop: "length (dropWhile P (drop k r)) \<le> length r"
  using length_dropWhile_le [of P "drop k r"] by simp

lemma answer_group_shorter: "answer_group blank r = Some (g, rest) \<Longrightarrow> length rest \<le> length r"
  using length_dropWhile_drop order_trans [OF length_dropWhile_le length_dropWhile_le]
  by (auto simp: answer_group_def Let_def split: if_splits)

definition answer_at :: "(char \<Rightarrow> bool) \<Rightarrow> string \<Rightarrow> (string \<times> string) option" where
  "answer_at blank s =
    (if to_lower (take 6 s) = ''answer'' then
       (case dropWhile blank (drop 6 s) of
          [] \<Rightarrow> None
        | c # r \<Rightarrow> if c = CHR '':'' then answer_group blank r else None)
     else None)"

lemma answer_at_shorter: "answer_at blank s = Some (g, rest) \<Longrightarrow> s \<noteq> [] \<Longrightarrow> length rest < length s"
proof -
  assume a: "answer_at blank s = Some (g, rest)" "s \<noteq> []"
  then obtain c r where r: "dropWhile blank (drop 6 s) = c # r" "answer_group blank r = Some (g, rest)"
    by (auto simp: answer_at_def split: if_splits list.splits)
  have "length (c # r) \<le> length s" using r(1) by (metis diff_le_self length_drop length_dropWhile_le order_trans)
  then show ?thesis using answer_group_shorter [OF r(2)] by simp
qed

function findall_answer :: "(char \<Rightarrow> bool) \<Rightarrow> string \<Rightarrow> string list" where
  "findall_answer blank s = (case s of
     [] \<Rightarrow> []
   | c # cs \<Rightarrow> (case answer_at blank s of Some (g, rest) \<Rightarrow> g # findall_answer blank rest | None \<Rightarrow> findall_answer blank cs))"
  by pat_completeness auto

termination
  by (relation "measure (\<lambda>(blank, s). length s)") (auto dest: answer_at_shorter)

declare findall_answer.simps [simp del]

subsection \<open>Verification\<close>

definition slice_from :: "int \<Rightarrow> 'a list \<Rightarrow> 'a list" where
  "slice_from i xs = (if 0 \<le> i then drop (nat i) xs else drop (length xs - nat (- i)) xs)"

definition is_correct_minerva :: "string \<Rightarrow> string \<Rightarrow> bool \<Rightarrow> (bool \<times> string) result" where
  "is_correct_minerva solution gt gt_need_extract =
    (let matches = findall_answer isspace solution;
         pred = normalize_final_answer (if matches = [] then ''[INVALID]'' else last matches)
     in rbind (if gt_need_extract
          then (case dapo_last_boxed_only_string gt of None \<Rightarrow> Inl TypeError | Some b \<Rightarrow> dapo_remove_boxed b)
          else Inr gt) (\<lambda>g.
        Inr (pred = normalize_final_answer g, pred)))"

definition is_correct_strict_box :: "string \<Rightarrow> string \<Rightarrow> int list option \<Rightarrow> (int \<times> string option) result" where
  "is_correct_strict_box pred gt pause_tokens_index =
    rbind (case pause_tokens_index of
        Some idx \<Rightarrow> rbind (py_assert (length idx = 4)) (\<lambda>_. Inr (slice_from (last idx - 100) pred))
      | None \<Rightarrow> Inr (slice_from (- 100) pred)) (\<lambda>tail.
    rbind (case dapo_last_boxed_only_string tail of None \<Rightarrow> Inr None | Some b \<Rightarrow> rbind (dapo_remove_boxed b) (\<lambda>e. Inr (Some e))) (\<lambda>extracted.
    Inr (if extracted = Some gt then 1 else - 1, extracted)))"

definition dapo_verify :: "string \<Rightarrow> string \<Rightarrow> bool \<Rightarrow> int list option \<Rightarrow> (bool \<times> string option) result" where
  "dapo_verify solution answer strict_box pause =
    (if strict_box then rbind (is_correct_strict_box solution answer pause) (\<lambda>(c, p). Inr (c = 1, p))
     else rbind (is_correct_minerva solution answer False) (\<lambda>(c, p). Inr (c, Some p)))"

record dapo_result =
  dapo_score :: real
  dapo_acc :: bool
  dapo_pred :: "string option"

definition dapo_compute_score :: "string \<Rightarrow> string \<Rightarrow> bool \<Rightarrow> int list option \<Rightarrow> dapo_result result" where
  "dapo_compute_score solution gt strict_box pause =
    rbind (dapo_verify (slice_from (- 300) solution) gt strict_box pause) (\<lambda>(correct, pred).
    Inr \<lparr>dapo_score = (if correct then 1 else - 1), dapo_acc = correct, dapo_pred = pred\<rparr>)"

definition strip_stars :: "string \<Rightarrow> string" where
  "strip_stars s = rev (dropWhile (\<lambda>c. c = CHR ''*'') (rev (dropWhile (\<lambda>c. c = CHR ''*'') s)))"

definition space_or_tab :: "char \<Rightarrow> bool" where
  "space_or_tab c = (c = CHR '' '' \<or> c = CHR 0x09)"

definition compute_score_boxed :: "string \<Rightarrow> string \<Rightarrow> dapo_result result" where
  "compute_score_boxed solution ground_truth =
    (let tail = slice_from (- 500) solution; gt = normalize_final_answer ground_truth
     in rbind (case dapo_last_boxed_only_string tail of
            None \<Rightarrow> Inr None | Some b \<Rightarrow> rbind (dapo_remove_boxed b) (\<lambda>e. Inr (Some (normalize_final_answer e)))) (\<lambda>boxed.
        if boxed = Some gt then Inr \<lparr>dapo_score = 1, dapo_acc = True, dapo_pred = boxed\<rparr>
        else let matches = findall_answer space_or_tab tail;
                 pred = normalize_final_answer (py_strip (strip_stars (py_strip (last matches))))
          in if matches \<noteq> [] \<and> pred = gt then Inr \<lparr>dapo_score = 1, dapo_acc = True, dapo_pred = Some pred\<rparr>
             else Inr \<lparr>dapo_score = - 1, dapo_acc = False,
               dapo_pred = Some (case boxed of None \<Rightarrow> ''[INVALID]'' | Some p \<Rightarrow> if p = [] then ''[INVALID]'' else p)\<rparr>))"

subsection \<open>Boxed answers\<close>

lemma length_tex_boxed: "length (tex ''boxed{'') = 7" by (simp add: tex_def)

lemma close_brace_bounds: "close_brace n s = Some k \<Longrightarrow> 0 < k \<and> k \<le> length s \<and> s ! (k - 1) = CHR ''}''"
proof (induction n s arbitrary: k rule: close_brace.induct)
  case (2 n c cs)
  have tail: "0 < k \<and> k \<le> length (c # cs) \<and> (c # cs) ! (k - 1) = CHR ''}''"
    if "0 < k' \<and> k' \<le> length cs \<and> cs ! (k' - 1) = CHR ''}''" "k = Suc k'" for k'
    using that by (cases k') auto
  show ?case
    using "2.prems" "2.IH" tail by (fastforce simp: Let_def split: if_splits)
qed simp

text \<open>What is found in a box can always be taken out of it.\<close>

lemma dapo_box_removable:
  assumes "dapo_last_boxed_only_string s = Some b"
  shows "\<exists>e. dapo_remove_boxed b = Inr e"
proof -
  let ?p = "tex ''boxed{''"
  obtain idx where idx: "rfind ?p s = Some idx" "boxed_from idx s = Some b"
    using assms by (auto simp: dapo_last_boxed_only_string_def split: option.splits)
  let ?d = "drop idx s"
  obtain k where k: "close_brace 0 ?d = Some k" "b = take k ?d" using idx(2) by (auto simp: boxed_from_def)
  obtain t where d: "?d = ?p @ t" using rfind_Some(2) [OF idx(1)] by (auto simp: startswith_iff)
  have kb: "0 < k" "k \<le> length ?d" "?d ! (k - 1) = CHR ''}''" using close_brace_bounds [OF k(1)] by blast+
  have "CHR ''}'' \<notin> set ?p" by (simp add: tex_def)
  then have "7 \<le> k - 1" using kb unfolding d by (metis One_nat_def nth_append nth_mem not_le length_tex_boxed)
  then have b: "b = ?p @ take (k - 7) t" using k(2) d by (simp add: take_append length_tex_boxed)
  have "last b = CHR ''}''" using kb k(2) by (simp add: last_conv_nth)
  then show ?thesis using b by (simp add: dapo_remove_boxed_def) (simp add: tex_def)
qed

lemma compute_score_boxed_total:
  "\<exists>r. compute_score_boxed solution gt = Inr r \<and> dapo_score r = (if dapo_acc r then 1 else - 1)
    \<and> (dapo_acc r \<longrightarrow> dapo_pred r = Some (normalize_final_answer gt))"
proof -
  let ?tail = "slice_from (- 500) solution"
  obtain boxed where b: "(case dapo_last_boxed_only_string ?tail of
            None \<Rightarrow> Inr None | Some b \<Rightarrow> rbind (dapo_remove_boxed b) (\<lambda>e. Inr (Some (normalize_final_answer e)))) = Inr boxed"
    using dapo_box_removable [of ?tail] by (cases "dapo_last_boxed_only_string ?tail") fastforce+
  show ?thesis unfolding compute_score_boxed_def Let_def b by auto
qed

lemma last_box_of_tail:
  assumes "braces_balanced 0 ans" "\<not> contains (tex ''boxed{'') (ans @ ''}'' @ post)"
    and "length (tex ''boxed{'' @ ans @ ''}'' @ post) \<le> n"
  shows "dapo_last_boxed_only_string (slice_from (- int n) (pre @ tex ''boxed{'' @ ans @ ''}'' @ post)) = Some (tex ''boxed{'' @ ans @ ''}'')"
proof -
  let ?r = "tex ''boxed{'' @ ans @ ''}'' @ post"
  define pre' where "pre' = drop (length (pre @ ?r) - n) pre"
  have n: "0 < n" using assms(3) by (simp add: tex_def)
  have tail: "slice_from (- int n) (pre @ ?r) = pre' @ ?r"
    using assms(3) n by (simp add: slice_from_def pre'_def)
  have "rfind (CHR 0x5C # ''boxed{'') (pre' @ CHR 0x5C # ''boxed{'' @ (ans @ ''}'' @ post)) = Some (length pre')"
    by (rule rfind_last [OF assms(2) [unfolded tex_def]]) simp
  then have "rfind (tex ''boxed{'') (pre' @ ?r) = Some (length pre')" by (simp add: tex_def)
  moreover have "pre' @ ?r = pre' @ tex ''boxed'' @ ''{'' @ ans @ ''}'' @ post" by (simp add: tex_def)
  moreover have "boxed_from (length pre') (pre' @ tex ''boxed'' @ ''{'' @ ans @ ''}'' @ post) = Some (tex ''boxed'' @ ''{'' @ ans @ ''}'')"
    by (rule boxed_from_balanced) (simp_all add: assms(1) tex_def)
  ultimately show ?thesis unfolding tail dapo_last_boxed_only_string_def by (simp add: tex_def)
qed

text \<open>C37: Scoring a boxed answer never raises and is sound and complete for the box: the score is 1 or -1, a score of 1 comes with a
  prediction that is the normalised ground truth, and a solution whose last box, within the last 500
  characters, has balanced braces and the same normal form as the ground truth gets the score 1.\<close>

theorem boxed_scoring_correct:
  shows "\<exists>r. compute_score_boxed solution gt = Inr r \<and> dapo_score r = (if dapo_acc r then 1 else - 1)
      \<and> (dapo_acc r \<longrightarrow> dapo_pred r = Some (normalize_final_answer gt))
      \<and> (\<forall>pre ans post. solution = pre @ tex ''boxed{'' @ ans @ ''}'' @ post \<longrightarrow> braces_balanced 0 ans
          \<longrightarrow> \<not> contains (tex ''boxed{'') (ans @ ''}'' @ post) \<longrightarrow> length (tex ''boxed{'' @ ans @ ''}'' @ post) \<le> 500
          \<longrightarrow> normalize_final_answer ans = normalize_final_answer gt \<longrightarrow> dapo_score r = 1)"
proof -
  obtain r where r: "compute_score_boxed solution gt = Inr r" "dapo_score r = (if dapo_acc r then 1 else - 1)"
    "dapo_acc r \<longrightarrow> dapo_pred r = Some (normalize_final_answer gt)"
    using compute_score_boxed_total by blast
  have "dapo_score r = 1" if s: "solution = pre @ tex ''boxed{'' @ ans @ ''}'' @ post" "braces_balanced 0 ans"
    "\<not> contains (tex ''boxed{'') (ans @ ''}'' @ post)" "length (tex ''boxed{'' @ ans @ ''}'' @ post) \<le> 500"
    "normalize_final_answer ans = normalize_final_answer gt" for pre ans post
  proof -
    have "dapo_last_boxed_only_string (slice_from (- 500) solution) = Some (tex ''boxed{'' @ ans @ ''}'')"
      using last_box_of_tail [OF s(2,3,4), of pre] unfolding s(1) by simp
    moreover have "dapo_remove_boxed (tex ''boxed{'' @ ans @ ''}'') = Inr ans"
      by (simp add: dapo_remove_boxed_def tex_def startswith_def butlast_append)
    ultimately have "compute_score_boxed solution gt
        = Inr \<lparr>dapo_score = 1, dapo_acc = True, dapo_pred = Some (normalize_final_answer gt)\<rparr>"
      using s(5) by (simp add: compute_score_boxed_def Let_def)
    then show ?thesis using r(1) by simp
  qed
  then show ?thesis using r by blast
qed

theorem boxed_scoring_correct_witness:
  "\<exists>r. compute_score_boxed (''So x is '' @ tex ''boxed{'' @ ''1,234'' @ ''}'' @ '' dollars.'') ''1234'' = Inr r \<and> dapo_score r = 1"
proof -
  have "braces_balanced 0 ''1,234''" "\<not> contains (tex ''boxed{'') (''1,234'' @ ''}'' @ '' dollars.'')"
    "length (tex ''boxed{'' @ ''1,234'' @ ''}'' @ '' dollars.'') \<le> 500"
    "normalize_final_answer ''1,234'' = normalize_final_answer ''1234''"
    by code_simp+
  then show ?thesis
    using boxed_scoring_correct [of "''So x is '' @ tex ''boxed{'' @ ''1,234'' @ ''}'' @ '' dollars.''" "''1234''"] by blast
qed

end
