(* ===== verification/TextScores.thy ===== *)
theory TextScores
  imports DapoReward PyValue
begin

section \<open>Scores of text answers and the choice of a scorer\<close>

text \<open>
  \<open>verl/utils/reward_score/gsm8k.py\<close>, \<open>search_r1_like_qa_em.py\<close> and the dispatch on the data source in \<open>__init__.py\<close>. Regular
  expressions are functions on ASCII strings, as in \<open>DapoReward\<close>. Scorers that rest on external packages or services
  (math-verify, PRIME, the sandbox, mathruler) are parameters of the dispatch.
\<close>

subsection \<open>GSM8K\<close>

definition SOLUTION_CLIP_CHARS :: nat where
  "SOLUTION_CLIP_CHARS = 300"

definition number_char :: "char \<Rightarrow> bool" where
  "number_char c = (is_digit c \<or> c = CHR ''.'' \<or> c = CHR '','')"

text \<open>\<open>-?[0-9.,]+\<close> at the beginning of a string.\<close>

definition number_at :: "string \<Rightarrow> (string \<times> string) option" where
  "number_at s =
    (let minus = (s \<noteq> [] \<and> hd s = CHR ''-''); t = (if minus then tl s else s); run = takeWhile number_char t
     in if run = [] then None else Some ((if minus then [CHR ''-''] else []) @ run, dropWhile number_char t))"

lemma number_at_shorter: "number_at s = Some (g, rest) \<Longrightarrow> length rest < length s"
proof -
  assume a: "number_at s = Some (g, rest)"
  define t where "t = (if s \<noteq> [] \<and> hd s = CHR ''-'' then tl s else s)"
  have "0 < length (takeWhile number_char t)" "length rest = length (dropWhile number_char t)"
    using a by (auto simp: number_at_def t_def Let_def split: if_splits)
  moreover have "length (takeWhile number_char t) + length (dropWhile number_char t) = length t"
    by (simp flip: length_append)
  moreover have "length t \<le> length s" by (simp add: t_def)
  ultimately show ?thesis by linarith
qed

text \<open>All matches of a number after a prefix.\<close>

function findall_numbers :: "string \<Rightarrow> string \<Rightarrow> string list" where
  "findall_numbers p s = (case s of
     [] \<Rightarrow> []
   | c # cs \<Rightarrow> (case (if startswith s p then number_at (drop (length p) s) else None) of
        Some (g, rest) \<Rightarrow> g # findall_numbers p rest
      | None \<Rightarrow> findall_numbers p cs))"
  by pat_completeness auto

termination
  by (relation "measure (\<lambda>(p, s). length s)")
    (auto split: if_splits dest!: number_at_shorter)

declare findall_numbers.simps [simp del]

definition extract_solution :: "string \<Rightarrow> string \<Rightarrow> string option result" where
  "extract_solution solution meth =
    rbind (py_assert (meth = ''strict'' \<or> meth = ''flexible'')) (\<lambda>_.
    let s = slice_from (- int SOLUTION_CLIP_CHARS) solution
    in Inr (if meth = ''strict'' then
        (let solutions = findall_numbers ''#### '' s
         in if solutions = [] then None else Some (py_replace ''$'' [] (py_replace '','' [] (last solutions))))
      else (let answer = findall_numbers [] s
         in if answer = [] then None
            else (case find (\<lambda>a. a \<noteq> [] \<and> a \<noteq> ''.'') (rev answer) of Some a \<Rightarrow> Some a | None \<Rightarrow> Some (hd answer)))))"

definition gsm8k_score :: "string \<Rightarrow> pyv \<Rightarrow> string \<Rightarrow> real \<Rightarrow> real \<Rightarrow> real result" where
  "gsm8k_score solution ground_truth meth format_score score =
    rbind (extract_solution solution meth) (\<lambda>answer.
    Inr (case answer of None \<Rightarrow> 0 | Some a \<Rightarrow> if PStr a = ground_truth then score else format_score))"

subsection \<open>Exact match of short answers\<close>

definition is_word :: "char \<Rightarrow> bool" where
  "is_word c = (let n = (of_char c :: nat) in is_digit c \<or> 65 \<le> n \<and> n \<le> 90 \<or> 97 \<le> n \<and> n \<le> 122 \<or> n = 95)"

text \<open>\<open>string.punctuation\<close>: the printable ASCII characters that are neither letters nor digits nor blanks.\<close>

definition is_punctuation :: "char \<Rightarrow> bool" where
  "is_punctuation c = (let n = (of_char c :: nat) in 33 \<le> n \<and> n \<le> 126 \<and> (n = 95 \<or> \<not> is_word c))"

text \<open>A word boundary on both sides: the article is a whole run of word characters.\<close>

function remove_articles :: "string \<Rightarrow> string" where
  "remove_articles s = (case s of
     [] \<Rightarrow> []
   | c # cs \<Rightarrow>
      (if is_word c then
         (let w = takeWhile is_word s in (if w \<in> {''a'', ''an'', ''the''} then '' '' else w) @ remove_articles (dropWhile is_word cs))
       else c # remove_articles cs))"
  by pat_completeness auto

termination
  by (relation "measure length") (auto simp: le_imp_less_Suc length_dropWhile_le)

declare remove_articles.simps [simp del]

lemma dropWhile_Cons_shorter: "dropWhile P s = c # cs \<Longrightarrow> length (dropWhile Q cs) < length s"
  by (metis Suc_le_eq length_Cons length_dropWhile_le order_trans Suc_le_mono)

function py_words :: "string \<Rightarrow> string list" where
  "py_words s = (case dropWhile isspace s of
     [] \<Rightarrow> []
   | c # cs \<Rightarrow> takeWhile (\<lambda>c. \<not> isspace c) (c # cs) # py_words (dropWhile (\<lambda>c. \<not> isspace c) cs))"
  by pat_completeness auto

termination
  by (relation "measure length") (simp_all add: dropWhile_Cons_shorter)

declare py_words.simps [simp del]

definition normalize_answer :: "string \<Rightarrow> string" where
  "normalize_answer s = join_str '' '' (py_words (remove_articles (filter (\<lambda>c. \<not> is_punctuation c) (to_lower s))))"

definition em_check :: "string \<Rightarrow> string list \<Rightarrow> nat" where
  "em_check prediction golden_answers =
    (if list_ex (\<lambda>g. normalize_answer g = normalize_answer prediction) golden_answers then 1 else 0)"

definition subem_check :: "string \<Rightarrow> string list \<Rightarrow> nat" where
  "subem_check prediction golden_answers =
    (if list_ex (\<lambda>g. contains (normalize_answer g) (normalize_answer prediction)) golden_answers then 1 else 0)"

text \<open>The text before and after the first occurrence of a separator.\<close>

fun cut :: "string \<Rightarrow> string \<Rightarrow> (string \<times> string) option" where
  "cut p s = (if startswith s p then Some ([], drop (length p) s)
     else case s of [] \<Rightarrow> None | c # cs \<Rightarrow> map_option (\<lambda>(a, b). (c # a, b)) (cut p cs))"

declare cut.simps [simp del]

lemma cut_Some: "cut p s = Some (a, b) \<Longrightarrow> s = a @ p @ b"
proof (induction p s arbitrary: a rule: cut.induct)
  case (1 p s)
  show ?case
  proof (cases "startswith s p")
    case True
    then show ?thesis using "1.prems" by (subst (asm) cut.simps) (auto simp: startswith_iff)
  next
    case False
    then obtain c cs a' where "s = c # cs" "cut p cs = Some (a', b)" "a = c # a'"
      using "1.prems" by (subst (asm) cut.simps) (auto split: list.splits)
    then show ?thesis using "1.IH" [OF False] by simp
  qed
qed

text \<open>\<open><answer>(.*?)</answer>\<close> where the dot matches newlines.\<close>

function answer_tags :: "string \<Rightarrow> string list" where
  "answer_tags s = (case cut ''<answer>'' s of
     None \<Rightarrow> []
   | Some (_, r) \<Rightarrow> (case cut ''</answer>'' r of None \<Rightarrow> [] | Some (g, rest) \<Rightarrow> g # answer_tags rest))"
  by pat_completeness auto

termination
  by (relation "measure length") (auto dest!: cut_Some)

declare answer_tags.simps [simp del]

definition extract_answer :: "string \<Rightarrow> string option" where
  "extract_answer s = (let ms = answer_tags s in if ms = [] then None else Some (py_strip (last ms)))"

definition count_str :: "string \<Rightarrow> string \<Rightarrow> nat" where
  "count_str p s = length (split_str p s) - 1"

definition qa_em_score :: "string \<Rightarrow> string list \<Rightarrow> real \<Rightarrow> real \<Rightarrow> real" where
  "qa_em_score solution target format_score score = (case extract_answer solution of
     None \<Rightarrow> 0
   | Some answer \<Rightarrow>
      if em_check answer target \<noteq> 0 then
        (if count_str ''<answer>'' solution > 10 \<or> count_str ''</answer>'' solution > 10 then score / 4 else score)
      else format_score)"

definition qa_subem_score :: "string \<Rightarrow> string list \<Rightarrow> real \<Rightarrow> real \<Rightarrow> real" where
  "qa_subem_score solution target format_score score = (case extract_answer solution of
     None \<Rightarrow> 0 | Some answer \<Rightarrow> if subem_check answer target \<noteq> 0 then score else format_score)"

subsection \<open>The default score\<close>

datatype score_value = ScoreDict "(string, pyv) dict" | ScoreNum real | ScoreSeq "real list"

record external_scorers =
  math_verify_score :: "string \<Rightarrow> pyv \<Rightarrow> score_value result"
  prime_math_score :: "string \<Rightarrow> pyv \<Rightarrow> score_value result"
  prime_code_score :: "string \<Rightarrow> pyv \<Rightarrow> score_value result"
  sandbox_score :: "string \<Rightarrow> string \<Rightarrow> pyv \<Rightarrow> score_value result"
  geo3k_score :: "string \<Rightarrow> pyv \<Rightarrow> score_value result"

definition dapo_dict :: "dapo_result \<Rightarrow> score_value" where
  "dapo_dict r = ScoreDict [(''score'', PFloat (dapo_score r)), (''acc'', PBool (dapo_acc r)),
     (''pred'', case dapo_pred r of None \<Rightarrow> PNone | Some p \<Rightarrow> PStr p)]"

definition as_str :: "pyv \<Rightarrow> string result" where
  "as_str v = (case v of PStr s \<Rightarrow> Inr s | _ \<Rightarrow> Inl AttributeError)"

definition target_of :: "pyv \<Rightarrow> string list result" where
  "target_of gt = rbind (case gt of PDict d \<Rightarrow> dget d ''target'' | _ \<Rightarrow> Inl TypeError) (\<lambda>t. case t of
     PStr s \<Rightarrow> Inr [s] | PList vs \<Rightarrow> rmap as_str vs | _ \<Rightarrow> Inl TypeError)"

definition default_compute_score ::
  "external_scorers \<Rightarrow> string \<Rightarrow> string \<Rightarrow> pyv \<Rightarrow> string option \<Rightarrow> string \<Rightarrow> score_value result" where
  "default_compute_score ext source solution gt sandbox_url answer_format =
    rbind (if source = ''openai/gsm8k'' then rbind (gsm8k_score solution gt ''strict'' 0 1) (\<lambda>x. Inr (ScoreNum x))
     else if source \<in> {''lighteval/MATH'', ''DigitalLearningGmbH/MATH-lighteval'', ''HuggingFaceH4/MATH-500'', ''math_500'',
         ''minerva-math'', ''olympiadbench''} then math_verify_score ext solution gt
     else if source \<in> {''math_dapo'', ''math'', ''math_dapo_reasoning''} \<or> startswith source ''aime'' \<or> startswith source ''amc'' then
       rbind (as_str gt) (\<lambda>g. rbind (if answer_format = ''boxed'' then compute_score_boxed solution g
           else dapo_compute_score solution g False None) (\<lambda>r. Inr (dapo_dict r)))
     else if source \<in> {''numina_aops_forum'', ''numina_synthetic_math'', ''numina_amc_aime'', ''numina_synthetic_amc'',
         ''numina_cn_k12'', ''numina_olympiads''} then prime_math_score ext solution gt
     else if source \<in> {''codecontests'', ''apps'', ''codeforces'', ''taco''} then
       (case sandbox_url of Some url \<Rightarrow> if url \<noteq> [] then sandbox_score ext url solution gt else prime_code_score ext solution gt
        | None \<Rightarrow> prime_code_score ext solution gt)
     else if source = ''hiyouga/geometry3k'' then geo3k_score ext solution gt
     else if source \<in> {''searchR1_nq'', ''searchR1_triviaqa'', ''searchR1_popqa'', ''searchR1_hotpotqa'', ''searchR1_2wikimultihopqa'',
         ''searchR1_musique'', ''searchR1_bamboogle''} then
       (if extract_answer solution = None then Inr (ScoreNum 0)
        else rbind (target_of gt) (\<lambda>t. Inr (ScoreNum (qa_em_score solution t 0 1))))
     else Inl NotImplementedError) (\<lambda>res.
    case res of ScoreSeq xs \<Rightarrow> rbind (py_nth xs 0) (\<lambda>x. Inr (ScoreNum x)) | _ \<Rightarrow> Inr res)"

subsection \<open>Lemmas\<close>

lemma em_check_same: "g \<in> set golden \<Longrightarrow> em_check g golden = 1"
  by (auto simp: em_check_def list_ex_iff)

lemma em_check_le_subem: "em_check p golden \<le> subem_check p golden"
proof -
  have "contains s s" for s by (auto simp: contains_iff intro: exI [of _ "[]"])
  then show ?thesis by (auto simp: em_check_def subem_check_def list_ex_iff) metis
qed

text \<open>If every match is a lone dot, the flexible method returns a dot, which \<open>gsm8k_score\<close> rewards like a well-formed answer.\<close>

lemma flexible_lone_dot: "extract_solution ''so x.'' ''flexible'' = Inr (Some ''.'')"
  by code_simp

end
