(* ===== verification/RewardManager.thy ===== *)
theory RewardManager
  imports TextScores Trainer ProtocolLaws
begin

section \<open>Reward managers\<close>

text \<open>
  \<open>verl/workers/reward_manager\<close> (naive, dapo, batch, prime) and the naive and dapo managers of \<open>verl/experimental/reward_loop\<close>: they decode
  the responses of a batch, ask a scoring function, and write each reward at the last token of its response. The
  tokenizer and the scoring function are parameters. Printing is left out, and so is the fact that the keys added to
  \<open>extra_info\<close> stay in the dictionaries of the batch. \<open>default_compute_score\<close> never returns a sequence, so a manager that gets one raises.
\<close>

record reward_env =
  decode :: "vec \<Rightarrow> string"
  eos_token :: string
  scorer :: "string \<Rightarrow> string \<Rightarrow> pyv \<Rightarrow> (string, pyv) dict \<Rightarrow> score_value result"
  reward_fn_key :: string

type_synonym rl_item = "(vec, pyv) data_proto_item"

subsection \<open>Reading an item\<close>

definition item_tensor :: "rl_item \<Rightarrow> string \<Rightarrow> vec result" where
  "item_tensor it k = (case item_batch it of None \<Rightarrow> Inl TypeError | Some b \<Rightarrow> dget b k)"

definition item_get :: "rl_item \<Rightarrow> string \<Rightarrow> pyv \<Rightarrow> pyv" where
  "item_get it k v0 = (case map_of (item_non_tensor_batch it) k of None \<Rightarrow> v0 | Some v \<Rightarrow> v)"

definition as_dict :: "pyv \<Rightarrow> (string, pyv) dict result" where
  "as_dict v = (case v of PDict d \<Rightarrow> Inr d | _ \<Rightarrow> Inl TypeError)"

definition ground_truth_of :: "rl_item \<Rightarrow> pyv result" where
  "ground_truth_of it = rbind (dget (item_non_tensor_batch it) ''reward_model'') (\<lambda>rm. rbind (as_dict rm) (\<lambda>d. dget d ''ground_truth''))"

definition source_of :: "string \<Rightarrow> rl_item \<Rightarrow> string result" where
  "source_of key it = rbind (dget (item_non_tensor_batch it) key) (\<lambda>v. case v of PStr s \<Rightarrow> Inr s | _ \<Rightarrow> Inl TypeError)"

text \<open>\<open>response_ids[:n]\<close> for the number of attended tokens.\<close>

definition valid_response :: "vec \<Rightarrow> real \<Rightarrow> vec" where
  "valid_response ids n = take (nat \<lfloor>n\<rfloor>) ids"

text \<open>\<open>reward_tensor[i, valid_response_length - 1] = reward\<close>: for an empty response the index is -1, the last position.\<close>

definition place_reward :: "nat \<Rightarrow> real \<Rightarrow> real \<Rightarrow> vec result" where
  "place_reward width n reward = rbind (py_index width (\<lfloor>n\<rfloor> - 1)) (\<lambda>k. Inr ((replicate width 0)[k := reward]))"

text \<open>The reward in the value of a scoring function, and the extra information.\<close>

definition unpack_score :: "bool \<Rightarrow> score_value \<Rightarrow> (real \<times> (string, pyv) dict) result" where
  "unpack_score acc v = (case v of
     ScoreDict d \<Rightarrow> rbind (dget d ''score'') (\<lambda>s. case num_of s of None \<Rightarrow> Inl TypeError | Some x \<Rightarrow> Inr (x, d))
   | ScoreNum x \<Rightarrow> Inr (x, if acc then [(''acc'', PFloat x)] else [])
   | ScoreSeq _ \<Rightarrow> Inl TypeError)"

subsection \<open>The naive manager\<close>

definition naive_item :: "reward_env \<Rightarrow> rl_item \<Rightarrow> (vec \<times> (string, pyv) dict) result" where
  "naive_item env it =
    rbind (item_tensor it ''prompts'') (\<lambda>prompt_ids.
    rbind (item_tensor it ''attention_mask'') (\<lambda>attention.
    rbind (item_tensor it ''responses'') (\<lambda>response_ids.
    let n = sum_list (drop (length prompt_ids) attention)
    in rbind (ground_truth_of it) (\<lambda>gt.
       rbind (source_of (reward_fn_key env) it) (\<lambda>source.
       rbind (as_dict (item_get it ''extra_info'' (PDict []))) (\<lambda>extra.
       rbind (scorer env source (decode env (valid_response response_ids n)) gt
          (AList.update ''rollout_reward_scores'' (item_get it ''reward_scores'' (PDict []))
             (AList.update ''num_turns'' (item_get it ''__num_turns__'' PNone) extra))) (\<lambda>score.
       rbind (unpack_score False score) (\<lambda>(reward, info).
       rbind (place_reward (length response_ids) n reward) (\<lambda>row.
       Inr (row, info))))))))))"

subsection \<open>The DAPO manager\<close>

record overlong_cfg =
  ov_enable :: bool
  ov_len :: int
  penalty_factor :: real
  ov_log :: bool

text \<open>The checks of the constructor; the configuration and the maximal length may be \<open>None\<close>.\<close>

definition check_dapo_cfg :: "overlong_cfg option \<Rightarrow> int option \<Rightarrow> unit result" where
  "check_dapo_cfg cfg max_resp_len = (case cfg of
     None \<Rightarrow> Inr ()
   | Some c \<Rightarrow> (case max_resp_len of
        None \<Rightarrow> Inl AssertionError
      | Some m \<Rightarrow> rbind (py_assert (ov_len c \<le> m)) (\<lambda>_. py_assert (\<not> ov_enable c \<or> 0 < ov_len c))))"

definition overlong_reward :: "overlong_cfg \<Rightarrow> int \<Rightarrow> real \<Rightarrow> real" where
  "overlong_reward c max_resp_len n =
    (let exceed_len = n - of_int (max_resp_len - ov_len c)
     in min (- exceed_len / of_int (ov_len c) * penalty_factor c) 0)"

definition add_overlong ::
  "overlong_cfg \<Rightarrow> int \<Rightarrow> real \<Rightarrow> real \<times> (string, pyv) dict \<Rightarrow> real \<times> (string, pyv) dict" where
  "add_overlong c max_resp_len n = (\<lambda>(reward, info).
    if ov_enable c then
      (let o_r = overlong_reward c max_resp_len n
       in (reward + o_r, if ov_log c then AList.update ''overlong'' (PBool (o_r < 0)) (AList.update ''overlong_reward'' (PFloat o_r) info) else info))
    else (reward, info))"

text \<open>\<open>response_str[:-len(eos_token)]\<close>; for an empty end token the slice \<open>[:-0]\<close> is empty.\<close>

definition strip_eos :: "string \<Rightarrow> string \<Rightarrow> string" where
  "strip_eos eos s = (if endswith s eos then (if eos = [] then [] else take (length s - length eos) s) else s)"

definition dapo_item :: "reward_env \<Rightarrow> overlong_cfg option \<Rightarrow> int option \<Rightarrow> rl_item \<Rightarrow> (vec \<times> (string, pyv) dict) result" where
  "dapo_item env cfg max_resp_len it =
    rbind (item_tensor it ''prompts'') (\<lambda>prompt_ids.
    rbind (item_tensor it ''attention_mask'') (\<lambda>attention.
    rbind (item_tensor it ''responses'') (\<lambda>response_ids.
    let n = sum_list (drop (length prompt_ids) attention);
        decoded = decode env (valid_response response_ids n);
        response = strip_eos (eos_token env) decoded
    in rbind (ground_truth_of it) (\<lambda>gt.
       rbind (source_of (reward_fn_key env) it) (\<lambda>source.
       rbind (as_dict (item_get it ''extra_info'' (PDict []))) (\<lambda>extra.
       rbind (scorer env source response gt
          (AList.update ''rollout_reward_scores'' (item_get it ''reward_scores'' (PDict [])) extra)) (\<lambda>score.
       rbind (unpack_score True score) (\<lambda>ri.
       rbind (case cfg of None \<Rightarrow> Inl AttributeError | Some c \<Rightarrow> Inr (add_overlong c (the max_resp_len) n ri)) (\<lambda>(reward, info).
       rbind (place_reward (length response_ids) n reward) (\<lambda>row.
       Inr (row, info)))))))))))"

subsection \<open>The call of a manager\<close>

definition append_info :: "(string, pyv) dict \<Rightarrow> (string, pyv list) dict \<Rightarrow> (string, pyv list) dict" where
  "append_info info d = fold (\<lambda>(k, v). modify [] k (\<lambda>vs. vs @ [v])) info d"

definition extract_rm_scores :: "rl_batch \<Rightarrow> bool \<Rightarrow> (mat \<times> (string, pyv list) dict) result option" where
  "extract_rm_scores data return_dict =
    (if \<not> has_tensor data ''rm_scores'' then None
     else Some (rbind (tensor data ''rm_scores'') (\<lambda>scores.
       if return_dict then
         rbind (case map_of (meta_info data) ''reward_extra_keys'' of None \<Rightarrow> Inr [] | Some (PList ks) \<Rightarrow> rmap as_str ks | _ \<Rightarrow> Inl TypeError) (\<lambda>ks.
         rbind (rmap (\<lambda>k. rbind (dget (non_tensor_batch data) k) (\<lambda>v. Inr (k, v))) ks) (\<lambda>info.
         Inr (scores, info)))
       else Inr (scores, []))))"

definition call_manager ::
  "(rl_item \<Rightarrow> (vec \<times> (string, pyv) dict) result) \<Rightarrow> rl_batch \<Rightarrow> bool \<Rightarrow> (mat \<times> (string, pyv list) dict) result" where
  "call_manager score_item data return_dict = (case extract_rm_scores data return_dict of
     Some r \<Rightarrow> r
   | None \<Rightarrow>
      rbind (tensor data ''responses'') (\<lambda>_.
      rbind (rmap (\<lambda>i. rbind (getitem_int data (int i)) score_item) [0..<proto_len data]) (\<lambda>rows.
      Inr (map fst rows, if return_dict then fold (\<lambda>(row, info). append_info info) rows [] else []))))"

definition call_naive :: "reward_env \<Rightarrow> rl_batch \<Rightarrow> bool \<Rightarrow> (mat \<times> (string, pyv list) dict) result" where
  "call_naive env = call_manager (naive_item env)"

definition call_dapo :: "reward_env \<Rightarrow> overlong_cfg option \<Rightarrow> int option \<Rightarrow> rl_batch \<Rightarrow> bool \<Rightarrow> (mat \<times> (string, pyv list) dict) result" where
  "call_dapo env cfg max_resp_len = call_manager (dapo_item env cfg max_resp_len)"

subsection \<open>Managers of the reward loop\<close>

text \<open>The inputs of the scoring function for a batch of one row.\<close>

definition single_item :: "rl_batch \<Rightarrow> rl_item result" where
  "single_item data = rbind (py_assert (proto_len data = 1)) (\<lambda>_. getitem_int data 0)"

definition loop_response :: "reward_env \<Rightarrow> rl_item \<Rightarrow> (real \<times> string) result" where
  "loop_response env it =
    rbind (item_tensor it ''responses'') (\<lambda>response_ids.
    rbind (item_tensor it ''attention_mask'') (\<lambda>attention.
    let n = sum_list (last_n (length response_ids) attention)
    in Inr (n, decode env (valid_response response_ids n))))"

definition loop_naive_run_single :: "reward_env \<Rightarrow> rl_batch \<Rightarrow> (real \<times> (string, pyv) dict) result" where
  "loop_naive_run_single env data =
    rbind (single_item data) (\<lambda>it.
    rbind (loop_response env it) (\<lambda>(n, response).
    rbind (source_of ''data_source'' it) (\<lambda>source.
    rbind (ground_truth_of it) (\<lambda>gt.
    rbind (as_dict (item_get it ''extra_info'' (PDict []))) (\<lambda>extra.
    rbind (case item_get it ''tool_extra_fields'' PNone of PNone \<Rightarrow> Inr extra | v \<Rightarrow> rbind (as_dict v) (\<lambda>e. Inr (dict_update extra e))) (\<lambda>extra.
    rbind (scorer env source response gt
       (AList.update ''rollout_reward_scores'' (item_get it ''reward_scores'' (PDict []))
          (AList.update ''num_turns'' (item_get it ''__num_turns__'' PNone) extra))) (unpack_score True)))))))"

definition loop_dapo_run_single :: "reward_env \<Rightarrow> overlong_cfg option \<Rightarrow> int option \<Rightarrow> rl_batch \<Rightarrow> (real \<times> (string, pyv) dict) result" where
  "loop_dapo_run_single env cfg max_resp_len data =
    rbind (single_item data) (\<lambda>it.
    rbind (loop_response env it) (\<lambda>(n, response).
    rbind (source_of ''data_source'' it) (\<lambda>source.
    rbind (ground_truth_of it) (\<lambda>gt.
    rbind (as_dict (item_get it ''extra_info'' (PDict []))) (\<lambda>extra.
    rbind (scorer env source response gt extra) (\<lambda>score.
    rbind (unpack_score True score) (\<lambda>ri.
    Inr (case cfg of None \<Rightarrow> ri | Some c \<Rightarrow> add_overlong c (the max_resp_len) n ri))))))))"

subsection \<open>The batch manager\<close>

definition batch_verify ::
  "reward_env \<Rightarrow> (string list \<Rightarrow> string list \<Rightarrow> pyv list \<Rightarrow> (string, pyv) dict list \<Rightarrow> score_value list result) \<Rightarrow> rl_batch \<Rightarrow> score_value list result" where
  "batch_verify env score_batch data =
    rbind (rmap (\<lambda>i. getitem_int data (int i)) [0..<proto_len data]) (\<lambda>items.
    rbind (rmap (\<lambda>it. rbind (item_tensor it ''prompts'') (\<lambda>p. rbind (item_tensor it ''responses'') (\<lambda>r. rbind (item_tensor it ''attention_mask'') (\<lambda>a.
        Inr (decode env (valid_response r (sum_list (drop (length p) a)))))))) items) (\<lambda>responses.
    rbind (rmap (\<lambda>it. rbind (dget (item_non_tensor_batch it) ''reward_model'') (\<lambda>rm. rbind (as_dict rm) (\<lambda>d.
        Inr (case map_of d ''ground_truth'' of None \<Rightarrow> PNone | Some g \<Rightarrow> g)))) items) (\<lambda>gts.
    rbind (rmap (source_of (reward_fn_key env)) items) (\<lambda>sources.
    rbind (rmap (\<lambda>it. rbind (as_dict (item_get it ''extra_info'' (PDict []))) (\<lambda>e.
        Inr (AList.update ''rollout_reward_scores'' (item_get it ''reward_scores'' (PDict [])) e))) items) (\<lambda>extras.
    score_batch sources responses gts extras)))))"

definition call_batch_manager ::
  "reward_env \<Rightarrow> (string list \<Rightarrow> string list \<Rightarrow> pyv list \<Rightarrow> (string, pyv) dict list \<Rightarrow> score_value list result) \<Rightarrow> rl_batch \<Rightarrow> bool
   \<Rightarrow> ((mat \<times> (string, pyv list) dict) \<times> rl_batch) result" where
  "call_batch_manager env score_batch data return_dict = (case extract_rm_scores data return_dict of
     Some r \<Rightarrow> rbind r (\<lambda>x. Inr (x, data))
   | None \<Rightarrow>
      rbind (tensor data ''responses'') (\<lambda>responses.
      rbind (tensor data ''prompts'') (\<lambda>prompts.
      rbind (tensor data ''attention_mask'') (\<lambda>attention.
      rbind (batch_verify env score_batch data) (\<lambda>scores.
      rbind (rmap (\<lambda>i. rbind (py_nth scores i) (\<lambda>s. rbind (unpack_score False s) (\<lambda>(reward, info).
          rbind (place_reward (length (responses ! i)) (sum_list (drop (mwidth prompts) (attention ! i))) reward) (\<lambda>row.
          Inr (reward, row, info))))) [0..<proto_len data]) (\<lambda>rows.
      rbind (set_tensor ''acc'' (map (\<lambda>(reward, _). [reward]) rows) data) (\<lambda>data'.
      Inr ((map (\<lambda>(_, row, _). row) rows, if return_dict then fold (\<lambda>(_, _, info). append_info info) rows [] else []), data'))))))))"

subsection \<open>The PRIME manager\<close>

text \<open>A task of the process pool returns a value, or fails or times out, which \<open>single_compute_score\<close> turns into \<open>None\<close>.\<close>

definition prime_value :: "score_value option \<Rightarrow> real result" where
  "prime_value r = (case r of
     None \<Rightarrow> Inr 0
   | Some (ScoreNum x) \<Rightarrow> Inr x
   | Some (ScoreSeq xs) \<Rightarrow> py_nth xs 0
   | Some (ScoreDict d) \<Rightarrow> Inl KeyError)"

text \<open>Any exception while the results are processed sets all scores to zero.\<close>

definition prime_scores :: "score_value option list \<Rightarrow> vec" where
  "prime_scores results = (case rmap prime_value results of Inl e \<Rightarrow> replicate (length results) 0 | Inr xs \<Rightarrow> xs)"

definition call_prime_manager :: "score_value option list \<Rightarrow> rl_batch \<Rightarrow> (mat \<times> rl_batch) result" where
  "call_prime_manager results data = (case extract_rm_scores data False of
     Some r \<Rightarrow> rbind r (\<lambda>(scores, _). Inr (scores, data))
   | None \<Rightarrow>
      rbind (tensor data ''responses'') (\<lambda>responses.
      rbind (tensor data ''prompts'') (\<lambda>prompts.
      rbind (tensor data ''attention_mask'') (\<lambda>attention.
      rbind (dget (non_tensor_batch data) ''data_source'') (\<lambda>sources.
      let scores = prime_scores results
      in rbind (set_tensor ''acc'' (map (\<lambda>x. [x]) scores) data) (\<lambda>data'.
         rbind (rmap (\<lambda>i. rbind (py_nth scores i) (\<lambda>s.
           place_reward (length (responses ! i)) (sum_list (drop (mwidth prompts) (attention ! i))) s)) [0..<proto_len data]) (\<lambda>rows.
         Inr (rows, data'))))))))"

subsection \<open>The overlong penalty\<close>

text \<open>C38: The soft overlong punishment of DAPO: with a positive buffer and a non-negative factor the penalty is zero up to the
  expected length, falls linearly inside the buffer, reaches minus the factor at the maximal length,
  and never increases with the length.\<close>

theorem overlong_penalty_shape:
  assumes "0 < ov_len c" "0 \<le> penalty_factor c"
  shows "(n \<le> of_int (m - ov_len c) \<longrightarrow> overlong_reward c m n = 0)
    \<and> (of_int (m - ov_len c) \<le> n \<longrightarrow> overlong_reward c m n = - (n - of_int (m - ov_len c)) / of_int (ov_len c) * penalty_factor c)
    \<and> overlong_reward c m (of_int m) = - penalty_factor c
    \<and> (n \<le> of_int m \<longrightarrow> - penalty_factor c \<le> overlong_reward c m n)
    \<and> overlong_reward c m n \<le> 0 \<and> (n \<le> n' \<longrightarrow> overlong_reward c m n' \<le> overlong_reward c m n)"
proof -
  let ?e = "of_int (m - ov_len c) :: real" and ?l = "of_int (ov_len c) :: real" and ?f = "penalty_factor c"
  have l: "0 < ?l" using assms(1) by simp
  have form: "overlong_reward c m x = min (- (x - ?e) / ?l * ?f) 0" for x
    unfolding overlong_reward_def Let_def by (rule refl)
  have mono: "x \<le> y \<Longrightarrow> - (y - ?e) / ?l * ?f \<le> - (x - ?e) / ?l * ?f" for x y
    using l assms(2) by (intro mult_right_mono divide_right_mono) simp_all
  have at_e: "- (?e - ?e) / ?l * ?f = 0" by simp
  have at_m: "- (of_int m - ?e) / ?l * ?f = - ?f" using l by simp
  have "n \<le> ?e \<longrightarrow> overlong_reward c m n = 0" using mono [of n ?e] at_e form by simp
  moreover have "?e \<le> n \<longrightarrow> overlong_reward c m n = - (n - ?e) / ?l * ?f" using mono [of ?e n] at_e form by simp
  moreover have "overlong_reward c m (of_int m) = - ?f" using at_m assms form by simp
  moreover have "n \<le> of_int m \<longrightarrow> - ?f \<le> overlong_reward c m n" using mono [of n "of_int m"] at_m assms form by simp
  moreover have "overlong_reward c m n \<le> 0" using form by simp
  moreover have "n \<le> n' \<longrightarrow> overlong_reward c m n' \<le> overlong_reward c m n" using mono [of n n'] form by (simp add: min.coboundedI1)
  ultimately show ?thesis by blast
qed

theorem overlong_penalty_shape_witness:
  "overlong_reward \<lparr>ov_enable = True, ov_len = 4, penalty_factor = 1, ov_log = False\<rparr> 10 8 = - 1 / 2"
  using overlong_penalty_shape [of "\<lparr>ov_enable = True, ov_len = 4, penalty_factor = 1, ov_log = False\<rparr>" 8 10 8] by simp

subsection \<open>Both DAPO managers give the same rewards\<close>

lemma single_row:
  assumes "aligned n d" "i < n" "batch d \<noteq> None"
  shows "rbind (slice_proto d (Some (int i)) (Some (int i + 1)) None) single_item = Inr (row_item d i)"
proof -
  have ix: "slice_indices n (Some (int i)) (Some (int i + 1)) 1 = [i]"
    using assms(2) by (simp add: slice_indices_1 slice_bound_def nat_add_distrib)
  have al: "aligned 1 (pick [i] d)" using aligned_pick [OF assms(1), of "[i]"] assms(3) by simp
  have "getitem_int (pick [i] d) (int 0) = Inr (row_item (pick [i] d) 0)" by (rule getitem_int_row [OF al]) simp
  moreover have "row_item (pick [i] d) 0 = row_item d i"
    by (cases "batch d") (simp_all add: row_item_def pick_def td_pick_def comp_def picks_def)
  ultimately show ?thesis
    using slice_proto_pick [OF assms(1)] ix proto_len_aligned [OF al] by (simp add: single_item_def)
qed

lemma loop_on_row:
  assumes "aligned n d" "i < n" "batch d \<noteq> None"
  shows "rbind (slice_proto d (Some (int i)) (Some (int i + 1)) None) (loop_dapo_run_single env (Some c) (Some m))
    = rbind (Inr (row_item d i)) (\<lambda>it. rbind (loop_response env it) (\<lambda>(n, response).
      rbind (source_of ''data_source'' it) (\<lambda>source. rbind (ground_truth_of it) (\<lambda>gt.
      rbind (as_dict (item_get it ''extra_info'' (PDict []))) (\<lambda>extra.
      rbind (scorer env source response gt extra) (\<lambda>score. rbind (unpack_score True score) (\<lambda>ri.
      Inr (add_overlong c m n ri))))))))"
proof -
  obtain s where s: "slice_proto d (Some (int i)) (Some (int i + 1)) None = Inr s" "single_item s = Inr (row_item d i)"
    using single_row [OF assms] by (auto simp: rbind_Inr_iff)
  show ?thesis unfolding loop_dapo_run_single_def s rbind.simps by simp
qed

definition scorable :: "nat \<Rightarrow> nat \<Rightarrow> rl_item \<Rightarrow> bool" where
  "scorable P R it \<longleftrightarrow> (\<exists>p r a g s e. item_tensor it ''prompts'' = Inr p \<and> length p = P \<and> item_tensor it ''responses'' = Inr r \<and> length r = R
     \<and> item_tensor it ''attention_mask'' = Inr a \<and> length a = P + R \<and> 0 \<le> sum_list (drop P a) \<and> sum_list (drop P a) \<le> real R
     \<and> ground_truth_of it = Inr g \<and> source_of ''data_source'' it = Inr s \<and> as_dict (item_get it ''extra_info'' (PDict [])) = Inr e)"

text \<open>What the scoring function of the worker's manager is given, compared with that of the loop's: the response without the text of the
  end token, and the reward scores of the rollout in the extra information.\<close>

definition worker_view :: "reward_env \<Rightarrow> rl_item \<Rightarrow> reward_env" where
  "worker_view env it = env\<lparr>scorer := (\<lambda>source response gt extra. scorer env source (strip_eos (eos_token env) response) gt
     (AList.update ''rollout_reward_scores'' (item_get it ''reward_scores'' (PDict [])) extra))\<rparr>"

lemma place_reward_total:
  assumes "0 \<le> x" "x \<le> real R" "0 < R"
  shows "\<exists>row. place_reward R x v = Inr row \<and> sum_list row = v"
proof -
  have fl: "0 \<le> \<lfloor>x\<rfloor>" "\<lfloor>x\<rfloor> \<le> int R" using assms(1,2) by linarith+
  have "\<exists>k < R. py_index R (i - 1) = Inr k" if "0 \<le> i" "i \<le> int R" for i
  proof (cases "i = 0")
    case False
    then have "nat (i - 1) < R" using that by linarith
    then show ?thesis using that False by (auto simp: py_index_def)
  qed (use assms(3) in \<open>auto simp: py_index_def\<close>)
  from this [OF fl] have "\<exists>k < R. py_index R (\<lfloor>x\<rfloor> - 1) = Inr k" .
  then obtain k where k: "k < R" "py_index R (\<lfloor>x\<rfloor> - 1) = Inr k" by blast
  moreover have "sum_list ((replicate R 0)[k := v]) = v" using k(1) by (rule sum_list_one_hot)
  ultimately show ?thesis by (simp add: place_reward_def)
qed

lemma dapo_item_agrees:
  fixes env :: reward_env and it :: rl_item
  defines "view \<equiv> worker_view env it"
  assumes "scorable P R it" "reward_fn_key env = ''data_source''" "0 < R" "rbind (Inr it) (\<lambda>it. rbind (loop_response view it) (\<lambda>(n, response).
    rbind (source_of ''data_source'' it) (\<lambda>source. rbind (ground_truth_of it) (\<lambda>gt.
    rbind (as_dict (item_get it ''extra_info'' (PDict []))) (\<lambda>extra.
    rbind (scorer view source response gt extra) (\<lambda>score. rbind (unpack_score True score) (\<lambda>ri.
    Inr (add_overlong c m n ri)))))))) = Inr (reward, info)"
  shows "\<exists>row. dapo_item env (Some c) (Some m) it = Inr (row, info) \<and> sum_list row = reward"
proof -
  obtain p r a g s e where it: "item_tensor it ''prompts'' = Inr p" "length p = P" "item_tensor it ''responses'' = Inr r" "length r = R"
    "item_tensor it ''attention_mask'' = Inr a" "length a = P + R" "0 \<le> sum_list (drop P a)" "sum_list (drop P a) \<le> real R"
    "ground_truth_of it = Inr g" "source_of ''data_source'' it = Inr s" "as_dict (item_get it ''extra_info'' (PDict [])) = Inr e"
    using assms(2) by (auto simp: scorable_def)
  have last: "last_n R a = drop P a" using it(6) assms(4) by (simp add: last_n_def)
  let ?n = "sum_list (drop P a)"
  let ?resp = "decode env (valid_response r ?n)"
  let ?e = "AList.update ''rollout_reward_scores'' (item_get it ''reward_scores'' (PDict [])) e"
  have "decode view = decode env" by (simp add: view_def worker_view_def)
  then obtain score ri where "scorer view s ?resp g e = Inr score" and ri: "unpack_score True score = Inr ri" "add_overlong c m ?n ri = (reward, info)"
    using assms(5) it last by (auto simp: loop_response_def Let_def rbind_Inr_iff)
  then have sc: "scorer env s (strip_eos (eos_token env) ?resp) g ?e = Inr score" by (simp add: view_def worker_view_def)
  obtain row where row: "place_reward R ?n reward = Inr row" "sum_list row = reward"
    using place_reward_total [OF it(7,8) assms(4)] by blast
  have "dapo_item env (Some c) (Some m) it = Inr (row, info)"
    unfolding dapo_item_def using it sc ri row assms(3) by (simp add: Let_def)
  then show ?thesis using row(2) by blast
qed

lemma call_manager_rows:
  assumes "aligned n d" "batch d \<noteq> None" "\<not> has_tensor d ''rm_scores''" "tensor d ''responses'' = Inr rs"
    and "list_all2 (\<lambda>i (r, info). \<exists>row. item (row_item d i) = Inr (row, info) \<and> sum_list row = r) [0..<n] results"
  shows "\<exists>rows. call_manager item d True = Inr (rows, fold (\<lambda>(r, info). append_info info) results []) \<and> row_sums rows = map fst results"
proof -
  have "\<exists>out. rmap (\<lambda>i. rbind (getitem_int d (int i)) item) is = Inr out \<and> row_sums (map fst out) = map fst res \<and> map snd out = map snd res"
    if "list_all2 (\<lambda>i (r, info). \<exists>row. item (row_item d i) = Inr (row, info) \<and> sum_list row = r) is res" "set is \<subseteq> {..<n}" for "is" res
    using that
  proof (induction rule: list_all2_induct)
    case (Cons i "is" p res)
    then show ?case using getitem_int_row [OF assms(1), of i] by (auto simp: row_sums_def)
  qed (simp add: row_sums_def)
  from this [OF assms(5)] obtain out where out: "rmap (\<lambda>i. rbind (getitem_int d (int i)) item) [0..<n] = Inr out"
    "row_sums (map fst out) = map fst results" "map snd out = map snd results" by fastforce
  have "fold (\<lambda>(row, info). append_info info) out acc = fold (append_info \<circ> snd) out acc" for acc
    by (rule fold_cong) auto
  also have "\<dots> acc = fold append_info (map snd out) acc" for acc by (simp add: fold_map)
  also have "\<dots> acc = fold (append_info \<circ> snd) results acc" for acc unfolding out(3) by (simp add: fold_map)
  also have "\<dots> acc = fold (\<lambda>(r, info). append_info info) results acc" for acc by (rule fold_cong) auto
  finally have "fold (\<lambda>(row, info). append_info info) out [] = fold (\<lambda>(r, info). append_info info) results []" .
  then show ?thesis
    using assms(3,4) out(1,2) proto_len_aligned [OF assms(1)] by (simp add: call_manager_def extract_rm_scores_def)
qed

text \<open>C36: The reward loop and the worker give the same DAPO rewards up to two differences in what they score. The batch has the
  tensors and columns that the managers read and no scores of a reward model, the worker's \<open>reward_fn_key\<close> is
  \<open>data_source\<close>, and both have an overlong configuration and a maximal length. If the loop's manager returns for every single row, with a scoring function that strips the
  end token from the response and adds the rollout's reward scores to the extra information, then the worker's manager, which does
  these two things itself, returns for the whole batch, with the same extra information and a reward tensor whose rows sum to the
  loop's rewards.\<close>

theorem dapo_managers_agree:
  assumes "aligned n d" "batch d \<noteq> None" "\<not> has_tensor d ''rm_scores''" "0 < R" "reward_fn_key env = ''data_source''"
    and "tensor d ''responses'' = Inr rs" and "list_all (\<lambda>i. scorable P R (row_item d i)) [0..<n]"
    and "rmap (\<lambda>i. rbind (slice_proto d (Some (int i)) (Some (int i + 1)) None)
        (loop_dapo_run_single (worker_view env (row_item d i)) (Some c) (Some m))) [0..<n] = Inr results"
  shows "\<exists>rows. call_dapo env (Some c) (Some m) d True = Inr (rows, fold (\<lambda>(r, info). append_info info) results [])
    \<and> row_sums rows = map fst results"
  unfolding call_dapo_def
proof (rule call_manager_rows [OF assms(1-3,6)])
  have "\<exists>row. dapo_item env (Some c) (Some m) (row_item d i) = Inr (row, snd (results ! i)) \<and> sum_list row = fst (results ! i)" if i: "i < n" for i
  proof (rule dapo_item_agrees)
    show "scorable P R (row_item d i)" "reward_fn_key env = ''data_source''" "0 < R" using assms(4,5,7) i by (auto simp: list_all_length)
    show "rbind (Inr (row_item d i)) (\<lambda>it. rbind (loop_response (worker_view env (row_item d i)) it) (\<lambda>(n, response).
        rbind (source_of ''data_source'' it) (\<lambda>source. rbind (ground_truth_of it) (\<lambda>gt.
        rbind (as_dict (item_get it ''extra_info'' (PDict []))) (\<lambda>extra.
        rbind (scorer (worker_view env (row_item d i)) source response gt extra) (\<lambda>score. rbind (unpack_score True score) (\<lambda>ri.
        Inr (add_overlong c m n ri)))))))) = Inr (fst (results ! i), snd (results ! i))"
      using rmap_nth [OF assms(8), of i] i loop_on_row [OF assms(1) i assms(2)] by simp
  qed
  then show "list_all2 (\<lambda>i (r, info). \<exists>row. dapo_item env (Some c) (Some m) (row_item d i) = Inr (row, info) \<and> sum_list row = r) [0..<n] results"
    using rmap_length [OF assms(8)] by (simp add: list_all2_conv_all_nth case_prod_beta)
qed

text \<open>The two differences vanish when the response does not end with the text of the end token and the scoring function does not
  look at the extra information, and both are visible otherwise.\<close>

lemma worker_view_same:
  assumes "\<not> endswith response (eos_token env)" "\<And>e e'. scorer env s response g e = scorer env s response g e'"
  shows "scorer (worker_view env it) s response g e = scorer env s response g e'"
  using assms by (simp add: worker_view_def strip_eos_def)

definition demo_reward_env :: reward_env where
  "demo_reward_env = \<lparr>decode = (\<lambda>ids. if ids = [7] then ''no'' else ''yes''), eos_token = ''</s>'',
     scorer = (\<lambda>s r g e. Inr (ScoreNum (if PStr r = g then 1 else - 1))), reward_fn_key = ''data_source''\<rparr>"

definition demo_scored_batch :: rl_batch where
  "demo_scored_batch = \<lparr>batch = Some \<lparr>td_size = 2, td_tensors = [(''prompts'', [[1], [1]]), (''responses'', [[7, 0], [8, 9]]),
       (''attention_mask'', [[1, 1, 0], [1, 1, 1]])]\<rparr>,
     non_tensor_batch = [(''data_source'', [PStr ''x'', PStr ''x'']),
       (''reward_model'', [PDict [(''ground_truth'', PStr ''no'')], PDict [(''ground_truth'', PStr ''yes'')]])], meta_info = []\<rparr>"

definition demo_overlong :: overlong_cfg where
  "demo_overlong = \<lparr>ov_enable = True, ov_len = 1, penalty_factor = 1 / 2, ov_log = False\<rparr>"

theorem dapo_managers_agree_witness:
  "\<exists>rows. call_dapo demo_reward_env (Some demo_overlong) (Some 2) demo_scored_batch True = Inr (rows, [(''acc'', [PFloat 1, PFloat 1])])
    \<and> row_sums rows = [1, 1 / 2]"
proof -
  let ?loop = "\<lambda>i. rbind (slice_proto demo_scored_batch (Some (int i)) (Some (int i + 1)) None) (loop_dapo_run_single (worker_view demo_reward_env (row_item demo_scored_batch i)) (Some demo_overlong) (Some 2))"
  have al: "aligned 2 demo_scored_batch" "batch demo_scored_batch \<noteq> None"
    by (simp_all add: aligned_def td_wf_def wf_dict_def demo_scored_batch_def)
  have rows: "row_item demo_scored_batch 0 = \<lparr>item_batch = Some [(''prompts'', [1]), (''responses'', [7, 0]), (''attention_mask'', [1, 1, 0])],
      item_non_tensor_batch = [(''data_source'', PStr ''x''), (''reward_model'', PDict [(''ground_truth'', PStr ''no'')])], item_meta_info = []\<rparr>"
    "row_item demo_scored_batch 1 = \<lparr>item_batch = Some [(''prompts'', [1]), (''responses'', [8, 9]), (''attention_mask'', [1, 1, 1])],
      item_non_tensor_batch = [(''data_source'', PStr ''x''), (''reward_model'', PDict [(''ground_truth'', PStr ''yes'')])], item_meta_info = []\<rparr>"
    by (simp_all add: row_item_def demo_scored_batch_def dict_map_def)
  have sc: "list_all (\<lambda>i. scorable 1 2 (row_item demo_scored_batch i)) [0..<2]"
    by (simp add: upt_rec rows [unfolded One_nat_def] scorable_def item_tensor_def ground_truth_of_def source_of_def as_dict_def item_get_def dget_def)
  have one: "?loop 0 = Inr (1, [(''acc'', PFloat 1)])" and two: "?loop 1 = Inr (1 / 2, [(''acc'', PFloat 1)])"
    using loop_on_row [OF al(1) _ al(2), of 0] loop_on_row [OF al(1) _ al(2), of 1]
    by (simp_all add: rows rows [unfolded One_nat_def] loop_response_def item_tensor_def ground_truth_of_def source_of_def as_dict_def
        item_get_def dget_def worker_view_def strip_eos_def endswith_def demo_reward_env_def valid_response_def unpack_score_def add_overlong_def overlong_reward_def demo_overlong_def last_n_def)
  have loop: "rmap ?loop [0..<2] = Inr [(1 :: real, [(''acc'', PFloat 1)]), (1 / 2, [(''acc'', PFloat 1)])]"
    using one two by (simp add: upt_rec)
  have "\<exists>rows. call_dapo demo_reward_env (Some demo_overlong) (Some 2) demo_scored_batch True
      = Inr (rows, fold (\<lambda>(r, info). append_info info) [(1 :: real, [(''acc'', PFloat 1)]), (1 / 2, [(''acc'', PFloat 1)])] [])
    \<and> row_sums rows = map fst [(1 :: real, [(''acc'', PFloat 1)]), (1 / 2, [(''acc'', PFloat 1)])]"
    by (rule dapo_managers_agree [OF al _ _ _ _ sc loop]) (simp_all add: demo_reward_env_def has_tensor_def tensor_def demo_scored_batch_def dget_def)
  then show ?thesis by (simp add: append_info_def modify_def)
qed

lemma demo_row_0:
  "row_item demo_scored_batch 0 = \<lparr>item_batch = Some [(''prompts'', [1]), (''responses'', [7, 0]), (''attention_mask'', [1, 1, 0])],
      item_non_tensor_batch = [(''data_source'', PStr ''x''), (''reward_model'', PDict [(''ground_truth'', PStr ''no'')])], item_meta_info = []\<rparr>"
  by (simp add: row_item_def demo_scored_batch_def dict_map_def)

lemma dapo_managers_differ:
  defines "env \<equiv> demo_reward_env\<lparr>decode := (\<lambda>_. ''no</s>'')\<rparr>"
  shows "dapo_item env (Some demo_overlong) (Some 2) (row_item demo_scored_batch 0) = Inr ([1, 0], [(''acc'', PFloat 1)])"
    "rbind (slice_proto demo_scored_batch (Some (int 0)) (Some (int 0 + 1)) None) (loop_dapo_run_single env (Some demo_overlong) (Some 2))
      = Inr (- 1, [(''acc'', PFloat (- 1))])"
proof -
  have "aligned 2 demo_scored_batch" "batch demo_scored_batch \<noteq> None"
    by (simp_all add: aligned_def td_wf_def wf_dict_def demo_scored_batch_def)
  note loop = loop_on_row [OF this(1) _ this(2), of 0]
  show "dapo_item env (Some demo_overlong) (Some 2) (row_item demo_scored_batch 0) = Inr ([1, 0], [(''acc'', PFloat 1)])"
    by (simp add: demo_row_0 dapo_item_def item_tensor_def ground_truth_of_def source_of_def as_dict_def item_get_def dget_def env_def
        demo_reward_env_def strip_eos_def endswith_def valid_response_def unpack_score_def add_overlong_def overlong_reward_def
        demo_overlong_def place_reward_def py_index_def Let_def)
  show "rbind (slice_proto demo_scored_batch (Some (int 0)) (Some (int 0 + 1)) None) (loop_dapo_run_single env (Some demo_overlong) (Some 2))
      = Inr (- 1, [(''acc'', PFloat (- 1))])"
    by (simp only: loop zero_less_numeral) (simp add: demo_row_0 loop_response_def item_tensor_def ground_truth_of_def source_of_def as_dict_def
        item_get_def dget_def env_def demo_reward_env_def valid_response_def unpack_score_def add_overlong_def overlong_reward_def
        demo_overlong_def last_n_def)
qed

text \<open>A DAPO worker manager without overlong configuration is constructed, and fails at its first score.\<close>

lemma dapo_without_cfg_raises:
  "check_dapo_cfg None max_len = Inr () \<and> (dapo_item env None max_len it = Inr x \<longrightarrow> False)"
  by (auto simp: check_dapo_cfg_def dapo_item_def Let_def rbind_Inr_iff)

text \<open>If one scoring function returns a dictionary, as the default one does for DAPO data, the PRIME manager gives every row the score 0.\<close>

lemma prime_dict_zeroes_all: "Some (ScoreDict s) \<in> set results \<Longrightarrow> prime_scores results = replicate (length results) 0"
proof -
  assume "Some (ScoreDict s) \<in> set results"
  then have "\<exists>e. rmap prime_value results = Inl e"
  proof (induction results)
    case (Cons r rs)
    then show ?case by (cases "prime_value r") (auto simp: prime_value_def)
  qed simp
  then show ?thesis by (auto simp: prime_scores_def)
qed

text \<open>Dictionaries and plain scores in one batch leave lists of extra information that are shorter than the batch.\<close>

lemma mixed_scores_misalign:
  "fold (\<lambda>(row, info). append_info info) [(r1, [(''pred'', PStr ''a'')]), (r2, [])] [] = [(''pred'', [PStr ''a''])]"
  by (simp add: append_info_def modify_def)

end
