(* ===== verification/RateLimit.thy ===== *)
theory RateLimit
  imports RewardManager
begin

section \<open>Rate limiting of reward requests\<close>

text \<open>
  \<open>verl/experimental/reward_loop/reward_manager/limited.py\<close>: the token bucket shared by all requests, the class state, and the reward of
  one request with its timeout and error branches. The bucket is locked during an attempt, so an attempt is one step;
  between two attempts a request sleeps. Times are reals given by the event loop's clock. The semaphore
  of asyncio is not modelled.
\<close>

subsection \<open>The token bucket\<close>

record token_bucket =
  rate_limit :: real
  max_tokens :: real
  tokens :: real
  last_update :: "real option"

definition new_bucket :: "real \<Rightarrow> real option \<Rightarrow> token_bucket" where
  "new_bucket rate mt =
    (let m = (case mt of Some x \<Rightarrow> if x = 0 then rate else x | None \<Rightarrow> rate)
     in \<lparr>rate_limit = rate, max_tokens = m, tokens = m, last_update = None\<rparr>)"

definition refill :: "real \<Rightarrow> token_bucket \<Rightarrow> token_bucket" where
  "refill now b =
    (let last = (case last_update b of None \<Rightarrow> now | Some t \<Rightarrow> t); elapsed = now - last; new_tokens = elapsed * rate_limit b
     in b\<lparr>tokens := min (max_tokens b) (tokens b + new_tokens), last_update := Some now\<rparr>)"

text \<open>What an attempt at a time leads to: the request returns after a sleep, possibly of no time, or tries again after one.\<close>

datatype attempt_result = ReturnAfter real | RetryAfter real

definition acquire_attempt :: "real \<Rightarrow> real \<Rightarrow> token_bucket \<Rightarrow> token_bucket \<times> attempt_result" where
  "acquire_attempt now num_tokens b =
    (let b1 = refill now b; tokens_needed = num_tokens - tokens b1
     in if num_tokens > max_tokens b then
          (b1\<lparr>tokens := tokens b1 - num_tokens\<rparr>, ReturnAfter (if tokens_needed > 0 then tokens_needed / rate_limit b else 0))
        else if tokens b1 \<ge> num_tokens then (b1\<lparr>tokens := tokens b1 - num_tokens\<rparr>, ReturnAfter 0)
        else (b1, RetryAfter (tokens_needed / rate_limit b)))"

text \<open>The attempts of all requests, in the order in which they take the lock; the grants are the amounts with the
  times at which \<open>acquire\<close> returns.\<close>

fun run_attempts :: "token_bucket \<Rightarrow> (real \<times> real) list \<Rightarrow> token_bucket \<times> (real \<times> real) list" where
  "run_attempts b [] = (b, [])"
| "run_attempts b ((now, n) # as) =
    (case acquire_attempt now n b of
       (b1, ReturnAfter w) \<Rightarrow> (case run_attempts b1 as of (b2, gs) \<Rightarrow> (b2, (now + w, n) # gs))
     | (b1, RetryAfter w) \<Rightarrow> run_attempts b1 as)"

subsection \<open>The class state\<close>

record limiter_cfg =
  cfg_max_concurrent :: "int option"
  cfg_max_rpm :: "real option"
  cfg_max_tpm :: "real option"
  cfg_tokens_per_request :: "real option"

record limiter_class =
  max_concurrent :: "int option"
  rpm_limiter :: "token_bucket option"
  max_rpm :: "real option"
  tpm_limiter :: "token_bucket option"
  max_tpm :: "real option"
  estimated_tokens_per_request :: "real option"
  class_initialized :: bool

definition limiter_class0 :: limiter_class where
  "limiter_class0 = \<lparr>max_concurrent = None, rpm_limiter = None, max_rpm = None, tpm_limiter = None, max_tpm = None,
     estimated_tokens_per_request = None, class_initialized = False\<rparr>"

definition per_minute_bucket :: "real \<Rightarrow> token_bucket" where
  "per_minute_bucket r = new_bucket (r / 60) (Some (r / 60))"

definition init_class :: "limiter_cfg \<Rightarrow> limiter_class \<Rightarrow> limiter_class" where
  "init_class cfg c =
    (if class_initialized c then c
     else \<lparr>max_concurrent = Some (case cfg_max_concurrent cfg of None \<Rightarrow> 1 | Some k \<Rightarrow> k),
       rpm_limiter = map_option per_minute_bucket (cfg_max_rpm cfg), max_rpm = cfg_max_rpm cfg,
       tpm_limiter = map_option per_minute_bucket (cfg_max_tpm cfg), max_tpm = cfg_max_tpm cfg,
       estimated_tokens_per_request = Some (case cfg_tokens_per_request cfg of None \<Rightarrow> 2000 | Some k \<Rightarrow> k),
       class_initialized = True\<rparr>)"

subsection \<open>One request\<close>

text \<open>What awaiting the scoring function with a timeout gives; the message of an exception. A dictionary without a score is
  caught like a failure; a score that is no number is not, and fails when it is written to the tensor.\<close>

datatype compute_outcome = Scored score_value | TimedOut | Failed string

definition limited_reward :: "(py_error \<Rightarrow> string) \<Rightarrow> compute_outcome \<Rightarrow> (real \<times> (string, pyv) dict) result" where
  "limited_reward message outcome = (case outcome of
     Scored v \<Rightarrow> (case unpack_score True v of
         Inl KeyError \<Rightarrow> Inr (0, [(''error'', PStr (message KeyError)), (''acc'', PFloat 0)])
       | r \<Rightarrow> r)
   | TimedOut \<Rightarrow> Inr (0, [(''timeout'', PBool True), (''acc'', PFloat 0)])
   | Failed msg \<Rightarrow> Inr (0, [(''error'', PStr msg), (''acc'', PFloat 0)]))"

definition limited_run_single ::
  "reward_env \<Rightarrow> (py_error \<Rightarrow> string) \<Rightarrow> (string \<Rightarrow> string \<Rightarrow> pyv \<Rightarrow> (string, pyv) dict \<Rightarrow> compute_outcome) \<Rightarrow> rl_batch
   \<Rightarrow> (real \<times> (string, pyv) dict) result" where
  "limited_run_single env message compute data =
    rbind (single_item data) (\<lambda>it.
    rbind (loop_response env it) (\<lambda>(n, response).
    rbind (source_of ''data_source'' it) (\<lambda>source.
    rbind (ground_truth_of it) (\<lambda>gt.
    rbind (as_dict (item_get it ''extra_info'' (PDict []))) (\<lambda>extra.
    rbind (case item_get it ''tool_extra_fields'' PNone of PNone \<Rightarrow> Inr extra | v \<Rightarrow> rbind (as_dict v) (\<lambda>e. Inr (dict_update extra e))) (\<lambda>extra.
    limited_reward message (compute source response gt extra)))))))"

definition limited_call ::
  "reward_env \<Rightarrow> (py_error \<Rightarrow> string) \<Rightarrow> (string \<Rightarrow> string \<Rightarrow> pyv \<Rightarrow> (string, pyv) dict \<Rightarrow> compute_outcome) \<Rightarrow> rl_batch
   \<Rightarrow> bool \<Rightarrow> (mat \<times> (string, pyv list) dict) result" where
  "limited_call env message compute data return_dict = (case extract_rm_scores data return_dict of
     Some r \<Rightarrow> r
   | None \<Rightarrow>
      rbind (tensor data ''responses'') (\<lambda>_.
      rbind (rmap (\<lambda>i. rbind (slice_proto data (Some (int i)) (Some (int i + 1)) None) (limited_run_single env message compute))
         [0..<proto_len data]) (\<lambda>results.
      rbind (rmap (\<lambda>i. rbind (getitem_int data (int i)) (\<lambda>it. rbind (item_tensor it ''responses'') (\<lambda>response_ids.
          rbind (item_tensor it ''attention_mask'') (\<lambda>attention.
          place_reward (length response_ids) (sum_list (last_n (length response_ids) attention)) (fst (results ! i))))))
         [0..<proto_len data]) (\<lambda>rows.
      Inr (rows, if return_dict then fold (\<lambda>(_, info). append_info info) results [] else [])))))"

subsection \<open>What the bucket guarantees\<close>

definition bucket_ok :: "real \<Rightarrow> token_bucket \<Rightarrow> bool" where
  "bucket_ok now b \<longleftrightarrow> 0 < rate_limit b \<and> 0 < max_tokens b \<and> tokens b \<le> max_tokens b
     \<and> (case last_update b of None \<Rightarrow> True | Some t \<Rightarrow> t \<le> now)"

definition available :: "real \<Rightarrow> token_bucket \<Rightarrow> real" where
  "available now b = tokens (refill now b)"

definition granted_by :: "real \<Rightarrow> (real \<times> real) list \<Rightarrow> real" where
  "granted_by t gs = sum_list (map snd (filter (\<lambda>(c, n). c \<le> t) gs))"

fun times_ordered :: "(real \<times> real) list \<Rightarrow> bool" where
  "times_ordered [] = True"
| "times_ordered [(t, n)] = (0 \<le> n)"
| "times_ordered ((t, n) # (t', n') # as) = (0 \<le> n \<and> t \<le> t' \<and> times_ordered ((t', n') # as))"

lemma refill_simps [simp]:
  "rate_limit (refill now b) = rate_limit b" "max_tokens (refill now b) = max_tokens b" "last_update (refill now b) = Some now"
  by (simp_all add: refill_def Let_def)

lemma available_le_max: "available now b \<le> max_tokens b"
  by (simp add: available_def refill_def Let_def)

lemma attempt_cases:
  obtains (granted) w where "acquire_attempt now n b = ((refill now b)\<lparr>tokens := available now b - n\<rparr>, ReturnAfter w)"
      "0 < rate_limit b \<Longrightarrow> 0 \<le> w" "0 < rate_limit b \<Longrightarrow> n - available now b \<le> w * rate_limit b"
    | (retry) "acquire_attempt now n b = (refill now b, RetryAfter ((n - available now b) / rate_limit b))"
      "n \<le> max_tokens b" "available now b < n"
proof (cases "n > max_tokens b \<or> available now b \<ge> n")
  case True
  define w where "w = (if n > max_tokens b \<and> n - available now b > 0 then (n - available now b) / rate_limit b else 0)"
  have "acquire_attempt now n b = ((refill now b)\<lparr>tokens := available now b - n\<rparr>, ReturnAfter w)"
    using True by (auto simp: acquire_attempt_def available_def w_def Let_def)
  moreover have "0 < rate_limit b \<Longrightarrow> n - available now b \<le> w * rate_limit b" using True by (auto simp: w_def)
  moreover have "0 < rate_limit b \<Longrightarrow> 0 \<le> w" by (auto simp: w_def)
  ultimately show ?thesis using that(1) by blast
next
  case False
  then show ?thesis by (intro that(2)) (auto simp: acquire_attempt_def available_def Let_def)
qed

text \<open>Tokens available at a later attempt, when nothing was taken in between.\<close>

lemma available_later:
  assumes "0 < rate_limit b" "t \<le> t'"
  shows "available t' ((refill t b)\<lparr>tokens := x\<rparr>) = min (max_tokens b) (x + (t' - t) * rate_limit b)"
  by (simp add: available_def refill_def Let_def)

lemma granted_by_Cons: "granted_by t ((c, n) # gs) = (if c \<le> t then n else 0) + granted_by t gs"
  by (simp add: granted_by_def)

lemma grants_le_available:
  assumes "times_ordered ((t1, n) # as)" "0 < rate_limit b" "run_attempts b ((t1, n) # as) = (b', gs)"
    and "filter (\<lambda>(c, n). c \<le> t) gs \<noteq> []"
  shows "granted_by t gs \<le> available t1 b + rate_limit b * (t - t1)"
  using assms
proof (induction as arbitrary: b t1 n gs b')
  case Nil
  show ?case
  proof (cases rule: attempt_cases [of t1 n b])
    case (granted w)
    then have gs: "gs = [(t1 + w, n)]" and "t1 + w \<le> t" using Nil.prems(3,4) by (auto split: if_splits)
    then have "w * rate_limit b \<le> (t - t1) * rate_limit b" using Nil.prems(2) by (intro mult_right_mono) simp_all
    then show ?thesis using granted(3) [OF Nil.prems(2)] gs \<open>t1 + w \<le> t\<close> by (simp add: granted_by_def mult.commute)
  qed (use Nil.prems in auto)
next
  case (Cons p as)
  obtain t2 n2 where p: "p = (t2, n2)" by (cases p)
  have ord: "0 \<le> n" "t1 \<le> t2" "times_ordered ((t2, n2) # as)" using Cons.prems(1) p by simp_all
  have r: "0 < rate_limit b" using Cons.prems(2) .
  show ?case
  proof (cases rule: attempt_cases [of t1 n b])
    case (granted w)
    let ?b1 = "(refill t1 b)\<lparr>tokens := available t1 b - n\<rparr>"
    obtain gs' where gs: "gs = (t1 + w, n) # gs'" "run_attempts ?b1 ((t2, n2) # as) = (b', gs')"
      using Cons.prems(3) granted(1) p by (auto split: prod.splits)
    have first: "t1 + w \<le> t \<Longrightarrow> n \<le> available t1 b + rate_limit b * (t - t1)"
    proof -
      assume "t1 + w \<le> t"
      then have "w * rate_limit b \<le> (t - t1) * rate_limit b" using r by (intro mult_right_mono) simp_all
      then show ?thesis using granted(3) [OF r] by (simp add: mult.commute)
    qed
    show ?thesis
    proof (cases "filter (\<lambda>(c, n). c \<le> t) gs' = []")
      case True
      then have "granted_by t gs' = 0" "t1 + w \<le> t" using Cons.prems(4) gs(1) by (auto simp: granted_by_def split: if_splits)
      then show ?thesis using first gs(1) by (simp add: granted_by_Cons)
    next
      case False
      have "granted_by t gs' \<le> available t2 ?b1 + rate_limit ?b1 * (t - t2)"
        by (rule Cons.IH [OF ord(3) _ gs(2) False]) (simp add: r)
      also have "\<dots> \<le> available t1 b - n + (t2 - t1) * rate_limit b + rate_limit b * (t - t2)"
        using available_later [OF r ord(2), of "available t1 b - n"] by simp
      also have "\<dots> = available t1 b - n + rate_limit b * (t - t1)" by (simp add: algebra_simps)
      finally show ?thesis using gs(1) ord(1) by (simp add: granted_by_Cons)
    qed
  next
    case retry
    then have run: "run_attempts (refill t1 b) ((t2, n2) # as) = (b', gs)" using Cons.prems(3) p by simp
    have "granted_by t gs \<le> available t2 (refill t1 b) + rate_limit (refill t1 b) * (t - t2)"
      by (rule Cons.IH [OF ord(3) _ run Cons.prems(4)]) (simp add: r)
    moreover have "available t2 (refill t1 b) \<le> available t1 b + (t2 - t1) * rate_limit b"
      using available_later [OF r ord(2), of "available t1 b"] by (simp add: available_def)
    ultimately show ?thesis by (simp add: algebra_simps)
  qed
qed

text \<open>C26: The bucket keeps the rate. Whatever requests compete, and from any state of the bucket, the tokens of all
  requests whose \<open>acquire\<close> has returned by a time, counted from any attempt on, are at most the capacity plus
  the rate times the elapsed time. Requests larger than the capacity are included: they borrow tokens, but return only
  after the debt is paid.\<close>

theorem rate_limit_respected:
  assumes "bucket_ok t1 b" "times_ordered ((t1, n) # as)" "run_attempts b ((t1, n) # as) = (b', gs)" "t1 \<le> t"
  shows "granted_by t gs \<le> max_tokens b + rate_limit b * (t - t1)"
proof (cases "filter (\<lambda>(c, n). c \<le> t) gs = []")
  case True
  then show ?thesis using assms(1,4) by (simp add: granted_by_def bucket_ok_def)
next
  case False
  then show ?thesis
    using grants_le_available [OF assms(2) _ assms(3) False] available_le_max [of t1 b] assms(1) by (simp add: bucket_ok_def)
qed

theorem rate_limit_respected_witness:
  "granted_by 3 (snd (run_attempts (new_bucket 1 (Some 2)) [(0, 1), (0, 5), (1, 1), (7, 2)])) \<le> 5"
proof -
  have r: "run_attempts (new_bucket 1 (Some 2)) [(0, 1), (0, 5), (1, 1), (7, 2)]
      = (fst (run_attempts (new_bucket 1 (Some 2)) [(0, 1), (0, 5), (1, 1), (7, 2)]), snd (run_attempts (new_bucket 1 (Some 2)) [(0, 1), (0, 5), (1, 1), (7, 2)]))"
    by simp
  have "granted_by 3 (snd (run_attempts (new_bucket 1 (Some 2)) [(0, 1), (0, 5), (1, 1), (7, 2)]))
      \<le> max_tokens (new_bucket 1 (Some 2)) + rate_limit (new_bucket 1 (Some 2)) * (3 - 0)"
    by (rule rate_limit_respected [OF _ _ r]) (simp_all add: bucket_ok_def new_bucket_def)
  then show ?thesis by (simp add: new_bucket_def)
qed

text \<open>A request that no other disturbs returns after at most one sleep: an attempt either lets it return, or
  asks for a positive sleep after which the next attempt grants it at once.\<close>

theorem acquire_needs_one_sleep:
  assumes "bucket_ok now b" "acquire_attempt now n b = (b1, RetryAfter w)" "now + w \<le> now'"
  shows "0 < w \<and> acquire_attempt now' n b1 = ((refill now' b1)\<lparr>tokens := available now' b1 - n\<rparr>, ReturnAfter 0) \<and> n \<le> available now' b1"
proof (cases rule: attempt_cases [of now n b])
  case (granted w)
  then show ?thesis using assms(2) by simp
next
  case retry
  have r: "0 < rate_limit b" using assms(1) by (simp add: bucket_ok_def)
  have b1: "b1 = refill now b" and w: "w = (n - available now b) / rate_limit b" using retry(1) assms(2) by simp_all
  have "0 < w" using retry(3) r by (simp add: w)
  then have "now \<le> now'" using assms(3) by simp
  have "w * rate_limit b \<le> (now' - now) * rate_limit b" using assms(3) r by (intro mult_right_mono) simp_all
  then have "n \<le> available now b + (now' - now) * rate_limit b" using r by (simp add: w)
  moreover have "available now' b1 = min (max_tokens b) (available now b + (now' - now) * rate_limit b)"
    using available_later [OF r \<open>now \<le> now'\<close>, of "available now b"] by (simp add: b1 available_def)
  ultimately have "n \<le> available now' b1" using retry(2) by simp
  then show ?thesis using \<open>0 < w\<close> retry(2) by (auto simp: acquire_attempt_def Let_def available_def b1)
qed

theorem acquire_needs_one_sleep_witness:
  "snd (acquire_attempt 1 2 (fst (acquire_attempt 0 2 \<lparr>rate_limit = 1, max_tokens = 2, tokens = 1, last_update = Some 0\<rparr>))) = ReturnAfter 0"
proof -
  let ?b = "\<lparr>rate_limit = 1, max_tokens = 2, tokens = 1, last_update = Some 0\<rparr> :: token_bucket"
  have a: "acquire_attempt 0 2 ?b = (?b, RetryAfter 1)" by (simp add: acquire_attempt_def refill_def Let_def)
  show ?thesis using acquire_needs_one_sleep [OF _ a, of 1] by (simp add: a bucket_ok_def)
qed

text \<open>Later configurations do not change the limiters.\<close>

lemma init_class_once: "init_class cfg2 (init_class cfg1 c) = init_class cfg1 c"
  by (simp add: init_class_def)

text \<open>The keys \<open>timeout\<close> and \<open>error\<close> are recorded for failed rows only, so their lists are shorter than the batch.\<close>

lemma timeout_list_misaligned:
  "fold (\<lambda>(_, info). append_info info) [projr (limited_reward msg TimedOut), projr (limited_reward msg (Scored (ScoreNum 1)))] []
    = [(''timeout'', [PBool True]), (''acc'', [PFloat 0, PFloat 1])]"
  by (simp add: limited_reward_def unpack_score_def append_info_def modify_def)

end
