(* ===== verification/WeightTransfer.thy ===== *)
theory WeightTransfer
  imports "HOL-Library.Word" Prelude
begin

section \<open>Weight transfer in buckets\<close>

text \<open>
  \<open>src/verl/checkpoint_engine/nccl_checkpoint_engine.py\<close>: the trainer packs its weights into a bucket
  of \<open>bucket_size\<close> bytes and broadcasts it to the rollout ranks, filling a second bucket meanwhile; a
  rollout rank receives into one of its two buckets while its consumer reads the tensors of the other.
  Buffers are byte lists that are written in place, the metadata of a bucket is a dictionary, and a
  received tensor is a view of the bucket's bytes. The coroutines, the executor thread that runs the
  broadcast and the consumers interleave: \<open>transfer_step\<close> has one rule for each atomic piece between
  two awaits. The broadcast itself (\<open>collective.broadcast\<close> with the metadata sent over ZeroMQ before it)
  is atomic and needs all the ranks; it copies the sender's buffer and metadata as they are at that
  moment, so what the sender writes while it is pending would be seen.
\<close>

subsection \<open>Tensors and their bytes\<close>

type_synonym byte = "8 word"

datatype dtype = Float64 | Int64 | Float32 | Int32 | BFloat16 | Float16 | Int8 | UInt8

fun itemsize :: "dtype \<Rightarrow> nat" where
  "itemsize Float64 = 8"
| "itemsize Int64 = 8"
| "itemsize Float32 = 4"
| "itemsize Int32 = 4"
| "itemsize BFloat16 = 2"
| "itemsize Float16 = 2"
| "itemsize Int8 = 1"
| "itemsize UInt8 = 1"

record weight =
  w_dtype :: dtype
  w_shape :: "nat list"
  w_bytes :: "byte list"

record tensor_meta =
  m_name :: string
  m_shape :: "nat list"
  m_dtype :: dtype
  m_offset :: nat

definition numel :: "nat list \<Rightarrow> nat" where
  "numel shape = prod_list shape"

definition nbytes :: "weight \<Rightarrow> nat" where
  "nbytes w = length (w_bytes w)"

text \<open>A contiguous tensor: its storage is as long as its type and shape say.\<close>

definition wf_weight :: "weight \<Rightarrow> bool" where
  "wf_weight w \<longleftrightarrow> length (w_bytes w) = itemsize (w_dtype w) * numel (w_shape w)"

definition write_at :: "'a list \<Rightarrow> nat \<Rightarrow> 'a list \<Rightarrow> 'a list" where
  "write_at buf i bs = take i buf @ bs @ drop (i + length bs) buf"

text \<open>\<open>buf[offset : offset + size].view(dtype=dtype).view(shape)\<close>: torch refuses to reinterpret the
  bytes when the slice does not start at a multiple of the item size, and to reshape a slice that is
  too short.\<close>

definition tensor_view :: "byte list \<Rightarrow> tensor_meta \<Rightarrow> weight result" where
  "tensor_view buf m = (let size = itemsize (m_dtype m) * numel (m_shape m);
      bytes = slice (m_offset m) (m_offset m + size) buf in
    if m_offset m mod itemsize (m_dtype m) \<noteq> 0 \<or> length bytes \<noteq> size then Inl RuntimeError
    else Inr \<lparr>w_dtype = m_dtype m, w_shape = m_shape m, w_bytes = bytes\<rparr>)"

type_synonym bucket_meta = "(string, tensor_meta) dict"

subsection \<open>The trainer's rank 0\<close>

text \<open>
  The two buffers are named by a boolean; \<open>s_send\<close> is the one the variable \<open>send_buf\<close> refers to. The
  pending broadcast \<open>s_op\<close> keeps the buffer it was created with, its metadata and \<open>is_last\<close>; it is
  \<open>None\<close> once the broadcast has completed.
\<close>

datatype sender_pc = Filling | Posted | Finishing | SendDone | SendFailed

record sender =
  s_pc :: sender_pc
  s_todo :: "(string \<times> weight) list"
  s_bufs :: "bool \<Rightarrow> byte list"
  s_send :: bool
  s_meta :: bucket_meta
  s_offset :: nat
  s_op :: "(bool \<times> bucket_meta \<times> bool) option"

definition sender_init :: "nat \<Rightarrow> (string \<times> weight) list \<Rightarrow> sender" where
  "sender_init bucket_size ws = \<lparr>s_pc = Filling, s_todo = ws, s_bufs = (\<lambda>_. replicate bucket_size 0),
     s_send = True, s_meta = [], s_offset = 0, s_op = None\<rparr>"

text \<open>The bucket cannot take the next weight: broadcast it and swap the buffers.\<close>

definition post_bucket :: "sender \<Rightarrow> sender" where
  "post_bucket s = s\<lparr>s_pc := Posted, s_op := Some (s_send s, s_meta s, False), s_send := \<not> s_send s, s_meta := [], s_offset := 0\<rparr>"

text \<open>Copy the next weight into the bucket and note where it is.\<close>

definition fill_bucket :: "string \<Rightarrow> weight \<Rightarrow> (string \<times> weight) list \<Rightarrow> sender \<Rightarrow> sender" where
  "fill_bucket name w rest s = s\<lparr>s_pc := Filling, s_todo := rest,
     s_bufs := (s_bufs s)(s_send s := write_at (s_bufs s (s_send s)) (s_offset s) (w_bytes w)),
     s_meta := AList.update name
       \<lparr>m_name = name, m_shape = w_shape w, m_dtype = w_dtype w, m_offset = s_offset s\<rparr> (s_meta s),
     s_offset := s_offset s + nbytes w\<rparr>"

definition post_last :: "sender \<Rightarrow> sender" where
  "post_last s = s\<lparr>s_pc := Finishing, s_op := Some (s_send s, s_meta s, True)\<rparr>"

text \<open>
  One atomic piece of the sender: \<open>None\<close> while it waits for the pending broadcast and when it has ended.
  A weight that does not fit makes it wait for the broadcast, post the bucket and go on with the other
  one; if the weight does not fit in the empty bucket either, the assertion fails.
\<close>

definition sender_step :: "nat \<Rightarrow> sender \<Rightarrow> sender option" where
  "sender_step bucket_size s = (case s_pc s of
      Filling \<Rightarrow> (case s_todo s of
          [] \<Rightarrow> if s_op s = None then Some (post_last s) else None
        | (name, w) # rest \<Rightarrow>
            if bucket_size < s_offset s + nbytes w
            then if s_op s = None then Some (post_bucket s) else None
            else Some (fill_bucket name w rest s))
    | Posted \<Rightarrow> (case s_todo s of
          [] \<Rightarrow> None
        | (name, w) # rest \<Rightarrow>
            if bucket_size < s_offset s + nbytes w then Some (s\<lparr>s_pc := SendFailed\<rparr>)
            else Some (fill_bucket name w rest s))
    | Finishing \<Rightarrow> if s_op s = None then Some (s\<lparr>s_pc := SendDone\<rparr>) else None
    | _ \<Rightarrow> None)"

subsection \<open>A rollout rank\<close>

text \<open>
  \<open>r_posted\<close> says that the rank has created its side of the next broadcast, into the buffer that
  \<open>recv_buf\<close> names (the other one than \<open>r_send\<close>); \<open>r_arrived\<close> is the metadata of a completed broadcast
  that the coroutine has not awaited yet. \<open>r_items\<close> are the entries of the current metadata that are
  still to be yielded and \<open>r_out\<close> what the consumer has got.
\<close>

datatype receiver_pc = Waiting | Yielding | RecvDone | RecvFailed

record receiver =
  r_pc :: receiver_pc
  r_bufs :: "bool \<Rightarrow> byte list"
  r_send :: bool
  r_posted :: bool
  r_arrived :: "(bucket_meta \<times> bool) option"
  r_last :: bool
  r_items :: bucket_meta
  r_out :: "(string \<times> weight) list"

definition receiver_init :: "nat \<Rightarrow> receiver" where
  "receiver_init bucket_size = \<lparr>r_pc = Waiting, r_bufs = (\<lambda>_. replicate bucket_size 0), r_send = True,
     r_posted = True, r_arrived = None, r_last = False, r_items = [], r_out = []\<rparr>"

text \<open>The broadcast has completed: swap the buffers and, unless this was the last bucket, post the next
  broadcast before yielding.\<close>

definition take_bucket :: "bucket_meta \<Rightarrow> bool \<Rightarrow> receiver \<Rightarrow> receiver" where
  "take_bucket m fin r = r\<lparr>r_pc := Yielding, r_send := \<not> r_send r, r_posted := \<not> fin, r_arrived := None,
     r_last := fin, r_items := m\<rparr>"

definition receiver_step :: "receiver \<Rightarrow> receiver option" where
  "receiver_step r = (case r_pc r of
      Waiting \<Rightarrow> (case r_arrived r of
          None \<Rightarrow> None
        | Some (m, fin) \<Rightarrow> Some (take_bucket m fin r))
    | Yielding \<Rightarrow> (case r_items r of
          [] \<Rightarrow> Some (r\<lparr>r_pc := (if r_last r then RecvDone else Waiting)\<rparr>)
        | (name, m) # items \<Rightarrow> (case tensor_view (r_bufs r (r_send r)) m of
              Inl e \<Rightarrow> Some (r\<lparr>r_pc := RecvFailed\<rparr>)
            | Inr w \<Rightarrow> Some (r\<lparr>r_items := items, r_out := r_out r @ [(name, w)]\<rparr>)))
    | _ \<Rightarrow> None)"

subsection \<open>The system\<close>

record transfer =
  t_sender :: sender
  t_receivers :: "receiver list"

definition ready :: "receiver \<Rightarrow> bool" where
  "ready r = (r_posted r \<and> r_arrived r = None)"

definition deliver_to :: "byte list \<Rightarrow> bucket_meta \<Rightarrow> bool \<Rightarrow> receiver \<Rightarrow> receiver" where
  "deliver_to buf m fin r = r\<lparr>r_bufs := (r_bufs r)(\<not> r_send r := buf), r_posted := False,
     r_arrived := Some (m, fin)\<rparr>"

text \<open>The broadcast runs in the executor threads of all the ranks, at any moment after each has
  created its operation.\<close>

definition broadcast :: "transfer \<Rightarrow> transfer option" where
  "broadcast t = (case s_op (t_sender t) of
      None \<Rightarrow> None
    | Some (b, m, fin) \<Rightarrow> if list_all ready (t_receivers t)
        then Some (t\<lparr>t_sender := (t_sender t)\<lparr>s_op := None\<rparr>,
          t_receivers := map (deliver_to (s_bufs (t_sender t) b) m fin) (t_receivers t)\<rparr>)
        else None)"

definition transfer_init :: "nat \<Rightarrow> nat \<Rightarrow> (string \<times> weight) list \<Rightarrow> transfer" where
  "transfer_init bucket_size n ws =
     \<lparr>t_sender = sender_init bucket_size ws, t_receivers = replicate n (receiver_init bucket_size)\<rparr>"

inductive transfer_step :: "nat \<Rightarrow> transfer \<Rightarrow> transfer \<Rightarrow> bool" for bucket_size where
  send: "sender_step bucket_size (t_sender t) = Some s \<Longrightarrow> transfer_step bucket_size t (t\<lparr>t_sender := s\<rparr>)"
| deliver: "broadcast t = Some t' \<Longrightarrow> transfer_step bucket_size t t'"
| receive: "i < length (t_receivers t) \<Longrightarrow> receiver_step (t_receivers t ! i) = Some r \<Longrightarrow>
    transfer_step bucket_size t (t\<lparr>t_receivers := (t_receivers t)[i := r]\<rparr>)"

inductive_cases transfer_stepE: "transfer_step bucket_size t t'"

inductive transfer_reachable :: "nat \<Rightarrow> nat \<Rightarrow> (string \<times> weight) list \<Rightarrow> transfer \<Rightarrow> bool"
  for bucket_size n ws where
  start: "transfer_reachable bucket_size n ws (transfer_init bucket_size n ws)"
| next_state: "transfer_reachable bucket_size n ws t \<Longrightarrow> transfer_step bucket_size t t' \<Longrightarrow>
    transfer_reachable bucket_size n ws t'"

text \<open>Everybody has returned.\<close>

definition transfer_done :: "transfer \<Rightarrow> bool" where
  "transfer_done t \<longleftrightarrow> s_pc (t_sender t) = SendDone \<and> list_all (\<lambda>r. r_pc r = RecvDone) (t_receivers t)"

subsection \<open>What the buffers still hold\<close>

text \<open>The tensors a bucket describes, and when its metadata is sound: the slices start aligned and lie
  below \<open>k\<close>.\<close>

definition view_of :: "byte list \<Rightarrow> tensor_meta \<Rightarrow> weight" where
  "view_of buf m = \<lparr>w_dtype = m_dtype m, w_shape = m_shape m,
     w_bytes = slice (m_offset m) (m_offset m + itemsize (m_dtype m) * numel (m_shape m)) buf\<rparr>"

definition sound_meta :: "nat \<Rightarrow> tensor_meta \<Rightarrow> bool" where
  "sound_meta k m \<longleftrightarrow> m_offset m mod itemsize (m_dtype m) = 0 \<and>
     m_offset m + itemsize (m_dtype m) * numel (m_shape m) \<le> k"

definition decode :: "byte list \<Rightarrow> bucket_meta \<Rightarrow> (string \<times> weight) list" where
  "decode buf ms = dict_map (view_of buf) ms"

definition sound_bucket :: "nat \<Rightarrow> bucket_meta \<Rightarrow> bool" where
  "sound_bucket k ms = list_all (\<lambda>(n, m). sound_meta k m) ms"

lemma decode_simps [simp]:
  "decode buf [] = []" "decode buf ((n, m) # ms) = (n, view_of buf m) # decode buf ms"
  "decode buf (ms @ ms') = decode buf ms @ decode buf ms'"
  by (simp_all add: decode_def dict_map_def)

lemma sound_bucket_simps [simp]:
  "sound_bucket k []" "sound_bucket k ((n, m) # ms) \<longleftrightarrow> sound_meta k m \<and> sound_bucket k ms"
  "sound_bucket k (ms @ ms') \<longleftrightarrow> sound_bucket k ms \<and> sound_bucket k ms'"
  by (simp_all add: sound_bucket_def)

lemma sound_bucket_mono: "sound_bucket k ms \<Longrightarrow> k \<le> k' \<Longrightarrow> sound_bucket k' ms"
  by (induction ms) (auto simp: sound_meta_def)

lemma tensor_view_sound: "sound_meta k m \<Longrightarrow> k \<le> length buf \<Longrightarrow> tensor_view buf m = Inr (view_of buf m)"
  by (simp add: tensor_view_def view_of_def sound_meta_def Let_def)

lemma length_write_at [simp]: "i + length bs \<le> length buf \<Longrightarrow> length (write_at buf i bs) = length buf"
  by (simp add: write_at_def)

text \<open>Writing behind the slices of a bucket does not change its tensors.\<close>

lemma decode_write_at: "sound_bucket k ms \<Longrightarrow> k \<le> length buf \<Longrightarrow> decode (write_at buf k bs) ms = decode buf ms"
  by (induction ms) (auto simp: sound_meta_def view_of_def slice_def write_at_def)

lemma view_write_at:
  "wf_weight w \<Longrightarrow> i \<le> length buf \<Longrightarrow>
   view_of (write_at buf i (w_bytes w)) \<lparr>m_name = n, m_shape = w_shape w, m_dtype = w_dtype w, m_offset = i\<rparr> = w"
  by (simp add: view_of_def slice_def write_at_def wf_weight_def)

lemma update_new: "k \<notin> set (keys d) \<Longrightarrow> AList.update k v d = d @ [(k, v)]"
  by (induction d) auto

subsection \<open>The sender\<close>

definition sending :: "sender \<Rightarrow> bool" where
  "sending s \<longleftrightarrow> s_pc s = Filling \<or> s_pc s = Posted"

definition in_flight :: "sender \<Rightarrow> (string \<times> weight) list" where
  "in_flight s = (case s_op s of None \<Rightarrow> [] | Some (b, m, fin) \<Rightarrow> decode (s_bufs s b) m)"

text \<open>What is still to be broadcast, in order.\<close>

definition to_send :: "sender \<Rightarrow> (string \<times> weight) list" where
  "to_send s = in_flight s @ (if sending s then decode (s_bufs s (s_send s)) (s_meta s) @ s_todo s else [])"

text \<open>The weights that can be sent: contiguous, no larger than a bucket, all of one item size.\<close>

definition sendable :: "nat \<Rightarrow> nat \<Rightarrow> (string \<times> weight) list \<Rightarrow> bool" where
  "sendable bucket_size k ws \<longleftrightarrow>
     list_all (\<lambda>(n, w). wf_weight w \<and> nbytes w \<le> bucket_size \<and> itemsize (w_dtype w) = k) ws"

definition sender_inv :: "nat \<Rightarrow> nat \<Rightarrow> sender \<Rightarrow> bool" where
  "sender_inv bucket_size k s \<longleftrightarrow> (\<forall>b. length (s_bufs s b) = bucket_size) \<and> sendable bucket_size k (s_todo s) \<and>
     distinct (keys (s_meta s) @ keys (s_todo s)) \<and> s_pc s \<noteq> SendFailed \<and>
     (case s_op s of None \<Rightarrow> True
      | Some (b, m, fin) \<Rightarrow> sound_bucket bucket_size m \<and> fin = (s_pc s = Finishing) \<and> (sending s \<longrightarrow> b = (\<not> s_send s))) \<and>
     (sending s \<longrightarrow> sound_bucket (s_offset s) (s_meta s) \<and> s_offset s \<le> bucket_size \<and> s_offset s mod k = 0) \<and>
     (s_pc s = Posted \<longrightarrow> s_meta s = [] \<and> s_offset s = 0 \<and> s_todo s \<noteq> []) \<and>
     (s_pc s = SendDone \<longrightarrow> s_op s = None)"

definition all_sent :: "sender \<Rightarrow> bool" where
  "all_sent s \<longleftrightarrow> \<not> sending s \<and> s_op s = None"

lemma sendable_Cons [simp]:
  "sendable b k ((n, w) # ws) \<longleftrightarrow> wf_weight w \<and> nbytes w \<le> b \<and> itemsize (w_dtype w) = k \<and> sendable b k ws"
  by (simp add: sendable_def)

lemma fill_bucket_inv:
  assumes inv: "sender_inv bs k s" and s: "sending s" "s_todo s = (n, w) # rest" "s_offset s + nbytes w \<le> bs"
  shows "sender_inv bs k (fill_bucket n w rest s)" "to_send (fill_bucket n w rest s) = to_send s"
    "\<not> all_sent (fill_bucket n w rest s)"
proof -
  let ?m = "\<lparr>m_name = n, m_shape = w_shape w, m_dtype = w_dtype w, m_offset = s_offset s\<rparr>"
  let ?buf = "s_bufs s (s_send s)" let ?s = "fill_bucket n w rest s"
  have w: "wf_weight w" "itemsize (w_dtype w) = k" using inv s by (auto simp: sender_inv_def)
  have len: "length ?buf = bs" "s_offset s \<le> length ?buf" using inv s by (auto simp: sender_inv_def)
  have sound: "sound_bucket (s_offset s) (s_meta s)" "s_offset s mod k = 0" using inv s by (auto simp: sender_inv_def)
  have new: "n \<notin> set (keys (s_meta s))" using inv s by (auto simp: sender_inv_def)
  have meta: "s_meta ?s = s_meta s @ [(n, ?m)]" by (simp add: fill_bucket_def update_new [OF new])
  have op: "s_op s = Some (b, m, fin) \<Longrightarrow> b = (\<not> s_send s) \<and> \<not> fin" for b m fin
    using inv s by (auto simp: sender_inv_def sending_def)
  have send: "sending ?s" by (simp add: sending_def fill_bucket_def)
  have m: "sound_meta (s_offset s + nbytes w) ?m"
    using w sound by (simp add: sound_meta_def nbytes_def wf_weight_def)
  show "sender_inv bs k ?s"
    using inv s send meta m w sound sound_bucket_mono [OF sound(1), of "s_offset s + nbytes w"] op len
    by (auto simp: sender_inv_def fill_bucket_def update_new [OF new] sending_def nbytes_def wf_weight_def mod_add_eq [symmetric]
        split: option.splits)
  have fl: "in_flight ?s = in_flight s"
    using op by (auto simp: in_flight_def fill_bucket_def split: option.splits)
  have cur: "decode (s_bufs ?s (s_send ?s)) (s_meta ?s) = decode ?buf (s_meta s) @ [(n, w)]"
    using meta decode_write_at [OF sound(1) len(2)] view_write_at [OF w(1) len(2)] by (simp add: fill_bucket_def)
  show "to_send ?s = to_send s" using fl cur send s by (simp add: to_send_def fill_bucket_def)
  show "\<not> all_sent ?s" using send by (simp add: all_sent_def)
qed

lemma sender_step_inv:
  assumes "sender_inv bs k s" "sender_step bs s = Some s'"
  shows "sender_inv bs k s'" "to_send s' = to_send s" "all_sent s' = all_sent s"
proof -
  consider (fill) n w rest where "sending s" "s_todo s = (n, w) # rest" "s_offset s + nbytes w \<le> bs" "s' = fill_bucket n w rest s"
    | (post) "s_pc s = Filling" "s_op s = None" "s_todo s \<noteq> []" "s' = post_bucket s"
    | (fail) n w rest where "s_pc s = Posted" "s_todo s = (n, w) # rest" "bs < s_offset s + nbytes w"
    | (finish) "s_pc s = Filling" "s_todo s = []" "s_op s = None" "s' = post_last s"
    | (ended) "s_pc s = Finishing" "s_op s = None" "s' = s\<lparr>s_pc := SendDone\<rparr>"
    using assms(2) by (auto simp: sender_step_def sending_def split: sender_pc.splits list.splits if_splits prod.splits)
  then have "sender_inv bs k s' \<and> to_send s' = to_send s \<and> all_sent s' = all_sent s"
  proof cases
    case fill
    then show ?thesis using fill_bucket_inv [OF assms(1) fill(1-3)] by (auto simp: all_sent_def)
  next
    case post
    have "sound_bucket bs (s_meta s)"
      using assms(1) post sound_bucket_mono [of "s_offset s" "s_meta s" bs] by (simp add: sender_inv_def sending_def)
    then show ?thesis using assms(1) post
      by (auto simp: sender_inv_def post_bucket_def sending_def to_send_def in_flight_def all_sent_def)
  next
    case fail
    then show ?thesis using assms(1) by (auto simp: sender_inv_def)
  next
    case finish
    have "sound_bucket bs (s_meta s)"
      using assms(1) finish sound_bucket_mono [of "s_offset s" "s_meta s" bs] by (simp add: sender_inv_def sending_def)
    then show ?thesis using assms(1) finish
      by (auto simp: sender_inv_def post_last_def sending_def to_send_def in_flight_def all_sent_def)
  next
    case ended
    then show ?thesis using assms(1)
      by (auto simp: sender_inv_def sending_def to_send_def in_flight_def all_sent_def)
  qed
  then show "sender_inv bs k s'" "to_send s' = to_send s" "all_sent s' = all_sent s" by auto
qed

subsection \<open>A receiver\<close>

definition arrived_items :: "receiver \<Rightarrow> (string \<times> weight) list" where
  "arrived_items r = (case r_arrived r of None \<Rightarrow> [] | Some (m, fin) \<Rightarrow> decode (r_bufs r (\<not> r_send r)) m)"

text \<open>What a receiver holds and has not yielded, in order.\<close>

definition to_yield :: "receiver \<Rightarrow> (string \<times> weight) list" where
  "to_yield r = decode (r_bufs r (r_send r)) (r_items r) @ arrived_items r"

definition saw_last :: "receiver \<Rightarrow> bool" where
  "saw_last r \<longleftrightarrow> r_last r \<or> (\<exists>m. r_arrived r = Some (m, True))"

definition receiver_inv :: "nat \<Rightarrow> receiver \<Rightarrow> bool" where
  "receiver_inv bucket_size r \<longleftrightarrow> (\<forall>b. length (r_bufs r b) = bucket_size) \<and> r_pc r \<noteq> RecvFailed \<and>
     sound_bucket bucket_size (r_items r) \<and> (r_pc r \<noteq> Yielding \<longrightarrow> r_items r = []) \<and>
     (r_posted r \<longrightarrow> r_arrived r = None) \<and>
     (\<not> r_last r \<longrightarrow> r_posted r \<or> r_arrived r \<noteq> None) \<and>
     (r_last r \<longrightarrow> \<not> r_posted r \<and> r_arrived r = None \<and> r_pc r \<noteq> Waiting) \<and>
     (r_pc r = RecvDone \<longrightarrow> r_last r) \<and>
     (case r_arrived r of None \<Rightarrow> True | Some (m, fin) \<Rightarrow> sound_bucket bucket_size m)"

lemma receiver_step_inv:
  assumes inv: "receiver_inv bs r" and step: "receiver_step r = Some r'"
  shows "receiver_inv bs r'" "r_out r' @ to_yield r' = r_out r @ to_yield r" "saw_last r' = saw_last r"
proof -
  consider (arrived) m fin where "r_pc r = Waiting" "r_arrived r = Some (m, fin)" "r' = take_bucket m fin r"
    | (ended) "r_pc r = Yielding" "r_items r = []" "r' = r\<lparr>r_pc := (if r_last r then RecvDone else Waiting)\<rparr>"
    | (yielded) n m items where "r_pc r = Yielding" "r_items r = (n, m) # items"
    using step by (auto simp: receiver_step_def split: receiver_pc.splits list.splits option.splits prod.splits)
  then have "receiver_inv bs r' \<and> r_out r' @ to_yield r' = r_out r @ to_yield r \<and> saw_last r' = saw_last r"
  proof cases
    case arrived
    then show ?thesis using inv
      by (auto simp: receiver_inv_def take_bucket_def to_yield_def arrived_items_def saw_last_def)
  next
    case ended
    then show ?thesis using inv
      by (auto simp: receiver_inv_def to_yield_def arrived_items_def saw_last_def)
  next
    case yielded
    have "tensor_view (r_bufs r (r_send r)) m = Inr (view_of (r_bufs r (r_send r)) m)"
      using inv yielded by (intro tensor_view_sound [of bs]) (auto simp: receiver_inv_def)
    then have "r' = r\<lparr>r_items := items, r_out := r_out r @ [(n, view_of (r_bufs r (r_send r)) m)]\<rparr>"
      using step yielded by (simp add: receiver_step_def)
    then show ?thesis using inv yielded
      by (auto simp: receiver_inv_def to_yield_def arrived_items_def saw_last_def)
  qed
  then show "receiver_inv bs r'" "r_out r' @ to_yield r' = r_out r @ to_yield r" "saw_last r' = saw_last r" by auto
qed

lemma deliver_to_inv:
  assumes "receiver_inv bs r" "ready r" "length buf = bs" "sound_bucket bs m"
  shows "receiver_inv bs (deliver_to buf m fin r)"
    "r_out (deliver_to buf m fin r) @ to_yield (deliver_to buf m fin r) = r_out r @ to_yield r @ decode buf m"
    "saw_last (deliver_to buf m fin r) = fin"
  using assms by (auto simp: receiver_inv_def ready_def deliver_to_def to_yield_def arrived_items_def saw_last_def)

lemma waiting_receiver: "receiver_inv bs r \<Longrightarrow> receiver_step r = None \<Longrightarrow> ready r \<or> r_pc r = RecvDone"
  by (auto simp: receiver_inv_def receiver_step_def ready_def split: receiver_pc.splits list.splits option.splits
      prod.splits sum.splits)

subsection \<open>The system\<close>

text \<open>Each receiver's output, what it holds and what the sender still has make up the weights; a
  receiver has seen \<open>is_last\<close> exactly when the sender has nothing left.\<close>

definition receiver_ok :: "nat \<Rightarrow> (string \<times> weight) list \<Rightarrow> sender \<Rightarrow> receiver \<Rightarrow> bool" where
  "receiver_ok bucket_size ws s r \<longleftrightarrow> receiver_inv bucket_size r \<and> r_out r @ to_yield r @ to_send s = ws \<and>
     saw_last r = all_sent s"

definition transfer_inv :: "nat \<Rightarrow> nat \<Rightarrow> (string \<times> weight) list \<Rightarrow> transfer \<Rightarrow> bool" where
  "transfer_inv bucket_size k ws t \<longleftrightarrow> sender_inv bucket_size k (t_sender t) \<and>
     (\<forall>r \<in> set (t_receivers t). receiver_ok bucket_size ws (t_sender t) r)"

definition transferable :: "nat \<Rightarrow> (string \<times> weight) list \<Rightarrow> bool" where
  "transferable bucket_size ws \<longleftrightarrow> distinct (keys ws) \<and> (\<exists>k. sendable bucket_size k ws)"

lemma transfer_inv_init: "distinct (keys ws) \<Longrightarrow> sendable bs k ws \<Longrightarrow> transfer_inv bs k ws (transfer_init bs n ws)"
  by (auto simp: transfer_inv_def receiver_ok_def transfer_init_def sender_init_def receiver_init_def sender_inv_def
      receiver_inv_def sending_def to_send_def to_yield_def in_flight_def arrived_items_def all_sent_def saw_last_def)

lemma transfer_inv_broadcast:
  assumes inv: "transfer_inv bs k ws t" and step: "broadcast t = Some t'"
  shows "transfer_inv bs k ws t'"
proof -
  let ?s = "t_sender t"
  obtain b m fin where op: "s_op ?s = Some (b, m, fin)" and ready: "list_all ready (t_receivers t)"
    and t': "t' = t\<lparr>t_sender := ?s\<lparr>s_op := None\<rparr>,
          t_receivers := map (deliver_to (s_bufs ?s b) m fin) (t_receivers t)\<rparr>"
    using step by (auto simp: broadcast_def split: option.splits if_splits)
  have s: "sender_inv bs k ?s" using inv by (simp add: transfer_inv_def)
  have buf: "length (s_bufs ?s b) = bs" "sound_bucket bs m" "fin = (s_pc ?s = Finishing)"
    using s op by (auto simp: sender_inv_def)
  have s': "sender_inv bs k (?s\<lparr>s_op := None\<rparr>)"
    using s by (simp add: sender_inv_def sending_def cong: option.case_cong)
  have rest: "to_send ?s = decode (s_bufs ?s b) m @ to_send (?s\<lparr>s_op := None\<rparr>)"
    using op by (simp add: to_send_def in_flight_def sending_def)
  have fin: "all_sent (?s\<lparr>s_op := None\<rparr>) = fin"
    using buf(3) s op by (cases "s_pc ?s") (auto simp: all_sent_def sending_def sender_inv_def)
  have "receiver_ok bs ws (?s\<lparr>s_op := None\<rparr>) (deliver_to (s_bufs ?s b) m fin r)"
    if r: "r \<in> set (t_receivers t)" for r
  proof -
    have "receiver_ok bs ws ?s r" "ready r" using inv ready r by (auto simp: transfer_inv_def list_all_iff)
    then show ?thesis using deliver_to_inv [of bs r "s_bufs ?s b" m fin] buf(1,2) rest fin
      by (auto simp: receiver_ok_def simp flip: append_assoc)
  qed
  then show ?thesis using s' by (auto simp: transfer_inv_def t')
qed

lemma transfer_inv_step:
  assumes "transfer_inv bs k ws t" "transfer_step bs t t'"
  shows "transfer_inv bs k ws t'"
  using assms(2)
proof cases
  case (send s)
  then show ?thesis using assms(1) sender_step_inv [of bs k "t_sender t" s]
    by (auto simp: transfer_inv_def receiver_ok_def)
next
  case deliver
  then show ?thesis using assms(1) transfer_inv_broadcast by blast
next
  case (receive i r)
  have i: "receiver_ok bs ws (t_sender t) (t_receivers t ! i)"
    using assms(1) receive by (auto simp: transfer_inv_def)
  then have "receiver_ok bs ws (t_sender t) r"
    using receive receiver_step_inv [of bs "t_receivers t ! i" r] by (auto simp: receiver_ok_def simp flip: append_assoc)
  then show ?thesis using assms(1) receive by (auto simp: transfer_inv_def dest!: set_update_subset_insert [THEN subsetD])
qed

lemma transfer_inv_reachable:
  "transfer_reachable bs n ws t \<Longrightarrow> distinct (keys ws) \<Longrightarrow> sendable bs k ws \<Longrightarrow> transfer_inv bs k ws t"
  by (induction rule: transfer_reachable.induct) (auto intro: transfer_inv_init transfer_inv_step)

lemma reachable_length: "transfer_reachable bs n ws t \<Longrightarrow> length (t_receivers t) = n"
  by (induction rule: transfer_reachable.induct)
    (auto simp: transfer_init_def broadcast_def elim!: transfer_stepE split: option.splits if_splits)

text \<open>A state without a step is a state in which everybody has returned.\<close>

lemma transfer_progress:
  assumes inv: "transfer_inv bs k ws t" and stuck: "\<nexists>t'. transfer_step bs t t'"
  shows "transfer_done t"
proof -
  have s: "sender_inv bs k (t_sender t)" and r: "\<And>r. r \<in> set (t_receivers t) \<Longrightarrow> receiver_ok bs ws (t_sender t) r"
    using inv by (auto simp: transfer_inv_def)
  have ss: "sender_step bs (t_sender t) = None" using stuck send [of bs t] by (cases "sender_step bs (t_sender t)") auto
  have b: "broadcast t = None" using stuck deliver [of t] by (cases "broadcast t") auto
  have rs: "receiver_step r = None" if "r \<in> set (t_receivers t)" for r
    using stuck that receive [of _ t _ bs] by (cases "receiver_step r") (auto simp: in_set_conv_nth)
  have ready: "ready r \<or> r_pc r = RecvDone" if "r \<in> set (t_receivers t)" for r
    using waiting_receiver [of bs r] r [OF that] rs [OF that] by (auto simp: receiver_ok_def)
  have "s_pc (t_sender t) = SendDone"
  proof (cases "s_op (t_sender t)")
    case None
    then show ?thesis using ss s by (auto simp: sender_step_def sender_inv_def sending_def split: sender_pc.splits list.splits if_splits)
  next
    case (Some op)
    then have "\<not> list_all ready (t_receivers t)" using b by (auto simp: broadcast_def split: prod.splits if_splits)
    then obtain q where q: "q \<in> set (t_receivers t)" "\<not> ready q" by (auto simp: list_all_iff)
    then have "r_pc q = RecvDone" using ready [OF q(1)] by simp
    then show ?thesis using r [OF q(1)] Some by (auto simp: receiver_ok_def receiver_inv_def saw_last_def all_sent_def)
  qed
  moreover have "r_pc q = RecvDone" if q: "q \<in> set (t_receivers t)" for q
  proof (rule ccontr)
    assume "r_pc q \<noteq> RecvDone"
    then have "ready q" using ready [OF q] by simp
    then have "\<not> saw_last q" using r [OF q] by (auto simp: receiver_ok_def receiver_inv_def saw_last_def ready_def)
    moreover have "all_sent (t_sender t)" using \<open>s_pc (t_sender t) = SendDone\<close> s by (auto simp: all_sent_def sending_def sender_inv_def)
    ultimately show False using r [OF q] by (simp add: receiver_ok_def)
  qed
  ultimately show ?thesis by (simp add: transfer_done_def list_all_iff)
qed

lemma transfer_done_out:
  assumes "transfer_inv bs k ws t" "transfer_done t" "r \<in> set (t_receivers t)"
  shows "r_out r = ws"
  using assms by (auto simp: transfer_inv_def transfer_done_def list_all_iff receiver_ok_def receiver_inv_def to_yield_def
      arrived_items_def to_send_def in_flight_def sending_def sender_inv_def)

subsection \<open>Every run ends\<close>

fun pc_rank :: "sender_pc \<Rightarrow> nat" where
  "pc_rank Filling = 3"
| "pc_rank Posted = 2"
| "pc_rank Finishing = 1"
| "pc_rank SendDone = 0"
| "pc_rank SendFailed = 0"

definition receiver_rank :: "receiver \<Rightarrow> nat" where
  "receiver_rank r = (case r_arrived r of None \<Rightarrow> 0 | Some (m, fin) \<Rightarrow> length m + 2) +
     (if r_pc r = Yielding then length (r_items r) + 1 else 0)"

definition transfer_order :: "(transfer \<times> transfer) set" where
  "transfer_order = measures [\<lambda>t. length (s_todo (t_sender t)), \<lambda>t. pc_rank (s_pc (t_sender t)),
     \<lambda>t. if s_op (t_sender t) = None then 0 else 1, \<lambda>t. sum_list (map receiver_rank (t_receivers t))]"

lemma wf_transfer_order: "wf transfer_order"
  by (simp add: transfer_order_def)

lemma receiver_rank_step: "receiver_step r = Some r' \<Longrightarrow> receiver_rank r' < receiver_rank r"
  by (auto simp: receiver_step_def receiver_rank_def take_bucket_def
      split: receiver_pc.splits list.splits option.splits prod.splits sum.splits if_splits)

lemma sum_list_update_less:
  "i < length xs \<Longrightarrow> f y < f (xs ! i) \<Longrightarrow> sum_list (map f (xs[i := y])) < (sum_list (map f xs) :: nat)"
  by (induction xs arbitrary: i) (auto split: nat.splits)

lemma transfer_step_order: "transfer_step bs t t' \<Longrightarrow> (t', t) \<in> transfer_order"
proof (erule transfer_stepE)
  fix s
  assume "t' = t\<lparr>t_sender := s\<rparr>" "sender_step bs (t_sender t) = Some s"
  then show ?thesis
    by (auto simp: transfer_order_def sender_step_def post_bucket_def fill_bucket_def post_last_def
        split: sender_pc.splits list.splits if_splits)
next
  assume "broadcast t = Some t'"
  then show ?thesis by (auto simp: transfer_order_def broadcast_def split: option.splits if_splits)
next
  fix i r
  assume "t' = t\<lparr>t_receivers := (t_receivers t)[i := r]\<rparr>" "i < length (t_receivers t)"
    "receiver_step (t_receivers t ! i) = Some r"
  then show ?thesis using receiver_rank_step sum_list_update_less [of i "t_receivers t" receiver_rank r]
    by (simp add: transfer_order_def)
qed

text \<open>From every reachable state some run leads to a state without steps, and it is reachable.\<close>

lemma transfer_runs_to_end:
  "transfer_reachable bs n ws t \<Longrightarrow>
   \<exists>t'. (transfer_step bs)\<^sup>*\<^sup>* t t' \<and> transfer_reachable bs n ws t' \<and> (\<nexists>u. transfer_step bs t' u)"
proof (induction t rule: wf_induct_rule [OF wf_transfer_order])
  case (1 t)
  show ?case
  proof (cases "\<exists>u. transfer_step bs t u")
    case True
    then obtain u where u: "transfer_step bs t u" by blast
    obtain t' where "(transfer_step bs)\<^sup>*\<^sup>* u t'" "transfer_reachable bs n ws t'" "\<nexists>v. transfer_step bs t' v"
      using 1(1) [OF transfer_step_order [OF u]] next_state [OF 1(2) u] by blast
    then show ?thesis using u by (meson converse_rtranclp_into_rtranclp)
  qed (use 1(2) in auto)
qed

lemma transferableE: "transferable bs ws \<Longrightarrow> (\<And>k. distinct (keys ws) \<Longrightarrow> sendable bs k ws \<Longrightarrow> P) \<Longrightarrow> P"
  by (auto simp: transferable_def)

subsection \<open>The transfer\<close>

text \<open>C2: The rollout ranks get the trainer's weights. For any number of ranks and any interleaving of the
  sender, the broadcasts and the receivers, a reachable state from which nothing can happen is one in
  which all have returned, and every rank has yielded exactly the trainer's weights, in order, bit for
  bit. So no bucket is overwritten while its broadcast is pending or its tensors are read, and no rank
  waits for a broadcast that does not come. Weights have different names, one item size, and fit in a
  bucket each.\<close>

theorem transfer_delivers_weights:
  assumes "transferable bucket_size ws" and "transfer_reachable bucket_size n ws t"
    and "\<nexists>t'. transfer_step bucket_size t t'"
  shows "transfer_done t \<and> map r_out (t_receivers t) = replicate n ws"
proof -
  obtain k where "transfer_inv bucket_size k ws t"
    using assms(1,2) transfer_inv_reachable by (elim transferableE) blast
  then show ?thesis using transfer_progress assms(3) transfer_done_out reachable_length [OF assms(2)]
    by (fastforce intro!: nth_equalityI)
qed

text \<open>C33: The transfer ends. Steps of the system decrease a well-founded order, so no schedule runs
  forever, and from every reachable state a run leads to the state in which all the ranks have the
  weights.\<close>

theorem transfer_always_ends:
  assumes "transferable bucket_size ws" and "transfer_reachable bucket_size n ws t"
  shows "wfp (\<lambda>t' t. transfer_step bucket_size t t') \<and>
    (\<exists>t'. (transfer_step bucket_size)\<^sup>*\<^sup>* t t' \<and> transfer_done t' \<and> map r_out (t_receivers t') = replicate n ws)"
proof
  show "wfp (\<lambda>t' t. transfer_step bucket_size t t')"
    using wf_subset [OF wf_transfer_order] transfer_step_order by (auto simp: wfp_def subset_iff)
  obtain k where inv: "\<And>u. transfer_reachable bucket_size n ws u \<Longrightarrow> transfer_inv bucket_size k ws u"
    using assms(1) transfer_inv_reachable by (elim transferableE) blast
  obtain t' where t': "(transfer_step bucket_size)\<^sup>*\<^sup>* t t'" "transfer_reachable bucket_size n ws t'"
    "\<nexists>u. transfer_step bucket_size t' u"
    using transfer_runs_to_end [OF assms(2)] by blast
  have "transfer_done t'" using transfer_progress [OF inv [OF t'(2)] t'(3)] .
  moreover have "map r_out (t_receivers t') = replicate n ws"
    using transfer_done_out [OF inv [OF t'(2)] \<open>transfer_done t'\<close>] reachable_length [OF t'(2)]
    by (auto intro!: nth_equalityI)
  ultimately show "\<exists>t'. (transfer_step bucket_size)\<^sup>*\<^sup>* t t' \<and> transfer_done t' \<and>
    map r_out (t_receivers t') = replicate n ws" using t'(1) by blast
qed

subsection \<open>A weight larger than a bucket\<close>

text \<open>Once a weight larger than the bucket is in the list, the sender never gets past it, so the last
  bucket is never sent.\<close>

definition stuck_on :: "nat \<Rightarrow> transfer \<Rightarrow> bool" where
  "stuck_on bucket_size t \<longleftrightarrow>
     (list_ex (\<lambda>(n, w). bucket_size < nbytes w) (s_todo (t_sender t))) \<and>
     s_pc (t_sender t) \<notin> {Finishing, SendDone} \<and> (case s_op (t_sender t) of None \<Rightarrow> True | Some (b, m, fin) \<Rightarrow> \<not> fin) \<and>
     (\<forall>r \<in> set (t_receivers t). \<not> saw_last r \<and> r_pc r \<noteq> RecvDone)"

lemma stuck_on_step: "stuck_on bs t \<Longrightarrow> transfer_step bs t t' \<Longrightarrow> stuck_on bs t'"
proof (erule transfer_stepE)
  fix s
  assume "stuck_on bs t" "t' = t\<lparr>t_sender := s\<rparr>" "sender_step bs (t_sender t) = Some s"
  then show ?thesis
    by (auto simp: stuck_on_def sender_step_def post_bucket_def fill_bucket_def post_last_def
        split: sender_pc.splits list.splits if_splits)
next
  assume "stuck_on bs t" "broadcast t = Some t'"
  then show ?thesis
    by (auto simp: stuck_on_def broadcast_def saw_last_def deliver_to_def list_all_iff ready_def split: option.splits if_splits)
next
  fix i r
  assume a: "stuck_on bs t" "t' = t\<lparr>t_receivers := (t_receivers t)[i := r]\<rparr>" "i < length (t_receivers t)"
    "receiver_step (t_receivers t ! i) = Some r"
  have "\<not> saw_last (t_receivers t ! i) \<and> r_pc (t_receivers t ! i) \<noteq> RecvDone" using a by (simp add: stuck_on_def)
  then have "\<not> saw_last r \<and> r_pc r \<noteq> RecvDone" using a(4)
    by (auto simp: receiver_step_def saw_last_def take_bucket_def
        split: receiver_pc.splits list.splits option.splits prod.splits sum.splits)
  then show ?thesis using a by (auto simp: stuck_on_def dest!: set_update_subset_insert [THEN subsetD])
qed

text \<open>C34: A weight larger than the bucket fails the transfer and hangs the rollout ranks. Whatever the
  schedule, no rank ever returns from \<open>receive_weights\<close> and the sender never returns normally: it
  raises at that weight, after the buckets before it, and never posts the broadcast with \<open>is_last\<close> that
  the ranks wait for. The weights before it may have been delivered by then.\<close>

theorem oversized_weight_hangs_receivers:
  assumes "(name, w) \<in> set ws" and "bucket_size < nbytes w" and "transfer_reachable bucket_size n ws t"
  shows "s_pc (t_sender t) \<noteq> SendDone \<and> (\<forall>r \<in> set (t_receivers t). r_pc r \<noteq> RecvDone)"
proof -
  have "stuck_on bucket_size t" using assms(3)
  proof (induction rule: transfer_reachable.induct)
    case start
    then show ?case using assms(1,2)
      by (auto simp: stuck_on_def transfer_init_def sender_init_def receiver_init_def saw_last_def list_ex_iff)
  qed (rule stuck_on_step)
  then show ?thesis by (simp add: stuck_on_def)
qed

subsection \<open>Executing a schedule\<close>

datatype choice = ChooseSend | ChooseBroadcast | ChooseReceive nat

fun run_choice :: "nat \<Rightarrow> choice \<Rightarrow> transfer \<Rightarrow> transfer option" where
  "run_choice bucket_size ChooseSend t =
     map_option (\<lambda>s. t\<lparr>t_sender := s\<rparr>) (sender_step bucket_size (t_sender t))"
| "run_choice bucket_size ChooseBroadcast t = broadcast t"
| "run_choice bucket_size (ChooseReceive i) t = (if i < length (t_receivers t)
     then map_option (\<lambda>r. t\<lparr>t_receivers := (t_receivers t)[i := r]\<rparr>) (receiver_step (t_receivers t ! i)) else None)"

fun run_schedule :: "nat \<Rightarrow> choice list \<Rightarrow> transfer \<Rightarrow> transfer option" where
  "run_schedule bucket_size [] t = Some t"
| "run_schedule bucket_size (c # cs) t = Option.bind (run_choice bucket_size c t) (run_schedule bucket_size cs)"

lemma run_choice_step: "run_choice bs c t = Some t' \<Longrightarrow> transfer_step bs t t'"
  by (cases c) (auto intro: transfer_step.intros split: if_splits)

lemma run_schedule_reachable:
  "run_schedule bs cs t = Some t' \<Longrightarrow> transfer_reachable bs n ws t \<Longrightarrow> transfer_reachable bs n ws t'"
  by (induction cs arbitrary: t) (auto simp: bind_eq_Some_conv dest!: run_choice_step intro: next_state)

text \<open>An int8 scalar before a float32 scalar: the second tensor starts at byte 1, and the rollout rank
  cannot view its bytes as a float32.\<close>

definition mixed_weights :: "(string \<times> weight) list" where
  "mixed_weights = [(''a'', \<lparr>w_dtype = Int8, w_shape = [1], w_bytes = [1]\<rparr>),
     (''b'', \<lparr>w_dtype = Float32, w_shape = [1], w_bytes = [1, 2, 3, 4]\<rparr>)]"

lemma mixed_item_sizes_fail:
  "\<exists>t r. transfer_reachable 8 1 mixed_weights t \<and> t_receivers t = [r] \<and> r_pc r = RecvFailed \<and>
     map fst (r_out r) = [''a'']"
proof -
  obtain t r where t: "run_schedule 8 [ChooseSend, ChooseSend, ChooseSend, ChooseBroadcast, ChooseReceive 0,
      ChooseReceive 0, ChooseReceive 0] (transfer_init 8 1 mixed_weights) = Some t"
      and r: "t_receivers t = [r]" "r_pc r = RecvFailed" "map fst (r_out r) = [''a'']"
    by (simp add: mixed_weights_def transfer_init_def sender_init_def receiver_init_def sender_step_def nbytes_def
        fill_bucket_def post_last_def broadcast_def ready_def deliver_to_def receiver_step_def take_bucket_def
        tensor_view_def numel_def slice_def write_at_def Let_def)
  show ?thesis using run_schedule_reachable [OF t transfer_reachable.start] r by (intro exI conjI)
qed

text \<open>Two buckets for three bfloat16 tensors.\<close>

definition demo_weights :: "(string \<times> weight) list" where
  "demo_weights = [(''wq'', \<lparr>w_dtype = BFloat16, w_shape = [2], w_bytes = [1, 2, 3, 4]\<rparr>),
     (''wk'', \<lparr>w_dtype = BFloat16, w_shape = [1], w_bytes = [5, 6]\<rparr>),
     (''wv'', \<lparr>w_dtype = BFloat16, w_shape = [1, 1], w_bytes = [7, 8]\<rparr>)]"

lemma demo_transferable: "transferable 4 demo_weights"
  by (auto simp: transferable_def demo_weights_def sendable_def wf_weight_def nbytes_def numel_def)

theorem transfer_delivers_weights_witness:
  "\<exists>t. transfer_reachable 4 2 demo_weights t \<and> transfer_done t \<and>
     map r_out (t_receivers t) = [demo_weights, demo_weights]"
proof -
  obtain t where t: "transfer_reachable 4 2 demo_weights t" "\<nexists>t'. transfer_step 4 t t'"
    using transfer_runs_to_end [OF transfer_reachable.start] by blast
  have "transfer_done t \<and> map r_out (t_receivers t) = replicate 2 demo_weights"
    by (rule transfer_delivers_weights [OF demo_transferable t])
  then show ?thesis using t(1) by (auto simp: numeral_2_eq_2)
qed

theorem transfer_always_ends_witness:
  "\<exists>t. (transfer_step 4)\<^sup>*\<^sup>* (transfer_init 4 2 demo_weights) t \<and> transfer_done t"
  using transfer_always_ends [OF demo_transferable transfer_reachable.start [of 4 2]] by blast

theorem oversized_weight_hangs_receivers_witness:
  "s_pc (t_sender (transfer_init 3 2 demo_weights)) \<noteq> SendDone \<and>
   RecvDone \<notin> r_pc ` set (t_receivers (transfer_init 3 2 demo_weights))"
proof -
  have "s_pc (t_sender (transfer_init 3 2 demo_weights)) \<noteq> SendDone \<and>
    (\<forall>r \<in> set (t_receivers (transfer_init 3 2 demo_weights)). r_pc r \<noteq> RecvDone)"
    by (rule oversized_weight_hangs_receivers [OF _ _ transfer_reachable.start [of 3 2 demo_weights],
        of "''wq''" "\<lparr>w_dtype = BFloat16, w_shape = [2], w_bytes = [1, 2, 3, 4]\<rparr>"])
      (simp_all add: demo_weights_def nbytes_def)
  then show ?thesis by auto
qed

end
