(* ===== verification/CheckpointEngine.thy ===== *)
theory CheckpointEngine
  imports Protocol
begin

section \<open>Checkpoint engines and their manager\<close>

text \<open>
  \<open>src/verl/checkpoint_engine\<close>: before the weights are sent, the manager prepares the engines of the
  trainer's and the rollout's workers, has the engine class lay out the ranks, and calls
  \<open>init_process_group\<close> on each worker with its share of the arguments. The workers are remote actors:
  the model has a store of engines indexed by actor handles. What a worker's collective library does is
  outside; of its state the model keeps whether the process has initialised the group. Of the replicas'
  servers it keeps the calls they get, in order.
\<close>

subsection \<open>Topologies\<close>

text \<open>Keyword arguments of the workers: for each name the list of the workers' values.\<close>

datatype 'm kwarg = KInt int | KMethod string | KMeta "'m option"

type_synonym 'm kwargs = "(string, 'm kwarg list) dict"

definition trainer_ranks :: "nat \<Rightarrow> int list" where
  "trainer_ranks t = 0 # replicate (t - 1) (- 1)"

definition nccl_topology :: "nat \<Rightarrow> nat \<Rightarrow> 'm option list \<Rightarrow> ('m kwargs \<times> 'm kwargs) result" where
  "nccl_topology t r metadata = rbind (py_nth metadata 0) (\<lambda>m0. Inr
    ([(''rank'', map KInt (trainer_ranks t)),
      (''world_size'', replicate t (KInt (int r + 1))),
      (''master_metadata'', replicate t (KMeta m0))],
     [(''rank'', map KInt [1..int r]),
      (''world_size'', replicate r (KInt (int r + 1))),
      (''master_metadata'', replicate r (KMeta m0))]))"

definition nixl_topology :: "nat \<Rightarrow> nat \<Rightarrow> 'm list \<Rightarrow> ('m kwargs \<times> 'm kwargs) result" where
  "nixl_topology t r metadata =
    rbind (py_index (length metadata) (- int r)) (\<lambda>i. rbind (py_nth metadata 0) (\<lambda>m0. Inr
    ([(''method'', replicate t (KMethod ''init_process_group'')),
      (''rank'', map KInt (trainer_ranks t)),
      (''world_size'', replicate t (KInt (int r + 1))),
      (''prev_agent_metadata'', replicate t (KMeta None)),
      (''next_agent_metadata'', KMeta (Some (metadata ! i)) # replicate (t - 1) (KMeta None))],
     [(''method'', replicate r (KMethod ''init_process_group'')),
      (''rank'', map KInt [1..int r]),
      (''world_size'', replicate r (KInt (int r + 1))),
      (''prev_agent_metadata'', map (KMeta \<circ> Some) (m0 # py_slice metadata (- int r) (- 1))),
      (''next_agent_metadata'', map (KMeta \<circ> Some) (py_slice_from metadata (- int r + 1)) @ [KMeta None])])))"

definition kimi_topology :: "nat \<Rightarrow> nat \<Rightarrow> 'm option list \<Rightarrow> ('m kwargs \<times> 'm kwargs) result" where
  "kimi_topology t r metadata = rbind (py_nth metadata 0) (\<lambda>m0. Inr
    ([(''method'', replicate t (KMethod ''init_process_group'')),
      (''rank'', map KInt [0..int t - 1]),
      (''trainer_world_size'', replicate t (KInt (int t))),
      (''rollout_world_size'', replicate t (KInt (int r))),
      (''master_metadata'', replicate t (KMeta m0))],
     [(''method'', replicate r (KMethod ''init_process_group'')),
      (''rank'', map KInt [int t..int t + int r - 1]),
      (''trainer_world_size'', replicate r (KInt (int t))),
      (''rollout_world_size'', replicate r (KInt (int r))),
      (''master_metadata'', replicate r (KMeta m0))]))"

text \<open>The manager's assertions, and the dispatch: worker \<open>i\<close> gets the values at position \<open>i\<close>.\<close>

definition check_lengths :: "nat \<Rightarrow> 'm kwargs \<Rightarrow> unit result" where
  "check_lengths n kw = py_assert (list_all (\<lambda>(k, v). length v = n) kw)"

definition set_method :: "nat \<Rightarrow> 'm kwargs \<Rightarrow> 'm kwargs" where
  "set_method n kw = AList.update ''method'' (replicate n (KMethod ''init_process_group'')) kw"

definition worker_kwargs :: "'m kwargs \<Rightarrow> nat \<Rightarrow> (string, 'm kwarg) dict" where
  "worker_kwargs kw i = dict_map (\<lambda>v. v ! i) kw"

definition kw_int :: "(string, 'm kwarg) dict \<Rightarrow> string \<Rightarrow> int result" where
  "kw_int kw k = (case map_of kw k of Some (KInt i) \<Rightarrow> Inr i | _ \<Rightarrow> Inl TypeError)"

definition kw_meta :: "(string, 'm kwarg) dict \<Rightarrow> string \<Rightarrow> 'm option result" where
  "kw_meta kw k = (case map_of kw k of Some (KMeta m) \<Rightarrow> Inr m | _ \<Rightarrow> Inl TypeError)"

text \<open>\<open>NIXLCheckpointEngine.init_process_group\<close>: the assertions on the neighbours; the agent then gets
  its rank and both neighbours.\<close>

record 'm nixl_agent =
  na_rank :: int
  na_world :: int
  na_prev :: "'m option"
  na_next :: "'m option"

definition nixl_init :: "(string, 'm kwarg) dict \<Rightarrow> 'm nixl_agent result" where
  "nixl_init kw = rbind (kw_int kw ''rank'') (\<lambda>rank. rbind (kw_int kw ''world_size'') (\<lambda>world_size.
    rbind (kw_meta kw ''prev_agent_metadata'') (\<lambda>prev. rbind (kw_meta kw ''next_agent_metadata'') (\<lambda>nxt.
    rbind (if rank < 0 then py_assert (prev = None \<and> nxt = None)
           else if rank = 0 then py_assert (prev = None \<and> nxt \<noteq> None)
           else if 0 < rank \<and> rank < world_size - 1 then py_assert (prev \<noteq> None \<and> nxt \<noteq> None)
           else if rank = world_size - 1 then py_assert (prev \<noteq> None \<and> nxt = None)
           else Inr ()) (\<lambda>_.
    Inr \<lparr>na_rank = rank, na_world = world_size, na_prev = prev, na_next = nxt\<rparr>)))))"

text \<open>Laying out, checking and initialising the agents of both sides.\<close>

definition nixl_setup :: "nat \<Rightarrow> nat \<Rightarrow> 'm list \<Rightarrow> ('m nixl_agent list \<times> 'm nixl_agent list) result" where
  "nixl_setup t r metadata = rbind (nixl_topology t r metadata) (\<lambda>(tk, rk).
    rbind (check_lengths t tk) (\<lambda>_. rbind (check_lengths r rk) (\<lambda>_.
    rbind (rmap (\<lambda>i. nixl_init (worker_kwargs (set_method t tk) i)) [0..<t]) (\<lambda>ta.
    rbind (rmap (\<lambda>i. nixl_init (worker_kwargs (set_method r rk) i)) [0..<r]) (\<lambda>ra.
    Inr (ta, ra))))))"

subsection \<open>The NCCL engine\<close>

text \<open>\<open>e_rank\<close> and \<open>e_world\<close> are \<open>None\<close> before they are set and after a finalize that resets them.\<close>

record engine =
  e_master :: bool
  e_rebuild :: bool
  e_group :: bool
  e_rank :: "int option"
  e_world :: "int option"
  e_bufs :: bool

definition nccl_prepare :: "'m \<Rightarrow> engine \<Rightarrow> engine \<times> 'm option" where
  "nccl_prepare addr e = (e\<lparr>e_bufs := True\<rparr>, if e_master e then Some addr else None)"

text \<open>Errors come with the state they leave.\<close>

definition nccl_init :: "int \<Rightarrow> int \<Rightarrow> 'm option \<Rightarrow> engine \<Rightarrow> engine \<times> unit result" where
  "nccl_init rank world_size master e =
    (if rank < 0 then (e\<lparr>e_rank := Some rank, e_world := Some world_size\<rparr>, Inr ())
     else let (e', res) =
        (if e_rebuild e \<or> \<not> e_group e
         then (e\<lparr>e_group := True, e_rank := Some rank, e_world := Some world_size\<rparr>, Inr ())
         else (e, py_assert (e_rank e = Some rank \<and> e_world e = Some world_size)))
      in (e', rbind res (\<lambda>_. if 0 < rank
           then rbind (py_assert (\<not> e_master e)) (\<lambda>_. ensure AttributeError (master \<noteq> None)) else Inr ())))"

definition nccl_init_kwargs :: "(string, 'm kwarg) dict \<Rightarrow> engine \<Rightarrow> engine \<times> unit result" where
  "nccl_init_kwargs kw e =
    (case rbind (kw_int kw ''rank'') (\<lambda>rank. rbind (kw_int kw ''world_size'') (\<lambda>world_size.
        rbind (kw_meta kw ''master_metadata'') (\<lambda>master. Inr (rank, world_size, master)))) of
       Inl err \<Rightarrow> (e, Inl err)
     | Inr (rank, world_size, master) \<Rightarrow> nccl_init rank world_size master e)"

definition nccl_finalize :: "engine \<Rightarrow> engine \<times> unit result" where
  "nccl_finalize e = (if e_rebuild e then
      (case e_rank e of
         None \<Rightarrow> (e, Inl TypeError)
       | Some rank \<Rightarrow> (e\<lparr>e_group := (if 0 \<le> rank then False else e_group e), e_rank := None, e_world := None,
           e_bufs := False\<rparr>, Inr ()))
     else (e\<lparr>e_bufs := False\<rparr>, Inr ()))"

text \<open>The assertion at the head of \<open>send_weights\<close> and of \<open>receive_weights\<close>.\<close>

definition may_send :: "engine \<Rightarrow> unit result" where
  "may_send e = (case e_rank e of None \<Rightarrow> Inl TypeError | Some rank \<Rightarrow> py_assert (rank \<le> 0))"

definition may_receive :: "engine \<Rightarrow> unit result" where
  "may_receive e = (case e_rank e of None \<Rightarrow> Inl TypeError | Some rank \<Rightarrow> py_assert (rank > 0))"

subsection \<open>The manager\<close>

datatype call = Abort nat | Resume nat | Sleep nat

record replica =
  rep_id :: nat
  rep_workers :: "nat list"

record manager =
  mg_backend :: string
  mg_trainer :: "nat list"
  mg_replicas :: "replica list"
  mg_engines :: "nat \<Rightarrow> engine"
  mg_calls :: "call list"

text \<open>A method called on the actors of a list of handles: each changes its own engine; \<open>ray.get\<close> raises
  the first error.\<close>

fun call_all :: "(nat \<times> (engine \<Rightarrow> engine \<times> 'a result)) list \<Rightarrow> (nat \<Rightarrow> engine) \<Rightarrow> (nat \<Rightarrow> engine) \<times> 'a list result" where
  "call_all [] st = (st, Inr [])"
| "call_all ((h, f) # hs) st = (let (e, res) = f (st h); (st', ress) = call_all hs (st(h := e))
     in (st', rbind res (\<lambda>x. rbind ress (\<lambda>xs. Inr (x # xs)))))"

definition rollout_workers :: "replica list \<Rightarrow> nat list" where
  "rollout_workers reps = concat (map rep_workers reps)"

definition build_process_group :: "'m \<Rightarrow> nat list \<Rightarrow> nat list \<Rightarrow> (nat \<Rightarrow> engine) \<Rightarrow> (nat \<Rightarrow> engine) \<times> unit result" where
  "build_process_group addr trainer rollout st =
    (let t = length trainer; r = length rollout;
         (st1, md) = call_all (map (\<lambda>h. (h, \<lambda>e. let (e', m) = nccl_prepare addr e in (e', Inr m))) (trainer @ rollout)) st
     in case rbind md (\<lambda>metadata. rbind (nccl_topology t r metadata) (\<lambda>(tk, rk).
          rbind (check_lengths t tk) (\<lambda>_. rbind (check_lengths r rk) (\<lambda>_. Inr (set_method t tk, set_method r rk))))) of
          Inl err \<Rightarrow> (st1, Inl err)
        | Inr (tk, rk) \<Rightarrow>
            (let (st2, res) = call_all (map (\<lambda>i. (trainer ! i, nccl_init_kwargs (worker_kwargs tk i))) [0..<t]
                @ map (\<lambda>i. (rollout ! i, nccl_init_kwargs (worker_kwargs rk i))) [0..<r]) st1
             in (st2, rbind res (\<lambda>_. Inr ()))))"

definition add_replicas :: "replica list \<Rightarrow> manager \<Rightarrow> manager" where
  "add_replicas reps m = m\<lparr>mg_replicas := mg_replicas m @ reps\<rparr>"

definition remove_replicas :: "replica list \<Rightarrow> manager \<Rightarrow> manager" where
  "remove_replicas reps m = m\<lparr>mg_replicas := filter (\<lambda>r. rep_id r \<notin> set (map rep_id reps)) (mg_replicas m)\<rparr>"

definition call_replicas :: "(nat \<Rightarrow> call) \<Rightarrow> manager \<Rightarrow> manager" where
  "call_replicas f m = m\<lparr>mg_calls := mg_calls m @ map (f \<circ> rep_id) (mg_replicas m)\<rparr>"

definition sleep_replicas :: "manager \<Rightarrow> manager" where
  "sleep_replicas m = (if mg_backend m \<noteq> ''naive'' then m else call_replicas Sleep m)"

text \<open>
  \<open>update_weights\<close> for the NCCL back end. \<open>naive\<close> is the outcome of the trainer's own \<open>update_weights\<close> and
  \<open>transfer\<close> that of sending and receiving once the ranks may do so.
\<close>

definition update_weights :: "'m \<Rightarrow> unit result \<Rightarrow> unit result \<Rightarrow> manager \<Rightarrow> manager \<times> unit result" where
  "update_weights addr naive transfer m =
    (if mg_backend m = ''naive'' then (m, naive) else
     let m1 = call_replicas Abort m; trainer = mg_trainer m1; rollout = rollout_workers (mg_replicas m1);
         (st, res) = build_process_group addr trainer rollout (mg_engines m1); m2 = m1\<lparr>mg_engines := st\<rparr>
     in case rbind res (\<lambda>_. rbind (rmap may_send (map st trainer)) (\<lambda>_.
               rbind (rmap may_receive (map st rollout)) (\<lambda>_. transfer))) of
          Inl err \<Rightarrow> (m2, Inl err)
        | Inr _ \<Rightarrow>
            (let (st', fin) = call_all (map (\<lambda>h. (h, nccl_finalize)) (trainer @ rollout)) st;
                 m3 = m2\<lparr>mg_engines := st'\<rparr>
             in case fin of Inl err \<Rightarrow> (m3, Inl err) | Inr _ \<Rightarrow> (call_replicas Resume m3, Inr ())))"

subsection \<open>Calls on distinct actors\<close>

lemma call_all_eq:
  "distinct (map fst hs) \<Longrightarrow> call_all hs st =
     (\<lambda>h. case map_of hs h of None \<Rightarrow> st h | Some f \<Rightarrow> fst (f (st h)), rmap (\<lambda>(h, f). snd (f (st h))) hs)"
proof (induction hs arbitrary: st)
  case (Cons p hs)
  obtain h f where p: "p = (h, f)" by fastforce
  have h: "h \<notin> fst ` set hs" using Cons.prems p by auto
  have "map_of hs h = None" using h by (simp add: map_of_eq_None_iff)
  obtain e res where e: "f (st h) = (e, res)" by fastforce
  have same: "(st(h := e)) (fst x) = st (fst x)" if "x \<in> set hs" for x using h that by auto
  have r: "rmap (\<lambda>(h', g). snd (g ((st(h := e)) h'))) hs = rmap (\<lambda>(h', g). snd (g (st h'))) hs"
    by (intro rmap_cong refl) (use same in \<open>simp add: case_prod_unfold\<close>)
  have c: "call_all hs (st(h := e)) = (\<lambda>h'. case map_of hs h' of None \<Rightarrow> (st(h := e)) h'
      | Some f \<Rightarrow> fst (f ((st(h := e)) h')), rmap (\<lambda>(h', g). snd (g (st h'))) hs)"
    using Cons.IH [of "st(h := e)"] Cons.prems r by (simp only: list.map distinct.simps)
  show ?case unfolding p call_all.simps e Let_def prod.case c
    by (rule prod_eqI) (auto simp: e fun_eq_iff \<open>map_of hs h = None\<close> split: option.splits)
qed simp

text \<open>The same call with a parameter for each actor.\<close>

lemma call_all_plan:
  assumes "distinct (map fst plan)"
  shows "call_all (map (\<lambda>(h, k). (h, f k)) plan) st =
     (\<lambda>h. case map_of plan h of None \<Rightarrow> st h | Some k \<Rightarrow> fst (f k (st h)), rmap (\<lambda>(h, k). snd (f k (st h))) plan)"
proof -
  have m: "map_of (map (\<lambda>(h, k). (h, f k)) plan) = map_option f \<circ> map_of plan"
    by (induction plan) auto
  have r: "rmap (\<lambda>(h, f). snd (f (st h))) (map (\<lambda>(h, k). (h, f k)) plan) = rmap (\<lambda>(h, k). snd (f k (st h))) plan"
    by (induction plan) auto
  have "distinct (map fst (map (\<lambda>(h, k). (h, f k)) plan))" using assms by (simp add: case_prod_unfold comp_def)
  from call_all_eq [OF this, of st] show ?thesis by (simp add: m r fun_eq_iff split: option.splits)
qed

lemma rmap_Inr_map: "(\<And>x. x \<in> set xs \<Longrightarrow> f x = Inr (g x)) \<Longrightarrow> rmap f xs = Inr (map g xs)"
  by (rule rmap_total)

subsection \<open>The NIXL chain\<close>

lemma length_trainer_ranks [simp]: "0 < t \<Longrightarrow> length (trainer_ranks t) = t"
  by (simp add: trainer_ranks_def)

lemma nth_trainer_ranks: "i < t \<Longrightarrow> trainer_ranks t ! i = (if i = 0 then 0 else - 1)"
  by (auto simp: trainer_ranks_def nth_Cons split: nat.splits)

lemma nth_upto_int: "i < r \<Longrightarrow> [1..int r] ! i = int i + 1"
  by (simp add: nth_upto)

lemma map_of_worker_kwargs [simp]: "map_of (worker_kwargs kw i) k = map_option (\<lambda>v. v ! i) (map_of kw k)"
  by (simp add: worker_kwargs_def)

lemma slices_of_rollout:
  assumes "2 \<le> r" "length md = t + r"
  shows "py_slice md (- int r) (- 1) = slice t (t + r - 1) md" "py_slice_from md (- int r + 1) = drop (t + 1) md"
    "py_index (length md) (- int r) = Inr t"
proof -
  have n: "nat (- (- int r + 1)) = r - 1" by arith
  have neg: "\<not> 0 \<le> - int r" "\<not> 0 \<le> - int r + 1" using assms(1) by auto
  have "clip_bound (t + r) (- int r) = t" "clip_bound (t + r) (- 1) = t + r - 1" "clip_bound (t + r) (- int r + 1) = t + 1"
    using neg assms(1) unfolding clip_bound_def n by auto
  then show "py_slice md (- int r) (- 1) = slice t (t + r - 1) md" "py_slice_from md (- int r + 1) = drop (t + 1) md"
    unfolding py_slice_def py_slice_from_def assms(2) by simp_all
  show "py_index (length md) (- int r) = Inr t" using assms by (auto simp: py_index_def)
qed

definition nixl_prev :: "nat \<Rightarrow> 'm list \<Rightarrow> nat \<Rightarrow> 'm option" where
  "nixl_prev t md i = Some (md ! (if i = 0 then 0 else t + i - 1))"

definition nixl_next :: "nat \<Rightarrow> nat \<Rightarrow> 'm list \<Rightarrow> nat \<Rightarrow> 'm option" where
  "nixl_next t r md i = (if i + 1 < r then Some (md ! (t + i + 1)) else None)"

text \<open>The agents of a chain: trainer rank 0, then the rollout ranks, each knowing its two neighbours.\<close>

definition chain_trainer :: "nat \<Rightarrow> nat \<Rightarrow> 'm list \<Rightarrow> nat \<Rightarrow> 'm nixl_agent" where
  "chain_trainer t r md i = \<lparr>na_rank = (if i = 0 then 0 else - 1), na_world = int r + 1, na_prev = None,
     na_next = (if i = 0 then Some (md ! t) else None)\<rparr>"

definition chain_rollout :: "nat \<Rightarrow> nat \<Rightarrow> 'm list \<Rightarrow> nat \<Rightarrow> 'm nixl_agent" where
  "chain_rollout t r md i = \<lparr>na_rank = int i + 1, na_world = int r + 1, na_prev = nixl_prev t md i,
     na_next = nixl_next t r md i\<rparr>"

text \<open>C32: With at least two rollout workers the NIXL engines are set up as a chain. The argument lists
  have the lengths the manager asserts, no assertion of a worker fails, trainer rank 0 gets rollout worker
  0 as its successor and the other trainer ranks no neighbour, rollout worker \<open>i\<close> gets its predecessor and
  its successor in the list of workers, and the last has no successor.\<close>

theorem nixl_setup_is_chain:
  assumes "1 \<le> t" "2 \<le> r" "length metadata = t + r"
  shows "nixl_setup t r metadata =
    Inr (map (chain_trainer t r metadata) [0..<t], map (chain_rollout t r metadata) [0..<r])"
proof -
  let ?sl = "slice t (t + r - 1) metadata"
  define tk where "tk = [(''method'', replicate t (KMethod ''init_process_group'')), (''rank'', map KInt (trainer_ranks t)),
      (''world_size'', replicate t (KInt (int r + 1))), (''prev_agent_metadata'', replicate t (KMeta None)),
      (''next_agent_metadata'', KMeta (Some (metadata ! t)) # replicate (t - 1) (KMeta None))]"
  define rk where "rk = [(''method'', replicate r (KMethod ''init_process_group'')), (''rank'', map KInt [1..int r]),
      (''world_size'', replicate r (KInt (int r + 1))),
      (''prev_agent_metadata'', map (KMeta \<circ> Some) (metadata ! 0 # ?sl)),
      (''next_agent_metadata'', map (KMeta \<circ> Some) (drop (t + 1) metadata) @ [KMeta None])]"
  have top: "nixl_topology t r metadata = Inr (tk, rk)"
    using slices_of_rollout [OF assms(2,3)] assms by (simp add: nixl_topology_def py_nth_def tk_def rk_def)
  have len: "check_lengths t tk = Inr ()" "check_lengths r rk = Inr ()"
    using assms by (auto simp: check_lengths_def tk_def rk_def)
  have ti: "nixl_init (worker_kwargs (set_method t tk) i) = Inr (chain_trainer t r metadata i)" if "i < t" for i
    using that assms by (cases i)
      (simp_all add: nixl_init_def set_method_def kw_int_def kw_meta_def nth_trainer_ranks chain_trainer_def tk_def)
  have ri: "nixl_init (worker_kwargs (set_method r rk) i) = Inr (chain_rollout t r metadata i)" if i: "i < r" for i
  proof -
    have p: "map (KMeta \<circ> Some) (metadata ! 0 # ?sl) ! i = KMeta (nixl_prev t metadata i)"
      using i assms by (cases i) (auto simp: nixl_prev_def slice_def)
    have n: "(map (KMeta \<circ> Some) (drop (t + 1) metadata) @ [KMeta None]) ! i = KMeta (nixl_next t r metadata i)"
      using i assms by (auto simp: nixl_next_def nth_append algebra_simps)
    have pn: "nixl_prev t metadata i \<noteq> None" "(nixl_next t r metadata i = None) = (i + 1 = r)"
      using i by (auto simp: nixl_prev_def nixl_next_def)
    show ?thesis using i p n pn
      by (auto simp: nixl_init_def set_method_def kw_int_def kw_meta_def nth_upto_int chain_rollout_def rk_def)
  qed
  have "rmap (\<lambda>i. nixl_init (worker_kwargs (set_method t tk) i)) [0..<t] = Inr (map (chain_trainer t r metadata) [0..<t])"
    "rmap (\<lambda>i. nixl_init (worker_kwargs (set_method r rk) i)) [0..<r] = Inr (map (chain_rollout t r metadata) [0..<r])"
    by (auto intro!: rmap_total simp: ti ri)
  then show ?thesis using len by (simp add: nixl_setup_def top)
qed

text \<open>With one rollout worker the slice \<open>metadata[-1 + 1:]\<close> is the whole list, and the manager's length
  assertion fails.\<close>

lemma nixl_single_rollout_fails:
  assumes "1 \<le> t" "length metadata = t + 1"
  shows "nixl_setup t 1 metadata = Inl AssertionError"
  using assms by (auto simp: nixl_setup_def nixl_topology_def py_index_def py_nth_def check_lengths_def py_slice_def
      py_slice_from_def clip_bound_def ensure_def)

theorem nixl_setup_is_chain_witness:
  "nixl_setup 2 3 [10, 11, 12, 13, 14 :: nat] =
    Inr (map (chain_trainer 2 3 [10, 11, 12, 13, 14]) [0..<2], map (chain_rollout 2 3 [10, 11, 12, 13, 14]) [0..<3])"
  by (rule nixl_setup_is_chain) simp_all

subsection \<open>Updates one after the other\<close>

text \<open>The rank of each actor, and the states in which an update can start: trainer rank 0 is the master,
  and an engine that keeps its group has the rank and the size the topology gives it.\<close>

definition rank_plan :: "nat list \<Rightarrow> nat list \<Rightarrow> (nat \<times> int) list" where
  "rank_plan trainer rollout = zip trainer (trainer_ranks (length trainer)) @ zip rollout [1..int (length rollout)]"

definition can_join :: "int \<Rightarrow> int \<Rightarrow> engine \<Rightarrow> bool" where
  "can_join rank world_size e \<longleftrightarrow>
     rank < 0 \<or> e_rebuild e \<or> \<not> e_group e \<or> e_rank e = Some rank \<and> e_world e = Some world_size"

definition fleet_ready :: "nat list \<Rightarrow> nat list \<Rightarrow> (nat \<Rightarrow> engine) \<Rightarrow> bool" where
  "fleet_ready trainer rollout st \<longleftrightarrow> trainer \<noteq> [] \<and> distinct (trainer @ rollout) \<and>
     (\<forall>h \<in> set (trainer @ rollout). e_master (st h) = (h = hd trainer)) \<and>
     (\<forall>(h, k) \<in> set (rank_plan trainer rollout). can_join k (int (length rollout) + 1) (st h))"

definition joined :: "int \<Rightarrow> int \<Rightarrow> engine \<Rightarrow> engine" where
  "joined rank world_size e = e\<lparr>e_bufs := True, e_rank := Some rank, e_world := Some world_size,
     e_group := (e_group e \<or> 0 \<le> rank)\<rparr>"

lemma map_fst_rank_plan: "trainer \<noteq> [] \<Longrightarrow> map fst (rank_plan trainer rollout) = trainer @ rollout"
  by (simp add: rank_plan_def)

lemma rank_plan_ranks:
  assumes "trainer \<noteq> []" "distinct (trainer @ rollout)" "(h, k) \<in> set (rank_plan trainer rollout)"
  shows "h \<in> set trainer \<Longrightarrow> k \<le> 0" "h \<in> set rollout \<Longrightarrow> 0 < k" "0 < k \<Longrightarrow> h \<noteq> hd trainer" "k = 0 \<Longrightarrow> h = hd trainer"
proof -
  consider i where "i < length trainer" "h = trainer ! i" "k = (if i = 0 then 0 else - 1)"
    | i where "i < length rollout" "h = rollout ! i" "k = int i + 1"
    using assms(3) by (auto simp: rank_plan_def set_zip nth_trainer_ranks nth_upto_int)
  then have "(h \<in> set trainer \<longrightarrow> k \<le> 0) \<and> (h \<in> set rollout \<longrightarrow> 0 < k) \<and> (0 < k \<longrightarrow> h \<noteq> hd trainer) \<and> (k = 0 \<longrightarrow> h = hd trainer)"
  proof cases
    case 1
    then have h: "h \<in> set trainer" by auto
    then have "h \<notin> set rollout" using assms(2) by auto
    then show ?thesis using 1 assms(1) by (auto simp: hd_conv_nth)
  next
    case 2
    then have h: "h \<in> set rollout" by auto
    then have n: "h \<notin> set trainer" using assms(2) by auto
    then have "h \<noteq> hd trainer" using assms(1) by auto
    then show ?thesis using n 2(3) by auto
  qed
  then show "h \<in> set trainer \<Longrightarrow> k \<le> 0" "h \<in> set rollout \<Longrightarrow> 0 < k" "0 < k \<Longrightarrow> h \<noteq> hd trainer" "k = 0 \<Longrightarrow> h = hd trainer"
    by auto
qed

lemma nccl_init_joins:
  assumes "can_join rank w e" "0 < rank \<Longrightarrow> \<not> e_master e"
  shows "nccl_init rank w (Some addr) (e\<lparr>e_bufs := True\<rparr>) = (joined rank w e, Inr ())"
proof (cases "rank < 0 \<or> e_rebuild e \<or> \<not> e_group e")
  case False
  then have e: "e_rank e = Some rank" "e_world e = Some w" "e_group e" "0 \<le> rank"
    using assms(1) by (auto simp: can_join_def)
  have "joined rank w e = e\<lparr>e_bufs := True\<rparr>" using e by (simp add: joined_def)
  then show ?thesis using False e assms(2) by (auto simp: nccl_init_def)
qed (use assms(2) in \<open>auto simp: nccl_init_def joined_def\<close>)

lemma nccl_kwargs:
  "i < length ranks \<Longrightarrow> length ranks = n \<Longrightarrow>
   nccl_init_kwargs (worker_kwargs (set_method n [(''rank'', map KInt ranks), (''world_size'', replicate n (KInt w)),
     (''master_metadata'', replicate n (KMeta m))]) i) = nccl_init (ranks ! i) w m"
  by (simp add: nccl_init_kwargs_def [abs_def] set_method_def kw_int_def kw_meta_def fun_eq_iff)

lemma map_zip_nth:
  "length ks = length hs \<Longrightarrow> map (\<lambda>i. (hs ! i, g i)) [0..<length hs] = map (\<lambda>(h, k). (h, f k)) (zip hs ks)"
  if "\<And>i. i < length hs \<Longrightarrow> g i = f (ks ! i)"
  using that by (auto intro!: nth_equalityI)

lemma map_of_units: "map_of (map (\<lambda>h. (h, ())) hs) h = (if h \<in> set hs then Some () else None)"
  by (induction hs) auto

text \<open>What building the group amounts to: prepare all, then join with the ranks of the plan.\<close>

lemma build_process_group_eq:
  assumes "trainer \<noteq> []" "distinct (trainer @ rollout)" "e_master (st (hd trainer))"
  defines "st1 \<equiv> \<lambda>h. if h \<in> set (trainer @ rollout) then (st h)\<lparr>e_bufs := True\<rparr> else st h"
  shows "build_process_group addr trainer rollout st =
    (let (st2, res) = call_all (map (\<lambda>(h, k). (h, nccl_init k (int (length rollout) + 1) (Some addr)))
        (rank_plan trainer rollout)) st1 in (st2, rbind res (\<lambda>_. Inr ())))"
proof -
  let ?t = "length trainer" let ?r = "length rollout" let ?hs = "trainer @ rollout"
  let ?tk = "[(''rank'', map KInt (trainer_ranks ?t)), (''world_size'', replicate ?t (KInt (int ?r + 1))),
      (''master_metadata'', replicate ?t (KMeta (Some addr)))]"
  let ?rk = "[(''rank'', map KInt [1..int ?r]), (''world_size'', replicate ?r (KInt (int ?r + 1))),
      (''master_metadata'', replicate ?r (KMeta (Some addr)))]"
  define md where "md = map (\<lambda>h. if e_master (st h) then Some addr else None) ?hs"
  have prep: "call_all (map (\<lambda>h. (h, \<lambda>e. let (e', m) = nccl_prepare addr e in (e', Inr m))) ?hs) st = (st1, Inr md)"
  proof -
    have m: "map_of (map (\<lambda>h. (h, ())) ?hs) h = (if h \<in> set ?hs then Some () else None)" for h
      by (rule map_of_units)
    have d: "distinct (map fst (map (\<lambda>h. (h, ())) ?hs))" using assms(2) by (simp add: comp_def)
    have s: "map (\<lambda>h. (h, \<lambda>e. let (e', m) = nccl_prepare addr e in (e', Inr m))) ?hs =
      map (\<lambda>(h, k). (h, (\<lambda>_. \<lambda>e. let (e', m) = nccl_prepare addr e in (e', Inr m)) k)) (map (\<lambda>h. (h, ())) ?hs)"
      by simp
    have r: "rmap (\<lambda>(h, k). Inr (if e_master (st h) then Some addr else None)) (map (\<lambda>h. (h, ())) ?hs) =
      Inr (map (\<lambda>h. if e_master (st h) then Some addr else None) ?hs)" for hs :: "nat list"
      by (subst rmap_total [where g = "\<lambda>(h, k). if e_master (st h) then Some addr else None"]) (auto simp: comp_def)
    show ?thesis unfolding s call_all_plan [OF d] m using r
      by (auto simp: md_def nccl_prepare_def st1_def fun_eq_iff case_prod_unfold Let_def)
  qed
  have m0: "py_nth md 0 = Inr (Some addr)" using assms(1,3) by (cases trainer) (auto simp: md_def py_nth_def)
  have top: "rbind (Inr md) (\<lambda>metadata. rbind (nccl_topology ?t ?r metadata) (\<lambda>(tk, rk).
      rbind (check_lengths ?t tk) (\<lambda>_. rbind (check_lengths ?r rk) (\<lambda>_. Inr (set_method ?t tk, set_method ?r rk))))) =
    Inr (set_method ?t ?tk, set_method ?r ?rk)"
    using assms(1) by (simp add: nccl_topology_def m0 check_lengths_def)
  have plan: "map (\<lambda>i. (trainer ! i, nccl_init_kwargs (worker_kwargs (set_method ?t ?tk) i))) [0..<?t]
      @ map (\<lambda>i. (rollout ! i, nccl_init_kwargs (worker_kwargs (set_method ?r ?rk) i))) [0..<?r] =
    map (\<lambda>(h, k). (h, nccl_init k (int ?r + 1) (Some addr))) (rank_plan trainer rollout)"
    unfolding rank_plan_def map_append using assms(1)
    by (intro arg_cong2 [where f = append] map_zip_nth nccl_kwargs) auto
  show ?thesis unfolding build_process_group_def Let_def prep [unfolded Let_def] prod.case top sum.case plan ..
qed

definition planned :: "(nat \<times> int) list \<Rightarrow> (int \<Rightarrow> engine \<Rightarrow> engine) \<Rightarrow> (nat \<Rightarrow> engine) \<Rightarrow> nat \<Rightarrow> engine" where
  "planned plan f st = (\<lambda>h. case map_of plan h of None \<Rightarrow> st h | Some k \<Rightarrow> f k (st h))"

lemma planned_None: "trainer \<noteq> [] \<Longrightarrow> map_of (rank_plan trainer rollout) h = None \<longleftrightarrow> h \<notin> set (trainer @ rollout)"
  by (simp add: map_of_eq_None_iff map_fst_rank_plan [symmetric] del: set_append)

lemma build_process_group_joins:
  assumes "fleet_ready trainer rollout st"
  shows "build_process_group addr trainer rollout st =
    (planned (rank_plan trainer rollout) (\<lambda>k. joined k (int (length rollout) + 1)) st, Inr ())"
proof -
  let ?plan = "rank_plan trainer rollout" let ?w = "int (length rollout) + 1"
  let ?st1 = "\<lambda>h. if h \<in> set (trainer @ rollout) then (st h)\<lparr>e_bufs := True\<rparr> else st h"
  have f: "trainer \<noteq> []" "distinct (trainer @ rollout)" "e_master (st (hd trainer))"
    and join: "\<And>h k. (h, k) \<in> set ?plan \<Longrightarrow> can_join k ?w (st h)"
    and master: "\<And>h. h \<in> set (trainer @ rollout) \<Longrightarrow> e_master (st h) = (h = hd trainer)"
    using assms by (auto simp: fleet_ready_def)
  have d: "distinct (map fst ?plan)" using f(1,2) map_fst_rank_plan [of trainer rollout] by (simp del: distinct_append)
  have i: "nccl_init k ?w (Some addr) (?st1 h) = (joined k ?w (st h), Inr ())" if hk: "(h, k) \<in> set ?plan" for h k
  proof -
    have h: "h \<in> set (trainer @ rollout)"
      using hk map_fst_rank_plan [OF f(1), of rollout] by (metis fst_conv image_eqI list.set_map)
    then have "0 < k \<Longrightarrow> \<not> e_master (st h)" using rank_plan_ranks(3) [OF f(1,2) hk] master by simp
    then show ?thesis using nccl_init_joins [OF join [OF hk]] h by simp
  qed
  have r: "rmap (\<lambda>(h, k). snd (nccl_init k ?w (Some addr) (?st1 h))) ?plan = Inr (map (\<lambda>_. ()) ?plan)"
    using i by (intro rmap_total) auto
  have s: "(\<lambda>h. case map_of ?plan h of None \<Rightarrow> ?st1 h | Some k \<Rightarrow> fst (nccl_init k ?w (Some addr) (?st1 h))) =
    planned ?plan (\<lambda>k. joined k ?w) st"
  proof
    fix h
    show "(case map_of ?plan h of None \<Rightarrow> ?st1 h | Some k \<Rightarrow> fst (nccl_init k ?w (Some addr) (?st1 h))) =
      planned ?plan (\<lambda>k. joined k ?w) st h"
      using planned_None [OF f(1), of rollout h] i [OF map_of_SomeD, of h]
      by (cases "map_of ?plan h") (auto simp: planned_def)
  qed
  show ?thesis unfolding build_process_group_eq [of trainer rollout st, OF f] call_all_plan [OF d] r s by simp
qed

text \<open>A finalized engine: without \<open>rebuild_group\<close> it keeps its group.\<close>

definition finalized :: "int \<Rightarrow> int \<Rightarrow> engine \<Rightarrow> engine" where
  "finalized rank world_size e = fst (nccl_finalize (joined rank world_size e))"

lemma finalized_simps:
  "e_master (finalized k w e) = e_master e" "e_rebuild (finalized k w e) = e_rebuild e" "can_join k w (finalized k w e)"
  "\<not> e_rebuild e \<Longrightarrow> 0 \<le> k \<Longrightarrow> e_group (finalized k w e) \<and> e_rank (finalized k w e) = Some k \<and> e_world (finalized k w e) = Some w"
  by (auto simp: finalized_def nccl_finalize_def joined_def can_join_def)

lemma call_all_finalize:
  assumes "trainer \<noteq> []" "distinct (trainer @ rollout)"
  shows "\<exists>xs. call_all (map (\<lambda>h. (h, nccl_finalize)) (trainer @ rollout))
      (planned (rank_plan trainer rollout) (\<lambda>k. joined k w) st) =
    (planned (rank_plan trainer rollout) (\<lambda>k. finalized k w) st, Inr xs)"
proof -
  let ?plan = "rank_plan trainer rollout" let ?st = "planned ?plan (\<lambda>k. joined k w) st"
  have d: "distinct (map fst ?plan)" using assms map_fst_rank_plan [of trainer rollout] by (simp del: distinct_append)
  have e: "map (\<lambda>h. (h, nccl_finalize)) (trainer @ rollout) = map (\<lambda>(h, k). (h, (\<lambda>_ :: int. nccl_finalize) k)) ?plan"
    unfolding map_fst_rank_plan [OF assms(1), symmetric] by (simp add: case_prod_unfold comp_def)
  have r: "rmap (\<lambda>(h, k). snd (nccl_finalize (?st h))) ?plan = Inr (map (\<lambda>_. ()) ?plan)"
  proof (rule rmap_total)
    fix x assume x: "x \<in> set ?plan"
    then have "map_of ?plan (fst x) = Some (snd x)" using d by (cases x) (auto intro: map_of_is_SomeI)
    then show "(\<lambda>(h, k). snd (nccl_finalize (?st h))) x = Inr ()"
      by (cases x) (simp add: planned_def nccl_finalize_def joined_def)
  qed
  have s: "(\<lambda>h. case map_of ?plan h of None \<Rightarrow> ?st h | Some k \<Rightarrow> fst (nccl_finalize (?st h))) =
    planned ?plan (\<lambda>k. finalized k w) st"
    by (auto simp: planned_def finalized_def fun_eq_iff split: option.splits)
  show ?thesis unfolding e call_all_plan [OF d] r s by blast
qed

lemma fleet_ready_finalized:
  assumes "fleet_ready trainer rollout st"
  shows "fleet_ready trainer rollout (planned (rank_plan trainer rollout) (\<lambda>k. finalized k (int (length rollout) + 1)) st)"
proof -
  let ?plan = "rank_plan trainer rollout" let ?w = "int (length rollout) + 1"
  have f: "trainer \<noteq> []" "distinct (trainer @ rollout)"
    and master: "\<And>h. h \<in> set (trainer @ rollout) \<Longrightarrow> e_master (st h) = (h = hd trainer)"
    using assms by (auto simp: fleet_ready_def)
  have d: "distinct (map fst ?plan)" using f map_fst_rank_plan [of trainer rollout] by (simp del: distinct_append)
  have "e_master (planned ?plan (\<lambda>k. finalized k ?w) st h) = e_master (st h)" for h
    by (simp add: planned_def finalized_simps split: option.splits)
  moreover have "can_join k ?w (planned ?plan (\<lambda>k. finalized k ?w) st h)" if "(h, k) \<in> set ?plan" for h k
    using map_of_is_SomeI [OF d that] by (simp add: planned_def finalized_simps)
  ultimately show ?thesis using f master by (auto simp: fleet_ready_def)
qed

lemma may_send_receive:
  assumes "trainer \<noteq> []" "distinct (trainer @ rollout)" "st = planned (rank_plan trainer rollout) (\<lambda>k. joined k w) st0"
  shows "\<exists>xs. rmap may_send (map st trainer) = Inr xs" "\<exists>xs. rmap may_receive (map st rollout) = Inr xs"
proof -
  let ?plan = "rank_plan trainer rollout"
  have rank: "\<exists>k. e_rank (st h) = Some k \<and> (h, k) \<in> set ?plan" if "h \<in> set (trainer @ rollout)" for h
    using planned_None [OF assms(1), of rollout h] that
    by (cases "map_of ?plan h") (auto simp: assms(3) planned_def joined_def dest: map_of_SomeD)
  have "may_send (st h) = Inr ()" if h: "h \<in> set trainer" for h
    using rank [of h] rank_plan_ranks(1) [OF assms(1,2) _ h] h by (auto simp: may_send_def)
  then show "\<exists>xs. rmap may_send (map st trainer) = Inr xs"
    using rmap_total [of "map st trainer" may_send "\<lambda>_. ()"] by auto
  have "may_receive (st h) = Inr ()" if h: "h \<in> set rollout" for h
    using rank [of h] rank_plan_ranks(2) [OF assms(1,2) _ h] h by (auto simp: may_receive_def)
  then show "\<exists>xs. rmap may_receive (map st rollout) = Inr xs"
    using rmap_total [of "map st rollout" may_receive "\<lambda>_. ()"] by auto
qed

definition manager_ready :: "manager \<Rightarrow> bool" where
  "manager_ready m \<longleftrightarrow> mg_backend m \<noteq> ''naive'' \<and>
     fleet_ready (mg_trainer m) (rollout_workers (mg_replicas m)) (mg_engines m)"

definition replica_calls :: "(nat \<Rightarrow> call) \<Rightarrow> manager \<Rightarrow> call list" where
  "replica_calls f m = map (f \<circ> rep_id) (mg_replicas m)"

lemma call_replicas_simps [simp]:
  "mg_trainer (call_replicas f m) = mg_trainer m" "mg_replicas (call_replicas f m) = mg_replicas m"
  "mg_engines (call_replicas f m) = mg_engines m" "mg_backend (call_replicas f m) = mg_backend m"
  "mg_calls (call_replicas f m) = mg_calls m @ replica_calls f m"
  by (simp_all add: call_replicas_def replica_calls_def)

lemma update_weights_result:
  assumes "manager_ready m"
  defines "rollout \<equiv> rollout_workers (mg_replicas m)"
  shows "update_weights addr naive (Inr ()) m = (m\<lparr>mg_calls := mg_calls m @ replica_calls Abort m @ replica_calls Resume m,
      mg_engines := planned (rank_plan (mg_trainer m) rollout) (\<lambda>k. finalized k (int (length rollout) + 1)) (mg_engines m)\<rparr>, Inr ())"
proof -
  let ?t = "mg_trainer m" let ?w = "int (length rollout) + 1"
  let ?st = "planned (rank_plan ?t rollout) (\<lambda>k. joined k ?w) (mg_engines m)"
  have ready: "fleet_ready ?t rollout (mg_engines m)" and nv: "mg_backend m \<noteq> ''naive''"
    using assms(1) by (simp_all add: manager_ready_def rollout_def)
  have f: "?t \<noteq> []" "distinct (?t @ rollout)" using ready by (auto simp: fleet_ready_def)
  obtain xs where xs: "rmap may_send (map ?st ?t) = Inr xs" using may_send_receive(1) [OF f refl] by blast
  obtain ys where ys: "rmap may_receive (map ?st rollout) = Inr ys" using may_send_receive(2) [OF f refl] by blast
  obtain zs where zs: "call_all (map (\<lambda>h. (h, nccl_finalize)) (?t @ rollout)) ?st =
    (planned (rank_plan ?t rollout) (\<lambda>k. finalized k ?w) (mg_engines m), Inr zs)"
    using call_all_finalize [OF f] by blast
  note b = build_process_group_joins [OF ready, of addr]
  show ?thesis using nv
    by (simp add: update_weights_def rollout_def [symmetric] b xs ys zs [simplified] Let_def call_replicas_def replica_calls_def)
qed

text \<open>C30: Weights can be updated again and again. From a state in which trainer rank 0 is the master and
  every engine that keeps its group knows its rank and the size, \<open>update_weights\<close> of the NCCL back end
  passes all its assertions: the argument lists have the right lengths, no rank disagrees with the group it
  kept, only rank 0 of the trainer and no rollout rank sends. It aborts the requests of every replica,
  resumes them in the end, and leaves a state of the same kind, whether the engines rebuild their groups or
  keep them.\<close>

theorem update_weights_repeatable:
  assumes "manager_ready m"
  shows "\<exists>m'. update_weights addr naive (Inr ()) m = (m', Inr ()) \<and> manager_ready m' \<and>
    mg_replicas m' = mg_replicas m \<and> mg_trainer m' = mg_trainer m \<and>
    mg_calls m' = mg_calls m @ replica_calls Abort m @ replica_calls Resume m"
  using update_weights_result [OF assms, of addr naive] assms fleet_ready_finalized
  by (simp add: manager_ready_def)

subsection \<open>Scaling up\<close>

text \<open>Trainer rank 0 kept its group with another size: it refuses, and the update stops after the aborts.\<close>

lemma stale_group_refused:
  assumes "mg_backend m \<noteq> ''naive''" "mg_trainer m = h # hs" "distinct (mg_trainer m @ rollout_workers (mg_replicas m))"
    and e: "e_master (mg_engines m h)" "\<not> e_rebuild (mg_engines m h)" "e_group (mg_engines m h)"
    and w: "e_world (mg_engines m h) \<noteq> Some (int (length (rollout_workers (mg_replicas m))) + 1)"
  shows "\<exists>m'. update_weights addr naive transfer m = (m', Inl AssertionError) \<and>
    mg_calls m' = mg_calls m @ replica_calls Abort m"
proof -
  let ?r = "rollout_workers (mg_replicas m)" let ?w = "int (length ?r) + 1"
  let ?plan = "rank_plan (mg_trainer m) ?r"
  let ?st1 = "\<lambda>q. if q \<in> set (mg_trainer m @ ?r) then (mg_engines m q)\<lparr>e_bufs := True\<rparr> else mg_engines m q"
  have f: "mg_trainer m \<noteq> []" using assms(2) by simp
  have d: "distinct (map fst ?plan)" using assms(3) map_fst_rank_plan [OF f, of ?r] by (simp del: distinct_append)
  have "nccl_init 0 ?w (Some addr) (?st1 h) = (?st1 h, Inl AssertionError)"
    using e w assms(2) by (simp add: nccl_init_def ensure_def)
  moreover obtain rest where "?plan = (h, 0) # rest" using assms(2) by (simp add: rank_plan_def trainer_ranks_def)
  ultimately have r: "rmap (\<lambda>(q, k). snd (nccl_init k ?w (Some addr) (?st1 q))) ?plan = Inl AssertionError"
    by simp
  have m: "e_master (mg_engines m (hd (mg_trainer m)))" using e(1) assms(2) by simp
  obtain st where "build_process_group addr (mg_trainer m) ?r (mg_engines m) = (st, Inl AssertionError)"
    unfolding build_process_group_eq [of "mg_trainer m" ?r "mg_engines m", OF f assms(3) m] call_all_plan [OF d] r by simp
  then show ?thesis using assms(1) by (simp add: update_weights_def Let_def)
qed

lemma fleet_ready_grow:
  assumes "fleet_ready trainer rollout st" "set extra \<inter> set (trainer @ rollout) = {}" "distinct extra"
    and "\<And>h. h \<in> set (trainer @ rollout @ extra) \<Longrightarrow> e_rebuild (st h)" "\<And>h. h \<in> set extra \<Longrightarrow> \<not> e_master (st h)"
  shows "fleet_ready trainer (rollout @ extra) st"
proof -
  have f: "trainer \<noteq> []" using assms(1) by (simp add: fleet_ready_def)
  have "e_rebuild (st q)" if "(q, k) \<in> set (rank_plan trainer (rollout @ extra))" for q k
    using that map_fst_rank_plan [OF f, of "rollout @ extra"] assms(4) by (metis fst_conv image_eqI list.set_map)
  then have "can_join k w (st q)" if "(q, k) \<in> set (rank_plan trainer (rollout @ extra))" for q k w
    using that by (auto simp: can_join_def)
  moreover have "hd trainer \<notin> set extra" using assms(2) f by auto
  ultimately show ?thesis using assms(1,2,3,5) by (auto simp: fleet_ready_def)
qed

text \<open>C31: Elastic scale up needs \<open>rebuild_group\<close>. After an update, replicas with new workers are added. If all
  engines rebuild their groups the manager is ready for the next update. If trainer rank 0 keeps its group,
  the next update fails with the assertion on the group's size, and the replicas it aborted are never
  resumed.\<close>

theorem scale_up_needs_rebuild:
  assumes "manager_ready m" and "update_weights addr naive (Inr ()) m = (m1, Inr ())"
    and "rollout_workers reps \<noteq> []" "distinct (rollout_workers reps)"
    and "set (rollout_workers reps) \<inter> set (mg_trainer m @ rollout_workers (mg_replicas m)) = {}"
    and "\<And>h. h \<in> set (rollout_workers reps) \<Longrightarrow> \<not> e_master (mg_engines m h)"
  shows "((\<forall>h \<in> set (mg_trainer m @ rollout_workers (mg_replicas m) @ rollout_workers reps). e_rebuild (mg_engines m h)) \<longrightarrow>
      manager_ready (add_replicas reps m1)) \<and>
    (\<not> e_rebuild (mg_engines m (hd (mg_trainer m))) \<longrightarrow>
      (\<exists>m2. update_weights addr naive (Inr ()) (add_replicas reps m1) = (m2, Inl AssertionError) \<and>
        mg_calls m2 = mg_calls m1 @ replica_calls Abort (add_replicas reps m1)))"
proof -
  let ?t = "mg_trainer m" let ?r = "rollout_workers (mg_replicas m)" let ?n = "rollout_workers reps"
  let ?w = "int (length ?r) + 1" let ?plan = "rank_plan ?t ?r"
  have f: "?t \<noteq> []" "distinct (?t @ ?r)" and nv: "mg_backend m \<noteq> ''naive''"
    and master: "e_master (mg_engines m (hd ?t))"
    using assms(1) by (auto simp: manager_ready_def fleet_ready_def)
  have m1: "mg_trainer m1 = ?t" "mg_replicas m1 = mg_replicas m" "mg_backend m1 = mg_backend m"
    "mg_engines m1 = planned ?plan (\<lambda>k. finalized k ?w) (mg_engines m)"
    using assms(2) update_weights_result [OF assms(1), of addr naive] by auto
  have same: "e_rebuild (mg_engines m1 h) = e_rebuild (mg_engines m h)" "e_master (mg_engines m1 h) = e_master (mg_engines m h)" for h
    by (simp_all add: m1(4) planned_def finalized_simps split: option.splits)
  have workers: "rollout_workers (mg_replicas (add_replicas reps m1)) = ?r @ ?n"
    by (simp add: add_replicas_def rollout_workers_def m1)
  have add: "mg_trainer (add_replicas reps m1) = ?t" "mg_engines (add_replicas reps m1) = mg_engines m1"
    "mg_backend (add_replicas reps m1) = mg_backend m" "mg_calls (add_replicas reps m1) = mg_calls m1"
    by (simp_all add: add_replicas_def m1)
  have "fleet_ready ?t ?r (mg_engines m1)"
    using fleet_ready_finalized assms(1) by (simp add: m1(4) manager_ready_def)
  then have "manager_ready (add_replicas reps m1)"
    if "\<forall>h \<in> set (?t @ ?r @ ?n). e_rebuild (mg_engines m h)"
    using fleet_ready_grow [of ?t ?r "mg_engines m1" ?n] assms(4,5,6) that nv
    by (simp add: manager_ready_def workers add same)
  moreover have "\<exists>m2. update_weights addr naive (Inr ()) (add_replicas reps m1) = (m2, Inl AssertionError) \<and>
      mg_calls m2 = mg_calls m1 @ replica_calls Abort (add_replicas reps m1)"
    if keep: "\<not> e_rebuild (mg_engines m (hd ?t))"
  proof -
    obtain h hs where t: "?t = h # hs" using f(1) by (cases ?t) auto
    have "map_of ?plan h = Some 0" by (simp add: t rank_plan_def trainer_ranks_def)
    then have e: "e_group (mg_engines m1 h)" "e_world (mg_engines m1 h) = Some ?w"
      using finalized_simps(4) [of "mg_engines m h" 0 ?w] keep t by (simp_all add: m1(4) planned_def)
    show ?thesis
      using stale_group_refused [of "add_replicas reps m1" h hs addr naive "Inr ()"] nv f assms(3,4,5) e keep master
      by (fastforce simp: add workers same t)
  qed
  ultimately show ?thesis by blast
qed

subsection \<open>Examples\<close>

definition demo_manager :: manager where
  "demo_manager = \<lparr>mg_backend = ''nccl'', mg_trainer = [0, 1],
     mg_replicas = [\<lparr>rep_id = 7, rep_workers = [2, 3]\<rparr>],
     mg_engines = (\<lambda>h. \<lparr>e_master = (h = 0), e_rebuild = False, e_group = False, e_rank = None, e_world = None, e_bufs = False\<rparr>),
     mg_calls = []\<rparr>"

lemma demo_manager_ready: "manager_ready demo_manager"
  by (simp add: demo_manager_def manager_ready_def fleet_ready_def rollout_workers_def can_join_def split_def)

theorem update_weights_repeatable_witness:
  "\<exists>m'. update_weights () (Inr ()) (Inr ()) demo_manager = (m', Inr ()) \<and> manager_ready m' \<and>
     mg_calls m' = [Abort 7, Resume 7]"
  using update_weights_repeatable [OF demo_manager_ready, of "()" "Inr ()"]
  by (auto simp: demo_manager_def replica_calls_def)

theorem scale_up_needs_rebuild_witness:
  "\<exists>m1 m2. update_weights () (Inr ()) (Inr ()) demo_manager = (m1, Inr ()) \<and>
     update_weights () (Inr ()) (Inr ()) (add_replicas [\<lparr>rep_id = 8, rep_workers = [4]\<rparr>] m1) = (m2, Inl AssertionError) \<and>
     mg_calls m2 = [Abort 7, Resume 7, Abort 7, Abort 8]"
proof -
  let ?reps = "[\<lparr>rep_id = 8, rep_workers = [4]\<rparr>]"
  obtain m1 where m1: "update_weights () (Inr ()) (Inr ()) demo_manager = (m1, Inr ())"
    "mg_calls m1 = [Abort 7, Resume 7]" "mg_replicas m1 = mg_replicas demo_manager"
    using update_weights_result [OF demo_manager_ready, of "()" "Inr ()"]
    by (simp add: demo_manager_def replica_calls_def)
  have "\<exists>m2. update_weights () (Inr ()) (Inr ()) (add_replicas ?reps m1) = (m2, Inl AssertionError) \<and>
      mg_calls m2 = mg_calls m1 @ replica_calls Abort (add_replicas ?reps m1)"
    using scale_up_needs_rebuild [OF demo_manager_ready m1(1), of ?reps]
    by (simp add: rollout_workers_def demo_manager_def)
  then show ?thesis using m1 by (auto simp: replica_calls_def add_replicas_def demo_manager_def)
qed

subsection \<open>Messages of the NIXL agents\<close>

text \<open>
  An agent keeps a queue of messages and one of notifications for each remote agent. \<open>read_message\<close>
  receives from its socket until the queue of the agent it asks about has an entry; \<open>get_notification\<close>
  polls the transfer library. The arguments give what arrives; \<open>None\<close> means still waiting.
\<close>

definition queue_of :: "(string, 'b list) dict \<Rightarrow> string \<Rightarrow> 'b list" where
  "queue_of d k = (case map_of d k of None \<Rightarrow> [] | Some q \<Rightarrow> q)"

fun read_message :: "string \<Rightarrow> (string \<times> 'b) list \<Rightarrow> (string, 'b list) dict \<Rightarrow> ('b \<times> (string, 'b list) dict) option" where
  "read_message name arriving messages = (case queue_of messages name of
      m # ms \<Rightarrow> Some (m, AList.update name ms messages)
    | [] \<Rightarrow> (case arriving of
          [] \<Rightarrow> None
        | (sender, m) # rest \<Rightarrow> read_message name rest (modify [] sender (\<lambda>q. q @ [m]) messages)))"

text \<open>The loop over the notifications reuses the variable \<open>remote_name\<close>.\<close>

fun get_notification :: "string \<Rightarrow> (string, 'b list) dict list \<Rightarrow> (string, 'b list) dict \<Rightarrow> ('b \<times> (string, 'b list) dict) option" where
  "get_notification remote_name polls notifications = (case queue_of notifications remote_name of
      n # ns \<Rightarrow> Some (n, AList.update remote_name ns notifications)
    | [] \<Rightarrow> (case polls of
          [] \<Rightarrow> None
        | notifs # rest \<Rightarrow> (case fold (\<lambda>(name, ns) (_, d). (name, modify [] name (\<lambda>q. q @ ns) d)) notifs
              (remote_name, notifications) of
            (remote_name', notifications') \<Rightarrow> get_notification remote_name' rest notifications')))"

declare read_message.simps [simp del] get_notification.simps [simp del]

lemma queue_of_modify [simp]: "queue_of (modify [] k f d) k' = (if k' = k then f (queue_of d k) else queue_of d k')"
  by (auto simp: queue_of_def modify_def)

text \<open>The messages of one agent are read in the order in which it sent them, whatever the others send.\<close>

lemma read_message_in_order:
  "read_message name arriving messages = Some (m, messages') \<Longrightarrow>
   \<exists>k \<le> length arriving. queue_of messages name @ map snd (filter (\<lambda>p. fst p = name) (take k arriving)) = m # queue_of messages' name"
proof (induction name arriving messages rule: read_message.induct)
  case (1 name arriving messages)
  show ?case
  proof (cases "queue_of messages name")
    case (Cons q qs)
    then show ?thesis using 1(2)
      by (auto simp: read_message.simps [of name arriving] queue_of_def split: option.splits intro!: exI [of _ 0])
  next
    case Nil
    then obtain s x rest where a: "arriving = (s, x) # rest" using 1(2)
      by (cases arriving) (auto simp: read_message.simps [of name "[]"])
    then have r: "read_message name rest (modify [] s (\<lambda>q. q @ [x]) messages) = Some (m, messages')"
      using 1(2) Nil a by (simp add: read_message.simps [of name "(s, x) # rest"])
    obtain k where "k \<le> length rest" "queue_of (modify [] s (\<lambda>q. q @ [x]) messages) name @
        map snd (filter (\<lambda>p. fst p = name) (take k rest)) = m # queue_of messages' name"
      using 1(1) [OF Nil a refl r] by blast
    then show ?thesis using Nil a by (intro exI [of _ "Suc k"]) (auto split: if_splits)
  qed
qed

text \<open>A notification of another agent is returned in the place of the one waited for.\<close>

lemma wrong_notification:
  "get_notification ''next'' [[(''other'', [n])]] [] = Some (n, [(''other'', [])])"
  by (simp add: get_notification.simps queue_of_def modify_def)

end
