(* ===== verification/Checkpoints.thy ===== *)
theory Checkpoints
  imports PyString
begin

section \<open>Checkpoints on disk\<close>

text \<open>
  \<open>src/verl/utils/checkpoint/checkpoint_manager.py\<close>, \<open>fsdp_checkpoint_manager.py\<close> and
  \<open>checkpoint_handler.py\<close>, and the resumption in \<open>trainer/ppo/ray_trainer.py\<close>: where a checkpoint is written,
  which old ones are removed, what the tracker file says, and from where training resumes. A disk maps
  absolute paths to folders, data and text. Saving is a list of operations on the disk and on the manager's
  list of saved paths; a crash loses the list and keeps what was done to the disk. The operations are those of
  all ranks, in any order that the barriers allow; writing a file and removing a directory tree is one operation each. The copy to HDFS that rank 0 makes after
  the tracker is left out.
\<close>

subsection \<open>The disk\<close>

datatype 'd entry = Folder | Blob 'd | Text string

type_synonym 'd disk = "string \<Rightarrow> 'd entry option"

definition path_join :: "string \<Rightarrow> string \<Rightarrow> string" where
  "path_join a b = a @ ''/'' @ b"

definition rmtree :: "string \<Rightarrow> 'd disk \<Rightarrow> 'd disk" where
  "rmtree p fs = (\<lambda>q. if q = p \<or> startswith q (p @ ''/'') then None else fs q)"

text \<open>\<open>os.makedirs(path, exist_ok=True)\<close>: the folder and its missing parents.\<close>

definition makedirs :: "string \<Rightarrow> 'd disk \<Rightarrow> 'd disk" where
  "makedirs p fs = (\<lambda>q. if fs q = None \<and> (q = p \<or> startswith p (q @ ''/'')) then Some Folder else fs q)"

subsection \<open>The checkpoint manager\<close>

text \<open>\<open>None\<close> for contents that are not configured.\<close>

definition checkpoint_contents :: "string list option \<Rightarrow> string list" where
  "checkpoint_contents c = (case c of None \<Rightarrow> [''model'', ''optimizer'', ''extra''] | Some xs \<Rightarrow> xs)"

definition should_save_model :: "string list \<Rightarrow> bool" where
  "should_save_model contents = (''model'' \<in> set contents)"

definition should_save_optimizer :: "string list \<Rightarrow> bool" where
  "should_save_optimizer contents = (''optimizer'' \<in> set contents)"

definition should_save_extra :: "string list \<Rightarrow> bool" where
  "should_save_extra contents = (''extra'' \<in> set contents)"

definition should_save_hf_model :: "string list \<Rightarrow> bool" where
  "should_save_hf_model contents = (''hf_model'' \<in> set contents)"

definition checkpath :: "string option \<Rightarrow> string option \<Rightarrow> (bool \<times> string) result" where
  "checkpath local_path hdfs_path = (case (local_path, hdfs_path) of
      (Some p, _) \<Rightarrow> Inr (True, p)
    | (None, Some p) \<Rightarrow> Inr (False, p)
    | (None, None) \<Rightarrow> Inl AssertionError)"

record 'd saver =
  sv_disk :: "'d disk"
  previous_saved_paths :: "string list"

definition remove_previous_save_local_path :: "string list \<Rightarrow> 'd disk \<Rightarrow> 'd disk" where
  "remove_previous_save_local_path paths fs = fold (\<lambda>p fs. if fs p = None then fs else rmtree p fs) paths fs"

definition drop_oldest :: "nat \<Rightarrow> 'd saver \<Rightarrow> 'd saver" where
  "drop_oldest keep_start s = s\<lparr>
     sv_disk := remove_previous_save_local_path (take keep_start (previous_saved_paths s)) (sv_disk s),
     previous_saved_paths := drop keep_start (previous_saved_paths s)\<rparr>"

definition ensure_checkpoint_capacity :: "int option \<Rightarrow> 'd saver \<Rightarrow> 'd saver" where
  "ensure_checkpoint_capacity max_ckpt_to_keep s = (case max_ckpt_to_keep of
      None \<Rightarrow> s
    | Some k \<Rightarrow> if \<not> 1 < k then s
        else if k \<le> int (length (previous_saved_paths s))
          then drop_oldest (length (previous_saved_paths s) - nat k + 1) s else s)"

definition register_checkpoint :: "string \<Rightarrow> int option \<Rightarrow> 'd saver \<Rightarrow> 'd saver" where
  "register_checkpoint new_path max_ckpt_to_keep s =
    (let s' = s\<lparr>previous_saved_paths := previous_saved_paths s @ [new_path]\<rparr> in
     case max_ckpt_to_keep of
      None \<Rightarrow> s'
    | Some k \<Rightarrow> if \<not> 0 < k then s'
        else if k < int (length (previous_saved_paths s'))
          then drop_oldest (length (previous_saved_paths s') - nat k) s' else s')"

definition get_checkpoint_tracker_filename :: "string \<Rightarrow> string" where
  "get_checkpoint_tracker_filename root_path = path_join root_path ''latest_checkpointed_iteration.txt''"

definition step_folder :: "string \<Rightarrow> nat \<Rightarrow> string" where
  "step_folder dir step = path_join dir (''global_step_'' @ nat_string step)"

text \<open>\<open>find_latest_ckpt_path\<close> with the default directory format; a tracker that is no number raises.\<close>

definition find_latest_ckpt_path :: "string option \<Rightarrow> 'd disk \<Rightarrow> string option result" where
  "find_latest_ckpt_path path fs = (case path of
      None \<Rightarrow> Inr None
    | Some dir \<Rightarrow> (case fs (get_checkpoint_tracker_filename dir) of
        None \<Rightarrow> Inr None
      | Some (Text t) \<Rightarrow> rbind (py_int t) (\<lambda>iteration.
          let ckpt_path = path_join dir (''global_step_'' @ (if iteration < 0 then ''-'' else '''') @ nat_string (nat \<bar>iteration\<bar>))
          in Inr (if fs ckpt_path = None then None else Some ckpt_path))
      | Some _ \<Rightarrow> Inl ValueError))"

text \<open>\<open>should_save_ckpt_esi\<close>: the two environment variables and the clock are arguments.\<close>

definition should_save_ckpt_esi :: "string option \<Rightarrow> string option \<Rightarrow> real \<Rightarrow> real \<Rightarrow> real \<Rightarrow> real \<Rightarrow> bool result" where
  "should_save_ckpt_esi exp_ts_mlp exp_ts_aws now max_steps_duration save_ckpt_duration redundant_time =
    (let set_to = (\<lambda>v. case v of None \<Rightarrow> False | Some s \<Rightarrow> s \<noteq> []) in
     if set_to exp_ts_mlp then
       (case py_float (the exp_ts_mlp) of
          Inl _ \<Rightarrow> Inr False
        | Inr e \<Rightarrow> Inr (0 < e - now \<and> 0 < max_steps_duration \<and>
            e - now \<le> save_ckpt_duration + max_steps_duration + redundant_time))
     else if set_to exp_ts_aws then
       rbind (py_int (the exp_ts_aws)) (\<lambda>e.
         Inr (of_int e - now < save_ckpt_duration + max_steps_duration + redundant_time))
     else Inr False)"

subsection \<open>Saving\<close>

text \<open>
  What \<open>CheckpointHandler.save_checkpoint\<close> does on all ranks. The engine's files are those of every rank, in the order in which
  they reach the disk; \<open>ck_data\<close> are the states of the data loaders, one for each data-parallel rank. Two barriers inside
  \<open>engine.save_checkpoint\<close> separate creating the folder, writing the engine's files, and what comes after; in the first and
  last of these phases the ranks run in any order, \<open>ck_start\<close> and \<open>ck_order\<close>.
  The tracker is written by rank 0 under another name and renamed.
\<close>

record 'd checkpoint =
  ck_step :: nat
  ck_world :: nat
  ck_files :: "(string, 'd) dict"
  ck_data :: "'d list"
  ck_start :: "nat list"
  ck_order :: "nat list"

text \<open>The operations of several ranks, each in its own order: the schedule says which rank does its next one; when it has ended
  the ranks finish one after the other.\<close>

fun interleave :: "nat list \<Rightarrow> 'a list list \<Rightarrow> 'a list" where
  "interleave [] ps = concat ps"
| "interleave (r # rs) ps = (if r < length ps then (case ps ! r of
      [] \<Rightarrow> interleave rs ps
    | x # xs \<Rightarrow> x # interleave rs (ps[r := xs])) else interleave rs ps)"

definition on_disk :: "('d disk \<Rightarrow> 'd disk) \<Rightarrow> 'd saver \<Rightarrow> 'd saver" where
  "on_disk f s = s\<lparr>sv_disk := f (sv_disk s)\<rparr>"

definition write_entry :: "string \<Rightarrow> 'd entry \<Rightarrow> 'd saver \<Rightarrow> 'd saver" where
  "write_entry p e = on_disk (\<lambda>fs. fs(p \<mapsto> e))"

definition rename_entry :: "string \<Rightarrow> string \<Rightarrow> 'd saver \<Rightarrow> 'd saver" where
  "rename_entry p q = on_disk (\<lambda>fs. fs(q := fs p, p := None))"

definition write_files :: "string \<Rightarrow> (string, 'd) dict \<Rightarrow> ('d saver \<Rightarrow> 'd saver) list" where
  "write_files local_path files = map (\<lambda>(f, d). write_entry (path_join local_path f) (Blob d)) files"

text \<open>The engine's save, when no other rank is between rank 0 and the barriers.\<close>

definition fsdp_save_ops :: "string \<Rightarrow> int option \<Rightarrow> (string, 'd) dict \<Rightarrow> ('d saver \<Rightarrow> 'd saver) list" where
  "fsdp_save_ops local_path max_ckpt_to_keep files =
    [ensure_checkpoint_capacity max_ckpt_to_keep, on_disk (makedirs local_path)] @ write_files local_path files
    @ [register_checkpoint local_path max_ckpt_to_keep]"

definition data_file :: "string \<Rightarrow> nat \<Rightarrow> string" where
  "data_file folder dp_rank = path_join folder (''data_'' @ nat_string dp_rank @ ''.pt'')"

text \<open>After the last barrier of the engine: rank 0, which goes on to register the checkpoint, and the sources of the other
  data-parallel ranks, which save their data loaders.\<close>

definition rank0_ops :: "string \<Rightarrow> int option \<Rightarrow> 'd checkpoint \<Rightarrow> ('d saver \<Rightarrow> 'd saver) list" where
  "rank0_ops dir max_ckpt_to_keep c =
    (let folder = step_folder dir (ck_step c); tracker = get_checkpoint_tracker_filename dir
     in [register_checkpoint folder max_ckpt_to_keep, on_disk (makedirs folder),
         write_entry (data_file folder 0) (Blob (ck_data c ! 0)),
         write_entry (tracker @ ''.tmp'') (Text (nat_string (ck_step c))),
         rename_entry (tracker @ ''.tmp'') tracker])"

definition dp_rank_ops :: "string \<Rightarrow> 'd checkpoint \<Rightarrow> nat \<Rightarrow> ('d saver \<Rightarrow> 'd saver) list" where
  "dp_rank_ops dir c dp_rank =
    (let folder = step_folder dir (ck_step c)
     in [on_disk (makedirs folder), write_entry (data_file folder dp_rank) (Blob (ck_data c ! dp_rank))])"

definition handler_save_ops :: "string \<Rightarrow> int option \<Rightarrow> 'd checkpoint \<Rightarrow> ('d saver \<Rightarrow> 'd saver) list" where
  "handler_save_ops dir max_ckpt_to_keep c =
    (let mk = on_disk (makedirs (step_folder dir (ck_step c)))
     in interleave (ck_start c) ([ensure_checkpoint_capacity max_ckpt_to_keep, mk] # replicate (ck_world c - 1) [mk])
      @ write_files (step_folder dir (ck_step c)) (ck_files c)
      @ interleave (ck_order c) (rank0_ops dir max_ckpt_to_keep c # map (dp_rank_ops dir c) [1..<length (ck_data c)]))"

definition run_ops :: "('d saver \<Rightarrow> 'd saver) list \<Rightarrow> 'd saver \<Rightarrow> 'd saver" where
  "run_ops ops s = fold (\<lambda>f. f) ops s"

definition handler_save :: "string \<Rightarrow> int option \<Rightarrow> 'd checkpoint \<Rightarrow> 'd saver \<Rightarrow> 'd saver" where
  "handler_save dir max_ckpt_to_keep c = run_ops (handler_save_ops dir max_ckpt_to_keep c)"

text \<open>A process that has just started on a disk.\<close>

definition fresh_saver :: "'d disk \<Rightarrow> 'd saver" where
  "fresh_saver fs = \<lparr>sv_disk = fs, previous_saved_paths = []\<rparr>"

text \<open>The PPO trainer opens the tracker itself for writing, which empties it, and then writes the step.\<close>

definition ppo_tracker_ops :: "string \<Rightarrow> nat \<Rightarrow> ('d saver \<Rightarrow> 'd saver) list" where
  "ppo_tracker_ops dir step = (let tracker = get_checkpoint_tracker_filename dir in
     [write_entry tracker (Text []), write_entry tracker (Text (nat_string step))])"

subsection \<open>Resuming\<close>

text \<open>\<open>re.search(r"global_step_(\d+)", path)\<close>: the first match.\<close>

fun extract_step :: "string \<Rightarrow> nat option" where
  "extract_step [] = None"
| "extract_step (c # cs) =
     (let ds = takeWhile is_digit (drop 12 (c # cs)) in
      if startswith (c # cs) ''global_step_'' \<and> ds \<noteq> []
      then Some (digits_value (map (\<lambda>d. of_char d - 48) ds)) else extract_step cs)"

definition determine_resume_path :: "string \<Rightarrow> string \<Rightarrow> string option \<Rightarrow> 'd disk \<Rightarrow> string option result" where
  "determine_resume_path default_local_dir resume_mode resume_from_path fs =
    (if resume_mode = ''disable'' then Inr None
     else if resume_mode = ''auto'' then
       (case resume_from_path of
          Some p \<Rightarrow> rbind (py_assert (fs p \<noteq> None)) (\<lambda>_. rbind (py_assert (contains ''global_step_'' p)) (\<lambda>_. Inr (Some p)))
        | None \<Rightarrow> if fs default_local_dir = None then Inr None else find_latest_ckpt_path (Some default_local_dir) fs)
     else if resume_mode = ''resume_path'' then
       (case resume_from_path of
          None \<Rightarrow> Inl TypeError
        | Some p \<Rightarrow> rbind (py_assert (fs p \<noteq> None)) (\<lambda>_. rbind (py_assert (contains ''global_step_'' p)) (\<lambda>_. Inr (Some p))))
     else Inl ValueError)"

text \<open>\<open>CheckpointHandler.load_checkpoint\<close>: the step to resume at and the folder the engine loads, if any.\<close>

definition handler_load :: "string \<Rightarrow> string \<Rightarrow> string option \<Rightarrow> 'd disk \<Rightarrow> (nat \<times> string option) result" where
  "handler_load default_local_dir resume_mode resume_from_path fs =
    rbind (determine_resume_path default_local_dir resume_mode resume_from_path fs) (\<lambda>path.
    Inr (case path of
        None \<Rightarrow> (0, None)
      | Some p \<Rightarrow> (case extract_step p of None \<Rightarrow> (0, None) | Some n \<Rightarrow> (n, Some p))))"

text \<open>\<open>RayPPOTrainer._load_checkpoint\<close>: the step after the last \<open>global_step_\<close> of the folder.\<close>

definition absolute_path :: "string \<Rightarrow> string \<Rightarrow> string" where
  "absolute_path cwd p = (if startswith p ''/'' then p else path_join cwd p)"

definition ppo_load :: "string \<Rightarrow> string option \<Rightarrow> string \<Rightarrow> string option \<Rightarrow> string \<Rightarrow> 'd disk \<Rightarrow> (int \<times> string option) result" where
  "ppo_load resume_mode default_hdfs_dir default_local_dir resume_from_path cwd fs =
    (if resume_mode = ''disable'' then Inr (0, None)
     else if default_hdfs_dir \<noteq> None then Inl NotImplementedError
     else rbind (find_latest_ckpt_path (Some (absolute_path cwd default_local_dir)) fs) (\<lambda>latest.
       if resume_mode = ''auto'' \<and> latest = None then Inr (0, None)
       else rbind (if resume_mode = ''resume_path''
                   then (case resume_from_path of
                       None \<Rightarrow> Inl AssertionError
                     | Some p \<Rightarrow> rbind (py_assert (contains ''global_step_'' p)) (\<lambda>_. Inr (absolute_path cwd p)))
                   else (case latest of None \<Rightarrow> Inl AttributeError | Some p \<Rightarrow> Inr p)) (\<lambda>folder.
         rbind (py_int (last (split_str ''global_step_'' folder))) (\<lambda>step. Inr (step, Some folder)))))"

subsection \<open>Paths\<close>

text \<open>The paths at or below a checkpoint's folder.\<close>

definition inside :: "string \<Rightarrow> nat \<Rightarrow> string \<Rightarrow> bool" where
  "inside dir n q \<longleftrightarrow> q = step_folder dir n \<or> startswith q (step_folder dir n @ ''/'')"

lemma takeWhile_nat_string: "x = [] \<or> \<not> is_digit (hd x) \<Longrightarrow> takeWhile is_digit (nat_string n @ x) = nat_string n"
  using nat_string_digits [of n] by (cases x) (auto simp: list_all_iff takeWhile_append)

lemma slash_no_digit [simp]: "\<not> is_digit (CHR ''/'')"
  by (simp add: is_digit_def)

lemma inside_form: "inside dir n q \<Longrightarrow> \<exists>x. q = step_folder dir n @ x \<and> (x = [] \<or> \<not> is_digit (hd x))"
  by (auto simp: inside_def startswith_iff)

lemma inside_unique: "inside dir n q \<Longrightarrow> inside dir m q \<Longrightarrow> n = m"
proof -
  assume "inside dir n q" "inside dir m q"
  then obtain x y where q: "q = step_folder dir n @ x" "q = step_folder dir m @ y"
    and x: "x = [] \<or> \<not> is_digit (hd x)" and y: "y = [] \<or> \<not> is_digit (hd y)"
    by (meson inside_form)
  have "nat_string n @ x = nat_string m @ y" using q by (simp add: step_folder_def path_join_def)
  then show "n = m" using takeWhile_nat_string [OF x, of n] takeWhile_nat_string [OF y, of m] by simp
qed

lemma inside_folder [simp]: "inside dir n (step_folder dir n)" "inside dir n (path_join (step_folder dir n) f)"
  by (simp_all add: inside_def path_join_def startswith_iff)

lemma step_folder_inj [simp]: "step_folder dir n = step_folder dir m \<longleftrightarrow> n = m"
  by (simp add: step_folder_def path_join_def)

lemma tracker_not_inside [simp]: "\<not> inside dir n (get_checkpoint_tracker_filename dir)"
  "\<not> inside dir n (get_checkpoint_tracker_filename dir @ ''.tmp'')"
  by (auto simp: step_folder_def path_join_def get_checkpoint_tracker_filename_def dest!: inside_form)

text \<open>No parent of one checkpoint's folder lies in another checkpoint.\<close>

lemma parent_not_inside: "startswith (step_folder dir m) (q @ ''/'') \<Longrightarrow> \<not> inside dir n q"
proof
  assume "startswith (step_folder dir m) (q @ ''/'')" "inside dir n q"
  then obtain r x where q: "q = step_folder dir n @ x" and r: "step_folder dir m = q @ CHR ''/'' # r"
    by (auto simp: startswith_iff dest!: inside_form)
  then have "nat_string m = nat_string n @ x @ CHR ''/'' # r"
    by (simp add: step_folder_def path_join_def)
  then have "CHR ''/'' \<in> set (nat_string m)" by simp
  then show False using nat_string_set by fastforce
qed

subsection \<open>What the operations leave alone\<close>

lemma rmtree_folder: "rmtree (step_folder dir n) fs q = (if inside dir n q then None else fs q)"
  by (simp add: rmtree_def inside_def)

lemma makedirs_folder: "fs q \<noteq> None \<or> (inside dir n q \<and> n \<noteq> m) \<Longrightarrow> makedirs (step_folder dir m) fs q = fs q"
  using parent_not_inside [of dir m q n] inside_unique [of dir n q m] by (auto simp: makedirs_def)

lemma remove_folders:
  "(remove_previous_save_local_path (map (step_folder dir) ns) fs) q =
     (if \<exists>n \<in> set ns. inside dir n q \<and> fs (step_folder dir n) \<noteq> None then None else fs q)"
proof (induction ns arbitrary: fs)
  case (Cons n ns)
  let ?fs = "if fs (step_folder dir n) = None then fs else rmtree (step_folder dir n) fs"
  have "remove_previous_save_local_path (map (step_folder dir) (n # ns)) fs =
    remove_previous_save_local_path (map (step_folder dir) ns) ?fs"
    by (simp add: remove_previous_save_local_path_def)
  moreover have "inside dir k (step_folder dir l) \<longleftrightarrow> k = l" for k l using inside_unique by auto
  ultimately show ?case using Cons.IH [of ?fs] by (auto simp: rmtree_folder dest: inside_unique)
qed (simp add: remove_previous_save_local_path_def)

subsection \<open>Complete checkpoints\<close>

text \<open>File names are different and none is a data loader's.\<close>

definition wf_checkpoint :: "'d checkpoint \<Rightarrow> bool" where
  "wf_checkpoint c \<longleftrightarrow> ck_data c \<noteq> [] \<and> distinct (keys (ck_files c)) \<and>
     list_all (\<lambda>r. ''data_'' @ nat_string r @ ''.pt'' \<notin> set (keys (ck_files c))) [0..<length (ck_data c)]"

text \<open>The files of the engine, of every rank.\<close>

definition engine_complete :: "string \<Rightarrow> 'd checkpoint \<Rightarrow> 'd disk \<Rightarrow> bool" where
  "engine_complete dir c fs \<longleftrightarrow> (let folder = step_folder dir (ck_step c) in fs folder \<noteq> None \<and>
     (\<forall>(f, d) \<in> set (ck_files c). fs (path_join folder f) = Some (Blob d)))"

definition has_data :: "string \<Rightarrow> 'd checkpoint \<Rightarrow> nat \<Rightarrow> 'd disk \<Rightarrow> bool" where
  "has_data dir c dp_rank fs \<longleftrightarrow> fs (data_file (step_folder dir (ck_step c)) dp_rank) = Some (Blob (ck_data c ! dp_rank))"

definition complete :: "string \<Rightarrow> 'd checkpoint \<Rightarrow> 'd disk \<Rightarrow> bool" where
  "complete dir c fs \<longleftrightarrow> engine_complete dir c fs \<and> (\<forall>r < length (ck_data c). has_data dir c r fs)"

definition tracked :: "string \<Rightarrow> nat \<Rightarrow> 'd disk \<Rightarrow> bool" where
  "tracked dir n fs \<longleftrightarrow> fs (get_checkpoint_tracker_filename dir) = Some (Text (nat_string n))"

text \<open>A disk that agrees with another on a checkpoint, where the other has something.\<close>

lemma data_file_inside [simp]: "inside dir n (data_file (step_folder dir n) r)"
  by (simp add: data_file_def)

lemma engine_complete_frame:
  assumes "engine_complete dir c fs" "\<And>q. inside dir (ck_step c) q \<Longrightarrow> fs q \<noteq> None \<Longrightarrow> fs' q = fs q"
  shows "engine_complete dir c fs'"
proof -
  have "fs' (step_folder dir (ck_step c)) = fs (step_folder dir (ck_step c))"
    using assms by (simp add: engine_complete_def Let_def)
  moreover have "fs' (path_join (step_folder dir (ck_step c)) f) = fs (path_join (step_folder dir (ck_step c)) f)"
    if "fs (path_join (step_folder dir (ck_step c)) f) \<noteq> None" for f
    using assms(2) that by simp
  ultimately show ?thesis using assms(1) by (fastforce simp: engine_complete_def Let_def)
qed

lemma complete_frame:
  assumes "complete dir c fs" "\<And>q. inside dir (ck_step c) q \<Longrightarrow> fs q \<noteq> None \<Longrightarrow> fs' q = fs q"
  shows "complete dir c fs'"
  using assms engine_complete_frame [of dir c fs fs'] by (simp add: complete_def has_data_def)

lemma find_latest_tracked:
  "tracked dir n fs \<Longrightarrow> fs (step_folder dir n) \<noteq> None \<Longrightarrow> find_latest_ckpt_path (Some dir) fs = Inr (Some (step_folder dir n))"
  by (simp add: tracked_def find_latest_ckpt_path_def step_folder_def Let_def)

subsection \<open>The state between saves\<close>

text \<open>How many of \<open>n\<close> saved checkpoints have been dropped.\<close>

definition dropped :: "int option \<Rightarrow> nat \<Rightarrow> nat" where
  "dropped k n = (case k of Some i \<Rightarrow> if 0 < i then n - nat i else 0 | None \<Rightarrow> 0)"

text \<open>After saving \<open>cs\<close>: the manager lists the newest, they are complete, the dropped ones are gone, and
  the tracker names the last.\<close>

definition saved :: "string \<Rightarrow> int option \<Rightarrow> 'd checkpoint list \<Rightarrow> 'd saver \<Rightarrow> bool" where
  "saved dir k cs s \<longleftrightarrow>
     previous_saved_paths s = map (\<lambda>c. step_folder dir (ck_step c)) (drop (dropped k (length cs)) cs) \<and>
     (\<forall>c \<in> set (drop (dropped k (length cs)) cs). complete dir c (sv_disk s)) \<and>
     (\<forall>c \<in> set (take (dropped k (length cs)) cs). sv_disk s (step_folder dir (ck_step c)) = None) \<and>
     (cs \<noteq> [] \<longrightarrow> tracked dir (ck_step (last cs)) (sv_disk s))"

definition wf_saves :: "'d checkpoint list \<Rightarrow> bool" where
  "wf_saves cs \<longleftrightarrow> distinct (map ck_step cs) \<and> (\<forall>c \<in> set cs. wf_checkpoint c)"

lemma saved_fresh: "saved dir k [] (fresh_saver fs)"
  by (simp add: saved_def fresh_saver_def)

subsection \<open>One save, operation by operation\<close>

text \<open>During a save: \<open>D\<close> checkpoints of \<open>cs\<close> are dropped, and \<open>ex\<close> is what has been registered since.\<close>

definition stage :: "string \<Rightarrow> 'd checkpoint list \<Rightarrow> nat \<Rightarrow> string list \<Rightarrow> 'd saver \<Rightarrow> bool" where
  "stage dir cs D ex s \<longleftrightarrow>
     previous_saved_paths s = map (\<lambda>c. step_folder dir (ck_step c)) (drop D cs) @ ex \<and>
     (\<forall>c \<in> set (drop D cs). complete dir c (sv_disk s)) \<and>
     (\<forall>c \<in> set (take D cs). sv_disk s (step_folder dir (ck_step c)) = None) \<and>
     (cs \<noteq> [] \<longrightarrow> tracked dir (ck_step (last cs)) (sv_disk s))"

lemma saved_stage: "saved dir k cs s \<longleftrightarrow> stage dir cs (dropped k (length cs)) [] s"
  by (simp add: saved_def stage_def)

lemma run_ops_simps [simp]:
  "run_ops [] s = s" "run_ops (f # ops) s = run_ops ops (f s)" "run_ops (ops @ ops') s = run_ops ops' (run_ops ops s)"
  by (simp_all add: run_ops_def)

lemma stage_frame:
  assumes "stage dir cs D ex s" "previous_saved_paths s' = previous_saved_paths s"
    and same: "\<And>q c. c \<in> set cs \<Longrightarrow> inside dir (ck_step c) q \<Longrightarrow> sv_disk s' q = sv_disk s q"
    and "sv_disk s (get_checkpoint_tracker_filename dir) \<noteq> None \<Longrightarrow>
      sv_disk s' (get_checkpoint_tracker_filename dir) = sv_disk s (get_checkpoint_tracker_filename dir)"
  shows "stage dir cs D ex s'"
proof -
  have "complete dir c (sv_disk s')" if c: "c \<in> set (drop D cs)" for c
  proof (rule complete_frame)
    show "complete dir c (sv_disk s)" using assms(1) c by (simp add: stage_def)
    show "inside dir (ck_step c) q \<Longrightarrow> sv_disk s' q = sv_disk s q" for q
      by (rule same [OF in_set_dropD [OF c]])
  qed
  moreover have "sv_disk s' (step_folder dir (ck_step c)) = None" if c: "c \<in> set (take D cs)" for c
    using same [OF in_set_takeD [OF c] inside_folder(1)] assms(1) c by (simp add: stage_def)
  ultimately show ?thesis using assms(1,2,4) by (auto simp: stage_def tracked_def)
qed

lemma drop_oldest_stage:
  assumes "stage dir cs D ex s" "D + i \<le> length cs" "distinct (map ck_step cs)"
  shows "stage dir cs (D + i) ex (drop_oldest i s)"
    "\<And>q. (\<And>c. c \<in> set cs \<Longrightarrow> \<not> inside dir (ck_step c) q) \<Longrightarrow> sv_disk (drop_oldest i s) q = sv_disk s q"
proof -
  let ?ns = "map ck_step (take i (drop D cs))"
  have paths: "previous_saved_paths s = map (\<lambda>c. step_folder dir (ck_step c)) (drop D cs) @ ex"
    using assms(1) by (simp add: stage_def)
  have "take i (previous_saved_paths s) = map (step_folder dir) ?ns"
    using assms(2) by (simp add: paths take_map comp_def)
  then have disk: "sv_disk (drop_oldest i s) q =
      (if \<exists>n \<in> set ?ns. inside dir n q \<and> sv_disk s (step_folder dir n) \<noteq> None then None else sv_disk s q)" for q
    by (simp add: drop_oldest_def remove_folders del: map_map set_map)
  have sub: "set (take i (drop D cs)) \<subseteq> set cs" by (meson in_set_dropD in_set_takeD subsetI)
  show "\<And>q. (\<And>c. c \<in> set cs \<Longrightarrow> \<not> inside dir (ck_step c) q) \<Longrightarrow> sv_disk (drop_oldest i s) q = sv_disk s q"
    using sub by (auto simp: disk)
  have split: "drop D cs = take i (drop D cs) @ drop (D + i) cs" "take (D + i) cs = take D cs @ take i (drop D cs)"
    using append_take_drop_id [of i "drop D cs"] by (simp_all add: take_add add.commute)
  have "distinct (map ck_step (take i (drop D cs)) @ map ck_step (drop (D + i) cs))"
    unfolding map_append [symmetric] split(1) [symmetric] using assms(3) by (metis distinct_drop drop_map)
  then have apart: "ck_step c \<notin> set ?ns" if "c \<in> set (drop (D + i) cs)" for c using that by auto
  have "complete dir c (sv_disk (drop_oldest i s))" if c: "c \<in> set (drop (D + i) cs)" for c
  proof (rule complete_frame)
    have "c \<in> set (take i (drop D cs) @ drop (D + i) cs)" using c by simp
    then have "c \<in> set (drop D cs)" unfolding split(1) [symmetric] .
    then show "complete dir c (sv_disk s)" using assms(1) by (simp add: stage_def)
    show "sv_disk (drop_oldest i s) q = sv_disk s q" if q: "inside dir (ck_step c) q" for q
    proof -
      have "\<not> (\<exists>n \<in> set ?ns. inside dir n q \<and> sv_disk s (step_folder dir n) \<noteq> None)"
        using apart [OF c] inside_unique [OF q] by blast
      then show ?thesis unfolding disk by (rule if_not_P)
    qed
  qed
  moreover have "sv_disk (drop_oldest i s) (step_folder dir (ck_step c)) = None" if "c \<in> set (take (D + i) cs)" for c
    using that assms(1) unfolding split(2) by (auto simp: disk stage_def)
  moreover have "previous_saved_paths (drop_oldest i s) = map (\<lambda>c. step_folder dir (ck_step c)) (drop (D + i) cs) @ ex"
    using assms(2) by (simp add: drop_oldest_def paths drop_map) (simp add: add.commute)
  moreover have "cs \<noteq> [] \<longrightarrow> tracked dir (ck_step (last cs)) (sv_disk (drop_oldest i s))"
    using assms(1) by (auto simp: stage_def tracked_def disk)
  ultimately show "stage dir cs (D + i) ex (drop_oldest i s)" by (simp add: stage_def)
qed

text \<open>How many checkpoints are dropped once room has been made for the next.\<close>

definition dropped_before :: "int option \<Rightarrow> nat \<Rightarrow> nat" where
  "dropped_before k n = (if k = Some 1 then dropped k n else dropped k (n + 1))"

lemma ensure_stage:
  assumes "saved dir k cs s" "wf_saves cs"
  shows "stage dir cs (dropped_before k (length cs)) [] (ensure_checkpoint_capacity k s)"
proof -
  have st: "stage dir cs (dropped k (length cs)) [] s" using assms(1) by (simp add: saved_stage)
  have len: "length (previous_saved_paths s) = length cs - dropped k (length cs)"
    using assms(1) by (simp add: saved_def)
  consider "k = None" | i where "k = Some i" "\<not> 1 < i" | i where "k = Some i" "1 < i" "length cs < nat i"
    | i where "k = Some i" "1 < i" "nat i \<le> length cs"
    by (metis linorder_not_less option.exhaust)
  then show ?thesis
  proof cases
    case 4
    then have d: "dropped k (length cs) = length cs - nat i" "dropped_before k (length cs) = length cs - nat i + 1"
      by (auto simp: dropped_def dropped_before_def)
    then have "ensure_checkpoint_capacity k s = drop_oldest 1 s"
      using 4 len by (simp add: ensure_checkpoint_capacity_def)
    then show ?thesis using drop_oldest_stage(1) [OF st, of 1] 4 d assms(2) by (auto simp: wf_saves_def)
  qed (use st len in \<open>auto simp: ensure_checkpoint_capacity_def dropped_def dropped_before_def\<close>)
qed

lemma wf_saves_snoc:
  "wf_saves (cs @ [c]) \<longleftrightarrow> wf_saves cs \<and> wf_checkpoint c \<and> (\<forall>c' \<in> set cs. ck_step c' \<noteq> ck_step c)"
  by (auto simp: wf_saves_def) (metis imageI)

lemma other_inside: "wf_saves (cs @ [c]) \<Longrightarrow> c' \<in> set cs \<Longrightarrow> inside dir (ck_step c) q \<Longrightarrow> \<not> inside dir (ck_step c') q"
  using inside_unique [of dir "ck_step c" q "ck_step c'"] by (auto simp: wf_saves_snoc)

text \<open>Operations inside the new checkpoint's folder, and on the temporary tracker, keep the stage.\<close>

lemma write_stage:
  assumes "stage dir cs D ex s" "wf_saves (cs @ [c])"
    and p: "inside dir (ck_step c) p \<or> p = get_checkpoint_tracker_filename dir @ ''.tmp''"
  shows "stage dir cs D ex (write_entry p e s)"
proof (rule stage_frame [OF assms(1)])
  show "sv_disk (write_entry p e s) q = sv_disk s q" if "c' \<in> set cs" "inside dir (ck_step c') q" for q c'
  proof -
    have "q \<noteq> p" using that p other_inside [OF assms(2) that(1)] by auto
    then show ?thesis by (simp add: write_entry_def on_disk_def)
  qed
  show "sv_disk (write_entry p e s) (get_checkpoint_tracker_filename dir) = sv_disk s (get_checkpoint_tracker_filename dir)"
    using p by (auto simp: write_entry_def on_disk_def)
qed (simp add: write_entry_def on_disk_def)

lemma makedirs_stage:
  assumes "stage dir cs D ex s" "wf_saves (cs @ [c])"
  shows "stage dir cs D ex (on_disk (makedirs (step_folder dir (ck_step c))) s)"
proof (rule stage_frame [OF assms(1)])
  show "sv_disk (on_disk (makedirs (step_folder dir (ck_step c))) s) q = sv_disk s q"
    if "c' \<in> set cs" "inside dir (ck_step c') q" for q c'
    using makedirs_folder [of "sv_disk s" q dir "ck_step c'" "ck_step c"] that assms(2)
    by (auto simp: on_disk_def wf_saves_snoc)
qed (auto simp: on_disk_def makedirs_folder)

lemma register_stage:
  assumes "stage dir cs (dropped_before k (length cs)) [] s" "wf_saves (cs @ [c])"
  shows "stage dir cs (dropped k (length cs + 1)) [step_folder dir (ck_step c)]
      (register_checkpoint (step_folder dir (ck_step c)) k s)"
    "inside dir (ck_step c) q \<Longrightarrow> sv_disk (register_checkpoint (step_folder dir (ck_step c)) k s) q = sv_disk s q"
proof -
  let ?f = "step_folder dir (ck_step c)" let ?n = "length cs"
  let ?s = "s\<lparr>previous_saved_paths := previous_saved_paths s @ [?f]\<rparr>"
  have d: "distinct (map ck_step cs)" using assms(2) by (simp add: wf_saves_def)
  have st: "stage dir cs (dropped_before k ?n) [?f] ?s" using assms(1) by (simp add: stage_def)
  have len: "length (previous_saved_paths ?s) = ?n - dropped_before k ?n + 1"
    using assms(1) by (simp add: stage_def)
  have "stage dir cs (dropped k (?n + 1)) [?f] (register_checkpoint ?f k s) \<and>
    (inside dir (ck_step c) q \<longrightarrow> sv_disk (register_checkpoint ?f k s) q = sv_disk s q)"
  proof (cases "k = Some 1 \<and> cs \<noteq> []")
    case True
    then have "dropped_before k ?n = ?n - 1" "dropped k (?n + 1) = ?n - 1 + 1"
      by (cases cs; simp add: dropped_before_def dropped_def)+
    moreover have "register_checkpoint ?f k s = drop_oldest 1 ?s"
      using True len calculation by (cases cs) (auto simp: register_checkpoint_def Let_def)
    moreover have "?n - 1 + 1 \<le> ?n" using True by (cases cs) auto
    ultimately show ?thesis
      using drop_oldest_stage(1) [of dir cs "?n - 1" "[?f]" ?s 1] drop_oldest_stage(2) [of dir cs "?n - 1" "[?f]" ?s 1 q]
        st d other_inside [OF assms(2), of _ dir q] by simp
  next
    case False
    then have "dropped_before k ?n = dropped k (?n + 1)" by (auto simp: dropped_before_def dropped_def)
    moreover have "register_checkpoint ?f k s = ?s"
    proof (cases k)
      case (Some i)
      have "\<not> (0 < i \<and> i < int (length (previous_saved_paths ?s)))"
        using False Some len by (auto simp: dropped_before_def dropped_def split: if_splits)
      then show ?thesis using Some by (auto simp: register_checkpoint_def Let_def)
    qed (simp add: register_checkpoint_def Let_def)
    ultimately show ?thesis using st by simp
  qed
  then show "stage dir cs (dropped k (length cs + 1)) [step_folder dir (ck_step c)]
      (register_checkpoint (step_folder dir (ck_step c)) k s)"
    "inside dir (ck_step c) q \<Longrightarrow> sv_disk (register_checkpoint (step_folder dir (ck_step c)) k s) q = sv_disk s q"
    by auto
qed

lemma path_join_inj [simp]: "path_join a f = path_join a g \<longleftrightarrow> f = g"
  by (simp add: path_join_def)

lemma run_writes:
  assumes "distinct (keys files)"
  shows "sv_disk (run_ops (write_files p files) s) (path_join p f) =
    (case map_of files f of None \<Rightarrow> sv_disk s (path_join p f) | Some d \<Rightarrow> Some (Blob d))"
  using assms unfolding write_files_def
proof (induction files arbitrary: s)
  case (Cons x files)
  obtain g d where x: "x = (g, d)" by fastforce
  have g: "map_of files g = None" using Cons.prems x by (simp add: map_of_eq_None_iff keys_def)
  show ?case using Cons.IH [of "write_entry (path_join p g) (Blob d) s"] Cons.prems x g
    by (auto simp: write_entry_def on_disk_def split: option.splits)
qed simp

lemma run_writes_keep:
  "sv_disk s q \<noteq> None \<Longrightarrow> sv_disk (run_ops (write_files p files) s) q \<noteq> None"
  by (induction files arbitrary: s) (auto simp: write_files_def write_entry_def on_disk_def)

text \<open>A predicate that holds after every number of operations.\<close>

definition always :: "('d saver \<Rightarrow> bool) \<Rightarrow> ('d saver \<Rightarrow> 'd saver) list \<Rightarrow> 'd saver \<Rightarrow> bool" where
  "always P ops s \<longleftrightarrow> (\<forall>j \<le> length ops. P (run_ops (take j ops) s))"

lemma always_Nil [simp]: "always P [] s \<longleftrightarrow> P s"
  by (simp add: always_def)

lemma always_Cons [simp]: "always P (f # ops) s \<longleftrightarrow> P s \<and> always P ops (f s)"
proof -
  have "(\<forall>j \<le> Suc n. Q j) \<longleftrightarrow> Q 0 \<and> (\<forall>j \<le> n. Q (Suc j))" for Q :: "nat \<Rightarrow> bool" and n
    by (metis Suc_le_mono le_zero_eq linear not0_implies_Suc)
  then show ?thesis by (simp add: always_def)
qed

lemma always_append: "always P (ops @ ops') s \<longleftrightarrow> always P ops s \<and> always P ops' (run_ops ops s)"
proof (induction ops arbitrary: s)
  case Nil
  show ?case by (cases ops') auto
qed simp

lemma always_invariant: "P s \<Longrightarrow> (\<And>f s. f \<in> set ops \<Longrightarrow> P s \<Longrightarrow> P (f s)) \<Longrightarrow> always P ops s \<and> P (run_ops ops s)"
  by (induction ops arbitrary: s) auto

lemma writes_stage:
  assumes "stage dir cs D ex s" "wf_saves (cs @ [c])"
  defines "ops \<equiv> write_files (step_folder dir (ck_step c)) (ck_files c)"
  shows "always (stage dir cs D ex) ops s \<and> stage dir cs D ex (run_ops ops s)"
  unfolding ops_def write_files_def using write_stage [OF _ assms(2)] by (intro always_invariant assms(1)) auto

definition staged :: "string \<Rightarrow> int option \<Rightarrow> 'd checkpoint list \<Rightarrow> 'd saver \<Rightarrow> bool" where
  "staged dir k cs s \<longleftrightarrow> (\<exists>D ex. stage dir cs D ex s \<and> (k \<noteq> Some 1 \<and> cs \<noteq> [] \<longrightarrow> D < length cs))"

lemma stagedI:
  "stage dir cs D ex s \<Longrightarrow> D = dropped k (length cs) \<or> D = dropped_before k (length cs) \<or> D = dropped k (length cs + 1) \<Longrightarrow> staged dir k cs s"
proof -
  assume a: "stage dir cs D ex s" "D = dropped k (length cs) \<or> D = dropped_before k (length cs) \<or> D = dropped k (length cs + 1)"
  have "D < length cs" if ne: "k \<noteq> Some 1" "cs \<noteq> []"
  proof (cases k)
    case (Some i)
    have "0 < i \<Longrightarrow> 2 \<le> nat i" using ne(1) Some by auto
    moreover obtain n where "length cs = Suc n" using ne(2) by (cases cs) auto
    ultimately show ?thesis using a(2) ne(1) Some by (auto simp: dropped_def dropped_before_def)
  qed (use a(2) ne in \<open>auto simp: dropped_def dropped_before_def\<close>)
  then show ?thesis using a(1) by (auto simp: staged_def)
qed

subsection \<open>Interleavings\<close>

inductive interleaving :: "'a list list \<Rightarrow> 'a list \<Rightarrow> bool" where
  all_ended: "list_all (\<lambda>p. p = []) ps \<Longrightarrow> interleaving ps []"
| one_runs: "r < length ps \<Longrightarrow> ps ! r = x # xs \<Longrightarrow> interleaving (ps[r := xs]) ops \<Longrightarrow> interleaving ps (x # ops)"

lemma interleaving_idle: "interleaving ps ops \<Longrightarrow> interleaving ([] # ps) ops"
proof (induction rule: interleaving.induct)
  case (one_runs r ps x xs ops)
  then show ?case using interleaving.one_runs [of "Suc r" "[] # ps" x xs ops] by simp
qed (simp add: all_ended)

lemma interleaving_first: "interleaving ps ops \<Longrightarrow> interleaving (xs # ps) (xs @ ops)"
proof (induction xs)
  case (Cons x xs)
  then show ?case using interleaving.one_runs [of 0 "(x # xs) # ps" x xs "xs @ ops"] by simp
qed (simp add: interleaving_idle)

lemma interleave_interleaving: "interleaving ps (interleave rs ps)"
proof (induction rs ps rule: interleave.induct)
  case (1 ps)
  show ?case by (induction ps) (auto intro: all_ended interleaving_first)
next
  case (2 r rs ps)
  show ?case
  proof (cases "r < length ps")
    case True
    then show ?thesis using 2 by (cases "ps ! r") (auto intro: one_runs)
  qed (use 2 in simp)
qed

text \<open>A property of the state and of how many operations each rank has done, kept by every operation.\<close>

lemma interleaving_progress:
  assumes "interleaving rs ops" "rs = map (\<lambda>i. drop (pos i) (ps ! i)) [0..<length ps]" "Inv pos s"
    and bound: "\<forall>i < length ps. pos i \<le> length (ps ! i)"
    and step: "\<And>pos r s. r < length ps \<Longrightarrow> pos r < length (ps ! r) \<Longrightarrow> Inv pos s \<Longrightarrow> Inv (pos(r := Suc (pos r))) ((ps ! r ! pos r) s)"
    and "j \<le> length ops"
  shows "\<exists>pos'. (\<forall>i < length ps. pos' i \<le> length (ps ! i)) \<and> Inv pos' (run_ops (take j ops) s) \<and>
    (j = length ops \<longrightarrow> (\<forall>i < length ps. pos' i = length (ps ! i)))"
  using assms(1-4,6)
proof (induction arbitrary: pos s j rule: interleaving.induct)
  case (all_ended rs)
  then have "\<forall>i < length ps. length (ps ! i) \<le> pos i" by (auto simp: list_all_iff)
  then have "\<forall>i < length ps. pos i = length (ps ! i)" using all_ended.prems(3) by (simp add: le_antisym)
  then show ?case using all_ended.prems(2,3) by (intro exI [of _ pos]) simp
next
  case (one_runs r rs x xs ops)
  have r: "r < length ps" "drop (pos r) (ps ! r) = x # xs" using one_runs.hyps(1,2) one_runs.prems(1) by auto
  then have x: "pos r < length (ps ! r)" "ps ! r ! pos r = x" "drop (Suc (pos r)) (ps ! r) = xs"
    using drop_eq_Nil [of "pos r" "ps ! r"] Cons_nth_drop_Suc [of "pos r" "ps ! r"] by fastforce+
  show ?case
  proof (cases j)
    case 0
    then show ?thesis using one_runs.prems by (intro exI [of _ pos]) auto
  next
    case (Suc j')
    let ?pos = "pos(r := Suc (pos r))"
    have "rs[r := xs] = map (\<lambda>i. drop (?pos i) (ps ! i)) [0..<length ps]"
      by (rule nth_equalityI) (use x in \<open>auto simp: one_runs.prems(1) nth_list_update\<close>)
    moreover have "Inv ?pos (x s)" using step [OF r(1) x(1) one_runs.prems(2)] x(2) by simp
    moreover have "\<forall>i < length ps. ?pos i \<le> length (ps ! i)" using one_runs.prems(3) x(1) by simp
    moreover have "j' \<le> length ops" using one_runs.prems(4) Suc by simp
    ultimately have "\<exists>pos'. (\<forall>i < length ps. pos' i \<le> length (ps ! i)) \<and> Inv pos' (run_ops (take j' ops) (x s)) \<and>
      (j' = length ops \<longrightarrow> (\<forall>i < length ps. pos' i = length (ps ! i)))" by (rule one_runs.IH)
    then show ?thesis using Suc by simp
  qed
qed

lemma interleave_progress:
  assumes "Inv (\<lambda>_. 0) s"
    and "\<And>pos r s. r < length ps \<Longrightarrow> pos r < length (ps ! r) \<Longrightarrow> Inv pos s \<Longrightarrow> Inv (pos(r := Suc (pos r))) ((ps ! r ! pos r) s)"
    and "j \<le> length (interleave rs ps)"
  shows "\<exists>pos. (\<forall>i < length ps. pos i \<le> length (ps ! i)) \<and> Inv pos (run_ops (take j (interleave rs ps)) s) \<and>
    (j = length (interleave rs ps) \<longrightarrow> (\<forall>i < length ps. pos i = length (ps ! i)))"
  using interleaving_progress [of ps "interleave rs ps" "\<lambda>_. 0" ps Inv s j] interleave_interleaving [of ps rs] assms
  by (simp add: map_nth)

subsection \<open>The phases of a save\<close>

text \<open>Creating the folder: rank 0 makes room first, the other ranks may come before it.\<close>

lemma start_phase:
  fixes rs :: "nat list" and m :: nat
  assumes "saved dir k cs s" "wf_saves (cs @ [c])"
  defines "mk \<equiv> on_disk (makedirs (step_folder dir (ck_step c)))"
  defines "ops \<equiv> interleave rs ([ensure_checkpoint_capacity k, mk] # replicate m [mk])"
  shows "always (staged dir k cs) ops s" "stage dir cs (dropped_before k (length cs)) [] (run_ops ops s)"
    "sv_disk (run_ops ops s) (step_folder dir (ck_step c)) \<noteq> None"
proof -
  let ?ps = "[ensure_checkpoint_capacity k, mk] # replicate m [mk]" let ?f = "step_folder dir (ck_step c)"
  define Inv where "Inv pos s \<longleftrightarrow> stage dir cs (if pos 0 = 0 then dropped k (length cs) else dropped_before k (length cs)) [] s \<and>
    (pos 0 = 2 \<longrightarrow> sv_disk s ?f \<noteq> None)" for pos :: "nat \<Rightarrow> nat" and s
  have mk: "sv_disk (mk s) ?f \<noteq> None" for s by (simp add: mk_def on_disk_def makedirs_def)
  have keep: "Inv pos s \<Longrightarrow> Inv pos (mk s)" for pos s
    using mk makedirs_stage [OF _ assms(2)] by (auto simp: Inv_def mk_def)
  have step: "Inv (pos(r := Suc (pos r))) ((?ps ! r ! pos r) s)"
    if r: "r < length ?ps" "pos r < length (?ps ! r)" "Inv pos s" for pos r s
  proof (cases r)
    case 0
    show ?thesis
    proof (cases "pos 0 = 0")
      case True
      then have "saved dir k cs s" using r(3) by (simp add: Inv_def saved_stage)
      from ensure_stage [OF this] show ?thesis using True 0 assms(2) by (simp add: Inv_def wf_saves_snoc)
    next
      case False
      then have "pos 0 = 1" using r(2) 0 by simp
      then show ?thesis using 0 keep [OF r(3)] mk by (simp add: Inv_def)
    qed
  next
    case (Suc i)
    then show ?thesis using r keep [OF r(3)] by (simp add: Inv_def)
  qed
  have prog: "\<exists>pos. Inv pos (run_ops (take j ops) s) \<and> (j = length ops \<longrightarrow> pos 0 = 2)" if "j \<le> length ops" for j
  proof -
    have "Inv (\<lambda>_. 0) s" using assms(1) by (simp add: Inv_def saved_stage)
    from interleave_progress [of Inv, OF this step, of j rs] that obtain pos
      where "Inv pos (run_ops (take j ops) s)" "j = length ops \<longrightarrow> (\<forall>i < length ?ps. pos i = length (?ps ! i))"
      unfolding ops_def by blast
    then show ?thesis by (intro exI [of _ pos]) auto
  qed
  show "always (staged dir k cs) ops s"
    unfolding always_def
  proof (intro allI impI)
    fix j
    assume "j \<le> length ops"
    then obtain pos where "Inv pos (run_ops (take j ops) s)" using prog by blast
    then have "stage dir cs (if pos 0 = 0 then dropped k (length cs) else dropped_before k (length cs)) [] (run_ops (take j ops) s)"
      unfolding Inv_def by (rule conjunct1)
    then show "staged dir k cs (run_ops (take j ops) s)" by (rule stagedI) simp
  qed
  show "stage dir cs (dropped_before k (length cs)) [] (run_ops ops s)" "sv_disk (run_ops ops s) ?f \<noteq> None"
    using prog [of "length ops"] by (auto simp: Inv_def)
qed

text \<open>Writing the engine's files.\<close>

lemma files_phase:
  assumes "stage dir cs D ex s" "sv_disk s (step_folder dir (ck_step c)) \<noteq> None" "wf_saves (cs @ [c])"
  shows "engine_complete dir c (sv_disk (run_ops (write_files (step_folder dir (ck_step c)) (ck_files c)) s))"
proof -
  let ?f = "step_folder dir (ck_step c)"
  have d: "distinct (keys (ck_files c))" using assms(3) by (simp add: wf_saves_snoc wf_checkpoint_def)
  have "sv_disk (run_ops (write_files ?f (ck_files c)) s) (path_join ?f f) = Some (Blob d)" if "(f, d) \<in> set (ck_files c)" for f d
    using run_writes [OF d, of ?f s f] d that by (simp add: keys_def)
  then show ?thesis using run_writes_keep [OF assms(2)] by (auto simp: engine_complete_def Let_def)
qed

text \<open>After the engine's save. What stays true of the earlier checkpoints once the tracker has changed.\<close>

definition kept :: "string \<Rightarrow> 'd checkpoint list \<Rightarrow> nat \<Rightarrow> string list \<Rightarrow> 'd saver \<Rightarrow> bool" where
  "kept dir cs D ex s \<longleftrightarrow>
     previous_saved_paths s = map (\<lambda>c. step_folder dir (ck_step c)) (drop D cs) @ ex \<and>
     (\<forall>c \<in> set (drop D cs). complete dir c (sv_disk s)) \<and>
     (\<forall>c \<in> set (take D cs). sv_disk s (step_folder dir (ck_step c)) = None)"

lemma kept_frame:
  assumes "kept dir cs D ex s" "previous_saved_paths s' = previous_saved_paths s"
    and same: "\<And>q c. c \<in> set cs \<Longrightarrow> inside dir (ck_step c) q \<Longrightarrow> sv_disk s' q = sv_disk s q"
  shows "kept dir cs D ex s'"
proof -
  have "complete dir c (sv_disk s')" if c: "c \<in> set (drop D cs)" for c
    using complete_frame [of dir c "sv_disk s" "sv_disk s'"] same [OF in_set_dropD [OF c]] assms(1) c by (simp add: kept_def)
  moreover have "sv_disk s' (step_folder dir (ck_step c)) = None" if c: "c \<in> set (take D cs)" for c
    using same [OF in_set_takeD [OF c] inside_folder(1)] assms(1) c by (simp add: kept_def)
  ultimately show ?thesis using assms(1,2) by (auto simp: kept_def)
qed

lemma stage_kept: "stage dir cs D ex s \<Longrightarrow> kept dir cs D ex s"
  by (simp add: stage_def kept_def)

text \<open>The state after the engine's files, when rank 0 has done \<open>i\<close> of its operations.\<close>

definition midway :: "string \<Rightarrow> int option \<Rightarrow> 'd checkpoint list \<Rightarrow> 'd checkpoint \<Rightarrow> nat \<Rightarrow> 'd saver \<Rightarrow> bool" where
  "midway dir k cs c i s \<longleftrightarrow> engine_complete dir c (sv_disk s) \<and> (2 < i \<longrightarrow> has_data dir c 0 (sv_disk s)) \<and>
     (i = 0 \<longrightarrow> stage dir cs (dropped_before k (length cs)) [] s) \<and>
     (0 < i \<and> i < 5 \<longrightarrow> stage dir cs (dropped k (length cs + 1)) [step_folder dir (ck_step c)] s) \<and>
     (i = 4 \<longrightarrow> sv_disk s (get_checkpoint_tracker_filename dir @ ''.tmp'') = Some (Text (nat_string (ck_step c)))) \<and>
     (i = 5 \<longrightarrow> kept dir cs (dropped k (length cs + 1)) [step_folder dir (ck_step c)] s \<and> tracked dir (ck_step c) (sv_disk s))"

lemma data_file_inj [simp]: "data_file f r = data_file f r' \<longleftrightarrow> r = r'"
  by (simp add: data_file_def)

lemma data_file_other [simp]: "data_file f r \<noteq> f"
  by (simp add: data_file_def path_join_def)

lemma data_file_engine: "wf_checkpoint c \<Longrightarrow> r < length (ck_data c) \<Longrightarrow> (f, d) \<in> set (ck_files c) \<Longrightarrow> path_join p f \<noteq> data_file p r"
  by (force simp: wf_checkpoint_def list_all_iff data_file_def keys_def)

lemma outside_path: "inside dir n p \<Longrightarrow> p \<noteq> get_checkpoint_tracker_filename dir"
  "inside dir n p \<Longrightarrow> p \<noteq> get_checkpoint_tracker_filename dir @ ''.tmp''"
  by auto

lemma midway_makedirs:
  assumes "midway dir k cs c i s" "wf_saves (cs @ [c])"
  shows "midway dir k cs c i (on_disk (makedirs (step_folder dir (ck_step c))) s)"
proof -
  let ?s = "on_disk (makedirs (step_folder dir (ck_step c))) s"
  have disk: "sv_disk s q \<noteq> None \<Longrightarrow> sv_disk ?s q = sv_disk s q" for q by (simp add: on_disk_def makedirs_folder)
  have "engine_complete dir c (sv_disk ?s)"
    using assms(1) engine_complete_frame [of dir c "sv_disk s"] disk by (simp add: midway_def)
  moreover have "kept dir cs D ex s \<Longrightarrow> kept dir cs D ex ?s" for D ex
    by (erule kept_frame) (use assms(2) in \<open>auto simp: on_disk_def wf_saves_snoc intro!: makedirs_folder\<close>)
  ultimately show ?thesis
    using assms(1) disk makedirs_stage [OF _ assms(2)] by (simp add: midway_def has_data_def tracked_def)
qed

lemma midway_data:
  assumes "midway dir k cs c i s" "wf_saves (cs @ [c])" "r < length (ck_data c)"
  shows "midway dir k cs c i (write_entry (data_file (step_folder dir (ck_step c)) r) (Blob (ck_data c ! r)) s)"
proof -
  let ?p = "data_file (step_folder dir (ck_step c)) r" let ?s = "write_entry ?p (Blob (ck_data c ! r)) s"
  have disk: "sv_disk ?s q = (if q = ?p then Some (Blob (ck_data c ! r)) else sv_disk s q)" for q
    by (simp add: write_entry_def on_disk_def)
  have "path_join (step_folder dir (ck_step c)) f \<noteq> ?p" if "(f, d) \<in> set (ck_files c)" for f d
    using data_file_engine [OF _ assms(3) that] assms(2) by (simp add: wf_saves_snoc)
  then have "engine_complete dir c (sv_disk ?s)"
    using assms(1) disk data_file_other [of "step_folder dir (ck_step c)" r] by (fastforce simp: midway_def engine_complete_def Let_def)
  moreover have "kept dir cs D ex s \<Longrightarrow> kept dir cs D ex ?s" for D ex
  proof (erule kept_frame)
    show "sv_disk ?s q = sv_disk s q" if "c' \<in> set cs" "inside dir (ck_step c') q" for q c'
      using that other_inside [OF assms(2) that(1) data_file_inside] by (auto simp: disk)
  qed (simp add: write_entry_def on_disk_def)
  moreover have "stage dir cs D ex s \<Longrightarrow> stage dir cs D ex ?s" for D ex
    by (rule write_stage [OF _ assms(2)]) auto
  moreover have "get_checkpoint_tracker_filename dir \<noteq> ?p" "get_checkpoint_tracker_filename dir @ ''.tmp'' \<noteq> ?p"
    using outside_path [OF data_file_inside] by metis+
  ultimately show ?thesis using assms(1) by (simp add: midway_def has_data_def tracked_def disk)
qed

text \<open>Rank 0's operations, one after the other.\<close>

lemma midway_rank0:
  assumes "midway dir k cs c i s" "wf_saves (cs @ [c])" "i < 5"
  shows "midway dir k cs c (Suc i) ((rank0_ops dir k c ! i) s)"
proof -
  let ?f = "step_folder dir (ck_step c)" let ?t = "get_checkpoint_tracker_filename dir"
  have data: "0 < length (ck_data c)" using assms(2) by (simp add: wf_saves_snoc wf_checkpoint_def)
  consider "i = 0" | "i = 1" | "i = 2" | "i = 3" | "i = 4" using assms(3) by linarith
  then show ?thesis
  proof cases
    case 1
    then have st: "stage dir cs (dropped_before k (length cs)) [] s" using assms(1) by (simp add: midway_def)
    have "engine_complete dir c (sv_disk (register_checkpoint ?f k s))"
      using assms(1) engine_complete_frame [of dir c "sv_disk s"] register_stage(2) [OF st assms(2)] by (simp add: midway_def)
    then show ?thesis using 1 register_stage(1) [OF st assms(2)] by (simp add: midway_def rank0_ops_def Let_def)
  next
    case 2
    then show ?thesis using midway_makedirs [OF assms(1,2)] by (simp add: midway_def rank0_ops_def Let_def)
  next
    case 3
    have "has_data dir c 0 (sv_disk (write_entry (data_file ?f 0) (Blob (ck_data c ! 0)) s))"
      by (simp add: has_data_def write_entry_def on_disk_def)
    then show ?thesis using 3 midway_data [OF assms(1,2) data] by (simp add: midway_def rank0_ops_def Let_def numeral_2_eq_2)
  next
    case 4
    let ?s = "write_entry (?t @ ''.tmp'') (Text (nat_string (ck_step c))) s"
    have disk: "inside dir (ck_step c) q \<Longrightarrow> sv_disk ?s q = sv_disk s q" for q by (auto simp: write_entry_def on_disk_def)
    have "engine_complete dir c (sv_disk ?s)"
      using assms(1) engine_complete_frame [of dir c "sv_disk s"] disk by (simp add: midway_def)
    moreover have "stage dir cs (dropped k (length cs + 1)) [?f] ?s"
      using write_stage [OF _ assms(2)] assms(1) 4 by (simp add: midway_def)
    moreover have "sv_disk ?s (?t @ ''.tmp'') = Some (Text (nat_string (ck_step c)))" by (simp add: write_entry_def on_disk_def)
    ultimately show ?thesis using 4 assms(1) disk by (simp add: midway_def rank0_ops_def has_data_def Let_def numeral_3_eq_3)
  next
    case 5
    let ?s = "rename_entry (?t @ ''.tmp'') ?t s"
    have disk: "inside dir n q \<Longrightarrow> sv_disk ?s q = sv_disk s q" for q n by (auto simp: rename_entry_def on_disk_def)
    have "engine_complete dir c (sv_disk ?s)"
      using assms(1) engine_complete_frame [of dir c "sv_disk s"] disk by (simp add: midway_def)
    moreover have "kept dir cs (dropped k (length cs + 1)) [?f] s" using assms(1) 5 by (simp add: midway_def stage_kept)
    then have "kept dir cs (dropped k (length cs + 1)) [?f] ?s"
      by (rule kept_frame) (use disk in \<open>auto simp: rename_entry_def on_disk_def\<close>)
    moreover have "tracked dir (ck_step c) (sv_disk ?s)"
      using assms(1) 5 by (simp add: midway_def tracked_def rename_entry_def on_disk_def)
    moreover have "has_data dir c 0 (sv_disk ?s)"
      using assms(1) 5 disk [OF data_file_inside] by (simp add: midway_def has_data_def)
    ultimately show ?thesis using 5 by (simp add: midway_def rank0_ops_def Let_def eval_nat_numeral)
  qed
qed

lemma has_data_op:
  assumes "has_data dir c r (sv_disk s)"
  shows "has_data dir c r (sv_disk (on_disk (makedirs (step_folder dir (ck_step c))) s))"
    "has_data dir c r (sv_disk (write_entry (data_file (step_folder dir (ck_step c)) r') (Blob (ck_data c ! r')) s))"
  using assms by (auto simp: has_data_def on_disk_def write_entry_def makedirs_folder)

lemma has_data_rank0:
  assumes "has_data dir c r (sv_disk s)" "midway dir k cs c i s" "wf_saves (cs @ [c])" "i < 5"
  shows "has_data dir c r (sv_disk ((rank0_ops dir k c ! i) s))"
proof -
  have in_folder: "inside dir (ck_step c) (data_file (step_folder dir (ck_step c)) r)" by simp
  consider "i = 0" | "i = 1" | "i = 2" | "i = 3" | "i = 4" using assms(4) by linarith
  then show ?thesis
  proof cases
    case 1
    then have "stage dir cs (dropped_before k (length cs)) [] s" using assms(2) by (simp add: midway_def)
    from register_stage(2) [OF this assms(3) in_folder] show ?thesis using 1 assms(1)
      by (simp add: has_data_def rank0_ops_def Let_def)
  next
    case 4
    then show ?thesis using assms(1) outside_path(2) [OF in_folder]
      by (simp add: has_data_def rank0_ops_def Let_def write_entry_def on_disk_def numeral_3_eq_3)
  next
    case 5
    then show ?thesis using assms(1) outside_path [OF in_folder]
      by (simp add: has_data_def rank0_ops_def Let_def rename_entry_def on_disk_def eval_nat_numeral)
  qed (use has_data_op [OF assms(1)] in \<open>simp_all add: rank0_ops_def Let_def numeral_2_eq_2\<close>)
qed

text \<open>The last phase: at every moment rank 0 is at one of its operations, and at the end all data files are there.\<close>

lemma last_phase:
  assumes "midway dir k cs c 0 s" "wf_saves (cs @ [c])"
  defines "ops \<equiv> interleave (ck_order c) (rank0_ops dir k c # map (dp_rank_ops dir c) [1..<length (ck_data c)])"
  assumes "j \<le> length ops"
  shows "\<exists>i \<le> 5. midway dir k cs c i (run_ops (take j ops) s) \<and>
    (j = length ops \<longrightarrow> i = 5 \<and> complete dir c (sv_disk (run_ops (take j ops) s)))"
proof -
  let ?ps = "rank0_ops dir k c # map (dp_rank_ops dir c) [1..<length (ck_data c)]"
  have data: "0 < length (ck_data c)" using assms(2) by (simp add: wf_saves_snoc wf_checkpoint_def)
  then have len: "length ?ps = length (ck_data c)" by simp
  have r0: "length (rank0_ops dir k c) = 5" by (simp add: rank0_ops_def Let_def)
  define Inv where "Inv pos s \<longleftrightarrow> midway dir k cs c (pos 0) s \<and>
    (\<forall>r. 0 < r \<and> pos r = 2 \<longrightarrow> has_data dir c r (sv_disk s))" for pos :: "nat \<Rightarrow> nat" and s
  have step: "Inv (pos(r := Suc (pos r))) ((?ps ! r ! pos r) s)"
    if r: "r < length ?ps" "pos r < length (?ps ! r)" "Inv pos s" for pos r s
  proof (cases r)
    case 0
    then have "pos 0 < 5" using r(2) r0 by simp
    then show ?thesis using 0 r(3) midway_rank0 [OF _ assms(2)] has_data_rank0 [OF _ _ assms(2)] by (simp add: Inv_def)
  next
    case (Suc r')
    then have ops: "?ps ! r = dp_rank_ops dir c r" and rl: "r < length (ck_data c)" using r(1) by simp_all
    then consider "pos r = 0" | "pos r = 1" using r(2) by (fastforce simp: dp_rank_ops_def Let_def)
    then show ?thesis
    proof cases
      case 1
      then show ?thesis using r(3) midway_makedirs [OF _ assms(2)] ops Suc
        by (auto simp: Inv_def dp_rank_ops_def Let_def intro: has_data_op(1))
    next
      case 2
      have "has_data dir c r (sv_disk (write_entry (data_file (step_folder dir (ck_step c)) r) (Blob (ck_data c ! r)) s))"
        by (simp add: has_data_def write_entry_def on_disk_def)
      then show ?thesis using 2 r(3) midway_data [OF _ assms(2) rl] ops Suc
        by (auto simp: Inv_def dp_rank_ops_def Let_def intro: has_data_op(2))
    qed
  qed
  have "Inv (\<lambda>_. 0) s" using assms(1) by (simp add: Inv_def)
  from interleave_progress [of Inv, OF this step, of j "ck_order c"] assms(4) obtain pos
    where pos: "\<forall>i < length ?ps. pos i \<le> length (?ps ! i)" "Inv pos (run_ops (take j ops) s)"
      "j = length ops \<longrightarrow> (\<forall>i < length ?ps. pos i = length (?ps ! i))"
    unfolding ops_def by blast
  have five: "pos 0 \<le> 5" using pos(1) r0 by auto
  moreover have "pos 0 = 5 \<and> complete dir c (sv_disk (run_ops (take j ops) s))" if "j = length ops"
  proof -
    have full: "\<forall>i < length ?ps. pos i = length (?ps ! i)" using pos(3) that by simp
    then have p0: "pos 0 = 5" using r0 by auto
    have "has_data dir c r (sv_disk (run_ops (take j ops) s))" if "r < length (ck_data c)" for r
    proof (cases r)
      case 0
      then show ?thesis using pos(2) p0 by (simp add: Inv_def midway_def)
    next
      case (Suc r')
      then have "?ps ! r = dp_rank_ops dir c r" using that by simp
      then have "pos r = 2" using full that len by (simp add: dp_rank_ops_def Let_def)
      then show ?thesis using pos(2) Suc by (simp add: Inv_def)
    qed
    then show ?thesis using p0 pos(2) by (simp add: complete_def Inv_def midway_def)
  qed
  ultimately show ?thesis using pos(2) by (auto simp: Inv_def)
qed

text \<open>During the last phase the tracker names the last checkpoint, which is complete, or the new one with all the files of the
  engine and the data of rank 0.\<close>

definition resumable :: "string \<Rightarrow> int option \<Rightarrow> 'd checkpoint list \<Rightarrow> 'd checkpoint \<Rightarrow> 'd saver \<Rightarrow> bool" where
  "resumable dir k cs c s \<longleftrightarrow> staged dir k cs s \<or>
     tracked dir (ck_step c) (sv_disk s) \<and> engine_complete dir c (sv_disk s) \<and> has_data dir c 0 (sv_disk s)"

lemma midway_resumable: "midway dir k cs c i s \<Longrightarrow> i \<le> 5 \<Longrightarrow> resumable dir k cs c s"
proof -
  assume m: "midway dir k cs c i s" "i \<le> 5"
  then consider "i = 0" | "0 < i" "i < 5" | "i = 5" by linarith
  then show "resumable dir k cs c s" by cases (use m in \<open>auto simp: midway_def resumable_def intro: stagedI\<close>)
qed

lemma handler_save_stages:
  assumes "saved dir k cs s" "wf_saves (cs @ [c])"
  shows "always (resumable dir k cs c) (handler_save_ops dir k c) s" "saved dir k (cs @ [c]) (handler_save dir k c s)"
proof -
  let ?f = "step_folder dir (ck_step c)" let ?W = "write_files ?f (ck_files c)"
  let ?A = "interleave (ck_start c) ([ensure_checkpoint_capacity k, on_disk (makedirs ?f)] # replicate (ck_world c - 1) [on_disk (makedirs ?f)])"
  let ?C = "interleave (ck_order c) (rank0_ops dir k c # map (dp_rank_ops dir c) [1..<length (ck_data c)])"
  let ?sA = "run_ops ?A s" let ?sB = "run_ops ?W ?sA"
  note A = start_phase [OF assms, of "ck_start c" "ck_world c - 1"]
  have B: "always (stage dir cs (dropped_before k (length cs)) []) ?W ?sA" "stage dir cs (dropped_before k (length cs)) [] ?sB"
    using writes_stage [OF A(2) assms(2)] by auto
  have m: "midway dir k cs c 0 ?sB" using files_phase [OF A(2,3) assms(2)] B(2) by (simp add: midway_def)
  have ops: "handler_save_ops dir k c = ?A @ ?W @ ?C" by (simp add: handler_save_ops_def Let_def)
  have "always (resumable dir k cs c) ?A s" using A(1) by (simp add: always_def resumable_def)
  moreover have "always (resumable dir k cs c) ?W ?sA"
    unfolding always_def resumable_def using B(1) by (auto simp: always_def intro!: disjI1 stagedI [OF _ disjI2 [OF disjI1 [OF refl]]])
  moreover have "always (resumable dir k cs c) ?C ?sB"
    unfolding always_def using last_phase [OF m assms(2)] midway_resumable by blast
  ultimately show "always (resumable dir k cs c) (handler_save_ops dir k c) s" by (simp only: ops always_append)
  have "midway dir k cs c 5 (run_ops ?C ?sB)" "complete dir c (sv_disk (run_ops ?C ?sB))"
    using last_phase [OF m assms(2) order_refl] by auto
  moreover have "handler_save dir k c s = run_ops ?C ?sB" by (simp only: handler_save_def ops run_ops_simps)
  moreover have "dropped k (length cs + 1) \<le> length cs" by (auto simp: dropped_def split: option.splits)
  ultimately show "saved dir k (cs @ [c]) (handler_save dir k c s)" by (auto simp: saved_def midway_def kept_def)
qed

subsection \<open>Histories\<close>

definition save_all :: "string \<Rightarrow> int option \<Rightarrow> 'd disk \<Rightarrow> 'd checkpoint list \<Rightarrow> 'd saver" where
  "save_all dir k fs cs = fold (handler_save dir k) cs (fresh_saver fs)"

lemma save_all_saved: "wf_saves cs \<Longrightarrow> saved dir k cs (save_all dir k fs cs)"
proof (induction cs rule: rev_induct)
  case Nil
  show ?case by (simp add: save_all_def saved_fresh)
next
  case (snoc c cs)
  then have "saved dir k cs (save_all dir k fs cs)" by (simp add: wf_saves_snoc)
  then show ?case using handler_save_stages(2) snoc.prems by (auto simp: save_all_def)
qed

lemma stage_latest:
  assumes "stage dir cs D ex s" "D < length cs"
  shows "find_latest_ckpt_path (Some dir) (sv_disk s) = Inr (Some (step_folder dir (ck_step (last cs)))) \<and>
    complete dir (last cs) (sv_disk s)"
proof -
  have ne: "cs \<noteq> []" and "last cs \<in> set (drop D cs)"
    using assms(2) last_in_set [of "drop D cs"] by auto
  then have c: "complete dir (last cs) (sv_disk s)" using assms(1) by (simp add: stage_def)
  then show ?thesis using assms(1) ne by (auto simp: stage_def complete_def engine_complete_def Let_def intro: find_latest_tracked)
qed

text \<open>C29: Rotation keeps the newest checkpoints. A process saves checkpoints of different steps with a limit
  \<open>k\<close> on whatever the disk held before. If \<open>k\<close> is positive the manager's list names the last \<open>k\<close> of them
  (all without a limit), these are complete on disk, the folders of the older ones are gone, and resuming
  finds the last one.\<close>

theorem rotation_keeps_newest:
  assumes "wf_saves cs" and "cs \<noteq> []"
  shows "let s = save_all dir k fs cs; n = (case k of Some i \<Rightarrow> if 0 < i then length cs - nat i else 0 | None \<Rightarrow> 0) in
    previous_saved_paths s = map (\<lambda>c. step_folder dir (ck_step c)) (drop n cs) \<and>
    list_all (\<lambda>c. complete dir c (sv_disk s)) (drop n cs) \<and>
    list_all (\<lambda>c. sv_disk s (step_folder dir (ck_step c)) = None) (take n cs) \<and>
    find_latest_ckpt_path (Some dir) (sv_disk s) = Inr (Some (step_folder dir (ck_step (last cs))))"
proof -
  let ?s = "save_all dir k fs cs"
  have s: "saved dir k cs ?s" by (rule save_all_saved [OF assms(1)])
  have lt: "dropped k (length cs) < length cs" using assms(2) by (auto simp: dropped_def split: option.splits)
  have "find_latest_ckpt_path (Some dir) (sv_disk ?s) = Inr (Some (step_folder dir (ck_step (last cs))))"
    using stage_latest [OF s [unfolded saved_stage] lt] by simp
  then show ?thesis using s by (simp add: saved_def dropped_def [symmetric] list_all_iff Let_def)
qed

text \<open>C3: A crash loses at most the checkpoint being written. A process has saved \<open>cs\<close>, with a limit other than
  1, and all ranks crash after any number \<open>j\<close> of the operations that save \<open>c\<close>, which the ranks do in any order that the
  barriers allow: making room, creating folders, writing any of the files, registering, writing the data loaders' states and the
  tracker. The tracker then leads to the last checkpoint before, with all its files as they were saved, or to \<open>c\<close> with all the
  files that the engine saves on every rank and the state of rank 0's data loader. When all operations were done it leads to \<open>c\<close>, with
  the files of all ranks. (In between, the data loader's state of another data-parallel rank may be missing:
  \<open>tracker_before_data\<close>.)\<close>

theorem crash_keeps_last_checkpoint:
  assumes "wf_saves (cs @ [c])" and "cs \<noteq> []" and "k \<noteq> Some 1" and "j \<le> length (handler_save_ops dir k c)"
  shows "let fs' = sv_disk (run_ops (take j (handler_save_ops dir k c)) (save_all dir k fs cs));
      latest = find_latest_ckpt_path (Some dir) fs' in
    (latest = Inr (Some (step_folder dir (ck_step (last cs)))) \<and> complete dir (last cs) fs' \<or>
     latest = Inr (Some (step_folder dir (ck_step c))) \<and> engine_complete dir c fs' \<and> has_data dir c 0 fs') \<and>
    (j = length (handler_save_ops dir k c) \<longrightarrow> latest = Inr (Some (step_folder dir (ck_step c))) \<and> complete dir c fs')"
proof -
  let ?s = "save_all dir k fs cs" let ?ops = "handler_save_ops dir k c" let ?s' = "run_ops (take j ?ops) ?s"
  have s: "saved dir k cs ?s" using assms(1) by (simp add: save_all_saved wf_saves_snoc)
  have "resumable dir k cs c ?s'" using handler_save_stages(1) [OF s assms(1)] assms(4) by (simp add: always_def)
  then consider D ex where "stage dir cs D ex ?s'" "D < length cs"
    | "tracked dir (ck_step c) (sv_disk ?s')" "engine_complete dir c (sv_disk ?s')" "has_data dir c 0 (sv_disk ?s')"
    using assms(2,3) by (auto simp: resumable_def staged_def)
  then have "find_latest_ckpt_path (Some dir) (sv_disk ?s') = Inr (Some (step_folder dir (ck_step (last cs)))) \<and> complete dir (last cs) (sv_disk ?s') \<or>
     find_latest_ckpt_path (Some dir) (sv_disk ?s') = Inr (Some (step_folder dir (ck_step c))) \<and> engine_complete dir c (sv_disk ?s') \<and> has_data dir c 0 (sv_disk ?s')"
  proof cases
    case 2
    then show ?thesis using find_latest_tracked [OF 2(1)] by (simp add: engine_complete_def Let_def)
  qed (use stage_latest in blast)
  moreover have "find_latest_ckpt_path (Some dir) (sv_disk ?s') = Inr (Some (step_folder dir (ck_step c))) \<and> complete dir c (sv_disk ?s')"
    if "j = length ?ops"
  proof -
    have "stage dir (cs @ [c]) (dropped k (length (cs @ [c]))) [] ?s'"
      using handler_save_stages(2) [OF s assms(1)] that by (simp add: handler_save_def saved_stage)
    moreover have "dropped k (length (cs @ [c])) < length (cs @ [c])" by (auto simp: dropped_def split: option.splits)
    ultimately show ?thesis using stage_latest [of dir "cs @ [c]"] by simp
  qed
  ultimately show ?thesis by (simp only: Let_def) blast
qed

text \<open>C35: With a limit of 1 there is a moment without a checkpoint to resume from. Once the new checkpoint is
  registered the previous one is removed, but the tracker still names it until the end of the save: a crash
  in between makes \<open>find_latest_ckpt_path\<close> find nothing, and training starts from scratch.\<close>

theorem keep_one_crash_window:
  assumes "wf_saves (cs @ [c])" and "cs \<noteq> []"
  shows "find_latest_ckpt_path (Some dir)
    (sv_disk (run_ops (fsdp_save_ops (step_folder dir (ck_step c)) (Some 1) (ck_files c)) (save_all dir (Some 1) fs cs))) = Inr None"
proof -
  let ?f = "step_folder dir (ck_step c)" let ?s = "save_all dir (Some 1) fs cs"
  let ?W = "write_files ?f (ck_files c)"
  let ?D = "dropped_before (Some 1) (length cs)"
  have s: "saved dir (Some 1) cs ?s" and cs: "wf_saves cs" using assms(1) by (simp_all add: save_all_saved wf_saves_snoc)
  have "stage dir cs ?D [] (on_disk (makedirs ?f) (ensure_checkpoint_capacity (Some 1) ?s))"
    by (rule makedirs_stage [OF ensure_stage [OF s cs] assms(1)])
  then have "stage dir cs ?D [] (run_ops ?W (on_disk (makedirs ?f) (ensure_checkpoint_capacity (Some 1) ?s)))"
    using writes_stage [OF _ assms(1)] by blast
  then have "stage dir cs (dropped (Some 1) (length cs + 1)) [?f] (run_ops (fsdp_save_ops ?f (Some 1) (ck_files c)) ?s)"
    using register_stage(1) [OF _ assms(1)] by (simp add: fsdp_save_ops_def)
  then have st: "stage dir cs (length cs) [?f] (run_ops (fsdp_save_ops ?f (Some 1) (ck_files c)) ?s)"
    by (simp add: dropped_def)
  let ?fs = "sv_disk (run_ops (fsdp_save_ops ?f (Some 1) (ck_files c)) ?s)"
  have "?fs (step_folder dir (ck_step (last cs))) = None" "tracked dir (ck_step (last cs)) ?fs"
    using st assms(2) by (simp_all add: stage_def)
  then show ?thesis by (simp add: tracked_def find_latest_ckpt_path_def step_folder_def Let_def)
qed

subsection \<open>Resuming\<close>

text \<open>Between opening and writing its tracker the PPO trainer leaves an empty file, which is no number.\<close>

lemma ppo_tracker_window:
  "find_latest_ckpt_path (Some dir) (sv_disk (run_ops (take 1 (ppo_tracker_ops dir n)) s)) = Inl ValueError"
  by (simp add: ppo_tracker_ops_def Let_def write_entry_def on_disk_def find_latest_ckpt_path_def py_int_def py_strip_def
      take_sign_def)

lemma extract_step_hit:
  "extract_step (''global_step_'' @ nat_string n) = Some n"
proof -
  have "takeWhile is_digit (nat_string n) = nat_string n" using takeWhile_nat_string [of "[]" n] by simp
  moreover have "drop 12 (''global_step_'' @ nat_string n) = nat_string n" by (simp add: numeral_eq_Suc)
  moreover have "''global_step_'' @ nat_string n = CHR ''g'' # (''lobal_step_'' @ nat_string n)" by simp
  ultimately show ?thesis using startswith_append [of "''global_step_''" "nat_string n"]
    by (simp only: extract_step.simps Let_def) (simp add: nat_string_value)
qed

text \<open>The two trainers read different steps from a path that contains \<open>global_step_\<close> twice.\<close>

lemma nested_step_folders:
  "extract_step ''/runs/global_step_7/sft/global_step_20'' = Some 7"
  "py_int (last (split_str ''global_step_'' ''/runs/global_step_7/sft/global_step_20'')) = Inr 20"
  by code_simp+

text \<open>The AWS branch says to save for ever once the capacity block has expired; the other one does not.\<close>

lemma esi_after_expiry:
  "should_save_ckpt_esi None (Some ''100'') 200 0 60 0 = Inr True"
  "should_save_ckpt_esi (Some ''100'') None 200 0 60 0 = Inr False"
  by (simp_all add: should_save_ckpt_esi_def py_int_def py_float_def py_strip_def isspace_def take_sign_def is_digit_def
      digits_value_def to_lower_def parse_exponent_def scale10_def Let_def)

subsection \<open>Examples\<close>

text \<open>Two ranks; in the last phase rank 0 runs before rank 1.\<close>

definition demo_checkpoint :: "nat \<Rightarrow> nat checkpoint" where
  "demo_checkpoint n = \<lparr>ck_step = n, ck_world = 2, ck_files = [(''model_world_size_2_rank_1.pt'', n), (''model_world_size_2_rank_0.pt'', n + 1)],
     ck_data = [n + 2, n + 3], ck_start = [1, 0], ck_order = [0, 1, 0, 0, 0, 0]\<rparr>"

lemma demo_saves: "wf_saves [demo_checkpoint 10, demo_checkpoint 20, demo_checkpoint 30]"
  by (simp add: wf_saves_def wf_checkpoint_def demo_checkpoint_def keys_def)

theorem rotation_keeps_newest_witness:
  "previous_saved_paths (save_all ''/ckpt'' (Some 2) (\<lambda>_. None) [demo_checkpoint 10, demo_checkpoint 20, demo_checkpoint 30]) =
     [step_folder ''/ckpt'' 20, step_folder ''/ckpt'' 30]"
  using rotation_keeps_newest [OF demo_saves, of "''/ckpt''" "Some 2" "\<lambda>_. None"]
  by (simp add: Let_def demo_checkpoint_def)

lemma demo_length: "length (handler_save_ops dir k (demo_checkpoint n)) = 12"
  by (simp add: handler_save_ops_def demo_checkpoint_def write_files_def rank0_ops_def dp_rank_ops_def Let_def)

theorem crash_keeps_last_checkpoint_witness:
  "let latest = (\<lambda>j. find_latest_ckpt_path (Some ''/ckpt'') (sv_disk (run_ops (take j (handler_save_ops ''/ckpt'' (Some 2) (demo_checkpoint 30)))
       (save_all ''/ckpt'' (Some 2) (\<lambda>_. None) [demo_checkpoint 10, demo_checkpoint 20])))) in
     (latest 5 = Inr (Some (step_folder ''/ckpt'' 20)) \<or> latest 5 = Inr (Some (step_folder ''/ckpt'' 30))) \<and>
     latest 12 = Inr (Some (step_folder ''/ckpt'' 30))"
  using crash_keeps_last_checkpoint [of "[demo_checkpoint 10, demo_checkpoint 20]" "demo_checkpoint 30" "Some 2" 5 "''/ckpt''" "\<lambda>_. None"]
    crash_keeps_last_checkpoint [of "[demo_checkpoint 10, demo_checkpoint 20]" "demo_checkpoint 30" "Some 2" 12 "''/ckpt''" "\<lambda>_. None"]
    demo_saves by (simp add: Let_def demo_length) (auto simp: demo_checkpoint_def)

text \<open>Rank 0 does not wait for the other ranks before it writes the tracker: here it names the new checkpoint while the state of
  rank 1's data loader is not on disk. A crash at this moment makes rank 1 start its data from scratch when training resumes.\<close>

lemma tracker_before_data:
  "find_latest_ckpt_path (Some ''/ckpt'') (sv_disk (run_ops (take 11 (handler_save_ops ''/ckpt'' None (demo_checkpoint 30)))
     (fresh_saver (\<lambda>_. None)))) = Inr (Some (step_folder ''/ckpt'' 30))"
  "sv_disk (run_ops (take 11 (handler_save_ops ''/ckpt'' None (demo_checkpoint 30))) (fresh_saver (\<lambda>_. None)))
     (data_file (step_folder ''/ckpt'' 30) 1) = None"
  by code_simp+

theorem keep_one_crash_window_witness:
  "find_latest_ckpt_path (Some ''/ckpt'') (sv_disk (run_ops (fsdp_save_ops (step_folder ''/ckpt'' 30) (Some 1) (ck_files (demo_checkpoint 30)))
     (save_all ''/ckpt'' (Some 1) (\<lambda>_. None) [demo_checkpoint 10, demo_checkpoint 20]))) = Inr None"
  using keep_one_crash_window [of "[demo_checkpoint 10, demo_checkpoint 20]" "demo_checkpoint 30" "''/ckpt''" "\<lambda>_. None"]
    demo_saves by (simp add: demo_checkpoint_def)

end
