(* ===== verification/ReplayPool.thy ===== *)
theory ReplayPool
  imports Prelude
begin

section \<open>The replay pool of SAC\<close>

text \<open>
  \<open>src/verl/experimental/vla/sac/replay_pool.py\<close>: a ring buffer of \<open>capacity\<close> rows, allocated when the first
  batch arrives, with a column for each key of the batch. A column is a list of rows; \<open>zero k\<close> is the row of
  zeros of column \<open>k\<close>. The permutation drawn by \<open>torch.randperm\<close> is an argument. Devices are left out.
\<close>

record 'r replay_pool =
  pool :: "(string, 'r list) dict option"
  capacity :: nat
  pool_size :: nat
  position :: nat

definition new_pool :: "nat \<Rightarrow> 'r replay_pool" where
  "new_pool cap = \<lparr>pool = None, capacity = cap, pool_size = 0, position = 0\<rparr>"

definition lazy_init_pool :: "(string \<Rightarrow> 'r) \<Rightarrow> (string, 'r list) dict \<Rightarrow> 'r replay_pool \<Rightarrow> 'r replay_pool" where
  "lazy_init_pool zero sample p =
     p\<lparr>pool := Some (map (\<lambda>(k, v). (k, replicate (capacity p) (zero k))) sample)\<rparr>"

text \<open>\<open>column.index_copy_(0, idx, rows)\<close>.\<close>

definition index_copy :: "'r list \<Rightarrow> nat list \<Rightarrow> 'r list \<Rightarrow> 'r list" where
  "index_copy col idx rows = fold (\<lambda>(i, r) c. c[i := r]) (zip idx rows) col"

definition ring_index :: "nat \<Rightarrow> nat \<Rightarrow> nat \<Rightarrow> nat list" where
  "ring_index cap pos n = map (\<lambda>j. (pos + j) mod cap) [0..<n]"

text \<open>The columns of the source are written one after the other; a column that the pool lacks raises.\<close>

fun copy_columns :: "nat list \<Rightarrow> nat \<Rightarrow> (string, 'r list) dict \<Rightarrow> (string, 'r list) dict \<Rightarrow> (string, 'r list) dict result" where
  "copy_columns idx n [] d = Inr d"
| "copy_columns idx n ((k, v) # src) d = rbind (dget d k) (\<lambda>col.
     copy_columns idx n src (AList.update k (index_copy col idx (take n v)) d))"

definition insert_block :: "(string, 'r list) dict \<Rightarrow> nat \<Rightarrow> 'r replay_pool \<Rightarrow> 'r replay_pool result" where
  "insert_block source source_size p =
    (case pool p of
       None \<Rightarrow> Inl TypeError
     | Some d \<Rightarrow> let n = min source_size (capacity p) in
         rbind (copy_columns (ring_index (capacity p) (position p) n) n source d) (\<lambda>d'.
         rbind (ensure ZeroDivisionError (capacity p \<noteq> 0)) (\<lambda>_.
         Inr (p\<lparr>pool := Some d', position := (position p + n) mod capacity p,
             pool_size := min (pool_size p + n) (capacity p)\<rparr>))))"

definition add_batch :: "(string \<Rightarrow> 'r) \<Rightarrow> (string, 'r list) dict \<Rightarrow> nat \<Rightarrow> 'r replay_pool \<Rightarrow> 'r replay_pool result" where
  "add_batch zero batch n p =
     insert_block batch n (if pool p = None then lazy_init_pool zero batch p else p)"

text \<open>\<open>perm\<close> is \<open>torch.randperm(self.size)\<close>.\<close>

definition sample_batch :: "nat list \<Rightarrow> nat \<Rightarrow> 'r replay_pool \<Rightarrow> (string, 'r list) dict result" where
  "sample_batch perm batch_size p =
     rbind (py_assert (batch_size \<le> pool_size p)) (\<lambda>_. case pool p of
        None \<Rightarrow> Inl AttributeError
      | Some d \<Rightarrow> Inr (dict_map (\<lambda>col. picks col (take batch_size perm)) d))"

definition insert_and_resample ::
  "(string \<Rightarrow> 'r) \<Rightarrow> nat list \<Rightarrow> (string, 'r list) dict \<Rightarrow> nat \<Rightarrow> 'r replay_pool \<Rightarrow> ('r replay_pool \<times> (string, 'r list) dict) result" where
  "insert_and_resample zero perm source n p =
     rbind (add_batch zero source n p) (\<lambda>p'. rbind (sample_batch perm n p') (\<lambda>b. Inr (p', b)))"

subsection \<open>Saving and loading\<close>

text \<open>The file of this rank: the columns and the meta information. A file that torch cannot read is
  \<open>Inl\<close>; saving an empty pool writes nothing.\<close>

record 'r pool_file =
  f_pool :: "(string, 'r list) dict"
  f_size :: nat
  f_capacity :: nat
  f_position :: nat

definition save_pool :: "'r replay_pool \<Rightarrow> (unit + 'r pool_file) option \<Rightarrow> (unit + 'r pool_file) option" where
  "save_pool p file = (case pool p of
       None \<Rightarrow> file
     | Some d \<Rightarrow> Some (Inr \<lparr>f_pool = d, f_size = pool_size p, f_capacity = capacity p, f_position = position p\<rparr>))"

definition load_pool :: "(string \<Rightarrow> 'r) \<Rightarrow> (unit + 'r pool_file) option \<Rightarrow> 'r replay_pool \<Rightarrow> ('r replay_pool \<times> bool) result" where
  "load_pool zero file p = (case file of
       None \<Rightarrow> Inr (p, False)
     | Some (Inl _) \<Rightarrow> Inr (p, False)
     | Some (Inr f) \<Rightarrow>
         let d = (if f_capacity f > capacity p then dict_map (take (capacity p)) (f_pool f)
                  else if f_capacity f < capacity p
                  then map (\<lambda>(k, v). (k, v @ replicate (capacity p - f_capacity f) (zero k))) (f_pool f)
                  else f_pool f) in
         rbind (ensure ZeroDivisionError (capacity p \<noteq> 0)) (\<lambda>_.
         Inr (p\<lparr>pool := Some d, pool_size := min (f_size f) (capacity p), position := f_position f mod capacity p\<rparr>, True)))"

definition pool_from_path :: "(unit + 'r pool_file) option \<Rightarrow> 'r replay_pool result" where
  "pool_from_path file = (case file of
       Some (Inr f) \<Rightarrow> Inr \<lparr>pool = Some (f_pool f), capacity = f_capacity f, pool_size = f_size f, position = f_position f\<rparr>
     | _ \<Rightarrow> Inl RuntimeError)"

subsection \<open>The ring\<close>

text \<open>A column of a ring of \<open>cap\<close> rows after the rows \<open>h\<close> have been inserted, one after the other: the last
  \<open>cap\<close> of them are where their number says.\<close>

definition ring_holds :: "nat \<Rightarrow> 'r list \<Rightarrow> 'r list \<Rightarrow> bool" where
  "ring_holds cap col h \<longleftrightarrow> length col = cap \<and> (\<forall>j < length h. length h \<le> j + cap \<longrightarrow> col ! (j mod cap) = h ! j)"

lemma ring_holds_Nil: "ring_holds cap (replicate cap z) []"
  by (simp add: ring_holds_def)

lemma ring_push:
  assumes "ring_holds cap col h" "0 < cap"
  shows "ring_holds cap (col[length h mod cap := r]) (h @ [r])"
proof -
  have "(col[length h mod cap := r]) ! (j mod cap) = (h @ [r]) ! j" if j: "j < Suc (length h)" "Suc (length h) \<le> j + cap" for j
  proof (cases "j = length h")
    case True
    then show ?thesis using assms by (simp add: ring_holds_def)
  next
    case False
    then have lt: "j < length h" "length h < j + cap" using j by auto
    have "j mod cap \<noteq> length h mod cap"
    proof
      assume "j mod cap = length h mod cap"
      then have "cap dvd length h - j" using lt by (metis mod_eq_dvd_iff_nat less_imp_le)
      then show False using lt by (auto dest!: dvd_imp_le)
    qed
    then show ?thesis using assms lt by (auto simp: ring_holds_def nth_append)
  qed
  then show ?thesis using assms(1) by (simp add: ring_holds_def)
qed

lemma index_copy_snoc: "length idx = length rows \<Longrightarrow> index_copy col (idx @ [i]) (rows @ [r]) = (index_copy col idx rows)[i := r]"
  by (simp add: index_copy_def)

lemma length_index_copy [simp]: "length (index_copy col idx rows) = length col"
  by (induction idx arbitrary: col rows; case_tac rows) (auto simp: index_copy_def)

text \<open>\<open>index_copy_\<close> at the ring's indices inserts the rows one after the other.\<close>

lemma ring_insert:
  assumes "ring_holds cap col h" "0 < cap"
  shows "ring_holds cap (index_copy col (ring_index cap (length h mod cap) (length rows)) rows) (h @ rows)"
proof (induction rows rule: rev_induct)
  case Nil
  then show ?case using assms(1) by (simp add: index_copy_def ring_index_def)
next
  case (snoc r rows)
  have i: "ring_index cap (length h mod cap) (Suc (length rows)) =
    ring_index cap (length h mod cap) (length rows) @ [length (h @ rows) mod cap]"
    by (simp add: ring_index_def mod_add_left_eq)
  have "length (ring_index cap (length h mod cap) (length rows)) = length rows" by (simp add: ring_index_def)
  from index_copy_snoc [OF this] show ?case using ring_push [OF snoc assms(2), of r] by (simp add: i)
qed

lemma copy_columns_result:
  assumes "distinct (keys src)" "set (keys src) \<subseteq> set (keys d)" "wf_dict d"
  shows "\<exists>d'. copy_columns idx n src d = Inr d' \<and> keys d' = keys d \<and> wf_dict d' \<and>
    (\<forall>k. map_of d' k = (case map_of src k of None \<Rightarrow> map_of d k
      | Some v \<Rightarrow> map_option (\<lambda>col. index_copy col idx (take n v)) (map_of d k)))"
  using assms
proof (induction src arbitrary: d)
  case (Cons p src)
  obtain k v where p: "p = (k, v)" by fastforce
  obtain col where col: "map_of d k = Some col" using Cons.prems(2) p by (auto simp: set_keys)
  let ?d = "AList.update k (index_copy col idx (take n v)) d"
  have ks: "keys ?d = keys d"
  proof -
    have "k \<in> fst ` set d" using Cons.prems(2) p by (auto simp: keys_def)
    then show ?thesis by (induction d) (auto simp: keys_def)
  qed
  obtain d' where d': "copy_columns idx n src ?d = Inr d'" "keys d' = keys ?d" "wf_dict d'"
    "\<And>q. map_of d' q = (case map_of src q of None \<Rightarrow> map_of ?d q
      | Some v \<Rightarrow> map_option (\<lambda>col. index_copy col idx (take n v)) (map_of ?d q))"
    using Cons.IH [of ?d] Cons.prems ks by auto
  have "map_of src k = None" using Cons.prems(1) p by (simp add: map_of_eq_None_iff keys_def)
  then show ?case using d' col ks by (intro exI [of _ d']) (auto simp: p dget_def split: option.splits)
qed auto

subsection \<open>The pool and the rows inserted\<close>

text \<open>A batch is well-formed when its columns are as long as it says and have the pool's keys.\<close>

definition wf_batch :: "string list \<Rightarrow> (string, 'r list) dict \<times> nat \<Rightarrow> bool" where
  "wf_batch ks bn \<longleftrightarrow> keys (fst bn) = ks \<and> list_all (\<lambda>(k, v). length v = snd bn) (fst bn)"

text \<open>The rows of column \<open>k\<close> that the batches insert: a batch larger than the pool only its first rows.\<close>

definition inserted :: "nat \<Rightarrow> ((string, 'r list) dict \<times> nat) list \<Rightarrow> string \<Rightarrow> 'r list" where
  "inserted cap bs k = concat (map (\<lambda>(b, n). take cap (the (map_of b k))) bs)"

definition inserted_count :: "nat \<Rightarrow> ((string, 'r list) dict \<times> nat) list \<Rightarrow> nat" where
  "inserted_count cap bs = sum_list (map (\<lambda>(b, n). min n cap) bs)"

definition pool_holds :: "string list \<Rightarrow> ((string, 'r list) dict \<times> nat) list \<Rightarrow> 'r replay_pool \<Rightarrow> bool" where
  "pool_holds ks bs p \<longleftrightarrow> position p = inserted_count (capacity p) bs mod capacity p \<and>
     pool_size p = min (inserted_count (capacity p) bs) (capacity p) \<and>
     (case pool p of None \<Rightarrow> bs = []
      | Some d \<Rightarrow> keys d = ks \<and> (\<forall>k col. map_of d k = Some col \<longrightarrow> ring_holds (capacity p) col (inserted (capacity p) bs k)))"

lemma wf_batch_column:
  "wf_batch ks (b, n) \<Longrightarrow> k \<in> set ks \<Longrightarrow> \<exists>v. map_of b k = Some v \<and> length v = n"
  by (force simp: wf_batch_def set_keys list_all_iff dest: map_of_SomeD)

lemma length_inserted:
  "list_all (wf_batch ks) bs \<Longrightarrow> k \<in> set ks \<Longrightarrow> length (inserted cap bs k) = inserted_count cap bs"
proof (induction bs)
  case (Cons bn bs)
  obtain b n where bn: "bn = (b, n)" by fastforce
  then obtain v where "map_of b k = Some v" "length v = n" using wf_batch_column [of ks b n k] Cons.prems by auto
  then show ?case using Cons by (simp add: bn inserted_def inserted_count_def min.commute)
qed (simp add: inserted_def inserted_count_def)

lemma inserted_snoc: "inserted cap (bs @ [(b, n)]) k = inserted cap bs k @ take cap (the (map_of b k))"
  "inserted_count cap (bs @ [(b, n)]) = inserted_count cap bs + min n cap"
  by (simp_all add: inserted_def inserted_count_def)

lemma map_of_zero_columns: "map_of (map (\<lambda>(k, v). (k, g k)) b) k = map_option (\<lambda>_. g k) (map_of b k)"
  by (induction b) auto

lemma insert_block_holds:
  assumes h: "pool_holds ks bs p" "pool p = Some d" and wf: "list_all (wf_batch ks) bs" "wf_batch ks (b, n)"
    and ks: "distinct ks" "0 < capacity p"
  shows "\<exists>p'. insert_block b n p = Inr p' \<and> pool_holds ks (bs @ [(b, n)]) p' \<and> capacity p' = capacity p"
proof -
  let ?cap = "capacity p" let ?N = "inserted_count ?cap bs" let ?n = "min n ?cap"
  let ?idx = "ring_index ?cap (position p) ?n"
  have d: "keys d = ks" "\<And>k col. map_of d k = Some col \<Longrightarrow> ring_holds ?cap col (inserted ?cap bs k)"
    and pos: "position p = ?N mod ?cap" and size: "pool_size p = min ?N ?cap"
    using h by (auto simp: pool_holds_def)
  have kb: "keys b = ks" using wf(2) by (simp add: wf_batch_def)
  obtain d' where d': "copy_columns ?idx ?n b d = Inr d'" "keys d' = keys d"
    "\<And>k. map_of d' k = (case map_of b k of None \<Rightarrow> map_of d k
      | Some v \<Rightarrow> map_option (\<lambda>col. index_copy col ?idx (take ?n v)) (map_of d k))"
    using copy_columns_result [of b d ?idx ?n] kb d(1) ks(1) by (auto simp: wf_dict_def)
  let ?p = "p\<lparr>pool := Some d', position := (position p + ?n) mod ?cap, pool_size := min (pool_size p + ?n) ?cap\<rparr>"
  have "ring_holds ?cap col (inserted ?cap (bs @ [(b, n)]) k)" if k: "map_of d' k = Some col" for k col
  proof -
    have "k \<in> set ks" using k d'(2) d(1) by (metis domI set_keys)
    then obtain v where v: "map_of b k = Some v" "length v = n" using wf_batch_column [OF wf(2)] by blast
    then obtain c where c: "map_of d k = Some c" "col = index_copy c ?idx (take ?n v)" using k d'(3) by auto
    have "take ?n v = take ?cap v" using v(2) by (simp add: min_def)
    moreover have "length (inserted ?cap bs k) = ?N" using length_inserted [OF wf(1) \<open>k \<in> set ks\<close>] .
    ultimately show ?thesis using ring_insert [OF d(2) [OF c(1)] ks(2), of "take ?cap v"] v c
      by (simp add: inserted_snoc pos min.commute)
  qed
  then have "pool_holds ks (bs @ [(b, n)]) ?p"
    using d'(2) d(1) by (auto simp: pool_holds_def inserted_snoc pos size mod_add_left_eq)
  then show ?thesis using h(2) d'(1) ks(2) by (simp add: insert_block_def Let_def)
qed

lemma add_batch_holds:
  assumes "pool_holds ks bs p" "list_all (wf_batch ks) bs" "wf_batch ks (b, n)" "distinct ks" "0 < capacity p"
  shows "\<exists>p'. add_batch zero b n p = Inr p' \<and> pool_holds ks (bs @ [(b, n)]) p' \<and> capacity p' = capacity p"
proof (cases "pool p")
  case None
  let ?p = "lazy_init_pool zero b p"
  have kb: "keys b = ks" using assms(3) by (simp add: wf_batch_def)
  have bs: "bs = []" using assms(1) None by (simp add: pool_holds_def)
  have "keys (map (\<lambda>(k, v). (k, replicate (capacity p) (zero k))) b) = keys b" by (auto simp: keys_def)
  then have "pool_holds ks [] ?p"
    using assms(1) kb bs
    by (auto simp: pool_holds_def lazy_init_pool_def map_of_zero_columns inserted_def ring_holds_Nil)
  then show ?thesis
    using insert_block_holds [of ks "[]" ?p _ b n] assms None bs by (auto simp: add_batch_def lazy_init_pool_def)
next
  case (Some d)
  then show ?thesis using insert_block_holds [of ks bs p d b n] assms by (simp add: add_batch_def)
qed

definition add_batches :: "(string \<Rightarrow> 'r) \<Rightarrow> ((string, 'r list) dict \<times> nat) list \<Rightarrow> 'r replay_pool \<Rightarrow> 'r replay_pool result" where
  "add_batches zero bs p = rfold (\<lambda>(b, n). add_batch zero b n) bs p"

lemma add_batches_hold:
  assumes "pool_holds ks bs p" "list_all (wf_batch ks) (bs @ bs')" "distinct ks" "0 < capacity p"
  shows "\<exists>p'. add_batches zero bs' p = Inr p' \<and> pool_holds ks (bs @ bs') p' \<and> capacity p' = capacity p"
  using assms
proof (induction bs' arbitrary: bs p)
  case (Cons bn bs')
  obtain b n where bn: "bn = (b, n)" by fastforce
  obtain p1 where p1: "add_batch zero b n p = Inr p1" "pool_holds ks (bs @ [(b, n)]) p1" "capacity p1 = capacity p"
    using add_batch_holds [of ks bs p b n zero] Cons.prems bn by auto
  show ?case using Cons.IH [OF p1(2)] p1 Cons.prems bn by (simp add: add_batches_def)
qed (simp add: add_batches_def)

text \<open>The number of the row at index \<open>i\<close> of a ring into which \<open>N\<close> rows were inserted.\<close>

definition row_number :: "nat \<Rightarrow> nat \<Rightarrow> nat \<Rightarrow> nat" where
  "row_number N cap i = (if N \<le> cap then i
     else if i < N mod cap then N div cap * cap + i else (N div cap - 1) * cap + i)"

lemma row_number:
  assumes "i < min N cap"
  shows "row_number N cap i < N" "N \<le> row_number N cap i + cap" "row_number N cap i mod cap = i"
proof -
  have i: "i < N" "i < cap" using assms by auto
  have N: "N div cap * cap + N mod cap = N" by simp
  have "row_number N cap i < N \<and> N \<le> row_number N cap i + cap \<and> row_number N cap i mod cap = i"
  proof (cases "N \<le> cap")
    case False
    then have "1 \<le> N div cap" using i(2) by (simp add: div_greater_zero_iff Suc_leI)
    then have q: "(N div cap - 1) * cap + cap = N div cap * cap" by (simp add: mult_eq_if)
    have mods: "(N div cap * cap + i) mod cap = i" "((N div cap - 1) * cap + i) mod cap = i" using i(2) by simp_all
    define a b r where "a = N div cap * cap" and "b = (N div cap - 1) * cap" and "r = N mod cap"
    have "r < cap" "a + r = N" "b + cap = a" using i(2) N q by (simp_all add: a_def b_def r_def)
    moreover have "row_number N cap i = (if i < r then a + i else b + i)"
      using False by (simp add: row_number_def a_def b_def r_def)
    ultimately show ?thesis using mods [folded a_def b_def] i(2) by auto
  qed (use i in \<open>simp add: row_number_def\<close>)
  then show "row_number N cap i < N" "N \<le> row_number N cap i + cap" "row_number N cap i mod cap = i" by auto
qed

lemma ring_lookup:
  assumes "ring_holds cap col h" "i < min (length h) cap"
  shows "i < length col" "col ! i = h ! row_number (length h) cap i"
  using assms row_number [OF assms(2)] by (force simp: ring_holds_def)+

text \<open>C28: Sampling gives whole recent rows. After any number of batches have been added to a new pool, a sample
  of \<open>m\<close> rows does not raise as long as \<open>m\<close> rows are there, and it consists of \<open>m\<close> different rows among the
  last \<open>capacity\<close> inserted ones: the same rows in every column, never a row of zeros that was allocated and
  not written, and never one that has been overwritten. Of a batch larger than the pool only the first
  \<open>capacity\<close> rows count as inserted.\<close>

theorem replay_samples_recent_rows:
  assumes "0 < cap" and "distinct ks" and "list_all (wf_batch ks) bs" and "bs \<noteq> []"
    and "mset perm = mset [0..<min (inserted_count cap bs) cap]" and "m \<le> min (inserted_count cap bs) cap"
  shows "\<exists>p sample rows. add_batches zero bs (new_pool cap) = Inr p \<and> sample_batch perm m p = Inr sample \<and>
    keys sample = ks \<and> length rows = m \<and> distinct rows \<and>
    list_all (\<lambda>t. t < inserted_count cap bs \<and> inserted_count cap bs \<le> t + cap) rows \<and>
    list_all (\<lambda>k. map_of sample k = Some (picks (inserted cap bs k) rows)) ks"
proof -
  let ?N = "inserted_count cap bs"
  have "pool_holds ks [] (new_pool cap)" by (simp add: pool_holds_def new_pool_def inserted_count_def)
  then obtain p where p: "add_batches zero bs (new_pool cap) = Inr p" "pool_holds ks bs p" "capacity p = cap"
    using add_batches_hold [of ks "[]" "new_pool cap" bs zero] assms(1-3) by (auto simp: new_pool_def)
  obtain d where d: "pool p = Some d" "keys d = ks"
    "\<And>k col. map_of d k = Some col \<Longrightarrow> ring_holds cap col (inserted cap bs k)"
    using p(2,3) assms(4) by (auto simp: pool_holds_def split: option.splits)
  let ?idx = "take m perm" let ?rows = "map (row_number ?N cap) ?idx"
  have perm: "distinct perm" "set perm = {0..<min ?N cap}" "length perm = min ?N cap"
    using iffD1 [OF perm_upt_iff assms(5)] mset_eq_length [OF assms(5)] by simp_all
  have idx: "i < min ?N cap" if "i \<in> set ?idx" for i using in_set_takeD [OF that] perm(2) by simp
  have "inj_on (row_number ?N cap) (set ?idx)"
    by (rule inj_on_inverseI [where g = "\<lambda>t. t mod cap"]) (rule row_number(3) [OF idx])
  then have "distinct ?rows" using perm(1) by (simp add: distinct_map)
  moreover have "list_all (\<lambda>t. t < ?N \<and> ?N \<le> t + cap) ?rows"
    using row_number(1,2) [OF idx] by (simp add: list_all_iff)
  moreover have "length ?rows = m" using assms(6) perm(3) by simp
  moreover have "sample_batch perm m p = Inr (dict_map (\<lambda>col. picks col ?idx) d)"
    using assms(6) p(2,3) d(1) by (simp add: sample_batch_def pool_holds_def)
  moreover have "list_all (\<lambda>k. map_of (dict_map (\<lambda>col. picks col ?idx) d) k = Some (picks (inserted cap bs k) ?rows)) ks"
    unfolding list_all_iff
  proof
    fix k assume k: "k \<in> set ks"
    obtain col where col: "map_of d k = Some col" using k d(2) by (metis domD set_keys)
    have len: "length (inserted cap bs k) = ?N" by (rule length_inserted [OF assms(3) k])
    have "col ! i = inserted cap bs k ! row_number ?N cap i" if "i \<in> set ?idx" for i
      using ring_lookup(2) [OF d(3) [OF col], of i] idx [OF that] by (simp add: len)
    then have "picks col ?idx = picks (inserted cap bs k) ?rows" by (simp add: picks_def)
    then show "map_of (dict_map (\<lambda>col. picks col ?idx) d) k = Some (picks (inserted cap bs k) ?rows)"
      using col by simp
  qed
  moreover have "keys (dict_map (\<lambda>col. picks col ?idx) d) = ks" using d(2) by simp
  ultimately show ?thesis using p(1) by blast
qed

subsection \<open>Saving and loading\<close>

text \<open>A saved pool comes back as it was, through \<open>load\<close> into a pool of the same capacity and through
  \<open>from_path\<close>.\<close>

lemma save_load_same:
  assumes "pool_holds ks bs p" "bs \<noteq> []" "0 < capacity p" "capacity q = capacity p"
  shows "load_pool zero (save_pool p file) q = Inr (p, True)" "pool_from_path (save_pool p file) = Inr p"
proof -
  obtain d where "pool p = Some d" using assms(1,2) by (auto simp: pool_holds_def split: option.splits)
  moreover have "pool_size p \<le> capacity p" "position p < capacity p" using assms(1,3) by (auto simp: pool_holds_def)
  ultimately show "load_pool zero (save_pool p file) q = Inr (p, True)" "pool_from_path (save_pool p file) = Inr p"
    using assms(3,4) by (cases p; cases q; simp add: save_pool_def load_pool_def pool_from_path_def)+
qed

text \<open>A pool that has not wrapped around can be loaded into a larger one.\<close>

lemma load_larger_unwrapped:
  assumes p: "pool_holds ks bs p" "bs \<noteq> []" "list_all (wf_batch ks) bs" "inserted_count (capacity p) bs < capacity p"
    and q: "capacity p \<le> capacity q"
    and same: "\<And>k. k \<in> set ks \<Longrightarrow> inserted (capacity q) bs k = inserted (capacity p) bs k"
      "inserted_count (capacity q) bs = inserted_count (capacity p) bs"
  shows "\<exists>q'. load_pool zero (save_pool p file) q = Inr (q', True) \<and> pool_holds ks bs q' \<and> capacity q' = capacity q"
proof -
  let ?N = "inserted_count (capacity p) bs"
  obtain d where d: "pool p = Some d" "keys d = ks"
    "\<And>k col. map_of d k = Some col \<Longrightarrow> ring_holds (capacity p) col (inserted (capacity p) bs k)"
    using p(1,2) by (auto simp: pool_holds_def split: option.splits)
  let ?d = "if capacity p < capacity q
    then map (\<lambda>(k, v). (k, v @ replicate (capacity q - capacity p) (zero k))) d else d"
  have pos: "position p = ?N" "pool_size p = ?N" using p(1,4) by (simp_all add: pool_holds_def)
  have m: "map_of ?d k = map_option (\<lambda>v. v @ replicate (capacity q - capacity p) (zero k)) (map_of d k)" for k
  proof (cases "capacity p < capacity q")
    case True
    have "map_of (map (\<lambda>(k, v). (k, v @ replicate n (zero k))) d) k = map_option (\<lambda>v. v @ replicate n (zero k)) (map_of d k)" for n
      by (induction d) auto
    then show ?thesis using True by simp
  qed (use q in \<open>simp add: option.map_ident\<close>)
  have keys: "keys ?d = ks" using d(2) by (simp add: keys_def case_prod_unfold comp_def)
  have ring: "ring_holds (capacity q) col (inserted (capacity q) bs k)" if k: "map_of ?d k = Some col" for k col
  proof -
    obtain c where c: "map_of d k = Some c" "col = c @ replicate (capacity q - capacity p) (zero k)"
      using k unfolding m by auto
    then have kk: "k \<in> set ks" using d(2) by (metis domI set_keys)
    have len: "length (inserted (capacity p) bs k) = ?N" by (rule length_inserted [OF p(3) kk])
    have h: "length c = capacity p" "\<And>j. j < ?N \<Longrightarrow> c ! j = inserted (capacity p) bs k ! j"
      using d(3) [OF c(1)] p(4) by (auto simp: ring_holds_def len)
    show ?thesis using h p(4) q by (simp add: ring_holds_def same(1) [OF kk] len c(2) nth_append)
  qed
  have "pool_holds ks bs (q\<lparr>pool := Some ?d, pool_size := min ?N (capacity q), position := ?N mod capacity q\<rparr>)"
    using keys ring by (simp add: pool_holds_def same(2))
  moreover have "load_pool zero (save_pool p file) q =
      Inr (q\<lparr>pool := Some ?d, pool_size := min ?N (capacity q), position := ?N mod capacity q\<rparr>, True)"
    using d(1) p(4) q by (simp add: load_pool_def save_pool_def Let_def pos)
  ultimately show ?thesis by simp
qed

text \<open>A pool that has wrapped around cannot: the position stays in the middle of the old rows, the next rows
  overwrite those behind it although there is room, and the size counts rows of zeros.\<close>

lemma load_larger_wrapped:
  "\<exists>p q q' r. add_batches (\<lambda>_. 0 :: int) [([(''s'', [1])], 1), ([(''s'', [2])], 1), ([(''s'', [3])], 1)] (new_pool 2) = Inr p \<and>
     load_pool (\<lambda>_. 0) (save_pool p None) (new_pool 4) = Inr (q, True) \<and>
     add_batch (\<lambda>_. 0) [(''s'', [4])] 1 q = Inr q' \<and> sample_batch [0, 1, 2] 3 q' = Inr r \<and> r = [(''s'', [3, 4, 0])]"
  by (simp add: add_batches_def add_batch_def lazy_init_pool_def insert_block_def new_pool_def ring_index_def
      index_copy_def dget_def load_pool_def save_pool_def sample_batch_def picks_def Let_def dict_map_def ensure_def
      numeral_2_eq_2 [symmetric])
    (simp add: numeral_2_eq_2)

theorem replay_samples_recent_rows_witness:
  "\<exists>p sample rows. add_batches (\<lambda>_. 0 :: int) [([(''s'', [1, 2]), (''a'', [5, 6])], 2), ([(''s'', [3, 4]), (''a'', [7, 8])], 2)]
      (new_pool 3) = Inr p \<and> sample_batch [2, 0, 1] 2 p = Inr sample \<and> length rows = 2 \<and> distinct rows \<and>
    map_of sample ''s'' = Some (picks [1, 2, 3, 4] rows) \<and> map_of sample ''a'' = Some (picks [5, 6, 7, 8] rows)"
proof -
  let ?bs = "[([(''s'', [1, 2 :: int]), (''a'', [5, 6])], 2), ([(''s'', [3, 4]), (''a'', [7, 8])], 2 :: nat)]"
  have N: "inserted_count 3 ?bs = 4" by (simp add: inserted_count_def)
  have "\<exists>p sample rows. add_batches (\<lambda>_. 0 :: int) ?bs (new_pool 3) = Inr p \<and> sample_batch [2, 0, 1] 2 p = Inr sample \<and>
    keys sample = [''s'', ''a''] \<and> length rows = 2 \<and> distinct rows \<and>
    list_all (\<lambda>t. t < inserted_count 3 ?bs \<and> inserted_count 3 ?bs \<le> t + 3) rows \<and>
    list_all (\<lambda>k. map_of sample k = Some (picks (inserted 3 ?bs k) rows)) [''s'', ''a'']"
    by (rule replay_samples_recent_rows) (simp_all add: N wf_batch_def keys_def upt_rec)
  then show ?thesis by (simp add: inserted_def) blast
qed

end
