(* ===== verification/Unpad.thy ===== *)
theory Unpad
  imports Prelude
begin

section \<open>Batches with and without padding\<close>

text \<open>
  \<open>src/verl/workers/utils/padding.py\<close> with the functions of \<open>npu_flash_attn_utils.py\<close> it uses (on CUDA they
  are flash-attention's, of which these are copies): a batch of rows padded on both sides becomes the
  concatenation of its attended tokens, and the outputs of the model for these tokens become a padded
  matrix of the responses again. Masks hold natural numbers; a nested tensor is its values and its
  offsets.
\<close>

subsection \<open>Selecting and placing rows\<close>

definition index_first_axis :: "'a list \<Rightarrow> nat list \<Rightarrow> 'a list result" where
  "index_first_axis rows indices =
     (if list_all (\<lambda>i. i < length rows) indices then Inr (picks rows indices) else Inl RuntimeError)"

text \<open>A single value is broadcast to all indices.\<close>

definition index_put_first_axis :: "'a \<Rightarrow> 'a list \<Rightarrow> nat list \<Rightarrow> nat \<Rightarrow> 'a list result" where
  "index_put_first_axis zero vals indices n =
     (if length vals \<noteq> length indices \<and> length vals \<noteq> 1 then Inl RuntimeError
      else if \<not> list_all (\<lambda>i. i < n) indices then Inl IndexError
      else let vals' = (if length vals = length indices then vals else replicate (length indices) (hd vals))
        in Inr (fold (\<lambda>(i, v) out. out[i := v]) (zip indices vals') (replicate n zero)))"

text \<open>\<open>rearrange(output, "(b s) ... -> b s ...", b=batch)\<close>.\<close>

definition rows_of :: "nat \<Rightarrow> nat \<Rightarrow> 'a list \<Rightarrow> 'a list list" where
  "rows_of n s xs = map (\<lambda>i. slice (i * s) (i * s + s) xs) [0..<n]"

definition pad_input :: "'a \<Rightarrow> 'a list \<Rightarrow> nat list \<Rightarrow> nat \<Rightarrow> nat \<Rightarrow> 'a list list result" where
  "pad_input zero hidden_states indices n seqlen =
     rbind (index_put_first_axis zero hidden_states indices (n * seqlen)) (\<lambda>out. Inr (rows_of n seqlen out))"

text \<open>\<open>torch.nonzero(m.flatten())\<close> and cumulative sums.\<close>

definition nonzero :: "nat list \<Rightarrow> nat list" where
  "nonzero m = filter (\<lambda>i. m ! i \<noteq> 0) [0..<length m]"

fun running_sums :: "nat \<Rightarrow> nat list \<Rightarrow> nat list" where
  "running_sums a [] = []"
| "running_sums a (x # xs) = (a + x) # running_sums (a + x) xs"

definition unpad_input :: "'a list list \<Rightarrow> nat list list \<Rightarrow> nat list list option \<Rightarrow>
    ('a list \<times> nat list \<times> nat list \<times> nat \<times> nat list) result" where
  "unpad_input hidden_states attention_mask unused_mask =
    (let all_masks = (case unused_mask of None \<Rightarrow> attention_mask | Some u \<Rightarrow> map2 (map2 (+)) attention_mask u);
         seqlens = map sum_list all_masks; used = map sum_list attention_mask;
         indices = nonzero (concat all_masks)
     in rbind (ensure RuntimeError (seqlens \<noteq> [])) (\<lambda>_.
        rbind (index_first_axis (concat hidden_states) indices) (\<lambda>vals.
        Inr (vals, indices, 0 # running_sums 0 seqlens, Max (set seqlens), used))))"

subsection \<open>From padded to nested\<close>

text \<open>Position ids are one row for each sequence, or several (for multimodal rotary embeddings).\<close>

datatype 'p positions = OneRow "'p list" | ManyRows "'p list list"

record ('t, 'p) padded_data =
  pd_input_ids :: "'t list list option"
  pd_attention_mask :: "nat list list option"
  pd_response_mask :: "nat list list option"
  pd_position_ids :: "'p positions list option"
  pd_routed_experts :: "nat list list option"

record ('t, 'p) nested_data =
  nd_input_ids :: "'t list"
  nd_offsets :: "nat list"
  nd_indices :: "nat list"
  nd_position_ids :: "'p positions list"
  nd_loss_mask :: "nat list list"
  nd_max_seq_len :: nat
  nd_max_response_len :: nat
  nd_routed_experts :: "nat list option"

definition select_masked :: "nat list \<Rightarrow> 'a list \<Rightarrow> 'a list" where
  "select_masked m xs = map fst (filter (\<lambda>(x, b). b \<noteq> 0) (zip xs m))"

fun select_positions :: "nat list \<Rightarrow> 'p positions \<Rightarrow> 'p positions" where
  "select_positions m (OneRow ps) = OneRow (select_masked m ps)"
| "select_positions m (ManyRows pss) = ManyRows (map (select_masked m) pss)"

definition required :: "'a option \<Rightarrow> 'a result" where
  "required x = (case x of None \<Rightarrow> Inl AssertionError | Some v \<Rightarrow> Inr v)"

text \<open>\<open>x.shape[1]\<close> of a matrix.\<close>

definition width :: "'a list list \<Rightarrow> nat" where
  "width rows = (case rows of [] \<Rightarrow> 0 | r # _ \<Rightarrow> length r)"

text \<open>Routed experts are cast to bytes when they fit, which leaves their values.\<close>

definition left_right_2_no_padding :: "('t, 'p) padded_data \<Rightarrow> ('t, 'p) nested_data result" where
  "left_right_2_no_padding data =
    rbind (required (pd_input_ids data)) (\<lambda>input_ids. rbind (required (pd_attention_mask data)) (\<lambda>attention_mask.
    rbind (required (pd_response_mask data)) (\<lambda>response_mask. rbind (required (pd_position_ids data)) (\<lambda>position_ids.
    rbind (unpad_input input_ids attention_mask None) (\<lambda>(ids, indices, cu_seqlens, _, _).
    rbind (case pd_routed_experts data of None \<Rightarrow> Inr None
           | Some r \<Rightarrow> rbind (index_first_axis (concat r) indices) (\<lambda>v. Inr (Some v))) (\<lambda>routed.
    Inr \<lparr>nd_input_ids = ids, nd_offsets = cu_seqlens, nd_indices = indices,
      nd_position_ids = map2 select_positions attention_mask position_ids, nd_loss_mask = response_mask,
      nd_max_seq_len = width input_ids, nd_max_response_len = width response_mask, nd_routed_experts = routed\<rparr>))))))"

subsection \<open>From model outputs to padded responses\<close>

text \<open>\<open>F.pad(x, (0, n))\<close>: a negative \<open>n\<close> cuts.\<close>

definition fpad :: "'a \<Rightarrow> 'a list \<Rightarrow> int \<Rightarrow> 'a list result" where
  "fpad zero xs n = (if 0 \<le> n then Inr (xs @ replicate (nat n) zero)
     else if nat (- n) \<le> length xs then Inr (take (length xs - nat (- n)) xs) else Inl RuntimeError)"

text \<open>The response of a sequence, from the token before it: the model's output at a token is about the
  next one.\<close>

definition response_slice :: "'a list \<Rightarrow> nat \<Rightarrow> nat \<Rightarrow> 'a list" where
  "response_slice vals resp_len seq_offset =
     py_slice vals (int seq_offset - int resp_len - 1) (int seq_offset - 1)"

definition stack :: "'a list list \<Rightarrow> 'a list list result" where
  "stack rows = (if rows \<noteq> [] \<and> list_all (\<lambda>r. length r = length (hd rows)) rows then Inr rows else Inl RuntimeError)"

datatype lengths = NestedLens "nat list" "nat list" | PaddedMask nat nat "nat list list"

definition no_padding_2_padding :: "'a \<Rightarrow> 'a list \<Rightarrow> lengths \<Rightarrow> int \<Rightarrow> 'a list list result" where
  "no_padding_2_padding zero vals lens max_len =
    rbind (case lens of
        NestedLens prompt_lens response_lens \<Rightarrow>
          rbind (ensure RuntimeError (0 \<le> max_len \<or> response_lens \<noteq> [])) (\<lambda>_.
          Inr (prompt_lens, response_lens, if max_len < 0 then int (Max (set response_lens)) else max_len))
      | PaddedMask prompt_width response_width attention_mask \<Rightarrow>
          Inr (map (\<lambda>m. sum_list (take prompt_width m)) attention_mask,
               map (\<lambda>m. sum_list (drop prompt_width m)) attention_mask, int response_width))
      (\<lambda>(prompt_lens, response_lens, max_response_len).
    let offsets = running_sums 0 (map2 (+) prompt_lens response_lens)
    in rbind (ensure IndexError (offsets \<noteq> [])) (\<lambda>_.
       rbind (py_assert (last offsets = length vals)) (\<lambda>_.
       rbind (rmap (\<lambda>(resp_len, seq_offset). fpad zero (response_slice vals resp_len seq_offset) (max_response_len - int resp_len))
          (zip response_lens offsets)) stack)))"

subsection \<open>Selecting by a mask\<close>

lemma select_masked_simps [simp]:
  "select_masked [] xs = []" "select_masked m [] = []"
  "select_masked (b # m) (x # xs) = (if b \<noteq> 0 then x # select_masked m xs else select_masked m xs)"
  by (simp_all add: select_masked_def)

lemma select_masked_append:
  "length m = length xs \<Longrightarrow> select_masked (m @ m') (xs @ xs') = select_masked m xs @ select_masked m' xs'"
  by (simp add: select_masked_def)

lemma select_masked_zeros [simp]: "select_masked (replicate n 0) xs = []"
  by (induction n arbitrary: xs) (case_tac xs; simp)+

lemma select_masked_ones [simp]: "length xs = n \<Longrightarrow> select_masked (replicate n (Suc 0)) xs = xs"
  by (induction n arbitrary: xs) (case_tac xs; simp)+

lemma nonzero_Cons: "nonzero (b # m) = (if b \<noteq> 0 then 0 # map Suc (nonzero m) else map Suc (nonzero m))"
  by (simp add: nonzero_def upt_rec [of 0] map_Suc_upt [symmetric] filter_map comp_def del: upt_Suc)

lemma nonzero_bound: "i \<in> set (nonzero m) \<Longrightarrow> i < length m"
  by (simp add: nonzero_def)

lemma distinct_nonzero [simp]: "distinct (nonzero m)"
  by (simp add: nonzero_def)

lemma picks_nonzero: "length xs = length m \<Longrightarrow> picks xs (nonzero m) = select_masked m xs"
proof (induction m arbitrary: xs)
  case (Cons b m)
  then obtain y ys where xs: "xs = y # ys" by (cases xs) auto
  have "picks (y # ys) (map Suc is) = picks ys is" for "is" by (simp add: picks_def)
  then show ?case using Cons xs by (simp add: nonzero_Cons) (simp add: picks_def comp_def)
qed (simp add: nonzero_def picks_def)

lemma select_masked_concat:
  "list_all2 (\<lambda>m x. length m = length x) ms xss \<Longrightarrow>
   select_masked (concat ms) (concat xss) = concat (map2 select_masked ms xss)"
  by (induction rule: list_all2_induct) (auto simp: select_masked_append)

lemma length_concat_eq: "list_all2 (\<lambda>m x. length m = length x) ms xss \<Longrightarrow> length (concat ms) = length (concat xss)"
  by (induction rule: list_all2_induct) auto

text \<open>Without an unused mask, unpadding concatenates the attended tokens of the rows.\<close>

lemma index_first_nonzero:
  assumes "list_all2 (\<lambda>m x. length m = length x) masks rows"
  shows "index_first_axis (concat rows) (nonzero (concat masks)) = Inr (concat (map2 select_masked masks rows))"
proof -
  have "list_all (\<lambda>i. i < length (concat rows)) (nonzero (concat masks))"
    using length_concat_eq [OF assms] nonzero_bound [of _ "concat masks"] by (auto simp: list_all_iff)
  moreover have "picks (concat rows) (nonzero (concat masks)) = concat (map2 select_masked masks rows)"
    using picks_nonzero [of "concat rows" "concat masks"] length_concat_eq [OF assms] select_masked_concat [OF assms] by simp
  ultimately show ?thesis by (simp add: index_first_axis_def)
qed

lemma unpad_input_result:
  assumes "list_all2 (\<lambda>m x. length m = length x) masks rows" "masks \<noteq> []"
  shows "unpad_input rows masks None = Inr (concat (map2 select_masked masks rows), nonzero (concat masks),
    0 # running_sums 0 (map sum_list masks), Max (set (map sum_list masks)), map sum_list masks)"
  using assms(2) by (simp add: unpad_input_def Let_def index_first_nonzero [OF assms(1)])

subsection \<open>Placing back\<close>

lemma fold_update_nth:
  "distinct is \<Longrightarrow> length vs = length is \<Longrightarrow> \<forall>i \<in> set is. i < length out \<Longrightarrow> j < length out \<Longrightarrow>
   fold (\<lambda>(i, v) out. out[i := v]) (zip is vs) out ! j =
     (case map_of (zip is vs) j of None \<Rightarrow> out ! j | Some v \<Rightarrow> v)"
proof (induction "is" arbitrary: vs out)
  case (Cons i "is")
  then obtain w ws where vs: "vs = w # ws" by (cases vs) auto
  have "map_of (zip is ws) i = None" using Cons.prems(1,2) vs by (auto simp: map_of_eq_None_iff dest: set_zip_leftD)
  then show ?case using Cons.IH [of ws "out[i := w]"] Cons.prems vs by (cases "j = i") (simp_all cong: option.case_cong)
qed simp

lemma length_fold_update [simp]: "length (fold (\<lambda>(i, v) out. out[i := v]) ps out) = length out"
  by (induction ps arbitrary: out) auto

lemma scatter_nonzero:
  assumes "length xs = length m"
  shows "index_put_first_axis zero (select_masked m xs) (nonzero m) (length m) =
    Inr (map2 (\<lambda>b x. if b \<noteq> 0 then x else zero) m xs)"
proof -
  have len: "length (select_masked m xs) = length (nonzero m)"
    using picks_nonzero [OF assms] by (metis length_picks)
  have z: "zip (nonzero m) (select_masked m xs) = map (\<lambda>i. (i, xs ! i)) (nonzero m)"
    unfolding picks_nonzero [OF assms, symmetric] picks_def by (simp add: zip_map2 zip_same_conv_map)
  have "fold (\<lambda>(i, v) out. out[i := v]) (zip (nonzero m) (select_masked m xs)) (replicate (length m) zero) =
    map2 (\<lambda>b x. if b \<noteq> 0 then x else zero) m xs"
  proof (rule nth_equalityI)
    fix j assume "j < length (fold (\<lambda>(i, v) out. out[i := v]) (zip (nonzero m) (select_masked m xs)) (replicate (length m) zero))"
    then have j: "j < length m" by simp
    have "fold (\<lambda>(i, v) out. out[i := v]) (zip (nonzero m) (select_masked m xs)) (replicate (length m) zero) ! j =
      (case map_of (zip (nonzero m) (select_masked m xs)) j of None \<Rightarrow> replicate (length m) zero ! j | Some v \<Rightarrow> v)"
      using j len nonzero_bound [of _ m] by (intro fold_update_nth) auto
    also have "map_of (zip (nonzero m) (select_masked m xs)) j = (if j \<in> set (nonzero m) then Some (xs ! j) else None)"
      unfolding z by (simp add: map_of_map_restrict restrict_map_def)
    finally show "fold (\<lambda>(i, v) out. out[i := v]) (zip (nonzero m) (select_masked m xs)) (replicate (length m) zero) ! j =
      map2 (\<lambda>b x. if b \<noteq> 0 then x else zero) m xs ! j"
      using j assms by (simp add: nonzero_def)
  qed (use assms in simp)
  then show ?thesis using len nonzero_bound [of _ m] by (auto simp: index_put_first_axis_def list_all_iff)
qed

lemma width_concat: "\<forall>r \<in> set rows. length r = s \<Longrightarrow> length (concat rows) = length rows * s"
  by (induction rows) auto

lemma rows_of_concat:
  assumes "\<forall>r \<in> set rows. length r = s"
  shows "rows_of (length rows) s (concat rows) = rows"
proof (rule nth_equalityI)
  fix i assume "i < length (rows_of (length rows) s (concat rows))"
  then have i: "i < length rows" by (simp add: rows_of_def)
  have len: "length (concat (take k rows)) = k * s" if "k \<le> length rows" for k
    using that assms by (induction k) (auto simp: take_Suc_conv_app_nth)
  have "concat rows = concat (take i rows) @ rows ! i @ concat (drop (Suc i) rows)"
    using i by (metis concat.simps(2) concat_append id_take_nth_drop)
  then have "slice (i * s) (i * s + s) (concat rows) = rows ! i"
    using len [of i] i assms by (simp add: slice_def)
  then show "rows_of (length rows) s (concat rows) ! i = rows ! i" using i by (simp add: rows_of_def)
qed (simp add: rows_of_def)

lemma map2_mem: "r \<in> set (map2 g as bs) \<Longrightarrow> \<exists>a b. a \<in> set as \<and> b \<in> set bs \<and> r = g a b"
  by (auto dest: set_zip_leftD set_zip_rightD)

text \<open>C23: Padding undoes unpadding. For rows of one width and a mask of their shape, \<open>pad_input\<close> applied to
  what \<open>unpad_input\<close> returns gives every attended token back at its place, and zeros elsewhere.\<close>

theorem pad_unpad_input_roundtrip:
  assumes "list_all2 (\<lambda>m x. length m = s \<and> length x = s) masks rows" and "rows \<noteq> []"
  shows "rbind (unpad_input rows masks None) (\<lambda>(vals, indices, _, _, _). pad_input zero vals indices (length rows) s) =
    Inr (map2 (map2 (\<lambda>b x. if b \<noteq> 0 then x else zero)) masks rows)"
proof -
  have eq: "list_all2 (\<lambda>m x. length m = length x) masks rows" using assms(1) by (rule list_all2_mono) simp
  have n: "masks \<noteq> []" "length masks = length rows" using assms by (auto dest: list_all2_lengthD)
  have w: "\<forall>m \<in> set masks. length m = s" "\<forall>x \<in> set rows. length x = s"
    using assms(1) by (auto simp: list_all2_conv_all_nth in_set_conv_nth)
  have len: "length (concat masks) = length rows * s"
    using width_concat [OF w(1)] n(2) by simp
  have c: "map2 (\<lambda>b x. if b \<noteq> 0 then x else zero) (concat masks) (concat rows) =
    concat (map2 (map2 (\<lambda>b x. if b \<noteq> 0 then x else zero)) masks rows)"
    using eq by (induction rule: list_all2_induct) auto
  have "index_put_first_axis zero (concat (map2 select_masked masks rows)) (nonzero (concat masks)) (length rows * s) =
    Inr (concat (map2 (map2 (\<lambda>b x. if b \<noteq> 0 then x else zero)) masks rows))"
    using scatter_nonzero [of "concat rows" "concat masks" zero] length_concat_eq [OF eq] len
    by (simp add: select_masked_concat [OF eq] c [simplified])
  moreover have "rows_of (length rows) s (concat (map2 (map2 (\<lambda>b x. if b \<noteq> 0 then x else zero)) masks rows)) =
    map2 (map2 (\<lambda>b x. if b \<noteq> 0 then x else zero)) masks rows"
  proof -
    have "length r = s" if "r \<in> set (map2 (map2 (\<lambda>b x. if b \<noteq> 0 then x else zero)) masks rows)" for r
      using map2_mem [OF that] w by auto
    then show ?thesis using rows_of_concat [of "map2 (map2 (\<lambda>b x. if b \<noteq> 0 then x else zero)) masks rows" s] n(2) by simp
  qed
  ultimately show ?thesis by (simp add: unpad_input_result [OF eq n(1)] pad_input_def)
qed

subsection \<open>Computing without padding\<close>

text \<open>The attention mask of a prompt of \<open>b\<close> tokens padded on the left to \<open>P\<close> and a response of \<open>c\<close> tokens
  padded on the right to \<open>R\<close>.\<close>

definition row_mask :: "nat \<Rightarrow> nat \<Rightarrow> nat \<times> nat \<Rightarrow> nat list" where
  "row_mask P R bc = replicate (P - fst bc) 0 @ replicate (fst bc + snd bc) 1 @ replicate (R - snd bc) 0"

text \<open>What the padded computation keeps of a row of outputs: those from the last prompt token on that are
  about response tokens.\<close>

definition padded_response :: "'a \<Rightarrow> nat \<Rightarrow> nat \<Rightarrow> nat \<times> nat \<Rightarrow> 'a list \<Rightarrow> 'a list" where
  "padded_response zero P R bc out = take (snd bc) (drop (P - 1) out) @ replicate (R - snd bc) zero"

lemma length_row_mask: "fst bc \<le> P \<Longrightarrow> snd bc \<le> R \<Longrightarrow> length (row_mask P R bc) = P + R"
  by (simp add: row_mask_def)

lemma sums_row_mask:
  assumes "fst bc \<le> P" "snd bc \<le> R"
  shows "sum_list (take P (row_mask P R bc)) = fst bc" "sum_list (drop P (row_mask P R bc)) = snd bc"
  using assms by (simp_all add: row_mask_def sum_list_replicate)

lemma select_row_mask:
  assumes "fst bc \<le> P" "snd bc \<le> R" "length out = P + R"
  shows "select_masked (row_mask P R bc) out = take (fst bc + snd bc) (drop (P - fst bc) out)"
proof -
  let ?a = "P - fst bc" let ?n = "fst bc + snd bc"
  have out: "out = take ?a out @ take ?n (drop ?a out) @ drop ?n (drop ?a out)" by (metis append_take_drop_id)
  have "select_masked (row_mask P R bc) (take ?a out @ take ?n (drop ?a out) @ drop ?n (drop ?a out)) = take ?n (drop ?a out)"
    unfolding row_mask_def using assms by (subst select_masked_append, simp)+ simp
  then show ?thesis using out by simp
qed

lemma response_slice_segment:
  assumes "1 \<le> b" "length seg = b + c"
  shows "response_slice (pre @ seg @ post) c (length pre + (b + c)) = take c (drop (b - 1) seg)"
proof -
  obtain k where b: "b = Suc k" using assms(1) by (cases b) auto
  have "response_slice (pre @ seg @ post) c (length pre + (b + c)) =
    slice (length pre + (b - 1)) (length pre + (b - 1) + c) (pre @ seg @ post)"
    using assms(2) by (simp add: response_slice_def py_slice_def clip_bound_def b nat_add_distrib add.assoc)
  also have "\<dots> = take c (drop (b - 1) seg)"
    using assms by (simp add: slice_def drop_take take_append drop_append)
  finally show ?thesis .
qed

lemma drop_segment: "1 \<le> b \<Longrightarrow> b \<le> P \<Longrightarrow> take c (drop (b - 1) (take (b + c) (drop (P - b) out))) = take c (drop (P - 1) out)"
  by (simp add: drop_take min_def)

lemma responses_of_segments:
  assumes "list_all2 (\<lambda>bc out. 1 \<le> fst bc \<and> fst bc \<le> P \<and> snd bc \<le> R \<and> length out = P + R) lens outs"
  shows "rmap (\<lambda>(resp_len, seq_offset). fpad zero (response_slice
        (pre @ concat (map2 (\<lambda>bc out. select_masked (row_mask P R bc) out) lens outs)) resp_len seq_offset) (int R - int resp_len))
      (zip (map snd lens) (running_sums (length pre) (map (\<lambda>bc. fst bc + snd bc) lens))) =
    Inr (map2 (padded_response zero P R) lens outs)"
  using assms
proof (induction arbitrary: pre rule: list_all2_induct)
  case (Cons bc lens out outs)
  let ?b = "fst bc" let ?c = "snd bc"
  let ?seg = "select_masked (row_mask P R bc) out"
  let ?rest = "concat (map2 (\<lambda>bc out. select_masked (row_mask P R bc) out) lens outs)"
  have seg: "?seg = take (?b + ?c) (drop (P - ?b) out)" "length ?seg = ?b + ?c"
    using Cons.hyps(1) select_row_mask [of bc P R out] by auto
  have "response_slice (pre @ ?seg @ ?rest) ?c (length pre + (?b + ?c)) = take ?c (drop (P - 1) out)"
    using response_slice_segment [OF _ seg(2), of pre ?rest] drop_segment [of ?b P ?c out] Cons.hyps(1) seg(1) by simp
  moreover have "fpad zero (take ?c (drop (P - 1) out)) (int R - int ?c) = Inr (padded_response zero P R bc out)"
    using Cons.hyps(1) by (simp add: fpad_def padded_response_def of_nat_diff [symmetric] del: of_nat_diff)
  moreover have "length (pre @ ?seg) = length pre + (?b + ?c)" using seg(2) by simp
  ultimately show ?case using Cons.IH [of "pre @ ?seg"] by simp
qed simp

lemma running_sums_Nil [simp]: "running_sums a xs = [] \<longleftrightarrow> xs = []"
  by (cases xs) auto

lemma last_running_sums: "xs \<noteq> [] \<Longrightarrow> last (running_sums a xs) = a + sum_list xs"
  by (induction xs arbitrary: a) auto

lemma stack_rows: "(\<And>r. r \<in> set rows \<Longrightarrow> length r = n) \<Longrightarrow> rows \<noteq> [] \<Longrightarrow> stack rows = Inr rows"
  by (cases rows) (simp_all add: stack_def list_all_iff)

text \<open>C27: Computing without padding gives what computing with padding gives. Take the model's outputs for a
  padded batch whose prompts have at least one token. Unpadding them and calling \<open>no_padding_2_padding\<close>
  passes its assertion and returns, for each sequence, the outputs at the last prompt token and at all
  response tokens but the last, padded to the width of the responses: what the padded path reads with
  \<open>output[:, -R - 1 : -1]\<close> under the response's mask.\<close>

theorem no_padding_is_padding:
  assumes "list_all2 (\<lambda>bc out. 1 \<le> fst bc \<and> fst bc \<le> P \<and> snd bc \<le> R \<and> length out = P + R) lens outs" and "lens \<noteq> []"
  shows "rbind (unpad_input outs (map (row_mask P R) lens) None) (\<lambda>(vals, _, _, _, _).
      no_padding_2_padding zero vals (PaddedMask P R (map (row_mask P R) lens)) max_len) =
    Inr (map2 (padded_response zero P R) lens outs)"
proof -
  let ?masks = "map (row_mask P R) lens"
  let ?vals = "concat (map2 (\<lambda>bc out. select_masked (row_mask P R bc) out) lens outs)"
  have each: "1 \<le> fst bc \<and> fst bc \<le> P \<and> snd bc \<le> R" if "bc \<in> set lens" for bc
    using assms(1) that by (auto simp: list_all2_conv_all_nth in_set_conv_nth)
  have len: "length lens = length outs" using assms(1) by (rule list_all2_lengthD)
  have "list_all2 (\<lambda>m x. length m = length x) ?masks outs"
    unfolding list_all2_map1 using assms(1) by (rule list_all2_mono) (simp add: length_row_mask)
  moreover have "map2 select_masked ?masks outs = map2 (\<lambda>bc out. select_masked (row_mask P R bc) out) lens outs"
    by (simp add: zip_map1 case_prod_unfold comp_def)
  ultimately have un: "unpad_input outs ?masks None = Inr (?vals, nonzero (concat ?masks),
      0 # running_sums 0 (map sum_list ?masks), Max (set (map sum_list ?masks)), map sum_list ?masks)"
    using unpad_input_result [of ?masks outs] assms(2) by simp
  have pl: "map (\<lambda>m. sum_list (take P m)) ?masks = map fst lens" "map (\<lambda>m. sum_list (drop P m)) ?masks = map snd lens"
    using each by (simp_all add: sums_row_mask)
  have sums: "map2 (+) (map fst lens) (map snd lens) = map (\<lambda>bc. fst bc + snd bc) lens"
    by (simp add: zip_map1 zip_map2 zip_same_conv_map case_prod_unfold comp_def)
  have "length ?vals = sum_list (map (\<lambda>bc. fst bc + snd bc) lens)"
    using assms(1) by (induction rule: list_all2_induct) (auto simp: select_row_mask)
  then have lst: "last (running_sums 0 (map (\<lambda>bc. fst bc + snd bc) lens)) = length ?vals"
    using last_running_sums [of "map (\<lambda>bc. fst bc + snd bc) lens" 0] assms(2) by simp
  have ne: "running_sums 0 (map (\<lambda>bc. fst bc + snd bc) lens) \<noteq> []" using assms(2) by (cases lens) auto
  have ne': "map2 (padded_response zero P R) lens outs \<noteq> []"
    using assms(2) len by (metis length_0_conv length_map map_fst_zip)
  have "length r = R" if "r \<in> set (map2 (padded_response zero P R) lens outs)" for r
    using that assms(1) unfolding list_all2_iff by (fastforce simp: padded_response_def)
  then have "stack (map2 (padded_response zero P R) lens outs) = Inr (map2 (padded_response zero P R) lens outs)"
    using stack_rows [OF _ ne', of R] by blast
  moreover have "no_padding_2_padding zero ?vals (PaddedMask P R ?masks) max_len =
    rbind (rmap (\<lambda>(resp_len, seq_offset). fpad zero (response_slice ?vals resp_len seq_offset) (int R - int resp_len))
      (zip (map snd lens) (running_sums 0 (map (\<lambda>bc. fst bc + snd bc) lens)))) stack"
    unfolding no_padding_2_padding_def lengths.case pl rbind.simps prod.case sums Let_def using ne lst by simp
  ultimately show ?thesis using responses_of_segments [OF assms(1), of zero "[]"] by (simp add: un)
qed

text \<open>A sequence without a prompt token reads the output of the sequence before it; the first one reads
  from the end of the batch.\<close>

lemma empty_prompt_reads_neighbour:
  "no_padding_2_padding 0 [1, 2, 3, 4 :: int] (PaddedMask 1 2 [[1, 1, 0], [0, 1, 1]]) (- 1) = Inr [[1, 0], [2, 3]]"
  "no_padding_2_padding 0 [1, 2 :: int] (PaddedMask 1 2 [[0, 1, 1]]) (- 1) = Inr [[]]"
  by (simp_all add: no_padding_2_padding_def response_slice_def py_slice_def clip_bound_def slice_def fpad_def stack_def
      Let_def nat_eq_iff)

text \<open>The loss mask and the other parts of the nested data.\<close>

lemma left_right_missing_key:
  "pd_input_ids data = None \<Longrightarrow> left_right_2_no_padding data = Inl AssertionError"
  by (simp add: left_right_2_no_padding_def required_def)

theorem pad_unpad_input_roundtrip_witness:
  "rbind (unpad_input [[1, 2, 3], [4, 5, 6 :: int]] [[0, 1, 1], [1, 1, 0]] None)
     (\<lambda>(vals, indices, _, _, _). pad_input 0 vals indices 2 3) = Inr [[0, 2, 3], [4, 5, 0]]"
  using pad_unpad_input_roundtrip [of 3 "[[0, 1, 1], [1, 1, 0]]" "[[1, 2, 3], [4, 5, 6 :: int]]" 0]
  by (simp add: numeral_2_eq_2)

theorem no_padding_is_padding_witness:
  "rbind (unpad_input [[9, 1, 2, 3], [4, 5, 6, 8 :: int]] [[0, 1, 1, 1], [1, 1, 1, 0]] None) (\<lambda>(vals, _, _, _, _).
      no_padding_2_padding 0 vals (PaddedMask 2 2 [[0, 1, 1, 1], [1, 1, 1, 0]]) (- 1)) = Inr [[1, 2], [5, 0]]"
proof -
  have m: "map (row_mask 2 2) [(1, 2), (2, 1)] = [[0, 1, 1, 1], [1, 1, 1, 0]]"
    by (simp add: row_mask_def numeral_eq_Suc)
  have "rbind (unpad_input [[9, 1, 2, 3], [4, 5, 6, 8 :: int]] (map (row_mask 2 2) [(1, 2), (2, 1)]) None) (\<lambda>(vals, _, _, _, _).
      no_padding_2_padding 0 vals (PaddedMask 2 2 (map (row_mask 2 2) [(1, 2), (2, 1)])) (- 1)) =
    Inr (map2 (padded_response 0 2 2) [(1, 2), (2, 1)] [[9, 1, 2, 3], [4, 5, 6, 8]])"
    by (rule no_padding_is_padding) simp_all
  then show ?thesis unfolding m by (simp add: padded_response_def)
qed

end
