(* ===== verification/Spec2Isabelle.thy ===== *)
theory Spec2Isabelle
  imports MicroBatch CovLoss Sdpg Registry KlControl RolloutPresets Advantage ProtocolTyping Controller Rollouter Trainer AgentBatch Serving Validation RateLimit WeightTransfer CheckpointEngine Checkpoints ReplayPool Unpad
begin

text \<open>
  \<^bold>\<open>The program.\<close> The repository trains language models by reinforcement learning. A driver holds
  batches (\<open>verl/protocol.py\<close>), sends pieces of them to groups of remote workers
  (\<open>verl/single_controller\<close>), balances them by length (\<open>verl/utils/seqlen_balancing.py\<close>), computes
  advantages and KL penalties, and the workers evaluate the policy losses
  (\<open>verl/trainer/ppo/core_algos.py\<close>) corrected for off-policy data
  (\<open>verl/trainer/ppo/rollout_corr_helper.py\<close>). In the fully asynchronous variant a rollouter feeds the
  trainer through a message queue (\<open>verl/experimental/fully_async_policy\<close>). The library models this core,
  its numbers, its batches and its protocols; neural networks and engines are outside it, and of files only their names.

  \<^bold>\<open>The theories.\<close>
  \<^item> \<open>Prelude\<close>: exceptions, results, dictionaries as association lists, slices, shared lemmas.
    \<open>PyString\<close>: string methods. \<open>PyValue\<close>: the Python values found in \<open>meta_info\<close> and object arrays.
  \<^item> \<open>Tensor\<close> (\<open>torch_functional.py\<close>): matrices, masked statistics, response masks, padding.
  \<^item> \<open>PolicyLoss\<close>, \<open>CovLoss\<close>, \<open>Sdpg\<close> (\<open>core_algos.py\<close>): \<open>agg_loss\<close> and all registered losses;
    the self-distilled losses with their schedules. \<open>Registry\<close>: the two registries, one locale for both.
  \<^item> \<open>KlControl\<close> (\<open>core_algos.py\<close>): KL estimators and controllers, value loss, entropy, PF-PPO weights.
  \<^item> \<open>Advantage\<close> (\<open>core_algos.py\<close>, \<open>groupwise.py\<close>): the thirteen advantage estimators.
  \<^item> \<open>RolloutCorr\<close>, \<open>RolloutPresets\<close> (\<open>rollout_corr_helper.py\<close>, \<open>config/algorithm.py\<close>).
  \<^item> \<open>SeqBalance\<close>, \<open>MicroBatch\<close> (\<open>seqlen_balancing.py\<close>): partitions and micro-batches.
  \<^item> \<open>Protocol\<close> (\<open>protocol.py\<close>): \<open>DataProto\<close>, \<open>DataProtoFuture\<close> and their operations.
    \<open>ProtocolLaws\<close>: what chunking, concatenating, padding and iterating do to the rows.
    \<open>ProtocolTyping\<close>: folding and unfolding of the batch dimension; every constructible batch is consistent.
  \<^item> \<open>Dispatch\<close> (\<open>base/decorator.py\<close>, \<open>ray/base.py\<close>): dispatch, execution and collection of worker methods.
    \<open>Controller\<close> (\<open>base/worker_group.py\<close>, \<open>ray/base.py\<close>, \<open>py_functional.py\<close>): resource pools, their
    splitting and merging, the placement of ranks, and the dynamic enumerations of dispatch modes.
  \<^item> \<open>AsyncQueue\<close> (\<open>message_queue.py\<close>, \<open>fully_async_trainer.py\<close>): the queue between rollouter and trainer.
    \<open>Rollouter\<close> (\<open>fully_async_rollouter.py\<close>): its coroutines and tasks, which may raise, the staleness limits, pausing and resuming.
  \<^item> \<open>Trainer\<close> (\<open>ppo/ray_trainer.py\<close>): KL penalty on rewards, the call of the advantage estimators, batch
    balancing, and the teacher log-probabilities of RLSD and OPSD.
  \<^item> \<open>AgentLoop\<close> (\<open>agent_loop/tool_agent_loop.py\<close>): the state machine of a multi-turn rollout with tools.
    \<open>AgentBatch\<close> (\<open>agent_loop.py\<close>, \<open>single_turn_agent_loop.py\<close>): padding of trajectories and the batch of a worker.
    \<open>Serving\<close> (\<open>agent_loop/agent_loop.py\<close>, \<open>router/naive_router.py\<close>): choosing a server for a request.
  \<^item> \<open>Metrics\<close> (\<open>utils/metric\<close>, \<open>detach_utils.py\<close>): metrics and their aggregation over ranks and steps.
    \<open>DataMetrics\<close>, \<open>Validation\<close> (\<open>metric_utils.py\<close>): the metrics of a training batch; bootstrap and votes.
  \<^item> \<open>MathReward\<close>, \<open>DapoReward\<close>, \<open>TextScores\<close> (\<open>utils/reward_score\<close>): the rule-based scores and their dispatch.
    \<open>RewardManager\<close> (\<open>reward_manager\<close>), \<open>RateLimit\<close> (\<open>reward_loop/reward_manager/limited.py\<close>): rewards of a batch, the token bucket.
  \<^item> \<open>WeightTransfer\<close> (\<open>checkpoint_engine/nccl_checkpoint_engine.py\<close>): weights sent to the rollout ranks in two alternating buckets.
    \<open>CheckpointEngine\<close> (\<open>checkpoint_engine/base.py\<close> and the engines): topologies of ranks, process groups, the manager.
  \<^item> \<open>Checkpoints\<close> (\<open>utils/checkpoint\<close>): saving on a disk by all ranks, in the orders that the barriers allow, rotation, the tracker file, resuming.
  \<^item> \<open>ReplayPool\<close> (\<open>experimental/vla/sac/replay_pool.py\<close>): the ring buffer of off-policy training, saved and loaded.
    \<open>Unpad\<close> (\<open>workers/utils/padding.py\<close>, \<open>npu_flash_attn_utils.py\<close>): computing without padding.

  \<^bold>\<open>State.\<close> A method that changes \<open>self\<close> returns the new value; errors are the left values of a sum, one
  constructor of \<open>py_error\<close> for each exception class. Registries, worker groups, enumerations and the queue
  are records passed along. The queue with its waiting consumers is a step relation, one step for
  each critical section of its lock and one for each wake-up. The rollouter is an executable step function over
  events, one event for what a coroutine runs between two awaits; reachability is inductive over it. A save is a list of operations on a
  disk, interleaved over the ranks by a schedule, and a crash cuts the list anywhere.

  \<^bold>\<open>What the lemmas show.\<close> Each component has an invariant or well-formedness predicate (\<open>rect\<close>, \<open>td_wf\<close>,
  \<open>consistent\<close>, \<open>mq_inv\<close>, \<open>ro_inv\<close>, \<open>live_inv\<close>) with a preservation lemma for each operation; the properties follow from these.
  \<open>data_parallel_call\<close> and \<open>mesh_call\<close> compose the batch laws with dispatch and collection;
  \<open>balanced_chunks_are_partition\<close>, \<open>grpo_ignores_balancing\<close> and \<open>teacher_log_prob_ignores_balancing\<close> compose partitions, batches,
  chunking and estimators the way the trainer does.

  \<^bold>\<open>Idealisations.\<close> Floats are reals; a result that would be infinite or not a number is \<open>Inl NonFinite\<close>.
  Values are modelled and gradients are not, so \<open>detach\<close> is the identity. Of torch, numpy and tensordict
  the documented effect on values and on the batch dimension is written out where the code calls it; \<open>topk\<close>,
  \<open>randperm\<close>, \<open>all_reduce\<close>, samplers and remote methods are parameters. \<open>ray.put\<close> and \<open>ray.get\<close> are
  the identity on values. Sharing of mutable objects between batches is not represented.

  \<^bold>\<open>Loops.\<close> Recursion is structural or has a measure, such as the number of states in the heap. The loop of
  \<open>pad_dataproto_to_divisor\<close> is a partial function, because on an empty batch its body makes no progress;
  \<open>pad_unpad_roundtrip\<close> shows that it ends wherever the code enters it. No fuel is used.
  The agent loop is a partial function too; \<open>tool_agent_terminates\<close> gives the two conditions under which it returns.

  \<^bold>\<open>Not modelled.\<close> Serialisation, devices, printing, and the conversions to and from \<open>TensorDict\<close> of
  \<open>DataProto\<close>; starting and supervising Ray actors; workers, models, kernels, engines, the contents of checkpoint files,
  datasets, tools and metrics back ends, which are calls of external systems; the trainers' main loops and, in \<open>Trainer\<close>, the
  engine variant without padding.

  \<^bold>\<open>Plan.\<close> Next: micro-batched log-probabilities of the actor, learning-rate schedules, validation of configurations.
\<close>

end
